(* ===== verification/Prelude.thy ===== *)
theory Prelude
  imports Main "HOL-Library.Multiset" "HOL-Library.Product_Lexorder"
begin

text \<open>
  Shared vocabulary of the development: exceptions as values of a sum type and the sequencing of
  fallible steps, database tables as lists of rows with a primary key and the locale of the laws
  every table satisfies, two-place decimals as whole hundredths with the half-up rounding of
  \<^verbatim>\<open>Decimal.quantize\<close>, and the decimal printing and parsing of Python's integers that invoice and
  batch numbers use.
\<close>

named_theorems row_simps \<open>laws of table reads and writes\<close>
named_theorems res_simps \<open>inversion of fallible computations\<close>


section \<open>Exceptions\<close>

text \<open>
  One constructor per exception class the services raise or handle. A message built by an
  f-string is its template and the interpolated values.
\<close>

datatype fmt_arg = FStr string | FInt int | FDec int

datatype exn =
    ValueError string
  | ValueErrorF string "fmt_arg list"
  | InvoiceNumberConflict int
  | EncodingConflict
  | SubmissionConflict
  | AdjustmentSubmissionConflict
  | PaymentLockedError
  | ValidationError string string
  | DoesNotExist string
  | ProtectedError
  | IntegrityError
  | DataError
  | RuntimeError string
  | AuthenticationFailed string
  | PermissionDenied string
  | TokenError
  | HistoryFilterError string string
  | KeyError int

type_synonym 'a res = "exn + 'a"

fun rbind :: "'a res \<Rightarrow> ('a \<Rightarrow> 'b res) \<Rightarrow> 'b res" where
  "rbind (Inl e) f = Inl e"
| "rbind (Inr x) f = f x"

text \<open>A loop whose body may raise: the first exception leaves the loop.\<close>

fun rfold :: "('s \<Rightarrow> 'x \<Rightarrow> 's res) \<Rightarrow> 's \<Rightarrow> 'x list \<Rightarrow> 's res" where
  "rfold f s [] = Inr s"
| "rfold f s (x # xs) = rbind (f s x) (\<lambda>s'. rfold f s' xs)"

fun rmap :: "('x \<Rightarrow> 'y res) \<Rightarrow> 'x list \<Rightarrow> 'y list res" where
  "rmap f [] = Inr []"
| "rmap f (x # xs) = rbind (f x) (\<lambda>y. rbind (rmap f xs) (\<lambda>ys. Inr (y # ys)))"

lemma rbind_Inr_iff [simp, res_simps]: "rbind m f = Inr y \<longleftrightarrow> (\<exists>x. m = Inr x \<and> f x = Inr y)"
  by (cases m) auto

lemma rbind_Inl_iff [res_simps]:
  "rbind m f = Inl e \<longleftrightarrow> m = Inl e \<or> (\<exists>x. m = Inr x \<and> f x = Inl e)"
  by (cases m) auto

text \<open>A value or its default.\<close>

definition fill :: "'a option \<Rightarrow> 'a \<Rightarrow> 'a" where
  "fill v d = (case v of None \<Rightarrow> d | Some x \<Rightarrow> x)"

text \<open>A guard that raises: an early return of an exception.\<close>

lemma guard_Inr [res_simps]: "(if c then Inl e else m) = Inr r \<longleftrightarrow> \<not> c \<and> m = Inr r"
  by auto

lemma guard_opt_Inr [res_simps]:
  "(case v of None \<Rightarrow> Inl e | Some x \<Rightarrow> f x) = Inr r \<longleftrightarrow> (\<exists>x. v = Some x \<and> f x = Inr r)"
  by (auto split: option.splits)

lemma guard_none_Inr [res_simps]:
  "(case v of None \<Rightarrow> m | Some x \<Rightarrow> Inl (f x)) = Inr r \<longleftrightarrow> v = None \<and> m = Inr r"
  by (auto split: option.splits)

lemma guard_sum_Inr [res_simps]:
  "(case m of Inl e \<Rightarrow> Inl (g e) | Inr s \<Rightarrow> f s) = Inr r \<longleftrightarrow> (\<exists>s. m = Inr s \<and> f s = Inr r)"
  by (auto split: sum.splits)

lemma rfold_invariant:
  assumes "rfold f s xs = Inr s'" and "P s"
    and "\<And>s x s'. x \<in> set xs \<Longrightarrow> f s x = Inr s' \<Longrightarrow> P s \<Longrightarrow> P s'"
  shows "P s'"
  using assms by (induction xs arbitrary: s) auto

lemma rfold_append:
  "rfold f s (xs @ ys) = rbind (rfold f s xs) (\<lambda>s'. rfold f s' ys)"
proof (induction xs arbitrary: s)
  case (Cons x xs)
  then show ?case by (cases "f s x") auto
qed simp

lemma rmap_length: "rmap f xs = Inr ys \<Longrightarrow> length ys = length xs"
  by (induction xs arbitrary: ys) auto

lemma rmap_nth: "rmap f xs = Inr ys \<Longrightarrow> i < length xs \<Longrightarrow> f (xs ! i) = Inr (ys ! i)"
proof (induction xs arbitrary: ys i)
  case (Cons x xs)
  then show ?case by (cases i) auto
qed simp


section \<open>Tables\<close>

text \<open>
  A table is the list of its rows in the order of insertion. \<open>row_get\<close> is
  \<^verbatim>\<open>objects.get(pk=k)\<close>, \<open>row_save\<close> is \<^verbatim>\<open>save()\<close> on a row read before, \<open>row_ins\<close> is
  \<^verbatim>\<open>objects.create\<close> and \<open>row_del\<close> is \<^verbatim>\<open>delete()\<close>.
\<close>

definition row_get :: "('r \<Rightarrow> nat) \<Rightarrow> 'r list \<Rightarrow> nat \<Rightarrow> 'r option" where
  "row_get key t k = find (\<lambda>r. key r = k) t"

definition row_save :: "('r \<Rightarrow> nat) \<Rightarrow> 'r \<Rightarrow> 'r list \<Rightarrow> 'r list" where
  "row_save key r t = map (\<lambda>x. if key x = key r then r else x) t"

definition row_ins :: "'r \<Rightarrow> 'r list \<Rightarrow> 'r list" where
  "row_ins r t = t @ [r]"

definition row_del :: "('r \<Rightarrow> nat) \<Rightarrow> nat \<Rightarrow> 'r list \<Rightarrow> 'r list" where
  "row_del key k t = filter (\<lambda>x. key x \<noteq> k) t"

text \<open>
  The primary key of a new row: larger than every key in the table. PostgreSQL's sequences may
  also leave gaps; the code relies only on the new key being unused and larger.
\<close>

definition new_pk :: "('r \<Rightarrow> nat) \<Rightarrow> 'r list \<Rightarrow> nat" where
  "new_pk key t = Suc (foldr (\<lambda>r m. max (key r) m) t 0)"

definition keys_ok :: "('r \<Rightarrow> nat) \<Rightarrow> 'r list \<Rightarrow> bool" where
  "keys_ok key t = distinct (map key t)"

lemma new_pk_greater: "r \<in> set t \<Longrightarrow> key r < new_pk key t"
proof -
  assume "r \<in> set t"
  then have "key r \<le> foldr (\<lambda>r m. max (key r) m) t 0"
    by (induction t) auto
  then show ?thesis by (simp add: new_pk_def)
qed

lemma new_pk_fresh [simp]: "new_pk key t \<notin> key ` set t"
  using new_pk_greater [of _ t key] by (metis imageE less_irrefl)

lemma row_get_Some: "row_get key t k = Some r \<Longrightarrow> r \<in> set t \<and> key r = k"
  by (auto simp: row_get_def find_Some_iff)

lemma row_get_None: "row_get key t k = None \<longleftrightarrow> k \<notin> key ` set t"
  by (auto simp: row_get_def find_None_iff)

lemma row_get_iff:
  "keys_ok key t \<Longrightarrow> row_get key t k = Some r \<longleftrightarrow> r \<in> set t \<and> key r = k"
proof (induction t)
  case (Cons x t)
  then show ?case by (auto simp: keys_ok_def row_get_def)
qed (simp add: row_get_def)

lemma map_key_row_save [simp, row_simps]: "map key (row_save key r t) = map key t"
  by (auto simp: row_save_def)

lemma length_row_save [simp, row_simps]: "length (row_save key r t) = length t"
  by (simp add: row_save_def)

lemma keys_ok_save [simp, row_simps]: "keys_ok key (row_save key r t) = keys_ok key t"
  by (simp add: keys_ok_def)

lemma keys_ok_ins [row_simps]:
  "keys_ok key (row_ins r t) \<longleftrightarrow> keys_ok key t \<and> key r \<notin> key ` set t"
  by (auto simp: keys_ok_def row_ins_def)

lemma row_get_save [row_simps]:
  "row_get key (row_save key r t) k =
     (if k = key r \<and> row_get key t k \<noteq> None then Some r else row_get key t k)"
  by (induction t) (auto simp: row_get_def row_save_def)

lemma row_get_ins [row_simps]:
  "key r \<notin> key ` set t \<Longrightarrow>
     row_get key (row_ins r t) k = (if k = key r then Some r else row_get key t k)"
  by (induction t) (auto simp: row_get_def row_ins_def)

lemma set_row_save:
  "x \<in> set (row_save key r t) \<Longrightarrow> x = r \<or> (x \<in> set t \<and> key x \<noteq> key r)"
  by (auto simp: row_save_def split: if_splits)

lemma filter_row_save_other:
  assumes "\<And>x. x \<in> set t \<Longrightarrow> key x = key r \<Longrightarrow> \<not> P x" and "\<not> P r"
  shows "filter P (row_save key r t) = filter P t"
  using assms by (induction t) (auto simp: row_save_def)

lemma sum_row_save:
  assumes "keys_ok key t" and "row_get key t (key r) = Some old"
  shows "(\<Sum>x\<leftarrow>row_save key r t. f x) = (\<Sum>x\<leftarrow>t. f x) - f old + (f r :: int)"
  using assms
proof (induction t)
  case (Cons x t)
  show ?case
  proof (cases "key x = key r")
    case True
    with Cons.prems have "old = x" by (simp add: row_get_def)
    moreover have "row_save key r t = t"
    proof -
      from Cons.prems True have "key r \<notin> key ` set t" by (auto simp: keys_ok_def)
      then have "key x \<noteq> key r" if "x \<in> set t" for x using that by (metis imageI)
      then show ?thesis by (auto simp: row_save_def intro!: map_idI)
    qed
    ultimately show ?thesis using True by (simp add: row_save_def)
  next
    case False
    with Cons show ?thesis by (simp add: row_get_def row_save_def keys_ok_def)
  qed
qed (simp add: row_get_def)

text \<open>
  What a service relies on when it reads and writes a table. The locale is interpreted for each
  table of the program in the theory that declares its rows.
\<close>

locale row_table =
  fixes key :: "'r \<Rightarrow> nat"
    and get :: "'t \<Rightarrow> nat \<Rightarrow> 'r option"
    and save :: "'r \<Rightarrow> 't \<Rightarrow> 't"
    and ins :: "'r \<Rightarrow> 't \<Rightarrow> 't"
    and rows :: "'t \<Rightarrow> 'r list"
    and ok :: "'t \<Rightarrow> bool"
  assumes get_iff: "ok t \<Longrightarrow> get t k = Some r \<longleftrightarrow> r \<in> set (rows t) \<and> key r = k"
    and get_save: "get (save r t) k = (if k = key r \<and> get t k \<noteq> None then Some r else get t k)"
    and get_ins: "key r \<notin> key ` set (rows t) \<Longrightarrow>
          get (ins r t) k = (if k = key r then Some r else get t k)"
    and ok_save: "ok (save r t) \<longleftrightarrow> ok t"
    and ok_ins: "ok (ins r t) \<longleftrightarrow> ok t \<and> key r \<notin> key ` set (rows t)"
    and rows_save: "x \<in> set (rows (save r t)) \<Longrightarrow> x = r \<or> (x \<in> set (rows t) \<and> key x \<noteq> key r)"
    and rows_ins: "rows (ins r t) = rows t @ [r]"
begin

lemma get_key: "ok t \<Longrightarrow> get t k = Some r \<Longrightarrow> key r = k"
  by (simp add: get_iff)

lemma get_saved: "get t (key r) = Some old \<Longrightarrow> get (save r t) (key r) = Some r"
  by (simp add: get_save)

lemma get_save_other: "k \<noteq> key r \<Longrightarrow> get (save r t) k = get t k"
  by (simp add: get_save)

lemma save_all:
  "(\<And>x. x \<in> set (rows t) \<Longrightarrow> P x) \<Longrightarrow> P r \<Longrightarrow> x \<in> set (rows (save r t)) \<Longrightarrow> P x"
  using rows_save by blast

lemma ins_all:
  "(\<And>x. x \<in> set (rows t) \<Longrightarrow> P x) \<Longrightarrow> P r \<Longrightarrow> x \<in> set (rows (ins r t)) \<Longrightarrow> P x"
  by (auto simp: rows_ins)

lemma rows_nonempty_save: "ok t \<Longrightarrow> x \<in> set (rows t) \<Longrightarrow> key x \<noteq> key r \<Longrightarrow> x \<in> set (rows (save r t))"
  using get_iff [of t "key x" x] get_iff [of "save r t" "key x" x] ok_save [of r t]
  by (simp add: get_save)

end

lemma row_table_list:
  "row_table key (row_get key) (row_save key) row_ins (\<lambda>t. t) (keys_ok key)"
  by unfold_locales
    (simp_all add: row_get_iff row_get_save row_get_ins keys_ok_ins set_row_save,
     simp add: row_ins_def)


section \<open>Keyed requests\<close>

text \<open>
  The contract of an endpoint with an idempotency key. \<open>saved k s\<close> is what the store remembers under a
  key: the identity of the first request and its answer. A valid request whose key is known is answered
  from the store or refused, without a write; the first success under a key is remembered; and nothing
  an endpoint does forgets a key. The lemmas say what a client that repeats a request may rely on, at
  any later time. \<open>serve\<close> is the state after a sequence of requests, where a refused one changes nothing.
\<close>

definition serve :: "('x \<Rightarrow> 's \<Rightarrow> ('a \<times> 's) res) \<Rightarrow> 'x list \<Rightarrow> 's \<Rightarrow> 's" where
  "serve submit xs s = foldl (\<lambda>s x. case submit x s of Inl _ \<Rightarrow> s | Inr (_, s') \<Rightarrow> s') s xs"

locale keyed_request =
  fixes submit :: "'x \<Rightarrow> 's \<Rightarrow> (('r \<times> bool) \<times> 's) res"
    and key :: "'x \<Rightarrow> 'k option"
    and valid :: "'x \<Rightarrow> bool"
    and identity :: "'x \<Rightarrow> 'p"
    and saved :: "'k \<Rightarrow> 's \<Rightarrow> ('p \<times> 'r) option"
    and conflict :: exn
  assumes replay: "key x = Some k \<Longrightarrow> valid x \<Longrightarrow> saved k s = Some (p, r) \<Longrightarrow>
        submit x s = (if identity x = p then Inr ((r, False), s) else Inl conflict)"
    and first: "key x = Some k \<Longrightarrow> saved k s = None \<Longrightarrow> submit x s = Inr ((r, c), s') \<Longrightarrow>
        c \<and> saved k s' = Some (identity x, r)"
    and success_valid: "submit x s = Inr (a, s') \<Longrightarrow> valid x"
    and keeps: "saved k s = Some v \<Longrightarrow> submit x s = Inr (a, s') \<Longrightarrow> saved k s' = Some v"
begin

lemma serve_keeps: "saved k s = Some v \<Longrightarrow> saved k (serve submit xs s) = Some v"
proof (induction xs arbitrary: s)
  case (Cons x xs)
  let ?s = "case submit x s of Inl _ \<Rightarrow> s | Inr (_, s') \<Rightarrow> s'"
  have "saved k ?s = Some v"
    using Cons.prems keeps [OF Cons.prems, of x] by (auto split: sum.splits)
  then show ?case using Cons.IH [of ?s] by (simp add: serve_def)
qed (simp add: serve_def)

lemma remembered:
  assumes "submit x s = Inr ((r, c), s')" and "key x = Some k"
  shows "saved k s' = Some (identity x, r)"
proof (cases "saved k s")
  case None
  with first assms show ?thesis by blast
next
  case (Some v)
  obtain p r0 where v: "v = (p, r0)" by (cases v)
  from replay [OF assms(2) success_valid [OF assms(1)]] Some assms(1) v have "p = identity x" "r0 = r"
    by (auto split: if_splits)
  with keeps [OF Some assms(1)] v show ?thesis by simp
qed

lemma retry:
  assumes "submit x s = Inr ((r, c), s')" and "key x = Some k"
  shows "submit x (serve submit xs s') = Inr ((r, False), serve submit xs s')"
  using replay [OF assms(2) success_valid [OF assms(1)] serve_keeps [OF remembered [OF assms]]] by simp

lemma reuse_refused:
  assumes "submit x s = Inr ((r, c), s')" and "key x = Some k" and "key y = Some k" and "valid y"
    and "identity y \<noteq> identity x"
  shows "submit y (serve submit xs s') = Inl conflict"
  using replay [OF assms(3,4) serve_keeps [OF remembered [OF assms(1,2)]]] assms(5) by simp

end


section \<open>Decimals with two places\<close>

text \<open>
  A \<^verbatim>\<open>DecimalField(decimal_places=2)\<close> holds a whole number of hundredths. \<open>round_half_up\<close> takes a
  number of ten-thousandths (the product of two such fields) to hundredths the way
  \<^verbatim>\<open>quantize(CENT, rounding=ROUND_HALF_UP)\<close> does: ties go away from zero.
\<close>

type_synonym dec = int

definition round_half_up :: "int \<Rightarrow> dec" where
  "round_half_up x = sgn x * ((\<bar>x\<bar> + 50) div 100)"

lemma round_half_up_bounds: "2 * \<bar>100 * round_half_up x - x\<bar> \<le> 100"
  by (cases "x < 0"; cases "x = 0") (auto simp: round_half_up_def)

lemma round_half_up_mono: "x \<le> y \<Longrightarrow> round_half_up x \<le> round_half_up y"
proof -
  assume xy: "x \<le> y"
  consider "x < 0" "0 \<le> y" | "x < 0" "y < 0" | "0 \<le> x" by linarith
  then show ?thesis
  proof cases
    case 1
    then have "round_half_up x \<le> 0" "0 \<le> round_half_up y"
      by (auto simp: round_half_up_def sgn_if)
    then show ?thesis by linarith
  next
    case 2
    with xy have "(- y + 50) div 100 \<le> (- x + 50) div 100" by (intro zdiv_mono1) auto
    with 2 show ?thesis by (simp add: round_half_up_def)
  next
    case 3
    with xy show ?thesis
      by (cases "x = 0"; cases "y = 0") (auto simp: round_half_up_def intro!: zdiv_mono1)
  qed
qed

lemma round_half_up_exact [simp]: "round_half_up (100 * c) = c"
  by (cases "c < 0"; cases "c = 0") (auto simp: round_half_up_def)

lemma round_half_up_0 [simp]: "round_half_up 0 = 0"
  by (simp add: round_half_up_def)

lemma round_half_up_nonneg: "0 \<le> x \<Longrightarrow> 0 \<le> round_half_up x"
  using round_half_up_mono [of 0 x] by simp


section \<open>Strings\<close>

text \<open>
  Text is the ASCII part of Python's strings. \<open>strip\<close>, \<open>upper\<close> and \<open>casefold\<close> are the string
  methods of the same name on that part.
\<close>

definition is_space :: "char \<Rightarrow> bool" where
  "is_space c \<longleftrightarrow> of_char c \<in> {9, 10, 11, 12, 13, 28, 29, 30, 31, 32 :: nat}"

definition strip :: "string \<Rightarrow> string" where
  "strip s = rev (dropWhile is_space (rev (dropWhile is_space s)))"

definition upper_char :: "char \<Rightarrow> char" where
  "upper_char c = (if 97 \<le> (of_char c :: nat) \<and> of_char c \<le> (122 :: nat)
                   then char_of ((of_char c :: nat) - 32) else c)"

definition lower_char :: "char \<Rightarrow> char" where
  "lower_char c = (if 65 \<le> (of_char c :: nat) \<and> of_char c \<le> (90 :: nat)
                   then char_of ((of_char c :: nat) + 32) else c)"

definition upper :: "string \<Rightarrow> string" where
  "upper s = map upper_char s"

definition casefold :: "string \<Rightarrow> string" where
  "casefold s = map lower_char s"

definition digit_char :: "nat \<Rightarrow> char" where
  "digit_char d = char_of (48 + d)"

definition is_digit :: "char \<Rightarrow> bool" where
  "is_digit c \<longleftrightarrow> 48 \<le> (of_char c :: nat) \<and> of_char c \<le> (57 :: nat)"

definition digit_val :: "char \<Rightarrow> nat" where
  "digit_val c = of_char c - 48"

text \<open>\<open>str_nat\<close> is \<^verbatim>\<open>str(n)\<close>, \<open>zfill w\<close> the padding of the format \<^verbatim>\<open>:0wd\<close>, \<open>int_of\<close> is \<^verbatim>\<open>int(s)\<close> on digits.\<close>

fun str_nat :: "nat \<Rightarrow> string" where
  "str_nat n = (if n < 10 then [digit_char n] else str_nat (n div 10) @ [digit_char (n mod 10)])"

declare str_nat.simps [simp del]

definition zfill :: "nat \<Rightarrow> string \<Rightarrow> string" where
  "zfill w s = replicate (w - length s) (digit_char 0) @ s"

definition int_of :: "string \<Rightarrow> nat" where
  "int_of s = foldl (\<lambda>n c. 10 * n + digit_val c) 0 s"

lemma digit_val_digit_char [simp]: "d < 10 \<Longrightarrow> digit_val (digit_char d) = d"
  by (simp add: digit_val_def digit_char_def)

lemma is_digit_digit_char [simp]: "d < 10 \<Longrightarrow> is_digit (digit_char d)"
  by (simp add: is_digit_def digit_char_def)

lemma int_of_snoc [simp]: "int_of (s @ [c]) = 10 * int_of s + digit_val c"
  by (simp add: int_of_def)

lemma int_of_str_nat [simp]: "int_of (str_nat n) = n"
proof (induction n rule: str_nat.induct)
  case (1 n)
  then show ?case
    by (cases "n < 10") (simp_all add: str_nat.simps [of n] int_of_def)
qed

lemma str_nat_digits: "c \<in> set (str_nat n) \<Longrightarrow> is_digit c"
proof (induction n rule: str_nat.induct)
  case (1 n)
  then show ?case
    by (cases "n < 10") (auto simp: str_nat.simps [of n])
qed

lemma str_nat_nonempty [simp]: "str_nat n \<noteq> []"
  by (simp add: str_nat.simps)

lemma foldl_leading_zeros:
  "foldl (\<lambda>n c. 10 * n + digit_val c) 0 (replicate k (digit_char 0) @ s) =
   foldl (\<lambda>n c. 10 * n + digit_val c) 0 s"
  by (induction k) simp_all

lemma int_of_zfill [simp]: "int_of (zfill w s) = int_of s"
  by (simp only: int_of_def zfill_def foldl_leading_zeros)

lemma zfill_digits: "(\<And>c. c \<in> set s \<Longrightarrow> is_digit c) \<Longrightarrow> c \<in> set (zfill w s) \<Longrightarrow> is_digit c"
  by (auto simp: zfill_def)

lemma zfill_str_nat_digits: "c \<in> set (zfill w (str_nat n)) \<Longrightarrow> is_digit c"
  by (rule zfill_digits [OF str_nat_digits])

lemma length_zfill: "length (zfill w s) = max w (length s)"
  by (simp add: zfill_def)

lemma zfill_str_nat_inj: "zfill w (str_nat m) = zfill w (str_nat n) \<Longrightarrow> m = n"
  by (metis int_of_str_nat int_of_zfill)

lemma upper_char_digit [simp]: "is_digit c \<Longrightarrow> upper_char c = c"
  by (auto simp: is_digit_def upper_char_def)

lemma upper_digits: "(\<And>c. c \<in> set s \<Longrightarrow> is_digit c) \<Longrightarrow> upper s = s"
  by (simp add: upper_def map_idI)

lemma upper_append [simp]: "upper (s @ t) = upper s @ upper t"
  by (simp add: upper_def)

lemma digit_not_space: "is_digit c \<Longrightarrow> \<not> is_space c"
  by (auto simp: is_digit_def is_space_def)

lemma strip_id: "(\<And>c. c \<in> set s \<Longrightarrow> \<not> is_space c) \<Longrightarrow> strip s = s"
proof -
  assume ns: "\<And>c. c \<in> set s \<Longrightarrow> \<not> is_space c"
  have "dropWhile is_space t = t" if "\<And>c. c \<in> set t \<Longrightarrow> \<not> is_space c" for t
    using that by (cases t) auto
  from this [of s] this [of "rev s"] ns show ?thesis by (simp add: strip_def)
qed


section \<open>Lists\<close>

lemma find_append: "find P (xs @ ys) = (case find P xs of None \<Rightarrow> find P ys | Some x \<Rightarrow> Some x)"
  by (induction xs) auto

lemma find_map_update:
  "(\<And>x. P (f x) = P x) \<Longrightarrow>
   find P (map (\<lambda>x. if Q x then f x else x) xs) = map_option (\<lambda>x. if Q x then f x else x) (find P xs)"
  by (induction xs) auto

lemma sum_list_filter_split:
  "(\<Sum>x\<leftarrow>xs. f x) = (\<Sum>x\<leftarrow>filter P xs. f x) + (\<Sum>x\<leftarrow>filter (\<lambda>x. \<not> P x) xs. (f x :: int))"
  by (induction xs) auto

lemma sum_list_sort_key [simp]: "(\<Sum>x\<leftarrow>sort_key k xs. f x) = (\<Sum>x\<leftarrow>xs. (f x :: int))"
proof -
  have "mset (map f (sort_key k xs)) = mset (map f xs)" by simp
  then show ?thesis by (metis sum_mset_sum_list)
qed

lemma sum_list_nonneg_all: "(\<And>x. x \<in> set xs \<Longrightarrow> 0 \<le> (f x :: int)) \<Longrightarrow> 0 \<le> (\<Sum>x\<leftarrow>xs. f x)"
  by (induction xs) auto

end
