(* ===== verification/Calendar.thy ===== *)
theory Calendar
  imports Prelude
begin

text \<open>
  The part of Python's \<^verbatim>\<open>datetime\<close> the backend computes with. A date is its proleptic Gregorian
  ordinal (\<^verbatim>\<open>date.toordinal()\<close>, 1 January of year 1 is 1), so that \<^verbatim>\<open><\<close>, \<^verbatim>\<open>-\<close> and
  \<^verbatim>\<open>+ timedelta(days=n)\<close> are the operations on integers; year, month and day are recovered with the
  division by the 400-, 100-, 4- and 1-year cycles of the standard library. An aware datetime is
  its instant in microseconds; the configured zone (\<^verbatim>\<open>TIME_ZONE = 'Asia/Manila'\<close> in
  \<^verbatim>\<open>config/settings.py\<close>) is eight hours ahead of UTC.
\<close>

type_synonym date = int
type_synonym instant = int

definition date_max :: date where
  "date_max = 3652059"

definition is_leap :: "int \<Rightarrow> bool" where
  "is_leap y \<longleftrightarrow> y mod 4 = 0 \<and> (y mod 100 \<noteq> 0 \<or> y mod 400 = 0)"

definition days_before_year :: "int \<Rightarrow> int" where
  "days_before_year y = 365 * (y - 1) + (y - 1) div 4 - (y - 1) div 100 + (y - 1) div 400"

definition days_in_month :: "int \<Rightarrow> int \<Rightarrow> int" where
  "days_in_month y m =
     (if m = 2 then (if is_leap y then 29 else 28)
      else if m = 4 \<or> m = 6 \<or> m = 9 \<or> m = 11 then 30 else 31)"

definition days_before_month :: "int \<Rightarrow> int \<Rightarrow> int" where
  "days_before_month y m =
     (if m \<le> 1 then 0 else if m = 2 then 31
      else (if is_leap y then 1 else 0) +
        (if m = 3 then 59 else if m = 4 then 90 else if m = 5 then 120 else if m = 6 then 151
         else if m = 7 then 181 else if m = 8 then 212 else if m = 9 then 243
         else if m = 10 then 273 else if m = 11 then 304 else if m = 12 then 334 else 365))"

definition mk_date :: "int \<Rightarrow> int \<Rightarrow> int \<Rightarrow> date" where
  "mk_date y m d = days_before_year y + days_before_month y m + d"

definition year_of :: "date \<Rightarrow> int" where
  "year_of n =
     (let r400 = (n - 1) mod 146097; n100 = r400 div 36524; r100 = r400 mod 36524;
          n4 = r100 div 1461; r4 = r100 mod 1461; n1 = r4 div 365;
          y = (n - 1) div 146097 * 400 + n100 * 100 + n4 * 4 + n1
      in if n1 = 4 \<or> n100 = 4 then y else y + 1)"

definition year_day :: "date \<Rightarrow> int" where
  "year_day n = n - days_before_year (year_of n)"

definition month_of_day :: "int \<Rightarrow> int \<Rightarrow> int" where
  "month_of_day y k =
     (if k \<le> days_before_month y 2 then 1 else if k \<le> days_before_month y 3 then 2
      else if k \<le> days_before_month y 4 then 3 else if k \<le> days_before_month y 5 then 4
      else if k \<le> days_before_month y 6 then 5 else if k \<le> days_before_month y 7 then 6
      else if k \<le> days_before_month y 8 then 7 else if k \<le> days_before_month y 9 then 8
      else if k \<le> days_before_month y 10 then 9 else if k \<le> days_before_month y 11 then 10
      else if k \<le> days_before_month y 12 then 11 else 12)"

definition month_of :: "date \<Rightarrow> int" where
  "month_of n = month_of_day (year_of n) (year_day n)"

definition day_of :: "date \<Rightarrow> int" where
  "day_of n = year_day n - days_before_month (year_of n) (month_of n)"

definition weekday :: "date \<Rightarrow> int" where
  "weekday n = (n + 6) mod 7"


subsection \<open>The calendar laws\<close>

lemma div_pred:
  assumes "0 < (k :: int)"
  shows "y div k = (y - 1) div k + (if y mod k = 0 then 1 else 0)"
proof (cases "y mod k = 0")
  case True
  then obtain q where "y = k * q" by auto
  moreover have "(k * q - 1) div k = q - 1"
  proof -
    have "k * q - 1 = (k - 1) + (q - 1) * k" by (simp add: algebra_simps)
    then show ?thesis using assms by (metis add.commute add_cancel_left_left div_mult_self1
          div_pos_pos_trivial less_irrefl zle_diff1_eq order_refl)
  qed
  ultimately show ?thesis using assms by simp
next
  case False
  have "y - 1 = (y mod k - 1) + (y div k) * k" by simp
  moreover have "0 \<le> y mod k - 1" "y mod k - 1 < k"
    using False assms pos_mod_bound [of k y] pos_mod_sign [of k y] by linarith+
  ultimately have "(y - 1) div k = y div k"
    using assms by (metis add.commute div_mult_self1 div_pos_pos_trivial add_0 less_irrefl)
  with False show ?thesis by simp
qed

lemma leap_indicator:
  "(c \<Longrightarrow> b) \<Longrightarrow> (b \<Longrightarrow> a) \<Longrightarrow>
   (if a then 1 else 0) - (if b then 1 else 0) + (if c then 1 else 0) =
   (if a \<and> (\<not> b \<or> c) then 1 else (0 :: int))"
  by (cases a; cases b; cases c; simp)

lemma days_before_year_step:
  "days_before_year (y + 1) = days_before_year y + 365 + (if is_leap y then 1 else 0)"
proof -
  have "y mod 100 = 0" if "y mod 400 = 0"
  proof -
    from that have "(100 * 4) dvd y" by (simp only: mod_eq_0_iff_dvd) simp
    then have "100 dvd y" by (rule dvd_mult_left)
    then show ?thesis by (simp only: mod_eq_0_iff_dvd)
  qed
  moreover have "y mod 4 = 0" if "y mod 100 = 0" using that by presburger
  ultimately have leap: "(if y mod 4 = 0 then 1 else 0) - (if y mod 100 = 0 then 1 else 0)
      + (if y mod 400 = 0 then 1 else 0) = (if is_leap y then 1 else (0 :: int))"
    unfolding is_leap_def by (intro leap_indicator) auto
  have "days_before_year (y + 1) = 365 * y + y div 4 - y div 100 + y div 400"
    by (simp add: days_before_year_def)
  also have "\<dots> = 365 * y + ((y - 1) div 4 + (if y mod 4 = 0 then 1 else 0))
      - ((y - 1) div 100 + (if y mod 100 = 0 then 1 else 0))
      + ((y - 1) div 400 + (if y mod 400 = 0 then 1 else 0))"
    by (simp only: div_pred [of 4 y] div_pred [of 100 y] div_pred [of 400 y] zero_less_numeral)
  also have "\<dots> = days_before_year y + 365 + ((if y mod 4 = 0 then 1 else 0)
      - (if y mod 100 = 0 then 1 else 0) + (if y mod 400 = 0 then 1 else 0))"
    by (simp only: days_before_year_def algebra_simps)
  finally show ?thesis by (simp only: leap)
qed

lemma year_bounds:
  "days_before_year (year_of n) < n \<and> n \<le> days_before_year (year_of n + 1)"
proof -
  define q where "q = (n - 1) div 146097"
  define r where "r = (n - 1) mod 146097"
  define a where "a = r div 36524"
  define s where "s = r mod 36524"
  define b where "b = s div 1461"
  define t where "t = s mod 1461"
  define c where "c = t div 365"
  have n: "n = 146097 * q + r + 1" by (simp add: q_def r_def)
  have r: "0 \<le> r" "r < 146097" by (simp_all add: r_def)
  have rs: "r = 36524 * a + s" "0 \<le> s" "s < 36524" by (simp_all add: a_def s_def)
  have st: "s = 1461 * b + t" "0 \<le> t" "t < 1461" by (simp_all add: b_def t_def)
  have tc: "365 * c \<le> t" "t < 365 * c + 365" by (simp_all add: c_def)
  have a: "0 \<le> a" "a \<le> 4" using r rs by linarith+
  have b: "0 \<le> b" "b \<le> 24" using rs st by linarith+
  have c: "0 \<le> c" "c \<le> 4" using st tc by linarith+
  have y: "year_of n = (if c = 4 \<or> a = 4 then 400 * q + 100 * a + 4 * b + c
      else 400 * q + 100 * a + 4 * b + c + 1)"
    by (simp add: year_of_def Let_def q_def r_def a_def s_def b_def t_def c_def algebra_simps)
  have e4: "a = 4 \<Longrightarrow> s = 0 \<and> b = 0 \<and> t = 0 \<and> c = 0" using r rs st tc b c by linarith
  have c4: "c = 4 \<Longrightarrow> t = 1460" using tc st by linarith
  have b24: "b = 24 \<Longrightarrow> a \<le> 3 \<Longrightarrow> t \<le> 1459 \<and> c \<le> 3" using rs st tc by linarith
  have dby: "days_before_year (400 * q + 100 * a' + 4 * b' + c' + 1) =
      146097 * q + 36524 * a' + 1461 * b' + 365 * c'"
    if "0 \<le> a'" "a' \<le> 3" "0 \<le> b'" "b' \<le> 24" "0 \<le> c'" "c' \<le> 3" for a' b' c'
  proof -
    have "(400 * q + 100 * a' + 4 * b' + c') div 4 = 100 * q + 25 * a' + b'" using that by linarith
    moreover have "(400 * q + 100 * a' + 4 * b' + c') div 100 = 4 * q + a'" using that by linarith
    moreover have "(400 * q + 100 * a' + 4 * b' + c') div 400 = q" using that by linarith
    ultimately show ?thesis by (simp add: days_before_year_def)
  qed
  note step = days_before_year_step
  consider "a = 4" | "a \<le> 3" "c = 4" | "a \<le> 3" "c \<le> 3" using a c by linarith
  then show ?thesis
  proof cases
    case 1
    with e4 have z: "s = 0" "b = 0" "t = 0" "c = 0" by auto
    with y 1 have "year_of n = 400 * q + 100 * 3 + 4 * 24 + 3 + 1" by simp
    moreover have "is_leap (400 * q + 400)" by (simp add: is_leap_def)
    ultimately show ?thesis using dby [of 3 24 3] step [of "400 * q + 400"] n rs z 1
      by (simp add: add.commute)
  next
    case 2
    with b24 have "b \<le> 23" using b by fastforce
    have yy: "year_of n = 400 * q + 100 * a + 4 * b + 3 + 1" using y 2 by simp
    moreover have "is_leap (400 * q + 100 * a + 4 * b + 3 + 1)"
    proof -
      have "400 * q + 100 * a + 4 * b + 3 + 1 = (4 * b + 4) + (4 * q + a) * 100" by simp
      moreover have "(4 * b + 4) mod 100 = 4 * b + 4" using b \<open>b \<le> 23\<close> by simp
      ultimately have "(400 * q + 100 * a + 4 * b + 3 + 1) mod 100 \<noteq> 0"
        using b by (simp only: mod_mult_self1)
      moreover have "400 * q + 100 * a + 4 * b + 3 + 1 = 4 * (100 * q + 25 * a + b + 1)" by simp
      ultimately show ?thesis unfolding is_leap_def by (metis mod_mult_self1_is_0)
    qed
    ultimately show ?thesis
      using dby [of a b 3] step [of "400 * q + 100 * a + 4 * b + 3 + 1"] n rs st c4 2 a b by simp
  next
    case 3
    then have yy: "year_of n = 400 * q + 100 * a + 4 * b + c + 1" using y by simp
    then show ?thesis
      using dby [of a b c] step [of "400 * q + 100 * a + 4 * b + c + 1"] n rs st tc 3 a b c by simp
  qed
qed

lemma year_of_eqI:
  assumes "days_before_year y < n" and "n \<le> days_before_year (y + 1)"
  shows "year_of n = y"
proof -
  have mono: "days_before_year u \<le> days_before_year v" if "u \<le> v" for u v
    using that
    by (induction v rule: int_ge_induct) (use days_before_year_step in \<open>auto split: if_splits\<close>)
  show ?thesis
  proof (rule ccontr)
    assume "year_of n \<noteq> y"
    then consider "year_of n + 1 \<le> y" | "y + 1 \<le> year_of n" by linarith
    then show False
    proof cases
      case 1
      then show False using mono [of "year_of n + 1" y] year_bounds [of n] assms by linarith
    next
      case 2
      then show False using mono [of "y + 1" "year_of n"] year_bounds [of n] assms by linarith
    qed
  qed
qed

lemma year_day_range:
  "1 \<le> year_day n \<and> year_day n \<le> 365 + (if is_leap (year_of n) then 1 else 0)"
  using year_bounds [of n] days_before_year_step [of "year_of n"] by (simp add: year_day_def)

lemma month_of_range: "1 \<le> month_of n \<and> month_of n \<le> 12"
  by (simp add: month_of_def month_of_day_def)

lemma month_of_day_interval:
  assumes "1 \<le> k" and "k \<le> 365 + (if is_leap y then 1 else 0)"
  shows "1 \<le> k - days_before_month y (month_of_day y k) \<and>
    k - days_before_month y (month_of_day y k) \<le> days_in_month y (month_of_day y k)"
proof -
  define l :: int where "l = (if is_leap y then 1 else 0)"
  have l: "0 \<le> l" "l \<le> 1" by (simp_all add: l_def)
  have k: "k \<le> 365 + l" using assms(2) by (simp add: l_def)
  have m: "month_of_day y k = (if k \<le> 31 then 1 else if k \<le> 59 + l then 2 else if k \<le> 90 + l then 3
      else if k \<le> 120 + l then 4 else if k \<le> 151 + l then 5 else if k \<le> 181 + l then 6
      else if k \<le> 212 + l then 7 else if k \<le> 243 + l then 8 else if k \<le> 273 + l then 9
      else if k \<le> 304 + l then 10 else if k \<le> 334 + l then 11 else 12)"
    by (simp add: month_of_day_def days_before_month_def l_def)
  have before: "days_before_month y 1 = 0" "days_before_month y 2 = 31" "days_before_month y 3 = 59 + l"
    "days_before_month y 4 = 90 + l" "days_before_month y 5 = 120 + l" "days_before_month y 6 = 151 + l"
    "days_before_month y 7 = 181 + l" "days_before_month y 8 = 212 + l" "days_before_month y 9 = 243 + l"
    "days_before_month y 10 = 273 + l" "days_before_month y 11 = 304 + l" "days_before_month y 12 = 334 + l"
    by (simp_all add: days_before_month_def l_def)
  have len: "days_in_month y 1 = 31" "days_in_month y 2 = 28 + l" "days_in_month y 3 = 31"
    "days_in_month y 4 = 30" "days_in_month y 5 = 31" "days_in_month y 6 = 30" "days_in_month y 7 = 31"
    "days_in_month y 8 = 31" "days_in_month y 9 = 30" "days_in_month y 10 = 31"
    "days_in_month y 11 = 30" "days_in_month y 12 = 31"
    by (simp_all add: days_in_month_def l_def)
  note facts = assms(1) k l
  consider "k \<le> 31" | "31 < k" "k \<le> 59 + l" | "59 + l < k" "k \<le> 90 + l" | "90 + l < k" "k \<le> 120 + l"
    | "120 + l < k" "k \<le> 151 + l" | "151 + l < k" "k \<le> 181 + l" | "181 + l < k" "k \<le> 212 + l"
    | "212 + l < k" "k \<le> 243 + l" | "243 + l < k" "k \<le> 273 + l" | "273 + l < k" "k \<le> 304 + l"
    | "304 + l < k" "k \<le> 334 + l" | "334 + l < k" by (meson not_le)
  then show ?thesis using facts by cases (simp_all add: m before len)
qed

lemma day_of_range: "1 \<le> day_of n \<and> day_of n \<le> days_in_month (year_of n) (month_of n)"
  using month_of_day_interval year_day_range [of n] by (simp add: day_of_def month_of_def)

lemma mk_date_of [simp]: "mk_date (year_of n) (month_of n) (day_of n) = n"
  by (simp add: mk_date_def day_of_def year_day_def)

definition valid_ymd :: "int \<Rightarrow> int \<Rightarrow> int \<Rightarrow> bool" where
  "valid_ymd y m d \<longleftrightarrow> 1 \<le> m \<and> m \<le> 12 \<and> 1 \<le> d \<and> d \<le> days_in_month y m"

lemma month_cases:
  assumes "1 \<le> (m :: int)" and "m \<le> 12"
  obtains "m = 1" | "m = 2" | "m = 3" | "m = 4" | "m = 5" | "m = 6" | "m = 7" | "m = 8"
    | "m = 9" | "m = 10" | "m = 11" | "m = 12"
  using assms by atomize_elim arith

lemma days_before_month_bound:
  assumes "valid_ymd y m d"
  shows "0 < days_before_month y m + d"
    and "days_before_month y m + d \<le> 365 + (if is_leap y then 1 else 0)"
proof -
  from assms have m: "1 \<le> m" "m \<le> 12" by (simp_all add: valid_ymd_def)
  show "0 < days_before_month y m + d"
    using m assms by (cases rule: month_cases) (auto simp: days_before_month_def valid_ymd_def)
  show "days_before_month y m + d \<le> 365 + (if is_leap y then 1 else 0)"
    using m assms
    by (cases rule: month_cases) (auto simp: days_before_month_def days_in_month_def valid_ymd_def)
qed

lemma year_of_mk_date: "valid_ymd y m d \<Longrightarrow> year_of (mk_date y m d) = y"
  using days_before_month_bound [of y m d]
  by (intro year_of_eqI) (simp_all add: mk_date_def days_before_year_step)

lemma month_of_day_before:
  assumes v: "valid_ymd y m d" shows "month_of_day y (days_before_month y m + d) = m"
proof -
  from v have "1 \<le> m" "m \<le> 12" by (simp_all add: valid_ymd_def)
  then show ?thesis using v
    by (cases rule: month_cases)
      (auto simp: month_of_day_def days_before_month_def days_in_month_def valid_ymd_def
        split: if_splits)
qed

lemma year_day_mk_date:
  "valid_ymd y m d \<Longrightarrow> year_day (mk_date y m d) = days_before_month y m + d"
  unfolding year_day_def by (simp only: year_of_mk_date) (simp add: mk_date_def)

lemma month_of_mk_date: "valid_ymd y m d \<Longrightarrow> month_of (mk_date y m d) = m"
  by (simp add: month_of_def year_day_mk_date year_of_mk_date month_of_day_before)

lemma day_of_mk_date: "valid_ymd y m d \<Longrightarrow> day_of (mk_date y m d) = d"
  by (simp add: day_of_def year_day_mk_date year_of_mk_date month_of_mk_date)

lemmas mk_date_fields = year_of_mk_date month_of_mk_date day_of_mk_date


subsection \<open>Instants\<close>

definition day_us :: int where
  "day_us = 86400000000"

definition manila_us :: int where
  "manila_us = 28800000000"

text \<open>\<^verbatim>\<open>timezone.localdate(t)\<close> and \<^verbatim>\<open>make_aware(datetime.combine(d, time(h)))\<close>.\<close>

definition local_date :: "instant \<Rightarrow> date" where
  "local_date t = (t + manila_us) div day_us"

definition at_hour :: "date \<Rightarrow> int \<Rightarrow> instant" where
  "at_hour d h = d * day_us + h * 3600000000 - manila_us"

lemma local_date_at_hour [simp]: "0 \<le> h \<Longrightarrow> h < 24 \<Longrightarrow> local_date (at_hour d h) = d"
  by (simp add: local_date_def at_hour_def day_us_def)

lemma local_date_mono: "s \<le> t \<Longrightarrow> local_date s \<le> local_date t"
  by (simp add: local_date_def day_us_def zdiv_mono1)

end
