(* ===== verification/Api_Inputs.thy ===== *)
theory Api_Inputs
  imports Calendar
begin

text \<open>
  \<^verbatim>\<open>config/api_inputs.py\<close>: the checks that manually parsed views run on JSON values before any
  service sees them. A JSON value is a \<open>pyval\<close>; the numeric validation of Django REST framework's
  \<^verbatim>\<open>DecimalField\<close> and the lookup and UUID parsing of its fields are parameters, and
  \<open>drf_decimal\<close> states what the code relies on of the first.
\<close>

datatype pyval =
    PNone
  | PBool bool
  | PInt int
  | PFloat string
  | PDec dec
  | PStr string
  | PUUID nat
  | PList "pyval list"
  | PDict "(string \<times> pyval) list"

definition dict_get :: "(string \<times> pyval) list \<Rightarrow> string \<Rightarrow> pyval" where
  "dict_get d k = (case map_of d k of None \<Rightarrow> PNone | Some v \<Rightarrow> v)"

definition dict_get_default :: "(string \<times> pyval) list \<Rightarrow> string \<Rightarrow> pyval \<Rightarrow> pyval" where
  "dict_get_default d k v = (case map_of d k of None \<Rightarrow> v | Some w \<Rightarrow> w)"

definition has_key :: "(string \<times> pyval) list \<Rightarrow> string \<Rightarrow> bool" where
  "has_key d k \<longleftrightarrow> map_of d k \<noteq> None"

definition max_bigint :: int where
  "max_bigint = 9223372036854775807"

text \<open>
  \<^verbatim>\<open>int(s)\<close> on text: surrounding white space, one sign, and digits in groups separated by single
  underscores.
\<close>

fun int_digits :: "bool \<Rightarrow> nat \<Rightarrow> string \<Rightarrow> nat option" where
  "int_digits prev n [] = (if prev then Some n else None)"
| "int_digits prev n (c # cs) =
     (if is_digit c then int_digits True (10 * n + digit_val c) cs
      else if c = CHR ''_'' \<and> prev \<and> cs \<noteq> [] then int_digits False n cs
      else None)"

definition py_int :: "string \<Rightarrow> int option" where
  "py_int s =
     (case strip s of
        [] \<Rightarrow> None
      | c # cs \<Rightarrow>
          if c = CHR ''-'' then map_option (\<lambda>n. - int n) (int_digits False 0 cs)
          else if c = CHR ''+'' then map_option int (int_digits False 0 cs)
          else map_option int (int_digits False 0 (c # cs)))"

definition object_body :: "pyval \<Rightarrow> ((string \<times> pyval) list \<Rightarrow> 'a res) \<Rightarrow> 'a res" where
  "object_body body handler =
     (case body of PDict d \<Rightarrow> handler d
      | _ \<Rightarrow> Inl (ValidationError ''body'' ''Request body must be a JSON object.''))"

fun parse_positive_id :: "pyval \<Rightarrow> string \<Rightarrow> nat res" where
  "parse_positive_id (PInt i) name =
     (if 0 < i \<and> i \<le> max_bigint then Inr (nat i)
      else Inl (ValueErrorF ''{} must be a valid positive integer id.'' [FStr name]))"
| "parse_positive_id (PStr s) name =
     (case py_int s of
        None \<Rightarrow> Inl (ValueErrorF ''{} must be a valid positive integer id.'' [FStr name])
      | Some i \<Rightarrow>
          if 0 < i \<and> i \<le> max_bigint then Inr (nat i)
          else Inl (ValueErrorF ''{} must be a valid positive integer id.'' [FStr name]))"
| "parse_positive_id _ name =
     Inl (ValueErrorF ''{} must be a valid positive integer id.'' [FStr name])"

text \<open>The product identifier of one cart entry, in the order \<^verbatim>\<open>require_item_list\<close> checks it.\<close>

definition item_product_id :: "pyval \<Rightarrow> nat res" where
  "item_product_id item =
     (case item of
        PDict d \<Rightarrow>
          (case dict_get d ''product_id'' of
             PInt i \<Rightarrow> if 0 < i \<and> i \<le> max_bigint then Inr (nat i)
                       else Inl (ValueError ''Each item requires a valid product_id.'')
           | PStr s \<Rightarrow>
               (case py_int s of
                  None \<Rightarrow> Inl (ValueError ''Each item requires a valid product_id.'')
                | Some i \<Rightarrow> if 0 < i \<and> i \<le> max_bigint then Inr (nat i)
                            else Inl (ValueError ''Each item requires a valid product_id.''))
           | _ \<Rightarrow> Inl (ValueError ''Each item requires a valid product_id.''))
      | _ \<Rightarrow> Inl (ValueError ''Each item must be a JSON object.''))"

fun check_items :: "nat list \<Rightarrow> pyval list \<Rightarrow> unit res" where
  "check_items seen [] = Inr ()"
| "check_items seen (item # items) =
     rbind (item_product_id item) (\<lambda>pid.
       if pid \<in> set seen
       then Inl (ValueError ''Combine quantities for duplicate products before submitting a cart.'')
       else check_items (pid # seen) items)"

definition is_mapping :: "pyval \<Rightarrow> bool" where
  "is_mapping v = (case v of PDict _ \<Rightarrow> True | _ \<Rightarrow> False)"

definition require_item_list :: "nat \<Rightarrow> pyval \<Rightarrow> pyval list res" where
  "require_item_list max_cart_items value =
     (case value of
        PList items \<Rightarrow>
          if items = [] then Inl (ValueError ''items must be a non-empty list.'')
          else if max_cart_items < length items
          then Inl (ValueErrorF ''A cart may contain at most {} items.'' [FInt (int max_cart_items)])
          else if \<exists>item \<in> set items. \<not> is_mapping item
          then Inl (ValueError ''Each item must be a JSON object.'')
          else rbind (check_items [] items) (\<lambda>_. Inr items)
      | _ \<Rightarrow> Inl (ValueError ''items must be a non-empty list.''))"

text \<open>
  \<^verbatim>\<open>DecimalField(max_digits, decimal_places=2, min_value).run_validation(value)\<close>: the accepted value
  in hundredths, or nothing when the field raises.
\<close>

type_synonym dec_field = "nat \<Rightarrow> dec option \<Rightarrow> pyval \<Rightarrow> dec option"

definition parse_decimal :: "dec_field \<Rightarrow> pyval \<Rightarrow> string \<Rightarrow> dec option \<Rightarrow> nat \<Rightarrow> dec res" where
  "parse_decimal run_validation value name min_value max_digits =
     (case run_validation max_digits min_value value of
        Some d \<Rightarrow> Inr d
      | None \<Rightarrow> Inl (ValueErrorF ''{} must be a valid number with at most 2 decimal places.''
                      [FStr name]))"

text \<open>
  The documented contract of the field: an accepted value fits \<^verbatim>\<open>max_digits\<close> and is not below
  \<^verbatim>\<open>min_value\<close>, and a \<^verbatim>\<open>Decimal\<close> with two places that fits is returned as it is.
\<close>

definition drf_decimal :: "dec_field \<Rightarrow> bool" where
  "drf_decimal rv \<longleftrightarrow>
     (\<forall>digits m v d. rv digits m v = Some d \<longrightarrow>
        \<bar>d\<bar> < 10 ^ digits \<and> (\<forall>lo. m = Some lo \<longrightarrow> lo \<le> d)) \<and>
     (\<forall>digits m d. \<bar>d\<bar> < 10 ^ digits \<longrightarrow> (\<forall>lo. m = Some lo \<longrightarrow> lo \<le> d) \<longrightarrow>
        rv digits m (PDec d) = Some d)"

text \<open>A field that takes whole numbers and two-place decimals, to evaluate the model with.\<close>

definition plain_dec_field :: dec_field where
  "plain_dec_field digits m v =
     (let d = (case v of PDec d \<Rightarrow> Some d | PInt i \<Rightarrow> Some (100 * i) | _ \<Rightarrow> None)
      in case d of None \<Rightarrow> None
         | Some x \<Rightarrow> if \<bar>x\<bar> < 10 ^ digits \<and> (case m of None \<Rightarrow> True | Some lo \<Rightarrow> lo \<le> x)
                     then Some x else None)"

definition pk_field_value :: "(nat \<Rightarrow> 'a option) \<Rightarrow> string \<Rightarrow> pyval \<Rightarrow> 'a res" where
  "pk_field_value lookup name v =
     (case parse_positive_id v name of
        Inl e \<Rightarrow> Inl (ValidationError name ''invalid'')
      | Inr k \<Rightarrow> (case lookup k of None \<Rightarrow> Inl (ValidationError name ''does_not_exist'')
                   | Some r \<Rightarrow> Inr r))"

definition uuid_text_field :: "(string \<Rightarrow> nat option) \<Rightarrow> pyval \<Rightarrow> nat res" where
  "uuid_text_field parse_uuid v =
     (case v of
        PStr s \<Rightarrow> (case parse_uuid s of Some u \<Rightarrow> Inr u
                   | None \<Rightarrow> Inl (ValidationError ''uuid'' ''invalid''))
      | PUUID u \<Rightarrow> Inr u
      | _ \<Rightarrow> Inl (ValidationError ''uuid'' ''invalid''))"

definition parse_optional_text :: "pyval \<Rightarrow> string \<Rightarrow> string option res" where
  "parse_optional_text v name =
     (case v of PNone \<Rightarrow> Inr None | PStr s \<Rightarrow> Inr (Some s)
      | _ \<Rightarrow> Inl (ValueErrorF ''{} must be text or null.'' [FStr name]))"

text \<open>
  HTTP statuses: what the framework answers for an exception that leaves a view, and what a view
  answers that catches \<^verbatim>\<open>ValueError\<close> (the services' error classes are subclasses of it).
\<close>

fun is_value_error :: "exn \<Rightarrow> bool" where
  "is_value_error (ValueError _) = True"
| "is_value_error (ValueErrorF _ _) = True"
| "is_value_error (InvoiceNumberConflict _) = True"
| "is_value_error EncodingConflict = True"
| "is_value_error PaymentLockedError = True"
| "is_value_error (HistoryFilterError _ _) = True"
| "is_value_error _ = False"

fun drf_status :: "exn \<Rightarrow> nat" where
  "drf_status (ValidationError _ _) = 400"
| "drf_status SubmissionConflict = 409"
| "drf_status AdjustmentSubmissionConflict = 409"
| "drf_status (AuthenticationFailed _) = 401"
| "drf_status (PermissionDenied _) = 403"
| "drf_status (DoesNotExist _) = 404"
| "drf_status _ = 500"

definition value_error_status :: "exn \<Rightarrow> nat" where
  "value_error_status e = (if is_value_error e then 400 else drf_status e)"

type_synonym 'a http = "(nat \<times> exn) + (nat \<times> 'a)"


subsection \<open>What accepted inputs satisfy\<close>

lemma parse_positive_id_range:
  "parse_positive_id v name = Inr k \<Longrightarrow> 0 < k \<and> int k \<le> max_bigint"
  by (cases v) (auto split: if_splits option.splits)

lemma parse_decimal_bounds:
  assumes "drf_decimal rv" and "parse_decimal rv v name m n = Inr d"
  shows "\<bar>d\<bar> < 10 ^ n" and "m = Some lo \<Longrightarrow> lo \<le> d"
  using assms by (auto simp: parse_decimal_def drf_decimal_def split: option.splits)

lemma parse_decimal_dec:
  "drf_decimal rv \<Longrightarrow> \<bar>d\<bar> < 10 ^ n \<Longrightarrow> (\<And>lo. m = Some lo \<Longrightarrow> lo \<le> d) \<Longrightarrow>
   parse_decimal rv (PDec d) name m n = Inr d"
  by (simp add: parse_decimal_def drf_decimal_def)

lemma plain_dec_field_ok: "drf_decimal plain_dec_field"
  by (auto simp: drf_decimal_def plain_dec_field_def Let_def split: pyval.splits option.splits if_splits)

lemma item_product_id_range:
  "item_product_id item = Inr k \<Longrightarrow> 0 < k \<and> int k \<le> max_bigint"
  by (auto simp: item_product_id_def split: pyval.splits if_splits option.splits)

lemma check_items_ids:
  "check_items seen items = Inr () \<Longrightarrow>
     \<exists>ids. rmap item_product_id items = Inr ids \<and> distinct ids \<and> set ids \<inter> set seen = {}"
proof (induction seen items rule: check_items.induct)
  case (2 seen item items)
  from "2.prems" obtain pid where p: "item_product_id item = Inr pid"
    by auto
  with "2.prems" have np: "pid \<notin> set seen" and rest: "check_items (pid # seen) items = Inr ()"
    by (auto split: if_splits)
  from "2.IH" [OF np rest] obtain ids where
    "rmap item_product_id items = Inr ids" "distinct ids" "set ids \<inter> set (pid # seen) = {}"
    by blast
  with p np show ?case by (auto intro!: exI [of _ "pid # ids"])
qed simp

lemma int_digits_str:
  "(\<And>c. c \<in> set s \<Longrightarrow> is_digit c) \<Longrightarrow> s \<noteq> [] \<or> prev \<Longrightarrow>
   int_digits prev n s = Some (foldl (\<lambda>n c. 10 * n + digit_val c) n s)"
  by (induction s arbitrary: prev n) auto

lemma py_int_str_nat [simp]: "py_int (str_nat n) = Some (int n)"
proof -
  have strip: "strip (str_nat n) = str_nat n"
    by (intro strip_id) (blast dest: str_nat_digits digit_not_space)
  obtain c cs where eq: "str_nat n = c # cs" by (cases "str_nat n") auto
  have "is_digit c" using str_nat_digits [of c n] by (simp add: eq)
  then have "c \<noteq> CHR ''-''" "c \<noteq> CHR ''+''" by (auto simp: is_digit_def)
  then have "py_int (str_nat n) = map_option int (int_digits False 0 (str_nat n))"
    unfolding py_int_def strip by (simp add: eq)
  also have "\<dots> = Some (int (int_of (str_nat n)))"
    using int_digits_str [of "str_nat n" False 0] str_nat_digits by (simp add: int_of_def)
  finally show ?thesis by simp
qed

text \<open>
  an accepted cart has between one and \<^verbatim>\<open>MAX_CART_ITEMS\<close> entries, every entry names a product by
  a positive 63-bit id, and no product is named twice.
\<close>

lemma require_item_list_sound:
  assumes "require_item_list n v = Inr items"
  shows "v = PList items \<and> items \<noteq> [] \<and> length items \<le> n \<and>
    (\<exists>ids. rmap item_product_id items = Inr ids \<and> distinct ids \<and>
       list_all (\<lambda>k. 0 < k \<and> int k \<le> max_bigint) ids)"
proof -
  from assms have v: "v = PList items" "items \<noteq> []" "length items \<le> n"
    and c: "check_items [] items = Inr ()"
    by (auto simp: require_item_list_def split: pyval.splits if_splits)
  from check_items_ids [OF c] obtain ids
    where ids: "rmap item_product_id items = Inr ids" "distinct ids" by blast
  have "list_all (\<lambda>k. 0 < k \<and> int k \<le> max_bigint) ids"
  proof (unfold list_all_length, intro allI impI)
    fix i assume i: "i < length ids"
    with rmap_length [OF ids(1)] have "item_product_id (items ! i) = Inr (ids ! i)"
      by (intro rmap_nth [OF ids(1)]) simp
    then show "0 < ids ! i \<and> int (ids ! i) \<le> max_bigint" by (rule item_product_id_range)
  qed
  with v ids show ?thesis by blast
qed

lemma require_item_list_sound_witness:
  "\<exists>ids. rmap item_product_id [PDict [(''product_id'', PInt 7)], PDict [(''product_id'', PStr ''12'')]]
     = Inr ids \<and> distinct ids \<and> list_all (\<lambda>k. 0 < k \<and> int k \<le> max_bigint) ids"
  using require_item_list_sound [of 100
      "PList [PDict [(''product_id'', PInt 7)], PDict [(''product_id'', PStr ''12'')]]"
      "[PDict [(''product_id'', PInt 7)], PDict [(''product_id'', PStr ''12'')]]"]
  by (simp add: require_item_list_def is_mapping_def item_product_id_def dict_get_def max_bigint_def
      py_int_def strip_def is_space_def is_digit_def digit_val_def)

end
