(* ===== verification/Accounts.thy ===== *)
theory Accounts
  imports Api_Inputs
begin

text \<open>
  \<^verbatim>\<open>accounts/models.py\<close> and the account services \<^verbatim>\<open>admin_service.py\<close>, \<^verbatim>\<open>profile_service.py\<close> and
  \<^verbatim>\<open>registration_service.py\<close>. Django's password hashing and validation, e-mail normalisation and
  validation, model validation (\<^verbatim>\<open>full_clean\<close>) and keyed digests are fields of an environment record.
  The tables of the accounts app are independent of the sales store. An operation that may write before
  it fails returns its outcome together with the store.
\<close>

subsection \<open>Tables\<close>

record user =
  us_id :: nat
  us_username :: string
  us_email :: string
  us_password :: string
  us_role :: string
  us_active :: bool
  us_first :: string
  us_last :: string
  us_phone :: "string option"
  us_address :: "string option"
  us_reason :: string
  us_failed :: nat
  us_locked :: "instant option"
  us_profile_at :: "instant option"
  us_password_at :: "instant option"
  us_version :: nat

record reset_challenge =
  pc_user :: nat
  pc_digest :: string
  pc_expires :: instant
  pc_failed :: nat
  pc_sent :: instant

record email_challenge =
  ec_user :: nat
  ec_email :: string
  ec_digest :: string
  ec_expires :: instant
  ec_failed :: nat
  ec_sent :: instant

record login_session =
  ls_id :: nat
  ls_user :: nat
  ls_activity :: instant
  ls_expires :: instant

record acct_store =
  ad_users :: "user list"
  ad_resets :: "reset_challenge list"
  ad_changes :: "email_challenge list"
  ad_sessions :: "login_session list"
  ad_blacklist :: "nat list"

record auth_env =
  ev_check :: "string \<Rightarrow> string \<Rightarrow> bool"
  ev_make :: "string \<Rightarrow> string"
  ev_bad_password :: "string \<Rightarrow> user \<Rightarrow> string option"
  ev_valid_email :: "string \<Rightarrow> bool"
  ev_norm_email :: "string \<Rightarrow> string"
  ev_norm_username :: "string \<Rightarrow> string"
  ev_clean :: "user \<Rightarrow> user list \<Rightarrow> string option"
  ev_hmac :: "string \<Rightarrow> string \<Rightarrow> string"

definition role_choices :: "string list" where
  "role_choices = [''admin'', ''staff'']"

definition valid_reasons :: "string list" where
  "valid_reasons = [''leave'', ''suspended'', ''resigned'', ''terminated'']"

definition minute :: int where
  "minute = 60000000"

abbreviation get_account :: "acct_store \<Rightarrow> nat \<Rightarrow> user option" where
  "get_account st \<equiv> row_get us_id (ad_users st)"

interpretation user_rows: row_table us_id "row_get us_id" "row_save us_id" row_ins "\<lambda>t. t" "keys_ok us_id"
  by (rule row_table_list)

definition put_user :: "user \<Rightarrow> acct_store \<Rightarrow> acct_store" where
  "put_user u st = st\<lparr>ad_users := row_save us_id u (ad_users st)\<rparr>"

text \<open>
  The constraints of the table on a written row: the exact user name, the e-mail, and the e-mail without
  case are unique.
\<close>

definition clashes :: "user \<Rightarrow> acct_store \<Rightarrow> bool" where
  "clashes u st \<longleftrightarrow> (\<exists>x \<in> set (ad_users st). us_id x \<noteq> us_id u \<and>
     (us_username x = us_username u \<or> us_email x = us_email u \<or> casefold (us_email x) = casefold (us_email u)))"

definition save_user :: "user \<Rightarrow> acct_store \<Rightarrow> acct_store res" where
  "save_user u st = (if clashes u st then Inl IntegrityError else Inr (put_user u st))"

definition drop_resets :: "nat \<Rightarrow> acct_store \<Rightarrow> acct_store" where
  "drop_resets pk st = st\<lparr>ad_resets := filter (\<lambda>c. pc_user c \<noteq> pk) (ad_resets st)\<rparr>"

definition drop_changes :: "nat \<Rightarrow> acct_store \<Rightarrow> acct_store" where
  "drop_changes pk st = st\<lparr>ad_changes := filter (\<lambda>c. ec_user c \<noteq> pk) (ad_changes st)\<rparr>"

definition drop_challenges :: "nat \<Rightarrow> acct_store \<Rightarrow> acct_store" where
  "drop_challenges pk st = drop_changes pk (drop_resets pk st)"

definition active_admin :: "user \<Rightarrow> bool" where
  "active_admin u \<longleftrightarrow> us_role u = ''admin'' \<and> us_active u"

definition other_admins :: "nat \<Rightarrow> acct_store \<Rightarrow> user list" where
  "other_admins pk st = filter (\<lambda>u. active_admin u \<and> us_id u \<noteq> pk) (ad_users st)"

definition name_taken :: "string \<Rightarrow> nat \<Rightarrow> acct_store \<Rightarrow> bool" where
  "name_taken name pk st \<longleftrightarrow> (\<exists>x \<in> set (ad_users st). us_id x \<noteq> pk \<and> casefold (us_username x) = casefold name)"

definition email_taken :: "string \<Rightarrow> nat \<Rightarrow> acct_store \<Rightarrow> bool" where
  "email_taken email pk st \<longleftrightarrow> (\<exists>x \<in> set (ad_users st). us_id x \<noteq> pk \<and> casefold (us_email x) = casefold email)"


subsection \<open>Administration\<close>

text \<open>
  The request of an admin: each field is present or not. Fields whose type the code checks are JSON
  values; the plain text fields are text (or null where the column allows it).
\<close>

record user_update =
  uu_unknown :: "string list"
  uu_current_password :: pyval
  uu_username :: "pyval option"
  uu_role :: "string option"
  uu_active :: "pyval option"
  uu_reason :: "string option"
  uu_email :: "pyval option"
  uu_first :: "string option"
  uu_last :: "string option"
  uu_phone :: "string option option"
  uu_address :: "string option option"

definition password_given :: "auth_env \<Rightarrow> pyval \<Rightarrow> user \<Rightarrow> bool" where
  "password_given env v u = (case v of PStr p \<Rightarrow> ev_check env p (us_password u) | _ \<Rightarrow> False)"

text \<open>The user name and e-mail of a request after stripping and checking, if the field is present.\<close>

definition clean_username :: "pyval option \<Rightarrow> string option res" where
  "clean_username v =
     (case v of
        None \<Rightarrow> Inr None
      | Some (PStr s) \<Rightarrow> if strip s = [] then Inl (ValueError ''Username is required.'') else Inr (Some (strip s))
      | Some _ \<Rightarrow> Inl (ValueError ''Username is required.''))"

definition clean_email :: "auth_env \<Rightarrow> pyval option \<Rightarrow> string option res" where
  "clean_email env v =
     (case v of
        None \<Rightarrow> Inr None
      | Some (PStr s) \<Rightarrow>
          (let e = ev_norm_email env (strip s)
           in if ev_valid_email env e then Inr (Some e) else Inl (ValueError ''Invalid email format.''))
      | Some _ \<Rightarrow> Inl (ValueError ''Invalid email format.''))"

definition clean_reason :: "user_update \<Rightarrow> string option res" where
  "clean_reason u =
     (case uu_active u of
        Some (PBool False) \<Rightarrow>
          (let reason = (case uu_reason u of Some r \<Rightarrow> r | None \<Rightarrow> ''suspended'')
           in if reason \<in> set valid_reasons then Inr (Some reason) else Inl (ValueErrorF ''Invalid reason. Must be one of {}.'' (map FStr valid_reasons)))
      | Some (PBool True) \<Rightarrow> Inr (Some ''none'')
      | _ \<Rightarrow> if uu_reason u = None then Inr None
             else Inl (ValueError '''deactivation_reason' requires an active-status change.''))"

definition active_flag :: "user_update \<Rightarrow> bool option" where
  "active_flag u = (case uu_active u of Some (PBool b) \<Rightarrow> Some b | _ \<Rightarrow> None)"

definition edited_user :: "user_update \<Rightarrow> string option \<Rightarrow> string option \<Rightarrow> string option \<Rightarrow> user \<Rightarrow> user" where
  "edited_user u name email reason x =
     x\<lparr>us_username := fill name (us_username x), us_role := fill (uu_role u) (us_role x),
       us_active := fill (active_flag u) (us_active x), us_reason := fill reason (us_reason x),
       us_email := fill email (us_email x), us_first := fill (uu_first u) (us_first x),
       us_last := fill (uu_last u) (us_last x), us_phone := fill (uu_phone u) (us_phone x),
       us_address := fill (uu_address u) (us_address x),
       us_version := (if us_active x \<and> active_flag u = Some False then us_version x + 1 else us_version x)\<rparr>"

text \<open>
  The guards of \<^verbatim>\<open>update_user\<close> in their order; they yield the cleaned user name, e-mail and reason.
\<close>

definition check_update ::
    "auth_env \<Rightarrow> user_update \<Rightarrow> nat \<Rightarrow> acct_store \<Rightarrow> user \<Rightarrow> (string option \<times> string option \<times> string option) res" where
  "check_update env u requesting st x =
     (let is_self = (us_id x = requesting)
      in if uu_unknown u \<noteq> [] then Inl (ValueErrorF ''Unsupported field(s): {}.'' (map FStr (uu_unknown u)))
      else if uu_active u \<noteq> None \<and> active_flag u = None then Inl (ValueError '''is_active' must be a boolean.'')
      else if is_self \<and> uu_email u \<noteq> None \<and> uu_email u \<noteq> Some (PStr (us_email x))
      then Inl (ValueError ''Use /accounts/email-change/ to verify your recovery email.'')
      else if is_self \<and> uu_username u \<noteq> None \<and> uu_username u \<noteq> Some (PStr (us_username x)) \<and>
              \<not> password_given env (uu_current_password u) x
      then Inl (ValueError ''Current password is required to change your username.'')
      else if is_self \<and> (uu_role u \<noteq> None \<or> uu_active u \<noteq> None \<or> uu_reason u \<noteq> None)
      then Inl (ValueError ''You cannot change your own role or active status.'')
      else if uu_role u \<noteq> None \<and> the (uu_role u) \<notin> set role_choices
      then Inl (ValueErrorF ''Invalid role. Must be one of {}.'' (map FStr role_choices))
      else
      rbind (clean_username (uu_username u)) (\<lambda>name.
      if name \<noteq> None \<and> name_taken (the name) (us_id x) st then Inl (ValueError ''Username already exists.'')
      else
      rbind (clean_email env (uu_email u)) (\<lambda>email.
      if email \<noteq> None \<and> email_taken (the email) (us_id x) st
      then Inl (ValueError ''Username or email already exists.'')
      else
      rbind (clean_reason u) (\<lambda>reason.
      let demoting = (us_role x = ''admin'' \<and> fill (uu_role u) (us_role x) \<noteq> ''admin'');
          deactivating = (us_role x = ''admin'' \<and> us_active x \<and> active_flag u = Some False)
      in if (demoting \<or> deactivating) \<and> other_admins (us_id x) st = []
      then Inl (ValueError ''Cannot remove the last active admin.'')
      else Inr (name, email, reason)))))"

definition update_user ::
    "auth_env \<Rightarrow> nat \<Rightarrow> user_update \<Rightarrow> nat \<Rightarrow> acct_store \<Rightarrow> (user \<times> acct_store) res" where
  "update_user env pk u requesting st =
     (case get_account st pk of
        None \<Rightarrow> Inl (DoesNotExist ''Users'')
      | Some x \<Rightarrow>
        rbind (check_update env u requesting st x) (\<lambda>(name, email, reason).
        let st1 = (if us_active x \<and> active_flag u = Some False then drop_challenges pk st else st);
            y = edited_user u name email reason x;
            st2 = (if email \<noteq> None \<or> name \<noteq> None then drop_challenges pk st1 else st1)
        in case ev_clean env y (ad_users st2) of
             Some message \<Rightarrow> Inl (ValueError message)
           | None \<Rightarrow>
               (case save_user y st2 of
                  Inl _ \<Rightarrow> Inl (ValueError ''Username or email already exists.'')
                | Inr st3 \<Rightarrow> Inr (y, st3))))"

definition deactivate_user :: "nat \<Rightarrow> nat \<Rightarrow> string \<Rightarrow> acct_store \<Rightarrow> (user \<times> acct_store) res" where
  "deactivate_user pk requesting reason st =
     (if reason \<notin> set valid_reasons then Inl (ValueErrorF ''Invalid reason. Must be one of {}.'' (map FStr valid_reasons))
      else case get_account st pk of
        None \<Rightarrow> Inl (DoesNotExist ''Users'')
      | Some x \<Rightarrow>
          if us_id x = requesting then Inl (ValueError ''You cannot deactivate your own account.'')
          else if \<not> us_active x then Inl (ValueError ''User is already deactivated.'')
          else if us_role x = ''admin'' \<and> other_admins pk st = []
          then Inl (ValueError ''Cannot deactivate the last active admin.'')
          else let y = x\<lparr>us_active := False, us_version := us_version x + 1, us_reason := reason\<rparr>
               in Inr (y, drop_challenges pk (put_user y st)))"


subsection \<open>Registration and the own profile\<close>

record registration =
  rg_username :: string
  rg_password :: pyval
  rg_email :: string
  rg_role :: string
  rg_first :: "string option"
  rg_last :: "string option"
  rg_phone :: "string option"
  rg_address :: "string option"

definition register_user :: "auth_env \<Rightarrow> registration \<Rightarrow> acct_store \<Rightarrow> (user \<times> acct_store) res" where
  "register_user env g st =
     (case rg_password g of
        PStr password \<Rightarrow>
          if length password < 8 \<or> 25 < length password
          then Inl (ValueError ''Password must be between 8 and 25 characters.'')
          else
          (let username = ev_norm_username env (strip (rg_username g));
               first = fill (rg_first g) []; second = fill (rg_last g) []
           in if 50 < length username then Inl (ValueError ''Username must be at most 50 characters.'')
           else if 50 < length first then Inl (ValueError ''First name must be at most 50 characters.'')
           else if 50 < length second then Inl (ValueError ''Last name must be at most 50 characters.'')
           else
           let email = ev_norm_email env (strip (rg_email g));
               u = \<lparr>us_id = new_pk us_id (ad_users st), us_username = username, us_email = email, us_password = [],
                    us_role = rg_role g, us_active = True, us_first = first, us_last = second,
                    us_phone = rg_phone g, us_address = rg_address g, us_reason = ''none'', us_failed = 0,
                    us_locked = None, us_profile_at = None, us_password_at = None, us_version = 0\<rparr>
           in case (case ev_bad_password env password u of Some m \<Rightarrow> Some m | None \<Rightarrow> ev_clean env u (ad_users st)) of
                Some message \<Rightarrow> Inl (ValueError message)
              | None \<Rightarrow>
                  if \<exists>x \<in> set (ad_users st). casefold (us_email x) = casefold email
                  then Inl (ValueError ''Username or email already exists.'')
                  else let y = u\<lparr>us_password := ev_make env password\<rparr>
                       in if clashes y st then Inl (ValueError ''Username or email already exists.'')
                          else Inr (y, st\<lparr>ad_users := row_ins y (ad_users st)\<rparr>))
      | _ \<Rightarrow> Inl (ValueError ''Password must be text.''))"

text \<open>A profile request; blocked and unknown field names are listed as the code finds them.\<close>

record profile_update =
  pf_current_password :: pyval
  pf_email :: "pyval option"
  pf_blocked :: "string list"
  pf_unknown :: "string list"
  pf_username :: "pyval option"
  pf_first :: "string option"
  pf_last :: "string option"
  pf_phone :: "string option option"
  pf_address :: "string option option"

definition cooldown_left :: "int \<Rightarrow> instant \<Rightarrow> instant \<Rightarrow> int" where
  "cooldown_left cooldown now at_time = (cooldown - (now - at_time)) div 1000000 div 60 + 1"

definition profile_user :: "profile_update \<Rightarrow> string option \<Rightarrow> user \<Rightarrow> user" where
  "profile_user p name x =
     x\<lparr>us_username := fill name (us_username x), us_first := fill (pf_first p) (us_first x),
       us_last := fill (pf_last p) (us_last x), us_phone := fill (pf_phone p) (us_phone x),
       us_address := fill (pf_address p) (us_address x)\<rparr>"

text \<open>The transaction on the locked row.\<close>

definition write_profile ::
    "auth_env \<Rightarrow> instant \<Rightarrow> instant \<Rightarrow> nat \<Rightarrow> string option \<Rightarrow> profile_update \<Rightarrow> acct_store \<Rightarrow> (user \<times> acct_store) res" where
  "write_profile env now later pk name p st =
     (case get_account st pk of
        None \<Rightarrow> Inl (DoesNotExist ''Users'')
      | Some x \<Rightarrow>
          let renamed = (name \<noteq> None \<and> the name \<noteq> us_username x)
          in if renamed \<and> \<not> password_given env (pf_current_password p) x
          then Inl (ValueError ''Current password is required to change your username.'')
          else
          let st1 = (if renamed then drop_resets pk st else st)
          in if (us_profile_at x \<noteq> None \<and> now - the (us_profile_at x) < 5 * minute)
          then Inl (ValueErrorF ''Profile can only be updated once every 5 minutes. Try again in {} minute(s).''
                      [FInt (cooldown_left (5 * minute) now (the (us_profile_at x)))])
          else if name \<noteq> None \<and> name_taken (the name) pk st then Inl (ValueError ''Username already exists.'')
          else if profile_user p name x = x then Inl (ValueError ''No profile changes were provided.'')
          else
          let y = (profile_user p name x)\<lparr>us_profile_at := Some later\<rparr>
          in (case ev_clean env y (ad_users st1) of
               Some message \<Rightarrow> Inl (ValueError message)
             | None \<Rightarrow>
                 (case save_user y st1 of
                    Inl _ \<Rightarrow> Inl (ValueError ''Username or email already exists.'')
                  | Inr st2 \<Rightarrow> Inr (y, st2))))"

definition update_own_profile ::
    "auth_env \<Rightarrow> instant \<Rightarrow> instant \<Rightarrow> nat \<Rightarrow> string \<Rightarrow> profile_update \<Rightarrow> acct_store \<Rightarrow> (user \<times> acct_store) res" where
  "update_own_profile env now later pk current_email p st =
     (if (case pf_email p of None \<Rightarrow> False | Some (PStr e) \<Rightarrow> (casefold e \<noteq> casefold current_email) | Some _ \<Rightarrow> True)
      then Inl (ValueError ''Use /accounts/email-change/ to verify a new recovery email.'')
      else if pf_blocked p \<noteq> []
      then Inl (ValueErrorF ''Cannot change the following field(s) via profile update: {}.'' (map FStr (pf_blocked p)))
      else if pf_unknown p \<noteq> [] then Inl (ValueErrorF ''Unsupported field(s): {}.'' (map FStr (pf_unknown p)))
      else if pf_username p = None \<and> pf_first p = None \<and> pf_last p = None \<and> pf_phone p = None \<and> pf_address p = None
      then Inl (ValueError ''At least one profile field is required.'')
      else
      rbind (clean_username (pf_username p)) (\<lambda>name. write_profile env now later pk name p st))"

lemma drop_users [simp]:
  "ad_users (drop_resets pk st) = ad_users st" "ad_users (drop_changes pk st) = ad_users st"
  "ad_users (drop_challenges pk st) = ad_users st" "ad_sessions (drop_resets pk st) = ad_sessions st"
  "ad_sessions (drop_changes pk st) = ad_sessions st" "ad_sessions (drop_challenges pk st) = ad_sessions st"
  "ad_resets (drop_resets pk st) = filter (\<lambda>c. pc_user c \<noteq> pk) (ad_resets st)"
  "ad_resets (drop_challenges pk st) = filter (\<lambda>c. pc_user c \<noteq> pk) (ad_resets st)"
  by (simp_all add: drop_resets_def drop_changes_def drop_challenges_def)

lemma put_user_fields [simp]:
  "ad_users (put_user u st) = row_save us_id u (ad_users st)" "ad_resets (put_user u st) = ad_resets st"
  "ad_sessions (put_user u st) = ad_sessions st" "ad_changes (put_user u st) = ad_changes st"
  by (simp_all add: put_user_def)

lemma save_user_Inr: "save_user u st = Inr st' \<longleftrightarrow> \<not> clashes u st \<and> st' = put_user u st"
  by (auto simp: save_user_def)

lemma check_update_admin:
  "check_update env u requesting st x = Inr r \<Longrightarrow> us_role x = ''admin'' \<Longrightarrow>
     fill (uu_role u) (us_role x) \<noteq> ''admin'' \<or> us_active x \<and> active_flag u = Some False \<Longrightarrow> other_admins (us_id x) st \<noteq> []"
  unfolding check_update_def Let_def by (simp only: guard_Inr rbind_Inr_iff) fast

lemma check_update_self:
  "check_update env u requesting st x = Inr r \<Longrightarrow> us_id x = requesting \<Longrightarrow> uu_role u = None \<and> uu_active u = None"
  unfolding check_update_def Let_def by (simp only: guard_Inr rbind_Inr_iff) fast

lemma check_update_role:
  "check_update env u requesting st x = Inr r \<Longrightarrow> uu_role u \<noteq> None \<Longrightarrow> the (uu_role u) \<in> set role_choices"
  unfolding check_update_def Let_def by (simp only: guard_Inr rbind_Inr_iff) fast

lemma update_user_unfold:
  assumes "update_user env pk u requesting st = Inr (y, st')"
  obtains x name email reason where "get_account st pk = Some x" "y = edited_user u name email reason x"
    "check_update env u requesting st x = Inr (name, email, reason)"
    "\<not> clashes y st" "ad_users st' = row_save us_id y (ad_users st)" "ad_sessions st' = ad_sessions st"
proof -
  from assms obtain x p where x: "get_account st pk = Some x" and p: "check_update env u requesting st x = Inr p"
    by (auto simp: update_user_def guard_opt_Inr)
  obtain name email reason where e: "p = (name, email, reason)" by (cases p)
  define st1 where "st1 = (if us_active x \<and> active_flag u = Some False then drop_challenges pk st else st)"
  define st2 where "st2 = (if email \<noteq> None \<or> name \<noteq> None then drop_challenges pk st1 else st1)"
  have r: "save_user y st2 = Inr st'" "y = edited_user u name email reason x"
    using assms unfolding update_user_def x option.case p rbind.simps e prod.case Let_def st1_def[symmetric] st2_def[symmetric]
    by (simp_all only: guard_none_Inr guard_sum_Inr sum.inject prod.inject) fast+
  have u: "ad_users st2 = ad_users st" "ad_sessions st2 = ad_sessions st" by (simp_all add: st1_def st2_def)
  have "\<not> clashes y st" using r(1) u by (auto simp: save_user_Inr clashes_def)
  with r u x p e that show ?thesis by (simp add: save_user_Inr)
qed


subsection \<open>What the operations may do to the table of users\<close>

text \<open>
  An edit of one row keeps its key, never lowers its token version, and takes the last active admin away
  only if another one is left. Every operation of the app leaves the users alone, edits one row in this
  way, or adds a row.
\<close>

definition safe_edit :: "acct_store \<Rightarrow> user \<Rightarrow> user \<Rightarrow> bool" where
  "safe_edit st x y \<longleftrightarrow> us_id y = us_id x \<and> us_version x \<le> us_version y \<and>
     (active_admin x \<longrightarrow> active_admin y \<or> other_admins (us_id x) st \<noteq> [])"

inductive users_change :: "acct_store \<Rightarrow> acct_store \<Rightarrow> bool" where
  same: "ad_users st' = ad_users st \<Longrightarrow> users_change st st'"
| edit: "get_account st pk = Some x \<Longrightarrow> safe_edit st x y \<Longrightarrow> ad_users st' = row_save us_id y (ad_users st)
          \<Longrightarrow> users_change st st'"
| add: "us_id y = new_pk us_id (ad_users st) \<Longrightarrow> ad_users st' = row_ins y (ad_users st) \<Longrightarrow> users_change st st'"

definition has_admin :: "acct_store \<Rightarrow> bool" where
  "has_admin st \<longleftrightarrow> (\<exists>u \<in> set (ad_users st). active_admin u)"

definition users_ok :: "acct_store \<Rightarrow> bool" where
  "users_ok st \<longleftrightarrow> keys_ok us_id (ad_users st) \<and> has_admin st"

lemma users_change_keys: "users_change st st' \<Longrightarrow> keys_ok us_id (ad_users st) \<Longrightarrow> keys_ok us_id (ad_users st')"
  by (induction rule: users_change.induct) (simp_all add: keys_ok_ins)

lemma users_change_admin:
  assumes "users_change st st'" "users_ok st" shows "users_ok st'"
proof -
  have k: "keys_ok us_id (ad_users st')" using assms users_change_keys by (simp add: users_ok_def)
  from assms(1) have "has_admin st'"
  proof cases
    case same then show ?thesis using assms(2) by (simp add: users_ok_def has_admin_def)
  next
    case (edit pk x y)
    obtain a where a: "a \<in> set (ad_users st)" "active_admin a" using assms(2) by (auto simp: users_ok_def has_admin_def)
    have x: "x \<in> set (ad_users st)" "us_id x = pk" using edit(1) by (auto dest: row_get_Some)
    have kept: "z \<in> set (ad_users st')" if "z \<in> set (ad_users st)" "us_id z \<noteq> us_id x" for z
      using that edit(2,3) by (force simp: row_save_def safe_edit_def)
    have new: "y \<in> set (ad_users st')" using x edit(2,3) by (force simp: row_save_def safe_edit_def)
    show ?thesis
    proof (cases "us_id a = us_id x")
      case True
      then have "a = x" using a x edit(1) assms(2)
        by (metis option.inject row_get_iff users_ok_def)
      then show ?thesis using a edit(2) new kept by (auto simp: safe_edit_def has_admin_def other_admins_def filter_empty_conv)
    qed (use a kept in \<open>auto simp: has_admin_def\<close>)
  next
    case (add y) then show ?thesis using assms(2) by (auto simp: users_ok_def has_admin_def row_ins_def)
  qed
  with k show ?thesis by (simp add: users_ok_def)
qed

lemma users_change_version:
  assumes "users_change st st'" "get_account st pk = Some u" "keys_ok us_id (ad_users st)"
  shows "\<exists>u'. get_account st' pk = Some u' \<and> us_version u \<le> us_version u'"
  using assms
proof cases
  case (edit q x y)
  moreover have "us_id x = q" using edit(1) by (auto dest: row_get_Some)
  ultimately show ?thesis using assms(2) by (cases "pk = us_id y") (auto simp: row_get_save safe_edit_def)
next
  case (add y)
  moreover have "pk \<noteq> us_id y" using assms(2) add(1) new_pk_greater[of u "ad_users st" us_id] by (auto dest: row_get_Some)
  ultimately show ?thesis using assms(2) by (simp add: row_get_ins)
qed auto

lemma update_user_change:
  assumes "update_user env pk u requesting st = Inr (y, st')" shows "users_change st st'"
proof -
  obtain x name email reason where r: "get_account st pk = Some x" "y = edited_user u name email reason x"
    "check_update env u requesting st x = Inr (name, email, reason)" "ad_users st' = row_save us_id y (ad_users st)"
    using assms by (rule update_user_unfold)
  have "safe_edit st x y"
    using check_update_admin[OF r(3)] r(2)
    by (cases "active_flag u") (auto simp: safe_edit_def edited_user_def active_admin_def fill_def split: option.splits)
  then show ?thesis using r users_change.edit by blast
qed

lemma deactivate_user_change:
  assumes "deactivate_user pk requesting reason st = Inr (y, st')" shows "users_change st st'"
proof -
  obtain x where x: "get_account st pk = Some x" "us_role x = ''admin'' \<longrightarrow> other_admins pk st \<noteq> []"
    "y = x\<lparr>us_active := False, us_version := us_version x + 1, us_reason := reason\<rparr>"
    "st' = drop_challenges pk (put_user y st)"
    using assms unfolding deactivate_user_def Let_def by (simp only: guard_Inr guard_opt_Inr) auto
  then have "safe_edit st x y" by (auto simp: safe_edit_def active_admin_def dest: row_get_Some)
  then show ?thesis using x users_change.edit by fastforce
qed

lemma register_user_change:
  assumes "register_user env g st = Inr (y, st')" shows "users_change st st'"
  using assms unfolding register_user_def Let_def
  by (auto simp: guard_Inr guard_none_Inr intro!: users_change.add split: pyval.split_asm option.split_asm)

lemma write_profile_unfold:
  assumes "write_profile env now later pk name p st = Inr (y, st')"
  shows "users_change st st' \<and> ad_sessions st' = ad_sessions st"
proof -
  obtain x where x: "get_account st pk = Some x" using assms by (auto simp: write_profile_def guard_opt_Inr)
  define st1 where "st1 = (if name \<noteq> None \<and> the name \<noteq> us_username x then drop_resets pk st else st)"
  have w: "y = (profile_user p name x)\<lparr>us_profile_at := Some later\<rparr>" "save_user y st1 = Inr st'"
    using assms unfolding write_profile_def x option.case Let_def st1_def[symmetric]
    by (simp_all only: guard_Inr guard_none_Inr guard_sum_Inr sum.inject prod.inject) fast+
  have "safe_edit st x y" using w(1) by (simp add: safe_edit_def profile_user_def active_admin_def)
  moreover have "ad_users st' = row_save us_id y (ad_users st)" using w by (simp add: save_user_Inr st1_def)
  moreover have "ad_sessions st' = ad_sessions st" using w by (simp add: save_user_Inr st1_def)
  ultimately show ?thesis using x users_change.edit by blast
qed

lemmas write_profile_change = write_profile_unfold[THEN conjunct1]
lemmas write_profile_sessions = write_profile_unfold[THEN conjunct2]

lemma update_own_profile_change:
  "update_own_profile env now later pk email p st = Inr (y, st') \<Longrightarrow> users_change st st'"
  unfolding update_own_profile_def by (simp only: guard_Inr rbind_Inr_iff) (auto intro: write_profile_change)

end
