(* ===== verification/Authentication.thy ===== *)
theory Authentication
  imports Accounts
begin

text \<open>
  Signing in and staying signed in: \<^verbatim>\<open>accounts/services/auth_service.py\<close>,
  \<^verbatim>\<open>password_reset_service.py\<close>, \<^verbatim>\<open>email_change_service.py\<close>, \<^verbatim>\<open>session_service.py\<close>,
  \<^verbatim>\<open>accounts/authentication.py\<close>, \<^verbatim>\<open>accounts/permissions.py\<close> and the views of the app. The token
  library (parsing, blacklist, rotation, its own user lookup), Django's \<^verbatim>\<open>authenticate\<close> and the outgoing
  mail are parameters; the library's functions see the users and the blacklist and change at most the
  blacklist. Each read of the clock is an argument. An operation that commits before it raises returns
  its outcome together with the store.
\<close>

subsection \<open>Passwords\<close>

definition change_password ::
    "auth_env \<Rightarrow> instant \<Rightarrow> instant \<Rightarrow> nat \<Rightarrow> pyval \<Rightarrow> pyval \<Rightarrow> acct_store \<Rightarrow> acct_store res" where
  "change_password env now later pk old new st =
     (case (old, new) of
        (PStr old_password, PStr new_password) \<Rightarrow>
          (case get_account st pk of
             None \<Rightarrow> Inl (DoesNotExist ''Users'')
           | Some x \<Rightarrow>
               if \<not> us_active x then Inl (ValueError ''This account is inactive.'')
               else if us_password_at x \<noteq> None \<and> now - the (us_password_at x) < 15 * minute
               then Inl (ValueErrorF ''Password can only be changed once every 15 minutes. Try again in {} minute(s).''
                           [FInt (cooldown_left (15 * minute) now (the (us_password_at x)))])
               else if \<not> ev_check env old_password (us_password x) then Inl (ValueError ''Old Password is Incorrect'')
               else (case ev_bad_password env new_password x of
                       Some message \<Rightarrow> Inl (ValueError message)
                     | None \<Rightarrow>
                         Inr (drop_challenges pk (put_user (x\<lparr>us_password := ev_make env new_password,
                           us_version := us_version x + 1, us_password_at := Some later\<rparr>) st))))
      | _ \<Rightarrow> Inl (ValueError ''Passwords must be text.''))"

definition forgot_password :: "auth_env \<Rightarrow> nat \<Rightarrow> pyval \<Rightarrow> acct_store \<Rightarrow> acct_store res" where
  "forgot_password env pk new st =
     (case new of
        PStr new_password \<Rightarrow>
          (case get_account st pk of
             None \<Rightarrow> Inl (DoesNotExist ''Users'')
           | Some x \<Rightarrow>
               (case ev_bad_password env new_password x of
                  Some message \<Rightarrow> Inl (ValueError message)
                | None \<Rightarrow>
                    Inr (drop_challenges pk (put_user (x\<lparr>us_password := ev_make env new_password,
                      us_version := us_version x + 1, us_failed := 0, us_locked := None\<rparr>) st))))
      | _ \<Rightarrow> Inl (ValueError ''Password must be text.''))"


subsection \<open>Sessions and tokens\<close>

record token =
  tk_user :: "nat option"
  tk_version :: "nat option"
  tk_sid :: "nat option"
  tk_hash :: "string option"

record jwt_lib =
  jw_refresh :: "string \<Rightarrow> nat list \<Rightarrow> token res"
  jw_user :: "token \<Rightarrow> user list \<Rightarrow> user res"
  jw_blacklist :: "string \<Rightarrow> nat list \<Rightarrow> nat list"
  jw_rotate :: "string \<Rightarrow> nat list \<Rightarrow> (token \<times> nat list) res"
  jw_active :: "user \<Rightarrow> bool"
  jw_md5 :: "string \<Rightarrow> string"
  jw_new :: "user \<Rightarrow> token"
  jw_authenticate :: "string \<Rightarrow> string \<Rightarrow> user list \<Rightarrow> user option"

definition idle_timeout :: int where
  "idle_timeout = 900"

definition idle_warning :: int where
  "idle_warning = 60"

definition second :: int where
  "second = 1000000"

definition check_token_version :: "user \<Rightarrow> token \<Rightarrow> unit res" where
  "check_token_version u t =
     (if fill (tk_version t) 0 \<noteq> us_version u then Inl (AuthenticationFailed ''This session has been revoked.'') else Inr ())"

definition create_session_token :: "jwt_lib \<Rightarrow> instant \<Rightarrow> nat \<Rightarrow> user \<Rightarrow> acct_store \<Rightarrow> token \<times> acct_store" where
  "create_session_token jw now sid u st =
     ((jw_new jw u)\<lparr>tk_version := Some (us_version u), tk_sid := Some sid\<rparr>,
      st\<lparr>ad_sessions := row_ins \<lparr>ls_id = sid, ls_user = us_id u, ls_activity = now,
                                ls_expires = now + idle_timeout * second\<rparr> (ad_sessions st)\<rparr>)"

definition check_session :: "instant \<Rightarrow> nat \<Rightarrow> token \<Rightarrow> acct_store \<Rightarrow> login_session res" where
  "check_session now pk t st =
     (case tk_sid t of
        None \<Rightarrow> Inl (AuthenticationFailed ''Please sign in again.'')
      | Some sid \<Rightarrow>
          (case find (\<lambda>s. ls_id s = sid \<and> ls_user s = pk) (ad_sessions st) of
             None \<Rightarrow> Inl (AuthenticationFailed ''Please sign in again.'')
           | Some s \<Rightarrow>
               if ls_expires s \<le> now
               then Inl (AuthenticationFailed ''You were signed out due to inactivity. Please sign in again.'')
               else Inr s))"

record session_view =
  sv_id :: nat
  sv_timeout :: int
  sv_warning :: int
  sv_server :: instant
  sv_activity :: instant
  sv_expires :: instant

definition session_payload :: "instant \<Rightarrow> login_session \<Rightarrow> session_view" where
  "session_payload now s =
     \<lparr>sv_id = ls_id s, sv_timeout = idle_timeout, sv_warning = idle_warning, sv_server = now,
      sv_activity = ls_activity s, sv_expires = ls_expires s\<rparr>"

definition record_activity :: "instant \<Rightarrow> instant \<Rightarrow> nat \<Rightarrow> token \<Rightarrow> acct_store \<Rightarrow> (login_session \<times> acct_store) res" where
  "record_activity checked now pk t st =
     rbind (check_session checked pk t st) (\<lambda>s.
     if ls_expires s \<le> now
     then Inl (AuthenticationFailed ''You were signed out due to inactivity. Please sign in again.'')
     else let s' = s\<lparr>ls_activity := now, ls_expires := now + idle_timeout * second\<rparr>
          in Inr (s', st\<lparr>ad_sessions := row_save ls_id s' (ad_sessions st)\<rparr>))"

text \<open>The authentication of every API request, and the one of the logout endpoint.\<close>

definition get_user :: "jwt_lib \<Rightarrow> instant \<Rightarrow> token \<Rightarrow> acct_store \<Rightarrow> user res" where
  "get_user jw now t st =
     rbind (jw_user jw t (ad_users st)) (\<lambda>u.
     rbind (check_token_version u t) (\<lambda>_.
     rbind (check_session now (us_id u) t st) (\<lambda>_. Inr u)))"

definition logout_get_user :: "jwt_lib \<Rightarrow> token \<Rightarrow> acct_store \<Rightarrow> user res" where
  "logout_get_user jw t st =
     (case tk_user t of
        None \<Rightarrow> Inl (AuthenticationFailed ''Token contained no recognizable user identification'')
      | Some uid \<Rightarrow>
          (case get_account st uid of
             None \<Rightarrow> Inl (AuthenticationFailed ''User not found'')
           | Some u \<Rightarrow>
               if tk_hash t \<noteq> Some (jw_md5 jw (us_password u))
               then Inl (AuthenticationFailed ''The user password has been changed.'')
               else rbind (check_token_version u t) (\<lambda>_. Inr u)))"

definition is_admin :: "user option \<Rightarrow> bool" where
  "is_admin u \<longleftrightarrow> u \<noteq> None \<and> us_role (the u) = ''admin''"

definition is_staff :: "user option \<Rightarrow> bool" where
  "is_staff u \<longleftrightarrow> u \<noteq> None \<and> us_role (the u) = ''staff''"

definition logout :: "jwt_lib \<Rightarrow> string \<Rightarrow> nat \<Rightarrow> acct_store \<Rightarrow> acct_store res" where
  "logout jw refresh_token pk st =
     (case get_account st pk of
        None \<Rightarrow> Inl (DoesNotExist ''Users'')
      | Some u \<Rightarrow>
          rbind (jw_refresh jw refresh_token (ad_blacklist st)) (\<lambda>t.
          if tk_user t \<noteq> Some (us_id u)
          then Inl (ValueError ''Refresh token does not belong to the authenticated user.'')
          else rbind (check_token_version u t) (\<lambda>_.
               Inr (put_user (u\<lparr>us_version := us_version u + 1\<rparr>)
                      (st\<lparr>ad_blacklist := jw_blacklist jw refresh_token (ad_blacklist st)\<rparr>)))))"

text \<open>The refresh endpoint; the library rotates the token once the code's own checks have passed.\<close>

definition refresh_session ::
    "jwt_lib \<Rightarrow> instant \<Rightarrow> instant \<Rightarrow> string \<Rightarrow> acct_store \<Rightarrow> ((token \<times> session_view) \<times> acct_store) res" where
  "refresh_session jw now later refresh_token st =
     rbind (jw_refresh jw refresh_token (ad_blacklist st)) (\<lambda>t.
     case (case tk_user t of None \<Rightarrow> None | Some uid \<Rightarrow> get_account st uid) of
       None \<Rightarrow> Inl (AuthenticationFailed ''No active account found for the given token.'')
     | Some u \<Rightarrow>
         if \<not> jw_active jw u then Inl (AuthenticationFailed ''No active account found for the given token.'')
         else
         rbind (check_token_version u t) (\<lambda>_.
         rbind (check_session now (us_id u) t st) (\<lambda>s.
         if tk_hash t \<noteq> Some (jw_md5 jw (us_password u))
         then Inl (AuthenticationFailed ''The user password has been changed.'')
         else
         rbind (jw_rotate jw refresh_token (ad_blacklist st)) (\<lambda>(t', black).
         Inr ((t', session_payload later s), st\<lparr>ad_blacklist := black\<rparr>)))))"


subsection \<open>Login with lockout\<close>

definition login_max_failed :: nat where
  "login_max_failed = 5"

definition generic_login_error :: exn where
  "generic_login_error = AuthenticationFailed ''No active account found with the given credentials''"

definition failed_login :: "instant \<Rightarrow> user \<Rightarrow> user" where
  "failed_login now u =
     (let u1 = (if us_locked u \<noteq> None then u\<lparr>us_failed := 0, us_locked := None\<rparr> else u);
          u2 = u1\<lparr>us_failed := us_failed u1 + 1\<rparr>
      in if login_max_failed \<le> us_failed u2 then u2\<lparr>us_locked := Some (now + 15 * minute)\<rparr> else u2)"

definition record_failed_login :: "instant \<Rightarrow> nat \<Rightarrow> acct_store \<Rightarrow> acct_store res" where
  "record_failed_login now pk st =
     (case get_account st pk of
        None \<Rightarrow> Inl (DoesNotExist ''Users'')
      | Some u \<Rightarrow>
          if us_locked u \<noteq> None \<and> now < the (us_locked u) then Inr st
          else Inr (put_user (failed_login now u) st))"

text \<open>An \<^verbatim>\<open>UPDATE\<close> of some columns of one row.\<close>

definition set_user :: "nat \<Rightarrow> (user \<Rightarrow> user) \<Rightarrow> acct_store \<Rightarrow> acct_store" where
  "set_user pk f st = st\<lparr>ad_users := map (\<lambda>u. if us_id u = pk then f u else u) (ad_users st)\<rparr>"

definition login ::
    "jwt_lib \<Rightarrow> instant \<Rightarrow> instant \<Rightarrow> nat \<Rightarrow> string \<Rightarrow> string \<Rightarrow> acct_store \<Rightarrow>
     (token \<times> session_view) res \<times> acct_store" where
  "login jw now later sid username password st =
     (let user = find (\<lambda>u. us_username u = username) (ad_users st)
      in if user \<noteq> None \<and> us_locked (the user) \<noteq> None \<and> now < the (us_locked (the user))
      then (Inl generic_login_error, st)
      else (case jw_authenticate jw username password (ad_users st) of
              None \<Rightarrow>
                (case user of
                   None \<Rightarrow> (Inl generic_login_error, st)
                 | Some u \<Rightarrow>
                     (case record_failed_login later (us_id u) st of
                        Inl e \<Rightarrow> (Inl e, st)
                      | Inr st1 \<Rightarrow> (Inl generic_login_error, st1)))
            | Some a \<Rightarrow>
                (let (t, st1) = create_session_token jw later sid a st;
                     st2 = set_user (us_id a) (\<lambda>u. u\<lparr>us_failed := 0, us_locked := None\<rparr>) st1
                 in (case check_session later (us_id a) t st2 of
                       Inl e \<Rightarrow> (Inl e, st2)
                     | Inr s \<Rightarrow> (Inr (t, session_payload later s), st2)))))"


subsection \<open>Password reset by mailed code\<close>

definition otp_identity :: "string \<Rightarrow> string \<Rightarrow> string" where
  "otp_identity username email = username @ [CHR 0x00] @ casefold email"

definition otp_digest :: "auth_env \<Rightarrow> string \<Rightarrow> string \<Rightarrow> string" where
  "otp_digest env identity otp = ev_hmac env ''accounts.password-reset-otp'' (identity @ '':'' @ otp)"

definition matching_active_user :: "string \<Rightarrow> string \<Rightarrow> acct_store \<Rightarrow> user option" where
  "matching_active_user username email st =
     (case find (\<lambda>u. us_username u = username \<and> us_active u) (ad_users st) of
        None \<Rightarrow> None
      | Some u \<Rightarrow> if casefold (us_email u) \<noteq> casefold email then None else Some u)"

definition put_reset :: "reset_challenge \<Rightarrow> acct_store \<Rightarrow> acct_store" where
  "put_reset c st = st\<lparr>ad_resets := filter (\<lambda>d. pc_user d \<noteq> pc_user c) (ad_resets st) @ [c]\<rparr>"

definition get_reset :: "acct_store \<Rightarrow> nat \<Rightarrow> reset_challenge option" where
  "get_reset st pk = find (\<lambda>c. pc_user c = pk) (ad_resets st)"

definition request_password_reset ::
    "auth_env \<Rightarrow> instant \<Rightarrow> string \<Rightarrow> bool \<Rightarrow> string \<Rightarrow> string \<Rightarrow> acct_store \<Rightarrow> acct_store" where
  "request_password_reset env now otp mailed username email st =
     (case matching_active_user username email st of
        None \<Rightarrow> st
      | Some u \<Rightarrow>
          let digest = otp_digest env (otp_identity (us_username u) (us_email u)) otp
          in if (case get_reset st (us_id u) of None \<Rightarrow> False | Some c \<Rightarrow> now < pc_sent c + 60 * second) then st
          else
          let st1 = put_reset \<lparr>pc_user = us_id u, pc_digest = digest, pc_expires = now + 600 * second,
                               pc_failed = 0, pc_sent = now\<rparr> st
          in if mailed then st1
             else st1\<lparr>ad_resets := filter (\<lambda>c. \<not> (pc_user c = us_id u \<and> pc_digest c = digest)) (ad_resets st1)\<rparr>)"

definition reset_max_attempts :: nat where
  "reset_max_attempts = 5"

definition reset_password_with_otp ::
    "auth_env \<Rightarrow> instant \<Rightarrow> string \<Rightarrow> string \<Rightarrow> string \<Rightarrow> pyval \<Rightarrow> acct_store \<Rightarrow> (bool \<times> acct_store) res" where
  "reset_password_with_otp env now username email otp new st =
     (case matching_active_user username email st of
        None \<Rightarrow> Inr (False, st)
      | Some u \<Rightarrow>
          (case get_reset st (us_id u) of
             None \<Rightarrow> Inr (False, st)
           | Some c \<Rightarrow>
               if pc_expires c \<le> now then Inr (False, drop_resets (us_id u) st)
               else if pc_digest c \<noteq> otp_digest env (otp_identity (us_username u) (us_email u)) otp
               then (let failed = pc_failed c + 1
                     in if reset_max_attempts \<le> failed then Inr (False, drop_resets (us_id u) st)
                        else Inr (False, put_reset (c\<lparr>pc_failed := failed\<rparr>) st))
               else rbind (forgot_password env (us_id u) new st) (\<lambda>st1.
                    Inr (True, drop_resets (us_id u) st1))))"


subsection \<open>Changing the recovery e-mail\<close>

definition email_digest :: "auth_env \<Rightarrow> user \<Rightarrow> string \<Rightarrow> string \<Rightarrow> string" where
  "email_digest env u email otp =
     ev_hmac env ''accounts.email-change''
       (str_nat (us_id u) @ '':'' @ us_password u @ '':'' @ casefold email @ '':'' @ otp)"

definition credentials :: "auth_env \<Rightarrow> user \<Rightarrow> pyval \<Rightarrow> pyval \<Rightarrow> acct_store \<Rightarrow> string res" where
  "credentials env u password email st =
     (if \<not> us_active u \<or> \<not> password_given env password u then Inl (ValueError ''Current password is required.'')
      else case email of
        PStr e \<Rightarrow>
          (let email' = ev_norm_email env (strip e)
           in if \<not> ev_valid_email env email' then Inl (ValueError ''A valid email is required.'')
           else if casefold email' = casefold (us_email u) then Inl (ValueError ''Choose a different email address.'')
           else if email_taken email' (us_id u) st then Inl (ValueError ''Email is unavailable.'')
           else Inr email')
      | _ \<Rightarrow> Inl (ValueError ''A valid email is required.''))"

definition put_change :: "email_challenge \<Rightarrow> acct_store \<Rightarrow> acct_store" where
  "put_change c st = st\<lparr>ad_changes := filter (\<lambda>d. ec_user d \<noteq> ec_user c) (ad_changes st) @ [c]\<rparr>"

definition get_change :: "acct_store \<Rightarrow> nat \<Rightarrow> email_challenge option" where
  "get_change st pk = find (\<lambda>c. ec_user c = pk) (ad_changes st)"

definition request_email_change ::
    "auth_env \<Rightarrow> instant \<Rightarrow> string \<Rightarrow> bool \<Rightarrow> nat \<Rightarrow> pyval \<Rightarrow> pyval \<Rightarrow> acct_store \<Rightarrow> unit res \<times> acct_store" where
  "request_email_change env now otp mailed pk password email st =
     (case get_account st pk of
        None \<Rightarrow> (Inl (DoesNotExist ''Users''), st)
      | Some u \<Rightarrow>
          (case credentials env u password email st of
             Inl e \<Rightarrow> (Inl e, st)
           | Inr email' \<Rightarrow>
               if (case get_change st pk of None \<Rightarrow> False | Some c \<Rightarrow> now < ec_sent c + 60 * second)
               then (Inl (ValueError ''Wait one minute before requesting another code.''), st)
               else
               let digest = email_digest env u email' otp;
                   st1 = put_change \<lparr>ec_user = pk, ec_email = email', ec_digest = digest,
                                     ec_expires = now + 10 * minute, ec_failed = 0, ec_sent = now\<rparr> st
               in if mailed then (Inr (), st1)
                  else (Inl (ValueError ''Unable to send verification email. Try again later.''),
                        st1\<lparr>ad_changes := filter (\<lambda>c. \<not> (ec_user c = pk \<and> ec_digest c = digest)) (ad_changes st1)\<rparr>)))"

definition confirm_email_change ::
    "auth_env \<Rightarrow> instant \<Rightarrow> instant \<Rightarrow> nat \<Rightarrow> pyval \<Rightarrow> pyval \<Rightarrow> pyval \<Rightarrow> acct_store \<Rightarrow> (bool \<times> acct_store) res" where
  "confirm_email_change env now later pk password email otp st =
     (case get_account st pk of
        None \<Rightarrow> Inl (DoesNotExist ''Users'')
      | Some u \<Rightarrow>
          rbind (credentials env u password email st) (\<lambda>email'.
          case get_change st pk of
            None \<Rightarrow> Inr (False, st)
          | Some c \<Rightarrow>
              if ec_expires c \<le> now then Inr (False, drop_changes pk st)
              else if (case otp of
                         PStr code \<Rightarrow> casefold (ec_email c) \<noteq> casefold email' \<or> ec_digest c \<noteq> email_digest env u email' code
                       | _ \<Rightarrow> True)
              then (let failed = ec_failed c + 1
                    in if 5 \<le> failed then Inr (False, drop_changes pk st)
                       else Inr (False, put_change (c\<lparr>ec_failed := failed\<rparr>) st))
              else (let y = u\<lparr>us_email := email', us_version := us_version u + 1, us_profile_at := Some later\<rparr>
                    in (case save_user y st of
                          Inl _ \<Rightarrow> Inl (ValueError ''Email is unavailable.'')
                        | Inr st1 \<Rightarrow> Inr (True, drop_changes pk (drop_resets pk st1))))))"


subsection \<open>Every operation of the app as a step\<close>

text \<open>
  One step of the accounts app with all its clock reads at or after an instant. New session ids are
  fresh.
\<close>

inductive acct_step :: "auth_env \<Rightarrow> jwt_lib \<Rightarrow> instant \<Rightarrow> acct_store \<Rightarrow> acct_store \<Rightarrow> bool"
  for env jw T where
  update: "update_user env pk u requesting st = Inr (y, st') \<Longrightarrow> acct_step env jw T st st'"
| deactivate: "deactivate_user pk requesting reason st = Inr (y, st') \<Longrightarrow> acct_step env jw T st st'"
| register: "register_user env g st = Inr (y, st') \<Longrightarrow> acct_step env jw T st st'"
| profile: "update_own_profile env now later pk email p st = Inr (y, st') \<Longrightarrow> acct_step env jw T st st'"
| change: "change_password env now later pk old new st = Inr st' \<Longrightarrow> acct_step env jw T st st'"
| forgot: "forgot_password env pk new st = Inr st' \<Longrightarrow> acct_step env jw T st st'"
| signout: "logout jw text pk st = Inr st' \<Longrightarrow> acct_step env jw T st st'"
| refresh: "refresh_session jw now later text st = Inr (r, st') \<Longrightarrow> acct_step env jw T st st'"
| activity: "record_activity checked now pk t st = Inr (s, st') \<Longrightarrow> T \<le> checked \<Longrightarrow> T \<le> now \<Longrightarrow> acct_step env jw T st st'"
| signin: "login jw now later sid username password st = (r, st') \<Longrightarrow> sid \<notin> ls_id ` set (ad_sessions st) \<Longrightarrow>
            acct_step env jw T st st'"
| request_reset: "acct_step env jw T st (request_password_reset env now otp mailed username email st)"
| reset: "reset_password_with_otp env now username email otp new st = Inr (b, st') \<Longrightarrow> acct_step env jw T st st'"
| request_email: "request_email_change env now otp mailed pk password email st = (r', st') \<Longrightarrow> acct_step env jw T st st'"
| confirm_email: "confirm_email_change env now later pk password email otp st = Inr (b, st') \<Longrightarrow> acct_step env jw T st st'"

abbreviation acct_run :: "auth_env \<Rightarrow> jwt_lib \<Rightarrow> instant \<Rightarrow> acct_store \<Rightarrow> acct_store \<Rightarrow> bool" where
  "acct_run env jw T \<equiv> (acct_step env jw T)\<^sup>*\<^sup>*"

lemma challenge_fields [simp]:
  "ad_users (put_reset c st) = ad_users st" "ad_sessions (put_reset c st) = ad_sessions st"
  "ad_users (put_change d st) = ad_users st" "ad_sessions (put_change d st) = ad_sessions st"
  by (simp_all add: put_reset_def put_change_def)

text \<open>An edit of one row that keeps the role and the active flag and never lowers the token version.\<close>

lemma plain_edit:
  assumes "get_account st pk = Some x" "ad_users st' = row_save us_id y (ad_users st)"
    "us_id y = us_id x" "us_version x \<le> us_version y" "us_role y = us_role x" "us_active y = us_active x"
  shows "users_change st st'"
  using assms by (auto intro!: users_change.edit[OF assms(1)] simp: safe_edit_def active_admin_def)

lemma change_password_Inr:
  assumes "change_password env now later pk old new st = Inr st'"
  obtains x p where "get_account st pk = Some x" "us_active x"
    "st' = drop_challenges pk (put_user (x\<lparr>us_password := ev_make env p,
       us_version := us_version x + 1, us_password_at := Some later\<rparr>) st)"
  using assms unfolding change_password_def
  by (auto simp only: prod.case guard_Inr guard_opt_Inr guard_none_Inr sum.inject split: pyval.split_asm)

lemma forgot_password_Inr:
  assumes "forgot_password env pk new st = Inr st'"
  obtains x p where "get_account st pk = Some x"
    "st' = drop_challenges pk (put_user (x\<lparr>us_password := ev_make env p,
       us_version := us_version x + 1, us_failed := 0, us_locked := None\<rparr>) st)"
  using assms unfolding forgot_password_def
  by (auto simp only: guard_opt_Inr guard_none_Inr sum.inject split: pyval.split_asm)

lemma logout_Inr:
  assumes "logout jw text pk st = Inr st'"
  obtains x black where "get_account st pk = Some x"
    "st' = put_user (x\<lparr>us_version := us_version x + 1\<rparr>) (st\<lparr>ad_blacklist := black\<rparr>)"
  using assms unfolding logout_def by (auto simp only: guard_opt_Inr guard_Inr rbind_Inr_iff sum.inject)

lemma refresh_session_Inr:
  "refresh_session jw now later text st = Inr (r, st') \<Longrightarrow> \<exists>black. st' = st\<lparr>ad_blacklist := black\<rparr>"
  unfolding refresh_session_def
  by (auto simp only: guard_opt_Inr guard_Inr rbind_Inr_iff sum.inject prod.inject split: prod.split_asm)

lemma record_activity_Inr:
  assumes "record_activity checked now pk t st = Inr (s', st')"
  obtains s where "check_session checked pk t st = Inr s" "now < ls_expires s"
    "s' = s\<lparr>ls_activity := now, ls_expires := now + idle_timeout * second\<rparr>"
    "st' = st\<lparr>ad_sessions := row_save ls_id s' (ad_sessions st)\<rparr>"
  using assms unfolding record_activity_def Let_def
  by (auto simp only: guard_Inr rbind_Inr_iff sum.inject prod.inject not_le)

lemma reset_password_Inr:
  assumes "reset_password_with_otp env now username email otp new st = Inr (b, st')"
  shows "ad_users st' = ad_users st \<and> ad_sessions st' = ad_sessions st \<and> \<not> b \<or>
         b \<and> (\<exists>pk st1. forgot_password env pk new st = Inr st1 \<and> st' = drop_resets pk st1)"
  using assms by (auto simp: reset_password_with_otp_def Let_def split: option.split_asm if_split_asm)

lemma confirm_email_Inr:
  assumes "confirm_email_change env now later pk password email otp st = Inr (b, st')"
  shows "ad_users st' = ad_users st \<and> ad_sessions st' = ad_sessions st \<and> \<not> b \<or>
         b \<and> (\<exists>x e. get_account st pk = Some x \<and> ad_sessions st' = ad_sessions st \<and>
           ad_users st' = row_save us_id (x\<lparr>us_email := e, us_version := us_version x + 1, us_profile_at := Some later\<rparr>) (ad_users st))"
proof -
  obtain x e where x: "get_account st pk = Some x" "credentials env x password email st = Inr e"
    using assms by (auto simp: confirm_email_change_def guard_opt_Inr)
  show ?thesis
    using assms unfolding confirm_email_change_def x option.case rbind.simps Let_def
    by (auto simp: save_user_Inr guard_sum_Inr x(1) split: option.split_asm if_split_asm)
qed

lemma request_email_fields:
  "request_email_change env now otp mailed pk password email st = (r, st') \<Longrightarrow>
     ad_users st' = ad_users st \<and> ad_sessions st' = ad_sessions st"
  by (auto simp: request_email_change_def Let_def split: option.split_asm sum.split_asm if_split_asm)

lemma request_reset_fields [simp]:
  "ad_users (request_password_reset env now otp mailed username email st) = ad_users st"
  "ad_sessions (request_password_reset env now otp mailed username email st) = ad_sessions st"
  by (simp_all add: request_password_reset_def Let_def split: option.split)

lemma set_user_save:
  assumes "keys_ok us_id (ad_users st)" "get_account st pk = Some x" "us_id (f x) = us_id x"
  shows "ad_users (set_user pk f st) = row_save us_id (f x) (ad_users st)"
proof -
  have "u = x" if "u \<in> set (ad_users st)" "us_id u = pk" for u
    using that assms by (metis option.inject row_get_iff)
  moreover have "us_id x = pk" using assms(2) by (auto dest: row_get_Some)
  ultimately show ?thesis using assms(3) by (auto simp: set_user_def row_save_def)
qed

lemma set_user_none: "get_account st pk = None \<Longrightarrow> ad_users (set_user pk f st) = ad_users st"
  by (force simp: set_user_def row_get_None intro: map_idI)

lemma failed_login_fields [simp]:
  "us_id (failed_login now u) = us_id u" "us_version (failed_login now u) = us_version u"
  "us_role (failed_login now u) = us_role u" "us_active (failed_login now u) = us_active u"
  "us_username (failed_login now u) = us_username u" "us_password (failed_login now u) = us_password u"
  by (simp_all add: failed_login_def Let_def)

lemma record_failed_Inr:
  "record_failed_login now pk st = Inr st' \<Longrightarrow> st' = st \<or>
     (\<exists>u. get_account st pk = Some u \<and> st' = put_user (failed_login now u) st)"
  by (auto simp: record_failed_login_def split: option.split_asm if_split_asm)

text \<open>What a login leaves behind: nothing, a failed attempt, or a fresh session and a cleared counter.\<close>

lemma login_cases:
  assumes "login jw now later sid username password st = (r, st')"
  shows "st' = st \<or> (\<exists>pk u. get_account st pk = Some u \<and> st' = put_user (failed_login later u) st) \<or>
    (\<exists>a. st' = set_user (us_id a) (\<lambda>u. u\<lparr>us_failed := 0, us_locked := None\<rparr>) (snd (create_session_token jw later sid a st)))"
proof (cases "jw_authenticate jw username password (ad_users st)")
  case None
  then show ?thesis using assms by (auto simp: login_def Let_def split: if_split_asm option.split_asm sum.split_asm dest!: record_failed_Inr)
next
  case (Some a)
  then have "st' = st \<or> st' = set_user (us_id a) (\<lambda>u. u\<lparr>us_failed := 0, us_locked := None\<rparr>) (snd (create_session_token jw later sid a st))"
    using assms by (auto simp: login_def Let_def split: if_split_asm prod.split_asm sum.split_asm)
  then show ?thesis by blast
qed

lemma login_change:
  assumes "login jw now later sid username password st = (r, st')" "keys_ok us_id (ad_users st)"
  shows "users_change st st'"
  using login_cases[OF assms(1)]
proof (elim disjE exE conjE)
  fix a assume st': "st' = set_user (us_id a) (\<lambda>u. u\<lparr>us_failed := 0, us_locked := None\<rparr>) (snd (create_session_token jw later sid a st))"
  define st1 where "st1 = snd (create_session_token jw later sid a st)"
  have u: "ad_users st1 = ad_users st" by (simp add: st1_def create_session_token_def)
  show ?thesis
  proof (cases "get_account st (us_id a)")
    case None
    then show ?thesis using st' u by (auto intro!: users_change.same simp: set_user_none st1_def[symmetric])
  next
    case (Some x)
    then have "ad_users st' = row_save us_id (x\<lparr>us_failed := 0, us_locked := None\<rparr>) (ad_users st)"
      using set_user_save[of st1 "us_id a" x "\<lambda>u. u\<lparr>us_failed := 0, us_locked := None\<rparr>"] assms(2) st' u
      by (simp add: st1_def)
    with Some show ?thesis by (rule plain_edit) auto
  qed
next
  fix pk u assume "get_account st pk = Some u" "st' = put_user (failed_login later u) st"
  then show ?thesis by (rule_tac plain_edit) (assumption, simp, simp_all)
qed (auto intro: users_change.same)

lemma acct_step_change:
  assumes "acct_step env jw T st st'" "keys_ok us_id (ad_users st)"
  shows "users_change st st'"
  using assms
proof (induction rule: acct_step.induct)
  case (change now later pk old new st st')
  then show ?case by (elim change_password_Inr) (rule plain_edit, assumption, simp, simp_all)
next
  case (forgot pk new st st')
  then show ?case by (elim forgot_password_Inr) (rule plain_edit, assumption, simp, simp_all)
next
  case (signout tok pk st st')
  then show ?case by (elim logout_Inr) (rule plain_edit, assumption, simp, simp_all)
next
  case (refresh now later tok st r st')
  then show ?case by (auto dest!: refresh_session_Inr intro: users_change.same)
next
  case (activity checked now pk t st s st')
  from activity(1) show ?case by (elim record_activity_Inr) (auto intro: users_change.same)
next
  case (reset now username email otp new st b st')
  from reset_password_Inr[OF reset(1)] show ?case
  proof (elim disjE conjE exE)
    fix pk st1 assume "forgot_password env pk new st = Inr st1" "st' = drop_resets pk st1"
    then show ?thesis by (elim forgot_password_Inr) (rule plain_edit, assumption, simp, simp_all)
  qed (simp add: users_change.same)
next
  case (confirm_email now later pk password email otp st b st')
  from confirm_email_Inr[OF confirm_email(1)] show ?case
    by (elim disjE conjE exE) (simp add: users_change.same, rule plain_edit, assumption+, simp_all)
qed (auto intro: users_change.same update_user_change deactivate_user_change register_user_change
       update_own_profile_change login_change dest: request_email_fields)

lemma acct_run_keys:
  "acct_run env jw T st st' \<Longrightarrow> keys_ok us_id (ad_users st) \<Longrightarrow> keys_ok us_id (ad_users st')"
  by (induction rule: rtranclp_induct) (auto intro: users_change_keys acct_step_change)

lemma acct_run_admin: "acct_run env jw T st st' \<Longrightarrow> users_ok st \<Longrightarrow> users_ok st'"
  by (induction rule: rtranclp_induct) (auto simp: users_ok_def intro: users_change_admin[unfolded users_ok_def, THEN conjunct2]
        users_change_keys acct_step_change)

lemma acct_run_version:
  assumes "acct_run env jw T st st'" "keys_ok us_id (ad_users st)" "get_account st pk = Some u"
  shows "\<exists>u'. get_account st' pk = Some u' \<and> us_version u \<le> us_version u'"
  using assms
proof (induction rule: rtranclp_induct)
  case (step st1 st2)
  then obtain u1 where "get_account st1 pk = Some u1" "us_version u \<le> us_version u1" by blast
  moreover have "keys_ok us_id (ad_users st1)" using step acct_run_keys by blast
  ultimately show ?case using step(2) users_change_version[OF acct_step_change] by (meson order_trans)
qed auto


subsection \<open>Revoked tokens\<close>

text \<open>
  What the code relies on of the token library: its own user lookup answers with the stored row of the
  user the token names.
\<close>

definition jwt_user_ok :: "jwt_lib \<Rightarrow> bool" where
  "jwt_user_ok jw \<longleftrightarrow> (\<forall>t users u. jw_user jw t users = Inr u \<longrightarrow>
     tk_user t = Some (us_id u) \<and> row_get us_id users (us_id u) = Some u)"

text \<open>The operations that sign a user out everywhere.\<close>

inductive revokes :: "auth_env \<Rightarrow> jwt_lib \<Rightarrow> nat \<Rightarrow> acct_store \<Rightarrow> acct_store \<Rightarrow> bool" for env jw pk st st' where
  by_change: "change_password env now later pk old new st = Inr st' \<Longrightarrow> revokes env jw pk st st'"
| by_admin_reset: "forgot_password env pk new st = Inr st' \<Longrightarrow> revokes env jw pk st st'"
| by_logout: "logout jw tok pk st = Inr st' \<Longrightarrow> revokes env jw pk st st'"
| by_deactivation: "deactivate_user pk requesting reason st = Inr (y, st') \<Longrightarrow> revokes env jw pk st st'"
| by_update: "update_user env pk u requesting st = Inr (y, st') \<Longrightarrow> get_account st pk = Some x \<Longrightarrow> us_active x \<Longrightarrow>
     active_flag u = Some False \<Longrightarrow> revokes env jw pk st st'"
| by_email: "confirm_email_change env now later pk password email otp st = Inr (True, st') \<Longrightarrow> revokes env jw pk st st'"

lemma saved_version:
  assumes "get_account st pk = Some x" "ad_users st' = row_save us_id y (ad_users st)" "us_id y = us_id x"
  shows "get_account st' pk = Some y"
  using assms by (auto simp: row_get_save dest: row_get_Some)

lemma revokes_version:
  assumes "revokes env jw pk st st'" "get_account st pk = Some u"
  shows "\<exists>u'. get_account st' pk = Some u' \<and> us_version u < us_version u'"
  using assms
proof (induction rule: revokes.induct)
  case (by_change now later old new)
  from by_change(1) obtain p where "ad_users st' = row_save us_id (u\<lparr>us_password := ev_make env p,
       us_version := us_version u + 1, us_password_at := Some later\<rparr>) (ad_users st)"
    using by_change(2) by (elim change_password_Inr) auto
  from saved_version[OF by_change(2) this] show ?case by simp
next
  case (by_admin_reset new)
  from by_admin_reset(1) obtain p where "ad_users st' = row_save us_id (u\<lparr>us_password := ev_make env p,
       us_version := us_version u + 1, us_failed := 0, us_locked := None\<rparr>) (ad_users st)"
    using by_admin_reset(2) by (elim forgot_password_Inr) auto
  from saved_version[OF by_admin_reset(2) this] show ?case by simp
next
  case (by_logout tok)
  from by_logout(1) have "ad_users st' = row_save us_id (u\<lparr>us_version := us_version u + 1\<rparr>) (ad_users st)"
    using by_logout(2) by (elim logout_Inr) auto
  from saved_version[OF by_logout(2) this] show ?case by simp
next
  case (by_deactivation requesting reason y)
  then have "ad_users st' = row_save us_id (u\<lparr>us_active := False, us_version := us_version u + 1, us_reason := reason\<rparr>) (ad_users st)"
    unfolding deactivate_user_def Let_def by (simp only: guard_Inr guard_opt_Inr) auto
  from saved_version[OF by_deactivation(2) this] show ?case by simp
next
  case (by_update c requesting y x)
  then obtain name email reason where "y = edited_user c name email reason u" "ad_users st' = row_save us_id y (ad_users st)"
    using update_user_unfold[OF by_update(1)] by (metis option.inject)
  with saved_version[OF by_update(5), of st' y] by_update show ?case by (simp add: edited_user_def)
next
  case (by_email now later password email otp)
  then obtain e where "ad_users st' = row_save us_id (u\<lparr>us_email := e, us_version := us_version u + 1, us_profile_at := Some later\<rparr>) (ad_users st)"
    using confirm_email_Inr[OF by_email(1)] by auto
  from saved_version[OF by_email(2) this] show ?case by simp
qed

lemma get_user_Inr:
  "get_user jw now t st = Inr u \<Longrightarrow> jwt_user_ok jw \<Longrightarrow>
     tk_user t = Some (us_id u) \<and> get_account st (us_id u) = Some u \<and> fill (tk_version t) 0 = us_version u"
  unfolding jwt_user_ok_def get_user_def check_token_version_def by (simp only: rbind_Inr_iff guard_Inr) auto

definition demo_env :: auth_env where
  "demo_env = \<lparr>ev_check = (\<lambda>p h. h = CHR ''#'' # p), ev_make = (\<lambda>p. CHR ''#'' # p),
     ev_bad_password = (\<lambda>p u. if length p < 8 then Some ''This password is too short.'' else None),
     ev_valid_email = (\<lambda>e. CHR ''@'' \<in> set e), ev_norm_email = (\<lambda>e. e), ev_norm_username = (\<lambda>n. n),
     ev_clean = (\<lambda>u us. None), ev_hmac = (\<lambda>k m. k @ m)\<rparr>"

definition demo_user :: "nat \<Rightarrow> string \<Rightarrow> string \<Rightarrow> user" where
  "demo_user pk name role = \<lparr>us_id = pk, us_username = name, us_email = name @ ''@farm.ph'', us_password = ''#secret-1'',
     us_role = role, us_active = True, us_first = [], us_last = [], us_phone = None, us_address = None,
     us_reason = ''none'', us_failed = 0, us_locked = None, us_profile_at = None, us_password_at = None, us_version = 0\<rparr>"

definition demo_token :: token where
  "demo_token = \<lparr>tk_user = Some 1, tk_version = Some 0, tk_sid = Some 7, tk_hash = Some ''#secret-1''\<rparr>"

definition demo_jwt :: jwt_lib where
  "demo_jwt = \<lparr>jw_refresh = (\<lambda>t b. Inr demo_token),
     jw_user = (\<lambda>t users. case tk_user t of None \<Rightarrow> Inl TokenError
        | Some k \<Rightarrow> (case row_get us_id users k of None \<Rightarrow> Inl TokenError
                     | Some u \<Rightarrow> if us_active u then Inr u else Inl TokenError)),
     jw_blacklist = (\<lambda>t b. 1 # b), jw_rotate = (\<lambda>t b. Inr (demo_token, 1 # b)), jw_active = us_active,
     jw_md5 = (\<lambda>p. p), jw_new = (\<lambda>u. demo_token),
     jw_authenticate = (\<lambda>n p users. find (\<lambda>u. us_username u = n \<and> us_active u \<and> us_password u = CHR ''#'' # p) users)\<rparr>"

definition demo_acct :: acct_store where
  "demo_acct = \<lparr>ad_users = [demo_user 1 ''ana'' ''admin'', demo_user 2 ''ben'' ''admin'', demo_user 3 ''carl'' ''staff''],
     ad_resets = [], ad_changes = [], ad_sessions = [\<lparr>ls_id = 7, ls_user = 1, ls_activity = 0, ls_expires = 900000000\<rparr>],
     ad_blacklist = []\<rparr>"

lemmas demo_acct_defs = demo_env_def demo_user_def demo_token_def demo_jwt_def demo_acct_def

lemma demo_jwt_ok: "jwt_user_ok demo_jwt"
  by (auto simp: jwt_user_ok_def demo_jwt_def split: option.splits if_splits dest: row_get_Some)

text \<open>
  C9: Whatever the accounts app does (edits and deactivations by admins, registrations, profile and
  password changes, resets, logins, logouts, e-mail changes), in any order, a system that has an active
  admin still has one.
\<close>

theorem last_admin_remains:
  "acct_run env jw T st st' \<Longrightarrow> users_ok st \<Longrightarrow> users_ok st'"
  by (rule acct_run_admin)

theorem last_admin_remains_witness:
  "users_ok (snd (projr (deactivate_user 2 1 ''leave'' demo_acct))) \<and>
   deactivate_user 1 2 ''leave'' (snd (projr (deactivate_user 2 1 ''leave'' demo_acct)))
     = Inl (ValueError ''Cannot deactivate the last active admin.'')"
proof -
  have "acct_step demo_env demo_jwt 0 demo_acct (snd (projr (deactivate_user 2 1 ''leave'' demo_acct)))"
    by (rule acct_step.deactivate[of 2 1 "''leave''" _ "fst (projr (deactivate_user 2 1 ''leave'' demo_acct))"]) code_simp
  then have "acct_run demo_env demo_jwt 0 demo_acct (snd (projr (deactivate_user 2 1 ''leave'' demo_acct)))" by blast
  moreover have "users_ok demo_acct" by code_simp
  moreover have "deactivate_user 1 2 ''leave'' (snd (projr (deactivate_user 2 1 ''leave'' demo_acct)))
     = Inl (ValueError ''Cannot deactivate the last active admin.'')" by code_simp
  ultimately show ?thesis using last_admin_remains by blast
qed

text \<open>
  C10: Once a user's password is changed or reset, the recovery e-mail is replaced, the user logs out or
  is deactivated, a token that authenticated this user before never authenticates any request again,
  whatever happens in the app afterwards.
\<close>

theorem revoked_token_rejected:
  assumes "jwt_user_ok jw" "keys_ok us_id (ad_users st)" "get_user jw now t st = Inr u"
    "revokes env jw (us_id u) st st1" "acct_run env jw T st1 st2"
  shows "\<exists>e. get_user jw now' t st2 = Inl e"
proof (rule ccontr)
  assume "\<not> ?thesis"
  then obtain v where v: "get_user jw now' t st2 = Inr v" by (metis sum.exhaust)
  have u: "tk_user t = Some (us_id u)" "get_account st (us_id u) = Some u" "fill (tk_version t) 0 = us_version u"
    using get_user_Inr[OF assms(3,1)] by auto
  obtain u1 where u1: "get_account st1 (us_id u) = Some u1" "us_version u < us_version u1"
    using revokes_version[OF assms(4) u(2)] by blast
  have "acct_step env jw T st st1"
    using assms(4) by (cases rule: revokes.cases) (auto intro: acct_step.intros)
  then have "keys_ok us_id (ad_users st1)" using acct_step_change users_change_keys assms(2) by blast
  then obtain u2 where u2: "get_account st2 (us_id u) = Some u2" "us_version u1 \<le> us_version u2"
    using acct_run_version assms(5) u1(1) by blast
  with get_user_Inr[OF v assms(1)] u u1(2) show False by simp
qed

theorem revoked_token_rejected_witness:
  "get_user demo_jwt 5 demo_token demo_acct = Inr (demo_user 1 ''ana'' ''admin'') \<and>
   (\<exists>e. get_user demo_jwt 9 demo_token
     (projr (change_password demo_env 6 7 1 (PStr ''secret-1'') (PStr ''longer-secret'') demo_acct)) = Inl e)"
proof -
  let ?st1 = "projr (change_password demo_env 6 7 1 (PStr ''secret-1'') (PStr ''longer-secret'') demo_acct)"
  have g: "get_user demo_jwt 5 demo_token demo_acct = Inr (demo_user 1 ''ana'' ''admin'')" by code_simp
  have "change_password demo_env 6 7 1 (PStr ''secret-1'') (PStr ''longer-secret'') demo_acct = Inr ?st1" by code_simp
  then have "revokes demo_env demo_jwt (us_id (demo_user 1 ''ana'' ''admin'')) demo_acct ?st1"
    by (auto intro: revokes.by_change simp: demo_user_def)
  moreover have "keys_ok us_id (ad_users demo_acct)" by code_simp
  ultimately show ?thesis using revoked_token_rejected[OF demo_jwt_ok _ g, of demo_env ?st1 0 ?st1 9] g by auto
qed


subsection \<open>Expired sessions\<close>

lemma check_session_Inr:
  "check_session now pk t st = Inr s \<Longrightarrow> s \<in> set (ad_sessions st) \<and> tk_sid t = Some (ls_id s) \<and> ls_user s = pk \<and> now < ls_expires s"
  by (auto simp: check_session_def find_Some_iff split: option.split_asm if_split_asm)

lemma record_activity_sessions:
  assumes "record_activity checked now pk t st = Inr (s', st')" "keys_ok ls_id (ad_sessions st)"
    "x \<in> set (ad_sessions st)" "ls_expires x \<le> checked"
  shows "keys_ok ls_id (ad_sessions st') \<and> x \<in> set (ad_sessions st')"
proof -
  obtain s where s: "check_session checked pk t st = Inr s"
    "s' = s\<lparr>ls_activity := now, ls_expires := now + idle_timeout * second\<rparr>"
    "st' = st\<lparr>ad_sessions := row_save ls_id s' (ad_sessions st)\<rparr>"
    using assms(1) by (elim record_activity_Inr)
  have i: "s \<in> set (ad_sessions st)" "checked < ls_expires s" using check_session_Inr[OF s(1)] by auto
  then have "ls_id x \<noteq> ls_id s" using assms(2-4) by (metis keys_ok_def inj_onD distinct_map not_le)
  then have "x \<in> set (row_save ls_id s' (ad_sessions st))"
    using assms(3) s(2) by (auto simp: row_save_def intro!: image_eqI[of _ _ x])
  then show ?thesis using s(3) assms(2) by simp
qed

lemma untouched_sessions:
  "update_user env pk u requesting st = Inr (y, st') \<Longrightarrow> ad_sessions st' = ad_sessions st"
  "deactivate_user pk requesting reason st = Inr (y, st') \<Longrightarrow> ad_sessions st' = ad_sessions st"
  "update_own_profile env now later pk email p st = Inr (y, st') \<Longrightarrow> ad_sessions st' = ad_sessions st"
  "register_user env g st = Inr (y, st') \<Longrightarrow> ad_sessions st' = ad_sessions st"
proof -
  show "update_user env pk u requesting st = Inr (y, st') \<Longrightarrow> ad_sessions st' = ad_sessions st"
    by (elim update_user_unfold)
  show "deactivate_user pk requesting reason st = Inr (y, st') \<Longrightarrow> ad_sessions st' = ad_sessions st"
    unfolding deactivate_user_def Let_def by (simp only: guard_Inr guard_opt_Inr) auto
  show "register_user env g st = Inr (y, st') \<Longrightarrow> ad_sessions st' = ad_sessions st"
    unfolding register_user_def Let_def by (auto simp: guard_Inr guard_none_Inr split: pyval.split_asm option.split_asm)
  show "update_own_profile env now later pk email p st = Inr (y, st') \<Longrightarrow> ad_sessions st' = ad_sessions st"
    by (auto simp only: update_own_profile_def guard_Inr rbind_Inr_iff dest: write_profile_sessions)
qed

lemma login_sessions:
  assumes "login jw now later sid username password st = (r, st')"
  shows "ad_sessions st' = ad_sessions st \<or> (\<exists>s. ls_id s = sid \<and> ad_sessions st' = row_ins s (ad_sessions st))"
  using login_cases[OF assms]
  by (elim disjE exE) (simp_all add: set_user_def create_session_token_def, metis login_session.select_convs(1))

lemma acct_step_session:
  assumes "acct_step env jw T st st'" "keys_ok ls_id (ad_sessions st)" "x \<in> set (ad_sessions st)" "ls_expires x \<le> T"
  shows "keys_ok ls_id (ad_sessions st') \<and> x \<in> set (ad_sessions st')"
  using assms
proof (induction rule: acct_step.induct)
  case (activity checked now pk t st s st')
  then show ?case using record_activity_sessions by (meson order_trans)
next
  case (signin now later sid username password st r st')
  with login_sessions[OF signin(1)] show ?case by (auto simp: keys_ok_def row_ins_def)
next
  case (reset now username email otp new st b st')
  with reset_password_Inr[OF reset(1)] show ?case by (auto elim!: forgot_password_Inr)
next
  case (confirm_email now later pk password email otp st b st')
  with confirm_email_Inr[OF confirm_email(1)] show ?case by auto
qed (auto elim!: change_password_Inr forgot_password_Inr logout_Inr dest!: refresh_session_Inr untouched_sessions request_email_fields)

lemma acct_run_session:
  assumes "acct_run env jw T st st'" "keys_ok ls_id (ad_sessions st)" "x \<in> set (ad_sessions st)" "ls_expires x \<le> T"
  shows "keys_ok ls_id (ad_sessions st') \<and> x \<in> set (ad_sessions st')"
  using assms by (induction rule: rtranclp_induct) (auto dest: acct_step_session)

text \<open>
  A session whose idle deadline has passed is never revived: whatever happens in the app from then
  on (activity pings and logins included), no later request with its token passes the session check.
\<close>

lemma expired_session_stays_expired:
  assumes "acct_run env jw T st st'" "keys_ok ls_id (ad_sessions st)" "x \<in> set (ad_sessions st)"
    "ls_expires x \<le> T" "tk_sid t = Some (ls_id x)" "T \<le> now"
  shows "\<exists>e. check_session now pk t st' = Inl e"
proof (rule ccontr)
  assume "\<not> ?thesis"
  then obtain s where "check_session now pk t st' = Inr s" by (metis sum.exhaust)
  then have s: "s \<in> set (ad_sessions st')" "ls_id s = ls_id x" "now < ls_expires s"
    using check_session_Inr assms(5) by fastforce+
  have "s = x" using acct_run_session[OF assms(1-4)] s(1,2) by (metis keys_ok_def inj_onD distinct_map)
  with s assms(4,6) show False by simp
qed

lemma expired_session_stays_expired_witness:
  "(\<exists>e. check_session 900000005 1 demo_token
     (snd (login demo_jwt 900000003 900000003 8 ''ana'' ''secret-1'' demo_acct)) = Inl e) \<and>
   (\<exists>s. check_session 5 1 demo_token demo_acct = Inr s)"
proof -
  let ?st = "snd (login demo_jwt 900000003 900000003 8 ''ana'' ''secret-1'' demo_acct)"
  have "acct_step demo_env demo_jwt 900000000 demo_acct ?st"
    by (rule acct_step.signin[of demo_jwt 900000003 900000003 8 "''ana''" "''secret-1''" demo_acct
          "fst (login demo_jwt 900000003 900000003 8 ''ana'' ''secret-1'' demo_acct)"]) (simp, code_simp)
  then have r: "acct_run demo_env demo_jwt 900000000 demo_acct ?st" by blast
  have k: "keys_ok ls_id (ad_sessions demo_acct)" by code_simp
  have m: "\<lparr>ls_id = 7, ls_user = 1, ls_activity = 0, ls_expires = 900000000\<rparr> \<in> set (ad_sessions demo_acct)"
    by (simp add: demo_acct_def)
  have "\<exists>s. check_session 5 1 demo_token demo_acct = Inr s" by (simp add: check_session_def demo_token_def demo_acct_def)
  with expired_session_stays_expired[OF r k m, of demo_token 900000005 1] show ?thesis by (simp add: demo_token_def)
qed


subsection \<open>Lockout\<close>

text \<open>
  What the code relies on of \<^verbatim>\<open>authenticate\<close>: it answers with the active user of that name if the
  password checks.
\<close>

definition django_authenticate :: "auth_env \<Rightarrow> jwt_lib \<Rightarrow> bool" where
  "django_authenticate env jw \<longleftrightarrow> (\<forall>name password users. jw_authenticate jw name password users =
     find (\<lambda>u. us_username u = name \<and> us_active u \<and> ev_check env password (us_password u)) users)"

text \<open>Attempts to log in under one name: two clock reads, the id of a session and the password each.\<close>

fun login_all :: "jwt_lib \<Rightarrow> string \<Rightarrow> (instant \<times> instant \<times> nat \<times> string) list \<Rightarrow> acct_store \<Rightarrow> acct_store" where
  "login_all jw name [] st = st"
| "login_all jw name ((now, later, sid, password) # rest) st =
     login_all jw name rest (snd (login jw now later sid name password st))"

definition named :: "string \<Rightarrow> acct_store \<Rightarrow> user option" where
  "named name st = find (\<lambda>u. us_username u = name) (ad_users st)"

definition names_ok :: "acct_store \<Rightarrow> bool" where
  "names_ok st \<longleftrightarrow> keys_ok us_id (ad_users st) \<and> distinct (map us_username (ad_users st))"

lemma named_Some: "named name st = Some u \<Longrightarrow> u \<in> set (ad_users st) \<and> us_username u = name"
  by (auto simp: named_def find_Some_iff)

lemma named_unique:
  assumes "names_ok st" "u \<in> set (ad_users st)" shows "named (us_username u) st = Some u"
proof (cases "named (us_username u) st")
  case None then show ?thesis using assms(2) by (auto simp: named_def find_None_iff)
next
  case (Some v)
  with named_Some[OF this] assms have "v = u" by (auto simp: names_ok_def distinct_map dest: inj_onD)
  with Some show ?thesis by simp
qed

lemma map_username_save:
  assumes "get_account st (us_id y) = Some x" "us_username y = us_username x" "keys_ok us_id (ad_users st)"
  shows "map us_username (row_save us_id y (ad_users st)) = map us_username (ad_users st)"
proof -
  have "u = x" if "u \<in> set (ad_users st)" "us_id u = us_id y" for u using that assms by (metis option.inject row_get_iff)
  then show ?thesis using assms(2) by (auto simp: row_save_def)
qed

text \<open>A wrong password on an account that is not locked counts once.\<close>

lemma login_wrong:
  assumes d: "django_authenticate env jw" and ok: "names_ok st" and u: "named name st = Some u"
    and w: "\<not> ev_check env password (us_password u)" and l: "us_locked u = None"
  shows "named name (snd (login jw now later sid name password st)) = Some (failed_login later u)"
    and "names_ok (snd (login jw now later sid name password st))"
    and "fst (login jw now later sid name password st) = Inl generic_login_error"
proof -
  have iu: "u \<in> set (ad_users st)" "us_username u = name" using named_Some[OF u] by auto
  have g: "get_account st (us_id u) = Some u" using ok iu(1) by (simp add: names_ok_def row_get_iff)
  have "v = u" if "v \<in> set (ad_users st)" "us_username v = name" for v using that named_unique[OF ok] u by force
  then have "jw_authenticate jw name password (ad_users st) = None"
    using d w unfolding django_authenticate_def by (auto simp: find_None_iff)
  then have s: "login jw now later sid name password st = (Inl generic_login_error, put_user (failed_login later u) st)"
    using u l g by (simp add: login_def named_def Let_def record_failed_login_def)
  have m: "map us_username (row_save us_id (failed_login later u) (ad_users st)) = map us_username (ad_users st)"
    using map_username_save g ok by (simp add: names_ok_def)
  show n: "names_ok (snd (login jw now later sid name password st))" using s m ok by (simp add: names_ok_def)
  have "failed_login later u \<in> set (ad_users (snd (login jw now later sid name password st)))"
    using iu(1) s by (auto simp: row_save_def intro!: image_eqI[of _ _ u])
  from named_unique[OF n this] iu(2) show "named name (snd (login jw now later sid name password st)) = Some (failed_login later u)" by simp
  show "fst (login jw now later sid name password st) = Inl generic_login_error" using s by simp
qed

lemma failed_login_below:
  "us_locked u = None \<Longrightarrow> us_failed u + 1 < login_max_failed \<Longrightarrow>
     us_locked (failed_login now u) = None \<and> us_failed (failed_login now u) = us_failed u + 1"
  by (simp add: failed_login_def Let_def)

lemma failed_login_limit:
  "us_locked u = None \<Longrightarrow> login_max_failed \<le> us_failed u + 1 \<Longrightarrow> us_locked (failed_login now u) = Some (now + 15 * minute)"
  by (simp add: failed_login_def Let_def)

lemma login_all_wrong:
  assumes "django_authenticate env jw" "names_ok st" "named name st = Some u" "us_locked u = None"
    "\<And>a. a \<in> set xs \<Longrightarrow> \<not> ev_check env (snd (snd (snd a))) (us_password u)" "us_failed u + length xs < login_max_failed"
  shows "\<exists>u'. named name (login_all jw name xs st) = Some u' \<and> us_locked u' = None \<and> us_failed u' = us_failed u + length xs \<and>
    us_password u' = us_password u \<and> names_ok (login_all jw name xs st)"
  using assms(2-)
proof (induction xs arbitrary: st u)
  case (Cons a xs)
  obtain now later sid password where a: "a = (now, later, sid, password)" by (cases a)
  have w: "\<not> ev_check env password (us_password u)" using Cons.prems(4)[of a] a by simp
  note s = login_wrong[OF assms(1) Cons.prems(1,2) w Cons.prems(3), of now later sid]
  have f: "us_locked (failed_login later u) = None" "us_failed (failed_login later u) = us_failed u + 1"
    using failed_login_below Cons.prems(3,5) by auto
  show ?case using Cons.IH[OF s(2,1) f(1)] Cons.prems(4,5) f(2) a by (auto simp: s(3))
qed simp

lemma login_all_snoc: "login_all jw name (xs @ [a]) st = login_all jw name [a] (login_all jw name xs st)"
  by (induction xs arbitrary: st) auto

text \<open>
  C37: Five wrong passwords in a row on an account with a clear counter lock it for fifteen minutes from
  the last one: until then every login under that name fails with the generic error, the right password
  included, and changes nothing.
\<close>

theorem lockout_after_five_failures:
  assumes "django_authenticate env jw" "names_ok st" "named name st = Some u" "us_locked u = None" "us_failed u = 0"
    "length xs = 4" "\<forall>a \<in> set (xs @ [(now, later, sid, bad)]). \<not> ev_check env (snd (snd (snd a))) (us_password u)"
    "t < later + 15 * minute"
  shows "login jw t t' sid' name password (login_all jw name (xs @ [(now, later, sid, bad)]) st)
     = (Inl generic_login_error, login_all jw name (xs @ [(now, later, sid, bad)]) st)"
proof -
  obtain u1 where u1: "named name (login_all jw name xs st) = Some u1" "us_locked u1 = None" "us_failed u1 = 4"
    "us_password u1 = us_password u" "names_ok (login_all jw name xs st)"
    using login_all_wrong[OF assms(1-4), of xs] assms(5-7) by (auto simp: login_max_failed_def)
  have w: "\<not> ev_check env bad (us_password u1)" using assms(7) u1(4) by auto
  have "named name (login_all jw name (xs @ [(now, later, sid, bad)]) st) = Some (failed_login later u1)"
    using login_wrong(1)[OF assms(1) u1(5,1) w u1(2)] by (simp only: login_all_snoc login_all.simps)
  moreover have "us_locked (failed_login later u1) = Some (later + 15 * minute)"
    using failed_login_limit u1(2,3) by (simp add: login_max_failed_def)
  ultimately show ?thesis using assms(8) by (simp add: login_def named_def)
qed

theorem lockout_after_five_failures_witness:
  "fst (login demo_jwt 60 60 9 ''carl'' ''secret-1''
     (login_all demo_jwt ''carl'' ([(1, 1, 8, ''a''), (2, 2, 8, ''b''), (3, 3, 8, ''c''), (4, 4, 8, ''d'')] @ [(5, 5, 8, ''e'')]) demo_acct))
     = Inl generic_login_error \<and>
   (\<exists>r. fst (login demo_jwt 60 60 9 ''carl'' ''secret-1'' demo_acct) = Inr r)"
proof -
  have d: "django_authenticate demo_env demo_jwt" by (simp add: django_authenticate_def demo_jwt_def demo_env_def)
  have n: "names_ok demo_acct" by code_simp
  have u: "named ''carl'' demo_acct = Some (demo_user 3 ''carl'' ''staff'')" by code_simp
  have l: "us_locked (demo_user 3 ''carl'' ''staff'') = None" "us_failed (demo_user 3 ''carl'' ''staff'') = 0"
    by (simp_all add: demo_user_def)
  have w: "\<forall>a \<in> set ([(1, 1, 8, ''a''), (2, 2, 8, ''b''), (3, 3, 8, ''c''), (4, 4, 8, ''d'')] @ [(5::instant, 5::instant, 8::nat, ''e'')]).
      \<not> ev_check demo_env (snd (snd (snd a))) (us_password (demo_user 3 ''carl'' ''staff''))" by (simp add: demo_env_def demo_user_def)
  have "isl (fst (login demo_jwt 60 60 9 ''carl'' ''secret-1'' demo_acct)) = False" by code_simp
  then have "\<exists>r. fst (login demo_jwt 60 60 9 ''carl'' ''secret-1'' demo_acct) = Inr r" by (metis isl_def sum.exhaust)
  with lockout_after_five_failures[OF d n u l _ w, of 60 60 9 "''secret-1''"] show ?thesis by (simp add: minute_def)
qed


subsection \<open>Guessing a reset code\<close>

definition reset_attempt :: "auth_env \<Rightarrow> string \<Rightarrow> string \<Rightarrow> instant \<times> string \<times> pyval \<Rightarrow> acct_store \<Rightarrow> (bool \<times> acct_store) res" where
  "reset_attempt env username email g st =
     (case g of (now, otp, new) \<Rightarrow> reset_password_with_otp env now username email otp new st)"

lemma matching_users: "ad_users st' = ad_users st \<Longrightarrow> matching_active_user n e st' = matching_active_user n e st"
  by (simp add: matching_active_user_def)

lemma get_reset_drop [simp]: "get_reset (drop_resets pk st) pk = None"
  by (simp add: get_reset_def find_None_iff)

lemma get_reset_put [simp]: "get_reset (put_reset c st) (pc_user c) = Some c"
  by (simp add: get_reset_def put_reset_def find_append find_None_iff[THEN iffD2])

lemma no_code_no_reset:
  assumes "matching_active_user n e st = Some u" "get_reset st (us_id u) = None"
  shows "reset_password_with_otp env now n e otp new st = Inr (False, st)"
  using assms by (simp add: reset_password_with_otp_def)

lemma serve_no_code:
  assumes "matching_active_user n e st = Some u" "get_reset st (us_id u) = None"
  shows "serve (reset_attempt env n e) gs st = st"
  using assms by (induction gs) (auto simp: serve_def reset_attempt_def no_code_no_reset split: prod.split)

lemma wrong_code:
  assumes m: "matching_active_user n e st = Some u" and c: "get_reset st (us_id u) = Some c"
    and w: "pc_digest c \<noteq> otp_digest env (otp_identity (us_username u) (us_email u)) otp"
  obtains st' where "reset_password_with_otp env now n e otp new st = Inr (False, st')" "ad_users st' = ad_users st"
    "get_reset st' (us_id u) = None \<or>
     pc_failed c + 1 < reset_max_attempts \<and> get_reset st' (us_id u) = Some (c\<lparr>pc_failed := pc_failed c + 1\<rparr>)"
proof -
  have u: "pc_user c = us_id u" using c by (auto simp: get_reset_def find_Some_iff)
  have g: "get_reset (put_reset (c\<lparr>pc_failed := pc_failed c + 1\<rparr>) st) (us_id u) = Some (c\<lparr>pc_failed := pc_failed c + 1\<rparr>)"
    using get_reset_put[of "c\<lparr>pc_failed := pc_failed c + 1\<rparr>" st] u by simp
  show ?thesis
  proof (cases "pc_expires c \<le> now \<or> reset_max_attempts \<le> pc_failed c + 1")
    case True then show ?thesis using m c w that[of "drop_resets (us_id u) st"]
      by (auto simp: reset_password_with_otp_def Let_def)
  next
    case False then show ?thesis using m c w g that[of "put_reset (c\<lparr>pc_failed := pc_failed c + 1\<rparr>) st"]
      by (simp add: reset_password_with_otp_def Let_def)
  qed
qed

lemma wrong_codes:
  assumes "matching_active_user n e st = Some u" "get_reset st (us_id u) = Some c"
    "\<And>g. g \<in> set gs \<Longrightarrow> pc_digest c \<noteq> otp_digest env (otp_identity (us_username u) (us_email u)) (fst (snd g))"
    "reset_max_attempts \<le> pc_failed c + length gs"  "pc_failed c < reset_max_attempts"
  shows "get_reset (serve (reset_attempt env n e) gs st) (us_id u) = None \<and>
         ad_users (serve (reset_attempt env n e) gs st) = ad_users st"
  using assms
proof (induction gs arbitrary: st c)
  case (Cons g gs)
  obtain now otp new where g: "g = (now, otp, new)" by (cases g)
  have w: "pc_digest c \<noteq> otp_digest env (otp_identity (us_username u) (us_email u)) otp" using Cons.prems(3)[of g] g by simp
  obtain st' where s: "reset_password_with_otp env now n e otp new st = Inr (False, st')" "ad_users st' = ad_users st"
    "get_reset st' (us_id u) = None \<or>
     pc_failed c + 1 < reset_max_attempts \<and> get_reset st' (us_id u) = Some (c\<lparr>pc_failed := pc_failed c + 1\<rparr>)"
    using wrong_code[OF Cons.prems(1,2) w] by blast
  have v: "serve (reset_attempt env n e) (g # gs) st = serve (reset_attempt env n e) gs st'"
    using s(1) by (simp add: serve_def reset_attempt_def g)
  have m: "matching_active_user n e st' = Some u" using Cons.prems(1) s(2) matching_users by metis
  from s(3) show ?case
  proof
    assume "get_reset st' (us_id u) = None" then show ?thesis using v s(2) serve_no_code[OF m] by simp
  next
    assume a: "pc_failed c + 1 < reset_max_attempts \<and> get_reset st' (us_id u) = Some (c\<lparr>pc_failed := pc_failed c + 1\<rparr>)"
    have "get_reset (serve (reset_attempt env n e) gs st') (us_id u) = None \<and>
          ad_users (serve (reset_attempt env n e) gs st') = ad_users st'"
      by (rule Cons.IH[OF m conjunct2[OF a]]) (use Cons.prems a in auto)
    then show ?thesis using v s(2) by simp
  qed
qed simp

text \<open>
  C38: A mailed reset code survives at most five wrong guesses: after them it is gone, so that no further
  attempt resets the password, the right code included.
\<close>

theorem reset_code_guess_bound:
  assumes "matching_active_user n e st = Some u" "get_reset st (us_id u) = Some c" "pc_failed c < reset_max_attempts"
    "\<forall>g \<in> set gs. pc_digest c \<noteq> otp_digest env (otp_identity (us_username u) (us_email u)) (fst (snd g))"
    "5 \<le> pc_failed c + length gs"
  shows "reset_password_with_otp env now n e otp new (serve (reset_attempt env n e) gs st)
     = Inr (False, serve (reset_attempt env n e) gs st)"
proof -
  have "get_reset (serve (reset_attempt env n e) gs st) (us_id u) = None"
    "ad_users (serve (reset_attempt env n e) gs st) = ad_users st"
    using wrong_codes[OF assms(1,2), of gs env] assms(3-5) by (auto simp: reset_max_attempts_def)
  then show ?thesis using no_code_no_reset matching_users assms(1) by metis
qed

theorem reset_code_guess_bound_witness:
  "reset_password_with_otp demo_env 9 ''carl'' ''carl@farm.ph'' ''123456'' (PStr ''longer-secret'')
     (serve (reset_attempt demo_env ''carl'' ''carl@farm.ph'') (replicate 5 (8, ''000000'', PStr ''longer-secret''))
       (request_password_reset demo_env 1 ''123456'' True ''carl'' ''carl@farm.ph'' demo_acct))
     = Inr (False, serve (reset_attempt demo_env ''carl'' ''carl@farm.ph'') (replicate 5 (8, ''000000'', PStr ''longer-secret''))
       (request_password_reset demo_env 1 ''123456'' True ''carl'' ''carl@farm.ph'' demo_acct)) \<and>
   fst (projr (reset_password_with_otp demo_env 9 ''carl'' ''carl@farm.ph'' ''123456'' (PStr ''longer-secret'')
     (request_password_reset demo_env 1 ''123456'' True ''carl'' ''carl@farm.ph'' demo_acct)))"
proof -
  let ?st = "request_password_reset demo_env 1 ''123456'' True ''carl'' ''carl@farm.ph'' demo_acct"
  let ?u = "demo_user 3 ''carl'' ''staff''"
  let ?c = "the (get_reset ?st 3)"
  have m: "matching_active_user ''carl'' ''carl@farm.ph'' ?st = Some ?u" by code_simp
  have c: "get_reset ?st (us_id ?u) = Some ?c" by code_simp
  have f: "pc_failed ?c < reset_max_attempts" by code_simp
  have d: "pc_digest ?c \<noteq> otp_digest demo_env (otp_identity (us_username ?u) (us_email ?u)) ''000000''" by code_simp
  have w: "\<forall>g \<in> set (replicate 5 (8::instant, ''000000'', PStr ''longer-secret'')).
     pc_digest ?c \<noteq> otp_digest demo_env (otp_identity (us_username ?u) (us_email ?u)) (fst (snd g))" using d by simp
  have "fst (projr (reset_password_with_otp demo_env 9 ''carl'' ''carl@farm.ph'' ''123456'' (PStr ''longer-secret'') ?st))" by code_simp
  with reset_code_guess_bound[OF m c f w, of 9 "''123456''"] show ?thesis by simp
qed

end
