(* ===== verification/Account_Views.thy ===== *)
theory Account_Views
  imports Authentication
begin

text \<open>
  The endpoints of \<^verbatim>\<open>accounts/views\<close>: who may call them, how a request body becomes the arguments of
  a service and how an outcome becomes a response. A request carries the user its token authenticated,
  if any. Body fields that a view turns into text are text; throttling is not modelled, except that a
  throttle whose cache fails refuses the request.
\<close>

fun truthy :: "pyval \<Rightarrow> bool" where
  "truthy PNone = False"
| "truthy (PBool b) = b"
| "truthy (PInt i) = (i \<noteq> 0)"
| "truthy (PFloat s) = (s \<noteq> ''0.0'' \<and> s \<noteq> ''-0.0'')"
| "truthy (PDec d) = (d \<noteq> 0)"
| "truthy (PStr s) = (s \<noteq> [])"
| "truthy (PUUID n) = True"
| "truthy (PList vs) = (vs \<noteq> [])"
| "truthy (PDict kvs) = (kvs \<noteq> [])"

text \<open>The framework's check of a view's permission classes.\<close>

definition with_permission ::
    "(user option \<Rightarrow> bool) \<Rightarrow> user option \<Rightarrow> (user \<Rightarrow> 'a http \<times> 's) \<Rightarrow> 's \<Rightarrow> 'a http \<times> 's" where
  "with_permission allowed request_user handler st =
     (case request_user of
        None \<Rightarrow> (Inl (401, AuthenticationFailed ''Authentication credentials were not provided.''), st)
      | Some u \<Rightarrow>
          if allowed request_user then handler u
          else (Inl (403, PermissionDenied ''You do not have permission to perform this action.''), st))"

definition with_object :: "pyval \<Rightarrow> ((string \<times> pyval) list \<Rightarrow> 'a http \<times> 's) \<Rightarrow> 's \<Rightarrow> 'a http \<times> 's" where
  "with_object body handler st =
     (case body of PDict d \<Rightarrow> handler d
      | _ \<Rightarrow> (Inl (400, ValidationError ''body'' ''Request body must be a JSON object.''), st))"

definition bad_request :: "string \<Rightarrow> 's \<Rightarrow> 'a http \<times> 's" where
  "bad_request message st = (Inl (400, ValueError message), st)"

text \<open>A view that catches \<^verbatim>\<open>ValueError\<close>; anything else is a server error.\<close>

definition answer :: "string \<Rightarrow> nat \<Rightarrow> 's res \<Rightarrow> 's \<Rightarrow> string http \<times> 's" where
  "answer message code r st =
     (case r of Inl e \<Rightarrow> (Inl (if is_value_error e then 400 else 500, e), st) | Inr st' \<Rightarrow> (Inr (code, message), st'))"

text \<open>As \<open>answer\<close>, with the target user of the path reported as not found.\<close>

definition answer_user :: "('u \<Rightarrow> 'a) \<Rightarrow> ('u \<times> 's) res \<Rightarrow> 's \<Rightarrow> 'a http \<times> 's" where
  "answer_user f r st =
     (case r of
        Inl (DoesNotExist m) \<Rightarrow> (Inl (404, DoesNotExist m), st)
      | Inl e \<Rightarrow> (Inl (if is_value_error e then 400 else 500, e), st)
      | Inr (u, st') \<Rightarrow> (Inr (200, f u), st'))"

definition account_member :: "user option \<Rightarrow> bool" where
  "account_member u \<longleftrightarrow> is_admin u \<or> is_staff u"

record register_body =
  rb_username :: "string option"
  rb_password :: pyval
  rb_email :: "string option"
  rb_role :: "string option"
  rb_first :: "string option option"
  rb_last :: "string option option"
  rb_phone :: "string option"
  rb_address :: "string option"

definition missing_fields :: "(string \<times> bool) list \<Rightarrow> string list" where
  "missing_fields fs = map fst (filter (\<lambda>(name, given). \<not> given) fs)"

definition register_post :: "auth_env \<Rightarrow> user option \<Rightarrow> register_body \<Rightarrow> acct_store \<Rightarrow> string http \<times> acct_store" where
  "register_post env request_user b st =
     with_permission is_admin request_user (\<lambda>_.
       let missing = missing_fields [(''username'', fill (rb_username b) [] \<noteq> []), (''password'', truthy (rb_password b)),
                                     (''email'', fill (rb_email b) [] \<noteq> []), (''role'', fill (rb_role b) [] \<noteq> [])]
       in if missing \<noteq> [] then (Inl (400, ValueErrorF ''Missing required field(s): {}'' (map FStr missing)), st)
       else answer ''User registered successfully'' 201
         (map_sum id snd (register_user env
            \<lparr>rg_username = fill (rb_username b) [], rg_password = rb_password b, rg_email = fill (rb_email b) [],
             rg_role = fill (rb_role b) [], rg_first = fill (rb_first b) (Some []), rg_last = fill (rb_last b) (Some []),
             rg_phone = rb_phone b, rg_address = rb_address b\<rparr> st)) st) st"

definition change_password_post ::
    "auth_env \<Rightarrow> instant \<Rightarrow> instant \<Rightarrow> user option \<Rightarrow> pyval \<Rightarrow> acct_store \<Rightarrow> string http \<times> acct_store" where
  "change_password_post env now later request_user body st =
     with_permission account_member request_user (\<lambda>u.
     with_object body (\<lambda>d.
       let old_password = dict_get d ''old_password''; new_password = dict_get d ''new_password''
       in if \<not> truthy old_password \<or> \<not> truthy new_password
       then bad_request '''old_password' and 'new_password' are required.'' st
       else answer ''Password changed successfully'' 200 (change_password env now later (us_id u) old_password new_password st) st) st) st"

definition admin_reset_post :: "auth_env \<Rightarrow> user option \<Rightarrow> pyval \<Rightarrow> acct_store \<Rightarrow> string http \<times> acct_store" where
  "admin_reset_post env request_user body st =
     with_permission is_admin request_user (\<lambda>_.
     with_object body (\<lambda>d.
       let username = dict_get d ''username''; new_password = dict_get d ''new_password''
       in if \<not> truthy username \<or> \<not> truthy new_password
       then bad_request '''username' and 'new_password' are required.'' st
       else (case find (\<lambda>x. PStr (us_username x) = username) (ad_users st) of
               None \<Rightarrow> (Inl (404, DoesNotExist ''Users''), st)
             | Some x \<Rightarrow> answer (''Password reset for '' @ us_username x @ ''.'') 200
                           (forgot_password env (us_id x) new_password st) st)) st) st"

definition user_detail_get :: "user option \<Rightarrow> nat \<Rightarrow> acct_store \<Rightarrow> user http \<times> acct_store" where
  "user_detail_get request_user pk st =
     with_permission is_admin request_user (\<lambda>_.
       (case get_account st pk of None \<Rightarrow> (Inl (404, DoesNotExist ''Users''), st) | Some x \<Rightarrow> (Inr (200, x), st))) st"

definition user_detail_patch :: "auth_env \<Rightarrow> user option \<Rightarrow> nat \<Rightarrow> user_update \<Rightarrow> acct_store \<Rightarrow> user http \<times> acct_store" where
  "user_detail_patch env request_user pk u st =
     with_permission is_admin request_user (\<lambda>me. answer_user id (update_user env pk u (us_id me) st) st) st"

definition user_detail_delete :: "user option \<Rightarrow> nat \<Rightarrow> string option \<Rightarrow> acct_store \<Rightarrow> string http \<times> acct_store" where
  "user_detail_delete request_user pk reason st =
     with_permission is_admin request_user (\<lambda>me.
       let r = fill reason ''suspended''
       in answer_user (\<lambda>_. ''User deactivated ('' @ r @ '').'') (deactivate_user pk (us_id me) r st) st) st"

definition get_user_patch ::
    "auth_env \<Rightarrow> instant \<Rightarrow> instant \<Rightarrow> user option \<Rightarrow> profile_update \<Rightarrow> acct_store \<Rightarrow> user http \<times> acct_store" where
  "get_user_patch env now later request_user p st =
     with_permission account_member request_user (\<lambda>me.
       (case update_own_profile env now later (us_id me) (us_email me) p st of
          Inl e \<Rightarrow> (Inl (if is_value_error e then 400 else 500, e), st)
        | Inr (y, st') \<Rightarrow> (Inr (200, y), st'))) st"

definition forgot_password_post ::
    "auth_env \<Rightarrow> instant \<Rightarrow> string \<Rightarrow> bool \<Rightarrow> string option \<Rightarrow> string option \<Rightarrow> acct_store \<Rightarrow> string http \<times> acct_store" where
  "forgot_password_post env now otp mailed username email st =
     (if fill username [] = [] \<or> fill email [] = [] then bad_request '''username' and 'email' are required.'' st
      else (Inr (200, ''If the credentials match our records, a password reset code has been sent.''),
            request_password_reset env now otp mailed (the username) (the email) st))"

definition reset_confirm_post ::
    "auth_env \<Rightarrow> instant \<Rightarrow> string option \<Rightarrow> string option \<Rightarrow> string option \<Rightarrow> string option \<Rightarrow> acct_store \<Rightarrow> string http \<times> acct_store" where
  "reset_confirm_post env now username email otp new_password st =
     (if [] \<in> set (map (\<lambda>v. fill v []) [username, email, otp, new_password])
      then bad_request '''username', 'email', 'otp', and 'new_password' are required.'' st
      else (case reset_password_with_otp env now (the username) (the email) (the otp) (PStr (the new_password)) st of
              Inl e \<Rightarrow> (Inl (if is_value_error e then 400 else 500, e), st)
            | Inr (reset, st') \<Rightarrow>
                if reset then (Inr (200, ''Password has been reset successfully.''), st')
                else (Inl (400, ValueError ''Invalid or expired password reset code.''), st')))"

text \<open>The bodies of the e-mail change are validated by a serializer before the view runs.\<close>

definition email_change_post ::
    "auth_env \<Rightarrow> instant \<Rightarrow> string \<Rightarrow> bool \<Rightarrow> user option \<Rightarrow> string \<Rightarrow> string \<Rightarrow> acct_store \<Rightarrow> string http \<times> acct_store" where
  "email_change_post env now otp mailed request_user password email st =
     with_permission account_member request_user (\<lambda>me.
       (case request_email_change env now otp mailed (us_id me) (PStr password) (PStr email) st of
          (Inl e, st') \<Rightarrow> (Inl (if is_value_error e then 400 else 500, e), st')
        | (Inr _, st') \<Rightarrow> (Inr (200, ''Verification code sent to the new email.''), st'))) st"

definition email_change_patch ::
    "auth_env \<Rightarrow> instant \<Rightarrow> instant \<Rightarrow> user option \<Rightarrow> string \<Rightarrow> string \<Rightarrow> string option \<Rightarrow> acct_store \<Rightarrow> string http \<times> acct_store" where
  "email_change_patch env now later request_user password email otp st =
     with_permission account_member request_user (\<lambda>me.
       (case confirm_email_change env now later (us_id me) (PStr password) (PStr email)
               (case otp of None \<Rightarrow> PNone | Some c \<Rightarrow> PStr c) st of
          Inl e \<Rightarrow> (Inl (if is_value_error e then 400 else 500, e), st)
        | Inr (changed, st') \<Rightarrow>
            if changed then (Inr (200, ''Email updated. Please sign in again.''), st')
            else (Inl (400, ValidationError ''detail'' ''Invalid or expired verification code.''), st'))) st"

definition session_get :: "instant \<Rightarrow> instant \<Rightarrow> user option \<Rightarrow> token \<Rightarrow> acct_store \<Rightarrow> session_view http \<times> acct_store" where
  "session_get now later request_user t st =
     with_permission (\<lambda>_. True) request_user (\<lambda>me.
       (case check_session now (us_id me) t st of
          Inl e \<Rightarrow> (Inl (drf_status e, e), st) | Inr s \<Rightarrow> (Inr (200, session_payload later s), st))) st"

definition session_activity_post ::
    "instant \<Rightarrow> instant \<Rightarrow> user option \<Rightarrow> token \<Rightarrow> pyval \<Rightarrow> acct_store \<Rightarrow> session_view http \<times> acct_store" where
  "session_activity_post checked now request_user t body st =
     with_permission (\<lambda>_. True) request_user (\<lambda>me.
     with_object body (\<lambda>_.
       (case record_activity checked now (us_id me) t st of
          Inl e \<Rightarrow> (Inl (drf_status e, e), st)
        | Inr (s, st') \<Rightarrow> (Inr (200, session_payload now s), st'))) st) st"

fun is_auth_error :: "exn \<Rightarrow> bool" where
  "is_auth_error (AuthenticationFailed _) = True"
| "is_auth_error TokenError = True"
| "is_auth_error _ = False"

definition logout_post :: "jwt_lib \<Rightarrow> user option \<Rightarrow> string \<Rightarrow> acct_store \<Rightarrow> string http \<times> acct_store" where
  "logout_post jw request_user refresh_token st =
     with_permission (\<lambda>_. True) request_user (\<lambda>me.
       (case logout jw refresh_token (us_id me) st of
          Inr st' \<Rightarrow> (Inr (200, ''Logged out successfully''), st')
        | Inl e \<Rightarrow> (Inl (if is_value_error e \<or> is_auth_error e
                         then (400, ValueError ''Invalid or expired refresh token.'') else (500, e)), st))) st"

text \<open>A throttle fails closed when its cache does.\<close>

definition allow_request :: "bool res \<Rightarrow> bool res" where
  "allow_request cached = (case cached of Inl _ \<Rightarrow> Inl (RuntimeError ''Request rate limiting is temporarily unavailable. Try again shortly.'') | Inr b \<Rightarrow> Inr b)"


subsection \<open>What callers can learn and change\<close>

lemma fresh_session_valid:
  assumes "sid \<notin> ls_id ` set (ad_sessions st)"
  shows "\<exists>s. check_session later (us_id a) (fst (create_session_token jw later sid a st))
     (set_user pk f (snd (create_session_token jw later sid a st))) = Inr s"
proof -
  have "find (\<lambda>s. ls_id s = sid \<and> ls_user s = us_id a) (ad_sessions st) = None" using assms by (force simp: find_None_iff)
  then show ?thesis
    by (simp add: check_session_def create_session_token_def set_user_def row_ins_def find_append idle_timeout_def second_def)
qed

text \<open>
  C40: A refused login tells nothing about the account: for an unknown name, a wrong password, an inactive
  or a locked account the answer is the same error.
\<close>

theorem login_errors_indistinguishable:
  assumes "keys_ok us_id (ad_users st)" "sid \<notin> ls_id ` set (ad_sessions st)"
    "fst (login jw now later sid username password st) = Inl e"
  shows "e = generic_login_error"
proof (cases "jw_authenticate jw username password (ad_users st)")
  case None
  show ?thesis
  proof (cases "find (\<lambda>u. us_username u = username) (ad_users st)")
    case (Some u)
    then have "u \<in> set (ad_users st)" by (auto simp: find_Some_iff)
    then have "get_account st (us_id u) = Some u" using assms(1) by (simp add: row_get_iff)
    then show ?thesis using None Some assms(3)
      by (auto simp: login_def Let_def record_failed_login_def split: if_split_asm)
  qed (use None assms(3) in \<open>simp add: login_def\<close>)
next
  case (Some a)
  obtain s where "check_session later (us_id a) (fst (create_session_token jw later sid a st))
     (set_user (us_id a) (\<lambda>u. u\<lparr>us_failed := 0, us_locked := None\<rparr>) (snd (create_session_token jw later sid a st))) = Inr s"
    using fresh_session_valid[OF assms(2)] by blast
  then show ?thesis using Some assms(3)
    by (auto simp: login_def Let_def split: if_split_asm prod.split_asm)
qed

theorem login_errors_indistinguishable_witness:
  "fst (login demo_jwt 1 1 8 ''carl'' ''wrong'' demo_acct) = Inl generic_login_error \<and>
   fst (login demo_jwt 1 1 8 ''nobody'' ''wrong'' demo_acct) = Inl generic_login_error"
proof -
  have k: "keys_ok us_id (ad_users demo_acct)" "8 \<notin> ls_id ` set (ad_sessions demo_acct)" by code_simp+
  have "isl (fst (login demo_jwt 1 1 8 ''carl'' ''wrong'' demo_acct))" "isl (fst (login demo_jwt 1 1 8 ''nobody'' ''wrong'' demo_acct))"
    by code_simp+
  then show ?thesis using login_errors_indistinguishable[OF k] by (metis isl_def)
qed

lemma refused_unless_allowed:
  "\<not> allowed request_user \<Longrightarrow> snd (with_permission allowed request_user handler st) = st \<and>
     (\<exists>n e. fst (with_permission allowed request_user handler st) = Inl (n, e) \<and> n \<in> {401, 403})"
  by (auto simp: with_permission_def split: option.split)

text \<open>
  Registration, password resets by an admin, edits and deactivations of accounts are refused with 401
  or 403 for anyone but an admin, and then change nothing.
\<close>

lemma admin_endpoints_guarded:
  assumes "\<not> is_admin request_user"
  shows "snd (register_post env request_user b st) = st \<and> snd (admin_reset_post env request_user body st) = st \<and>
    snd (user_detail_patch env request_user pk u st) = st \<and> snd (user_detail_delete request_user pk reason st) = st \<and>
    (\<exists>n e. fst (user_detail_patch env request_user pk u st) = Inl (n, e) \<and> n \<in> {401, 403})"
  unfolding register_post_def admin_reset_post_def user_detail_patch_def user_detail_delete_def
  by (intro conjI) (rule refused_unless_allowed[where allowed = is_admin, OF assms, THEN conjunct1]
    refused_unless_allowed[where allowed = is_admin, OF assms, THEN conjunct2])+

lemma admin_endpoints_guarded_witness:
  "snd (user_detail_delete (Some (demo_user 3 ''carl'' ''staff'')) 2 None demo_acct) = demo_acct \<and>
   snd (user_detail_delete (Some (demo_user 1 ''ana'' ''admin'')) 2 None demo_acct) \<noteq> demo_acct"
proof -
  have "\<not> is_admin (Some (demo_user 3 ''carl'' ''staff''))" by code_simp
  moreover have "map us_active (ad_users (snd (user_detail_delete (Some (demo_user 1 ''ana'' ''admin'')) 2 None demo_acct)))
     \<noteq> map us_active (ad_users demo_acct)" by code_simp
  ultimately show ?thesis
    using admin_endpoints_guarded[where request_user = "Some (demo_user 3 ''carl'' ''staff'')" and st = demo_acct and pk = 2 and reason = None] by metis
qed

end
