(* ===== verification/Inventory_Models.thy ===== *)
theory Inventory_Models
  imports Api_Inputs
begin

text \<open>
  The tables of \<^verbatim>\<open>inventory/models\<close> as records, and the inventory part of the database. Quantities
  and prices are hundredths, foreign keys are primary keys. The store is extensible, so that the
  sales tables (\<^verbatim>\<open>Sales_Models\<close>) are added to the same record and the inventory services act on the
  whole store.
\<close>

record category =
  cat_id :: nat
  cat_name :: string
  cat_active :: bool
  cat_visible :: bool

record product =
  pr_id :: nat
  pr_category :: nat
  pr_name :: string
  pr_unit :: string
  pr_variant :: "string option"
  pr_shelf_life :: int
  pr_active :: bool

datatype batch_status = Available | Depleted | Expired | Disposed

record batch =
  pb_id :: nat
  pb_product :: nat
  pb_number :: string
  pb_grade :: "string option"
  pb_unit_price :: "dec option"
  pb_initial :: dec
  pb_remaining :: dec
  pb_expiration :: date
  pb_received :: date
  pb_status :: batch_status
  pb_historical :: bool
  pb_notes :: "string option"

record batch_sequence =
  bs_prefix :: string
  bs_year :: int
  bs_month :: int
  bs_last :: nat

record fefo_conf =
  fc_near :: int
  fc_low :: int
  fc_critical :: int

datatype adjustment_type =
    AdjExpired | AdjSpoilage | AdjComplimentary | AdjFreeTaste | AdjSpillage | AdjTasteTest
  | AdjProcessingUse | AdjCorrection

record stock_adjustment =
  sa_id :: nat
  sa_batch :: nat
  sa_type :: adjustment_type
  sa_quantity :: dec
  sa_unit_cost :: dec
  sa_reason :: "string option"
  sa_by :: nat
  sa_created :: instant

text \<open>The saved answer of a keyed adjustment: the JSON rendering is the serialized adjustment.\<close>

record adjustment_submission =
  as_user :: nat
  as_request :: nat
  as_fingerprint :: string
  as_adjustment :: nat
  as_response :: string

record inv_store =
  st_categories :: "category list"
  st_products :: "product list"
  st_batches :: "batch list"
  st_sequences :: "batch_sequence list"
  st_fefo :: "fefo_conf option"
  st_adjustments :: "stock_adjustment list"
  st_adj_submissions :: "adjustment_submission list"

definition adjustment_type_of :: "string \<Rightarrow> adjustment_type option" where
  "adjustment_type_of s =
     (if s = ''expired'' then Some AdjExpired
      else if s = ''spoilage'' then Some AdjSpoilage
      else if s = ''complimentary'' then Some AdjComplimentary
      else if s = ''free_taste'' then Some AdjFreeTaste
      else if s = ''spillage'' then Some AdjSpillage
      else if s = ''taste_test'' then Some AdjTasteTest
      else if s = ''processing_use'' then Some AdjProcessingUse
      else if s = ''correction'' then Some AdjCorrection
      else None)"

text \<open>\<^verbatim>\<open>FEFOConf.get_config\<close> creates the single row with its defaults on first use.\<close>

definition fefo_default :: fefo_conf where
  "fefo_default = \<lparr>fc_near = 7, fc_low = 20, fc_critical = 3\<rparr>"

definition get_config :: "'z inv_store_scheme \<Rightarrow> fefo_conf \<times> 'z inv_store_scheme" where
  "get_config st = (case st_fefo st of
      Some c \<Rightarrow> (c, st)
    | None \<Rightarrow> (fefo_default, st\<lparr>st_fefo := Some fefo_default\<rparr>))"

definition fefo_save :: "fefo_conf \<Rightarrow> 'z inv_store_scheme \<Rightarrow> 'z inv_store_scheme" where
  "fefo_save c st = st\<lparr>st_fefo := Some c\<rparr>"

abbreviation get_batch :: "batch list \<Rightarrow> nat \<Rightarrow> batch option" where
  "get_batch \<equiv> row_get pb_id"

abbreviation save_batch :: "batch \<Rightarrow> batch list \<Rightarrow> batch list" where
  "save_batch \<equiv> row_save pb_id"

interpretation batch_rows: row_table pb_id "row_get pb_id" "row_save pb_id" row_ins "\<lambda>t. t" "keys_ok pb_id"
  by (rule row_table_list)

interpretation product_rows: row_table pr_id "row_get pr_id" "row_save pr_id" row_ins "\<lambda>t. t" "keys_ok pr_id"
  by (rule row_table_list)

interpretation category_rows: row_table cat_id "row_get cat_id" "row_save cat_id" row_ins "\<lambda>t. t" "keys_ok cat_id"
  by (rule row_table_list)


subsection \<open>The stock invariant\<close>

text \<open>
  What every stored batch satisfies: the remaining quantity lies between zero and the received
  quantity; an available batch holds stock; a depleted or disposed batch holds none.
\<close>

definition batch_ok :: "batch \<Rightarrow> bool" where
  "batch_ok b \<longleftrightarrow> 0 \<le> pb_remaining b \<and> pb_remaining b \<le> pb_initial b \<and>
     (pb_status b = Available \<longrightarrow> 0 < pb_remaining b) \<and>
     (pb_status b = Depleted \<or> pb_status b = Disposed \<longrightarrow> pb_remaining b = 0)"

definition stock_ok :: "batch list \<Rightarrow> bool" where
  "stock_ok t \<longleftrightarrow> keys_ok pb_id t \<and> (\<forall>b \<in> set t. batch_ok b)"

lemma stock_ok_save: "stock_ok t \<Longrightarrow> batch_ok b \<Longrightarrow> stock_ok (save_batch b t)"
  using batch_rows.save_all [of t batch_ok b] by (auto simp: stock_ok_def)

lemma stock_ok_ins: "stock_ok t \<Longrightarrow> batch_ok b \<Longrightarrow> pb_id b \<notin> pb_id ` set t \<Longrightarrow> stock_ok (row_ins b t)"
  using batch_rows.ins_all [of t batch_ok b] by (auto simp: stock_ok_def keys_ok_ins)

lemma stock_ok_get: "stock_ok t \<Longrightarrow> get_batch t k = Some b \<Longrightarrow> batch_ok b \<and> pb_id b = k \<and> b \<in> set t"
  by (auto simp: stock_ok_def batch_rows.get_iff)

end
