(* ===== verification/Fefo.thy ===== *)
theory Fefo
  imports Inventory_Models
begin

text \<open>
  \<^verbatim>\<open>inventory/services/fefo_service.py\<close>: first-expired, first-out deduction of a sold quantity, with
  the guarantees a sale relies on: exactly the requested quantity leaves the product's stock, the
  earliest expiry goes first, and no other batch is touched.
\<close>

definition fefo_eligible :: "date \<Rightarrow> nat \<Rightarrow> batch \<Rightarrow> bool" where
  "fefo_eligible today product b \<longleftrightarrow>
     pb_product b = product \<and> pb_status b = Available \<and> today \<le> pb_expiration b \<and>
     pb_received b \<le> today"

definition fefo_batches :: "date \<Rightarrow> nat \<Rightarrow> batch list \<Rightarrow> batch list" where
  "fefo_batches today product t =
     sort_key (\<lambda>b. (pb_expiration b, pb_id b)) (filter (fefo_eligible today product) t)"

text \<open>The loop over the locked batches; each batch it touches is saved and recorded.\<close>

fun fefo_loop :: "batch list \<Rightarrow> dec \<Rightarrow> batch list \<Rightarrow> (batch \<times> dec) list \<times> batch list" where
  "fefo_loop [] q t = ([], t)"
| "fefo_loop (b # bs) q t =
     (if q \<le> 0 then ([], t)
      else let taken = min (pb_remaining b) q;
               b1 = b\<lparr>pb_remaining := pb_remaining b - taken\<rparr>;
               b2 = (if pb_remaining b1 = 0 then b1\<lparr>pb_status := Depleted\<rparr> else b1);
               (consumed, t') = fefo_loop bs (q - taken) (save_batch b2 t)
           in ((b2, taken) # consumed, t'))"

definition deduct_product_batch ::
    "date \<Rightarrow> nat \<Rightarrow> dec \<Rightarrow> 'z inv_store_scheme \<Rightarrow> ((batch \<times> dec) list \<times> 'z inv_store_scheme) res" where
  "deduct_product_batch today product quantity st =
     (if quantity \<le> 0 then Inl (ValueError ''Quantity must be greater than zero.'')
      else let batches = fefo_batches today product (st_batches st);
               total_available = (\<Sum>b\<leftarrow>batches. pb_remaining b)
           in if total_available < quantity then Inl (ValueError ''Insufficient Products.'')
              else let (consumed, t) = fefo_loop batches quantity (st_batches st)
                   in Inr (consumed, st\<lparr>st_batches := t\<rparr>))"

text \<open>The stock a sale of the product may draw on.\<close>

definition sellable :: "date \<Rightarrow> nat \<Rightarrow> batch list \<Rightarrow> dec" where
  "sellable today product t = (\<Sum>b\<leftarrow>filter (fefo_eligible today product) t. pb_remaining b)"

definition total_remaining :: "batch list \<Rightarrow> dec" where
  "total_remaining t = (\<Sum>b\<leftarrow>t. pb_remaining b)"


subsection \<open>The loop\<close>

lemma fefo_batches_sum [simp]: "(\<Sum>b\<leftarrow>fefo_batches today p t. pb_remaining b) = sellable today p t"
  by (simp add: fefo_batches_def sellable_def)

lemma set_fefo_batches [simp]: "set (fefo_batches today p t) = {b \<in> set t. fefo_eligible today p b}"
  by (auto simp: fefo_batches_def)

lemma distinct_fefo_batches:
  "keys_ok pb_id t \<Longrightarrow> distinct (map pb_id (fefo_batches today p t))"
proof -
  assume "keys_ok pb_id t"
  then have "distinct (map pb_id (filter (fefo_eligible today p) t))"
    by (induction t) (auto simp: keys_ok_def)
  moreover have "mset (map pb_id (fefo_batches today p t)) =
      mset (map pb_id (filter (fefo_eligible today p) t))"
    by (simp add: fefo_batches_def)
  ultimately show ?thesis by (metis mset_eq_imp_distinct_iff)
qed

text \<open>Which batches the loop records: an initial part of the list, updated, each with its share.\<close>

definition fefo_after :: "batch \<Rightarrow> dec \<Rightarrow> batch" where
  "fefo_after b k =
     (let b1 = b\<lparr>pb_remaining := pb_remaining b - k\<rparr>
      in if pb_remaining b1 = 0 then b1\<lparr>pb_status := Depleted\<rparr> else b1)"

lemma fefo_after_fields [simp]:
  "pb_id (fefo_after b k) = pb_id b" "pb_product (fefo_after b k) = pb_product b"
  "pb_initial (fefo_after b k) = pb_initial b" "pb_expiration (fefo_after b k) = pb_expiration b"
  "pb_received (fefo_after b k) = pb_received b" "pb_number (fefo_after b k) = pb_number b"
  "pb_remaining (fefo_after b k) = pb_remaining b - k"
  by (simp_all add: fefo_after_def Let_def)

fun fefo_takes :: "batch list \<Rightarrow> dec \<Rightarrow> (batch \<times> dec) list" where
  "fefo_takes [] q = []"
| "fefo_takes (b # bs) q =
     (if q \<le> 0 then []
      else (b, min (pb_remaining b) q) # fefo_takes bs (q - min (pb_remaining b) q))"

lemma fefo_loop_takes:
  "fefo_loop bs q t =
     (map (\<lambda>(b, k). (fefo_after b k, k)) (fefo_takes bs q),
      foldl (\<lambda>t (b, k). save_batch (fefo_after b k) t) t (fefo_takes bs q))"
proof (induction bs q t rule: fefo_loop.induct)
  case (2 b bs q t)
  then show ?case by (auto simp: Let_def case_prod_beta fefo_after_def)
qed simp

text \<open>The taken amounts add up to the request as long as the batches cover it.\<close>

lemma fefo_takes_sum:
  assumes "\<And>b. b \<in> set bs \<Longrightarrow> 0 \<le> pb_remaining b" and "0 \<le> q"
    and "q \<le> (\<Sum>b\<leftarrow>bs. pb_remaining b)"
  shows "(\<Sum>x\<leftarrow>fefo_takes bs q. snd x) = q"
  using assms
proof (induction bs q rule: fefo_takes.induct)
  case (2 b bs q)
  let ?k = "min (pb_remaining b) q"
  have "0 \<le> (\<Sum>b\<leftarrow>bs. pb_remaining b)"
    using "2.prems"(1) by (intro sum_list_nonneg_all) simp
  then have rest: "0 \<le> q - ?k" "q - ?k \<le> (\<Sum>b\<leftarrow>bs. pb_remaining b)" using "2.prems" by auto
  show ?case
  proof (cases "q \<le> 0")
    case False
    then have "(\<Sum>x\<leftarrow>fefo_takes bs (q - ?k). snd x) = q - ?k"
      using "2.prems"(1) rest by (intro "2.IH") auto
    with False show ?thesis by simp
  qed (use 2 in simp)
qed simp

lemma fefo_takes_prefix: "map fst (fefo_takes bs q) = take (length (fefo_takes bs q)) bs"
  by (induction bs q rule: fefo_takes.induct) auto

lemma fefo_takes_in: "(b, k) \<in> set (fefo_takes bs q) \<Longrightarrow> b \<in> set bs"
  by (induction bs q rule: fefo_takes.induct) (auto split: if_splits)

lemma fefo_takes_ids: "distinct (map pb_id bs) \<Longrightarrow> distinct (map (pb_id \<circ> fst) (fefo_takes bs q))"
  by (metis distinct_take fefo_takes_prefix map_map take_map)

lemma fefo_takes_bounds:
  assumes "\<And>b. b \<in> set bs \<Longrightarrow> 0 < pb_remaining b" and "(b, k) \<in> set (fefo_takes bs q)"
  shows "0 < k \<and> k \<le> pb_remaining b"
  using assms
  by (induction bs q rule: fefo_takes.induct) (auto split: if_splits)

text \<open>Every recorded batch but the last is emptied: later expiries are opened only then.\<close>

lemma fefo_takes_drained:
  assumes "i + 1 < length (fefo_takes bs q)"
  shows "snd (fefo_takes bs q ! i) = pb_remaining (fst (fefo_takes bs q ! i))"
  using assms
proof (induction bs q arbitrary: i rule: fefo_takes.induct)
  case (2 b bs q)
  show ?case
  proof (cases "q \<le> 0")
    case False
    with 2 show ?thesis
    proof (cases i)
      case 0
      with 2 False have "fefo_takes bs (q - min (pb_remaining b) q) \<noteq> []" by auto
      then have "0 < q - min (pb_remaining b) q" by (cases bs) (auto split: if_splits)
      with 0 False show ?thesis by simp
    next
      case (Suc j)
      with 2 False show ?thesis by simp
    qed
  qed (use 2 in simp)
qed simp

text \<open>Saving a list of distinct batches, one after the other.\<close>

lemma foldl_save_keys [simp]:
  "keys_ok pb_id (foldl (\<lambda>t (b, k). save_batch (f b k) t) t xs) = keys_ok pb_id t"
  by (induction xs arbitrary: t) (auto split: prod.splits)

lemma foldl_save_other:
  assumes "\<And>b k. (b, k) \<in> set xs \<Longrightarrow> pb_id (f b k) \<noteq> i"
  shows "get_batch (foldl (\<lambda>t (b, k). save_batch (f b k) t) t xs) i = get_batch t i"
  using assms
proof (induction xs arbitrary: t)
  case (Cons x xs)
  obtain b k where "x = (b, k)" by (cases x)
  with Cons show ?case by (auto simp: row_get_save)
qed simp

lemma foldl_save_get:
  assumes "distinct (map (pb_id \<circ> fst) xs)" and "\<And>b k. pb_id (f b k) = pb_id b"
    and "(b, k) \<in> set xs" and "get_batch t (pb_id b) \<noteq> None"
  shows "get_batch (foldl (\<lambda>t (b, k). save_batch (f b k) t) t xs) (pb_id b) = Some (f b k)"
  using assms
proof (induction xs arbitrary: t)
  case (Cons x xs)
  obtain c m where x: "x = (c, m)" by (cases x)
  show ?case
  proof (cases "(b, k) = (c, m)")
    case True
    with Cons.prems x have "pb_id (f b' k') \<noteq> pb_id b" if "(b', k') \<in> set xs" for b' k'
      using that by (force simp: image_iff)
    then have "get_batch (foldl (\<lambda>t (b, k). save_batch (f b k) t) (save_batch (f b k) t) xs) (pb_id b)
        = get_batch (save_batch (f b k) t) (pb_id b)"
      by (intro foldl_save_other) blast
    with True x Cons.prems show ?thesis by (auto simp: row_get_save)
  next
    case False
    with Cons.prems x have "(b, k) \<in> set xs" by auto
    with Cons x show ?thesis by (simp add: row_get_save)
  qed
qed simp

lemma foldl_save_ok:
  assumes "stock_ok t" and "\<And>b k. (b, k) \<in> set xs \<Longrightarrow> batch_ok (f b k)"
  shows "stock_ok (foldl (\<lambda>t (b, k). save_batch (f b k) t) t xs)"
  using assms by (induction xs arbitrary: t) (auto intro!: stock_ok_save split: prod.splits)

lemma foldl_save_total:
  assumes "keys_ok pb_id t" and "distinct (map (pb_id \<circ> fst) xs)"
    and "\<And>b k. (b, k) \<in> set xs \<Longrightarrow> b \<in> set t"
  shows "total_remaining (foldl (\<lambda>t (b, k). save_batch (fefo_after b k) t) t xs) =
    total_remaining t - (\<Sum>x\<leftarrow>xs. snd x)"
  using assms
proof (induction xs arbitrary: t)
  case (Cons x xs)
  obtain b k where x: "x = (b, k)" by (cases x)
  let ?t = "save_batch (fefo_after b k) t"
  from Cons.prems x have "get_batch t (pb_id (fefo_after b k)) = Some b"
    using Cons.prems(3) [of b k] by (simp add: row_get_iff)
  with Cons.prems have "total_remaining ?t = total_remaining t - k"
    using sum_row_save [of pb_id t "fefo_after b k" b pb_remaining]
    by (simp add: total_remaining_def)
  moreover have "b' \<in> set ?t" if "(b', k') \<in> set xs" for b' k'
  proof -
    from Cons.prems that have "b' \<in> set t" by auto
    moreover from Cons.prems x that have "pb_id b' \<noteq> pb_id b" by (force simp: image_iff)
    ultimately show ?thesis
      using Cons.prems batch_rows.rows_nonempty_save [of t b' "fefo_after b k"] by simp
  qed
  ultimately show ?case using Cons x by simp
qed simp


subsection \<open>Deduction\<close>

lemma deduct_unfold:
  assumes "deduct_product_batch today p q st = Inr (consumed, st')"
  shows "0 < q" "q \<le> sellable today p (st_batches st)"
    and "consumed = map (\<lambda>(b, k). (fefo_after b k, k)) (fefo_takes (fefo_batches today p (st_batches st)) q)"
    and "st' = st\<lparr>st_batches := foldl (\<lambda>t (b, k). save_batch (fefo_after b k) t) (st_batches st)
           (fefo_takes (fefo_batches today p (st_batches st)) q)\<rparr>"
  using assms
  by (auto simp: deduct_product_batch_def Let_def fefo_loop_takes split: if_splits)

lemma deduct_sum:
  assumes ok: "stock_ok (st_batches st)" and d: "deduct_product_batch today p q st = Inr (consumed, st')"
  shows "(\<Sum>x\<leftarrow>consumed. snd x) = q"
proof -
  let ?bs = "fefo_batches today p (st_batches st)"
  have "\<And>b. b \<in> set ?bs \<Longrightarrow> 0 \<le> pb_remaining b"
    using ok by (auto simp: stock_ok_def batch_ok_def)
  then have "(\<Sum>x\<leftarrow>fefo_takes ?bs q. snd x) = q"
    using deduct_unfold(1,2) [OF d] by (intro fefo_takes_sum) auto
  then show ?thesis using deduct_unfold(3) [OF d] by (simp add: case_prod_beta o_def)
qed

lemma takes_eligible:
  assumes ok: "stock_ok t" and x: "(b, k) \<in> set (fefo_takes (fefo_batches today p t) q)"
  shows "b \<in> set t" "fefo_eligible today p b" "0 < k" "k \<le> pb_remaining b"
    "get_batch t (pb_id b) = Some b" "batch_ok b"
proof -
  from fefo_takes_in [OF x] show b: "b \<in> set t" and e: "fefo_eligible today p b" by auto
  have "\<And>b. b \<in> set (fefo_batches today p t) \<Longrightarrow> 0 < pb_remaining b"
    using ok by (auto simp: stock_ok_def batch_ok_def fefo_eligible_def)
  from fefo_takes_bounds [OF this x] show "0 < k" "k \<le> pb_remaining b" by auto
  from b ok show "get_batch t (pb_id b) = Some b" and "batch_ok b"
    by (auto simp: stock_ok_def row_get_iff)
qed

lemma takes_distinct:
  "stock_ok t \<Longrightarrow> distinct (map (pb_id \<circ> fst) (fefo_takes (fefo_batches today p t) q))"
  by (intro fefo_takes_ids distinct_fefo_batches) (simp add: stock_ok_def)

lemma batch_ok_fefo_after:
  assumes "batch_ok b" and "pb_status b = Available" and "0 < k" and "k \<le> pb_remaining b"
  shows "batch_ok (fefo_after b k)"
  using assms by (auto simp: batch_ok_def fefo_after_def Let_def)

lemma deduct_stock_ok:
  assumes ok: "stock_ok (st_batches st)" and d: "deduct_product_batch today p q st = Inr (consumed, st')"
  shows "stock_ok (st_batches st')"
proof -
  let ?xs = "fefo_takes (fefo_batches today p (st_batches st)) q"
  have "\<And>b k. (b, k) \<in> set ?xs \<Longrightarrow> batch_ok (fefo_after b k)"
    using takes_eligible [OF ok] by (intro batch_ok_fefo_after) (auto simp: fefo_eligible_def)
  from foldl_save_ok [OF ok this] show ?thesis using deduct_unfold(4) [OF d] by simp
qed

lemma deduct_get:
  assumes ok: "stock_ok (st_batches st)" and d: "deduct_product_batch today p q st = Inr (consumed, st')"
    and x: "(b', k) \<in> set consumed"
  shows "\<exists>b. get_batch (st_batches st) (pb_id b') = Some b \<and> fefo_eligible today p b \<and>
    0 < k \<and> k \<le> pb_remaining b \<and> b' = fefo_after b k \<and>
    get_batch (st_batches st') (pb_id b') = Some b'"
proof -
  let ?xs = "fefo_takes (fefo_batches today p (st_batches st)) q"
  from x obtain b where b: "(b, k) \<in> set ?xs" "b' = fefo_after b k"
    using deduct_unfold(3) [OF d] by auto
  note e = takes_eligible [OF ok b(1)]
  have "get_batch (st_batches st') (pb_id b) = Some (fefo_after b k)"
    unfolding deduct_unfold(4) [OF d]
    using foldl_save_get [OF takes_distinct [OF ok] _ b(1), of fefo_after "st_batches st"] e by simp
  with b e show ?thesis by auto
qed

lemma deduct_get_other:
  assumes d: "deduct_product_batch today p q st = Inr (consumed, st')"
    and "i \<notin> (pb_id \<circ> fst) ` set consumed"
  shows "get_batch (st_batches st') i = get_batch (st_batches st) i"
proof -
  have "pb_id (fefo_after b k) \<noteq> i"
    if "(b, k) \<in> set (fefo_takes (fefo_batches today p (st_batches st)) q)" for b k
    using assms(2) that unfolding deduct_unfold(3) [OF d] by (force simp: image_iff)
  from foldl_save_other [OF this] show ?thesis unfolding deduct_unfold(4) [OF d] by simp
qed

lemma deduct_more:
  assumes "deduct_product_batch today p q st = Inr (consumed, st')"
  shows "st' = st\<lparr>st_batches := st_batches st'\<rparr>"
  using deduct_unfold(4) [OF assms] by simp

lemma deduct_total:
  assumes ok: "stock_ok (st_batches st)" and d: "deduct_product_batch today p q st = Inr (consumed, st')"
  shows "total_remaining (st_batches st') = total_remaining (st_batches st) - q"
proof -
  let ?xs = "fefo_takes (fefo_batches today p (st_batches st)) q"
  have "total_remaining (st_batches st') = total_remaining (st_batches st) - (\<Sum>x\<leftarrow>?xs. snd x)"
    unfolding deduct_unfold(4) [OF d]
    using ok takes_distinct [OF ok] takes_eligible(1) [OF ok]
    by (simp add: foldl_save_total stock_ok_def)
  moreover have "(\<Sum>x\<leftarrow>?xs. snd x) = q"
    using deduct_sum [OF ok d] unfolding deduct_unfold(3) [OF d] by (simp add: case_prod_beta o_def)
  ultimately show ?thesis by simp
qed

lemma deduct_keys: "deduct_product_batch today p q st = Inr (consumed, st') \<Longrightarrow>
    map pb_id (st_batches st') = map pb_id (st_batches st)"
proof -
  assume d: "deduct_product_batch today p q st = Inr (consumed, st')"
  have "map pb_id (foldl (\<lambda>t (b, k). save_batch (fefo_after b k) t) t xs) = map pb_id t" for t xs
    by (induction xs arbitrary: t) (auto split: prod.splits)
  then show ?thesis using deduct_unfold(4) [OF d] by simp
qed


subsection \<open>The contract a sale relies on\<close>

text \<open>What is left of a batch, and what a deduction took from it.\<close>

definition remaining_of :: "nat \<Rightarrow> batch list \<Rightarrow> dec" where
  "remaining_of i t = (case get_batch t i of Some b \<Rightarrow> pb_remaining b | None \<Rightarrow> 0)"

definition drawn_from :: "nat \<Rightarrow> (batch \<times> dec) list \<Rightarrow> dec" where
  "drawn_from i consumed = (\<Sum>x\<leftarrow>consumed. if pb_id (fst x) = i then snd x else 0)"

lemma drawn_from_None: "i \<notin> (pb_id \<circ> fst) ` set consumed \<Longrightarrow> drawn_from i consumed = 0"
  unfolding drawn_from_def by (induction consumed) auto

lemma drawn_from_Some:
  "distinct (map (pb_id \<circ> fst) consumed) \<Longrightarrow> (b, k) \<in> set consumed \<Longrightarrow> drawn_from (pb_id b) consumed = k"
proof (induction consumed)
  case (Cons x xs)
  show ?case
  proof (cases "x = (b, k)")
    case True
    with Cons.prems have "pb_id b \<notin> (pb_id \<circ> fst) ` set xs" by auto
    from drawn_from_None [OF this] True show ?thesis by (simp add: drawn_from_def)
  next
    case False
    with Cons have "(b, k) \<in> set xs" "pb_id (fst x) \<noteq> pb_id b" by force+
    with Cons show ?thesis by (simp add: drawn_from_def)
  qed
qed simp

lemma deduct_remaining:
  assumes ok: "stock_ok (st_batches st)" and d: "deduct_product_batch today p q st = Inr (consumed, st')"
  shows "remaining_of i (st_batches st') = remaining_of i (st_batches st) - drawn_from i consumed"
proof (cases "i \<in> (pb_id \<circ> fst) ` set consumed")
  case True
  then obtain b k where x: "(b, k) \<in> set consumed" "i = pb_id b" by auto
  have "distinct (map (pb_id \<circ> fst) consumed)"
    using takes_distinct [OF ok] unfolding deduct_unfold(3) [OF d] by (simp add: case_prod_beta o_def)
  note k = drawn_from_Some [OF this x(1)]
  from deduct_get [OF ok d x(1)] obtain b0 where b0: "get_batch (st_batches st) (pb_id b) = Some b0"
    "b = fefo_after b0 k" "get_batch (st_batches st') (pb_id b) = Some b" by blast
  then have "pb_remaining b = pb_remaining b0 - k" by (metis fefo_after_fields(7))
  with b0 x(2) k show ?thesis by (simp add: remaining_of_def)
next
  case False
  from deduct_get_other [OF d False] drawn_from_None [OF False] show ?thesis
    by (simp add: remaining_of_def)
qed

lemma remaining_of_nonneg: "stock_ok t \<Longrightarrow> 0 \<le> remaining_of i t"
  using stock_ok_get [of t i] by (auto simp: remaining_of_def batch_ok_def split: option.splits)

text \<open>
  The interface between a sale and the stock: a deduction that succeeds hands out exactly the
  requested quantity, takes it from the batches it names, and keeps the stock consistent. Whatever
  loop a client builds on it conserves stock plus what the client books.
\<close>

locale stock_source =
  fixes deduct :: "'d \<Rightarrow> nat \<Rightarrow> dec \<Rightarrow> 's \<Rightarrow> ((batch \<times> dec) list \<times> 's) res"
    and ok :: "'s \<Rightarrow> bool"
    and level :: "nat \<Rightarrow> 's \<Rightarrow> dec"
  assumes deduct_keeps: "ok s \<Longrightarrow> deduct d p q s = Inr (c, s') \<Longrightarrow> ok s'"
    and deduct_exact: "ok s \<Longrightarrow> deduct d p q s = Inr (c, s') \<Longrightarrow> (\<Sum>x\<leftarrow>c. snd x) = q"
    and deduct_level: "ok s \<Longrightarrow> deduct d p q s = Inr (c, s') \<Longrightarrow> level i s' = level i s - drawn_from i c"
    and level_nonneg: "ok s \<Longrightarrow> 0 \<le> level i s"
begin

lemma drawn_bounded: "ok s \<Longrightarrow> deduct d p q s = Inr (c, s') \<Longrightarrow> drawn_from i c \<le> level i s"
  using deduct_level [of s d p q c s' i] deduct_keeps [of s d p q c s'] level_nonneg [of s' i] by simp

lemma loop_conserves:
  assumes "rfold body s xs = Inr s'" and "ok s"
    and "\<And>s x s'. x \<in> set xs \<Longrightarrow> ok s \<Longrightarrow> body s x = Inr s' \<Longrightarrow>
      \<exists>d p q c s1. deduct d p q s = Inr (c, s1) \<and> (ok s1 \<longrightarrow> ok s') \<and> level i s' = level i s1 \<and>
        books s' = books s + drawn_from i c"
  shows "ok s' \<and> level i s' + books s' = level i s + books s"
  using assms
proof (induction xs arbitrary: s)
  case (Cons x xs)
  then obtain s2 where b: "body s x = Inr s2" and r: "rfold body s2 xs = Inr s'" by auto
  from Cons.prems(3) [of x s s2] Cons.prems(2) b obtain d p q c s1 where
    1: "deduct d p q s = Inr (c, s1)" "ok s1 \<longrightarrow> ok s2" "level i s2 = level i s1"
      "books s2 = books s + drawn_from i c" by auto
  with Cons.prems(2) have 2: "ok s2" "level i s2 + books s2 = level i s + books s"
    using deduct_keeps deduct_level by fastforce+
  have "ok s' \<and> level i s' + books s' = level i s2 + books s2"
  proof (rule Cons.IH [OF r 2(1)])
    fix s y s' assume "y \<in> set xs" "ok s" "body s y = Inr s'"
    with Cons.prems(3) [of y s s'] show "\<exists>d p q c s1. deduct d p q s = Inr (c, s1) \<and>
        (ok s1 \<longrightarrow> ok s') \<and> level i s' = level i s1 \<and> books s' = books s + drawn_from i c" by simp
  qed
  with 2 show ?case by simp
qed simp

end

interpretation fefo: stock_source deduct_product_batch "\<lambda>st. stock_ok (st_batches st)"
    "\<lambda>i st. remaining_of i (st_batches st)"
  by unfold_locales
    (simp_all add: deduct_stock_ok deduct_sum deduct_remaining remaining_of_nonneg)

text \<open>A sale of one product leaves the sellable stock of the others untouched.\<close>

lemma foldl_save_filter:
  assumes "\<And>x. x \<in> set t \<Longrightarrow> pb_id x \<in> (pb_id \<circ> fst) ` set xs \<Longrightarrow> \<not> P x"
    and "\<And>b k. (b, k) \<in> set xs \<Longrightarrow> \<not> P (fefo_after b k)"
  shows "filter P (foldl (\<lambda>t (b, k). save_batch (fefo_after b k) t) t xs) = filter P t"
  using assms
proof (induction xs arbitrary: t)
  case (Cons y xs)
  obtain b k where y: "y = (b, k)" by (cases y)
  let ?t = "save_batch (fefo_after b k) t"
  have "filter P ?t = filter P t"
    using Cons.prems y by (intro filter_row_save_other) auto
  moreover have "filter P (foldl (\<lambda>t (b, k). save_batch (fefo_after b k) t) ?t xs) = filter P ?t"
  proof (rule Cons.IH)
    fix x assume x: "x \<in> set ?t" "pb_id x \<in> (pb_id \<circ> fst) ` set xs"
    from set_row_save [OF x(1)] x(2) Cons.prems y show "\<not> P x" by auto
  qed (use Cons.prems y in auto)
  ultimately show ?case by (simp add: y)
qed simp

lemma deduct_other_products:
  assumes ok: "stock_ok (st_batches st)" and d: "deduct_product_batch today p q st = Inr (consumed, st')"
    and "p' \<noteq> p"
  shows "sellable day p' (st_batches st') = sellable day p' (st_batches st)"
proof -
  let ?xs = "fefo_takes (fefo_batches today p (st_batches st)) q"
  have prod: "pb_product b = p" "get_batch (st_batches st) (pb_id b) = Some b" if "(b, k) \<in> set ?xs" for b k
    using takes_eligible [OF ok that] by (auto simp: fefo_eligible_def)
  have b': "st_batches st' = foldl (\<lambda>t (b, k). save_batch (fefo_after b k) t) (st_batches st) ?xs"
    using deduct_unfold(4) [OF d] by simp
  have "filter (fefo_eligible day p') (st_batches st') = filter (fefo_eligible day p') (st_batches st)"
    unfolding b'
  proof (rule foldl_save_filter)
    fix x assume x: "x \<in> set (st_batches st)" "pb_id x \<in> (pb_id \<circ> fst) ` set ?xs"
    then obtain b k where b: "(b, k) \<in> set ?xs" "pb_id x = pb_id b" by auto
    from x(1) ok have "get_batch (st_batches st) (pb_id x) = Some x" by (simp add: row_get_iff stock_ok_def)
    with prod(2) [OF b(1)] b(2) have "x = b" by (metis option.inject)
    with prod(1) [OF b(1)] assms(3) show "\<not> fefo_eligible day p' x" by (simp add: fefo_eligible_def)
  next
    fix b k assume "(b, k) \<in> set ?xs"
    from prod(1) [OF this] assms(3) show "\<not> fefo_eligible day p' (fefo_after b k)"
      by (simp add: fefo_eligible_def)
  qed
  then show ?thesis by (simp add: sellable_def)
qed


subsection \<open>Properties\<close>

text \<open>
  C11: a successful deduction takes exactly the requested quantity. On a consistent stock table the
  amounts recorded for the sale add up to it, the stock of the whole warehouse falls by it, and the
  table stays consistent (no negative remainder, no available batch without stock).
\<close>

theorem deduct_conserves:
  assumes "stock_ok (st_batches st)"
    and "deduct_product_batch today p q st = Inr (consumed, st')"
  shows "(\<Sum>x\<leftarrow>consumed. snd x) = q \<and>
    total_remaining (st_batches st') = total_remaining (st_batches st) - q \<and>
    stock_ok (st_batches st')"
  using deduct_sum [OF assms] deduct_total [OF assms] deduct_stock_ok [OF assms] by blast

text \<open>
  C12: first expired, first out. The batches a sale consumes are an initial part of the product's
  eligible batches in the order of expiry date and key, every one of them but the last is emptied
  (and marked depleted), only available batches of that product that have arrived and have not
  expired are drawn on, and every batch that is not recorded keeps its row.
\<close>

theorem deduct_first_expired_first_out:
  assumes "stock_ok (st_batches st)"
    and "deduct_product_batch today p q st = Inr (consumed, st')"
  shows "map (pb_id \<circ> fst) consumed =
      take (length consumed) (map pb_id (fefo_batches today p (st_batches st))) \<and>
    (\<forall>i. i + 1 < length consumed \<longrightarrow>
      pb_remaining (fst (consumed ! i)) = 0 \<and> pb_status (fst (consumed ! i)) = Depleted) \<and>
    (\<forall>b' k. (b', k) \<in> set consumed \<longrightarrow> (\<exists>b. get_batch (st_batches st) (pb_id b') = Some b \<and>
      pb_product b = p \<and> pb_status b = Available \<and> pb_received b \<le> today \<and> today \<le> pb_expiration b \<and>
      0 < k \<and> k \<le> pb_remaining b)) \<and>
    (\<forall>j. j \<notin> (pb_id \<circ> fst) ` set consumed \<longrightarrow>
      get_batch (st_batches st') j = get_batch (st_batches st) j)"
proof (intro conjI allI impI)
  let ?xs = "fefo_takes (fefo_batches today p (st_batches st)) q"
  note c = deduct_unfold(3) [OF assms(2)]
  have "map (pb_id \<circ> fst) consumed = map pb_id (map fst ?xs)"
    by (simp add: c case_prod_beta o_def)
  then show "map (pb_id \<circ> fst) consumed =
      take (length consumed) (map pb_id (fefo_batches today p (st_batches st)))"
    by (simp only: fefo_takes_prefix [of "fefo_batches today p (st_batches st)"] take_map) (simp add: c)
  fix i b' k j
  show "pb_remaining (fst (consumed ! i)) = 0" "pb_status (fst (consumed ! i)) = Depleted"
    if "i + 1 < length consumed"
    using that fefo_takes_drained [of i "fefo_batches today p (st_batches st)" q]
    by (simp_all add: c case_prod_beta fefo_after_def Let_def)
  show "\<exists>b. get_batch (st_batches st) (pb_id b') = Some b \<and>
      pb_product b = p \<and> pb_status b = Available \<and> pb_received b \<le> today \<and> today \<le> pb_expiration b \<and>
      0 < k \<and> k \<le> pb_remaining b" if "(b', k) \<in> set consumed"
    using deduct_get [OF assms that] unfolding fefo_eligible_def by blast
  show "get_batch (st_batches st') j = get_batch (st_batches st) j"
    if "j \<notin> (pb_id \<circ> fst) ` set consumed"
    using deduct_get_other [OF assms(2) that] .
qed

text \<open>
  a deduction fails only for the two reasons the service states. It succeeds exactly when the
  requested quantity is positive and the product's sellable stock covers it.
\<close>

lemma deduct_succeeds_iff_enough:
  "(\<exists>r. deduct_product_batch today p q st = Inr r) \<longleftrightarrow>
     0 < q \<and> q \<le> sellable today p (st_batches st)"
  by (auto simp: deduct_product_batch_def Let_def split: prod.splits)

text \<open>A stock of three batches of product 1, to evaluate the service on.\<close>

definition demo_batch :: "nat \<Rightarrow> dec \<Rightarrow> date \<Rightarrow> batch" where
  "demo_batch k q e = \<lparr>pb_id = k, pb_product = 1, pb_number = ''PRD'', pb_grade = None,
     pb_unit_price = None, pb_initial = q, pb_remaining = q, pb_expiration = e, pb_received = 700000,
     pb_status = Available, pb_historical = False, pb_notes = None\<rparr>"

definition demo_store :: inv_store where
  "demo_store = \<lparr>st_categories = [\<lparr>cat_id = 1, cat_name = ''Milk'', cat_active = True, cat_visible = True\<rparr>],
     st_products = [\<lparr>pr_id = 1, pr_category = 1, pr_name = ''Fresh Milk'', pr_unit = ''L'',
        pr_variant = None, pr_shelf_life = 7, pr_active = True\<rparr>],
     st_batches = [demo_batch 1 500 700030, demo_batch 2 300 700020, demo_batch 3 400 700040],
     st_sequences = [], st_fefo = None, st_adjustments = [], st_adj_submissions = []\<rparr>"

lemma demo_stock_ok: "stock_ok (st_batches demo_store)"
  by (simp add: stock_ok_def demo_store_def demo_batch_def keys_ok_def batch_ok_def)

lemma demo_deduct:
  "deduct_product_batch 700010 1 600 demo_store =
     Inr ([(fefo_after (demo_batch 2 300 700020) 300, 300), (fefo_after (demo_batch 1 500 700030) 300, 300)],
       demo_store\<lparr>st_batches := [fefo_after (demo_batch 1 500 700030) 300,
         fefo_after (demo_batch 2 300 700020) 300, demo_batch 3 400 700040]\<rparr>)"
  by code_simp

theorem deduct_conserves_witness:
  "\<exists>consumed st'. deduct_product_batch 700010 1 600 demo_store = Inr (consumed, st') \<and>
     (\<Sum>x\<leftarrow>consumed. snd x) = 600 \<and> stock_ok (st_batches st')"
  using deduct_conserves [OF demo_stock_ok demo_deduct] demo_deduct by blast

theorem deduct_first_expired_first_out_witness:
  "\<exists>consumed st'. deduct_product_batch 700010 1 600 demo_store = Inr (consumed, st') \<and>
     map (pb_id \<circ> fst) consumed = take 2 (map pb_id (fefo_batches 700010 1 (st_batches demo_store)))"
  using deduct_first_expired_first_out [OF demo_stock_ok demo_deduct] demo_deduct
  by (auto simp: numeral_2_eq_2)

end
