(* ===== verification/Adjustment.thy ===== *)
theory Adjustment
  imports Fefo
begin

text \<open>
  \<^verbatim>\<open>inventory/services/adjustment_service.py\<close> and \<^verbatim>\<open>adjustment_submission_service.py\<close>: write-offs and
  corrections of one batch, and their deduplication by a client-chosen request id. A failing service
  leaves the store as it was (\<^verbatim>\<open>transaction.atomic\<close>), which the model expresses by returning no store.
  The SHA-256 fingerprint of the request and the rendering of the serialized answer are parameters.
\<close>

definition adjusted_batch :: "adjustment_type \<Rightarrow> dec \<Rightarrow> batch \<Rightarrow> batch" where
  "adjusted_batch ty quantity b =
     (let b1 = b\<lparr>pb_remaining := pb_remaining b - quantity\<rparr>
      in if pb_remaining b1 \<le> 0
         then b1\<lparr>pb_remaining := 0,
                 pb_status := (if ty = AdjSpoilage \<or> ty = AdjExpired then Disposed else Depleted)\<rparr>
         else if ty = AdjCorrection \<and> pb_status b1 = Depleted then b1\<lparr>pb_status := Available\<rparr>
         else b1)"

definition create_stock_adjustment ::
    "instant \<Rightarrow> string \<Rightarrow> dec \<Rightarrow> dec \<Rightarrow> nat \<Rightarrow> string option \<Rightarrow> nat option \<Rightarrow>
     'z inv_store_scheme \<Rightarrow> (stock_adjustment \<times> 'z inv_store_scheme) res" where
  "create_stock_adjustment now atype quantity unit_cost adjusted_by reason product_batch st =
     (case adjustment_type_of atype of
        None \<Rightarrow> Inl (ValueError ''Invalid adjustment_type.'')
      | Some ty \<Rightarrow>
        (case product_batch of
           None \<Rightarrow> Inl (ValueError ''product_batch must be provided.'')
         | Some pk \<Rightarrow>
           if ty \<noteq> AdjCorrection \<and> quantity \<le> 0
           then Inl (ValueError ''Adjustment quantity must be greater than zero.'')
           else
            (case get_batch (st_batches st) pk of
               None \<Rightarrow> Inl (DoesNotExist ''ProductBatch'')
             | Some b \<Rightarrow>
               let today = local_date now;
                   expired = (pb_status b = Expired \<or> pb_expiration b < today)
               in if pb_status b = Disposed \<or> (expired \<and> ty \<noteq> AdjExpired \<and> ty \<noteq> AdjSpoilage)
                  then Inl (ValueErrorF ''Batch {} cannot be adjusted.'' [FStr (pb_number b)])
                  else if today < pb_received b
                  then Inl (ValueError ''Stock cannot be adjusted before its receipt date.'')
                  else if 0 < quantity \<and> pb_remaining b < quantity
                  then Inl (ValueErrorF ''Adjustment quantity ({}) exceeds remaining stock ({}) for batch {}.''
                              [FDec quantity, FDec (pb_remaining b), FStr (pb_number b)])
                  else if pb_initial b < pb_remaining b - quantity
                  then Inl (ValueErrorF ''Correction would set remaining stock ({}) above the initial quantity ({}) for batch {}.''
                              [FDec (pb_remaining b - quantity), FDec (pb_initial b), FStr (pb_number b)])
                  else let adj = \<lparr>sa_id = new_pk sa_id (st_adjustments st), sa_batch = pk, sa_type = ty,
                                  sa_quantity = quantity, sa_unit_cost = unit_cost, sa_reason = reason,
                                  sa_by = adjusted_by, sa_created = now\<rparr>
                       in Inr (adj, st\<lparr>st_batches := save_batch (adjusted_batch ty quantity b) (st_batches st),
                                       st_adjustments := row_ins adj (st_adjustments st)\<rparr>))))"

text \<open>The values that identify a keyed request, normalised as the fingerprint payload does.\<close>

record adjustment_payload =
  ap_batch :: nat
  ap_type :: string
  ap_quantity :: dec
  ap_unit_cost :: dec
  ap_reason :: string

definition find_submission :: "nat \<Rightarrow> nat \<Rightarrow> 'z inv_store_scheme \<Rightarrow> adjustment_submission option" where
  "find_submission user key st =
     find (\<lambda>s. as_user s = user \<and> as_request s = key) (st_adj_submissions st)"

definition submit_stock_adjustment ::
    "(adjustment_payload \<Rightarrow> string) \<Rightarrow> (stock_adjustment \<Rightarrow> 'z inv_store_scheme \<Rightarrow> string) \<Rightarrow>
     instant \<Rightarrow> nat option \<Rightarrow> string \<Rightarrow> dec \<Rightarrow> dec \<Rightarrow> nat \<Rightarrow> string option \<Rightarrow> nat \<Rightarrow>
     'z inv_store_scheme \<Rightarrow> ((string \<times> bool) \<times> 'z inv_store_scheme) res" where
  "submit_stock_adjustment fingerprint_of render now key atype quantity unit_cost user reason batch st =
     (case key of
        None \<Rightarrow>
          rbind (create_stock_adjustment now atype quantity unit_cost user reason (Some batch) st)
            (\<lambda>(adj, st'). Inr ((render adj st', True), st'))
      | Some k \<Rightarrow>
          let fingerprint = fingerprint_of \<lparr>ap_batch = batch, ap_type = atype, ap_quantity = quantity,
                ap_unit_cost = unit_cost, ap_reason = (case reason of None \<Rightarrow> [] | Some r \<Rightarrow> r)\<rparr>
          in (case find_submission user k st of
               Some previous \<Rightarrow>
                 if as_fingerprint previous \<noteq> fingerprint then Inl AdjustmentSubmissionConflict
                 else Inr ((as_response previous, False), st)
             | None \<Rightarrow>
                 rbind (create_stock_adjustment now atype quantity unit_cost user reason (Some batch) st)
                   (\<lambda>(adj, st').
                     let response = render adj st';
                         sub = \<lparr>as_user = user, as_request = k, as_fingerprint = fingerprint,
                                as_adjustment = sa_id adj, as_response = response\<rparr>
                     in Inr ((response, True),
                             st'\<lparr>st_adj_submissions := row_ins sub (st_adj_submissions st')\<rparr>))))"

text \<open>
  \<^verbatim>\<open>adjustment_request_id\<close>: the optional UUID of the JSON body or of the \<^verbatim>\<open>Idempotency-Key\<close> header;
  both, if given, must agree.
\<close>

definition adjustment_request_id ::
    "(string \<Rightarrow> nat option) \<Rightarrow> (string \<times> pyval) list \<Rightarrow> (string \<times> pyval) list \<Rightarrow> nat option res" where
  "adjustment_request_id parse_uuid data headers =
     rbind (case map_of data ''request_id'' of None \<Rightarrow> Inr []
            | Some v \<Rightarrow> rbind (uuid_text_field parse_uuid v) (\<lambda>u. Inr [u])) (\<lambda>ks.
     rbind (case map_of headers ''Idempotency-Key'' of None \<Rightarrow> Inr []
            | Some v \<Rightarrow> rbind (uuid_text_field parse_uuid v) (\<lambda>u. Inr [u])) (\<lambda>hs.
       case ks @ hs of
         [] \<Rightarrow> Inr None
       | [u] \<Rightarrow> Inr (Some u)
       | u # w # _ \<Rightarrow>
           if u \<noteq> w then Inl (ValidationError ''request_id'' ''request_id and Idempotency-Key must match.'')
           else Inr (Some u)))"


subsection \<open>One adjustment\<close>

lemma adjust_unfold:
  assumes "create_stock_adjustment now atype q c u r pb st = Inr (adj, st')"
  obtains ty pk b where
    "adjustment_type_of atype = Some ty" "pb = Some pk" "get_batch (st_batches st) pk = Some b"
    "ty = AdjCorrection \<or> 0 < q" "pb_status b \<noteq> Disposed"
    "pb_status b = Expired \<or> pb_expiration b < local_date now \<Longrightarrow> ty = AdjExpired \<or> ty = AdjSpoilage"
    "pb_received b \<le> local_date now" "q \<le> 0 \<or> q \<le> pb_remaining b"
    "pb_remaining b - q \<le> pb_initial b"
    "adj = \<lparr>sa_id = new_pk sa_id (st_adjustments st), sa_batch = pk, sa_type = ty, sa_quantity = q,
            sa_unit_cost = c, sa_reason = r, sa_by = u, sa_created = now\<rparr>"
    "st' = st\<lparr>st_batches := save_batch (adjusted_batch ty q b) (st_batches st),
              st_adjustments := row_ins adj (st_adjustments st)\<rparr>"
  using assms
  by (fastforce simp: create_stock_adjustment_def Let_def split: option.splits if_splits)

lemma adjusted_batch_fields [simp]:
  "pb_id (adjusted_batch ty q b) = pb_id b" "pb_product (adjusted_batch ty q b) = pb_product b"
  "pb_initial (adjusted_batch ty q b) = pb_initial b" "pb_number (adjusted_batch ty q b) = pb_number b"
  "pb_expiration (adjusted_batch ty q b) = pb_expiration b"
  "pb_received (adjusted_batch ty q b) = pb_received b"
  by (simp_all add: adjusted_batch_def Let_def)

lemma adjusted_batch_remaining:
  "0 \<le> pb_remaining b \<Longrightarrow> q \<le> 0 \<or> q \<le> pb_remaining b \<Longrightarrow>
   pb_remaining (adjusted_batch ty q b) = pb_remaining b - q"
  by (auto simp: adjusted_batch_def Let_def)

lemma batch_ok_adjusted:
  assumes "batch_ok b" and "q \<le> 0 \<or> q \<le> pb_remaining b" and "pb_remaining b - q \<le> pb_initial b"
    and "pb_status b \<noteq> Disposed" and "ty = AdjCorrection \<or> 0 < q"
  shows "batch_ok (adjusted_batch ty q b)"
  using assms by (cases "pb_status b") (auto simp: batch_ok_def adjusted_batch_def Let_def)

lemma adjust_stock_ok:
  assumes ok: "stock_ok (st_batches st)"
    and a: "create_stock_adjustment now atype q c u r pb st = Inr (adj, st')"
  shows "stock_ok (st_batches st')"
  using a
proof (cases rule: adjust_unfold)
  case (1 ty pk b)
  with stock_ok_get [OF ok] have "batch_ok (adjusted_batch ty q b)"
    by (intro batch_ok_adjusted) auto
  with 1 ok show ?thesis by (simp add: stock_ok_save)
qed

text \<open>
  C31: a stock adjustment either changes nothing or writes off (or, for a correction, restores)
  exactly its quantity: the batch's remaining stock falls by it and stays between zero and the
  received quantity, one audit row with that quantity is appended, every other batch keeps its row
  and the stock table stays consistent.
\<close>

theorem adjustment_exact:
  assumes "stock_ok (st_batches st)"
    and "create_stock_adjustment now atype q c u r (Some pk) st = Inr (adj, st')"
  shows "\<exists>b b'. get_batch (st_batches st) pk = Some b \<and> get_batch (st_batches st') pk = Some b' \<and>
    pb_remaining b' = pb_remaining b - q \<and> 0 \<le> pb_remaining b' \<and> pb_remaining b' \<le> pb_initial b' \<and>
    st_adjustments st' = st_adjustments st @ [adj] \<and> sa_quantity adj = q \<and> sa_batch adj = pk \<and>
    (\<forall>k. k \<noteq> pk \<longrightarrow> get_batch (st_batches st') k = get_batch (st_batches st) k) \<and>
    stock_ok (st_batches st')"
  using assms(2)
proof (cases rule: adjust_unfold)
  case (1 ty pk' b)
  then have b: "get_batch (st_batches st) pk = Some b" by simp
  note ok = stock_ok_get [OF assms(1) b]
  let ?b' = "adjusted_batch ty q b"
  have "get_batch (st_batches st') pk = Some ?b'"
    using 1 b ok by (simp add: row_get_save)
  moreover have "pb_remaining ?b' = pb_remaining b - q"
    using 1 ok by (intro adjusted_batch_remaining) (auto simp: batch_ok_def)
  moreover have "batch_ok ?b'" using 1 ok by (intro batch_ok_adjusted) auto
  moreover have "get_batch (st_batches st') k = get_batch (st_batches st) k" if "k \<noteq> pk" for k
    using that 1 ok by (simp add: row_get_save)
  ultimately show ?thesis
    using b adjust_stock_ok [OF assms] 1 by (simp add: batch_ok_def row_ins_def)
qed

lemma demo_adjust:
  "create_stock_adjustment (at_hour 700010 9) ''spillage'' 120 50 4 None (Some 2) demo_store =
     Inr (\<lparr>sa_id = 1, sa_batch = 2, sa_type = AdjSpillage, sa_quantity = 120, sa_unit_cost = 50,
           sa_reason = None, sa_by = 4, sa_created = at_hour 700010 9\<rparr>,
       demo_store\<lparr>st_batches := [demo_batch 1 500 700030,
           (demo_batch 2 300 700020)\<lparr>pb_remaining := 180\<rparr>, demo_batch 3 400 700040],
         st_adjustments := [\<lparr>sa_id = 1, sa_batch = 2, sa_type = AdjSpillage, sa_quantity = 120,
           sa_unit_cost = 50, sa_reason = None, sa_by = 4, sa_created = at_hour 700010 9\<rparr>]\<rparr>)"
  by code_simp

theorem adjustment_exact_witness:
  "\<exists>adj st' b'. create_stock_adjustment (at_hour 700010 9) ''spillage'' 120 50 4 None (Some 2) demo_store =
     Inr (adj, st') \<and> get_batch (st_batches st') 2 = Some b' \<and> pb_remaining b' = 180"
  using adjustment_exact [OF demo_stock_ok demo_adjust] demo_adjust
  by (auto simp: demo_store_def demo_batch_def row_get_def)

text \<open>
  a disposed batch is final, and stock past its expiry date can only be written off as expired
  or spoiled: no other adjustment of such a batch succeeds.
\<close>

lemma adjustment_respects_expiry:
  assumes "get_batch (st_batches st) pk = Some b"
    and "pb_status b = Disposed \<or>
      ((pb_status b = Expired \<or> pb_expiration b < local_date now) \<and>
       atype \<noteq> ''expired'' \<and> atype \<noteq> ''spoilage'')"
  shows "\<exists>e. create_stock_adjustment now atype q c u r (Some pk) st = Inl e"
proof (cases "create_stock_adjustment now atype q c u r (Some pk) st")
  case (Inr res)
  obtain adj st' where "res = (adj, st')" by (cases res)
  with Inr have "create_stock_adjustment now atype q c u r (Some pk) st = Inr (adj, st')" by simp
  then show ?thesis
  proof (cases rule: adjust_unfold)
    case (1 ty pk' b')
    with assms show ?thesis by (auto simp: adjustment_type_of_def split: if_splits)
  qed
qed auto

lemma adjustment_respects_expiry_witness:
  "\<exists>e. create_stock_adjustment (at_hour 700035 9) ''correction'' (- 50) 0 4 None (Some 1) demo_store = Inl e"
  by (rule adjustment_respects_expiry [where b = "demo_batch 1 500 700030"])
    (simp_all add: demo_store_def demo_batch_def row_get_def)


subsection \<open>Keyed submissions\<close>

lemma adjust_submissions:
  "create_stock_adjustment now atype q c u r pb st = Inr (adj, st') \<Longrightarrow>
   st_adj_submissions st' = st_adj_submissions st"
  by (erule adjust_unfold) simp

lemma find_submission_ins:
  "find_submission user k st = None \<Longrightarrow> as_user s = user \<Longrightarrow> as_request s = k \<Longrightarrow>
   find_submission user k (st\<lparr>st_adj_submissions := row_ins s (st_adj_submissions st)\<rparr>) = Some s"
  by (auto simp: find_submission_def row_ins_def find_append split: option.splits)

lemma find_submission_cong:
  "st_adj_submissions st' = st_adj_submissions st \<Longrightarrow>
   find_submission user k st' = find_submission user k st"
  by (simp add: find_submission_def)

lemma submit_saved:
  assumes "submit_stock_adjustment fp render now (Some k) atype q c user r b st = Inr ((resp, created), st')"
  shows "\<exists>s. find_submission user k st' = Some s \<and> as_response s = resp \<and>
    as_fingerprint s = fp \<lparr>ap_batch = b, ap_type = atype, ap_quantity = q, ap_unit_cost = c,
             ap_reason = (case r of None \<Rightarrow> [] | Some x \<Rightarrow> x)\<rparr>"
proof (cases "find_submission user k st")
  case None
  with assms obtain adj st1 where
    adj: "create_stock_adjustment now atype q c user r (Some b) st = Inr (adj, st1)"
    by (auto simp: submit_stock_adjustment_def Let_def)
  have "find_submission user k st1 = None"
    using None adjust_submissions [OF adj] by (metis find_submission_cong)
  with None adj assms show ?thesis
    by (auto simp: submit_stock_adjustment_def Let_def find_submission_ins)
next
  case (Some s)
  with assms show ?thesis
    by (auto simp: submit_stock_adjustment_def Let_def split: if_splits)
qed

text \<open>
  A request to the service as one value, and the service as an instance of the keyed-request contract:
  the key is scoped to the user, and the identity of a request is the fingerprint of its payload.
\<close>

record adj_request =
  aq_now :: instant
  aq_key :: "nat option"
  aq_type :: string
  aq_quantity :: dec
  aq_cost :: dec
  aq_user :: nat
  aq_reason :: "string option"
  aq_batch :: nat

definition submit_adjustment ::
    "(adjustment_payload \<Rightarrow> string) \<Rightarrow> (stock_adjustment \<Rightarrow> 'z inv_store_scheme \<Rightarrow> string) \<Rightarrow> adj_request \<Rightarrow>
     'z inv_store_scheme \<Rightarrow> ((string \<times> bool) \<times> 'z inv_store_scheme) res" where
  "submit_adjustment fp render x =
     submit_stock_adjustment fp render (aq_now x) (aq_key x) (aq_type x) (aq_quantity x) (aq_cost x)
       (aq_user x) (aq_reason x) (aq_batch x)"

definition adj_identity :: "(adjustment_payload \<Rightarrow> string) \<Rightarrow> adj_request \<Rightarrow> string" where
  "adj_identity fp x = fp \<lparr>ap_batch = aq_batch x, ap_type = aq_type x, ap_quantity = aq_quantity x,
     ap_unit_cost = aq_cost x, ap_reason = (case aq_reason x of None \<Rightarrow> [] | Some r \<Rightarrow> r)\<rparr>"

definition adj_saved :: "nat \<times> nat \<Rightarrow> 'z inv_store_scheme \<Rightarrow> (string \<times> string) option" where
  "adj_saved uk st = map_option (\<lambda>s. (as_fingerprint s, as_response s)) (find_submission (fst uk) (snd uk) st)"

definition adj_key :: "adj_request \<Rightarrow> (nat \<times> nat) option" where
  "adj_key x = map_option (\<lambda>k. (aq_user x, k)) (aq_key x)"

lemma submit_keeps_saved:
  assumes "find_submission u k st = Some s" and "submit_adjustment fp render x st = Inr (a, st')"
  shows "find_submission u k st' = Some s"
proof (cases "\<exists>k'. aq_key x = Some k' \<and> find_submission (aq_user x) k' st \<noteq> None")
  case True
  with assms show ?thesis by (auto simp: submit_adjustment_def submit_stock_adjustment_def Let_def split: if_splits)
next
  case False
  then obtain adj st1 where adj: "create_stock_adjustment (aq_now x) (aq_type x) (aq_quantity x) (aq_cost x) (aq_user x)
      (aq_reason x) (Some (aq_batch x)) st = Inr (adj, st1)"
    and st': "st' = st1 \<or> (\<exists>sub. st' = st1\<lparr>st_adj_submissions := row_ins sub (st_adj_submissions st1)\<rparr>)"
    using assms(2) by (auto simp: submit_adjustment_def submit_stock_adjustment_def Let_def split: option.splits)
  have "st_adj_submissions st1 = st_adj_submissions st" by (rule adjust_submissions [OF adj])
  with st' assms(1) show ?thesis by (auto simp: find_submission_def row_ins_def find_append)
qed

interpretation adj_keyed: keyed_request "submit_adjustment fp render" adj_key "\<lambda>x. True" "adj_identity fp"
    adj_saved AdjustmentSubmissionConflict
  for fp :: "adjustment_payload \<Rightarrow> string" and render :: "stock_adjustment \<Rightarrow> 'z inv_store_scheme \<Rightarrow> string"
proof unfold_locales
  fix x :: adj_request and k p r and s :: "'z inv_store_scheme"
  assume "adj_key x = Some k" "adj_saved k s = Some (p, r)"
  then show "submit_adjustment fp render x s =
      (if adj_identity fp x = p then Inr ((r, False), s) else Inl AdjustmentSubmissionConflict)"
    by (auto simp: adj_key_def adj_saved_def submit_adjustment_def submit_stock_adjustment_def adj_identity_def Let_def)
next
  fix x :: adj_request and k r c and s s' :: "'z inv_store_scheme"
  assume k: "adj_key x = Some k" and none: "adj_saved k s = None"
    and s: "submit_adjustment fp render x s = Inr ((r, c), s')"
  obtain k' where k': "aq_key x = Some k'" "k = (aq_user x, k')" using k by (auto simp: adj_key_def)
  with s have "submit_stock_adjustment fp render (aq_now x) (Some k') (aq_type x) (aq_quantity x) (aq_cost x)
       (aq_user x) (aq_reason x) (aq_batch x) s = Inr ((r, c), s')" by (simp add: submit_adjustment_def)
  from submit_saved [OF this] this none k' show "c \<and> adj_saved k s' = Some (adj_identity fp x, r)"
    by (auto simp: adj_saved_def adj_identity_def submit_stock_adjustment_def Let_def)
next
  fix k v x a and s s' :: "'z inv_store_scheme"
  assume v: "adj_saved k s = Some v" and a: "submit_adjustment fp render x s = Inr (a, s')"
  from v obtain sub where sub: "find_submission (fst k) (snd k) s = Some sub" by (auto simp: adj_saved_def)
  from submit_keeps_saved [OF sub a] sub v show "adj_saved k s' = Some v" by (simp add: adj_saved_def)
qed simp

text \<open>
  a keyed stock adjustment is applied once. After a keyed request succeeded, whatever other
  adjustment requests follow, repeating it with the same key and values returns the saved answer,
  reports that nothing was created and leaves the store untouched; a request of the same user under
  the same key with another fingerprint is refused as a conflict.
\<close>

lemma keyed_adjustment_applied_once:
  assumes "submit_adjustment fp render x st = Inr ((resp, created), st')" and "adj_key x = Some k"
    and "adj_key y = Some k" and "adj_identity fp y \<noteq> adj_identity fp x"
  shows "submit_adjustment fp render x (serve (submit_adjustment fp render) later st') =
      Inr ((resp, False), serve (submit_adjustment fp render) later st') \<and>
    submit_adjustment fp render y (serve (submit_adjustment fp render) later st') =
      Inl AdjustmentSubmissionConflict"
  using adj_keyed.retry [OF assms(1,2)] adj_keyed.reuse_refused [OF assms(1-3) TrueI assms(4)] by blast

definition demo_adj :: "nat \<Rightarrow> string \<Rightarrow> adj_request" where
  "demo_adj k reason = \<lparr>aq_now = at_hour 700010 9, aq_key = Some k, aq_type = ''spillage'', aq_quantity = 120,
     aq_cost = 50, aq_user = 4, aq_reason = Some reason, aq_batch = 2\<rparr>"

lemma keyed_adjustment_applied_once_witness:
  "\<exists>st'. submit_adjustment ap_reason (\<lambda>a s. ''ok'') (demo_adj 77 ''floor'') demo_store = Inr ((''ok'', True), st') \<and>
     submit_adjustment ap_reason (\<lambda>a s. ''ok'') (demo_adj 77 ''other'')
       (serve (submit_adjustment ap_reason (\<lambda>a s. ''ok'')) [demo_adj 78 ''next''] st') = Inl AdjustmentSubmissionConflict"
proof -
  obtain st' where s: "submit_adjustment ap_reason (\<lambda>a s. ''ok'') (demo_adj 77 ''floor'') demo_store = Inr ((''ok'', True), st')"
    by (simp add: submit_adjustment_def demo_adj_def submit_stock_adjustment_def find_submission_def demo_store_def
        demo_batch_def create_stock_adjustment_def adjustment_type_of_def row_get_def Let_def)
  have "adj_key (demo_adj 77 ''floor'') = Some (4, 77)" "adj_key (demo_adj 77 ''other'') = Some (4, 77)"
    "adj_identity ap_reason (demo_adj 77 ''other'') \<noteq> adj_identity ap_reason (demo_adj 77 ''floor'')"
    by (simp_all add: adj_key_def adj_identity_def demo_adj_def)
  from keyed_adjustment_applied_once [OF s this] s show ?thesis by blast
qed

end
