(* ===== verification/Batch_Intake.thy ===== *)
theory Batch_Intake
  imports Adjustment
begin

text \<open>
  Receiving and editing batches: \<^verbatim>\<open>inventory/services/batch_sequence_service.py\<close>,
  \<^verbatim>\<open>inventory/utils/batch_utils.py\<close>, \<^verbatim>\<open>inventory/serializers/productbatch_serializer.py\<close> and the
  batch and soft-delete mixins of \<^verbatim>\<open>inventory/views/mixins.py\<close>.
\<close>

subsection \<open>Batch numbers\<close>

definition seq_match :: "string \<Rightarrow> int \<Rightarrow> int \<Rightarrow> batch_sequence \<Rightarrow> bool" where
  "seq_match prefix y m r \<longleftrightarrow> bs_prefix r = prefix \<and> bs_year r = y \<and> bs_month r = m"

text \<open>\<^verbatim>\<open>get_or_create\<close> on the locked counter row, incremented and saved.\<close>

definition bump_sequence ::
    "string \<Rightarrow> int \<Rightarrow> int \<Rightarrow> batch_sequence list \<Rightarrow> nat \<times> batch_sequence list" where
  "bump_sequence prefix y m rows =
     (case find (seq_match prefix y m) rows of
        Some r \<Rightarrow> (Suc (bs_last r),
          map (\<lambda>x. if seq_match prefix y m x then x\<lparr>bs_last := Suc (bs_last r)\<rparr> else x) rows)
      | None \<Rightarrow> (1, rows @ [\<lparr>bs_prefix = prefix, bs_year = y, bs_month = m, bs_last = 1\<rparr>]))"

text \<open>
  The retry loop. \<open>race k = Some rows\<close> says that attempt \<open>k\<close> fails with \<^verbatim>\<open>IntegrityError\<close> because
  another transaction has just created the counter row, leaving the table \<open>rows\<close>.
\<close>

function next_sequence_from ::
    "nat \<Rightarrow> (nat \<Rightarrow> batch_sequence list option) \<Rightarrow> string \<Rightarrow> date \<Rightarrow> batch_sequence list \<Rightarrow>
     (nat \<times> batch_sequence list) res" where
  "next_sequence_from attempt race prefix today rows =
     (case race attempt of
        None \<Rightarrow> Inr (bump_sequence prefix (year_of today) (month_of today) rows)
      | Some rows' \<Rightarrow> if attempt \<ge> 2 then Inl IntegrityError
                      else next_sequence_from (Suc attempt) race prefix today rows')"
  by pat_completeness auto
termination
  by (relation "measure (\<lambda>(attempt, _). 2 - attempt)") auto

declare next_sequence_from.simps [simp del]

definition next_sequence ::
    "(nat \<Rightarrow> batch_sequence list option) \<Rightarrow> string \<Rightarrow> date \<Rightarrow> batch_sequence list \<Rightarrow>
     (nat \<times> batch_sequence list) res" where
  "next_sequence race prefix business_date rows = next_sequence_from 0 race prefix business_date rows"

definition two_digits :: "int \<Rightarrow> string" where
  "two_digits n = zfill 2 (str_nat (nat n))"

definition generate_batch_number :: "string \<Rightarrow> nat \<Rightarrow> date \<Rightarrow> string" where
  "generate_batch_number prefix sequence now =
     prefix @ ''-'' @ two_digits (year_of now mod 100) @ two_digits (month_of now) @ ''-'' @
     zfill 3 (str_nat sequence)"

text \<open>A date or datetime value held by a serializer, normalised to a date.\<close>

datatype py_date = PyDate date | PyAware instant | PyNaive int

definition to_date :: "py_date option \<Rightarrow> date option" where
  "to_date v =
     (case v of
        None \<Rightarrow> None
      | Some (PyAware t) \<Rightarrow> Some (local_date t)
      | Some (PyNaive t) \<Rightarrow> Some (t div day_us)
      | Some (PyDate d) \<Rightarrow> Some d)"


subsection \<open>The batch serializer\<close>

text \<open>The validated fields of a request; a missing field is \<open>None\<close>.\<close>

record batch_attrs =
  ba_product :: "nat option"
  ba_quantity :: "dec option"
  ba_unit_price :: "dec option option"
  ba_grade :: "string option option"
  ba_expiration :: "py_date option"
  ba_received :: "py_date option"
  ba_notes :: "string option option"

definition validate_batch ::
    "date \<Rightarrow> string option \<Rightarrow> batch option \<Rightarrow> batch_attrs \<Rightarrow> batch_attrs res" where
  "validate_batch today role inst attrs =
     (let expected = (case inst of None \<Rightarrow> None | Some b \<Rightarrow> pb_unit_price b);
          restricted = (role \<noteq> None \<and> role \<noteq> Some ''admin'' \<and> ba_unit_price attrs \<noteq> None)
      in if restricted \<and> ba_unit_price attrs \<noteq> Some expected
         then Inl (ValidationError ''unit_price'' ''Only an admin can override prices.'')
         else
          let attrs = (if restricted then attrs\<lparr>ba_unit_price := None\<rparr> else attrs)
          in if (case (inst, ba_product attrs) of (Some b, Some p) \<Rightarrow> p \<noteq> pb_product b | _ \<Rightarrow> False)
             then Inl (ValidationError ''product_id'' ''A batch cannot be reassigned to another product.'')
             else
              let received = (case inst of
                    Some b \<Rightarrow> to_date (case ba_received attrs of None \<Rightarrow> Some (PyDate (pb_received b)) | v \<Rightarrow> v)
                  | None \<Rightarrow> (case to_date (ba_received attrs) of None \<Rightarrow> Some today | v \<Rightarrow> v));
                  expiration = (case inst of
                    Some b \<Rightarrow> to_date (case ba_expiration attrs of None \<Rightarrow> Some (PyDate (pb_expiration b)) | v \<Rightarrow> v)
                  | None \<Rightarrow> to_date (ba_expiration attrs))
              in if (case (expiration, received) of (Some e, Some r) \<Rightarrow> e < r | _ \<Rightarrow> False)
                 then Inl (ValidationError ''expiration_date'' ''Expiration date cannot be before date received.'')
                 else if (case received of Some r \<Rightarrow> today < r | None \<Rightarrow> False)
                 then Inl (ValidationError ''date_received'' ''Date received cannot be in the future.'')
                 else Inr attrs)"

text \<open>
  The declared fields: the product is looked up among the active products (for staff, those of
  categories they may see), the quantity is at least one hundredth, both decimals have ten digits.
\<close>

definition product_visible :: "'z inv_store_scheme \<Rightarrow> product \<Rightarrow> bool" where
  "product_visible st p \<longleftrightarrow> pr_active p \<and>
     (case row_get cat_id (st_categories st) (pr_category p) of
        None \<Rightarrow> False | Some c \<Rightarrow> cat_active c \<and> cat_visible c)"

definition batch_product_choices :: "string option \<Rightarrow> 'z inv_store_scheme \<Rightarrow> product list" where
  "batch_product_choices role st =
     filter (\<lambda>p. if role = Some ''staff'' then product_visible st p else pr_active p) (st_products st)"

definition batch_fields_ok :: "string option \<Rightarrow> 'z inv_store_scheme \<Rightarrow> batch_attrs \<Rightarrow> bool" where
  "batch_fields_ok role st attrs \<longleftrightarrow>
     (case ba_product attrs of None \<Rightarrow> False
      | Some p \<Rightarrow> p \<in> pr_id ` set (batch_product_choices role st)) \<and>
     (case ba_quantity attrs of None \<Rightarrow> False | Some q \<Rightarrow> 1 \<le> q \<and> q < 10 ^ 10) \<and>
     (case ba_unit_price attrs of Some (Some p) \<Rightarrow> 0 \<le> p \<and> p < 10 ^ 10 | _ \<Rightarrow> True) \<and>
     ba_expiration attrs \<noteq> None"

text \<open>\<^verbatim>\<open>ProdBatchSerializer.create\<close>: number allocation and insertion in one transaction.\<close>

definition create_batch ::
    "(nat \<Rightarrow> batch_sequence list option) \<Rightarrow> date \<Rightarrow> batch_attrs \<Rightarrow> 'z inv_store_scheme \<Rightarrow>
     (batch \<times> 'z inv_store_scheme) res" where
  "create_batch race today attrs st =
     (case (ba_product attrs, ba_quantity attrs, to_date (ba_expiration attrs)) of
        (Some product, Some quantity, Some expiration) \<Rightarrow>
          rbind (next_sequence race ''PRD'' today (st_sequences st)) (\<lambda>(seq, rows).
            let b = \<lparr>pb_id = new_pk pb_id (st_batches st), pb_product = product,
                     pb_number = generate_batch_number ''PRD'' seq today,
                     pb_grade = (case ba_grade attrs of None \<Rightarrow> None | Some g \<Rightarrow> g),
                     pb_unit_price = (case ba_unit_price attrs of None \<Rightarrow> None | Some v \<Rightarrow> v),
                     pb_initial = quantity, pb_remaining = quantity, pb_expiration = expiration,
                     pb_received = (case to_date (ba_received attrs) of None \<Rightarrow> today | Some d \<Rightarrow> d),
                     pb_status = Available, pb_historical = False,
                     pb_notes = (case ba_notes attrs of None \<Rightarrow> None | Some n \<Rightarrow> n)\<rparr>
            in if pb_number b \<in> pb_number ` set (st_batches st) then Inl IntegrityError
               else Inr (b, st\<lparr>st_batches := row_ins b (st_batches st), st_sequences := rows\<rparr>))
      | _ \<Rightarrow> Inl (ValidationError ''batch'' ''required''))"

text \<open>\<^verbatim>\<open>ProdBatchSerializer.update\<close>: the quantity is dropped and the rest revalidated on the locked row.\<close>

definition update_batch ::
    "date \<Rightarrow> string option \<Rightarrow> nat \<Rightarrow> batch_attrs \<Rightarrow> 'z inv_store_scheme \<Rightarrow>
     (batch \<times> 'z inv_store_scheme) res" where
  "update_batch today role pk attrs st =
     (case get_batch (st_batches st) pk of
        None \<Rightarrow> Inl (DoesNotExist ''ProductBatch'')
      | Some current \<Rightarrow>
          rbind (validate_batch today role (Some current) (attrs\<lparr>ba_quantity := None\<rparr>)) (\<lambda>attrs.
            let b = current\<lparr>
                  pb_grade := (case ba_grade attrs of None \<Rightarrow> pb_grade current | Some g \<Rightarrow> g),
                  pb_unit_price := (case ba_unit_price attrs of None \<Rightarrow> pb_unit_price current | Some v \<Rightarrow> v),
                  pb_expiration := (case to_date (ba_expiration attrs) of None \<Rightarrow> pb_expiration current | Some d \<Rightarrow> d),
                  pb_received := (case to_date (ba_received attrs) of None \<Rightarrow> pb_received current | Some d \<Rightarrow> d),
                  pb_notes := (case ba_notes attrs of None \<Rightarrow> pb_notes current | Some n \<Rightarrow> n)\<rparr>
            in Inr (b, st\<lparr>st_batches := save_batch b (st_batches st)\<rparr>)))"

text \<open>
  The batch view: only an admin writes. \<open>linked\<close> tells whether sales rows protect the batch; its
  adjustments always do.
\<close>

definition batch_view_create ::
    "(nat \<Rightarrow> batch_sequence list option) \<Rightarrow> instant \<Rightarrow> string \<Rightarrow> batch_attrs \<Rightarrow> 'z inv_store_scheme \<Rightarrow>
     (batch \<times> 'z inv_store_scheme) res" where
  "batch_view_create race now role attrs st =
     (if role \<noteq> ''admin'' then Inl (PermissionDenied ''You do not have permission to perform this action.'')
      else if \<not> batch_fields_ok (Some role) st attrs then Inl (ValidationError ''batch'' ''invalid'')
      else rbind (validate_batch (local_date now) (Some role) None attrs) (\<lambda>attrs.
             create_batch race (local_date now) attrs st))"

definition batch_view_destroy ::
    "('z inv_store_scheme \<Rightarrow> nat \<Rightarrow> bool) \<Rightarrow> string \<Rightarrow> nat \<Rightarrow> 'z inv_store_scheme \<Rightarrow> 'z inv_store_scheme res" where
  "batch_view_destroy linked role pk st =
     (if role \<noteq> ''admin'' then Inl (PermissionDenied ''You do not have permission to perform this action.'')
      else case get_batch (st_batches st) pk of
        None \<Rightarrow> Inl (DoesNotExist ''ProductBatch'')
      | Some b \<Rightarrow>
          if 0 < pb_initial b \<or> 0 < pb_remaining b
          then Inl (ValueError ''Received batches must be retained for inventory history. Use a stock adjustment to write off stock.'')
          else if linked st pk \<or> pk \<in> sa_batch ` set (st_adjustments st) then Inl ProtectedError
          else Inr (st\<lparr>st_batches := row_del pb_id pk (st_batches st)\<rparr>))"

text \<open>
  \<^verbatim>\<open>SoftDeleteMixin\<close> for products: an unused product is deleted, one with linked rows is deactivated.
\<close>

datatype deletion = Permanent | Deactivated

definition product_destroy ::
    "('z inv_store_scheme \<Rightarrow> nat \<Rightarrow> bool) \<Rightarrow> nat \<Rightarrow> 'z inv_store_scheme \<Rightarrow> (deletion \<times> 'z inv_store_scheme) res" where
  "product_destroy linked pk st =
     (case row_get pr_id (st_products st) pk of
        None \<Rightarrow> Inl (DoesNotExist ''Product'')
      | Some p \<Rightarrow>
          if linked st pk \<or> pk \<in> pb_product ` set (st_batches st)
          then Inr (Deactivated, st\<lparr>st_products := row_save pr_id (p\<lparr>pr_active := False\<rparr>) (st_products st)\<rparr>)
          else Inr (Permanent, st\<lparr>st_products := row_del pr_id pk (st_products st)\<rparr>))"

definition product_deactivate :: "nat \<Rightarrow> 'z inv_store_scheme \<Rightarrow> 'z inv_store_scheme res" where
  "product_deactivate pk st =
     (case row_get pr_id (st_products st) pk of
        None \<Rightarrow> Inl (DoesNotExist ''Product'')
      | Some p \<Rightarrow> Inr (st\<lparr>st_products := row_save pr_id (p\<lparr>pr_active := False\<rparr>) (st_products st)\<rparr>))"

definition product_reactivate :: "pyval \<Rightarrow> 'z inv_store_scheme \<Rightarrow> 'z inv_store_scheme res" where
  "product_reactivate raw st =
     (case parse_positive_id raw ''id'' of
        Inl _ \<Rightarrow> Inl (DoesNotExist ''Product not found or already active.'')
      | Inr pk \<Rightarrow>
          (case row_get pr_id (st_products st) pk of
             Some p \<Rightarrow> if pr_active p then Inl (DoesNotExist ''Product not found or already active.'')
                       else Inr (st\<lparr>st_products := row_save pr_id (p\<lparr>pr_active := True\<rparr>) (st_products st)\<rparr>)
           | None \<Rightarrow> Inl (DoesNotExist ''Product not found or already active.'')))"


subsection \<open>Batch numbers are unique within a century\<close>

lemma two_digits_length: "0 \<le> n \<Longrightarrow> n < 100 \<Longrightarrow> length (two_digits n) = 2"
proof -
  assume "0 \<le> n" "n < 100"
  then have "nat n < 10 \<or> (10 \<le> nat n \<and> nat n div 10 < 10)" by linarith
  then have "length (str_nat (nat n)) \<le> 2"
    by (auto simp: str_nat.simps [of "nat n"] str_nat.simps [of "nat n div 10"])
  then show ?thesis by (simp add: two_digits_def length_zfill)
qed

lemma two_digits_inj: "0 \<le> m \<Longrightarrow> 0 \<le> n \<Longrightarrow> two_digits m = two_digits n \<Longrightarrow> m = n"
  unfolding two_digits_def by (drule zfill_str_nat_inj) linarith

lemma batch_number_parts:
  assumes "generate_batch_number p s d = generate_batch_number p s' d'"
  shows "year_of d mod 100 = year_of d' mod 100 \<and> month_of d = month_of d' \<and> s = s'"
proof -
  have len: "length (two_digits (year_of x mod 100)) = 2" "length (two_digits (month_of x)) = 2" for x
    using month_of_range [of x] by (auto intro!: two_digits_length)
  from assms have "two_digits (year_of d mod 100) @ two_digits (month_of d) @ ''-'' @ zfill 3 (str_nat s) =
      two_digits (year_of d' mod 100) @ two_digits (month_of d') @ ''-'' @ zfill 3 (str_nat s')"
    by (simp add: generate_batch_number_def)
  then have "two_digits (year_of d mod 100) = two_digits (year_of d' mod 100)"
    "two_digits (month_of d) = two_digits (month_of d')" "zfill 3 (str_nat s) = zfill 3 (str_nat s')"
    using len [of d] len [of d'] by auto
  then show ?thesis
    using month_of_range [of d] month_of_range [of d'] two_digits_inj [of "year_of d mod 100" "year_of d' mod 100"]
      two_digits_inj [of "month_of d" "month_of d'"] zfill_str_nat_inj [of 3 s s'] by simp
qed

text \<open>
  Every stored number was issued for some business date of the century by a counter that has
  reached it.
\<close>

definition seq_last :: "string \<Rightarrow> int \<Rightarrow> int \<Rightarrow> batch_sequence list \<Rightarrow> nat" where
  "seq_last prefix y m rows = (case find (seq_match prefix y m) rows of None \<Rightarrow> 0 | Some r \<Rightarrow> bs_last r)"

definition numbers_issued :: "int \<Rightarrow> 'z inv_store_scheme \<Rightarrow> bool" where
  "numbers_issued century st \<longleftrightarrow>
     (\<forall>b \<in> set (st_batches st). \<exists>d s. pb_number b = generate_batch_number ''PRD'' s d \<and>
        year_of d div 100 = century \<and> s \<le> seq_last ''PRD'' (year_of d) (month_of d) (st_sequences st))"

lemma seq_last_bump:
  "bump_sequence p y m rows = (n, rows') \<Longrightarrow>
     n = Suc (seq_last p y m rows) \<and>
     seq_last q y' m' rows' = (if (q, y', m') = (p, y, m) then n else seq_last q y' m' rows)"
proof -
  assume b: "bump_sequence p y m rows = (n, rows')"
  have upd: "find (seq_match q y' m') (map (\<lambda>x. if seq_match p y m x then x\<lparr>bs_last := k\<rparr> else x) rows) =
      map_option (\<lambda>x. if seq_match p y m x then x\<lparr>bs_last := k\<rparr> else x) (find (seq_match q y' m') rows)" for k
    by (rule find_map_update) (simp add: seq_match_def)
  have same: "find (seq_match q y' m') rows = Some r \<Longrightarrow>
      seq_match p y m r \<longleftrightarrow> (q, y', m') = (p, y, m)" for r
    by (auto simp: find_Some_iff seq_match_def)
  show ?thesis
  proof (cases "find (seq_match p y m) rows")
    case None
    with b show ?thesis
      by (auto simp: bump_sequence_def seq_last_def find_append seq_match_def split: option.splits)
  next
    case (Some r)
    then have n: "n = Suc (bs_last r)"
      and rows': "rows' = map (\<lambda>x. if seq_match p y m x then x\<lparr>bs_last := n\<rparr> else x) rows"
      using b by (auto simp: bump_sequence_def)
    show ?thesis
    proof (cases "find (seq_match q y' m') rows")
      case None
      with Some n show ?thesis by (auto simp: seq_last_def rows' upd)
    next
      case (Some r')
      with \<open>find (seq_match p y m) rows = Some r\<close> n same [OF Some] show ?thesis
        by (auto simp: seq_last_def rows' upd)
    qed
  qed
qed

lemma next_sequence_no_race:
  "next_sequence (\<lambda>_. None) p d rows = Inr (bump_sequence p (year_of d) (month_of d) rows)"
  by (simp add: next_sequence_def next_sequence_from.simps)

text \<open>
  batch numbers never collide. If the stored numbers were issued in the current century, the
  number of a newly received batch differs from every one of them, the batch is inserted rather than
  refused by the unique constraint, and the stored numbers remain issued by the counters.
\<close>

lemma batch_number_fresh:
  assumes "numbers_issued (year_of today div 100) st"
    and "ba_product attrs = Some p" and "ba_quantity attrs = Some q"
    and "to_date (ba_expiration attrs) = Some e"
  shows "\<exists>b st'. create_batch (\<lambda>_. None) today attrs st = Inr (b, st') \<and>
    pb_number b \<notin> pb_number ` set (st_batches st) \<and> b \<in> set (st_batches st') \<and>
    numbers_issued (year_of today div 100) st'"
proof -
  obtain n rows where bump: "bump_sequence ''PRD'' (year_of today) (month_of today) (st_sequences st) = (n, rows)"
    by (cases "bump_sequence ''PRD'' (year_of today) (month_of today) (st_sequences st)")
  note sl = seq_last_bump [OF bump]
  let ?num = "generate_batch_number ''PRD'' n today"
  have fresh: "?num \<notin> pb_number ` set (st_batches st)"
  proof
    assume "?num \<in> pb_number ` set (st_batches st)"
    with assms(1) obtain d s where num: "?num = generate_batch_number ''PRD'' s d"
      and d: "year_of d div 100 = year_of today div 100"
      and s: "s \<le> seq_last ''PRD'' (year_of d) (month_of d) (st_sequences st)"
      unfolding numbers_issued_def by auto
    from batch_number_parts [OF num] have "month_of d = month_of today" "s = n" by auto
    moreover from batch_number_parts [OF num] d have "year_of d = year_of today"
      by (metis div_mult_mod_eq)
    moreover note s
    ultimately show False using sl by simp
  qed
  let ?b = "\<lparr>pb_id = new_pk pb_id (st_batches st), pb_product = p, pb_number = ?num,
      pb_grade = (case ba_grade attrs of None \<Rightarrow> None | Some g \<Rightarrow> g),
      pb_unit_price = (case ba_unit_price attrs of None \<Rightarrow> None | Some v \<Rightarrow> v),
      pb_initial = q, pb_remaining = q, pb_expiration = e,
      pb_received = (case to_date (ba_received attrs) of None \<Rightarrow> today | Some d \<Rightarrow> d),
      pb_status = Available, pb_historical = False,
      pb_notes = (case ba_notes attrs of None \<Rightarrow> None | Some n \<Rightarrow> n)\<rparr>"
  let ?st = "st\<lparr>st_batches := row_ins ?b (st_batches st), st_sequences := rows\<rparr>"
  have "create_batch (\<lambda>_. None) today attrs st = Inr (?b, ?st)"
    using assms(2-4) fresh by (simp add: create_batch_def next_sequence_no_race bump Let_def)
  moreover have "numbers_issued (year_of today div 100) ?st"
    unfolding numbers_issued_def
  proof
    fix b assume "b \<in> set (st_batches ?st)"
    then consider "b = ?b" | "b \<in> set (st_batches st)" by (auto simp: row_ins_def)
    then show "\<exists>d s. pb_number b = generate_batch_number ''PRD'' s d \<and>
        year_of d div 100 = year_of today div 100 \<and>
        s \<le> seq_last ''PRD'' (year_of d) (month_of d) (st_sequences ?st)"
    proof cases
      case 1
      then show ?thesis using sl by (intro exI [of _ today] exI [of _ n]) simp
    next
      case 2
      with assms(1) obtain d s where "pb_number b = generate_batch_number ''PRD'' s d"
        "year_of d div 100 = year_of today div 100"
        "s \<le> seq_last ''PRD'' (year_of d) (month_of d) (st_sequences st)"
        unfolding numbers_issued_def by blast
      moreover have "seq_last ''PRD'' (year_of d) (month_of d) (st_sequences st) \<le>
          seq_last ''PRD'' (year_of d) (month_of d) rows" using sl by simp
      ultimately show ?thesis by (intro exI [of _ d] exI [of _ s]) simp
    qed
  qed
  ultimately show ?thesis using fresh by (auto simp: row_ins_def)
qed


definition demo_attrs :: batch_attrs where
  "demo_attrs = \<lparr>ba_product = Some 1, ba_quantity = Some 2500, ba_unit_price = None, ba_grade = None,
     ba_expiration = Some (PyDate (mk_date 2026 11 20)), ba_received = None, ba_notes = None\<rparr>"

definition empty_stock :: inv_store where
  "empty_stock = demo_store\<lparr>st_batches := []\<rparr>"

lemma batch_number_fresh_witness:
  "\<exists>b st'. create_batch (\<lambda>_. None) (mk_date 2026 11 10) demo_attrs empty_stock = Inr (b, st') \<and>
     numbers_issued (year_of (mk_date 2026 11 10) div 100) st'"
  using batch_number_fresh [of "mk_date 2026 11 10" empty_stock demo_attrs 1 2500 "mk_date 2026 11 20"]
  by (auto simp: demo_attrs_def empty_stock_def numbers_issued_def to_date_def)


subsection \<open>Received batches are consistent\<close>

lemma create_batch_unfold:
  assumes "create_batch race today attrs st = Inr (b, st')"
  shows "pb_id b = new_pk pb_id (st_batches st) \<and> st_batches st' = row_ins b (st_batches st) \<and>
    pb_status b = Available \<and> ba_quantity attrs = Some (pb_initial b) \<and> pb_remaining b = pb_initial b \<and>
    ba_product attrs = Some (pb_product b) \<and> to_date (ba_expiration attrs) = Some (pb_expiration b) \<and>
    pb_received b = (case to_date (ba_received attrs) of None \<Rightarrow> today | Some d \<Rightarrow> d) \<and>
    pb_number b \<notin> pb_number ` set (st_batches st) \<and> st_adjustments st' = st_adjustments st"
  using assms
  by (auto simp: create_batch_def Let_def split: option.splits if_splits)

lemma validate_batch_new:
  assumes "validate_batch today role None attrs = Inr attrs'"
  shows "ba_product attrs' = ba_product attrs" "ba_quantity attrs' = ba_quantity attrs"
    "ba_expiration attrs' = ba_expiration attrs" "ba_received attrs' = ba_received attrs"
    "(case to_date (ba_received attrs) of None \<Rightarrow> today | Some d \<Rightarrow> d) \<le> today"
    "to_date (ba_expiration attrs) = Some e \<Longrightarrow>
       (case to_date (ba_received attrs) of None \<Rightarrow> today | Some d \<Rightarrow> d) \<le> e"
  using assms by (auto simp: validate_batch_def Let_def split: option.splits if_splits)

lemma create_batch_stock_ok:
  assumes "stock_ok (st_batches st)" and "create_batch race today attrs st = Inr (b, st')"
    and "ba_quantity attrs = Some q" and "0 < q"
  shows "stock_ok (st_batches st')"
  using create_batch_unfold [OF assms(2)] assms
  by (auto intro!: stock_ok_ins simp: batch_ok_def dest!: new_pk_greater [where key = pb_id])

text \<open>
  receiving stock through the API. A batch is accepted only from an admin, for an active product,
  with a positive quantity, not dated in the future and not expiring before its receipt; it starts
  with its whole quantity available, under a new key and a new number, and the stock table stays
  consistent.
\<close>

lemma batch_received_consistently:
  assumes "stock_ok (st_batches st)" and "batch_view_create race now role attrs st = Inr (b, st')"
  shows "role = ''admin'' \<and> (\<exists>p \<in> set (st_products st). pr_active p \<and> pr_id p = pb_product b) \<and>
    0 < pb_initial b \<and> pb_remaining b = pb_initial b \<and> pb_status b = Available \<and>
    pb_received b \<le> local_date now \<and> pb_received b \<le> pb_expiration b \<and>
    pb_number b \<notin> pb_number ` set (st_batches st) \<and>
    st_batches st' = st_batches st @ [b] \<and> stock_ok (st_batches st')"
proof -
  from assms(2) obtain attrs' where role: "role = ''admin''" and f: "batch_fields_ok (Some role) st attrs"
    and v: "validate_batch (local_date now) (Some role) None attrs = Inr attrs'"
    and c: "create_batch race (local_date now) attrs' st = Inr (b, st')"
    by (auto simp: batch_view_create_def split: if_splits)
  note u = create_batch_unfold [OF c] and w = validate_batch_new [OF v]
  have q: "0 < pb_initial b" and p: "pb_product b \<in> pr_id ` set (batch_product_choices (Some role) st)"
    using f u w by (auto simp: batch_fields_ok_def split: option.splits)
  from p role have "\<exists>p \<in> set (st_products st). pr_active p \<and> pr_id p = pb_product b"
    by (auto simp: batch_product_choices_def)
  moreover have "pb_received b \<le> local_date now" using u w by simp
  moreover have "pb_received b \<le> pb_expiration b" using u w(3,4,6) by simp
  moreover have "stock_ok (st_batches st')"
    using create_batch_stock_ok [OF assms(1) c, of "pb_initial b"] u q by simp
  ultimately show ?thesis using role u q by (simp add: row_ins_def)
qed

lemma batch_received_consistently_witness:
  "\<exists>b st'. batch_view_create (\<lambda>_. None) (at_hour (mk_date 2026 11 10) 9) ''admin'' demo_attrs empty_stock =
     Inr (b, st') \<and> stock_ok (st_batches st') \<and> pb_received b \<le> pb_expiration b"
proof -
  have "\<exists>b st'. batch_view_create (\<lambda>_. None) (at_hour (mk_date 2026 11 10) 9) ''admin'' demo_attrs empty_stock =
     Inr (b, st')"
    by (simp add: batch_view_create_def batch_fields_ok_def demo_attrs_def empty_stock_def demo_store_def
        batch_product_choices_def validate_batch_def to_date_def mk_date_def days_before_year_def
        days_before_month_def create_batch_def next_sequence_no_race bump_sequence_def Let_def)
  then obtain b st' where v: "batch_view_create (\<lambda>_. None) (at_hour (mk_date 2026 11 10) 9) ''admin''
      demo_attrs empty_stock = Inr (b, st')" by blast
  have "stock_ok (st_batches empty_stock)" by (simp add: empty_stock_def stock_ok_def keys_ok_def)
  from batch_received_consistently [OF this v] v show ?thesis by blast
qed

lemma update_batch_unfold:
  assumes "update_batch today role pk attrs st = Inr (b, st')"
  obtains old where "get_batch (st_batches st) pk = Some old"
    "pb_id b = pb_id old" "pb_product b = pb_product old" "pb_number b = pb_number old"
    "pb_initial b = pb_initial old" "pb_remaining b = pb_remaining old" "pb_status b = pb_status old"
    "st' = st\<lparr>st_batches := save_batch b (st_batches st)\<rparr>"
  using assms by (auto simp: update_batch_def Let_def split: option.splits)

lemma update_batch_stock_ok:
  assumes "stock_ok (st_batches st)" and "update_batch today role pk attrs st = Inr (b, st')"
  shows "stock_ok (st_batches st')"
  using assms(2)
proof (cases rule: update_batch_unfold)
  case (1 old)
  with stock_ok_get [OF assms(1)] have "batch_ok b" by (auto simp: batch_ok_def)
  with 1 assms(1) show ?thesis by (simp add: stock_ok_save)
qed

lemma batch_view_destroy_keeps_received:
  "get_batch (st_batches st) pk = Some b \<Longrightarrow> 0 < pb_initial b \<Longrightarrow>
   \<exists>e. batch_view_destroy linked role pk st = Inl e"
  by (auto simp: batch_view_destroy_def)

end
