(* ===== verification/Stock_Check.thy ===== *)
theory Stock_Check
  imports Batch_Intake
begin

text \<open>
  The read side of the inventory: \<^verbatim>\<open>inventory/services/eligibility.py\<close>, \<^verbatim>\<open>stock_check_service.py\<close>, the
  threshold and product serializers, the querysets of the inventory views, and the stock-adjustment
  view that drives \<^verbatim>\<open>Adjustment\<close>. Rows keep their table order where the code orders by name only.
\<close>

subsection \<open>Eligibility and expiry boundaries\<close>

definition expiry_cutoff :: "date \<Rightarrow> int \<Rightarrow> date" where
  "expiry_cutoff today days = (if date_max - today \<le> days then date_max else today + days)"

definition expired_stock_filter :: "date \<Rightarrow> batch \<Rightarrow> bool" where
  "expired_stock_filter today b \<longleftrightarrow> 0 < pb_remaining b \<and> pb_received b \<le> today \<and>
     (pb_status b = Expired \<or> (pb_status b = Available \<and> pb_expiration b < today))"

definition available_stock :: "date \<Rightarrow> nat \<Rightarrow> batch list \<Rightarrow> dec" where
  "available_stock today product t =
     (\<Sum>b\<leftarrow>filter (\<lambda>b. pb_product b = product \<and> pb_status b = Available \<and>
                      today \<le> pb_expiration b \<and> pb_received b \<le> today) t. pb_remaining b)"

datatype expiry_status = Critical | NearExpiry | ExpiredStock

definition expiry_status_of :: "date \<Rightarrow> batch \<Rightarrow> expiry_status" where
  "expiry_status_of critical_cutoff b = (if pb_expiration b \<le> critical_cutoff then Critical else NearExpiry)"

definition category_visible :: "'z inv_store_scheme \<Rightarrow> nat \<Rightarrow> bool" where
  "category_visible st c = (case row_get cat_id (st_categories st) c of
      None \<Rightarrow> False | Some cat \<Rightarrow> cat_active cat \<and> cat_visible cat)"

definition batch_visible :: "'z inv_store_scheme \<Rightarrow> batch \<Rightarrow> bool" where
  "batch_visible st b = (case row_get pr_id (st_products st) (pb_product b) of
      None \<Rightarrow> False | Some p \<Rightarrow> product_visible st p)"

definition check_product_stock ::
    "date \<Rightarrow> bool \<Rightarrow> 'z inv_store_scheme \<Rightarrow> (product \<times> dec) list \<times> 'z inv_store_scheme" where
  "check_product_stock today visible_to_staff st =
     (let products = filter pr_active (st_products st);
          products = (if visible_to_staff then filter (\<lambda>p. category_visible st (pr_category p)) products
                      else products);
          (config, st') = get_config st
      in (filter (\<lambda>(p, total). total \<le> 100 * fc_low config)
            (map (\<lambda>p. (p, available_stock today (pr_id p) (st_batches st))) products), st'))"

definition check_product_expiration ::
    "date \<Rightarrow> bool \<Rightarrow> 'z inv_store_scheme \<Rightarrow> (batch \<times> expiry_status) list \<times> 'z inv_store_scheme" where
  "check_product_expiration now visible_to_staff st =
     (let (config, st') = get_config st;
          near = expiry_cutoff now (fc_near config);
          critical = expiry_cutoff now (fc_critical config);
          batches = filter (\<lambda>b. pb_status b = Available \<and> now \<le> pb_expiration b \<and>
                       pb_expiration b \<le> near \<and> pb_received b \<le> now) (st_batches st);
          batches = (if visible_to_staff then filter (batch_visible st) batches else batches)
      in (map (\<lambda>b. (b, expiry_status_of critical b)) (sort_key pb_expiration batches), st'))"

definition check_expired_products :: "date \<Rightarrow> bool \<Rightarrow> 'z inv_store_scheme \<Rightarrow> (batch \<times> expiry_status) list" where
  "check_expired_products today visible_to_staff st =
     (let batches = filter (\<lambda>b. expired_stock_filter today b \<and> \<not> pb_historical b) (st_batches st);
          batches = (if visible_to_staff then filter (batch_visible st) batches else batches)
      in map (\<lambda>b. (b, ExpiredStock)) (sort_key (\<lambda>b. (pb_expiration b, pb_id b)) batches))"


subsection \<open>Thresholds and product identity\<close>

text \<open>\<^verbatim>\<open>FEFOConfSerializer.validate\<close> on the values after defaulting to the instance's.\<close>

record fefo_attrs =
  fa_near :: "int option"
  fa_low :: "int option"
  fa_critical :: "int option"

definition merge_fefo :: "fefo_attrs \<Rightarrow> fefo_conf \<Rightarrow> fefo_conf" where
  "merge_fefo attrs c =
     \<lparr>fc_near = (case fa_near attrs of None \<Rightarrow> fc_near c | Some n \<Rightarrow> n),
      fc_low = (case fa_low attrs of None \<Rightarrow> fc_low c | Some n \<Rightarrow> n),
      fc_critical = (case fa_critical attrs of None \<Rightarrow> fc_critical c | Some n \<Rightarrow> n)\<rparr>"

definition validate_fefo :: "date \<Rightarrow> fefo_conf \<Rightarrow> fefo_attrs \<Rightarrow> (string list, fefo_conf) sum" where
  "validate_fefo today inst attrs =
     (let c = merge_fefo attrs inst; max_days = date_max - today;
          errors =
            (if fc_near c < 0 \<or> max_days < fc_near c then [''near_expiry_threshold''] else []) @
            (if fc_critical c < 0 \<or> max_days < fc_critical c \<or> fc_near c < fc_critical c
             then [''critical_expiry_threshold''] else []) @
            (if fc_low c < 0 then [''low_stock_threshold''] else [])
      in if errors \<noteq> [] then Inl errors else Inr c)"

definition update_fefo ::
    "date \<Rightarrow> fefo_attrs \<Rightarrow> 'z inv_store_scheme \<Rightarrow> (string list, 'z inv_store_scheme) sum" where
  "update_fefo today attrs st =
     (let (inst, st') = get_config st
      in case validate_fefo today inst attrs of
           Inl errors \<Rightarrow> Inl errors
         | Inr c \<Rightarrow> Inr (fefo_save c st'))"

text \<open>\<^verbatim>\<open>product_name_key\<close>: white space and parentheses are dropped, case is ignored.\<close>

definition product_name_key :: "string \<Rightarrow> string" where
  "product_name_key s = casefold (filter (\<lambda>c. \<not> is_space c \<and> c \<noteq> CHR ''('' \<and> c \<noteq> CHR '')'') s)"

definition variant_key :: "string option \<Rightarrow> string" where
  "variant_key v = casefold (strip (case v of None \<Rightarrow> [] | Some s \<Rightarrow> s))"

definition product_key :: "product \<Rightarrow> string \<times> string \<times> string" where
  "product_key p = (product_name_key (pr_name p), casefold (strip (pr_unit p)), variant_key (pr_variant p))"

record product_attrs =
  pa_price_given :: bool
  pa_name :: "string option"
  pa_unit :: "string option"
  pa_variant :: "string option option"

definition validate_product ::
    "product option \<Rightarrow> product_attrs \<Rightarrow> 'z inv_store_scheme \<Rightarrow> product_attrs res" where
  "validate_product inst attrs st =
     (if pa_price_given attrs
      then Inl (ValidationError ''unit_price'' ''Enter the selling price on each sale or order item instead.'')
      else
       let name = (case pa_name attrs of Some n \<Rightarrow> n | None \<Rightarrow> (case inst of Some p \<Rightarrow> pr_name p | None \<Rightarrow> []));
           unit = (case pa_unit attrs of Some u \<Rightarrow> u | None \<Rightarrow> (case inst of Some p \<Rightarrow> pr_unit p | None \<Rightarrow> []));
           variant = (case pa_variant attrs of Some v \<Rightarrow> v | None \<Rightarrow> (case inst of Some p \<Rightarrow> pr_variant p | None \<Rightarrow> None));
           key = (product_name_key name, casefold (strip unit), variant_key variant)
       in if \<exists>p \<in> set (st_products st). (case inst of Some i \<Rightarrow> pr_id p \<noteq> pr_id i | None \<Rightarrow> True) \<and>
               product_key p = key
          then Inl (ValidationError ''name'' ''This product already exists.'')
          else Inr attrs)"

text \<open>The three ways \<^verbatim>\<open>ProductSerializer.get_total_stock\<close> computes the same total.\<close>

definition get_total_stock :: "date \<Rightarrow> dec option \<Rightarrow> batch list option \<Rightarrow> nat \<Rightarrow> 'z inv_store_scheme \<Rightarrow> dec" where
  "get_total_stock today annotated prefetched product st =
     (case annotated of
        Some s \<Rightarrow> s
      | None \<Rightarrow>
          (case prefetched of
             Some bs \<Rightarrow> (\<Sum>b\<leftarrow>bs. pb_remaining b)
           | None \<Rightarrow> available_stock today product (st_batches st)))"


subsection \<open>Querysets of the views\<close>

text \<open>\<open>available_batches_for_total\<close>, the prefetched batches that \<^verbatim>\<open>ProductViewSet\<close> attaches to every product it lists.\<close>

definition available_batches_for_total :: "date \<Rightarrow> 'z inv_store_scheme \<Rightarrow> product \<Rightarrow> batch list" where
  "available_batches_for_total today st p =
     filter (\<lambda>b. pb_product b = pr_id p \<and> pb_status b = Available \<and> today \<le> pb_expiration b \<and> pb_received b \<le> today)
       (st_batches st)"

definition product_queryset ::
    "date \<Rightarrow> string \<Rightarrow> bool \<Rightarrow> bool \<Rightarrow> 'z inv_store_scheme \<Rightarrow> (product \<times> batch list) list" where
  "product_queryset today role listing include_inactive st =
     (let qs = (if listing \<and> \<not> include_inactive then filter pr_active (st_products st) else st_products st);
          qs = map (\<lambda>p. (p, available_batches_for_total today st p)) qs
      in if role = ''staff''
         then filter (\<lambda>(p, batches). pr_active p \<and> category_visible st (pr_category p)) qs else qs)"

definition batch_queryset ::
    "string \<Rightarrow> bool \<Rightarrow> bool \<Rightarrow> 'z inv_store_scheme \<Rightarrow> batch list" where
  "batch_queryset role listing include_historical st =
     (let qs = (if listing \<and> \<not> include_historical then filter (\<lambda>b. \<not> pb_historical b) (st_batches st)
                else st_batches st)
      in if role = ''staff'' then filter (batch_visible st) qs else qs)"

definition category_queryset ::
    "string \<Rightarrow> bool \<Rightarrow> bool \<Rightarrow> 'z inv_store_scheme \<Rightarrow> category list" where
  "category_queryset role listing include_inactive st =
     (let qs = (if listing \<and> \<not> include_inactive then filter cat_active (st_categories st) else st_categories st)
      in if role = ''staff'' then filter (\<lambda>c. cat_active c \<and> cat_visible c) qs else qs)"

definition adjustment_queryset ::
    "string \<Rightarrow> nat \<Rightarrow> string \<Rightarrow> date option \<Rightarrow> date option \<Rightarrow> 'z inv_store_scheme \<Rightarrow> stock_adjustment list res" where
  "adjustment_queryset role user atype start_date end_date st =
     (let qs = rev (sort_key (\<lambda>a. (sa_created a, sa_id a)) (st_adjustments st));
          qs = (if role = ''staff''
                then filter (\<lambda>a. sa_by a = user \<and>
                       (case get_batch (st_batches st) (sa_batch a) of
                          None \<Rightarrow> False | Some b \<Rightarrow> batch_visible st b)) qs
                else qs)
      in if atype \<noteq> [] \<and> adjustment_type_of atype = None
         then Inl (ValidationError ''adjustment_type'' ''Invalid adjustment_type.'')
         else
          let qs = (if atype = [] then qs else filter (\<lambda>a. Some (sa_type a) = adjustment_type_of atype) qs)
          in if (case (start_date, end_date) of (Some s, Some e) \<Rightarrow> e < s | _ \<Rightarrow> False)
             then Inl (ValidationError ''start_date'' ''start_date cannot be after end_date.'')
             else
              let qs = (case start_date of None \<Rightarrow> qs | Some s \<Rightarrow> filter (\<lambda>a. s \<le> local_date (sa_created a)) qs);
                  qs = (case end_date of None \<Rightarrow> qs | Some e \<Rightarrow> filter (\<lambda>a. local_date (sa_created a) \<le> e) qs)
              in Inr qs)"

text \<open>\<^verbatim>\<open>StockAdjustmentViewSet.create\<close>, check by check.\<close>

definition adjustment_view_create ::
    "(string \<Rightarrow> nat option) \<Rightarrow> dec_field \<Rightarrow> (adjustment_payload \<Rightarrow> string) \<Rightarrow>
     (stock_adjustment \<Rightarrow> 'z inv_store_scheme \<Rightarrow> string) \<Rightarrow> instant \<Rightarrow> string \<Rightarrow> nat \<Rightarrow>
     (string \<times> pyval) list \<Rightarrow> (string \<times> pyval) list \<Rightarrow> 'z inv_store_scheme \<Rightarrow>
     string http \<times> 'z inv_store_scheme" where
  "adjustment_view_create parse_uuid rv fingerprint_of render now role user headers data st =
     (case adjustment_request_id parse_uuid data headers of
        Inl e \<Rightarrow> (Inl (drf_status e, e), st)
      | Inr key \<Rightarrow>
        if dict_get data ''ingredient_batch_id'' \<noteq> PNone
        then (Inl (400, ValueError ''Ingredient inventory has been removed. Use product_batch_id.''), st)
        else
        (case rbind (parse_positive_id (dict_get data ''product_batch_id'') ''product_batch_id'') (\<lambda>pk.
                rbind (parse_optional_text (dict_get data ''reason'') ''reason'') (\<lambda>reason.
                  Inr (pk, reason))) of
           Inl e \<Rightarrow> (Inl (400, e), st)
         | Inr (pk, reason) \<Rightarrow>
           (case (case dict_get data ''adjustment_type'' of
                    PStr s \<Rightarrow> if adjustment_type_of s = None then None else Some s | _ \<Rightarrow> None) of
              None \<Rightarrow> (Inl (400, ValueError ''Invalid adjustment_type.''), st)
            | Some atype \<Rightarrow>
              if dict_get data ''unit_cost'' = PNone
              then (Inl (400, ValueError ''unit_cost is required.''), st)
              else
              (case rbind (parse_decimal rv (dict_get data ''quantity'') ''quantity'' None 10) (\<lambda>q.
                      rbind (parse_decimal rv (dict_get data ''unit_cost'') ''unit_cost'' (Some 0) 10) (\<lambda>c.
                        Inr (q, c))) of
                 Inl e \<Rightarrow> (Inl (400, e), st)
               | Inr (quantity, unit_cost) \<Rightarrow>
                 (case get_batch (st_batches st) pk of
                    None \<Rightarrow> (Inl (400, ValueError ''product_batch_id does not exist.''), st)
                  | Some b \<Rightarrow>
                    if role = ''staff'' \<and> \<not> batch_visible st b
                    then (Inl (400, ValueError ''product_batch_id does not exist.''), st)
                    else
                    (case submit_stock_adjustment fingerprint_of render now key atype quantity unit_cost
                            user reason pk st of
                       Inl e \<Rightarrow> (Inl (value_error_status e, e), st)
                     | Inr ((response, created), st') \<Rightarrow>
                         (Inr (if created then 201 else 200, response), st')))))))"


subsection \<open>Properties\<close>

text \<open>
  C32: the stock total the API reports for a product is the quantity a sale can take, whichever of its three
  ways computes it. For every product of the product list, with the batches prefetched for it, and for every
  product of the low-stock list, with its annotated total, the serializer shows what it would
  count in the table, and a deduction of \<open>q\<close> from that product on that day succeeds exactly when
  \<open>0 < q\<close> and \<open>q\<close> is no more than the total shown.
\<close>

theorem reported_stock_is_sellable:
  "(\<forall>(p, batches)\<in>set (product_queryset today role listing include_inactive st).
      let total = get_total_stock today None (Some batches) (pr_id p) st
      in total = get_total_stock today None None (pr_id p) st \<and>
         ((\<exists>r. deduct_product_batch today (pr_id p) q st = Inr r) \<longleftrightarrow> 0 < q \<and> q \<le> total)) \<and>
   (\<forall>(p, remaining)\<in>set (fst (check_product_stock today staff st)).
      let total = get_total_stock today (Some remaining) None (pr_id p) st
      in total = get_total_stock today None None (pr_id p) st \<and>
         ((\<exists>r. deduct_product_batch today (pr_id p) q st = Inr r) \<longleftrightarrow> 0 < q \<and> q \<le> total))"
proof -
  have sold: "available_stock today k (st_batches st) = sellable today k (st_batches st)" for k
    by (simp add: available_stock_def sellable_def fefo_eligible_def [abs_def])
  have ok: "(\<exists>r. deduct_product_batch today k q st = Inr r) \<longleftrightarrow> 0 < q \<and> q \<le> available_stock today k (st_batches st)" for k
    unfolding sold by (auto simp: deduct_product_batch_def Let_def split: prod.splits)
  have listed: "batches = available_batches_for_total today st p"
    if "(p, batches) \<in> set (product_queryset today role listing include_inactive st)" for p batches
    using that by (auto simp: product_queryset_def Let_def split: if_splits)
  have low: "remaining = available_stock today (pr_id p) (st_batches st)"
    if "(p, remaining) \<in> set (fst (check_product_stock today staff st))" for p remaining
    using that by (auto simp: check_product_stock_def Let_def split: prod.splits if_splits)
  have pre: "(\<Sum>b\<leftarrow>available_batches_for_total today st p. pb_remaining b) = available_stock today (pr_id p) (st_batches st)" for p
    by (simp add: available_batches_for_total_def available_stock_def)
  have "let total = get_total_stock today None (Some batches) (pr_id p) st
      in total = get_total_stock today None None (pr_id p) st \<and>
         ((\<exists>r. deduct_product_batch today (pr_id p) q st = Inr r) \<longleftrightarrow> 0 < q \<and> q \<le> total)"
    if "(p, batches) \<in> set (product_queryset today role listing include_inactive st)" for p batches
    using ok[of "pr_id p"] by (simp add: listed[OF that] get_total_stock_def pre)
  moreover have "let total = get_total_stock today (Some remaining) None (pr_id p) st
      in total = get_total_stock today None None (pr_id p) st \<and>
         ((\<exists>r. deduct_product_batch today (pr_id p) q st = Inr r) \<longleftrightarrow> 0 < q \<and> q \<le> total)"
    if "(p, remaining) \<in> set (fst (check_product_stock today staff st))" for p remaining
    using ok[of "pr_id p"] by (simp add: low[OF that] get_total_stock_def)
  ultimately show ?thesis by blast
qed

theorem reported_stock_is_sellable_witness:
  "\<exists>p batches. product_queryset 700010 ''admin'' True False demo_store = [(p, batches)] \<and>
     get_total_stock 700010 None (Some batches) (pr_id p) demo_store = get_total_stock 700010 None None (pr_id p) demo_store \<and>
     (\<exists>r. deduct_product_batch 700010 (pr_id p) 100 demo_store = Inr r)"
proof -
  define p where "p = hd (st_products demo_store)"
  define batches where "batches = available_batches_for_total 700010 demo_store p"
  have q: "product_queryset 700010 ''admin'' True False demo_store = [(p, batches)]"
    by (simp add: product_queryset_def batches_def p_def demo_store_def)
  have "100 \<le> get_total_stock 700010 None (Some batches) (pr_id p) demo_store"
    by (simp add: batches_def p_def get_total_stock_def available_batches_for_total_def demo_store_def demo_batch_def)
  moreover have "let total = get_total_stock 700010 None (Some batches) (pr_id p) demo_store
      in total = get_total_stock 700010 None None (pr_id p) demo_store \<and>
         ((\<exists>r. deduct_product_batch 700010 (pr_id p) 100 demo_store = Inr r) \<longleftrightarrow> 0 < (100 :: dec) \<and> 100 \<le> total)"
    using conjunct1[OF reported_stock_is_sellable[of 700010 "''admin''" True False demo_store 100]] unfolding q by simp
  ultimately show ?thesis using q unfolding Let_def by fastforce
qed

lemma validate_fefo_sound:
  "validate_fefo today inst attrs = Inr c \<Longrightarrow>
     0 \<le> fc_critical c \<and> fc_critical c \<le> fc_near c \<and> fc_near c \<le> date_max - today \<and> 0 \<le> fc_low c"
  by (auto simp: validate_fefo_def Let_def split: if_splits)

lemma expiry_cutoff_bounds:
  "0 \<le> days \<Longrightarrow> today \<le> date_max \<Longrightarrow> today \<le> expiry_cutoff today days \<and> expiry_cutoff today days \<le> date_max"
  by (simp add: expiry_cutoff_def)

lemma expiry_cutoff_mono: "a \<le> b \<Longrightarrow> today \<le> date_max \<Longrightarrow> expiry_cutoff today a \<le> expiry_cutoff today b"
  by (simp add: expiry_cutoff_def)

text \<open>
  the alert lists partition the stock by date. A batch in the expiring list is available, not yet
  expired and within the near-expiry window (and therefore sellable); a batch in the expired list is
  never sellable; and, with the thresholds a settings update accepts, every batch inside the
  critical window that is listed is reported critical.
\<close>

lemma expiry_alerts_partition:
  assumes "update_fefo today attrs st0 = Inr st"
    and "check_product_expiration today vis st = (alerts, st')"
  shows "((b, s) \<in> set alerts \<longrightarrow>
      b \<in> set (st_batches st) \<and> fefo_eligible today (pb_product b) b \<and>
      (s = Critical \<longleftrightarrow> pb_expiration b \<le> expiry_cutoff today (fc_critical (fst (get_config st))))) \<and>
    ((b, ExpiredStock) \<in> set (check_expired_products today vis' st) \<longrightarrow>
      \<not> fefo_eligible today p b \<and> (b, s) \<notin> set alerts) \<and>
    (b \<in> set (st_batches st) \<and> fefo_eligible today (pb_product b) b \<and> \<not> vis \<and>
      pb_expiration b \<le> expiry_cutoff today (fc_critical (fst (get_config st))) \<longrightarrow>
      (b, Critical) \<in> set alerts)"
proof -
  obtain c where c: "st_fefo st = Some c" "validate_fefo today (fst (get_config st0)) attrs = Inr c"
    using assms(1) by (auto simp: update_fefo_def fefo_save_def split: sum.splits prod.splits)
  have cfg: "get_config st = (c, st)" using c by (simp add: get_config_def)
  have win: "expiry_cutoff today (fc_critical c) \<le> expiry_cutoff today (fc_near c)"
    using validate_fefo_sound [OF c(2)] by (intro expiry_cutoff_mono) auto
  have alerts: "alerts = map (\<lambda>b. (b, expiry_status_of (expiry_cutoff today (fc_critical c)) b))
      (sort_key pb_expiration (filter (\<lambda>b. pb_status b = Available \<and>
        today \<le> pb_expiration b \<and> pb_expiration b \<le> expiry_cutoff today (fc_near c) \<and>
        pb_received b \<le> today \<and> (vis \<longrightarrow> batch_visible st b)) (st_batches st)))"
    using assms(2) by (cases vis) (auto simp: check_product_expiration_def cfg Let_def)
  show ?thesis
    using win
    by (auto simp: alerts cfg expiry_status_of_def fefo_eligible_def check_expired_products_def
        expired_stock_filter_def Let_def split: if_splits)
qed

lemma expiry_alerts_partition_witness:
  "\<exists>st alerts st'. update_fefo 700010 \<lparr>fa_near = Some 14, fa_low = None, fa_critical = Some 10\<rparr> demo_store = Inr st \<and>
     check_product_expiration 700010 False st = (alerts, st') \<and> (demo_batch 2 300 700020, Critical) \<in> set alerts"
proof -
  let ?a = "\<lparr>fa_near = Some 14, fa_low = None, fa_critical = Some 10\<rparr>"
  let ?c = "\<lparr>fc_near = 14, fc_low = 20, fc_critical = 10\<rparr> :: fefo_conf"
  let ?st = "demo_store\<lparr>st_fefo := Some ?c\<rparr>"
  have u: "update_fefo 700010 ?a demo_store = Inr ?st"
    by (simp add: update_fefo_def get_config_def demo_store_def fefo_default_def validate_fefo_def
        merge_fefo_def date_max_def fefo_save_def)
  obtain alerts st' where a: "check_product_expiration 700010 False ?st = (alerts, st')"
    by (cases "check_product_expiration 700010 False ?st")
  from expiry_alerts_partition [OF u a, of "demo_batch 2 300 700020"]
  have "(demo_batch 2 300 700020, Critical) \<in> set alerts"
    by (simp add: demo_store_def demo_batch_def fefo_eligible_def get_config_def expiry_cutoff_def date_max_def)
  with u a show ?thesis by blast
qed

end
