(* ===== verification/Sales_Models.thy ===== *)
theory Sales_Models
  imports Stock_Check
begin

text \<open>
  The tables of \<^verbatim>\<open>sales/models\<close> as records, added to the inventory store. Amounts are hundredths,
  timestamps are instants, and a nullable column is an option.
\<close>

record customer =
  cu_id :: nat
  cu_name :: string
  cu_contact :: "string option"
  cu_email :: "string option"
  cu_address :: "string option"
  cu_active :: bool
  cu_created_by :: nat

datatype pay_method = Cash | Online | MethodUnknown
datatype pay_status = Pending | Paid | PayUnknown
datatype invoice_source = NoSource | Automatic | Manual

record txn =
  tx_id :: nat
  tx_handled_by :: nat
  tx_customer :: "nat option"
  tx_subtotal :: dec
  tx_total :: dec
  tx_tendered :: "dec option"
  tx_change :: "dec option"
  tx_method :: pay_method
  tx_pay_status :: pay_status
  tx_pay_at :: "instant option"
  tx_pay_by :: "nat option"
  tx_voided :: bool
  tx_voided_at :: "instant option"
  tx_voided_by :: "nat option"
  tx_void_reason :: string
  tx_source_ref :: "string option"
  tx_invoice :: "string option"
  tx_invoice_year :: "int option"
  tx_invoice_source :: invoice_source
  tx_customer_label :: string
  tx_segment :: string
  tx_note :: string
  tx_created :: instant
  tx_encoded_at :: "instant option"
  tx_request :: "nat option"
  tx_hash :: string

record titem =
  ti_id :: nat
  ti_txn :: nat
  ti_batch :: nat
  ti_line :: "nat option"
  ti_qty :: dec
  ti_price :: dec
  ti_subtotal :: "dec option"
  ti_total :: "dec option"
  ti_label :: string
  ti_product_snap :: "nat option"
  ti_name_snap :: "string option"
  ti_variant_snap :: "string option"
  ti_cat_snap :: "nat option"
  ti_catname_snap :: "string option"

datatype order_status = Fulfilled | Cancelled

record order =
  or_id :: nat
  or_customer :: nat
  or_by :: nat
  or_status :: order_status
  or_warning :: "string list"
  or_txn :: "nat option"
  or_created :: instant

record order_item =
  oi_id :: nat
  oi_order :: nat
  oi_product :: nat
  oi_qty :: dec
  oi_price :: dec
  oi_subtotal :: dec
  oi_total :: "dec option"

record stock_return =
  sr_item :: nat
  sr_qty :: dec
  sr_created :: instant

record sale_submission =
  su_user :: nat
  su_request :: nat
  su_fingerprint :: string
  su_endpoint :: string
  su_txn :: nat
  su_order :: "nat option"

record invoice_seq =
  iq_year :: int
  iq_last :: int

record sales_store = inv_store +
  ss_customers :: "customer list"
  ss_txns :: "txn list"
  ss_items :: "titem list"
  ss_orders :: "order list"
  ss_order_items :: "order_item list"
  ss_returns :: "stock_return list"
  ss_submissions :: "sale_submission list"
  ss_invoice_seqs :: "invoice_seq list"

record account =
  ac_id :: nat
  ac_role :: string

abbreviation get_txn :: "txn list \<Rightarrow> nat \<Rightarrow> txn option" where
  "get_txn \<equiv> row_get tx_id"

abbreviation save_txn :: "txn \<Rightarrow> txn list \<Rightarrow> txn list" where
  "save_txn \<equiv> row_save tx_id"

interpretation txn_rows: row_table tx_id "row_get tx_id" "row_save tx_id" row_ins "\<lambda>t. t" "keys_ok tx_id"
  by (rule row_table_list)

interpretation item_rows: row_table ti_id "row_get ti_id" "row_save ti_id" row_ins "\<lambda>t. t" "keys_ok ti_id"
  by (rule row_table_list)

interpretation order_rows: row_table or_id "row_get or_id" "row_save or_id" row_ins "\<lambda>t. t" "keys_ok or_id"
  by (rule row_table_list)

interpretation customer_rows: row_table cu_id "row_get cu_id" "row_save cu_id" row_ins "\<lambda>t. t" "keys_ok cu_id"
  by (rule row_table_list)

definition method_of :: "string \<Rightarrow> pay_method option" where
  "method_of s = (if s = ''cash'' then Some Cash else if s = ''online'' then Some Online else None)"

definition pay_status_of :: "string \<Rightarrow> pay_status option" where
  "pay_status_of s = (if s = ''pending'' then Some Pending else if s = ''paid'' then Some Paid else None)"

definition txn_items :: "nat \<Rightarrow> sales_store \<Rightarrow> titem list" where
  "txn_items t st = filter (\<lambda>i. ti_txn i = t) (ss_items st)"

text \<open>The sample stock with empty sales tables.\<close>

definition demo_sales :: sales_store where
  "demo_sales = \<lparr>st_categories = st_categories demo_store, st_products = st_products demo_store,
     st_batches = st_batches demo_store, st_sequences = [], st_fefo = None, st_adjustments = [],
     st_adj_submissions = [], ss_customers = [], ss_txns = [], ss_items = [], ss_orders = [],
     ss_order_items = [], ss_returns = [], ss_submissions = [], ss_invoice_seqs = []\<rparr>"

end
