(* ===== verification/Pricing.thy ===== *)
theory Pricing
  imports Sales_Models
begin

text \<open>
  \<^verbatim>\<open>sales/services/item_pricing.py\<close> and the payment rules of \<^verbatim>\<open>sales/services/payment_service.py\<close>:
  every cart line carries its final selling price, discounts are refused, and the tendered amount
  must cover the total of a cash sale.
\<close>

definition max_money :: dec where
  "max_money = 99999999999999999999"

definition money :: "int \<Rightarrow> dec" where
  "money value = round_half_up value"

definition reject_invoice_discount :: "dec_field \<Rightarrow> pyval \<Rightarrow> pyval \<Rightarrow> unit res" where
  "reject_invoice_discount rv discount_type discount_value =
     rbind (parse_decimal rv discount_value ''discount_value'' (Some 0) 20) (\<lambda>value.
       if discount_type \<noteq> PStr ''none'' \<or> value \<noteq> 0
       then Inl (ValueError ''Discounts are no longer supported. Enter the final selling price.'')
       else Inr ())"

definition reject_discount_fields :: "dec_field \<Rightarrow> (string \<times> pyval) list \<Rightarrow> unit res" where
  "reject_discount_fields rv data =
     rbind (reject_invoice_discount rv (dict_get_default data ''discount_type'' (PStr ''none''))
              (dict_get_default data ''discount_value'' (PDec 0))) (\<lambda>_.
     rbind (if has_key data ''discount_amount''
            then reject_invoice_discount rv (PStr ''none'') (dict_get data ''discount_amount'')
            else Inr ()) (\<lambda>_.
       if has_key data ''discount'' \<or> has_key data ''discounts''
       then Inl (ValueError ''Discounts are no longer supported. Enter the final selling price.'')
       else Inr ()))"

text \<open>A cart entry is a tuple: the product, then quantity, price and perhaps a legacy discount.\<close>

record cart_entry =
  ce_product :: nat
  ce_rest :: "pyval list"

record priced_item =
  pi_product :: nat
  pi_quantity :: dec
  pi_unit_price :: dec
  pi_subtotal :: dec
  pi_total :: dec

definition price_item :: "dec_field \<Rightarrow> cart_entry \<Rightarrow> priced_item res" where
  "price_item rv entry =
     (let kind = (if length (ce_rest entry) = 4 then ce_rest entry ! 2 else PStr ''none'');
          value = (if length (ce_rest entry) = 4 then ce_rest entry ! 3 else PDec 0)
      in rbind (parse_decimal rv (ce_rest entry ! 0) ''quantity'' (Some 1) 10) (\<lambda>quantity.
         rbind (parse_decimal rv (ce_rest entry ! 1) ''unit_price'' (Some 0) 10) (\<lambda>price.
         rbind (parse_decimal rv value ''discount_value'' (Some 0) 20) (\<lambda>v.
         rbind (reject_invoice_discount rv kind (PDec v)) (\<lambda>_.
           let subtotal = money (quantity * price)
           in if max_money < subtotal
              then Inl (ValueError ''Sale total exceeds the maximum supported amount.'')
              else Inr \<lparr>pi_product = ce_product entry, pi_quantity = quantity, pi_unit_price = price,
                        pi_subtotal = subtotal, pi_total = subtotal\<rparr>)))))"

fun price_loop :: "dec_field \<Rightarrow> nat list \<Rightarrow> cart_entry list \<Rightarrow> priced_item list res" where
  "price_loop rv seen [] = Inr []"
| "price_loop rv seen (entry # entries) =
     (if length (ce_rest entry) \<noteq> 2 \<and> length (ce_rest entry) \<noteq> 4
      then Inl (ValueError ''Every item requires an explicitly entered unit_price.'')
      else if ce_product entry \<in> set seen
      then Inl (ValueError ''Combine quantities for duplicate products before submitting a cart.'')
      else rbind (price_item rv entry) (\<lambda>item.
             rbind (price_loop rv (ce_product entry # seen) entries) (\<lambda>items. Inr (item # items))))"

definition price_items :: "dec_field \<Rightarrow> cart_entry list \<Rightarrow> priced_item list res" where
  "price_items rv items =
     (if items = [] then Inl (ValueError ''At least one item is required.'')
      else rbind (price_loop rv [] items) (\<lambda>result.
             if max_money < (\<Sum>i\<leftarrow>result. pi_subtotal i)
             then Inl (ValueError ''Sale total exceeds the maximum supported amount.'')
             else Inr result))"

definition payment_values ::
    "dec_field \<Rightarrow> dec \<Rightarrow> string \<Rightarrow> string \<Rightarrow> pyval \<Rightarrow> (dec option \<times> dec option) res" where
  "payment_values rv total_due method status amount_tendered =
     (if method_of method = None
      then Inl (ValueErrorF ''Invalid payment_method {}. Must be cash or online.'' [FStr method])
      else if pay_status_of status = None then Inl (ValueError ''payment_status must be pending or paid.'')
      else rbind (if amount_tendered = PNone then Inr None
                  else rbind (parse_decimal rv amount_tendered ''amount_tendered'' (Some 0) 20) (\<lambda>a. Inr (Some a)))
        (\<lambda>tendered.
          if status = ''pending''
          then (if tendered \<noteq> None \<and> tendered \<noteq> Some 0
                then Inl (ValueError ''Pending payments cannot include an amount tendered. Partial payments are not supported.'')
                else Inr (None, None))
          else if method = ''cash''
          then (case tendered of
                  None \<Rightarrow> Inl (ValueError ''Amount tendered is required for cash payments.'')
                | Some a \<Rightarrow>
                    if a < total_due
                    then Inl (ValueErrorF ''Amount tendered ({}) is less than the total due ({}).'' [FDec a, FDec total_due])
                    else Inr (Some a, Some (a - total_due)))
          else Inr (tendered, None)))"


subsection \<open>Priced carts\<close>

definition priced_ok :: "priced_item \<Rightarrow> bool" where
  "priced_ok i \<longleftrightarrow> 0 < pi_quantity i \<and> pi_quantity i < 10 ^ 10 \<and> 0 \<le> pi_unit_price i \<and>
     pi_unit_price i < 10 ^ 10 \<and> pi_subtotal i = money (pi_quantity i * pi_unit_price i) \<and>
     pi_total i = pi_subtotal i"

lemma price_item_ok:
  assumes rv: "drf_decimal rv" and p: "price_item rv entry = Inr item"
  shows "priced_ok item \<and> pi_product item = ce_product entry"
proof -
  from p obtain q c where
    q: "parse_decimal rv (ce_rest entry ! 0) ''quantity'' (Some 1) 10 = Inr q" and
    c: "parse_decimal rv (ce_rest entry ! 1) ''unit_price'' (Some 0) 10 = Inr c" and
    item: "item = \<lparr>pi_product = ce_product entry, pi_quantity = q, pi_unit_price = c,
             pi_subtotal = money (q * c), pi_total = money (q * c)\<rparr>"
    by (auto simp: price_item_def Let_def split: if_splits)
  from parse_decimal_bounds [OF rv q] parse_decimal_bounds [OF rv c] item show ?thesis
    by (simp add: priced_ok_def)
qed

lemma price_loop_ok:
  assumes "drf_decimal rv" and "price_loop rv seen entries = Inr items"
  shows "map pi_product items = map ce_product entries \<and> list_all priced_ok items \<and>
    distinct (map ce_product entries) \<and> set (map ce_product entries) \<inter> set seen = {}"
  using assms
proof (induction rv seen entries arbitrary: items rule: price_loop.induct)
  case (2 rv seen entry entries)
  from "2.prems" obtain item items' where items: "items = item # items'"
    and item: "price_item rv entry = Inr item" and fresh: "ce_product entry \<notin> set seen"
    and len: "\<not> (length (ce_rest entry) \<noteq> 2 \<and> length (ce_rest entry) \<noteq> 4)"
    and rest: "price_loop rv (ce_product entry # seen) entries = Inr items'"
    by (auto split: if_splits)
  from "2.IH" [OF len fresh "2.prems"(1) rest] price_item_ok [OF "2.prems"(1) item] items fresh
  show ?case by auto
qed simp

lemma money_nonneg: "0 \<le> x \<Longrightarrow> 0 \<le> money x"
  by (simp add: money_def round_half_up_nonneg)

lemma price_items_ok:
  assumes "drf_decimal rv" and "price_items rv entries = Inr items"
  shows "items \<noteq> [] \<and> map pi_product items = map ce_product entries \<and>
    distinct (map ce_product entries) \<and> list_all priced_ok items \<and>
    0 \<le> (\<Sum>i\<leftarrow>items. pi_subtotal i) \<and> (\<Sum>i\<leftarrow>items. pi_subtotal i) \<le> max_money"
proof -
  from assms(2) have e: "entries \<noteq> []" and l: "price_loop rv [] entries = Inr items"
    and m: "(\<Sum>i\<leftarrow>items. pi_subtotal i) \<le> max_money"
    by (auto simp: price_items_def split: if_splits)
  note ok = price_loop_ok [OF assms(1) l]
  from ok e have "items \<noteq> []" by auto
  moreover have "0 \<le> (\<Sum>i\<leftarrow>items. pi_subtotal i)"
    using ok by (intro sum_list_nonneg_all) (auto simp: list_all_iff priced_ok_def money_nonneg)
  ultimately show ?thesis using ok m by simp
qed

text \<open>
  pricing a cart. An accepted cart has at least one line and no product twice; each line has a
  positive quantity, a non-negative price and the subtotal quantity times price rounded half up to
  the cent (off by at most half a cent); and the total fits the money columns.
\<close>

lemma price_items_sound:
  assumes "drf_decimal rv" and "price_items rv entries = Inr items"
  shows "items \<noteq> [] \<and> map pi_product items = map ce_product entries \<and> distinct (map pi_product items) \<and>
    list_all (\<lambda>i. 0 < pi_quantity i \<and> 0 \<le> pi_unit_price i \<and> pi_total i = pi_subtotal i \<and>
      2 * \<bar>100 * pi_subtotal i - pi_quantity i * pi_unit_price i\<bar> \<le> 100) items \<and>
    0 \<le> (\<Sum>i\<leftarrow>items. pi_subtotal i) \<and> (\<Sum>i\<leftarrow>items. pi_subtotal i) \<le> max_money"
proof -
  have "list_all (\<lambda>i. 0 < pi_quantity i \<and> 0 \<le> pi_unit_price i \<and> pi_total i = pi_subtotal i \<and>
      2 * \<bar>100 * pi_subtotal i - pi_quantity i * pi_unit_price i\<bar> \<le> 100) items"
    using price_items_ok [OF assms] round_half_up_bounds
    by (auto simp: list_all_iff priced_ok_def money_def)
  with price_items_ok [OF assms] show ?thesis by simp
qed

lemma price_items_sound_witness:
  "\<exists>items. price_items plain_dec_field [\<lparr>ce_product = 1, ce_rest = [PDec 250, PDec 3333]\<rparr>,
       \<lparr>ce_product = 2, ce_rest = [PInt 3, PDec 1000]\<rparr>] = Inr items \<and> distinct (map pi_product items) \<and>
     (\<Sum>i\<leftarrow>items. pi_subtotal i) \<le> max_money"
proof -
  let ?cart = "[\<lparr>ce_product = 1, ce_rest = [PDec 250, PDec 3333]\<rparr>, \<lparr>ce_product = 2, ce_rest = [PInt 3, PDec 1000]\<rparr>]"
  have "\<exists>items. price_items plain_dec_field ?cart = Inr items"
    by (simp add: price_items_def price_item_def parse_decimal_def plain_dec_field_def
        reject_invoice_discount_def money_def round_half_up_def max_money_def Let_def)
  then obtain items where "price_items plain_dec_field ?cart = Inr items" by blast
  with price_items_sound [OF plain_dec_field_ok this] show ?thesis by blast
qed

lemma payment_values_cases:
  assumes "payment_values rv total_due m s a = Inr (t, c)"
  shows "(s = ''pending'' \<and> t = None \<and> c = None) \<or>
    (s = ''paid'' \<and> m = ''cash'' \<and> (\<exists>x. t = Some x \<and> total_due \<le> x \<and> c = Some (x - total_due))) \<or>
    (s = ''paid'' \<and> m = ''online'' \<and> c = None)"
  using assms
  by (auto simp: payment_values_def pay_status_of_def method_of_def split: if_splits option.splits)

text \<open>
  payment rules. Accepted payment values are exactly: nothing tendered and no change for a pending
  payment; for a paid cash sale an amount that covers the total, with the difference as the change;
  for a paid online sale no change. In every case tendered minus change is the total when change is
  given, so no sale is recorded as paid in cash with too little money.
\<close>

lemma payment_values_sound:
  assumes "payment_values rv total_due method status tendered = Inr (t, c)"
  shows "method \<in> {''cash'', ''online''} \<and> status \<in> {''pending'', ''paid''} \<and>
    (status = ''pending'' \<longleftrightarrow> status \<noteq> ''paid'') \<and>
    (status = ''pending'' \<longrightarrow> t = None \<and> c = None) \<and>
    (status = ''paid'' \<and> method = ''cash'' \<longrightarrow> (\<exists>x. t = Some x \<and> total_due \<le> x \<and> c = Some (x - total_due) \<and> 0 \<le> x - total_due)) \<and>
    (status = ''paid'' \<and> method = ''online'' \<longrightarrow> c = None)"
proof -
  have "method \<in> {''cash'', ''online''}" "status \<in> {''pending'', ''paid''}"
    using assms by (auto simp: payment_values_def method_of_def pay_status_of_def split: if_splits)
  then show ?thesis using payment_values_cases [OF assms] by auto
qed

lemma payment_values_sound_witness:
  "payment_values plain_dec_field 8333 ''cash'' ''paid'' (PDec 10000) = Inr (Some 10000, Some 1667) \<and>
   (\<exists>x. Some (10000 :: dec) = Some x \<and> 8333 \<le> x \<and> Some (1667 :: dec) = Some (x - 8333))"
proof -
  have p: "payment_values plain_dec_field 8333 ''cash'' ''paid'' (PDec 10000) = Inr (Some 10000, Some 1667)"
    by (simp add: payment_values_def method_of_def pay_status_of_def parse_decimal_def plain_dec_field_def)
  from payment_values_sound [OF p] p show ?thesis by simp
qed

end
