(* ===== verification/Invoice.thy ===== *)
theory Invoice
  imports Pricing
begin

text \<open>
  \<^verbatim>\<open>sales/services/invoice_service.py\<close>: the yearly sales-invoice counter. An automatic number is the
  next counter value that no receipt of the year carries; a paper number must not repeat another
  paper number of the year. \<open>normalized_si\<close> is the database's \<^verbatim>\<open>Upper(Trim(...))\<close>, which trims
  spaces only; the unique constraint of \<^verbatim>\<open>Transaction\<close> is over it.
\<close>

definition seq_limit :: int where
  "seq_limit = 9223372036854775807"

definition sql_trim :: "string \<Rightarrow> string" where
  "sql_trim s = rev (dropWhile (\<lambda>c. c = CHR '' '') (rev (dropWhile (\<lambda>c. c = CHR '' '') s)))"

definition normalized_si :: "txn \<Rightarrow> string option" where
  "normalized_si t = map_option (\<lambda>s. upper (sql_trim s)) (tx_invoice t)"

definition created_year :: "txn \<Rightarrow> int" where
  "created_year t = year_of (local_date (tx_created t))"

text \<open>\<^verbatim>\<open>re.fullmatch(r'SI([0-9]+)', number.strip(), re.IGNORECASE)\<close> and its value.\<close>

definition plain_si :: "string \<Rightarrow> nat option" where
  "plain_si number =
     (case strip number of
        a # b # ds \<Rightarrow>
          if upper_char a = CHR ''S'' \<and> upper_char b = CHR ''I'' \<and> ds \<noteq> [] \<and> (\<forall>c \<in> set ds. is_digit c)
          then Some (int_of ds) else None
      | _ \<Rightarrow> None)"

fun first_plain_si :: "string list \<Rightarrow> int" where
  "first_plain_si [] = 0"
| "first_plain_si (n # ns) =
     (case plain_si n of
        Some v \<Rightarrow> if int v < seq_limit then int v else first_plain_si ns
      | None \<Rightarrow> first_plain_si ns)"

definition initial_value :: "int \<Rightarrow> sales_store \<Rightarrow> int" where
  "initial_value year st =
     first_plain_si (map (\<lambda>t. the (tx_invoice t))
       (filter (\<lambda>t. created_year t = year \<and> tx_invoice t \<noteq> None \<and> tx_invoice t \<noteq> Some [])
          (rev (sort_key (\<lambda>t. (tx_created t, tx_id t)) (ss_txns st)))))"

definition find_seq :: "int \<Rightarrow> invoice_seq list \<Rightarrow> invoice_seq option" where
  "find_seq year qs = find (\<lambda>q. iq_year q = year) qs"

definition save_seq :: "int \<Rightarrow> int \<Rightarrow> invoice_seq list \<Rightarrow> invoice_seq list" where
  "save_seq year v qs = map (\<lambda>q. if iq_year q = year then q\<lparr>iq_last := v\<rparr> else q) qs"

text \<open>\<^verbatim>\<open>get_or_create(year=year, defaults=...)\<close> on the locked row.\<close>

definition get_sequence :: "int \<Rightarrow> sales_store \<Rightarrow> int \<times> sales_store" where
  "get_sequence year st =
     (case find_seq year (ss_invoice_seqs st) of
        Some q \<Rightarrow> (iq_last q, st)
      | None \<Rightarrow> (let v = initial_value year st
                 in (v, st\<lparr>ss_invoice_seqs := ss_invoice_seqs st @ [\<lparr>iq_year = year, iq_last = v\<rparr>]\<rparr>)))"

definition recorded :: "int \<Rightarrow> sales_store \<Rightarrow> txn list" where
  "recorded year st = filter (\<lambda>t. created_year t = year) (ss_txns st)"

definition si_number :: "int \<Rightarrow> string" where
  "si_number n = ''SI'' @ zfill 4 (str_nat (nat n))"

text \<open>The \<^verbatim>\<open>while\<close> loop: the counter value whose number is free, or nothing when exhausted.\<close>

function next_free :: "string option set \<Rightarrow> int \<Rightarrow> int option" where
  "next_free taken cur =
     (if cur < seq_limit
      then (if Some (si_number (cur + 1)) \<in> taken then next_free taken (cur + 1) else Some (cur + 1))
      else None)"
  by pat_completeness auto
termination
  by (relation "measure (\<lambda>(taken, cur). nat (seq_limit - cur))") auto

declare next_free.simps [simp del]

definition assign_invoice ::
    "int \<Rightarrow> string option \<Rightarrow> sales_store \<Rightarrow> ((string \<times> invoice_source) \<times> sales_store) res" where
  "assign_invoice year paper_number st =
     (let (cur, st1) = get_sequence year st;
          rows = recorded year st1
      in if (case paper_number of None \<Rightarrow> False | Some p \<Rightarrow> strip p \<noteq> [])
         then (let paper = the paper_number
               in if \<exists>t \<in> set rows. tx_invoice_source t \<noteq> Automatic \<and>
                       normalized_si t = Some (upper (strip paper))
                  then Inl (InvoiceNumberConflict year)
                  else Inr ((paper, Manual), st1))
         else (case next_free (set (map normalized_si rows)) cur of
                 None \<Rightarrow> Inl (ValueErrorF ''The SI sequence for {} is exhausted.'' [FInt year])
               | Some v \<Rightarrow> Inr ((si_number v, Automatic),
                                st1\<lparr>ss_invoice_seqs := save_seq year v (ss_invoice_seqs st1)\<rparr>)))"


subsection \<open>The counter loop\<close>

lemma next_free_Some:
  "next_free taken cur = Some v \<Longrightarrow>
     cur < v \<and> v \<le> seq_limit \<and> Some (si_number v) \<notin> taken \<and>
     (\<forall>k. cur < k \<and> k < v \<longrightarrow> Some (si_number k) \<in> taken)"
proof (induction taken cur rule: next_free.induct)
  case (1 taken cur)
  show ?case
  proof (cases "cur < seq_limit \<and> Some (si_number (cur + 1)) \<in> taken")
    case True
    with "1.prems" have "next_free taken (cur + 1) = Some v"
      by (simp add: next_free.simps [of taken cur])
    with "1.IH" True have ih: "cur + 1 < v \<and> v \<le> seq_limit \<and> Some (si_number v) \<notin> taken \<and>
        (\<forall>k. cur + 1 < k \<and> k < v \<longrightarrow> Some (si_number k) \<in> taken)" by simp
    have "Some (si_number k) \<in> taken" if "cur < k" "k < v" for k
      using that ih True by (cases "k = cur + 1") auto
    with ih show ?thesis by auto
  next
    case False
    with "1.prems" show ?thesis by (auto simp: next_free.simps [of taken cur] split: if_splits)
  qed
qed

lemma next_free_None:
  "next_free taken cur = None \<Longrightarrow> cur < k \<Longrightarrow> k \<le> seq_limit \<Longrightarrow> Some (si_number k) \<in> taken"
proof (induction taken cur rule: next_free.induct)
  case (1 taken cur)
  then have cond: "cur < seq_limit" "Some (si_number (cur + 1)) \<in> taken"
    by (auto simp: next_free.simps [of taken cur] split: if_splits)
  with "1.prems" have "next_free taken (cur + 1) = None" by (simp add: next_free.simps [of taken cur])
  with "1.IH" cond "1.prems" show ?case by (cases "k = cur + 1") auto
qed

lemma si_number_inj: "0 \<le> m \<Longrightarrow> 0 \<le> n \<Longrightarrow> si_number m = si_number n \<Longrightarrow> m = n"
  unfolding si_number_def using zfill_str_nat_inj [of 4 "nat m" "nat n"] by simp

text \<open>The loop finds a number whenever the year has fewer receipts than values left.\<close>

lemma next_free_exists:
  assumes "finite taken" and "0 \<le> cur" and "int (card taken) < seq_limit - cur"
  shows "\<exists>v. next_free taken cur = Some v"
proof (rule ccontr)
  assume "\<nexists>v. next_free taken cur = Some v"
  then have none: "next_free taken cur = None" by auto
  let ?f = "\<lambda>k. Some (si_number k)"
  have "?f ` {cur + 1..seq_limit} \<subseteq> taken"
    using next_free_None [OF none] by auto
  then have "card (?f ` {cur + 1..seq_limit}) \<le> card taken"
    using assms(1) by (rule card_mono [rotated])
  moreover have "inj_on ?f {cur + 1..seq_limit}"
    using assms(2) by (auto intro!: inj_onI si_number_inj)
  ultimately have "nat (seq_limit - cur) \<le> card taken" by (simp add: card_image)
  with assms(3) show False by linarith
qed

lemma upper_si_number [simp]: "upper (si_number n) = si_number n"
proof -
  have "upper (zfill 4 (str_nat (nat n))) = zfill 4 (str_nat (nat n))"
    by (intro upper_digits) (rule zfill_str_nat_digits)
  then show ?thesis by (simp add: si_number_def upper_def upper_char_def)
qed

lemma sql_trim_id: "(\<And>c. c \<in> set s \<Longrightarrow> c \<noteq> CHR '' '') \<Longrightarrow> sql_trim s = s"
proof -
  assume ns: "\<And>c. c \<in> set s \<Longrightarrow> c \<noteq> CHR '' ''"
  have "dropWhile (\<lambda>c. c = CHR '' '') t = t" if "\<And>c. c \<in> set t \<Longrightarrow> c \<noteq> CHR '' ''" for t
    using that by (cases t) auto
  from this [of s] this [of "rev s"] ns show ?thesis by (simp add: sql_trim_def)
qed

lemma sql_trim_si_number [simp]: "sql_trim (si_number n) = si_number n"
proof (rule sql_trim_id)
  fix c assume "c \<in> set (si_number n)"
  then have "c = CHR ''S'' \<or> c = CHR ''I'' \<or> is_digit c"
    by (auto simp: si_number_def dest: zfill_str_nat_digits)
  then show "c \<noteq> CHR '' ''" by (auto simp: is_digit_def)
qed

text \<open>On a number without surrounding white space the two trims agree.\<close>

lemma sql_trim_stripped: "strip s = s \<Longrightarrow> sql_trim s = s"
proof -
  assume s: "strip s = s"
  have ends: "s = [] \<or> (\<not> is_space (hd s) \<and> \<not> is_space (last s))"
  proof (cases "s = []")
    case False
    let ?u = "dropWhile is_space s"
    have u: "rev (dropWhile is_space (rev ?u)) = s" using s by (simp add: strip_def)
    have "length s \<le> length ?u" using u length_dropWhile_le [of is_space "rev ?u"]
      by (metis length_rev)
    then have "takeWhile is_space s = []"
      using takeWhile_dropWhile_id [of is_space s] by (metis append_self_conv2 append_eq_append_conv
          le_antisym length_dropWhile_le append_Nil)
    then have us: "?u = s" using takeWhile_dropWhile_id [of is_space s] by simp
    have "\<not> is_space (hd s)" using us False by (metis hd_dropWhile)
    moreover have "dropWhile is_space (rev s) = rev s" using u us by (metis rev_rev_ident)
    then have "\<not> is_space (hd (rev s))" using False by (metis hd_dropWhile rev_is_Nil_conv)
    ultimately show ?thesis by (simp add: hd_rev)
  qed simp
  have sp: "is_space (CHR '' '')" by (simp add: is_space_def)
  show ?thesis
  proof (cases s)
    case (Cons c cs)
    with ends sp have 1: "dropWhile (\<lambda>c. c = CHR '' '') s = s" by auto
    from Cons obtain x xs where x: "rev s = x # xs" by (cases "rev s") auto
    then have "x = last s" by (metis hd_rev list.sel(1))
    with Cons ends sp have "x \<noteq> CHR '' ''" by auto
    with x have 2: "dropWhile (\<lambda>c. c = CHR '' '') (rev s) = rev s" by simp
    show ?thesis by (simp add: sql_trim_def 1 2)
  qed (simp add: sql_trim_def)
qed


subsection \<open>Allocation\<close>

lemma get_sequence_txns [simp]:
  "ss_txns (snd (get_sequence year st)) = ss_txns st"
  "st_batches (snd (get_sequence year st)) = st_batches st"
  "ss_items (snd (get_sequence year st)) = ss_items st"
  by (simp_all add: get_sequence_def Let_def split: option.splits)

lemma recorded_get_sequence [simp]: "recorded year (snd (get_sequence y st)) = recorded year st"
  by (simp add: recorded_def)

lemma find_seq_save:
  "find_seq y (save_seq year v qs) =
     (if y = year then map_option (\<lambda>q. q\<lparr>iq_last := v\<rparr>) (find_seq y qs) else find_seq y qs)"
  by (induction qs) (auto simp: find_seq_def save_seq_def)

lemma find_seq_get_sequence:
  "find_seq y (ss_invoice_seqs (snd (get_sequence year st))) =
     (if y = year then Some \<lparr>iq_year = year, iq_last = fst (get_sequence year st)\<rparr>
      else find_seq y (ss_invoice_seqs st))"
proof (cases "find_seq year (ss_invoice_seqs st)")
  case None
  then show ?thesis
    by (auto simp: get_sequence_def find_seq_def find_append Let_def split: option.splits)
next
  case (Some q)
  then have "iq_year q = year" by (auto simp: find_seq_def find_Some_iff)
  with Some show ?thesis by (auto simp: get_sequence_def)
qed

definition blank_paper :: "string option \<Rightarrow> bool" where
  "blank_paper p \<longleftrightarrow> (case p of None \<Rightarrow> True | Some s \<Rightarrow> strip s = [])"

lemma assign_invoice_automatic:
  "blank_paper p \<Longrightarrow> assign_invoice year p st =
     (case next_free (set (map normalized_si (recorded year st))) (fst (get_sequence year st)) of
        None \<Rightarrow> Inl (ValueErrorF ''The SI sequence for {} is exhausted.'' [FInt year])
      | Some v \<Rightarrow> Inr ((si_number v, Automatic), (snd (get_sequence year st))
          \<lparr>ss_invoice_seqs := save_seq year v (ss_invoice_seqs (snd (get_sequence year st)))\<rparr>))"
  by (auto simp: assign_invoice_def blank_paper_def case_prod_beta Let_def split: option.splits)

lemma assign_invoice_manual:
  "\<not> blank_paper p \<Longrightarrow> assign_invoice year p st =
     (if \<exists>t \<in> set (recorded year st). tx_invoice_source t \<noteq> Automatic \<and>
           normalized_si t = Some (upper (strip (the p)))
      then Inl (InvoiceNumberConflict year)
      else Inr ((the p, Manual), snd (get_sequence year st)))"
  by (auto simp: assign_invoice_def blank_paper_def case_prod_beta Let_def split: option.splits)

lemma assign_invoice_cases:
  assumes "assign_invoice year p st = Inr ((num, src), st')"
  obtains (auto) v where "blank_paper p" "src = Automatic" "num = si_number v"
      "next_free (set (map normalized_si (recorded year st))) (fst (get_sequence year st)) = Some v"
      "st' = (snd (get_sequence year st))
          \<lparr>ss_invoice_seqs := save_seq year v (ss_invoice_seqs (snd (get_sequence year st)))\<rparr>"
    | (manual) "\<not> blank_paper p" "src = Manual" "p = Some num" "st' = snd (get_sequence year st)"
      "\<forall>t \<in> set (recorded year st). tx_invoice_source t = Automatic \<or>
           normalized_si t \<noteq> Some (upper (strip num))"
proof (cases "blank_paper p")
  case True
  with assms obtain v where
    "next_free (set (map normalized_si (recorded year st))) (fst (get_sequence year st)) = Some v"
    by (auto simp: assign_invoice_automatic split: option.splits)
  with True assms show ?thesis by (intro auto [of v]) (simp_all add: assign_invoice_automatic)
next
  case False
  then obtain s where "p = Some s" by (cases p) (auto simp: blank_paper_def)
  with False assms show ?thesis
    by (intro manual) (auto simp: assign_invoice_manual split: if_splits)
qed

lemma assign_invoice_frame:
  assumes "assign_invoice year p st = Inr (r, st')"
  shows "st' = st\<lparr>ss_invoice_seqs := ss_invoice_seqs st'\<rparr>"
proof -
  obtain num src where r: "r = (num, src)" by (cases r)
  have g: "snd (get_sequence year st) =
      st\<lparr>ss_invoice_seqs := ss_invoice_seqs (snd (get_sequence year st))\<rparr>"
    by (simp add: get_sequence_def Let_def split: option.splits)
  show ?thesis
  proof (cases rule: assign_invoice_cases [OF assms [unfolded r]])
    case (1 v)
    then show ?thesis by (subst (1 2) 1(5), subst g) simp
  next
    case 2
    with g show ?thesis by simp
  qed
qed

text \<open>
  an automatic invoice number is new. The number a sale receives is carried by no receipt of the
  business year, whatever its source and in whatever spelling of case and outer spaces; it is the
  first such number after the year's counter; the counter moves to it and therefore strictly forward;
  and the counters of the other years stay where they are.
\<close>

lemma automatic_number_fresh:
  assumes "assign_invoice year paper st = Inr ((num, Automatic), st')"
  shows "\<exists>v. num = si_number v \<and> fst (get_sequence year st) < v \<and> v \<le> seq_limit \<and>
    (\<forall>t \<in> set (ss_txns st). created_year t = year \<longrightarrow> normalized_si t \<noteq> Some num) \<and>
    (\<forall>k. fst (get_sequence year st) < k \<and> k < v \<longrightarrow>
       (\<exists>t \<in> set (ss_txns st). created_year t = year \<and> normalized_si t = Some (si_number k))) \<and>
    find_seq year (ss_invoice_seqs st') = Some \<lparr>iq_year = year, iq_last = v\<rparr> \<and>
    (\<forall>y. y \<noteq> year \<longrightarrow> find_seq y (ss_invoice_seqs st') = find_seq y (ss_invoice_seqs st))"
  using assms
proof (cases rule: assign_invoice_cases)
  case (auto v)
  note v = next_free_Some [OF auto(4)]
  have "find_seq year (ss_invoice_seqs st') = Some \<lparr>iq_year = year, iq_last = v\<rparr>"
    by (simp add: auto(5) find_seq_save find_seq_get_sequence)
  moreover have "find_seq y (ss_invoice_seqs st') = find_seq y (ss_invoice_seqs st)" if "y \<noteq> year" for y
    using that by (simp add: auto(5) find_seq_save find_seq_get_sequence)
  moreover have "\<exists>t \<in> set (ss_txns st). created_year t = year \<and> normalized_si t = Some (si_number k)"
    if "fst (get_sequence year st) < k" "k < v" for k
  proof -
    from v that have "Some (si_number k) \<in> normalized_si ` set (recorded year st)" by simp
    then show ?thesis by (auto simp: recorded_def)
  qed
  moreover have "normalized_si t \<noteq> Some num" if "t \<in> set (ss_txns st)" "created_year t = year" for t
    using v that unfolding auto(3) by (auto simp: recorded_def image_iff)
  ultimately show ?thesis using v auto(3) by blast
qed simp

lemma automatic_number_fresh_witness:
  "\<exists>st'. assign_invoice 2026 None demo_sales = Inr ((si_number 1, Automatic), st') \<and>
     find_seq 2026 (ss_invoice_seqs st') = Some \<lparr>iq_year = 2026, iq_last = 1\<rparr>"
proof -
  have "\<exists>st'. assign_invoice 2026 None demo_sales = Inr ((si_number 1, Automatic), st')"
    by (simp add: assign_invoice_automatic blank_paper_def demo_sales_def get_sequence_def find_seq_def
        initial_value_def recorded_def next_free.simps [of _ 0] seq_limit_def Let_def)
  then obtain st' where a: "assign_invoice 2026 None demo_sales = Inr ((si_number 1, Automatic), st')" ..
  from automatic_number_fresh [OF a] obtain v where v: "si_number 1 = si_number v" "0 \<le> v"
      "find_seq 2026 (ss_invoice_seqs st') = Some \<lparr>iq_year = 2026, iq_last = v\<rparr>"
    by (auto simp: demo_sales_def get_sequence_def find_seq_def initial_value_def Let_def)
  from si_number_inj [OF _ v(2,1)] v a show ?thesis by auto
qed

text \<open>
  automatic numbering always succeeds in practice. A sale without a paper number receives an
  automatic number whenever the year has fewer receipts than there are counter values left; the
  search for a free number ends and does not report exhaustion.
\<close>

lemma automatic_number_available:
  assumes "blank_paper paper" and "0 \<le> fst (get_sequence year st)"
    and "int (length (recorded year st)) < seq_limit - fst (get_sequence year st)"
  shows "\<exists>num st'. assign_invoice year paper st = Inr ((num, Automatic), st')"
proof -
  let ?taken = "set (map normalized_si (recorded year st))"
  have "card ?taken \<le> length (recorded year st)" by (metis card_length length_map)
  with assms(3) have "int (card ?taken) < seq_limit - fst (get_sequence year st)" by linarith
  from next_free_exists [OF finite_set assms(2) this] obtain v where
    "next_free ?taken (fst (get_sequence year st)) = Some v" ..
  with assms(1) show ?thesis by (simp add: assign_invoice_automatic)
qed

lemma automatic_number_available_witness:
  "\<exists>num st'. assign_invoice 2026 None demo_sales = Inr ((num, Automatic), st')"
  by (rule automatic_number_available)
    (simp_all add: blank_paper_def demo_sales_def get_sequence_def find_seq_def initial_value_def
      recorded_def seq_limit_def Let_def)

text \<open>
  paper numbers. A non-blank paper number is refused exactly when a paper or imported receipt of
  the same year already carries it (compared without case), and is otherwise recorded as entered,
  leaving the year's automatic counter where it was.
\<close>

lemma paper_number_conflict:
  assumes "\<not> blank_paper paper"
  shows "(assign_invoice year paper st = Inl (InvoiceNumberConflict year) \<longleftrightarrow>
      (\<exists>t \<in> set (ss_txns st). created_year t = year \<and> tx_invoice_source t \<noteq> Automatic \<and>
        normalized_si t = Some (upper (strip (the paper))))) \<and>
    (\<forall>num src st'. assign_invoice year paper st = Inr ((num, src), st') \<longrightarrow>
      paper = Some num \<and> src = Manual \<and>
      find_seq year (ss_invoice_seqs st') = Some \<lparr>iq_year = year, iq_last = fst (get_sequence year st)\<rparr>)"
proof -
  have "paper = Some (the paper)" using assms by (cases paper) (auto simp: blank_paper_def)
  then show ?thesis using assms
    by (auto simp: assign_invoice_manual find_seq_get_sequence recorded_def split: if_splits)
qed

lemma paper_number_conflict_witness:
  "\<not> blank_paper (Some ''SI0042'') \<and>
   assign_invoice 2026 (Some ''SI0042'') demo_sales \<noteq> Inl (InvoiceNumberConflict 2026)"
proof -
  have "\<not> blank_paper (Some ''SI0042'')" by code_simp
  with paper_number_conflict [OF this, of 2026 demo_sales] show ?thesis by (simp add: demo_sales_def)
qed

end
