(* ===== verification/Checkout.thy ===== *)
theory Checkout
  imports Invoice
begin

text \<open>
  \<^verbatim>\<open>sales/services/checkout_service.py\<close>: one sale. The cart is priced, the payment checked, the
  invoice number allocated, the receipt written, and each line is drawn from the product's batches
  in the order of the product keys; a line drawn from several batches becomes one receipt item per
  batch. The service reads the clock several times: at entry, when it stamps the payment, and once
  per deducted line; \<open>clock\<close> holds these readings. The receipt row is written with its final
  \<^verbatim>\<open>created_at\<close>, which the code saves over the automatic value in the same transaction.
\<close>

record clock =
  ck_entered :: instant
  ck_paid :: instant
  ck_line :: "nat \<Rightarrow> date"

record sale_args =
  sg_method :: pyval
  sg_discount_type :: pyval
  sg_discount_value :: pyval
  sg_tendered :: pyval
  sg_customer :: "nat option"
  sg_status :: string
  sg_date :: "date option"
  sg_number :: "string option"

definition method_text :: "pyval \<Rightarrow> string" where
  "method_text v = (case v of PStr s \<Rightarrow> s | _ \<Rightarrow> [])"

text \<open>The unique constraint \<^verbatim>\<open>sales_invoice_year_source_unique\<close> of \<^verbatim>\<open>Transaction\<close>.\<close>

definition same_invoice :: "txn \<Rightarrow> txn \<Rightarrow> bool" where
  "same_invoice t u \<longleftrightarrow> tx_invoice_source t \<noteq> NoSource \<and> tx_invoice_source t = tx_invoice_source u \<and>
     normalized_si t \<noteq> None \<and> normalized_si t = normalized_si u \<and>
     tx_invoice_year t \<noteq> None \<and> tx_invoice_year t = tx_invoice_year u"

definition insert_txn :: "txn \<Rightarrow> sales_store \<Rightarrow> sales_store res" where
  "insert_txn t st =
     (if \<exists>u \<in> set (ss_txns st). same_invoice t u then Inl IntegrityError
      else Inr (st\<lparr>ss_txns := row_ins t (ss_txns st)\<rparr>))"

text \<open>The items of one line: rounding is applied to the running amount, so the parts add up.\<close>

fun item_loop :: "nat \<Rightarrow> nat \<Rightarrow> dec \<Rightarrow> dec \<Rightarrow> dec \<Rightarrow> (batch \<times> dec) list \<Rightarrow> sales_store \<Rightarrow> sales_store res" where
  "item_loop txn line price quantity_so_far gross_so_far [] st = Inr st"
| "item_loop txn line price quantity_so_far gross_so_far ((b, qty_taken) # consumed) st =
     (let quantity = quantity_so_far + qty_taken;
          cumulative_gross = money (quantity * price);
          gross = cumulative_gross - gross_so_far
      in case row_get pr_id (st_products st) (pb_product b) of
           None \<Rightarrow> Inl (DoesNotExist ''Product'')
         | Some sold_product \<Rightarrow>
             (case row_get cat_id (st_categories st) (pr_category sold_product) of
                None \<Rightarrow> Inl (DoesNotExist ''Category'')
              | Some c \<Rightarrow>
                  item_loop txn line price quantity cumulative_gross consumed
                    (st\<lparr>ss_items := row_ins
                       \<lparr>ti_id = new_pk ti_id (ss_items st), ti_txn = txn, ti_batch = pb_id b,
                        ti_line = Some line, ti_qty = qty_taken, ti_price = price,
                        ti_subtotal = Some gross, ti_total = Some gross, ti_label = [],
                        ti_product_snap = Some (pr_id sold_product),
                        ti_name_snap = Some (pr_name sold_product),
                        ti_variant_snap = pr_variant sold_product,
                        ti_cat_snap = Some (pr_category sold_product),
                        ti_catname_snap = Some (cat_name c)\<rparr> (ss_items st)\<rparr>)))"

definition sell_line :: "clock \<Rightarrow> nat \<Rightarrow> sales_store \<Rightarrow> nat \<times> priced_item \<Rightarrow> sales_store res" where
  "sell_line ck txn st nl =
     rbind (deduct_product_batch (ck_line ck (fst nl)) (pi_product (snd nl)) (pi_quantity (snd nl)) st)
       (\<lambda>(consumed, st1). item_loop txn (fst nl) (pi_unit_price (snd nl)) 0 0 consumed st1)"

definition sorted_lines :: "priced_item list \<Rightarrow> (nat \<times> priced_item) list" where
  "sorted_lines lines = sort_key (\<lambda>nl. pi_product (snd nl)) (List.enumerate 1 lines)"

definition business_date :: "clock \<Rightarrow> sale_args \<Rightarrow> date" where
  "business_date ck a = (case sg_date a of Some d \<Rightarrow> d | None \<Rightarrow> local_date (ck_entered ck))"

definition effective_at :: "clock \<Rightarrow> sale_args \<Rightarrow> instant" where
  "effective_at ck a =
     (if business_date ck a = local_date (ck_entered ck) then ck_entered ck
      else at_hour (business_date ck a) 12)"

definition new_txn ::
    "clock \<Rightarrow> nat \<Rightarrow> sale_args \<Rightarrow> dec \<Rightarrow> dec option \<times> dec option \<Rightarrow> string \<times> invoice_source \<Rightarrow> sales_store \<Rightarrow> txn" where
  "new_txn ck user a amount pay number st =
     \<lparr>tx_id = new_pk tx_id (ss_txns st), tx_handled_by = user, tx_customer = sg_customer a,
      tx_subtotal = amount, tx_total = amount, tx_tendered = fst pay, tx_change = snd pay,
      tx_method = the (method_of (method_text (sg_method a))),
      tx_pay_status = the (pay_status_of (sg_status a)),
      tx_pay_at = Some (ck_paid ck), tx_pay_by = Some user,
      tx_voided = False, tx_voided_at = None, tx_voided_by = None, tx_void_reason = [],
      tx_source_ref = None, tx_invoice = Some (fst number),
      tx_invoice_year = Some (year_of (business_date ck a)), tx_invoice_source = snd number,
      tx_customer_label = [], tx_segment = [], tx_note = [], tx_created = effective_at ck a,
      tx_encoded_at = None, tx_request = None, tx_hash = []\<rparr>"

definition record_sale ::
    "clock \<Rightarrow> nat \<Rightarrow> sale_args \<Rightarrow> priced_item list \<Rightarrow> dec option \<times> dec option \<Rightarrow> sales_store \<Rightarrow>
     (txn \<times> sales_store) res" where
  "record_sale ck user a lines pay st =
     rbind (assign_invoice (year_of (business_date ck a)) (sg_number a) st) (\<lambda>(number, st1).
       let txn = new_txn ck user a (\<Sum>l\<leftarrow>lines. pi_subtotal l) pay number st1
       in rbind (insert_txn txn st1) (\<lambda>st2.
          rbind (rfold (sell_line ck (tx_id txn)) st2 (sorted_lines lines)) (\<lambda>st3. Inr (txn, st3))))"

definition checkout ::
    "dec_field \<Rightarrow> clock \<Rightarrow> cart_entry list \<Rightarrow> nat \<Rightarrow> sale_args \<Rightarrow> sales_store \<Rightarrow> (txn \<times> sales_store) res" where
  "checkout rv ck cart_items staff_user a st =
     (if sg_method a \<noteq> PStr ''cash'' \<and> sg_method a \<noteq> PStr ''online''
      then Inl (ValueErrorF ''Invalid payment_method {}. Must be cash or online.'' [FStr (method_text (sg_method a))])
      else rbind (reject_invoice_discount rv (sg_discount_type a) (sg_discount_value a)) (\<lambda>_.
           rbind (price_items rv cart_items) (\<lambda>lines.
           rbind (payment_values rv (\<Sum>l\<leftarrow>lines. pi_subtotal l) (method_text (sg_method a)) (sg_status a)
                    (sg_tendered a)) (\<lambda>pay.
             record_sale ck staff_user a lines pay st))))"


subsection \<open>The items of one line\<close>

text \<open>How much a list of receipt items takes from a batch.\<close>

definition sold_from :: "nat \<Rightarrow> titem list \<Rightarrow> dec" where
  "sold_from i items = (\<Sum>x\<leftarrow>items. if ti_batch x = i then ti_qty x else 0)"

definition item_gross :: "titem \<Rightarrow> dec" where
  "item_gross i = (case ti_total i of Some g \<Rightarrow> g | None \<Rightarrow> 0)"

lemma sold_from_append [simp]: "sold_from i (xs @ ys) = sold_from i xs + sold_from i ys"
  by (simp add: sold_from_def)

lemma sold_from_Nil [simp]: "sold_from i [] = 0"
  by (simp add: sold_from_def)

text \<open>
  What a line adds to the item table: one item per consumed batch, all of them on the receipt and the
  line, with the quantities taken and amounts that add up to the rounded amount of the whole line.
\<close>

definition line_items :: "nat \<Rightarrow> nat \<Rightarrow> dec \<Rightarrow> (batch \<times> dec) list \<Rightarrow> titem list \<Rightarrow> bool" where
  "line_items txn line price consumed new \<longleftrightarrow>
     map (\<lambda>i. (ti_batch i, ti_qty i)) new = map (\<lambda>x. (pb_id (fst x), snd x)) consumed \<and>
     (\<forall>i \<in> set new. ti_txn i = txn \<and> ti_line i = Some line \<and> ti_price i = price \<and>
        ti_subtotal i = ti_total i \<and> ti_total i \<noteq> None)"

lemma item_loop_items:
  assumes "item_loop txn line price qs gs consumed st = Inr st'" and "keys_ok ti_id (ss_items st)"
    and "gs = money (qs * price)"
  shows "\<exists>new. st' = st\<lparr>ss_items := ss_items st @ new\<rparr> \<and> keys_ok ti_id (ss_items st @ new) \<and>
    line_items txn line price consumed new \<and>
    (\<Sum>i\<leftarrow>new. item_gross i) = money ((qs + (\<Sum>x\<leftarrow>consumed. snd x)) * price) - gs"
  using assms
proof (induction txn line price qs gs consumed st rule: item_loop.induct)
  case (1 txn line price qs gs st)
  then show ?case by (intro exI [of _ "[]"]) (simp add: line_items_def)
next
  case (2 txn line price qs gs b k consumed st)
  let ?q = "qs + k" and ?g = "money ((qs + k) * price)"
  from "2.prems"(1) obtain p c where p: "row_get pr_id (st_products st) (pb_product b) = Some p"
    and c: "row_get cat_id (st_categories st) (pr_category p) = Some c"
    by (auto simp: Let_def split: option.splits)
  define item where "item = \<lparr>ti_id = new_pk ti_id (ss_items st), ti_txn = txn, ti_batch = pb_id b,
      ti_line = Some line, ti_qty = k, ti_price = price, ti_subtotal = Some (?g - gs),
      ti_total = Some (?g - gs), ti_label = [], ti_product_snap = Some (pr_id p),
      ti_name_snap = Some (pr_name p), ti_variant_snap = pr_variant p,
      ti_cat_snap = Some (pr_category p), ti_catname_snap = Some (cat_name c)\<rparr>"
  let ?st = "st\<lparr>ss_items := row_ins item (ss_items st)\<rparr>"
  have loop: "item_loop txn line price ?q ?g consumed ?st = Inr st'"
    using "2.prems"(1) p c by (simp add: Let_def item_def)
  have keys: "keys_ok ti_id (ss_items ?st)"
    using "2.prems"(2) by (simp add: keys_ok_ins item_def)
  from "2.IH" [OF refl refl refl p c loop [unfolded item_def] keys [unfolded item_def] refl]
  obtain new where new: "st' = ?st\<lparr>ss_items := ss_items ?st @ new\<rparr>"
      "keys_ok ti_id (ss_items ?st @ new)" "line_items txn line price consumed new"
      "(\<Sum>i\<leftarrow>new. item_gross i) = money ((?q + (\<Sum>x\<leftarrow>consumed. snd x)) * price) - ?g"
    unfolding item_def by blast
  show ?case
  proof (intro exI [of _ "item # new"] conjI)
    show "st' = st\<lparr>ss_items := ss_items st @ item # new\<rparr>" using new(1) by (simp add: row_ins_def)
    show "keys_ok ti_id (ss_items st @ item # new)" using new(2) by (simp add: row_ins_def)
    show "line_items txn line price ((b, k) # consumed) (item # new)"
      using new(3) by (simp add: line_items_def item_def)
    show "(\<Sum>i\<leftarrow>item # new. item_gross i) =
        money ((qs + (\<Sum>x\<leftarrow>(b, k) # consumed. snd x)) * price) - gs"
      using new(4) by (simp add: item_def item_gross_def algebra_simps)
  qed
qed

lemma line_items_sold: "line_items txn line price consumed new \<Longrightarrow> sold_from i new = drawn_from i consumed"
proof -
  assume "line_items txn line price consumed new"
  then have "map (\<lambda>(j, k). if j = i then k else 0) (map (\<lambda>x. (ti_batch x, ti_qty x)) new) =
      map (\<lambda>(j, k). if j = i then k else 0) (map (\<lambda>x. (pb_id (fst x), snd x)) consumed)"
    by (simp only: line_items_def)
  then show ?thesis by (simp add: sold_from_def drawn_from_def o_def)
qed

lemma line_items_qty: "line_items txn line price consumed new \<Longrightarrow>
    (\<Sum>i\<leftarrow>new. ti_qty i) = (\<Sum>x\<leftarrow>consumed. snd x)"
proof -
  assume "line_items txn line price consumed new"
  then have "map snd (map (\<lambda>x. (ti_batch x, ti_qty x)) new) =
      map snd (map (\<lambda>x. (pb_id (fst x), snd x)) consumed)"
    by (simp only: line_items_def)
  then show ?thesis by (simp add: o_def)
qed


subsection \<open>All lines of a sale\<close>

text \<open>
  The items a sale writes: they belong to the receipt, and for every line the quantities and the
  amounts of its items add up to those of the priced line.
\<close>

definition sale_items :: "nat \<Rightarrow> (nat \<times> priced_item) list \<Rightarrow> titem list \<Rightarrow> bool" where
  "sale_items txn nls new \<longleftrightarrow>
     (\<forall>x \<in> set new. ti_txn x = txn \<and> 0 < ti_qty x \<and> (\<exists>nl \<in> set nls. ti_line x = Some (fst nl))) \<and>
     (\<forall>nl \<in> set nls.
        (\<Sum>x\<leftarrow>filter (\<lambda>x. ti_line x = Some (fst nl)) new. ti_qty x) = pi_quantity (snd nl) \<and>
        (\<Sum>x\<leftarrow>filter (\<lambda>x. ti_line x = Some (fst nl)) new. item_gross x) = pi_subtotal (snd nl)) \<and>
     (\<Sum>x\<leftarrow>new. ti_qty x) = (\<Sum>nl\<leftarrow>nls. pi_quantity (snd nl)) \<and>
     (\<Sum>x\<leftarrow>new. item_gross x) = (\<Sum>nl\<leftarrow>nls. pi_subtotal (snd nl))"

text \<open>What a sale may change: the batch rows and new items; every batch keeps its other columns.\<close>

definition batch_core :: "batch \<Rightarrow> nat \<times> dec \<times> date \<times> date \<times> string" where
  "batch_core b = (pb_product b, pb_initial b, pb_expiration b, pb_received b, pb_number b)"

definition sale_frame :: "sales_store \<Rightarrow> titem list \<Rightarrow> sales_store \<Rightarrow> bool" where
  "sale_frame st new st' \<longleftrightarrow>
     st' = st\<lparr>st_batches := st_batches st', ss_items := ss_items st @ new\<rparr> \<and>
     stock_ok (st_batches st') \<and> keys_ok ti_id (ss_items st') \<and>
     map pb_id (st_batches st') = map pb_id (st_batches st) \<and>
     (\<forall>i. remaining_of i (st_batches st') = remaining_of i (st_batches st) - sold_from i new) \<and>
     (\<forall>i. map_option batch_core (get_batch (st_batches st') i) =
          map_option batch_core (get_batch (st_batches st) i))"

lemma deduct_core:
  assumes "stock_ok (st_batches st)" and d: "deduct_product_batch today p q st = Inr (consumed, st')"
  shows "map_option batch_core (get_batch (st_batches st') i) = map_option batch_core (get_batch (st_batches st) i)"
proof (cases "i \<in> (pb_id \<circ> fst) ` set consumed")
  case True
  then obtain b k where x: "(b, k) \<in> set consumed" "i = pb_id b" by auto
  from deduct_get [OF assms x(1)] obtain b0 where "get_batch (st_batches st) i = Some b0"
    "b = fefo_after b0 k" "get_batch (st_batches st') i = Some b" using x(2) by blast
  then show ?thesis by (simp add: batch_core_def)
qed (simp add: deduct_get_other [OF d])

lemma sale_frame_fields:
  assumes "sale_frame st new st'"
  shows "st_products st' = st_products st" "st_categories st' = st_categories st" "ss_txns st' = ss_txns st"
    "ss_items st' = ss_items st @ new"
proof -
  have e: "st' = st\<lparr>st_batches := st_batches st', ss_items := ss_items st @ new\<rparr>"
    using assms by (simp add: sale_frame_def)
  show "st_products st' = st_products st" "st_categories st' = st_categories st" "ss_txns st' = ss_txns st"
    "ss_items st' = ss_items st @ new" by (subst e, simp)+
qed

lemma sell_line_result:
  assumes s: "sell_line ck txn st nl = Inr st'" and ok: "stock_ok (st_batches st)"
    and keys: "keys_ok ti_id (ss_items st)" and priced: "priced_ok (snd nl)"
  shows "\<exists>new. sale_frame st new st' \<and> sale_items txn [nl] new"
proof -
  obtain n l where nl: "nl = (n, l)" by (cases nl)
  from s obtain consumed st1 where
    d: "deduct_product_batch (ck_line ck n) (pi_product l) (pi_quantity l) st = Inr (consumed, st1)"
    and loop: "item_loop txn n (pi_unit_price l) 0 0 consumed st1 = Inr st'"
    by (auto simp: sell_line_def nl)
  have st1: "st1 = st\<lparr>st_batches := st_batches st1\<rparr>" by (rule deduct_more [OF d])
  then have i1: "ss_items st1 = ss_items st" by (metis sales_store.select_convs(3) inv_store.surjective inv_store.update_convs(3) sales_store.surjective)
  have "money (0 * pi_unit_price l) = 0" by (simp add: money_def)
  with item_loop_items [OF loop] keys i1 obtain new where
    new: "st' = st1\<lparr>ss_items := ss_items st @ new\<rparr>" "keys_ok ti_id (ss_items st @ new)"
      "line_items txn n (pi_unit_price l) consumed new"
      "(\<Sum>x\<leftarrow>new. item_gross x) = money ((\<Sum>x\<leftarrow>consumed. snd x) * pi_unit_price l)" by auto
  have sum: "(\<Sum>x\<leftarrow>consumed. snd x) = pi_quantity l" by (rule deduct_sum [OF ok d])
  have b': "st_batches st' = st_batches st1" by (simp add: new(1))
  have "sale_frame st new st'"
    unfolding sale_frame_def b'
  proof (intro conjI allI)
    show "st' = st\<lparr>st_batches := st_batches st1, ss_items := ss_items st @ new\<rparr>"
      using new(1) st1 by (metis (full_types))
    show "keys_ok ti_id (ss_items st')" using new(1,2) by simp
  qed (use deduct_stock_ok [OF ok d] deduct_keys [OF d] deduct_remaining [OF ok d]
        deduct_core [OF ok d] line_items_sold [OF new(3)] in simp_all)
  moreover have "sale_items txn [nl] new"
  proof -
    have line: "\<forall>x \<in> set new. ti_txn x = txn \<and> ti_line x = Some n" using new(3) by (simp add: line_items_def)
    have "0 < ti_qty x" if "x \<in> set new" for x
    proof -
      from that have "(ti_batch x, ti_qty x) \<in> set (map (\<lambda>i. (ti_batch i, ti_qty i)) new)" by simp
      then have "(ti_batch x, ti_qty x) \<in> set (map (\<lambda>x. (pb_id (fst x), snd x)) consumed)"
        using new(3) by (simp only: line_items_def)
      then obtain b where "(b, ti_qty x) \<in> set consumed" by auto
      from deduct_get [OF ok d this] show ?thesis by blast
    qed
    moreover have "filter (\<lambda>x. ti_line x = Some n) new = new" using line by (simp add: filter_id_conv)
    ultimately show ?thesis
      using line new(4) sum line_items_qty [OF new(3)] priced
      by (simp add: sale_items_def nl priced_ok_def)
  qed
  ultimately show ?thesis by blast
qed

lemma sale_frame_trans:
  assumes 1: "sale_frame st new st1" and 2: "sale_frame st1 new' st2"
  shows "sale_frame st (new @ new') st2"
proof -
  have "st2 = st\<lparr>st_batches := st_batches st2, ss_items := ss_items st @ new @ new'\<rparr>"
  proof -
    have "st2 = st1\<lparr>st_batches := st_batches st2, ss_items := ss_items st1 @ new'\<rparr>"
      using 2 by (simp add: sale_frame_def)
    moreover have "st1 = st\<lparr>st_batches := st_batches st1, ss_items := ss_items st @ new\<rparr>"
      using 1 by (simp add: sale_frame_def)
    ultimately show ?thesis by (cases st; cases st1; cases st2) simp
  qed
  with 1 2 show ?thesis by (simp add: sale_frame_def)
qed

lemma sale_frame_refl:
  "stock_ok (st_batches st) \<Longrightarrow> keys_ok ti_id (ss_items st) \<Longrightarrow> sale_frame st [] st"
  by (simp add: sale_frame_def)

lemma sale_items_cons:
  assumes a: "sale_items txn [nl] new" and b: "sale_items txn nls new'" and d: "fst nl \<notin> fst ` set nls"
  shows "sale_items txn (nl # nls) (new @ new')"
proof -
  have "ti_line x \<noteq> Some (fst nl)" if "x \<in> set new'" for x
  proof -
    from b that obtain m where "m \<in> set nls" "ti_line x = Some (fst m)" by (auto simp: sale_items_def)
    with d show ?thesis by (metis imageI option.inject)
  qed
  then have no: "filter (\<lambda>x. ti_line x = Some (fst nl)) new' = []" by (simp add: filter_empty_conv)
  have no': "filter (\<lambda>x. ti_line x = Some (fst m)) new = []" if "m \<in> set nls" for m
    using a d that by (force simp: sale_items_def filter_empty_conv)
  show ?thesis
    using a b no no' unfolding sale_items_def by auto
qed

lemma sell_lines_result:
  assumes "rfold (sell_line ck txn) st nls = Inr st'" and "stock_ok (st_batches st)"
    and "keys_ok ti_id (ss_items st)" and "\<forall>nl \<in> set nls. priced_ok (snd nl)" and "distinct (map fst nls)"
  shows "\<exists>new. sale_frame st new st' \<and> sale_items txn nls new"
  using assms
proof (induction nls arbitrary: st)
  case Nil
  then have "sale_frame st [] st'" using sale_frame_refl by simp
  moreover have "sale_items txn [] []" by (simp add: sale_items_def)
  ultimately show ?case by blast
next
  case (Cons nl nls)
  then obtain st1 where s: "sell_line ck txn st nl = Inr st1" and r: "rfold (sell_line ck txn) st1 nls = Inr st'"
    by auto
  from sell_line_result [OF s] Cons.prems obtain new where
    new: "sale_frame st new st1" "sale_items txn [nl] new" by auto
  from new(1) have "stock_ok (st_batches st1)" "keys_ok ti_id (ss_items st1)" by (simp_all add: sale_frame_def)
  with Cons r obtain new' where "sale_frame st1 new' st'" "sale_items txn nls new'" by fastforce
  with new Cons.prems show ?case
    by (intro exI [of _ "new @ new'"] conjI sale_frame_trans [of st new st1] sale_items_cons) auto
qed


subsection \<open>A whole sale\<close>

text \<open>
  What the database guarantees of the sales tables, and what every service keeps: consistent stock,
  primary keys, and items that point to receipts.
\<close>

definition books_ok :: "sales_store \<Rightarrow> bool" where
  "books_ok st \<longleftrightarrow> stock_ok (st_batches st) \<and> keys_ok tx_id (ss_txns st) \<and> keys_ok ti_id (ss_items st) \<and>
     (\<forall>x \<in> set (ss_items st). ti_txn x \<in> tx_id ` set (ss_txns st) \<and> 0 < ti_qty x)"

lemma sum_sorted_lines [simp]: "(\<Sum>nl\<leftarrow>sorted_lines lines. f (snd nl)) = (\<Sum>l\<leftarrow>lines. (f l :: int))"
proof -
  have "map (\<lambda>nl. f (snd nl)) (List.enumerate 1 lines) = map f lines"
    by (metis (no_types, lifting) List.map.compositionality comp_apply map_eq_conv map_snd_enumerate)
  then show ?thesis by (simp add: sorted_lines_def)
qed

lemma distinct_sorted_lines: "distinct (map fst (sorted_lines lines))"
proof -
  have "mset (map fst (sorted_lines lines)) = mset (map fst (List.enumerate 1 lines))"
    by (simp only: sorted_lines_def mset_map mset_sort)
  then show ?thesis by (metis mset_eq_imp_distinct_iff distinct_upt map_fst_enumerate)
qed

lemma set_sorted_lines: "set (sorted_lines lines) = set (List.enumerate 1 lines)"
  by (simp add: sorted_lines_def)

lemma ball_sorted_lines:
  "(\<forall>nl \<in> set (sorted_lines lines). P (fst nl) (snd nl)) \<longleftrightarrow> (\<forall>n < length lines. P (Suc n) (lines ! n))"
proof -
  have "set (sorted_lines lines) = (\<lambda>n. (Suc n, lines ! n)) ` {..<length lines}"
  proof (intro set_eqI iffI)
    fix x assume "x \<in> set (sorted_lines lines)"
    then have "1 \<le> fst x" "fst x < length lines + 1" "lines ! (fst x - 1) = snd x"
      by (auto simp: set_sorted_lines in_set_enumerate_eq)
    then show "x \<in> (\<lambda>n. (Suc n, lines ! n)) ` {..<length lines}"
      by (intro image_eqI [of _ _ "fst x - 1"]) (auto intro: prod_eqI)
  qed (auto simp: set_sorted_lines in_set_enumerate_eq)
  then show ?thesis by auto
qed

lemma sorted_lines_nth: "n < length lines \<Longrightarrow> (Suc n, lines ! n) \<in> set (sorted_lines lines)"
  by (auto simp: set_sorted_lines in_set_enumerate_eq)

lemma priced_sorted_lines:
  "list_all priced_ok lines \<Longrightarrow> \<forall>nl \<in> set (sorted_lines lines). priced_ok (snd nl)"
  by (auto simp: set_sorted_lines list_all_iff in_set_enumerate_eq)

lemma new_txn_id [simp]: "tx_id (new_txn ck user a amount pay number st) = new_pk tx_id (ss_txns st)"
  by (simp add: new_txn_def)

lemma record_sale_result:
  assumes r: "record_sale ck user a lines pay st = Inr (t, st')" and ok: "books_ok st"
    and priced: "list_all priced_ok lines"
  obtains number st1 new where
    "assign_invoice (year_of (business_date ck a)) (sg_number a) st = Inr (number, st1)"
    "t = new_txn ck user a (\<Sum>l\<leftarrow>lines. pi_subtotal l) pay number st"
    "\<forall>u \<in> set (ss_txns st). \<not> same_invoice t u"
    "st' = st\<lparr>st_batches := st_batches st', ss_invoice_seqs := ss_invoice_seqs st1,
              ss_txns := ss_txns st @ [t], ss_items := ss_items st @ new\<rparr>"
    "sale_frame (st1\<lparr>ss_txns := row_ins t (ss_txns st1)\<rparr>) new st'"
    "sale_items (tx_id t) (sorted_lines lines) new"
proof -
  from r obtain number st1 st2 where
    1: "assign_invoice (year_of (business_date ck a)) (sg_number a) st = Inr (number, st1)"
       "t = new_txn ck user a (\<Sum>l\<leftarrow>lines. pi_subtotal l) pay number st1"
       "insert_txn t st1 = Inr st2" "rfold (sell_line ck (tx_id t)) st2 (sorted_lines lines) = Inr st'"
    by (auto simp: record_sale_def Let_def)
  note f = assign_invoice_frame [OF 1(1)]
  have same: "ss_txns st1 = ss_txns st" "st_batches st1 = st_batches st" "ss_items st1 = ss_items st"
    by (subst f, simp)+
  from 1(3) have st2: "st2 = st1\<lparr>ss_txns := row_ins t (ss_txns st1)\<rparr>"
    and free: "\<forall>u \<in> set (ss_txns st1). \<not> same_invoice t u"
    by (auto simp: insert_txn_def split: if_splits)
  have "\<exists>new. sale_frame st2 new st' \<and> sale_items (tx_id t) (sorted_lines lines) new"
    using ok by (intro sell_lines_result [OF 1(4)])
      (simp_all add: st2 same books_ok_def priced_sorted_lines [OF priced] distinct_sorted_lines)
  then obtain new where new: "sale_frame st2 new st'" "sale_items (tx_id t) (sorted_lines lines) new"
    by blast
  from new(1) have "st' = st2\<lparr>st_batches := st_batches st', ss_items := ss_items st2 @ new\<rparr>"
    by (simp add: sale_frame_def)
  then have "st' = st\<lparr>st_batches := st_batches st', ss_invoice_seqs := ss_invoice_seqs st1,
              ss_txns := ss_txns st @ [t], ss_items := ss_items st @ new\<rparr>"
    using st2 f same by (cases st; cases st1; cases st') (auto simp: row_ins_def)
  moreover have "t = new_txn ck user a (\<Sum>l\<leftarrow>lines. pi_subtotal l) pay number st"
    using 1(2) same by (simp add: new_txn_def)
  ultimately show ?thesis using that 1 free new st2 same by simp
qed

lemma checkout_unfold:
  assumes "checkout rv ck cart user a st = Inr (t, st')"
  obtains lines pay where
    "method_of (method_text (sg_method a)) \<noteq> None" "price_items rv cart = Inr lines"
    "payment_values rv (\<Sum>l\<leftarrow>lines. pi_subtotal l) (method_text (sg_method a)) (sg_status a)
       (sg_tendered a) = Inr pay"
    "record_sale ck user a lines pay st = Inr (t, st')"
  using assms
  by (auto simp: checkout_def method_of_def method_text_def split: if_splits)

lemma sale_keeps_books:
  assumes ok: "books_ok st" and t: "tx_id t = new_pk tx_id (ss_txns st)"
    and st': "ss_txns st' = ss_txns st @ [t]" "ss_items st' = ss_items st @ new"
    and frame: "sale_frame st2 new st'" and items: "sale_items (tx_id t) nls new"
  shows "books_ok st' \<and> txn_items (tx_id t) st' = new \<and> get_txn (ss_txns st') (tx_id t) = Some t \<and>
    get_txn (ss_txns st) (tx_id t) = None"
proof -
  have fresh: "tx_id t \<notin> tx_id ` set (ss_txns st)" by (simp add: t)
  have "ti_txn x \<noteq> tx_id t" if "x \<in> set (ss_items st)" for x
    using ok fresh that unfolding books_ok_def by metis
  then have "filter (\<lambda>i. ti_txn i = tx_id t) (ss_items st) = []" by (simp add: filter_empty_conv)
  moreover have "filter (\<lambda>i. ti_txn i = tx_id t) new = new"
    using items by (auto simp: sale_items_def filter_id_conv)
  ultimately have "txn_items (tx_id t) st' = new" by (simp add: txn_items_def st')
  moreover have "books_ok st'"
    using ok frame items fresh by (auto simp: books_ok_def sale_frame_def st' sale_items_def keys_ok_def)
  moreover have "get_txn (ss_txns st') (tx_id t) = Some t"
    using row_get_ins [OF fresh] by (simp add: st' row_ins_def)
  ultimately show ?thesis using fresh by (simp add: row_get_None)
qed

lemma checkout_result:
  assumes rv: "drf_decimal rv" and ok: "books_ok st" and c: "checkout rv ck cart user a st = Inr (t, st')"
  obtains lines pay number st1 where
    "price_items rv cart = Inr lines" "list_all priced_ok lines"
    "t = new_txn ck user a (\<Sum>l\<leftarrow>lines. pi_subtotal l) pay number st"
    "assign_invoice (year_of (business_date ck a)) (sg_number a) st = Inr (number, st1)"
    "\<forall>u \<in> set (ss_txns st). \<not> same_invoice t u"
    "st' = st\<lparr>st_batches := st_batches st', ss_invoice_seqs := ss_invoice_seqs st1,
              ss_txns := ss_txns st @ [t], ss_items := ss_items st @ txn_items (tx_id t) st'\<rparr>"
    "sale_frame (st1\<lparr>ss_txns := row_ins t (ss_txns st1)\<rparr>) (txn_items (tx_id t) st') st'"
    "sale_items (tx_id t) (sorted_lines lines) (txn_items (tx_id t) st')"
    "books_ok st'" "get_txn (ss_txns st') (tx_id t) = Some t" "get_txn (ss_txns st) (tx_id t) = None"
proof -
  from c obtain lines pay where l: "price_items rv cart = Inr lines"
    and r: "record_sale ck user a lines pay st = Inr (t, st')" by (rule checkout_unfold)
  have priced: "list_all priced_ok lines" using price_items_ok [OF rv l] by blast
  from record_sale_result [OF r ok priced] obtain number st1 new where
    n: "assign_invoice (year_of (business_date ck a)) (sg_number a) st = Inr (number, st1)"
    "t = new_txn ck user a (\<Sum>l\<leftarrow>lines. pi_subtotal l) pay number st"
    "\<forall>u \<in> set (ss_txns st). \<not> same_invoice t u"
    "st' = st\<lparr>st_batches := st_batches st', ss_invoice_seqs := ss_invoice_seqs st1,
              ss_txns := ss_txns st @ [t], ss_items := ss_items st @ new\<rparr>"
    "sale_frame (st1\<lparr>ss_txns := row_ins t (ss_txns st1)\<rparr>) new st'"
    "sale_items (tx_id t) (sorted_lines lines) new" .
  have f: "ss_txns st' = ss_txns st @ [t]" "ss_items st' = ss_items st @ new" by (subst n(4), simp)+
  have "tx_id t = new_pk tx_id (ss_txns st)" by (simp add: n(2))
  from sale_keeps_books [OF ok this f n(5,6)] n l priced that show ?thesis by blast
qed

text \<open>
  C2: a completed sale balances. The receipt is a new row; the amounts of its items add up exactly to
  its total and to the sum of the priced cart lines, and line by line the items account for the whole
  quantity and the whole rounded amount of the line, however many batches it was drawn from.
\<close>

theorem checkout_balances:
  assumes "drf_decimal rv" and "books_ok st" and "checkout rv ck cart user a st = Inr (t, st')"
  shows "get_txn (ss_txns st) (tx_id t) = None \<and> get_txn (ss_txns st') (tx_id t) = Some t \<and>
    (\<Sum>x\<leftarrow>txn_items (tx_id t) st'. item_gross x) = tx_total t \<and>
    (\<exists>lines. price_items rv cart = Inr lines \<and> tx_total t = (\<Sum>l\<leftarrow>lines. pi_total l) \<and>
      (\<forall>n < length lines.
        (\<Sum>x\<leftarrow>filter (\<lambda>x. ti_line x = Some (Suc n)) (txn_items (tx_id t) st'). ti_qty x) = pi_quantity (lines ! n) \<and>
        (\<Sum>x\<leftarrow>filter (\<lambda>x. ti_line x = Some (Suc n)) (txn_items (tx_id t) st'). item_gross x) = pi_total (lines ! n)))"
proof -
  from checkout_result [OF assms] obtain lines pay number where
    l: "price_items rv cart = Inr lines" "list_all priced_ok lines"
    and t: "t = new_txn ck user a (\<Sum>l\<leftarrow>lines. pi_subtotal l) pay number st"
    and items: "sale_items (tx_id t) (sorted_lines lines) (txn_items (tx_id t) st')"
    and got: "get_txn (ss_txns st') (tx_id t) = Some t" "get_txn (ss_txns st) (tx_id t) = None" .
  have amount: "tx_total t = (\<Sum>l\<leftarrow>lines. pi_subtotal l)" by (simp add: t new_txn_def)
  have "(\<Sum>l\<leftarrow>lines. pi_subtotal l) = (\<Sum>l\<leftarrow>lines. pi_total l)"
    using l(2) by (intro arg_cong [of _ _ sum_list] map_cong) (auto simp: list_all_iff priced_ok_def)
  moreover have "pi_total (lines ! n) = pi_subtotal (lines ! n)" if "n < length lines" for n
    using l(2) that by (auto simp: list_all_length priced_ok_def)
  ultimately show ?thesis
    using got l(1) items amount sorted_lines_nth [of _ lines] by (fastforce simp: sale_items_def)
qed

lemma checkout_stock:
  assumes "drf_decimal rv" and "books_ok st" and "checkout rv ck cart user a st = Inr (t, st')"
  shows "books_ok st' \<and>
    (\<forall>i. remaining_of i (st_batches st') =
         remaining_of i (st_batches st) - sold_from i (txn_items (tx_id t) st')) \<and>
    (\<forall>i. map_option batch_core (get_batch (st_batches st') i) =
         map_option batch_core (get_batch (st_batches st) i)) \<and>
    ss_txns st' = ss_txns st @ [t] \<and> ss_items st' = ss_items st @ txn_items (tx_id t) st'"
proof -
  from checkout_result [OF assms] obtain number st1 where
    n: "assign_invoice (year_of (business_date ck a)) (sg_number a) st = Inr (number, st1)"
    and st': "st' = st\<lparr>st_batches := st_batches st', ss_invoice_seqs := ss_invoice_seqs st1,
              ss_txns := ss_txns st @ [t], ss_items := ss_items st @ txn_items (tx_id t) st'\<rparr>"
    and frame: "sale_frame (st1\<lparr>ss_txns := row_ins t (ss_txns st1)\<rparr>) (txn_items (tx_id t) st') st'"
    and ok: "books_ok st'" by metis
  have "st_batches st1 = st_batches st" by (subst assign_invoice_frame [OF n]) simp
  with frame have "\<forall>i. remaining_of i (st_batches st') =
      remaining_of i (st_batches st) - sold_from i (txn_items (tx_id t) st')"
    "\<forall>i. map_option batch_core (get_batch (st_batches st') i) =
         map_option batch_core (get_batch (st_batches st) i)" by (simp_all add: sale_frame_def)
  moreover have "ss_txns st' = ss_txns st @ [t]" "ss_items st' = ss_items st @ txn_items (tx_id t) st'"
    by (subst st', simp)+
  ultimately show ?thesis using ok by blast
qed

text \<open>
  C3: a completed sale and the stock agree batch by batch. What a sale records as sold from a batch is
  exactly what left that batch, the stock stays consistent (nothing is sold below zero), no batch loses
  its product, received quantity or expiry, and every earlier receipt and item stays as it was.
\<close>

theorem checkout_moves_stock:
  assumes "drf_decimal rv" and "books_ok st" and "checkout rv ck cart user a st = Inr (t, st')"
  shows "books_ok st' \<and>
    (\<forall>i. remaining_of i (st_batches st') =
         remaining_of i (st_batches st) - sold_from i (txn_items (tx_id t) st')) \<and>
    (\<forall>i. map_option batch_core (get_batch (st_batches st') i) =
         map_option batch_core (get_batch (st_batches st) i)) \<and>
    ss_txns st' = ss_txns st @ [t] \<and> ss_items st' = ss_items st @ txn_items (tx_id t) st'"
  using assms by (rule checkout_stock)


subsection \<open>A sample sale\<close>

definition demo_clock :: clock where
  "demo_clock = \<lparr>ck_entered = at_hour 700010 9, ck_paid = at_hour 700010 9 + 1, ck_line = (\<lambda>n. 700010)\<rparr>"

definition demo_args :: sale_args where
  "demo_args = \<lparr>sg_method = PStr ''cash'', sg_discount_type = PStr ''none'', sg_discount_value = PDec 0,
     sg_tendered = PDec 30000, sg_customer = None, sg_status = ''paid'', sg_date = None, sg_number = None\<rparr>"

definition demo_cart :: "cart_entry list" where
  "demo_cart = [\<lparr>ce_product = 1, ce_rest = [PDec 450, PDec 3333]\<rparr>]"

definition demo_sold :: "txn \<times> sales_store" where
  "demo_sold = (case checkout plain_dec_field demo_clock demo_cart 1 demo_args demo_sales of
     Inr r \<Rightarrow> r | Inl _ \<Rightarrow> (new_txn demo_clock 1 demo_args 0 (None, None) ([], Manual) demo_sales, demo_sales))"

lemma demo_books_ok: "books_ok demo_sales"
  by (simp add: books_ok_def demo_sales_def stock_ok_def demo_store_def demo_batch_def keys_ok_def batch_ok_def)

lemma demo_checkout: "checkout plain_dec_field demo_clock demo_cart 1 demo_args demo_sales = Inr demo_sold"
proof -
  have "\<not> (case checkout plain_dec_field demo_clock demo_cart 1 demo_args demo_sales of Inl _ \<Rightarrow> True | Inr _ \<Rightarrow> False)"
    by code_simp
  then show ?thesis by (auto simp: demo_sold_def split: sum.splits)
qed

theorem checkout_balances_witness:
  "checkout plain_dec_field demo_clock demo_cart 1 demo_args demo_sales = Inr demo_sold \<and>
   (\<Sum>x\<leftarrow>txn_items (tx_id (fst demo_sold)) (snd demo_sold). item_gross x) = tx_total (fst demo_sold)"
  using demo_checkout checkout_balances [OF plain_dec_field_ok demo_books_ok, of demo_clock demo_cart 1 demo_args
      "fst demo_sold" "snd demo_sold"] by simp

theorem checkout_moves_stock_witness:
  "checkout plain_dec_field demo_clock demo_cart 1 demo_args demo_sales = Inr demo_sold \<and>
   books_ok (snd demo_sold) \<and>
   remaining_of 2 (st_batches (snd demo_sold)) = 300 - sold_from 2 (txn_items (tx_id (fst demo_sold)) (snd demo_sold))"
proof -
  have "remaining_of 2 (st_batches demo_sales) = 300" by code_simp
  with demo_checkout checkout_moves_stock [OF plain_dec_field_ok demo_books_ok, of demo_clock demo_cart 1 demo_args
      "fst demo_sold" "snd demo_sold"] show ?thesis by simp
qed


subsection \<open>When a sale succeeds\<close>

text \<open>Foreign keys: every batch has a product and every product a category.\<close>

definition catalog_ok :: "sales_store \<Rightarrow> bool" where
  "catalog_ok st \<longleftrightarrow>
     (\<forall>b \<in> set (st_batches st). row_get pr_id (st_products st) (pb_product b) \<noteq> None) \<and>
     (\<forall>p \<in> set (st_products st). row_get cat_id (st_categories st) (pr_category p) \<noteq> None)"

lemma item_loop_succeeds:
  assumes "catalog_ok st" and "\<And>b k. (b, k) \<in> set consumed \<Longrightarrow> \<exists>b0 \<in> set (st_batches st). pb_product b = pb_product b0"
  shows "\<exists>st'. item_loop txn line price qs gs consumed st = Inr st'"
  using assms
proof (induction txn line price qs gs consumed st rule: item_loop.induct)
  case (2 txn line price qs gs b k consumed st)
  from "2.prems"(2) [of b k] obtain b0 where b0: "b0 \<in> set (st_batches st)" "pb_product b = pb_product b0" by auto
  with "2.prems"(1) obtain p where p: "row_get pr_id (st_products st) (pb_product b) = Some p"
    by (auto simp: catalog_ok_def)
  with row_get_Some [OF p] "2.prems"(1) obtain c where c: "row_get cat_id (st_categories st) (pr_category p) = Some c"
    by (auto simp: catalog_ok_def)
  have "catalog_ok (st\<lparr>ss_items := i\<rparr>)" for i using "2.prems"(1) by (simp add: catalog_ok_def)
  then have "\<exists>st'. item_loop txn line price (qs + k) (money ((qs + k) * price)) consumed
      (st\<lparr>ss_items := row_ins i (ss_items st)\<rparr>) = Inr st'" if "i = \<lparr>ti_id = new_pk ti_id (ss_items st), ti_txn = txn,
        ti_batch = pb_id b, ti_line = Some line, ti_qty = k, ti_price = price,
        ti_subtotal = Some (money ((qs + k) * price) - gs), ti_total = Some (money ((qs + k) * price) - gs),
        ti_label = [], ti_product_snap = Some (pr_id p), ti_name_snap = Some (pr_name p),
        ti_variant_snap = pr_variant p, ti_cat_snap = Some (pr_category p),
        ti_catname_snap = Some (cat_name c)\<rparr>" for i
    unfolding that using "2.prems"(2) by (intro "2.IH" [OF refl refl refl p c]) auto
  then show ?case using p c by (simp add: Let_def)
qed simp

lemma catalog_ok_core:
  assumes "catalog_ok st" and "st_products st' = st_products st" and "st_categories st' = st_categories st"
    and core: "\<And>i. map_option batch_core (get_batch (st_batches st') i) =
      map_option batch_core (get_batch (st_batches st) i)" and "keys_ok pb_id (st_batches st')"
  shows "catalog_ok st'"
proof -
  have "\<exists>b0 \<in> set (st_batches st). pb_product b = pb_product b0" if "b \<in> set (st_batches st')" for b
  proof -
    from that assms(5) have "get_batch (st_batches st') (pb_id b) = Some b" by (simp add: row_get_iff)
    with core [of "pb_id b"] obtain b0 where b0: "get_batch (st_batches st) (pb_id b) = Some b0"
      "batch_core b = batch_core b0" by (cases "get_batch (st_batches st) (pb_id b)") auto
    then show ?thesis using row_get_Some [OF b0(1)] by (auto simp: batch_core_def)
  qed
  then show ?thesis using assms(1-3) unfolding catalog_ok_def by metis
qed

lemma sell_line_succeeds:
  assumes ok: "stock_ok (st_batches st)" and cat: "catalog_ok st" and q: "0 < pi_quantity l"
    and enough: "pi_quantity l \<le> sellable (ck_line ck n) (pi_product l) (st_batches st)"
  shows "\<exists>st'. sell_line ck txn st (n, l) = Inr st'"
proof -
  from deduct_product_batch_def [of "ck_line ck n" "pi_product l" "pi_quantity l" st] q enough
  obtain consumed st1 where
    d: "deduct_product_batch (ck_line ck n) (pi_product l) (pi_quantity l) st = Inr (consumed, st1)"
    by (auto simp: Let_def split: prod.splits)
  have frame: "st1 = st\<lparr>st_batches := st_batches st1\<rparr>" by (rule deduct_more [OF d])
  have keep: "\<exists>b1 \<in> set (st_batches st1). pb_product b = pb_product b1" if "(b, k) \<in> set consumed" for b k
    using deduct_get [OF ok d that] row_get_Some by fastforce
  have "st_products st1 = st_products st" "st_categories st1 = st_categories st" by (subst frame, simp)+
  from catalog_ok_core [OF cat this] deduct_core [OF ok d] deduct_stock_ok [OF ok d] have "catalog_ok st1"
    by (simp add: stock_ok_def)
  from item_loop_succeeds [OF this keep] d show ?thesis by (simp add: sell_line_def)
qed

lemma sell_line_other:
  assumes s: "sell_line ck txn st (n, l) = Inr st'" and ok: "stock_ok (st_batches st)"
    and keys: "keys_ok ti_id (ss_items st)" and p: "p \<noteq> pi_product l"
  shows "sellable day p (st_batches st') = sellable day p (st_batches st)"
proof -
  from s obtain consumed st1 where
    d: "deduct_product_batch (ck_line ck n) (pi_product l) (pi_quantity l) st = Inr (consumed, st1)"
    and loop: "item_loop txn n (pi_unit_price l) 0 0 consumed st1 = Inr st'"
    by (auto simp: sell_line_def)
  have "st1 = st\<lparr>st_batches := st_batches st1\<rparr>" by (rule deduct_more [OF d])
  then have "ss_items st1 = ss_items st" by (cases st; cases st1) simp
  with item_loop_items [OF loop] keys have "st_batches st' = st_batches st1" by (auto simp: money_def)
  with deduct_other_products [OF ok d p] show ?thesis by simp
qed

lemma sell_lines_iff:
  assumes "stock_ok (st_batches st)" and "keys_ok ti_id (ss_items st)" and "catalog_ok st"
    and "\<forall>nl \<in> set nls. priced_ok (snd nl)" and "distinct (map (\<lambda>nl. pi_product (snd nl)) nls)"
  shows "(\<exists>st'. rfold (sell_line ck txn) st nls = Inr st') \<longleftrightarrow>
    (\<forall>nl \<in> set nls. pi_quantity (snd nl) \<le> sellable (ck_line ck (fst nl)) (pi_product (snd nl)) (st_batches st))"
  using assms
proof (induction nls arbitrary: st)
  case (Cons nl nls)
  obtain n l where nl: "nl = (n, l)" by (cases nl)
  let ?enough = "pi_quantity l \<le> sellable (ck_line ck n) (pi_product l) (st_batches st)"
  show ?case
  proof (cases "\<exists>st1. sell_line ck txn st nl = Inr st1")
    case True
    then obtain st1 where s: "sell_line ck txn st nl = Inr st1" ..
    from sell_line_result [OF s] Cons.prems obtain new where fr: "sale_frame st new st1" by auto
    have cat: "catalog_ok st1" using catalog_ok_core [OF Cons.prems(3) sale_frame_fields(1,2) [OF fr]] fr
      by (simp add: sale_frame_def stock_ok_def)
    from s have "?enough"
      by (auto simp: nl sell_line_def dest: deduct_unfold(2))
    moreover have "sellable day (pi_product (snd m)) (st_batches st1) = sellable day (pi_product (snd m)) (st_batches st)"
      if "m \<in> set nls" for m day
    proof (rule sell_line_other [OF s [unfolded nl] Cons.prems(1,2)])
      show "pi_product (snd m) \<noteq> pi_product l" using Cons.prems(5) nl that by force
    qed
    moreover have "(\<exists>st'. rfold (sell_line ck txn) st1 nls = Inr st') \<longleftrightarrow>
        (\<forall>nl \<in> set nls. pi_quantity (snd nl) \<le> sellable (ck_line ck (fst nl)) (pi_product (snd nl)) (st_batches st1))"
      using fr cat Cons.prems by (intro Cons.IH) (auto simp: sale_frame_def)
    ultimately show ?thesis using s by (simp add: nl)
  next
    case False
    moreover from Cons.prems(4) have "0 < pi_quantity l" by (simp add: nl priced_ok_def)
    ultimately have "\<not> ?enough" using sell_line_succeeds [OF Cons.prems(1,3), of l ck n txn] nl by auto
    with False show ?thesis by (auto simp: nl)
  qed
qed simp


subsection \<open>Invoice numbers stay unique\<close>

text \<open>
  Receipts with a numbered source carry the business year of their date, and no two of them share
  number, year and source.
\<close>

definition invoices_ok :: "sales_store \<Rightarrow> bool" where
  "invoices_ok st \<longleftrightarrow>
     (\<forall>u \<in> set (ss_txns st). tx_invoice_source u \<noteq> NoSource \<longrightarrow> tx_invoice_year u = Some (created_year u)) \<and>
     (\<forall>t \<in> set (ss_txns st). \<forall>u \<in> set (ss_txns st). same_invoice t u \<longrightarrow> t = u)"

lemma created_year_new_txn [simp]:
  "created_year (new_txn ck user a amount pay number st) = year_of (business_date ck a)"
  by (simp add: created_year_def new_txn_def effective_at_def)

lemma assigned_number_unique:
  assumes ok: "invoices_ok st"
    and a: "assign_invoice (year_of (business_date ck a)) (sg_number a) st = Inr (number, st1)"
    and clean: "\<And>p. sg_number a = Some p \<Longrightarrow> strip p \<noteq> [] \<Longrightarrow> strip p = p" and u: "u \<in> set (ss_txns st)"
  shows "\<not> same_invoice (new_txn ck user a amount pay number st2) u"
proof
  let ?y = "year_of (business_date ck a)"
  obtain num src where n: "number = (num, src)" by (cases number)
  assume same: "same_invoice (new_txn ck user a amount pay number st2) u"
  then have src: "tx_invoice_source u = src" "src \<noteq> NoSource" "normalized_si u = Some (upper (sql_trim num))"
    "tx_invoice_year u = Some ?y" by (auto simp: same_invoice_def new_txn_def normalized_si_def n)
  with ok u have "created_year u = ?y" by (auto simp: invoices_ok_def)
  with u have rec: "u \<in> set (recorded ?y st)" by (simp add: recorded_def)
  show False
  proof (cases rule: assign_invoice_cases [OF a [unfolded n]])
    case (1 v)
    from next_free_Some [OF 1(4)] have "Some (si_number v) \<notin> normalized_si ` set (recorded ?y st)" by simp
    with rec src(3) 1(3) show False by (auto simp: image_iff)
  next
    case 2
    from 2(1,3) have "strip num \<noteq> []" by (simp add: blank_paper_def)
    with clean 2(3) have "strip num = num" by simp
    with 2(2,5) rec src sql_trim_stripped [OF this] show False by auto
  qed
qed

lemma checkout_invoices_ok:
  assumes "drf_decimal rv" and "books_ok st" and "invoices_ok st"
    and "checkout rv ck cart user a st = Inr (t, st')"
  shows "invoices_ok st'"
proof -
  from checkout_result [OF assms(1,2,4)] obtain lines :: "priced_item list" and pay and number
    and st1 :: sales_store where
    t: "t = new_txn ck user a (\<Sum>l\<leftarrow>lines. pi_subtotal l) pay number st"
    and free: "\<forall>u \<in> set (ss_txns st). \<not> same_invoice t u"
    and st': "st' = st\<lparr>st_batches := st_batches st', ss_invoice_seqs := ss_invoice_seqs st1,
              ss_txns := ss_txns st @ [t], ss_items := ss_items st @ txn_items (tx_id t) st'\<rparr>" by metis
  have txns: "ss_txns st' = ss_txns st @ [t]" by (subst st') simp
  have "tx_invoice_year t = Some (created_year t)"
    unfolding t created_year_new_txn by (simp add: new_txn_def)
  moreover have "same_invoice u t \<Longrightarrow> same_invoice t u" for u unfolding same_invoice_def by metis
  ultimately show ?thesis using assms(3) free by (auto simp: invoices_ok_def txns)
qed

lemma checkout_stocked_iff:
  assumes "drf_decimal rv" and "books_ok st" and "catalog_ok st" and "invoices_ok st"
    and "sg_method a = PStr ''cash'' \<or> sg_method a = PStr ''online''"
    and "reject_invoice_discount rv (sg_discount_type a) (sg_discount_value a) = Inr ()"
    and "price_items rv cart = Inr lines"
    and "payment_values rv (\<Sum>l\<leftarrow>lines. pi_subtotal l) (method_text (sg_method a)) (sg_status a) (sg_tendered a) = Inr pay"
    and "assign_invoice (year_of (business_date ck a)) (sg_number a) st = Inr (number, st1)"
    and "\<And>p. sg_number a = Some p \<Longrightarrow> strip p \<noteq> [] \<Longrightarrow> strip p = p"
  shows "(\<exists>t st'. checkout rv ck cart user a st = Inr (t, st')) \<longleftrightarrow>
    (\<forall>n < length lines. pi_quantity (lines ! n) \<le>
       sellable (ck_line ck (Suc n)) (pi_product (lines ! n)) (st_batches st))"
proof -
  let ?t = "new_txn ck user a (\<Sum>l\<leftarrow>lines. pi_subtotal l) pay number st1"
  let ?st = "st1\<lparr>ss_txns := row_ins ?t (ss_txns st1)\<rparr>"
  note f = assign_invoice_frame [OF assms(9)]
  have same: "ss_txns st1 = ss_txns st" "st_batches st1 = st_batches st" "ss_items st1 = ss_items st"
    "st_products st1 = st_products st" "st_categories st1 = st_categories st" by (subst f, simp)+
  have free: "\<forall>u \<in> set (ss_txns st1). \<not> same_invoice ?t u"
    using assigned_number_unique [OF assms(4,9,10)] same by simp
  have "(\<exists>t st'. checkout rv ck cart user a st = Inr (t, st')) \<longleftrightarrow>
      (\<exists>st'. rfold (sell_line ck (tx_id ?t)) ?st (sorted_lines lines) = Inr st')"
    using assms(5-9) free
    by (auto simp: checkout_def record_sale_def insert_txn_def Let_def)
  also have "\<dots> \<longleftrightarrow> (\<forall>nl \<in> set (sorted_lines lines). pi_quantity (snd nl) \<le>
      sellable (ck_line ck (fst nl)) (pi_product (snd nl)) (st_batches ?st))"
  proof (rule sell_lines_iff)
    note l = price_items_ok [OF assms(1,7)]
    show "\<forall>nl \<in> set (sorted_lines lines). priced_ok (snd nl)" using l priced_sorted_lines by blast
    have "mset (map (\<lambda>nl. pi_product (snd nl)) (sorted_lines lines)) =
        mset (map pi_product (map snd (List.enumerate 1 lines)))"
      by (simp only: sorted_lines_def mset_map mset_sort image_mset.compositionality o_def)
    then show "distinct (map (\<lambda>nl. pi_product (snd nl)) (sorted_lines lines))"
      using l by (metis map_snd_enumerate mset_eq_imp_distinct_iff)
  qed (use assms(2,3) same in \<open>simp_all add: books_ok_def catalog_ok_def\<close>)
  also have "\<dots> \<longleftrightarrow> (\<forall>n < length lines. pi_quantity (lines ! n) \<le>
       sellable (ck_line ck (Suc n)) (pi_product (lines ! n)) (st_batches st))"
    using same by (simp add: ball_sorted_lines [of lines
          "\<lambda>n l. pi_quantity l \<le> sellable (ck_line ck n) (pi_product l) (st_batches st)"])
  finally show ?thesis .
qed

text \<open>
  a sale fails for stock only when stock is short. Once the cart, the payment, the discount check
  and the invoice number are accepted, on a catalogue with intact references the checkout succeeds
  exactly when every line's quantity is covered by the sellable stock of its product at the start of
  the sale: no line is starved by another, and no constraint of the database gets in the way.
\<close>

lemma checkout_succeeds_iff_stocked:
  assumes "drf_decimal rv" and "books_ok st" and "catalog_ok st" and "invoices_ok st"
    and "sg_method a = PStr ''cash'' \<or> sg_method a = PStr ''online''"
    and "reject_invoice_discount rv (sg_discount_type a) (sg_discount_value a) = Inr ()"
    and "price_items rv cart = Inr lines"
    and "payment_values rv (\<Sum>l\<leftarrow>lines. pi_subtotal l) (method_text (sg_method a)) (sg_status a) (sg_tendered a) = Inr pay"
    and "assign_invoice (year_of (business_date ck a)) (sg_number a) st = Inr (number, st1)"
    and "\<And>p. sg_number a = Some p \<Longrightarrow> strip p \<noteq> [] \<Longrightarrow> strip p = p"
  shows "(\<exists>t st'. checkout rv ck cart user a st = Inr (t, st')) \<longleftrightarrow>
    (\<forall>n < length lines. pi_quantity (lines ! n) \<le>
       sellable (ck_line ck (Suc n)) (pi_product (lines ! n)) (st_batches st))"
  by (rule checkout_stocked_iff [OF assms])

lemma checkout_succeeds_iff_stocked_witness:
  "(\<exists>t st'. checkout plain_dec_field demo_clock demo_cart 1 demo_args demo_sales = Inr (t, st')) \<longleftrightarrow>
   450 \<le> sellable 700010 1 (st_batches demo_sales)"
proof -
  let ?l = "\<lparr>pi_product = 1, pi_quantity = 450, pi_unit_price = 3333, pi_subtotal = 14999, pi_total = 14999\<rparr>"
  have lines: "price_items plain_dec_field demo_cart = Inr [?l]" by code_simp
  have disc: "reject_invoice_discount plain_dec_field (sg_discount_type demo_args) (sg_discount_value demo_args) = Inr ()"
    by code_simp
  have pay: "payment_values plain_dec_field (\<Sum>l\<leftarrow>[?l]. pi_subtotal l) (method_text (sg_method demo_args))
      (sg_status demo_args) (sg_tendered demo_args) = Inr (Some 30000, Some 15001)" by code_simp
  have "\<not> (case assign_invoice (year_of (business_date demo_clock demo_args)) (sg_number demo_args) demo_sales of
      Inl _ \<Rightarrow> True | Inr _ \<Rightarrow> False)" by code_simp
  then obtain number st1 where
    inv: "assign_invoice (year_of (business_date demo_clock demo_args)) (sg_number demo_args) demo_sales = Inr (number, st1)"
    by (auto split: sum.splits)
  have cat: "catalog_ok demo_sales" by code_simp
  have ok: "invoices_ok demo_sales" by (simp add: invoices_ok_def demo_sales_def)
  have m: "sg_method demo_args = PStr ''cash'' \<or> sg_method demo_args = PStr ''online''" by (simp add: demo_args_def)
  have clean: "strip p = p" if "sg_number demo_args = Some p" for p using that by (simp add: demo_args_def)
  from checkout_succeeds_iff_stocked [OF plain_dec_field_ok demo_books_ok cat ok m disc lines pay inv, of 1] clean
  show ?thesis by (simp add: demo_clock_def)
qed

text \<open>No step of a sale but the insertion of the receipt can violate a constraint.\<close>

lemma parse_decimal_no_integrity: "parse_decimal rv v n m d \<noteq> Inl IntegrityError"
  by (simp add: parse_decimal_def split: option.splits)

lemma reject_discount_no_integrity: "reject_invoice_discount rv k v \<noteq> Inl IntegrityError"
  by (auto simp: reject_invoice_discount_def rbind_Inl_iff parse_decimal_no_integrity split: if_splits)

lemma price_item_no_integrity: "price_item rv e \<noteq> Inl IntegrityError"
  by (auto simp: price_item_def rbind_Inl_iff parse_decimal_no_integrity reject_discount_no_integrity Let_def)

lemma price_loop_no_integrity: "price_loop rv seen es \<noteq> Inl IntegrityError"
  by (induction rv seen es rule: price_loop.induct) (auto simp: rbind_Inl_iff price_item_no_integrity)

lemma price_items_no_integrity: "price_items rv es \<noteq> Inl IntegrityError"
  by (auto simp: price_items_def rbind_Inl_iff price_loop_no_integrity split: if_splits)

lemma payment_values_no_integrity: "payment_values rv d m s a \<noteq> Inl IntegrityError"
  by (auto simp: payment_values_def rbind_Inl_iff parse_decimal_no_integrity split: if_splits option.splits)

lemma assign_invoice_no_integrity: "assign_invoice y p st \<noteq> Inl IntegrityError"
  by (cases "blank_paper p") (simp_all add: assign_invoice_automatic assign_invoice_manual split: option.splits)

lemma deduct_no_integrity: "deduct_product_batch d p q st \<noteq> Inl IntegrityError"
  by (simp add: deduct_product_batch_def Let_def split: prod.splits)

lemma item_loop_no_integrity: "item_loop t l p qs gs c st \<noteq> Inl IntegrityError"
  by (induction t l p qs gs c st rule: item_loop.induct) (simp_all add: Let_def split: option.splits)

lemma sell_line_no_integrity: "sell_line ck t st nl \<noteq> Inl IntegrityError"
  by (auto simp: sell_line_def rbind_Inl_iff deduct_no_integrity item_loop_no_integrity)

lemma sell_lines_no_integrity: "rfold (sell_line ck t) st nls \<noteq> Inl IntegrityError"
  by (induction nls arbitrary: st) (auto simp: rbind_Inl_iff sell_line_no_integrity)

lemmas no_integrity = reject_discount_no_integrity price_items_no_integrity payment_values_no_integrity
  assign_invoice_no_integrity sell_lines_no_integrity

text \<open>
  C16: the allocation keeps invoice numbers unique by itself. When the receipts of a year carry distinct
  numbers per source and a paper number comes without surrounding white space, a sale never runs into
  the unique constraint of the receipt table, and the receipts still carry distinct numbers afterwards.
\<close>

theorem checkout_invoice_unique:
  assumes "drf_decimal rv" and "books_ok st" and "invoices_ok st"
    and "\<And>p. sg_number a = Some p \<Longrightarrow> strip p = p"
  shows "checkout rv ck cart user a st \<noteq> Inl IntegrityError \<and>
    (\<forall>t st'. checkout rv ck cart user a st = Inr (t, st') \<longrightarrow> invoices_ok st')"
proof -
  have "record_sale ck user a lines pay st \<noteq> Inl IntegrityError" for lines pay
  proof
    assume "record_sale ck user a lines pay st = Inl IntegrityError"
    then obtain number st1 where
      n: "assign_invoice (year_of (business_date ck a)) (sg_number a) st = Inr (number, st1)"
      and "insert_txn (new_txn ck user a (\<Sum>l\<leftarrow>lines. pi_subtotal l) pay number st1) st1 = Inl IntegrityError"
      by (auto simp: record_sale_def rbind_Inl_iff no_integrity Let_def)
    then obtain u where u: "u \<in> set (ss_txns st1)"
      and same: "same_invoice (new_txn ck user a (\<Sum>l\<leftarrow>lines. pi_subtotal l) pay number st1) u"
      by (auto simp: insert_txn_def split: if_splits)
    have "ss_txns st1 = ss_txns st" by (subst assign_invoice_frame [OF n]) simp
    with assigned_number_unique [OF assms(3) n] assms(4) u same show False by simp
  qed
  then have "checkout rv ck cart user a st \<noteq> Inl IntegrityError"
    by (auto simp: checkout_def rbind_Inl_iff no_integrity split: if_splits)
  with checkout_invoices_ok [OF assms(1-3)] show ?thesis by blast
qed

theorem checkout_invoice_unique_witness:
  "checkout plain_dec_field demo_clock demo_cart 1 demo_args demo_sales = Inr demo_sold \<and>
   invoices_ok (snd demo_sold)"
proof -
  have ok: "invoices_ok demo_sales" by (simp add: invoices_ok_def demo_sales_def)
  have "strip p = p" if "sg_number demo_args = Some p" for p using that by (simp add: demo_args_def)
  from checkout_invoice_unique [OF plain_dec_field_ok demo_books_ok ok this, where ck = demo_clock and cart = demo_cart and user = 1]
  show ?thesis using demo_checkout by (metis prod.collapse)
qed

end
