(* ===== verification/Orders.thy ===== *)
theory Orders
  imports Checkout
begin

text \<open>
  \<^verbatim>\<open>sales/services/order_service.py\<close>: placing an order (which sells it at once) and voiding a sale. A
  void restores each item to the batch it came from, never above the received quantity and never to
  expired or disposed stock, writes one return event per item, and cancels the order of the sale.
  \<open>void_clock\<close> holds the clock readings: the date read for each item, the time each return is
  written, and the time of the void.
\<close>

definition plain_args :: "sale_args \<Rightarrow> sale_args" where
  "plain_args a = a\<lparr>sg_discount_type := PStr ''none'', sg_discount_value := PDec 0\<rparr>"

definition new_order_items :: "nat \<Rightarrow> priced_item list \<Rightarrow> order_item list \<Rightarrow> order_item list" where
  "new_order_items ord lines t =
     t @ map (\<lambda>(n, l). \<lparr>oi_id = new_pk oi_id t + n, oi_order = ord, oi_product = pi_product l,
                         oi_qty = pi_quantity l, oi_price = pi_unit_price l, oi_subtotal = pi_subtotal l,
                         oi_total = Some (pi_total l)\<rparr>) (List.enumerate 0 lines)"

definition save_order :: "order \<Rightarrow> sales_store \<Rightarrow> sales_store" where
  "save_order ord st = st\<lparr>ss_orders := row_save or_id ord (ss_orders st)\<rparr>"

definition place_order ::
    "dec_field \<Rightarrow> clock \<Rightarrow> nat \<Rightarrow> cart_entry list \<Rightarrow> nat \<Rightarrow> sale_args \<Rightarrow> sales_store \<Rightarrow> (order \<times> sales_store) res" where
  "place_order rv ck customer items handled_by a st =
     rbind (reject_invoice_discount rv (sg_discount_type a)
              (if sg_discount_value a = PNone then PDec 0 else sg_discount_value a)) (\<lambda>_.
     rbind (price_items rv items) (\<lambda>lines.
       let ord = \<lparr>or_id = new_pk or_id (ss_orders st), or_customer = customer, or_by = handled_by,
                  or_status = Fulfilled, or_warning = [], or_txn = None, or_created = ck_entered ck\<rparr>;
           st1 = st\<lparr>ss_orders := row_ins ord (ss_orders st),
                    ss_order_items := new_order_items (or_id ord) lines (ss_order_items st)\<rparr>
       in rbind (checkout rv ck items handled_by (plain_args (a\<lparr>sg_customer := Some customer\<rparr>)) st1)
            (\<lambda>(txn, st2).
              let ord' = ord\<lparr>or_txn := Some (tx_id txn), or_created := tx_created txn\<rparr>
              in Inr (ord', save_order ord' st2))))"

record void_clock =
  vk_day :: "nat \<Rightarrow> date"
  vk_return :: "nat \<Rightarrow> instant"
  vk_at :: instant

text \<open>\<^verbatim>\<open>StockReturn.sale_item\<close> is one to one: a second return of an item violates the constraint.\<close>

definition insert_return :: "stock_return \<Rightarrow> sales_store \<Rightarrow> sales_store res" where
  "insert_return r st =
     (if \<exists>x \<in> set (ss_returns st). sr_item x = sr_item r then Inl IntegrityError
      else Inr (st\<lparr>ss_returns := ss_returns st @ [r]\<rparr>))"

definition restore_amount :: "batch \<Rightarrow> dec \<Rightarrow> dec" where
  "restore_amount b quantity =
     (let restorable = pb_initial b - pb_remaining b in if 0 < restorable then min quantity restorable else 0)"

definition restored_batch :: "batch \<Rightarrow> dec \<Rightarrow> batch" where
  "restored_batch b amount =
     b\<lparr>pb_remaining := pb_remaining b + amount,
       pb_status := (if pb_status b = Depleted then Available else pb_status b)\<rparr>"

definition not_restorable :: "date \<Rightarrow> batch \<Rightarrow> bool" where
  "not_restorable today b \<longleftrightarrow> pb_status b = Expired \<or> pb_status b = Disposed \<or> pb_expiration b < today"

definition void_item :: "void_clock \<Rightarrow> string list \<times> sales_store \<Rightarrow> titem \<Rightarrow> (string list \<times> sales_store) res" where
  "void_item vk acc item =
     (let (skipped, st) = acc
      in case get_batch (st_batches st) (ti_batch item) of
           None \<Rightarrow> Inl (DoesNotExist ''ProductBatch'')
         | Some b \<Rightarrow>
             (if not_restorable (vk_day vk (ti_id item)) b
              then rbind (insert_return \<lparr>sr_item = ti_id item, sr_qty = 0, sr_created = vk_return vk (ti_id item)\<rparr> st)
                     (\<lambda>st'. Inr (skipped @ [pb_number b], st'))
              else let amount = restore_amount b (ti_qty item);
                       st1 = (if 0 < amount
                              then st\<lparr>st_batches := save_batch (restored_batch b amount) (st_batches st)\<rparr>
                              else st)
                   in rbind (insert_return \<lparr>sr_item = ti_id item, sr_qty = amount,
                                            sr_created = vk_return vk (ti_id item)\<rparr> st1)
                        (\<lambda>st'. Inr (skipped, st'))))"

text \<open>\<^verbatim>\<open>order_by\<close> the product and expiry of the item's batch, then the batch and the item.\<close>

definition void_order_key :: "sales_store \<Rightarrow> titem \<Rightarrow> nat \<times> date \<times> nat \<times> nat" where
  "void_order_key st item =
     (case get_batch (st_batches st) (ti_batch item) of
        Some b \<Rightarrow> (pb_product b, pb_expiration b, ti_batch item, ti_id item)
      | None \<Rightarrow> (0, 0, ti_batch item, ti_id item))"

definition cancel_orders :: "nat \<Rightarrow> string list \<Rightarrow> sales_store \<Rightarrow> sales_store" where
  "cancel_orders sale skipped st =
     st\<lparr>ss_orders := map (\<lambda>ord. if or_txn ord = Some sale
          then ord\<lparr>or_status := Cancelled, or_warning := skipped\<rparr> else ord) (ss_orders st)\<rparr>"

definition void_transaction ::
    "void_clock \<Rightarrow> nat \<Rightarrow> nat option \<Rightarrow> string \<Rightarrow> sales_store \<Rightarrow> ((txn \<times> string list) \<times> sales_store) res" where
  "void_transaction vk sale_id voided_by reason st =
     (case get_txn (ss_txns st) sale_id of
        None \<Rightarrow> Inl (DoesNotExist ''Transaction'')
      | Some t \<Rightarrow>
          if tx_source_ref t \<noteq> None \<and> tx_source_ref t \<noteq> Some []
          then Inl (ValueError ''Imported historical transactions cannot be cancelled.'')
          else if tx_voided t then Inl (ValueError ''This transaction has already been voided.'')
          else rbind (rfold (void_item vk) ([], st) (sort_key (void_order_key st) (txn_items sale_id st)))
                 (\<lambda>(skipped, st1).
                   let t' = t\<lparr>tx_voided := True, tx_voided_at := Some (vk_at vk), tx_voided_by := voided_by,
                              tx_void_reason := reason\<rparr>
                   in Inr ((t', skipped),
                           cancel_orders sale_id skipped (st1\<lparr>ss_txns := save_txn t' (ss_txns st1)\<rparr>))))"

definition void_fulfilled_order ::
    "void_clock \<Rightarrow> order \<Rightarrow> nat option \<Rightarrow> string \<Rightarrow> sales_store \<Rightarrow> ((txn \<times> string list) \<times> sales_store) res" where
  "void_fulfilled_order vk ord voided_by reason st =
     (case or_txn ord of
        None \<Rightarrow> Inl (ValueError ''This order has no linked transaction to void.'')
      | Some sale \<Rightarrow> void_transaction vk sale voided_by reason st)"


subsection \<open>Restoring one item\<close>

lemma restored_batch_fields [simp]:
  "pb_id (restored_batch b k) = pb_id b" "batch_core (restored_batch b k) = batch_core b"
  "pb_remaining (restored_batch b k) = pb_remaining b + k" "pb_initial (restored_batch b k) = pb_initial b"
  by (simp_all add: restored_batch_def batch_core_def)

lemma restore_amount_bounds:
  "0 \<le> q \<Longrightarrow> 0 \<le> restore_amount b q \<and> restore_amount b q \<le> q \<and>
    (pb_remaining b \<le> pb_initial b \<longrightarrow> pb_remaining b + restore_amount b q \<le> pb_initial b)"
  by (auto simp: restore_amount_def Let_def)

lemma batch_ok_restored:
  "batch_ok b \<Longrightarrow> 0 < k \<Longrightarrow> pb_remaining b + k \<le> pb_initial b \<Longrightarrow> pb_status b \<noteq> Disposed \<Longrightarrow>
   batch_ok (restored_batch b k)"
  by (auto simp: batch_ok_def restored_batch_def)

text \<open>How much a list of return events gives back to a batch, through the items they belong to.\<close>

definition item_batch :: "titem list \<Rightarrow> nat \<Rightarrow> nat option" where
  "item_batch items k = map_option ti_batch (row_get ti_id items k)"

definition returned_to :: "nat \<Rightarrow> titem list \<Rightarrow> stock_return list \<Rightarrow> dec" where
  "returned_to i items rs = (\<Sum>r\<leftarrow>rs. if item_batch items (sr_item r) = Some i then sr_qty r else 0)"

text \<open>What voiding may change: batch rows and new return events.\<close>

definition void_frame :: "sales_store \<Rightarrow> stock_return list \<Rightarrow> sales_store \<Rightarrow> bool" where
  "void_frame st rs st' \<longleftrightarrow>
     st' = st\<lparr>st_batches := st_batches st', ss_returns := ss_returns st @ rs\<rparr> \<and>
     stock_ok (st_batches st') \<and> map pb_id (st_batches st') = map pb_id (st_batches st) \<and>
     (\<forall>i. remaining_of i (st_batches st') =
          remaining_of i (st_batches st) + returned_to i (ss_items st) rs) \<and>
     (\<forall>i. map_option batch_core (get_batch (st_batches st') i) =
          map_option batch_core (get_batch (st_batches st) i))"

lemma returned_to_append [simp]: "returned_to i items (rs @ rs') = returned_to i items rs + returned_to i items rs'"
  by (simp add: returned_to_def)

lemma returned_to_Nil [simp]: "returned_to i items [] = 0"
  by (simp add: returned_to_def)

lemma void_item_result:
  assumes v: "void_item vk (sk, st) item = Inr (sk', st')" and ok: "stock_ok (st_batches st)"
    and item: "row_get ti_id (ss_items st) (ti_id item) = Some item" and q: "0 < ti_qty item"
  shows "\<exists>r. void_frame st [r] st' \<and> sr_item r = ti_id item \<and> 0 \<le> sr_qty r \<and> sr_qty r \<le> ti_qty item \<and>
    (\<forall>x \<in> set (ss_returns st). sr_item x \<noteq> ti_id item)"
proof -
  from v obtain b where b: "get_batch (st_batches st) (ti_batch item) = Some b"
    by (auto simp: void_item_def split: option.splits)
  note bok = stock_ok_get [OF ok b]
  let ?r = "\<lambda>k. \<lparr>sr_item = ti_id item, sr_qty = k, sr_created = vk_return vk (ti_id item)\<rparr>"
  have ib: "item_batch (ss_items st) (ti_id item) = Some (ti_batch item)" by (simp add: item_batch_def item)
  show ?thesis
  proof (cases "not_restorable (vk_day vk (ti_id item)) b \<or> \<not> 0 < restore_amount b (ti_qty item)")
    case True
    with v b have st': "st' = st\<lparr>ss_returns := ss_returns st @ [?r 0]\<rparr>"
      and n: "\<forall>x \<in> set (ss_returns st). sr_item x \<noteq> ti_id item"
      using restore_amount_bounds [of "ti_qty item" b] q
      by (auto simp: void_item_def insert_return_def Let_def split: if_splits)
    have "void_frame st [?r 0] st'" using ok by (simp add: void_frame_def st' returned_to_def)
    with n q show ?thesis by (intro exI [of _ "?r 0"]) simp
  next
    case False
    let ?k = "restore_amount b (ti_qty item)" and ?b = "restored_batch b (restore_amount b (ti_qty item))"
    from False v b have st': "st' = st\<lparr>st_batches := save_batch ?b (st_batches st), ss_returns := ss_returns st @ [?r ?k]\<rparr>"
      and n: "\<forall>x \<in> set (ss_returns st). sr_item x \<noteq> ti_id item"
      by (auto simp: void_item_def insert_return_def Let_def split: if_splits)
    note k = restore_amount_bounds [of "ti_qty item" b]
    have okb: "batch_ok ?b" using False bok k q
      by (intro batch_ok_restored) (auto simp: not_restorable_def batch_ok_def)
    have get: "get_batch (save_batch ?b (st_batches st)) i =
        (if i = ti_batch item then Some ?b else get_batch (st_batches st) i)" for i
      using b bok by (simp add: row_get_save)
    have "void_frame st [?r ?k] st'"
      unfolding void_frame_def st'
      using stock_ok_save [OF ok okb] b by (auto simp: remaining_of_def get returned_to_def ib)
    with n k q show ?thesis by (intro exI [of _ "?r ?k"]) simp
  qed
qed

lemma void_frame_trans:
  assumes 1: "void_frame st rs st1" and 2: "void_frame st1 rs' st2"
  shows "void_frame st (rs @ rs') st2"
proof -
  have e2: "st2 = st1\<lparr>st_batches := st_batches st2, ss_returns := ss_returns st1 @ rs'\<rparr>"
    using 2 by (simp add: void_frame_def)
  have e1: "st1 = st\<lparr>st_batches := st_batches st1, ss_returns := ss_returns st @ rs\<rparr>"
    using 1 by (simp add: void_frame_def)
  have "st2 = st\<lparr>st_batches := st_batches st2, ss_returns := ss_returns st @ rs @ rs'\<rparr>"
    using e1 e2 by (cases st; cases st1; cases st2) simp
  moreover have "ss_items st1 = ss_items st" by (subst e1) simp
  ultimately show ?thesis using 1 2 by (simp add: void_frame_def)
qed

lemma void_frame_fields:
  assumes "void_frame st rs st'"
  shows "ss_items st' = ss_items st" "ss_txns st' = ss_txns st" "ss_returns st' = ss_returns st @ rs"
    "ss_orders st' = ss_orders st" "st_adjustments st' = st_adjustments st"
proof -
  have e: "st' = st\<lparr>st_batches := st_batches st', ss_returns := ss_returns st @ rs\<rparr>"
    using assms by (simp add: void_frame_def)
  show "ss_items st' = ss_items st" "ss_txns st' = ss_txns st" "ss_returns st' = ss_returns st @ rs"
    "ss_orders st' = ss_orders st" "st_adjustments st' = st_adjustments st" by (subst e, simp)+
qed

lemma void_items_result:
  assumes "rfold (void_item vk) (sk, st) items = Inr (sk', st')" and "stock_ok (st_batches st)"
    and "\<forall>x \<in> set items. row_get ti_id (ss_items st) (ti_id x) = Some x \<and> 0 < ti_qty x"
  shows "\<exists>rs. void_frame st rs st' \<and> map sr_item rs = map ti_id items \<and>
    list_all2 (\<lambda>r x. 0 \<le> sr_qty r \<and> sr_qty r \<le> ti_qty x) rs items"
  using assms
proof (induction items arbitrary: sk st)
  case Nil
  then have "void_frame st [] st'" by (simp add: void_frame_def)
  then show ?case by (intro exI [of _ "[]"]) simp
next
  case (Cons x items)
  then obtain sk1 st1 where v: "void_item vk (sk, st) x = Inr (sk1, st1)"
    and rest: "rfold (void_item vk) (sk1, st1) items = Inr (sk', st')" by auto
  from void_item_result [OF v] Cons.prems obtain r where r: "void_frame st [r] st1" "sr_item r = ti_id x"
    "0 \<le> sr_qty r" "sr_qty r \<le> ti_qty x" by auto
  have "stock_ok (st_batches st1)" using r(1) by (simp add: void_frame_def)
  with Cons.IH [OF rest] Cons.prems(3) void_frame_fields(1) [OF r(1)] obtain rs where
    rs: "void_frame st1 rs st'" "map sr_item rs = map ti_id items"
      "list_all2 (\<lambda>r x. 0 \<le> sr_qty r \<and> sr_qty r \<le> ti_qty x) rs items" by auto
  from void_frame_trans [OF r(1) rs(1)] rs r show ?case by (intro exI [of _ "r # rs"]) simp
qed


subsection \<open>Voiding a sale\<close>

lemma void_unfold:
  assumes "void_transaction vk sale by reason st = Inr ((t', sk), st')"
  obtains t st1 where "get_txn (ss_txns st) sale = Some t" "\<not> tx_voided t"
    "rfold (void_item vk) ([], st) (sort_key (void_order_key st) (txn_items sale st)) = Inr (sk, st1)"
    "t' = t\<lparr>tx_voided := True, tx_voided_at := Some (vk_at vk), tx_voided_by := by, tx_void_reason := reason\<rparr>"
    "st' = cancel_orders sale sk (st1\<lparr>ss_txns := save_txn t' (ss_txns st1)\<rparr>)"
  using assms by (auto simp: void_transaction_def Let_def split: option.splits if_splits)

lemma txn_items_rows:
  "books_ok st \<Longrightarrow> \<forall>x \<in> set (txn_items sale st). row_get ti_id (ss_items st) (ti_id x) = Some x \<and> 0 < ti_qty x"
  by (auto simp: books_ok_def txn_items_def row_get_iff)

lemma item_batch_row: "keys_ok ti_id items \<Longrightarrow> x \<in> set items \<Longrightarrow> item_batch items (ti_id x) = Some (ti_batch x)"
proof -
  assume "keys_ok ti_id items" "x \<in> set items"
  then have "row_get ti_id items (ti_id x) = Some x" by (simp add: row_get_iff)
  then show ?thesis by (simp add: item_batch_def)
qed

lemma returned_le_sold:
  assumes "map sr_item rs = map ti_id xs" and "list_all2 (\<lambda>r x. 0 \<le> sr_qty r \<and> sr_qty r \<le> ti_qty x) rs xs"
    and "keys_ok ti_id items" and "set xs \<subseteq> set items"
  shows "0 \<le> returned_to i items rs \<and> returned_to i items rs \<le> sold_from i xs"
  using assms
proof (induction rs arbitrary: xs)
  case (Cons r rs)
  then obtain x xs' where xs: "xs = x # xs'" by (cases xs) auto
  with Cons have ih: "0 \<le> returned_to i items rs \<and> returned_to i items rs \<le> sold_from i xs'" by auto
  have "item_batch items (sr_item r) = Some (ti_batch x)" using Cons.prems xs item_batch_row by auto
  with ih Cons.prems xs show ?case by (auto simp: returned_to_def sold_from_def)
qed simp

lemma sold_from_mset: "mset xs = mset ys \<Longrightarrow> sold_from i xs = sold_from i ys"
proof -
  assume "mset xs = mset ys"
  then have "mset (map (\<lambda>x. if ti_batch x = i then ti_qty x else 0) xs) =
      mset (map (\<lambda>x. if ti_batch x = i then ti_qty x else 0) ys)" by simp
  then show ?thesis unfolding sold_from_def by (metis sum_mset_sum_list)
qed

lemma void_result:
  assumes ok: "books_ok st" and v: "void_transaction vk sale by reason st = Inr ((t', sk), st')"
  obtains t st1 rs where "get_txn (ss_txns st) sale = Some t" "\<not> tx_voided t"
    "t' = t\<lparr>tx_voided := True, tx_voided_at := Some (vk_at vk), tx_voided_by := by, tx_void_reason := reason\<rparr>"
    "void_frame st rs st1" "st' = cancel_orders sale sk (st1\<lparr>ss_txns := save_txn t' (ss_txns st1)\<rparr>)"
    "mset (map sr_item rs) = mset (map ti_id (txn_items sale st))"
    "\<forall>r \<in> set rs. 0 \<le> sr_qty r \<and> (\<exists>x \<in> set (txn_items sale st). sr_item r = ti_id x \<and> sr_qty r \<le> ti_qty x)"
    "\<forall>i. 0 \<le> returned_to i (ss_items st) rs \<and> returned_to i (ss_items st) rs \<le> sold_from i (txn_items sale st)"
  using v
proof (cases rule: void_unfold)
  case (1 t st1)
  let ?xs = "sort_key (void_order_key st) (txn_items sale st)"
  have rows: "\<forall>x \<in> set ?xs. row_get ti_id (ss_items st) (ti_id x) = Some x \<and> 0 < ti_qty x"
    using txn_items_rows [OF ok] by simp
  have "stock_ok (st_batches st)" and keys: "keys_ok ti_id (ss_items st)" using ok by (simp_all add: books_ok_def)
  with void_items_result [OF 1(3)] rows obtain rs where
    rs: "void_frame st rs st1" "map sr_item rs = map ti_id ?xs"
      "list_all2 (\<lambda>r x. 0 \<le> sr_qty r \<and> sr_qty r \<le> ti_qty x) rs ?xs" by blast
  have m: "mset (map sr_item rs) = mset (map ti_id (txn_items sale st))"
    unfolding rs(2) by (simp only: mset_map mset_sort)
  have sub: "set ?xs \<subseteq> set (ss_items st)" by (auto simp: txn_items_def)
  have b: "0 \<le> returned_to i (ss_items st) rs \<and> returned_to i (ss_items st) rs \<le> sold_from i (txn_items sale st)" for i
    using returned_le_sold [OF rs(2,3) keys sub, of i] sold_from_mset [of ?xs "txn_items sale st" i] by simp
  have "\<exists>x \<in> set (txn_items sale st). sr_item r = ti_id x \<and> sr_qty r \<le> ti_qty x" "0 \<le> sr_qty r"
    if "r \<in> set rs" for r
  proof -
    from that obtain n where n: "n < length rs" "r = rs ! n" by (auto simp: in_set_conv_nth)
    then have len: "n < length ?xs" using rs(2) by (metis length_map)
    have "sr_item r = ti_id (?xs ! n)" using rs(2) n len by (metis nth_map)
    moreover have "0 \<le> sr_qty r \<and> sr_qty r \<le> ti_qty (?xs ! n)" using list_all2_nthD [OF rs(3) n(1)] n(2) by simp
    moreover have "?xs ! n \<in> set (txn_items sale st)" using len by (metis nth_mem set_sort)
    ultimately show "\<exists>x \<in> set (txn_items sale st). sr_item r = ti_id x \<and> sr_qty r \<le> ti_qty x" "0 \<le> sr_qty r"
      by blast+
  qed
  with that 1 rs(1) m b show ?thesis by blast
qed

lemma cancel_orders_fields [simp]:
  "ss_txns (cancel_orders sale sk st) = ss_txns st" "st_batches (cancel_orders sale sk st) = st_batches st"
  "ss_items (cancel_orders sale sk st) = ss_items st" "ss_returns (cancel_orders sale sk st) = ss_returns st"
  "st_adjustments (cancel_orders sale sk st) = st_adjustments st"
  by (simp_all add: cancel_orders_def)

text \<open>
  C6: a void returns at most what was sold. Every item of the sale gets exactly one return event,
  between zero and the quantity sold; each batch gains exactly the returns recorded for it, stays
  within its received quantity, and every other fact of the stock is kept; the receipt is marked void
  and the orders of the sale are cancelled.
\<close>

theorem void_restores_exactly:
  assumes "books_ok st" and "void_transaction vk sale by reason st = Inr ((t', sk), st')"
  shows "\<exists>rs. ss_returns st' = ss_returns st @ rs \<and>
    mset (map sr_item rs) = mset (map ti_id (txn_items sale st)) \<and>
    (\<forall>r \<in> set rs. 0 \<le> sr_qty r \<and> (\<exists>x \<in> set (txn_items sale st). sr_item r = ti_id x \<and> sr_qty r \<le> ti_qty x)) \<and>
    (\<forall>i. remaining_of i (st_batches st') = remaining_of i (st_batches st) + returned_to i (ss_items st) rs \<and>
         returned_to i (ss_items st) rs \<le> sold_from i (txn_items sale st)) \<and>
    books_ok st' \<and> get_txn (ss_txns st') sale = Some t' \<and> tx_voided t' \<and> ss_items st' = ss_items st \<and>
    (\<forall>ord \<in> set (ss_orders st'). or_txn ord = Some sale \<longrightarrow> or_status ord = Cancelled)"
proof -
  from void_result [OF assms] obtain t st1 rs where
    t: "get_txn (ss_txns st) sale = Some t"
      "t' = t\<lparr>tx_voided := True, tx_voided_at := Some (vk_at vk), tx_voided_by := by, tx_void_reason := reason\<rparr>"
    and fr: "void_frame st rs st1"
    and st': "st' = cancel_orders sale sk (st1\<lparr>ss_txns := save_txn t' (ss_txns st1)\<rparr>)"
    and rs: "mset (map sr_item rs) = mset (map ti_id (txn_items sale st))"
      "\<forall>r \<in> set rs. 0 \<le> sr_qty r \<and> (\<exists>x \<in> set (txn_items sale st). sr_item r = ti_id x \<and> sr_qty r \<le> ti_qty x)"
      "\<forall>i. 0 \<le> returned_to i (ss_items st) rs \<and> returned_to i (ss_items st) rs \<le> sold_from i (txn_items sale st)" .
  note f = void_frame_fields [OF fr]
  have id: "tx_id t' = sale" using row_get_Some [OF t(1)] t(2) by simp
  have "get_txn (ss_txns st') sale = Some t'" using t(1) id by (simp add: st' f row_get_save)
  moreover have "books_ok st'"
  proof -
    have "tx_id ` set (save_txn t' (ss_txns st)) = tx_id ` set (ss_txns st)"
      by (metis list.set_map map_key_row_save)
    with assms(1) fr show ?thesis by (simp add: books_ok_def st' f void_frame_def)
  qed
  moreover have "\<forall>ord \<in> set (ss_orders st'). or_txn ord = Some sale \<longrightarrow> or_status ord = Cancelled"
    by (auto simp: st' cancel_orders_def)
  moreover have "\<forall>i. remaining_of i (st_batches st') = remaining_of i (st_batches st) + returned_to i (ss_items st) rs"
    using fr by (simp add: st' void_frame_def)
  ultimately show ?thesis using rs t(2) f by (intro exI [of _ rs]) (simp add: st')
qed

text \<open>
  C7: a sale is voided at most once. After a successful void, a second one fails with the message of
  the service, whether it comes through the receipt or through the order, at any time and by anyone,
  so the same stock is not restored twice.
\<close>

theorem void_only_once:
  assumes "books_ok st" and "void_transaction vk sale by reason st = Inr (r, st')"
    and "or_txn ord = Some sale"
  shows "void_transaction vk2 sale by2 reason2 st' = Inl (ValueError ''This transaction has already been voided.'') \<and>
    void_fulfilled_order vk2 ord by2 reason2 st' = Inl (ValueError ''This transaction has already been voided.'')"
proof -
  obtain t' sk where r: "r = (t', sk)" by (cases r)
  from assms(2) [unfolded r] obtain t where t: "get_txn (ss_txns st) sale = Some t"
    "\<not> (tx_source_ref t \<noteq> None \<and> tx_source_ref t \<noteq> Some [])"
    by (auto simp: void_transaction_def split: option.splits if_splits)
  from void_result [OF assms(1) assms(2) [unfolded r]] obtain st1 rs where
    t': "t' = t\<lparr>tx_voided := True, tx_voided_at := Some (vk_at vk), tx_voided_by := by, tx_void_reason := reason\<rparr>"
    and fr: "void_frame st rs st1"
    and st': "st' = cancel_orders sale sk (st1\<lparr>ss_txns := save_txn t' (ss_txns st1)\<rparr>)"
    using t(1) by (metis option.inject)
  have "tx_id t' = sale" using row_get_Some [OF t(1)] t' by simp
  then have g: "get_txn (ss_txns st') sale = Some t'"
    using t(1) by (simp add: st' void_frame_fields [OF fr] row_get_save)
  have "void_transaction vk2 sale by2 reason2 st' = Inl (ValueError ''This transaction has already been voided.'')"
    using t(2) unfolding void_transaction_def g by (simp add: t')
  then show ?thesis by (simp add: void_fulfilled_order_def assms(3))
qed


subsection \<open>Voiding undoes a sale\<close>

text \<open>A batch that a void on the given day may restore to.\<close>

definition active_batch :: "date \<Rightarrow> batch list \<Rightarrow> nat \<Rightarrow> bool" where
  "active_batch day t i \<longleftrightarrow> (\<exists>b. get_batch t i = Some b \<and>
     (pb_status b = Available \<or> pb_status b = Depleted) \<and> day \<le> pb_expiration b)"

definition initial_of :: "nat \<Rightarrow> batch list \<Rightarrow> dec" where
  "initial_of i t = (case get_batch t i of Some b \<Rightarrow> pb_initial b | None \<Rightarrow> 0)"

lemma initial_of_core:
  "map_option batch_core (get_batch t' i) = map_option batch_core (get_batch t i) \<Longrightarrow> initial_of i t' = initial_of i t"
  by (auto simp: initial_of_def batch_core_def split: option.splits)

lemma deduct_active:
  assumes ok: "stock_ok (st_batches st)" and d: "deduct_product_batch today p q st = Inr (consumed, st')"
  shows "(b', k) \<in> set consumed \<Longrightarrow> day \<le> today \<Longrightarrow> active_batch day (st_batches st') (pb_id b')"
    and "active_batch day (st_batches st) i \<Longrightarrow> active_batch day (st_batches st') i"
proof -
  have after: "pb_status (fefo_after b k) = Available \<or> pb_status (fefo_after b k) = Depleted"
    if "pb_status b = Available" for b k using that by (simp add: fefo_after_def Let_def)
  show "active_batch day (st_batches st') (pb_id b')" if x: "(b', k) \<in> set consumed" and "day \<le> today" for b' k
  proof -
    from deduct_get [OF ok d x] obtain b where b: "fefo_eligible today p b" "b' = fefo_after b k"
      "get_batch (st_batches st') (pb_id b') = Some b'" by blast
    then have "pb_status b = Available" "today \<le> pb_expiration b'" by (simp_all add: fefo_eligible_def)
    with after [of b k] b that(2) show ?thesis unfolding active_batch_def by auto
  qed
  show "active_batch day (st_batches st') i" if a: "active_batch day (st_batches st) i"
  proof (cases "i \<in> (pb_id \<circ> fst) ` set consumed")
    case True
    then obtain b' k where x: "(b', k) \<in> set consumed" "i = pb_id b'" by auto
    from deduct_get [OF ok d x(1)] obtain b where b: "get_batch (st_batches st) i = Some b"
      "fefo_eligible today p b" "b' = fefo_after b k" "get_batch (st_batches st') i = Some b'"
      using x(2) by blast
    then have "pb_status b = Available" "pb_expiration b' = pb_expiration b" by (simp_all add: fefo_eligible_def)
    with after [of b k] b a show ?thesis unfolding active_batch_def by auto
  next
    case False
    with a deduct_get_other [OF d False] show ?thesis by (simp add: active_batch_def)
  qed
qed

lemma sell_line_active:
  assumes s: "sell_line ck txn st (n, l) = Inr st'" and ok: "stock_ok (st_batches st)"
    and keys: "keys_ok ti_id (ss_items st)" and day: "day \<le> ck_line ck n"
  shows "\<exists>new. ss_items st' = ss_items st @ new \<and> (\<forall>x \<in> set new. active_batch day (st_batches st') (ti_batch x)) \<and>
    (\<forall>i. active_batch day (st_batches st) i \<longrightarrow> active_batch day (st_batches st') i)"
proof -
  from s obtain consumed st1 where
    d: "deduct_product_batch (ck_line ck n) (pi_product l) (pi_quantity l) st = Inr (consumed, st1)"
    and loop: "item_loop txn n (pi_unit_price l) 0 0 consumed st1 = Inr st'"
    by (auto simp: sell_line_def)
  have "st1 = st\<lparr>st_batches := st_batches st1\<rparr>" by (rule deduct_more [OF d])
  then have i1: "ss_items st1 = ss_items st" by (cases st; cases st1) simp
  from item_loop_items [OF loop] keys i1 obtain new where
    new: "st' = st1\<lparr>ss_items := ss_items st @ new\<rparr>" "line_items txn n (pi_unit_price l) consumed new"
    by (auto simp: money_def)
  have "active_batch day (st_batches st') (ti_batch x)" if "x \<in> set new" for x
  proof -
    from that have "(ti_batch x, ti_qty x) \<in> set (map (\<lambda>i. (ti_batch i, ti_qty i)) new)" by simp
    then have "(ti_batch x, ti_qty x) \<in> set (map (\<lambda>x. (pb_id (fst x), snd x)) consumed)"
      using new(2) by (simp only: line_items_def)
    then obtain b where b: "(b, ti_qty x) \<in> set consumed" "ti_batch x = pb_id b" by auto
    from deduct_active(1) [OF ok d b(1) day] b(2) show ?thesis by (simp add: new(1))
  qed
  with deduct_active(2) [OF ok d] new(1) show ?thesis by (intro exI [of _ new]) auto
qed

lemma sell_lines_active:
  assumes "rfold (sell_line ck txn) st nls = Inr st'" and "stock_ok (st_batches st)"
    and "keys_ok ti_id (ss_items st)" and "\<forall>nl \<in> set nls. priced_ok (snd nl)" and "\<And>n. day \<le> ck_line ck n"
  shows "\<exists>new. ss_items st' = ss_items st @ new \<and> (\<forall>x \<in> set new. active_batch day (st_batches st') (ti_batch x)) \<and>
    (\<forall>i. active_batch day (st_batches st) i \<longrightarrow> active_batch day (st_batches st') i)"
  using assms
proof (induction nls arbitrary: st)
  case Nil
  then show ?case by (intro exI [of _ "[]"]) simp
next
  case (Cons nl nls)
  then obtain st1 where s: "sell_line ck txn st nl = Inr st1" and r: "rfold (sell_line ck txn) st1 nls = Inr st'"
    by auto
  from sell_line_result [OF s] Cons.prems obtain nw where "sale_frame st nw st1" by auto
  then have ok1: "stock_ok (st_batches st1)" "keys_ok ti_id (ss_items st1)" by (simp_all add: sale_frame_def)
  obtain n l where nl: "nl = (n, l)" by (cases nl)
  from sell_line_active [OF s [unfolded nl] Cons.prems(2,3) Cons.prems(5)] obtain new1 where
    1: "ss_items st1 = ss_items st @ new1" "\<forall>x \<in> set new1. active_batch day (st_batches st1) (ti_batch x)"
      "\<forall>i. active_batch day (st_batches st) i \<longrightarrow> active_batch day (st_batches st1) i" by blast
  from Cons.IH [OF r ok1] Cons.prems(4,5) obtain new2 where
    2: "ss_items st' = ss_items st1 @ new2" "\<forall>x \<in> set new2. active_batch day (st_batches st') (ti_batch x)"
      "\<forall>i. active_batch day (st_batches st1) i \<longrightarrow> active_batch day (st_batches st') i" by auto
  with 1 show ?case by (intro exI [of _ "new1 @ new2"]) auto
qed

lemma void_item_full:
  assumes b: "get_batch (st_batches st) (ti_batch item) = Some b" and "\<not> not_restorable (vk_day vk (ti_id item)) b"
    and "0 < ti_qty item" and "pb_remaining b + ti_qty item \<le> pb_initial b"
    and "\<forall>r \<in> set (ss_returns st). sr_item r \<noteq> ti_id item"
  shows "void_item vk (sk, st) item = Inr (sk, st\<lparr>st_batches := save_batch (restored_batch b (ti_qty item)) (st_batches st),
    ss_returns := ss_returns st @ [\<lparr>sr_item = ti_id item, sr_qty = ti_qty item, sr_created = vk_return vk (ti_id item)\<rparr>]\<rparr>)"
proof -
  have "restore_amount b (ti_qty item) = ti_qty item" using assms(3,4) by (simp add: restore_amount_def Let_def)
  with assms show ?thesis by (auto simp: void_item_def insert_return_def Let_def)
qed

lemma void_items_full:
  assumes "\<And>k. vk_day vk k \<le> day" and "\<forall>x \<in> set items. active_batch day (st_batches st) (ti_batch x) \<and> 0 < ti_qty x"
    and "\<forall>i. remaining_of i (st_batches st) + sold_from i items \<le> initial_of i (st_batches st)"
    and "\<forall>x \<in> set items. \<forall>r \<in> set (ss_returns st). sr_item r \<noteq> ti_id x" and "distinct (map ti_id items)"
    and "keys_ok pb_id (st_batches st)"
  shows "\<exists>st'. rfold (void_item vk) (sk, st) items = Inr (sk, st') \<and>
    (\<forall>i. remaining_of i (st_batches st') = remaining_of i (st_batches st) + sold_from i items)"
  using assms
proof (induction items arbitrary: st)
  case (Cons x items)
  from Cons.prems(2) obtain b where b: "get_batch (st_batches st) (ti_batch x) = Some b"
    "pb_status b = Available \<or> pb_status b = Depleted" "day \<le> pb_expiration b" by (auto simp: active_batch_def)
  have "0 \<le> sold_from (ti_batch x) items" unfolding sold_from_def using Cons.prems(2)
    by (intro sum_list_nonneg_all) auto
  with Cons.prems(3) [rule_format, of "ti_batch x"] b(1) have room: "pb_remaining b + ti_qty x \<le> pb_initial b"
    by (simp add: sold_from_def remaining_of_def initial_of_def)
  let ?b = "restored_batch b (ti_qty x)"
  let ?st = "st\<lparr>st_batches := save_batch ?b (st_batches st),
    ss_returns := ss_returns st @ [\<lparr>sr_item = ti_id x, sr_qty = ti_qty x, sr_created = vk_return vk (ti_id x)\<rparr>]\<rparr>"
  have step: "void_item vk (sk, st) x = Inr (sk, ?st)"
    using b Cons.prems(1) [of "ti_id x"] Cons.prems(2,4) room
    by (intro void_item_full) (auto simp: not_restorable_def)
  have bid: "pb_id b = ti_batch x" using row_get_Some [OF b(1)] by simp
  have get: "get_batch (save_batch ?b (st_batches st)) i = (if i = ti_batch x then Some ?b else get_batch (st_batches st) i)" for i
    using b(1) bid by (simp add: row_get_save)
  have rem: "remaining_of i (st_batches ?st) = remaining_of i (st_batches st) + (if ti_batch x = i then ti_qty x else 0)" for i
    using b(1) by (auto simp: remaining_of_def get)
  have "\<exists>st'. rfold (void_item vk) (sk, ?st) items = Inr (sk, st') \<and>
      (\<forall>i. remaining_of i (st_batches st') = remaining_of i (st_batches ?st) + sold_from i items)"
  proof (rule Cons.IH)
    show "\<And>k. vk_day vk k \<le> day" by (rule Cons.prems(1))
    have "active_batch day (st_batches ?st) i" if "active_batch day (st_batches st) i" for i
      using that b by (auto simp: active_batch_def get) (auto simp: restored_batch_def)
    with Cons.prems(2) show "\<forall>x \<in> set items. active_batch day (st_batches ?st) (ti_batch x) \<and> 0 < ti_qty x" by simp
    have init: "initial_of i (st_batches ?st) = initial_of i (st_batches st)" for i
      using b(1) by (auto simp: initial_of_def get)
    show "\<forall>i. remaining_of i (st_batches ?st) + sold_from i items \<le> initial_of i (st_batches ?st)"
    proof
      fix i
      have "sold_from i (x # items) = (if ti_batch x = i then ti_qty x else 0) + sold_from i items"
        by (simp add: sold_from_def)
      with Cons.prems(3) [rule_format, of i]
      show "remaining_of i (st_batches ?st) + sold_from i items \<le> initial_of i (st_batches ?st)"
        unfolding rem init by linarith
    qed
    show "\<forall>y \<in> set items. \<forall>r \<in> set (ss_returns ?st). sr_item r \<noteq> ti_id y"
      using Cons.prems(4,5) by auto
  qed (use Cons.prems(5,6) in simp_all)
  then show ?case using step rem by (auto simp: sold_from_def)
qed simp

lemma checkout_active:
  assumes rv: "drf_decimal rv" and ok: "books_ok st" and c: "checkout rv ck cart user a st = Inr (t, st')"
    and day: "\<And>n. day \<le> ck_line ck n"
  shows "\<forall>x \<in> set (txn_items (tx_id t) st'). active_batch day (st_batches st') (ti_batch x)"
proof -
  from c obtain lines pay where l: "price_items rv cart = Inr lines"
    and r: "record_sale ck user a lines pay st = Inr (t, st')" by (rule checkout_unfold)
  have priced: "list_all priced_ok lines" using price_items_ok [OF rv l] by blast
  from r obtain number st1 st2 where
    n: "assign_invoice (year_of (business_date ck a)) (sg_number a) st = Inr (number, st1)"
    and i: "insert_txn t st1 = Inr st2" and f: "rfold (sell_line ck (tx_id t)) st2 (sorted_lines lines) = Inr st'"
    by (auto simp: record_sale_def Let_def)
  note e = assign_invoice_frame [OF n]
  have same: "st_batches st2 = st_batches st" "ss_items st2 = ss_items st"
    using i by (auto simp: insert_txn_def split: if_splits) (subst e, simp)+
  from sell_lines_active [OF f _ _ priced_sorted_lines [OF priced] day] ok obtain new where
    new: "ss_items st' = ss_items st @ new" "\<forall>x \<in> set new. active_batch day (st_batches st') (ti_batch x)"
    by (auto simp: same books_ok_def)
  have "txn_items (tx_id t) st' = new"
    using checkout_stock [OF rv ok c] new(1) by (metis same_append_eq)
  with new show ?thesis by simp
qed

lemma remaining_le_initial: "stock_ok t \<Longrightarrow> remaining_of i t \<le> initial_of i t"
  using stock_ok_get [of t i] by (auto simp: remaining_of_def initial_of_def batch_ok_def split: option.splits)

text \<open>
  C17: voiding a sale on the day it was made undoes it. If a sale succeeds and is voided before any
  other change, on a day not later than the sale, the void succeeds, skips no batch, and every batch
  holds exactly what it held before the sale.
\<close>

theorem void_undoes_checkout:
  assumes "drf_decimal rv" and "books_ok st" and "checkout rv ck cart user a st = Inr (t, st')"
    and day: "\<And>k. vk_day vk k \<le> day" "\<And>n. day \<le> ck_line ck n"
    and returns: "\<forall>r \<in> set (ss_returns st). sr_item r \<in> ti_id ` set (ss_items st)"
  shows "\<exists>t' st''. void_transaction vk (tx_id t) by reason st' = Inr ((t', []), st'') \<and>
    (\<forall>i. remaining_of i (st_batches st'') = remaining_of i (st_batches st))"
proof -
  let ?items = "txn_items (tx_id t) st'" and ?xs = "sort_key (void_order_key st') (txn_items (tx_id t) st')"
  note c = checkout_stock [OF assms(1-3)]
  from checkout_result [OF assms(1-3)] obtain lines :: "priced_item list" and pay and number and st1 :: sales_store
    where t: "t = new_txn ck user a (\<Sum>l\<leftarrow>lines. pi_subtotal l) pay number st"
      and st': "st' = st\<lparr>st_batches := st_batches st', ss_invoice_seqs := ss_invoice_seqs st1,
              ss_txns := ss_txns st @ [t], ss_items := ss_items st @ ?items\<rparr>"
      and got: "get_txn (ss_txns st') (tx_id t) = Some t" by metis
  have ret: "ss_returns st' = ss_returns st" by (subst st') simp
  have keys: "keys_ok ti_id (ss_items st @ ?items)" "stock_ok (st_batches st')"
    and pos: "\<forall>x \<in> set ?items. 0 < ti_qty x" using c by (auto simp: books_ok_def)
  have "\<exists>st2. rfold (void_item vk) ([], st') ?xs = Inr ([], st2) \<and>
      (\<forall>i. remaining_of i (st_batches st2) = remaining_of i (st_batches st') + sold_from i ?xs)"
  proof (rule void_items_full [OF day(1)])
    show "\<forall>x \<in> set ?xs. active_batch day (st_batches st') (ti_batch x) \<and> 0 < ti_qty x"
      using checkout_active [OF assms(1-3) day(2)] pos by simp
    show "\<forall>i. remaining_of i (st_batches st') + sold_from i ?xs \<le> initial_of i (st_batches st')"
    proof
      fix i
      have "remaining_of i (st_batches st') + sold_from i ?items = remaining_of i (st_batches st)" using c by simp
      also have "\<dots> \<le> initial_of i (st_batches st)"
        using assms(2) by (intro remaining_le_initial) (simp add: books_ok_def)
      also have "\<dots> = initial_of i (st_batches st')" using c by (intro initial_of_core) simp
      finally show "remaining_of i (st_batches st') + sold_from i ?xs \<le> initial_of i (st_batches st')"
        using sold_from_mset [of ?xs ?items i] by simp
    qed
    show "\<forall>x \<in> set ?xs. \<forall>r \<in> set (ss_returns st'). sr_item r \<noteq> ti_id x"
      using keys(1) returns by (fastforce simp: ret keys_ok_def)
    have "mset (map ti_id ?xs) = mset (map ti_id ?items)" by simp
    with keys(1) show "distinct (map ti_id ?xs)" by (metis distinct_append keys_ok_def map_append mset_eq_imp_distinct_iff)
    show "keys_ok pb_id (st_batches st')" using keys(2) by (simp add: stock_ok_def)
  qed
  then obtain st2 where f: "rfold (void_item vk) ([], st') ?xs = Inr ([], st2)"
    and rem: "\<forall>i. remaining_of i (st_batches st2) = remaining_of i (st_batches st') + sold_from i ?xs" by blast
  have fresh: "\<not> tx_voided t" "tx_source_ref t = None" by (simp_all add: t new_txn_def)
  have "remaining_of i (st_batches st2) = remaining_of i (st_batches st)" for i
    using rem c sold_from_mset [of ?xs ?items i] by simp
  with f got fresh show ?thesis by (simp add: void_transaction_def Let_def)
qed



subsection \<open>A sample void\<close>

definition demo_void_clock :: void_clock where
  "demo_void_clock = \<lparr>vk_day = (\<lambda>k. 700010), vk_return = (\<lambda>k. at_hour 700010 17), vk_at = at_hour 700010 17\<rparr>"

definition demo_void :: "(txn \<times> string list) \<times> sales_store" where
  "demo_void = (case void_transaction demo_void_clock 1 (Some 1) ''wrong item'' (snd demo_sold) of
     Inr r \<Rightarrow> r | Inl _ \<Rightarrow> ((fst demo_sold, []), snd demo_sold))"

lemma demo_sold_ok: "books_ok (snd demo_sold)"
  using checkout_stock [OF plain_dec_field_ok demo_books_ok, of demo_clock demo_cart 1 demo_args
      "fst demo_sold" "snd demo_sold"] demo_checkout by simp

lemma demo_voided:
  "void_transaction demo_void_clock 1 (Some 1) ''wrong item'' (snd demo_sold) =
     Inr ((fst (fst demo_void), snd (fst demo_void)), snd demo_void)"
proof -
  have "\<not> (case void_transaction demo_void_clock 1 (Some 1) ''wrong item'' (snd demo_sold) of
      Inl _ \<Rightarrow> True | Inr _ \<Rightarrow> False)" by code_simp
  then show ?thesis by (auto simp: demo_void_def split: sum.splits)
qed

theorem void_restores_exactly_witness:
  "void_transaction demo_void_clock 1 (Some 1) ''wrong item'' (snd demo_sold) =
     Inr ((fst (fst demo_void), snd (fst demo_void)), snd demo_void) \<and>
   books_ok (snd demo_void) \<and> get_txn (ss_txns (snd demo_void)) 1 = Some (fst (fst demo_void))"
  using demo_voided void_restores_exactly [OF demo_sold_ok demo_voided] by blast

theorem void_only_once_witness:
  "void_transaction demo_void_clock 1 None [] (snd demo_void) =
     Inl (ValueError ''This transaction has already been voided.'')"
proof -
  let ?o = "\<lparr>or_id = 1, or_customer = 1, or_by = 1, or_status = Fulfilled, or_warning = [], or_txn = Some 1,
     or_created = 0\<rparr>"
  have "or_txn ?o = Some 1" by simp
  from void_only_once [OF demo_sold_ok demo_voided this] show ?thesis by blast
qed

theorem void_undoes_checkout_witness:
  "\<exists>t' st''. void_transaction demo_void_clock (tx_id (fst demo_sold)) (Some 1) ''wrong item'' (snd demo_sold) =
     Inr ((t', []), st'') \<and>
   (\<forall>i. remaining_of i (st_batches st'') = remaining_of i (st_batches demo_sales))"
proof (rule void_undoes_checkout [OF plain_dec_field_ok demo_books_ok])
  show "checkout plain_dec_field demo_clock demo_cart 1 demo_args demo_sales = Inr (fst demo_sold, snd demo_sold)"
    using demo_checkout by simp
  show "vk_day demo_void_clock k \<le> 700010" for k by (simp add: demo_void_clock_def)
  show "700010 \<le> ck_line demo_clock n" for n by (simp add: demo_clock_def)
  show "\<forall>r \<in> set (ss_returns demo_sales). sr_item r \<in> ti_id ` set (ss_items demo_sales)"
    by (simp add: demo_sales_def)
qed


subsection \<open>Placing an order\<close>

lemma place_order_unfold:
  assumes "place_order rv ck customer items user a st = Inr (ord', st')"
  obtains lines ord txn st2 where "price_items rv items = Inr lines"
    "ord = \<lparr>or_id = new_pk or_id (ss_orders st), or_customer = customer, or_by = user,
            or_status = Fulfilled, or_warning = [], or_txn = None, or_created = ck_entered ck\<rparr>"
    "checkout rv ck items user (plain_args (a\<lparr>sg_customer := Some customer\<rparr>))
       (st\<lparr>ss_orders := row_ins ord (ss_orders st),
           ss_order_items := new_order_items (or_id ord) lines (ss_order_items st)\<rparr>) = Inr (txn, st2)"
    "ord' = ord\<lparr>or_txn := Some (tx_id txn), or_created := tx_created txn\<rparr>" "st' = save_order ord' st2"
  using assms by (auto simp: place_order_def Let_def)

lemma checkout_frame:
  assumes "drf_decimal rv" and "books_ok st" and "checkout rv ck cart user a st = Inr (t, st')"
  shows "ss_orders st' = ss_orders st" "ss_order_items st' = ss_order_items st"
    "ss_returns st' = ss_returns st" "st_adjustments st' = st_adjustments st" "ss_submissions st' = ss_submissions st"
    "ss_customers st' = ss_customers st"
    "tx_customer t = sg_customer a" "\<not> tx_voided t" "tx_handled_by t = user" "tx_source_ref t = None"
    "tx_encoded_at t = None" "tx_request t = None"
proof -
  from checkout_result [OF assms] obtain lines :: "priced_item list" and pay and number and st1 :: sales_store
    where t: "t = new_txn ck user a (\<Sum>l\<leftarrow>lines. pi_subtotal l) pay number st"
      and e: "st' = st\<lparr>st_batches := st_batches st', ss_invoice_seqs := ss_invoice_seqs st1,
              ss_txns := ss_txns st @ [t], ss_items := ss_items st @ txn_items (tx_id t) st'\<rparr>" by metis
  show "ss_orders st' = ss_orders st" "ss_order_items st' = ss_order_items st"
    "ss_returns st' = ss_returns st" "st_adjustments st' = st_adjustments st" "ss_submissions st' = ss_submissions st"
    "ss_customers st' = ss_customers st" by (subst e, simp)+
  show "tx_customer t = sg_customer a" "\<not> tx_voided t" "tx_handled_by t = user" "tx_source_ref t = None"
    "tx_encoded_at t = None" "tx_request t = None" by (simp_all add: t new_txn_def)
qed

lemma books_ok_orders [simp]:
  "books_ok (st\<lparr>ss_orders := os, ss_order_items := ois\<rparr>) = books_ok st"
  "books_ok (save_order ord st) = books_ok st"
  by (simp_all add: books_ok_def save_order_def)

text \<open>
  placing an order. The order is stored as fulfilled and linked to a new receipt of the same
  customer, cashier and date; the amounts of its lines add up to the total of the receipt; and the
  stock moves exactly by the items of the receipt.
\<close>

lemma place_order_linked:
  assumes "drf_decimal rv" and "books_ok st"
    and "\<forall>x \<in> set (ss_order_items st). oi_order x \<in> or_id ` set (ss_orders st)"
    and "place_order rv ck customer items user a st = Inr (ord, st')"
  shows "\<exists>t. or_txn ord = Some (tx_id t) \<and> get_txn (ss_txns st') (tx_id t) = Some t \<and>
    get_txn (ss_txns st) (tx_id t) = None \<and>
    row_get or_id (ss_orders st') (or_id ord) = Some ord \<and> or_id ord \<notin> or_id ` set (ss_orders st) \<and>
    or_status ord = Fulfilled \<and> or_customer ord = customer \<and> tx_customer t = Some customer \<and>
    tx_handled_by t = or_by ord \<and> or_created ord = tx_created t \<and> books_ok st' \<and>
    (\<Sum>x\<leftarrow>filter (\<lambda>x. oi_order x = or_id ord) (ss_order_items st'). oi_subtotal x) = tx_total t \<and>
    (\<forall>i. remaining_of i (st_batches st') =
         remaining_of i (st_batches st) - sold_from i (txn_items (tx_id t) st'))"
  using assms(4)
proof (cases rule: place_order_unfold)
  case (1 lines ord0 t st2)
  let ?st = "st\<lparr>ss_orders := row_ins ord0 (ss_orders st),
      ss_order_items := new_order_items (or_id ord0) lines (ss_order_items st)\<rparr>"
  have ok: "books_ok ?st" using assms(2) by simp
  note s = checkout_stock [OF assms(1) ok 1(3)] and f = checkout_frame [OF assms(1) ok 1(3)]
  from checkout_result [OF assms(1) ok 1(3)] obtain lines' :: "priced_item list" and pay and number
    where l: "price_items rv items = Inr lines'"
      and t: "t = new_txn ck user (plain_args (a\<lparr>sg_customer := Some customer\<rparr>)) (\<Sum>l\<leftarrow>lines'. pi_subtotal l) pay number ?st"
      and got: "get_txn (ss_txns st2) (tx_id t) = Some t" "get_txn (ss_txns ?st) (tx_id t) = None" by metis
  have fresh: "or_id ord0 \<notin> or_id ` set (ss_orders st)" by (simp add: 1(2))
  have "filter (\<lambda>x. oi_order x = or_id ord0) (ss_order_items st) = []"
    using assms(3) fresh by (auto simp: filter_empty_conv) metis
  then have "(\<Sum>x\<leftarrow>filter (\<lambda>x. oi_order x = or_id ord0) (new_order_items (or_id ord0) lines (ss_order_items st)). oi_subtotal x) =
      (\<Sum>l\<leftarrow>List.enumerate 0 lines. pi_subtotal (snd l))"
    by (simp add: new_order_items_def filter_map o_def case_prod_beta)
  also have "map (\<lambda>l. pi_subtotal (snd l)) (List.enumerate 0 lines) = map pi_subtotal lines"
    by (metis (no_types, lifting) List.map.compositionality comp_apply map_eq_conv map_snd_enumerate)
  finally have sum: "(\<Sum>x\<leftarrow>filter (\<lambda>x. oi_order x = or_id ord) (ss_order_items st'). oi_subtotal x) = tx_total t"
    using l 1(1,4,5) f(2) by (simp add: save_order_def t new_txn_def)
  have "row_get or_id (ss_orders st') (or_id ord) = Some ord"
    using 1(4,5) f(1) fresh row_get_ins [OF fresh] by (simp add: save_order_def row_get_save)
  moreover have "books_ok st'" using s 1(5) by simp
  moreover have "ss_txns st' = ss_txns st2" "st_batches st' = st_batches st2"
    "txn_items (tx_id t) st' = txn_items (tx_id t) st2" using 1(5) by (simp_all add: save_order_def txn_items_def)
  ultimately show ?thesis using sum s f(7,9) got fresh
    by (intro exI [of _ t]) (simp add: 1(2,4) plain_args_def)
qed

lemma place_order_linked_witness:
  "\<exists>ord st' t. place_order plain_dec_field demo_clock 3 demo_cart 1 demo_args demo_sales = Inr (ord, st') \<and>
     or_txn ord = Some (tx_id t) \<and> get_txn (ss_txns st') (tx_id t) = Some t \<and> tx_customer t = Some 3"
proof -
  have "\<not> (case place_order plain_dec_field demo_clock 3 demo_cart 1 demo_args demo_sales of
      Inl _ \<Rightarrow> True | Inr _ \<Rightarrow> False)" by code_simp
  then obtain ord st' where p: "place_order plain_dec_field demo_clock 3 demo_cart 1 demo_args demo_sales = Inr (ord, st')"
    by (auto split: sum.splits)
  have "\<forall>x \<in> set (ss_order_items demo_sales). oi_order x \<in> or_id ` set (ss_orders demo_sales)"
    by (simp add: demo_sales_def)
  from place_order_linked [OF plain_dec_field_ok demo_books_ok this p] p show ?thesis by blast
qed

end
