(* ===== verification/Encoding.thy ===== *)
theory Encoding
  imports Orders
begin

text \<open>
  The entry points that make a sale at most once: \<^verbatim>\<open>sales/services/submission_service.py\<close> (keyed checkout
  and order submissions), \<^verbatim>\<open>sales/services/encoding_service.py\<close> (backdated receipts keyed by their
  request id) and \<^verbatim>\<open>update_encoding_payment\<close> of \<^verbatim>\<open>payment_service.py\<close>. Both entry points are instances of
  the keyed-request contract. SHA-256 over the JSON payload is a parameter; the advisory lock makes the
  look-up and the insertion one step.
\<close>

subsection \<open>What a sale leaves alone, without any assumption\<close>

lemma item_loop_frame: "item_loop txn line p qs gs consumed st = Inr st' \<Longrightarrow> st' = st\<lparr>ss_items := ss_items st'\<rparr>"
proof (induction txn line p qs gs consumed st rule: item_loop.induct)
  case (2 txn line price qs gs b k consumed st)
  from "2.prems" obtain p c where p: "row_get pr_id (st_products st) (pb_product b) = Some p"
    and c: "row_get cat_id (st_categories st) (pr_category p) = Some c"
    by (auto simp: Let_def split: option.splits)
  from "2.IH" [OF refl refl refl p c] "2.prems" p c
  have "\<exists>i. st' = st\<lparr>ss_items := i\<rparr>\<lparr>ss_items := ss_items st'\<rparr>" by (auto simp: Let_def)
  then show ?case by auto
qed simp

lemma sell_line_frame:
  assumes "sell_line ck txn st nl = Inr st'"
  shows "st' = st\<lparr>st_batches := st_batches st', ss_items := ss_items st'\<rparr>"
proof -
  from assms obtain consumed st1 where
    d: "deduct_product_batch (ck_line ck (fst nl)) (pi_product (snd nl)) (pi_quantity (snd nl)) st = Inr (consumed, st1)"
    and loop: "item_loop txn (fst nl) (pi_unit_price (snd nl)) 0 0 consumed st1 = Inr st'"
    by (auto simp: sell_line_def)
  from deduct_more [OF d] item_loop_frame [OF loop] show ?thesis by (cases st; cases st1; cases st') simp
qed

lemma sell_lines_frame:
  "rfold (sell_line ck txn) st nls = Inr st' \<Longrightarrow> st' = st\<lparr>st_batches := st_batches st', ss_items := ss_items st'\<rparr>"
proof (induction nls arbitrary: st)
  case (Cons nl nls)
  then obtain st1 where s: "sell_line ck txn st nl = Inr st1" and r: "rfold (sell_line ck txn) st1 nls = Inr st'"
    by auto
  from sell_line_frame [OF s] Cons.IH [OF r] show ?case by (cases st; cases st1; cases st') simp
qed simp

lemma checkout_writes:
  assumes "checkout rv ck cart user a st = Inr (t, st')"
  shows "st' = st\<lparr>st_batches := st_batches st', ss_invoice_seqs := ss_invoice_seqs st',
      ss_txns := ss_txns st @ [t], ss_items := ss_items st'\<rparr> \<and> tx_id t = new_pk tx_id (ss_txns st) \<and>
    tx_request t = None \<and> tx_handled_by t = user"
proof -
  from assms obtain lines pay where r: "record_sale ck user a lines pay st = Inr (t, st')" by (rule checkout_unfold)
  then obtain number st1 st2 where
    n: "assign_invoice (year_of (business_date ck a)) (sg_number a) st = Inr (number, st1)"
    and t: "t = new_txn ck user a (\<Sum>l\<leftarrow>lines. pi_subtotal l) pay number st1"
    and i: "insert_txn t st1 = Inr st2" and f: "rfold (sell_line ck (tx_id t)) st2 (sorted_lines lines) = Inr st'"
    by (auto simp: record_sale_def Let_def)
  note e = assign_invoice_frame [OF n]
  have txns: "ss_txns st1 = ss_txns st" by (subst e) simp
  from i have st2: "st2 = st1\<lparr>ss_txns := row_ins t (ss_txns st1)\<rparr>" by (auto simp: insert_txn_def split: if_splits)
  have "st' = st\<lparr>st_batches := st_batches st', ss_invoice_seqs := ss_invoice_seqs st',
      ss_txns := ss_txns st @ [t], ss_items := ss_items st'\<rparr>"
    using e st2 sell_lines_frame [OF f] txns by (cases st; cases st1; cases st2; cases st') (auto simp: row_ins_def)
  then show ?thesis using t txns by (simp add: new_txn_def)
qed

lemma place_order_writes:
  assumes "place_order rv ck customer items user a st = Inr (ord, st')"
  shows "\<exists>t. or_txn ord = Some (tx_id t) \<and> ss_txns st' = ss_txns st @ [t] \<and> tx_id t = new_pk tx_id (ss_txns st) \<and>
    tx_request t = None \<and> tx_handled_by t = user \<and> ss_submissions st' = ss_submissions st"
  using assms
proof (cases rule: place_order_unfold)
  case (1 lines ord0 t st2)
  note w = checkout_writes [OF 1(3)]
  have "ss_txns st2 = ss_txns st @ [t]" "ss_submissions st2 = ss_submissions st"
    by (subst w [THEN conjunct1], simp)+
  with w 1(4,5) show ?thesis by (intro exI [of _ t]) (simp add: save_order_def)
qed


subsection \<open>Keyed submissions\<close>

definition request_id ::
    "(string \<Rightarrow> nat option) \<Rightarrow> (string \<times> pyval) list \<Rightarrow> (string \<times> pyval) list \<Rightarrow> nat option res" where
  "request_id parse_uuid data headers =
     rbind (if dict_get data ''request_id'' = PNone then Inr None
            else rbind (uuid_text_field parse_uuid (dict_get data ''request_id'')) (\<lambda>u. Inr (Some u))) (\<lambda>body.
     rbind (if dict_get headers ''Idempotency-Key'' = PNone then Inr None
            else rbind (uuid_text_field parse_uuid (dict_get headers ''Idempotency-Key'')) (\<lambda>u. Inr (Some u))) (\<lambda>header.
       if body \<noteq> None \<and> header \<noteq> None \<and> body \<noteq> header
       then Inl (ValidationError ''request_id'' ''request_id and Idempotency-Key must match.'')
       else Inr (if body \<noteq> None then body else header)))"

record sale_payload =
  sp_endpoint :: string
  sp_customer :: "nat option"
  sp_method :: pyval
  sp_tendered :: "dec option"
  sp_items :: "(nat \<times> pyval list) list"

definition find_sale_submission :: "nat \<Rightarrow> nat \<Rightarrow> sales_store \<Rightarrow> sale_submission option" where
  "find_sale_submission user key st = find (\<lambda>s. su_user s = user \<and> su_request s = key) (ss_submissions st)"

text \<open>The constraints of \<^verbatim>\<open>SaleSubmission\<close>: one row per user and request, per receipt and per order.\<close>

definition insert_submission :: "sale_submission \<Rightarrow> sales_store \<Rightarrow> sales_store res" where
  "insert_submission s st =
     (if \<exists>x \<in> set (ss_submissions st). (su_user x = su_user s \<and> su_request x = su_request s) \<or>
           su_txn x = su_txn s \<or> (su_order s \<noteq> None \<and> su_order x = su_order s)
      then Inl IntegrityError
      else Inr (st\<lparr>ss_submissions := ss_submissions st @ [s]\<rparr>))"

text \<open>
  \<^verbatim>\<open>submit_sale\<close>. The \<open>create\<close> callback yields the key of the receipt and, for an order, of the order; the
  answer is the key of the row the endpoint renders.
\<close>

definition submit_sale ::
    "(sale_payload \<Rightarrow> string) \<Rightarrow> nat \<Rightarrow> nat option \<Rightarrow> string \<Rightarrow> cart_entry list \<Rightarrow> nat option \<Rightarrow> pyval \<Rightarrow>
     dec option \<Rightarrow> (sales_store \<Rightarrow> ((nat \<times> nat option) \<times> sales_store) res) \<Rightarrow> sales_store \<Rightarrow>
     ((nat option \<times> bool) \<times> sales_store) res" where
  "submit_sale fingerprint_of user key endpoint items customer payment_method amount_tendered create st =
     (let answer = (\<lambda>txn ord. if endpoint = ''order'' then ord else Some txn)
      in case key of
           None \<Rightarrow> rbind (create st) (\<lambda>((txn, ord), st'). Inr ((answer txn ord, True), st'))
         | Some k \<Rightarrow>
             let fingerprint = fingerprint_of \<lparr>sp_endpoint = endpoint, sp_customer = customer,
                   sp_method = payment_method, sp_tendered = amount_tendered,
                   sp_items = map (\<lambda>e. (ce_product e, ce_rest e)) items\<rparr>
             in (case find_sale_submission user k st of
                  Some previous \<Rightarrow>
                    if su_fingerprint previous \<noteq> fingerprint \<or> su_endpoint previous \<noteq> endpoint
                    then Inl SubmissionConflict
                    else Inr ((answer (su_txn previous) (su_order previous), False), st)
                | None \<Rightarrow>
                    rbind (create st) (\<lambda>((txn, ord), st').
                    rbind (insert_submission \<lparr>su_user = user, su_request = k, su_fingerprint = fingerprint,
                             su_endpoint = endpoint, su_txn = txn,
                             su_order = (if endpoint = ''order'' then ord else None)\<rparr> st')
                      (\<lambda>st''. Inr ((answer txn ord, True), st'')))))"

text \<open>
  The two callers: the checkout view sells the cart, the order view places an order for the customer.
\<close>

record sale_request =
  sq_user :: nat
  sq_key :: "nat option"
  sq_order :: bool
  sq_items :: "cart_entry list"
  sq_customer :: "nat option"
  sq_method :: pyval
  sq_tendered :: "dec option"
  sq_clock :: clock

definition view_args :: "sale_request \<Rightarrow> sale_args" where
  "view_args x = \<lparr>sg_method = sq_method x, sg_discount_type = PStr ''none'', sg_discount_value = PDec 0,
     sg_tendered = (case sq_tendered x of None \<Rightarrow> PNone | Some d \<Rightarrow> PDec d), sg_customer = sq_customer x,
     sg_status = ''paid'', sg_date = None, sg_number = None\<rparr>"

definition create_sale :: "dec_field \<Rightarrow> sale_request \<Rightarrow> sales_store \<Rightarrow> ((nat \<times> nat option) \<times> sales_store) res" where
  "create_sale rv x st =
     (case (sq_order x, sq_customer x) of
        (False, _) \<Rightarrow> rbind (checkout rv (sq_clock x) (sq_items x) (sq_user x) (view_args x) st)
                       (\<lambda>(t, st'). Inr ((tx_id t, None), st'))
      | (True, Some c) \<Rightarrow> rbind (place_order rv (sq_clock x) c (sq_items x) (sq_user x) (view_args x) st)
                       (\<lambda>(ord, st'). Inr ((the (or_txn ord), Some (or_id ord)), st'))
      | (True, None) \<Rightarrow> Inl (ValidationError ''customer_id'' ''required''))"

definition sale_endpoint :: "sale_request \<Rightarrow> string" where
  "sale_endpoint x = (if sq_order x then ''order'' else ''checkout'')"

definition submit_request ::
    "dec_field \<Rightarrow> (sale_payload \<Rightarrow> string) \<Rightarrow> sale_request \<Rightarrow> sales_store \<Rightarrow> ((nat option \<times> bool) \<times> sales_store) res" where
  "submit_request rv fp x =
     submit_sale fp (sq_user x) (sq_key x) (sale_endpoint x) (sq_items x) (sq_customer x) (sq_method x)
       (sq_tendered x) (create_sale rv x)"

definition sale_identity :: "(sale_payload \<Rightarrow> string) \<Rightarrow> sale_request \<Rightarrow> string \<times> string" where
  "sale_identity fp x =
     (fp \<lparr>sp_endpoint = sale_endpoint x, sp_customer = sq_customer x, sp_method = sq_method x,
          sp_tendered = sq_tendered x, sp_items = map (\<lambda>e. (ce_product e, ce_rest e)) (sq_items x)\<rparr>,
      sale_endpoint x)"

definition sale_key :: "sale_request \<Rightarrow> (nat \<times> nat) option" where
  "sale_key x = map_option (\<lambda>k. (sq_user x, k)) (sq_key x)"

definition sale_saved :: "nat \<times> nat \<Rightarrow> sales_store \<Rightarrow> ((string \<times> string) \<times> nat option) option" where
  "sale_saved uk st =
     map_option (\<lambda>s. ((su_fingerprint s, su_endpoint s),
                      if su_endpoint s = ''order'' then su_order s else Some (su_txn s)))
       (find_sale_submission (fst uk) (snd uk) st)"

lemma create_sale_submissions: "create_sale rv x st = Inr (r, st') \<Longrightarrow> ss_submissions st' = ss_submissions st"
proof -
  have "ss_submissions st' = ss_submissions st" if "checkout rv ck c u a st = Inr (t, st')" for ck c u a t st'
    by (subst checkout_writes [OF that, THEN conjunct1]) simp
  then show "create_sale rv x st = Inr (r, st') \<Longrightarrow> ss_submissions st' = ss_submissions st"
    using place_order_writes by (fastforce simp: create_sale_def split: bool.splits option.splits)
qed

lemma submit_request_new:
  assumes "submit_request rv fp x st = Inr (a, st')"
    and "\<nexists>k. sq_key x = Some k \<and> find_sale_submission (sq_user x) k st \<noteq> None"
  shows "snd a \<and> (ss_submissions st' = ss_submissions st \<and> sq_key x = None \<or>
    (\<exists>k txn ord. sq_key x = Some k \<and> fst a = (if sq_order x then ord else Some txn) \<and>
      ss_submissions st' = ss_submissions st @ [\<lparr>su_user = sq_user x, su_request = k,
        su_fingerprint = fst (sale_identity fp x), su_endpoint = sale_endpoint x, su_txn = txn,
        su_order = (if sq_order x then ord else None)\<rparr>]))"
proof (cases "sq_key x")
  case None
  with assms(1) show ?thesis
    by (auto simp: submit_request_def submit_sale_def Let_def dest: create_sale_submissions)
next
  case (Some k)
  with assms have "find_sale_submission (sq_user x) k st = None" by auto
  with Some assms(1) obtain txn ord st1 where
    c: "create_sale rv x st = Inr ((txn, ord), st1)"
    and i: "insert_submission \<lparr>su_user = sq_user x, su_request = k, su_fingerprint = fst (sale_identity fp x),
        su_endpoint = sale_endpoint x, su_txn = txn, su_order = (if sq_order x then ord else None)\<rparr> st1 = Inr st'"
    and a: "a = (if sq_order x then ord else Some txn, True)"
    by (auto simp: submit_request_def submit_sale_def sale_identity_def sale_endpoint_def Let_def split: if_splits)
  from i create_sale_submissions [OF c] a Some show ?thesis
    by (auto simp: insert_submission_def split: if_splits)
qed

interpretation sale_keyed: keyed_request "submit_request rv fp" sale_key "\<lambda>x. True" "sale_identity fp"
    sale_saved SubmissionConflict
  for rv :: dec_field and fp :: "sale_payload \<Rightarrow> string"
proof unfold_locales
  fix x :: sale_request and k p r and s :: sales_store
  assume "sale_key x = Some k" "sale_saved k s = Some (p, r)"
  then show "submit_request rv fp x s =
      (if sale_identity fp x = p then Inr ((r, False), s) else Inl SubmissionConflict)"
    by (auto simp: sale_key_def sale_saved_def submit_request_def submit_sale_def sale_identity_def Let_def
        split: if_splits)
next
  fix x :: sale_request and k r c and s s' :: sales_store
  assume k: "sale_key x = Some k" and none: "sale_saved k s = None" and s: "submit_request rv fp x s = Inr ((r, c), s')"
  from k none have n: "\<nexists>k. sq_key x = Some k \<and> find_sale_submission (sq_user x) k s \<noteq> None"
    and find: "find_sale_submission (fst k) (snd k) s = None" by (auto simp: sale_key_def sale_saved_def)
  from k obtain k' where k': "sq_key x = Some k'" "k = (sq_user x, k')" by (auto simp: sale_key_def)
  from submit_request_new [OF s n] k' obtain txn ord where c: "c" and r: "r = (if sq_order x then ord else Some txn)"
    and subs: "ss_submissions s' = ss_submissions s @ [\<lparr>su_user = sq_user x, su_request = k',
        su_fingerprint = fst (sale_identity fp x), su_endpoint = sale_endpoint x, su_txn = txn,
        su_order = (if sq_order x then ord else None)\<rparr>]" by auto
  have "find_sale_submission (fst k) (snd k) s' = Some \<lparr>su_user = sq_user x, su_request = k',
        su_fingerprint = fst (sale_identity fp x), su_endpoint = sale_endpoint x, su_txn = txn,
        su_order = (if sq_order x then ord else None)\<rparr>"
    using find subs k' by (simp add: find_sale_submission_def find_append)
  then show "c \<and> sale_saved k s' = Some (sale_identity fp x, r)"
    using c r by (simp add: sale_saved_def sale_identity_def sale_endpoint_def)
next
  fix k v x a and s s' :: sales_store
  assume v: "sale_saved k s = Some v" and a: "submit_request rv fp x s = Inr (a, s')"
  show "sale_saved k s' = Some v"
  proof (cases "\<exists>k. sq_key x = Some k \<and> find_sale_submission (sq_user x) k s \<noteq> None")
    case True
    with a have "s' = s" by (auto simp: submit_request_def submit_sale_def Let_def split: if_splits)
    with v show ?thesis by simp
  next
    case False
    from submit_request_new [OF a False] v show ?thesis
      by (auto simp: sale_saved_def find_sale_submission_def find_append)
  qed
qed simp

text \<open>
  C8: a keyed sale is made once. After a keyed checkout or order succeeded, whatever other keyed or
  unkeyed sales follow, a retry with the same key and content returns the same receipt or order,
  reports that nothing was created and leaves every table as it is: in particular it draws no stock.
  Another sale under the same key of the same user is refused as a conflict.
\<close>

theorem keyed_sale_made_once:
  assumes "submit_request rv fp x st = Inr ((r, created), st')" and "sale_key x = Some k"
    and "sale_key y = Some k" and "sale_identity fp y \<noteq> sale_identity fp x"
  shows "submit_request rv fp x (serve (submit_request rv fp) later st') =
      Inr ((r, False), serve (submit_request rv fp) later st') \<and>
    submit_request rv fp y (serve (submit_request rv fp) later st') = Inl SubmissionConflict"
  using sale_keyed.retry [OF assms(1,2)] sale_keyed.reuse_refused [OF assms(1-3) TrueI assms(4)] by blast

definition demo_request :: "nat \<Rightarrow> bool \<Rightarrow> sale_request" where
  "demo_request k ord = \<lparr>sq_user = 1, sq_key = Some k, sq_order = ord, sq_items = demo_cart, sq_customer = Some 3,
     sq_method = PStr ''cash'', sq_tendered = Some 30000, sq_clock = demo_clock\<rparr>"

theorem keyed_sale_made_once_witness:
  "\<exists>r st'. submit_request plain_dec_field sp_endpoint (demo_request 5 True) demo_sales = Inr ((r, True), st') \<and>
     submit_request plain_dec_field sp_endpoint (demo_request 5 True)
       (serve (submit_request plain_dec_field sp_endpoint) [demo_request 6 False] st') =
       Inr ((r, False), serve (submit_request plain_dec_field sp_endpoint) [demo_request 6 False] st')"
proof -
  have "case submit_request plain_dec_field sp_endpoint (demo_request 5 True) demo_sales of
      Inl _ \<Rightarrow> False | Inr ((r, c), st') \<Rightarrow> c" by code_simp
  then obtain r st' where s: "submit_request plain_dec_field sp_endpoint (demo_request 5 True) demo_sales = Inr ((r, True), st')"
    by (auto split: sum.splits)
  have "sale_key (demo_request 5 True) = Some (1, 5)" "sale_key (demo_request 5 False) = Some (1, 5)"
    "sale_identity sp_endpoint (demo_request 5 False) \<noteq> sale_identity sp_endpoint (demo_request 5 True)"
    by (simp_all add: sale_key_def sale_identity_def sale_endpoint_def demo_request_def)
  from keyed_sale_made_once [OF s this] s show ?thesis by blast
qed


subsection \<open>Backdated receipts\<close>

record encode_args =
  en_items :: "cart_entry list"
  en_user :: nat
  en_date :: py_date
  en_request :: "nat option"
  en_customer :: "(nat \<times> string) option"
  en_si :: string
  en_note :: string
  en_method :: string
  en_tendered :: "dec option"
  en_status :: string

record encode_payload =
  ep_date :: date
  ep_customer :: "nat option"
  ep_si :: string
  ep_note :: string
  ep_method :: string
  ep_status :: string
  ep_tendered :: "dec option"
  ep_items :: "(nat \<times> dec \<times> dec) list"

text \<open>The clock readings: the date at entry, those of the sale, and the time of encoding.\<close>

record encode_clock =
  ek_today :: date
  ek_sale :: clock
  ek_encoded :: instant

definition encode_fingerprint :: "(encode_payload \<Rightarrow> string) \<Rightarrow> encode_args \<Rightarrow> date \<Rightarrow> priced_item list \<Rightarrow> string" where
  "encode_fingerprint fp a d lines =
     fp \<lparr>ep_date = d, ep_customer = map_option fst (en_customer a), ep_si = en_si a, ep_note = en_note a,
         ep_method = en_method a, ep_status = en_status a, ep_tendered = en_tendered a,
         ep_items = map (\<lambda>l. (pi_product l, pi_quantity l, pi_unit_price l)) lines\<rparr>"

definition find_request :: "nat \<Rightarrow> sales_store \<Rightarrow> txn option" where
  "find_request k st = find (\<lambda>t. tx_request t = Some k) (ss_txns st)"

definition replayed :: "txn \<Rightarrow> nat \<Rightarrow> string \<Rightarrow> sales_store \<Rightarrow> ((txn \<times> bool) \<times> sales_store) res" where
  "replayed existing user fingerprint st =
     (if tx_handled_by existing \<noteq> user \<or> tx_hash existing \<noteq> fingerprint then Inl EncodingConflict
      else Inr ((existing, False), st))"

definition encode_sale_args :: "encode_args \<Rightarrow> date \<Rightarrow> sale_args" where
  "encode_sale_args a d =
     \<lparr>sg_method = PStr (en_method a), sg_discount_type = PStr ''none'', sg_discount_value = PDec 0,
      sg_tendered = (case en_tendered a of None \<Rightarrow> PNone | Some x \<Rightarrow> PDec x), sg_customer = None,
      sg_status = en_status a, sg_date = Some d, sg_number = Some (en_si a)\<rparr>"

definition encode_sale ::
    "dec_field \<Rightarrow> encode_clock \<Rightarrow> encode_args \<Rightarrow> date \<Rightarrow> sales_store \<Rightarrow> (txn \<times> sales_store) res" where
  "encode_sale rv ek a d st =
     (case en_customer a of
        Some (c, name) \<Rightarrow>
          rbind (place_order rv (ek_sale ek) c (en_items a) (en_user a) (encode_sale_args a d) st) (\<lambda>(ord, st1).
            case get_txn (ss_txns st1) (the (or_txn ord)) of
              None \<Rightarrow> Inl (DoesNotExist ''Transaction'') | Some sale \<Rightarrow> Inr (sale, st1))
      | None \<Rightarrow> checkout rv (ek_sale ek) (en_items a) (en_user a) (encode_sale_args a d) st)"

definition mark_encoded :: "encode_clock \<Rightarrow> encode_args \<Rightarrow> nat \<Rightarrow> string \<Rightarrow> txn \<Rightarrow> txn" where
  "mark_encoded ek a k fingerprint sale =
     sale\<lparr>tx_encoded_at := Some (ek_encoded ek), tx_request := Some k, tx_hash := fingerprint,
          tx_note := en_note a,
          tx_customer_label := (case en_customer a of Some (c, name) \<Rightarrow> name | None \<Rightarrow> [])\<rparr>"

definition date_order :: "txn \<Rightarrow> sales_store \<Rightarrow> sales_store" where
  "date_order sale st = st\<lparr>ss_orders := map (\<lambda>ord. if or_txn ord = Some (tx_id sale)
     then ord\<lparr>or_created := tx_created sale\<rparr> else ord) (ss_orders st)\<rparr>"

definition encode_transaction ::
    "dec_field \<Rightarrow> (encode_payload \<Rightarrow> string) \<Rightarrow> encode_clock \<Rightarrow> encode_args \<Rightarrow> sales_store \<Rightarrow>
     ((txn \<times> bool) \<times> sales_store) res" where
  "encode_transaction rv fp ek a st =
     (case en_date a of
        PyDate d \<Rightarrow>
          if ek_today ek < d then Inl (ValueError ''Transaction date cannot be in the future.'')
          else (case en_request a of
            None \<Rightarrow> Inl (ValueError ''request_id is required.'')
          | Some k \<Rightarrow>
              rbind (price_items rv (en_items a)) (\<lambda>lines.
                let fingerprint = encode_fingerprint fp a d lines
                in case find_request k st of
                     Some existing \<Rightarrow> replayed existing (en_user a) fingerprint st
                   | None \<Rightarrow>
                       rbind (encode_sale rv ek a d st) (\<lambda>(sale, st1).
                         let sale' = mark_encoded ek a k fingerprint sale
                         in Inr ((sale', True), date_order sale' (st1\<lparr>ss_txns := save_txn sale' (ss_txns st1)\<rparr>)))))
      | _ \<Rightarrow> Inl (ValueError ''transaction_date must be a date.''))"

lemma encode_sale_writes:
  assumes "encode_sale rv ek a d st = Inr (sale, st1)"
  shows "ss_txns st1 = ss_txns st @ [sale] \<and> tx_id sale \<notin> tx_id ` set (ss_txns st) \<and> tx_request sale = None \<and>
    tx_handled_by sale = en_user a"
proof (cases "en_customer a")
  case None
  with assms have c: "checkout rv (ek_sale ek) (en_items a) (en_user a) (encode_sale_args a d) st = Inr (sale, st1)"
    by (simp add: encode_sale_def)
  note w = checkout_writes [OF c]
  have "ss_txns st1 = ss_txns st @ [sale]" by (subst w [THEN conjunct1]) simp
  with w show ?thesis by simp
next
  case (Some cn)
  with assms obtain ord where
    o: "place_order rv (ek_sale ek) (fst cn) (en_items a) (en_user a) (encode_sale_args a d) st = Inr (ord, st1)"
    and g: "get_txn (ss_txns st1) (the (or_txn ord)) = Some sale"
    by (auto simp: encode_sale_def split: prod.splits option.splits)
  from place_order_writes [OF o] obtain t where t: "or_txn ord = Some (tx_id t)" "ss_txns st1 = ss_txns st @ [t]"
    "tx_id t = new_pk tx_id (ss_txns st)" "tx_request t = None" "tx_handled_by t = en_user a" by blast
  have fresh: "tx_id t \<notin> tx_id ` set (ss_txns st)" by (simp add: t(3))
  with g t row_get_ins [OF fresh] have "sale = t" by (simp add: row_ins_def)
  with t fresh show ?thesis by simp
qed

lemma row_save_snoc:
  "tx_id s' = tx_id s \<Longrightarrow> tx_id s \<notin> tx_id ` set ts \<Longrightarrow> save_txn s' (ts @ [s]) = ts @ [s']"
  by (auto simp: row_save_def intro!: map_idI) (metis imageI)

lemma encode_transaction_new:
  assumes "encode_transaction rv fp ek a st = Inr ((sale', c), st')" and "en_request a = Some k"
    and "find_request k st = None"
  obtains d lines sale st1 where "en_date a = PyDate d" "d \<le> ek_today ek" "price_items rv (en_items a) = Inr lines"
    "encode_sale rv ek a d st = Inr (sale, st1)" "sale' = mark_encoded ek a k (encode_fingerprint fp a d lines) sale"
    "c" "st' = date_order sale' (st1\<lparr>ss_txns := save_txn sale' (ss_txns st1)\<rparr>)" "ss_txns st' = ss_txns st @ [sale']"
proof -
  from assms obtain d lines sale st1 where r: "en_date a = PyDate d" "d \<le> ek_today ek" "price_items rv (en_items a) = Inr lines"
    "encode_sale rv ek a d st = Inr (sale, st1)" "sale' = mark_encoded ek a k (encode_fingerprint fp a d lines) sale"
    "c" "st' = date_order sale' (st1\<lparr>ss_txns := save_txn sale' (ss_txns st1)\<rparr>)"
    by (auto simp: encode_transaction_def Let_def split: py_date.splits if_splits)
  from encode_sale_writes [OF r(4)] r(5,7) row_save_snoc [of sale' sale "ss_txns st"]
  have "ss_txns st' = ss_txns st @ [sale']" by (simp add: date_order_def mark_encoded_def)
  with r that show ?thesis by blast
qed

text \<open>A request with its clock readings, answered by the key of the receipt.\<close>

type_synonym encode_request = "encode_clock \<times> encode_args"

definition encode_request ::
    "dec_field \<Rightarrow> (encode_payload \<Rightarrow> string) \<Rightarrow> encode_request \<Rightarrow> sales_store \<Rightarrow> ((nat \<times> bool) \<times> sales_store) res" where
  "encode_request rv fp x st =
     rbind (encode_transaction rv fp (fst x) (snd x) st) (\<lambda>((t, c), st'). Inr ((tx_id t, c), st'))"

definition encode_valid :: "dec_field \<Rightarrow> encode_request \<Rightarrow> bool" where
  "encode_valid rv x \<longleftrightarrow>
     (case en_date (snd x) of PyDate d \<Rightarrow> d \<le> ek_today (fst x) | _ \<Rightarrow> False) \<and>
     (case price_items rv (en_items (snd x)) of Inr lines \<Rightarrow> True | Inl _ \<Rightarrow> False)"

definition encode_identity :: "dec_field \<Rightarrow> (encode_payload \<Rightarrow> string) \<Rightarrow> encode_request \<Rightarrow> nat \<times> string" where
  "encode_identity rv fp x =
     (en_user (snd x),
      encode_fingerprint fp (snd x) (case en_date (snd x) of PyDate d \<Rightarrow> d | _ \<Rightarrow> 0)
        (case price_items rv (en_items (snd x)) of Inr lines \<Rightarrow> lines | Inl _ \<Rightarrow> []))"

definition encode_saved :: "nat \<Rightarrow> sales_store \<Rightarrow> ((nat \<times> string) \<times> nat) option" where
  "encode_saved k st = map_option (\<lambda>t. ((tx_handled_by t, tx_hash t), tx_id t)) (find_request k st)"

lemma encode_replay:
  assumes "en_request a = Some k" and "encode_valid rv (ek, a)" and "find_request k st = Some t"
  shows "encode_transaction rv fp ek a st = replayed t (en_user a) (snd (encode_identity rv fp (ek, a))) st"
  using assms
  by (auto simp: encode_transaction_def encode_valid_def encode_identity_def Let_def
      split: py_date.splits sum.splits)

interpretation encode_keyed: keyed_request "encode_request rv fp" "\<lambda>x. en_request (snd x)" "encode_valid rv"
    "encode_identity rv fp" encode_saved EncodingConflict
  for rv :: dec_field and fp :: "encode_payload \<Rightarrow> string"
proof unfold_locales
  fix x :: encode_request and k p r and s :: sales_store
  assume k: "en_request (snd x) = Some k" and v: "encode_valid rv x" and sv: "encode_saved k s = Some (p, r)"
  obtain ek a where x: "x = (ek, a)" by (cases x)
  from sv obtain t where t: "find_request k s = Some t" "p = (tx_handled_by t, tx_hash t)" "r = tx_id t"
    by (auto simp: encode_saved_def)
  have "fst (encode_identity rv fp x) = en_user a" by (simp add: encode_identity_def x)
  with encode_replay [of a k rv ek s t fp] k v t show "encode_request rv fp x s =
      (if encode_identity rv fp x = p then Inr ((r, False), s) else Inl EncodingConflict)"
    by (cases "encode_identity rv fp x") (auto simp: encode_request_def x replayed_def)
next
  fix x :: encode_request and k r c and s s' :: sales_store
  assume k: "en_request (snd x) = Some k" and none: "encode_saved k s = None"
    and s: "encode_request rv fp x s = Inr ((r, c), s')"
  obtain ek a where x: "x = (ek, a)" by (cases x)
  from s obtain t where t: "encode_transaction rv fp ek a s = Inr ((t, c), s')" "r = tx_id t"
    by (auto simp: encode_request_def x)
  from none have f: "find_request k s = None" by (simp add: encode_saved_def)
  from k x have "en_request a = Some k" by simp
  from t(1) this f obtain d lines sale st1 where e: "en_date a = PyDate d" "price_items rv (en_items a) = Inr lines"
    "encode_sale rv ek a d s = Inr (sale, st1)" "t = mark_encoded ek a k (encode_fingerprint fp a d lines) sale" "c"
    "ss_txns s' = ss_txns s @ [t]" by (rule encode_transaction_new)
  have "find_request k s' = Some t" using f by (simp add: find_request_def e(6) find_append) (simp add: e(4) mark_encoded_def)
  then show "c \<and> encode_saved k s' = Some (encode_identity rv fp x, r)"
    using e(1,2,5) t(2) encode_sale_writes [OF e(3)]
    by (simp add: encode_saved_def encode_identity_def x) (simp add: e(4) mark_encoded_def)
next
  fix x :: encode_request and a and s s' :: sales_store
  assume "encode_request rv fp x s = Inr (a, s')"
  then show "encode_valid rv x"
    by (auto simp: encode_request_def encode_transaction_def encode_valid_def split: py_date.splits if_splits option.splits)
next
  fix k v and x :: encode_request and a and s s' :: sales_store
  assume v: "encode_saved k s = Some v" and a: "encode_request rv fp x s = Inr (a, s')"
  obtain ek b where x: "x = (ek, b)" by (cases x)
  from a obtain t c where t: "encode_transaction rv fp ek b s = Inr ((t, c), s')" by (auto simp: encode_request_def x)
  then obtain k' where k': "en_request b = Some k'"
    by (auto simp: encode_transaction_def split: py_date.splits if_splits option.splits)
  show "encode_saved k s' = Some v"
  proof (cases "find_request k' s")
    case None
    with t k' have "ss_txns s' = ss_txns s @ [t]" by (rule encode_transaction_new)
    with v show ?thesis by (auto simp: encode_saved_def find_request_def find_append)
  next
    case (Some u)
    with t k' have "s' = s"
      by (auto simp: encode_transaction_def replayed_def Let_def split: py_date.splits if_splits)
    with v show ?thesis by simp
  qed
qed

text \<open>
  a backdated receipt is encoded once. After an encoding succeeded, whatever other encodings
  follow, repeating the request returns the same receipt without writing anything, and a valid request
  with the same id by another user or with other content is refused.
\<close>

lemma encoding_made_once:
  assumes "encode_request rv fp x st = Inr ((r, created), st')" and "en_request (snd x) = Some k"
    and "en_request (snd y) = Some k" and "encode_valid rv y" and "encode_identity rv fp y \<noteq> encode_identity rv fp x"
  shows "encode_request rv fp x (serve (encode_request rv fp) later st') =
      Inr ((r, False), serve (encode_request rv fp) later st') \<and>
    encode_request rv fp y (serve (encode_request rv fp) later st') = Inl EncodingConflict"
  using encode_keyed.retry [OF assms(1,2)] encode_keyed.reuse_refused [OF assms] by blast

definition demo_encode :: "nat \<Rightarrow> string \<Rightarrow> encode_request" where
  "demo_encode k note =
     (\<lparr>ek_today = 700012, ek_sale = demo_clock\<lparr>ck_entered := at_hour 700012 10\<rparr>, ek_encoded = at_hour 700012 10\<rparr>,
      \<lparr>en_items = demo_cart, en_user = 1, en_date = PyDate 700009, en_request = Some k, en_customer = Some (3, ''Ana''),
       en_si = [], en_note = note, en_method = ''cash'', en_tendered = None, en_status = ''pending''\<rparr>)"

lemma encoding_made_once_witness:
  "\<exists>r st'. encode_request plain_dec_field ep_note (demo_encode 9 ''a'') demo_sales = Inr ((r, True), st') \<and>
     encode_request plain_dec_field ep_note (demo_encode 9 ''b'')
       (serve (encode_request plain_dec_field ep_note) [demo_encode 10 ''c''] st') = Inl EncodingConflict"
proof -
  have "case encode_request plain_dec_field ep_note (demo_encode 9 ''a'') demo_sales of
      Inl _ \<Rightarrow> False | Inr ((r, c), st') \<Rightarrow> c" by code_simp
  then obtain r st' where s: "encode_request plain_dec_field ep_note (demo_encode 9 ''a'') demo_sales = Inr ((r, True), st')"
    by (auto split: sum.splits)
  have k: "en_request (snd (demo_encode 9 n)) = Some 9" for n by (simp add: demo_encode_def)
  have v: "encode_valid plain_dec_field (demo_encode 9 ''b'')" by code_simp
  have "encode_identity plain_dec_field ep_note (demo_encode 9 n) = (1, n)" for n
    by (simp add: encode_identity_def demo_encode_def encode_fingerprint_def)
  then have "encode_identity plain_dec_field ep_note (demo_encode 9 ''b'') \<noteq>
      encode_identity plain_dec_field ep_note (demo_encode 9 ''a'')" by simp
  from encoding_made_once [OF s k k v this] s show ?thesis by blast
qed



subsection \<open>Recording a payment\<close>

fun method_name :: "pay_method \<Rightarrow> string" where
  "method_name Cash = ''cash''" | "method_name Online = ''online''" | "method_name MethodUnknown = ''unknown''"

fun status_name :: "pay_status \<Rightarrow> string" where
  "status_name Pending = ''pending''" | "status_name Paid = ''paid''" | "status_name PayUnknown = ''unknown''"

text \<open>The validated fields of a payment update; the amount may be left out or null.\<close>

record pay_update =
  pu_status :: string
  pu_method :: "string option"
  pu_tendered :: "dec option option"

definition opt_dec :: "dec option \<Rightarrow> pyval" where
  "opt_dec d = (case d of None \<Rightarrow> PNone | Some x \<Rightarrow> PDec x)"

definition update_encoding_payment ::
    "dec_field \<Rightarrow> instant \<Rightarrow> nat \<Rightarrow> account \<Rightarrow> pay_update \<Rightarrow> sales_store \<Rightarrow> (txn \<times> sales_store) res" where
  "update_encoding_payment rv now sale_id user u st =
     (case get_txn (ss_txns st) sale_id of
        None \<Rightarrow> Inl (DoesNotExist ''Transaction'')
      | Some sale \<Rightarrow>
          if ac_role user = ''staff'' \<and> tx_handled_by sale \<noteq> ac_id user
          then Inl (ValueError ''This transaction is unavailable.'')
          else if tx_encoded_at sale = None
          then Inl (ValueError ''Only manually encoded transactions can use this payment update.'')
          else if tx_voided sale
          then Inl (ValueError ''Payment cannot be updated on a voided transaction.'')
          else
            let method = (case pu_method u of Some m \<Rightarrow> m | None \<Rightarrow> method_name (tx_method sale))
            in if tx_pay_status sale = Paid
               then rbind (case (case pu_tendered u of Some d \<Rightarrow> d | None \<Rightarrow> tx_tendered sale) of
                             None \<Rightarrow> Inr None
                           | Some d \<Rightarrow> rbind (parse_decimal rv (PDec d) ''amount_tendered'' (Some 0) 20) (\<lambda>d. Inr (Some d)))
                      (\<lambda>tendered.
                        if pu_status u = ''paid'' \<and> method = method_name (tx_method sale) \<and> tendered = tx_tendered sale
                        then Inr (sale, st) else Inl PaymentLockedError)
               else rbind (payment_values rv (tx_total sale) method (pu_status u)
                             (opt_dec (case pu_tendered u of Some d \<Rightarrow> d | None \<Rightarrow> None)))
                      (\<lambda>(tendered, change).
                        if status_name (tx_pay_status sale) = pu_status u \<and> method_name (tx_method sale) = method \<and>
                           tx_tendered sale = tendered \<and> tx_change sale = change
                        then Inr (sale, st)
                        else
                          let sale' = sale\<lparr>tx_pay_status := the (pay_status_of (pu_status u)),
                                tx_method := the (method_of method), tx_tendered := tendered, tx_change := change,
                                tx_pay_at := Some now, tx_pay_by := Some (ac_id user)\<rparr>
                          in Inr (sale', st\<lparr>ss_txns := save_txn sale' (ss_txns st)\<rparr>)))"

text \<open>A payment update writes the payment columns of one receipt and nothing else.\<close>

lemma payment_update_writes:
  assumes "update_encoding_payment rv now sale_id user u st = Inr (t, st')"
  obtains sale where "get_txn (ss_txns st) sale_id = Some sale" "tx_encoded_at sale \<noteq> None" "\<not> tx_voided sale"
    "st' = st\<lparr>ss_txns := save_txn t (ss_txns st)\<rparr> \<or> (st' = st \<and> t = sale)"
    "\<exists>s m d c a b. t = sale\<lparr>tx_pay_status := s, tx_method := m, tx_tendered := d, tx_change := c, tx_pay_at := a, tx_pay_by := b\<rparr>"
proof -
  have same: "x = x\<lparr>tx_pay_status := tx_pay_status x, tx_method := tx_method x, tx_tendered := tx_tendered x,
      tx_change := tx_change x, tx_pay_at := tx_pay_at x, tx_pay_by := tx_pay_by x\<rparr>" for x :: txn by simp
  from assms obtain sale where sale: "get_txn (ss_txns st) sale_id = Some sale" "tx_encoded_at sale \<noteq> None"
    "\<not> tx_voided sale"
    by (auto simp: update_encoding_payment_def split: option.splits if_splits)
  show ?thesis
  proof (cases "t = sale \<and> st' = st")
    case True
    with sale same that show ?thesis by blast
  next
    case False
    with assms sale obtain d c where "t = sale\<lparr>tx_pay_status := the (pay_status_of (pu_status u)),
        tx_method := the (method_of (case pu_method u of Some m \<Rightarrow> m | None \<Rightarrow> method_name (tx_method sale))),
        tx_tendered := d, tx_change := c, tx_pay_at := Some now, tx_pay_by := Some (ac_id user)\<rparr>"
      and "st' = st\<lparr>ss_txns := save_txn t (ss_txns st)\<rparr>"
      unfolding update_encoding_payment_def by (auto simp: Let_def split: if_splits)
    with sale that show ?thesis by blast
  qed
qed

text \<open>
  a recorded payment is final. Once a receipt is paid, no payment update changes anything: it either
  repeats the recorded payment and gets the receipt back unchanged, or fails. Before that, an accepted
  update to paid in cash records an amount that covers the total with the exact change. No update touches
  stock, items or any other receipt.
\<close>

lemma payment_final:
  assumes "get_txn (ss_txns st) sale_id = Some sale" and "keys_ok tx_id (ss_txns st)"
    and "update_encoding_payment rv now sale_id user u st = Inr (t, st')"
  shows "(tx_pay_status sale = Paid \<longrightarrow> t = sale \<and> st' = st) \<and>
    get_txn (ss_txns st') sale_id = Some t \<and> tx_total t = tx_total sale \<and>
    (tx_pay_status sale \<noteq> Paid \<and> tx_pay_status t = Paid \<and> tx_method t = Cash \<longrightarrow>
      (\<exists>x. tx_tendered t = Some x \<and> tx_total t \<le> x \<and> tx_change t = Some (x - tx_total t))) \<and>
    st' = st\<lparr>ss_txns := ss_txns st'\<rparr> \<and>
    (\<forall>k. k \<noteq> sale_id \<longrightarrow> get_txn (ss_txns st') k = get_txn (ss_txns st) k)"
proof -
  from payment_update_writes [OF assms(3)] assms(1) have
    w: "st' = st\<lparr>ss_txns := save_txn t (ss_txns st)\<rparr> \<or> (st' = st \<and> t = sale)"
    "\<exists>s m d c a b. t = sale\<lparr>tx_pay_status := s, tx_method := m, tx_tendered := d, tx_change := c, tx_pay_at := a, tx_pay_by := b\<rparr>"
    by fastforce+
  then have id: "tx_id t = sale_id" "tx_total t = tx_total sale" using row_get_Some [OF assms(1)] by auto
  have paid: "t = sale \<and> st' = st" if "tx_pay_status sale = Paid"
    using assms(1,3) that by (auto simp: update_encoding_payment_def Let_def split: if_splits)
  have cash: "\<exists>x. tx_tendered t = Some x \<and> tx_total t \<le> x \<and> tx_change t = Some (x - tx_total t)"
    if p: "tx_pay_status sale \<noteq> Paid" "tx_pay_status t = Paid" "tx_method t = Cash"
  proof -
    let ?m = "case pu_method u of Some m \<Rightarrow> m | None \<Rightarrow> method_name (tx_method sale)"
    from assms(1,3) p obtain d c where v: "payment_values rv (tx_total sale) ?m (pu_status u)
        (opt_dec (case pu_tendered u of Some d \<Rightarrow> d | None \<Rightarrow> None)) = Inr (d, c)"
      and t: "t = sale\<lparr>tx_pay_status := the (pay_status_of (pu_status u)), tx_method := the (method_of ?m),
          tx_tendered := d, tx_change := c, tx_pay_at := Some now, tx_pay_by := Some (ac_id user)\<rparr>"
      by (auto simp: update_encoding_payment_def Let_def split: if_splits)
    from t p(2,3) have "the (pay_status_of (pu_status u)) = Paid" "the (method_of ?m) = Cash" by simp_all
    with payment_values_cases [OF v] t show ?thesis
      by (auto simp: pay_status_of_def method_of_def split: if_splits)
  qed
  have "get_txn (ss_txns st') sale_id = Some t"
    using w(1) assms(1) id by (auto simp: row_get_save)
  moreover have "get_txn (ss_txns st') k = get_txn (ss_txns st) k" if "k \<noteq> sale_id" for k
    using w(1) that id by (auto simp: row_get_save)
  ultimately show ?thesis using w(1) paid cash id(2) by auto
qed

definition demo_pay :: pay_update where
  "demo_pay = \<lparr>pu_status = ''paid'', pu_method = None, pu_tendered = Some (Some 20000)\<rparr>"

definition demo_encoded :: "(txn \<times> bool) \<times> sales_store" where
  "demo_encoded = (case encode_transaction plain_dec_field ep_note (fst (demo_encode 9 [])) (snd (demo_encode 9 [])) demo_sales of
     Inr r \<Rightarrow> r | Inl _ \<Rightarrow> ((fst demo_sold, False), demo_sales))"

lemma payment_final_witness:
  "\<exists>t st'. update_encoding_payment plain_dec_field 0 1 \<lparr>ac_id = 1, ac_role = ''staff''\<rparr> demo_pay (snd demo_encoded) = Inr (t, st') \<and>
     get_txn (ss_txns st') 1 = Some t"
proof -
  have ne: "ss_txns (snd demo_encoded) = [fst (fst demo_encoded)] \<and> tx_id (fst (fst demo_encoded)) = 1" by code_simp
  then have g: "get_txn (ss_txns (snd demo_encoded)) 1 = Some (fst (fst demo_encoded))"
    and k: "keys_ok tx_id (ss_txns (snd demo_encoded))" by (simp_all add: row_get_def keys_ok_def)
  have "case update_encoding_payment plain_dec_field 0 1 \<lparr>ac_id = 1, ac_role = ''staff''\<rparr> demo_pay (snd demo_encoded) of
      Inl _ \<Rightarrow> False | Inr _ \<Rightarrow> True" by code_simp
  then obtain t st' where
    u: "update_encoding_payment plain_dec_field 0 1 \<lparr>ac_id = 1, ac_role = ''staff''\<rparr> demo_pay (snd demo_encoded) = Inr (t, st')"
    by (auto split: sum.splits)
  from payment_final [OF g k u] u show ?thesis by blast
qed

end
