(* ===== verification/History.thy ===== *)
theory History
  imports Encoding
begin

text \<open>
  The reading side of sales: who sees which receipt (\<^verbatim>\<open>sales/visibility.py\<close>), the filters, the order and
  the totals of the history endpoints (\<^verbatim>\<open>sales/history.py\<close>, \<^verbatim>\<open>views/transaction_views.py\<close>,
  \<^verbatim>\<open>views/order_views.py\<close>), the sales reports (\<^verbatim>\<open>services/report_service.py\<close>, \<^verbatim>\<open>views/report_views.py\<close>)
  and the customer accounts (\<^verbatim>\<open>views/customer_views.py\<close>). User names come from the accounts app and text
  is ordered by the database's collation, given as a sort key; both are parameters. Paging and
  rendering are not modelled.
\<close>

type_synonym params = "(string \<times> string) list"

text \<open>A query parameter that is present and not empty.\<close>

definition given :: "params \<Rightarrow> string \<Rightarrow> string option" where
  "given ps f = (case map_of ps f of None \<Rightarrow> None | Some v \<Rightarrow> if v = [] then None else Some v)"

definition param_default :: "params \<Rightarrow> string \<Rightarrow> string \<Rightarrow> string" where
  "param_default ps f d = (case map_of ps f of None \<Rightarrow> d | Some v \<Rightarrow> v)"

text \<open>
  \<^verbatim>\<open>datetime.strptime(value, '%Y-%m-%d').date()\<close>: four digits of year, one or two of month and day; the
  day may have a leading space instead of a zero.
\<close>

definition small_number :: "nat \<Rightarrow> string \<Rightarrow> nat option" where
  "small_number bound s =
     (if s \<noteq> [] \<and> length s \<le> 2 \<and> list_all is_digit s \<and> 1 \<le> int_of s \<and> int_of s \<le> bound then Some (int_of s) else None)"

definition strptime_date :: "string \<Rightarrow> date option" where
  "strptime_date s =
     (let y = take 4 s; rest = drop 5 s;
          m = takeWhile (\<lambda>c. c \<noteq> CHR ''-'') rest;
          d = drop (length m + 1) rest;
          d' = (if length d = 2 \<and> hd d = CHR '' '' then tl d else d)
      in if length y = 4 \<and> list_all is_digit y \<and> 1 \<le> int_of y \<and> take 1 (drop 4 s) = ''-'' \<and>
            take 1 (drop (length m) rest) = ''-'' then
           (case (small_number 12 m, small_number 31 d') of
              (Some m', Some d'') \<Rightarrow>
                if valid_ymd (int (int_of y)) (int m') (int d'') then Some (mk_date (int (int_of y)) (int m') (int d'')) else None
            | _ \<Rightarrow> None)
         else None)"

definition date_param :: "params \<Rightarrow> string \<Rightarrow> date option res" where
  "date_param ps f =
     (case given ps f of
        None \<Rightarrow> Inr None
      | Some v \<Rightarrow> (case strptime_date v of
                    Some d \<Rightarrow> Inr (Some d)
                  | None \<Rightarrow> Inl (HistoryFilterError f (f @ '' must be in YYYY-MM-DD format.''))))"


subsection \<open>Visibility\<close>

definition category_of :: "'z inv_store_scheme \<Rightarrow> nat \<Rightarrow> category option" where
  "category_of st product =
     (case row_get pr_id (st_products st) product of
        None \<Rightarrow> None | Some p \<Rightarrow> row_get cat_id (st_categories st) (pr_category p))"

definition hidden_product :: "'z inv_store_scheme \<Rightarrow> nat \<Rightarrow> bool" where
  "hidden_product st product =
     (case category_of st product of None \<Rightarrow> False | Some c \<Rightarrow> \<not> cat_visible c \<or> \<not> cat_active c)"

definition hidden_item :: "sales_store \<Rightarrow> titem \<Rightarrow> bool" where
  "hidden_item st i =
     (case get_batch (st_batches st) (ti_batch i) of None \<Rightarrow> False | Some b \<Rightarrow> hidden_product st (pb_product b))"

definition visible_transactions :: "bool \<Rightarrow> nat option \<Rightarrow> sales_store \<Rightarrow> txn list \<Rightarrow> txn list" where
  "visible_transactions visible_to_staff staff_user st queryset =
     (if visible_to_staff then
        (case staff_user of
           None \<Rightarrow> []
         | Some u \<Rightarrow> filter (\<lambda>t. tx_handled_by t = u \<and> \<not> list_ex (hidden_item st) (txn_items (tx_id t) st)) queryset)
      else queryset)"

definition order_lines :: "nat \<Rightarrow> sales_store \<Rightarrow> order_item list" where
  "order_lines ord st = filter (\<lambda>i. oi_order i = ord) (ss_order_items st)"

definition order_txn :: "sales_store \<Rightarrow> order \<Rightarrow> txn option" where
  "order_txn st ord = (case or_txn ord of None \<Rightarrow> None | Some t \<Rightarrow> get_txn (ss_txns st) t)"

definition visible_orders :: "account \<Rightarrow> sales_store \<Rightarrow> order list \<Rightarrow> order list" where
  "visible_orders user st queryset =
     (if ac_role user = ''staff'' then
        filter (\<lambda>ord. or_by ord = ac_id user \<and>
          (case order_txn st ord of None \<Rightarrow> True | Some t \<Rightarrow> tx_handled_by t = ac_id user) \<and>
          \<not> list_ex (\<lambda>i. hidden_product st (oi_product i)) (order_lines (or_id ord) st) \<and>
          (case or_txn ord of None \<Rightarrow> True | Some t \<Rightarrow> \<not> list_ex (hidden_item st) (txn_items t st))) queryset
      else queryset)"


subsection \<open>Filters and order of the history\<close>

text \<open>
  The columns the filters read of a receipt, or of an order and its receipt (which an old order may not
  have).
\<close>

record hrow =
  hr_id :: nat
  hr_created :: instant
  hr_date :: instant
  hr_method :: "string option"
  hr_pay :: "string option"
  hr_status :: "string option"
  hr_by :: nat
  hr_customer :: "nat option"
  hr_voided :: bool
  hr_invoice :: "string option"
  hr_name :: "string option"
  hr_user :: string
  hr_total :: "dec option"

fun order_label :: "order_status \<Rightarrow> string" where
  "order_label Fulfilled = ''fulfilled''"
| "order_label Cancelled = ''cancelled''"

definition customer_name :: "sales_store \<Rightarrow> nat option \<Rightarrow> string option" where
  "customer_name st c = (case c of None \<Rightarrow> None | Some k \<Rightarrow> map_option cu_name (row_get cu_id (ss_customers st) k))"

definition txn_row :: "(nat \<Rightarrow> string) \<Rightarrow> sales_store \<Rightarrow> txn \<Rightarrow> hrow" where
  "txn_row username st t =
     \<lparr>hr_id = tx_id t, hr_created = tx_created t, hr_date = tx_created t, hr_method = Some (method_name (tx_method t)),
      hr_pay = Some (status_name (tx_pay_status t)), hr_status = None, hr_by = tx_handled_by t, hr_customer = tx_customer t,
      hr_voided = tx_voided t, hr_invoice = tx_invoice t, hr_name = customer_name st (tx_customer t),
      hr_user = username (tx_handled_by t), hr_total = Some (tx_total t)\<rparr>"

definition order_row :: "(nat \<Rightarrow> string) \<Rightarrow> sales_store \<Rightarrow> order \<Rightarrow> hrow" where
  "order_row username st ord =
     (let t = order_txn st ord
      in \<lparr>hr_id = or_id ord, hr_created = or_created ord,
          hr_date = (case t of None \<Rightarrow> or_created ord | Some x \<Rightarrow> tx_created x),
          hr_method = map_option (\<lambda>x. method_name (tx_method x)) t, hr_pay = map_option (\<lambda>x. status_name (tx_pay_status x)) t,
          hr_status = Some (order_label (or_status ord)), hr_by = or_by ord, hr_customer = Some (or_customer ord),
          hr_voided = False, hr_invoice = (case t of None \<Rightarrow> None | Some x \<Rightarrow> tx_invoice x),
          hr_name = customer_name st (Some (or_customer ord)), hr_user = username (or_by ord),
          hr_total = map_option tx_total t\<rparr>)"

fun text_contains :: "string \<Rightarrow> string \<Rightarrow> bool" where
  "text_contains p [] = (p = [])"
| "text_contains p (c # cs) = (take (length p) (c # cs) = p \<or> text_contains p cs)"

definition icontains :: "string \<Rightarrow> string option \<Rightarrow> bool" where
  "icontains p v = (case v of None \<Rightarrow> False | Some s \<Rightarrow> text_contains (casefold p) (casefold s))"

fun join_text :: "string \<Rightarrow> string list \<Rightarrow> string" where
  "join_text sep [] = []"
| "join_text sep [s] = s"
| "join_text sep (s # t # ss) = s @ sep @ join_text sep (t # ss)"

definition history_choices :: "bool \<Rightarrow> (string \<times> string list \<times> (hrow \<Rightarrow> string option)) list" where
  "history_choices orders =
     [(''payment_method'', [''cash'', ''online'', ''unknown''], hr_method),
      (''payment_status'', [''pending'', ''paid'', ''unknown''], hr_pay)] @
     (if orders then [(''status'', [''fulfilled'', ''cancelled''], hr_status)] else [])"

definition filter_choice ::
    "params \<Rightarrow> ('x \<Rightarrow> hrow) \<Rightarrow> 'x list \<Rightarrow> string \<times> string list \<times> (hrow \<Rightarrow> string option) \<Rightarrow> 'x list res" where
  "filter_choice ps row xs choice =
     (case choice of (f, allowed, col) \<Rightarrow>
        (case given ps f of
           None \<Rightarrow> Inr xs
         | Some v \<Rightarrow> if v \<notin> set allowed then Inl (HistoryFilterError f (f @ '' must be one of '' @ join_text '', '' allowed @ ''.''))
                     else Inr (filter (\<lambda>x. col (row x) = Some v) xs)))"

definition filter_id ::
    "params \<Rightarrow> ('x \<Rightarrow> hrow) \<Rightarrow> 'x list \<Rightarrow> string \<times> string \<times> (hrow \<Rightarrow> nat option) \<Rightarrow> 'x list res" where
  "filter_id ps row xs field =
     (case field of (f, message, col) \<Rightarrow>
        (case given ps f of
           None \<Rightarrow> Inr xs
         | Some v \<Rightarrow> (case parse_positive_id (PStr v) f of
                       Inl _ \<Rightarrow> Inl (HistoryFilterError f message)
                     | Inr k \<Rightarrow> Inr (filter (\<lambda>x. col (row x) = Some k) xs))))"

definition search_matches :: "bool \<Rightarrow> string \<Rightarrow> hrow \<Rightarrow> bool" where
  "search_matches orders search r \<longleftrightarrow>
     icontains search (hr_invoice r) \<or> icontains search (hr_name r) \<or> icontains search (Some (hr_user r)) \<or>
     (orders \<and> parse_positive_id (PStr search) ''search'' = Inr (hr_id r))"

definition filter_history :: "bool \<Rightarrow> params \<Rightarrow> ('x \<Rightarrow> hrow) \<Rightarrow> 'x list \<Rightarrow> 'x list res" where
  "filter_history orders ps row queryset =
     rbind (date_param ps ''start_date'') (\<lambda>start.
     rbind (date_param ps ''end_date'') (\<lambda>stop.
     if start \<noteq> None \<and> stop \<noteq> None \<and> the stop < the start
     then Inl (HistoryFilterError ''start_date'' ''start_date cannot be after end_date.'')
     else
     let xs1 = (case start of None \<Rightarrow> queryset | Some d \<Rightarrow> filter (\<lambda>x. at_hour d 0 \<le> hr_date (row x)) queryset);
         xs2 = (case stop of None \<Rightarrow> xs1 | Some d \<Rightarrow> filter (\<lambda>x. hr_date (row x) \<le> at_hour (d + 1) 0 - 1) xs1)
     in
     rbind (rfold (filter_choice ps row) xs2 (history_choices orders)) (\<lambda>xs3.
     rbind (rfold (filter_id ps row) xs3
              [(''handled_by'', ''handled_by must be a valid user id.'', \<lambda>r. Some (hr_by r)),
               (''customer_id'', ''customer_id must be a valid customer id.'', hr_customer)]) (\<lambda>xs4.
     let xs5 = (if \<not> orders \<and> casefold (param_default ps ''include_voided'' ''false'') \<noteq> ''true''
                then filter (\<lambda>x. \<not> hr_voided (row x)) xs4 else xs4);
         search = strip (param_default ps ''search'' [])
     in if 200 < length search then Inl (HistoryFilterError ''search'' ''search must contain at most 200 characters.'')
     else if CHR 0x00 \<in> set search then Inl (HistoryFilterError ''search'' ''search cannot contain null characters.'')
     else Inr (if search = [] then xs5 else filter (\<lambda>x. search_matches orders search (row x)) xs5)))))"

definition history_fields :: "bool \<Rightarrow> string list" where
  "history_fields orders =
     [''id'', ''created_at'', ''transaction_date'', ''transaction_number'', ''total_amount'', ''customer'', ''handled_by''] @
     (if orders then [''status''] else [])"

definition history_value :: "(string \<Rightarrow> int) \<Rightarrow> string \<Rightarrow> hrow \<Rightarrow> int option" where
  "history_value collate key r =
     (if key = ''id'' then Some (int (hr_id r))
      else if key = ''created_at'' then Some (hr_created r)
      else if key = ''transaction_date'' then Some (hr_date r)
      else if key = ''transaction_number'' then map_option collate (hr_invoice r)
      else if key = ''total_amount'' then hr_total r
      else if key = ''customer'' then map_option collate (hr_name r)
      else if key = ''handled_by'' then Some (collate (hr_user r))
      else map_option collate (hr_status r))"

text \<open>The sort key of a row: missing values last in both directions, ties by id.\<close>

definition history_key :: "(string \<Rightarrow> int) \<Rightarrow> string \<Rightarrow> bool \<Rightarrow> hrow \<Rightarrow> int \<times> int \<times> int" where
  "history_key collate key descending r =
     (let sg = (if descending then - 1 else 1)
      in (case history_value collate key r of
            None \<Rightarrow> (1, 0, sg * int (hr_id r))
          | Some v \<Rightarrow> (0, sg * v, sg * int (hr_id r))))"

definition order_history ::
    "(string \<Rightarrow> int) \<Rightarrow> bool \<Rightarrow> params \<Rightarrow> ('x \<Rightarrow> hrow) \<Rightarrow> 'x list \<Rightarrow> 'x list res" where
  "order_history collate orders ps row queryset =
     (let ordering = (case given ps ''ordering'' of None \<Rightarrow> ''-created_at'' | Some v \<Rightarrow> v);
          descending = (take 1 ordering = ''-'');
          key = (if descending then tl ordering else ordering)
      in if key \<notin> set (history_fields orders)
         then Inl (HistoryFilterError ''ordering'' (''ordering must be one of '' @ join_text '', '' (history_fields orders) @ '', optionally prefixed with -.''))
         else Inr (sort_key (\<lambda>x. history_key collate key descending (row x)) queryset))"


subsection \<open>The history endpoints\<close>

definition transaction_history_queryset :: "account \<Rightarrow> sales_store \<Rightarrow> txn list" where
  "transaction_history_queryset user st =
     visible_transactions (ac_role user = ''staff'') (Some (ac_id user)) st
       (rev (sort_key (\<lambda>t. (tx_created t, tx_id t)) (ss_txns st)))"

definition filtered_history :: "(nat \<Rightarrow> string) \<Rightarrow> account \<Rightarrow> params \<Rightarrow> sales_store \<Rightarrow> txn list res" where
  "filtered_history username user ps st =
     filter_history False ps (txn_row username st) (transaction_history_queryset user st)"

definition transaction_list ::
    "(nat \<Rightarrow> string) \<Rightarrow> (string \<Rightarrow> int) \<Rightarrow> account \<Rightarrow> params \<Rightarrow> sales_store \<Rightarrow> txn list http" where
  "transaction_list username collate user ps st =
     (case rbind (filtered_history username user ps st) (order_history collate False ps (txn_row username st)) of
        Inl e \<Rightarrow> Inl (value_error_status e, e) | Inr xs \<Rightarrow> Inr (200, xs))"

record txn_summary =
  ts_count :: nat
  ts_revenue :: dec
  ts_states :: "(pay_status \<times> nat \<times> dec) list"

text \<open>An aggregate over no rows is null and shown as \<^verbatim>\<open>0.00\<close>.\<close>

definition transaction_summary :: "(nat \<Rightarrow> string) \<Rightarrow> account \<Rightarrow> params \<Rightarrow> sales_store \<Rightarrow> txn_summary http" where
  "transaction_summary username user ps st =
     (case filtered_history username user ps st of
        Inl e \<Rightarrow> Inl (value_error_status e, e)
      | Inr xs \<Rightarrow>
          Inr (200, \<lparr>ts_count = length xs, ts_revenue = (\<Sum>t\<leftarrow>xs. tx_total t),
            ts_states = map (\<lambda>s. (s, length (filter (\<lambda>t. tx_pay_status t = s) xs),
                                  \<Sum>t\<leftarrow>filter (\<lambda>t. tx_pay_status t = s) xs. tx_total t)) [Paid, Pending, PayUnknown]\<rparr>))"

definition transaction_cancel ::
    "void_clock \<Rightarrow> account \<Rightarrow> nat \<Rightarrow> string \<Rightarrow> sales_store \<Rightarrow> (txn \<times> sales_store) http" where
  "transaction_cancel vk user pk reason st =
     (if ac_role user \<noteq> ''admin'' then Inl (403, PermissionDenied ''You do not have permission to perform this action.'')
      else if find (\<lambda>t. tx_id t = pk) (transaction_history_queryset user st) = None then Inl (404, DoesNotExist ''Transaction'')
      else (case void_transaction vk pk (Some (ac_id user)) reason st of
              Inl e \<Rightarrow> Inl (value_error_status e, e)
            | Inr ((t, _), st') \<Rightarrow> Inr (200, (t, st'))))"

definition encoding_queryset :: "account \<Rightarrow> sales_store \<Rightarrow> txn list" where
  "encoding_queryset user st = filter (\<lambda>t. tx_encoded_at t \<noteq> None) (transaction_history_queryset user st)"

definition order_queryset :: "(nat \<Rightarrow> string) \<Rightarrow> account \<Rightarrow> params \<Rightarrow> sales_store \<Rightarrow> order list res" where
  "order_queryset username user ps st =
     filter_history True ps (order_row username st) (visible_orders user st (ss_orders st))"

definition order_list ::
    "(nat \<Rightarrow> string) \<Rightarrow> (string \<Rightarrow> int) \<Rightarrow> account \<Rightarrow> params \<Rightarrow> sales_store \<Rightarrow> order list http" where
  "order_list username collate user ps st =
     (case rbind (order_queryset username user ps st) (order_history collate True ps (order_row username st)) of
        Inl e \<Rightarrow> Inl (400, e) | Inr xs \<Rightarrow> Inr (200, xs))"

record order_summary =
  os_count :: nat
  os_fulfilled :: nat
  os_cancelled :: nat
  os_pending :: nat
  os_revenue :: dec

definition live_order :: "sales_store \<Rightarrow> order \<Rightarrow> bool" where
  "live_order st ord \<longleftrightarrow> or_status ord = Fulfilled \<and>
     (case order_txn st ord of None \<Rightarrow> False | Some t \<Rightarrow> \<not> tx_voided t)"

definition order_total :: "sales_store \<Rightarrow> order \<Rightarrow> dec" where
  "order_total st ord = (case order_txn st ord of None \<Rightarrow> 0 | Some t \<Rightarrow> tx_total t)"

definition summary :: "(nat \<Rightarrow> string) \<Rightarrow> account \<Rightarrow> params \<Rightarrow> sales_store \<Rightarrow> order_summary http" where
  "summary username user ps st =
     (case order_queryset username user ps st of
        Inl e \<Rightarrow> Inl (400, e)
      | Inr xs \<Rightarrow>
          Inr (200, \<lparr>os_count = length xs, os_fulfilled = length (filter (\<lambda>x. or_status x = Fulfilled) xs),
            os_cancelled = length (filter (\<lambda>x. or_status x = Cancelled) xs),
            os_pending = length (filter (\<lambda>x. live_order st x \<and> map_option tx_pay_status (order_txn st x) = Some Pending) xs),
            os_revenue = (\<Sum>x\<leftarrow>filter (live_order st) xs. order_total st x)\<rparr>))"

definition order_cancel ::
    "void_clock \<Rightarrow> account \<Rightarrow> nat \<Rightarrow> string \<Rightarrow> sales_store \<Rightarrow> sales_store http" where
  "order_cancel vk user pk reason st =
     (if ac_role user \<noteq> ''admin'' then Inl (403, PermissionDenied ''You do not have permission to perform this action.'')
      else case find (\<lambda>x. or_id x = pk) (visible_orders user st (ss_orders st)) of
        None \<Rightarrow> Inl (404, DoesNotExist ''Order'')
      | Some ord \<Rightarrow>
          if (case order_txn st ord of None \<Rightarrow> False | Some t \<Rightarrow> tx_source_ref t \<noteq> None \<and> tx_source_ref t \<noteq> Some [])
          then Inl (400, ValueError ''Imported historical orders cannot be cancelled.'')
          else if or_status ord = Cancelled then Inl (400, ValueError ''Order is already cancelled.'')
          else (case void_fulfilled_order vk ord (Some (ac_id user)) reason st of
                  Inl e \<Rightarrow> Inl (value_error_status e, e)
                | Inr (_, st') \<Rightarrow> Inr (200, st')))"

text \<open>What a receipt shows of itself.\<close>

definition get_can_update_payment :: "txn \<Rightarrow> bool" where
  "get_can_update_payment t \<longleftrightarrow> tx_encoded_at t \<noteq> None \<and> \<not> tx_voided t \<and> tx_pay_status t \<noteq> Paid"

definition get_transaction_number :: "txn \<Rightarrow> string option" where
  "get_transaction_number t = (if tx_invoice t = Some [] then None else tx_invoice t)"

definition get_transaction_date :: "txn \<Rightarrow> date" where
  "get_transaction_date t = local_date (tx_created t)"

subsection \<open>Reports\<close>

definition period_start :: "string \<Rightarrow> (date \<Rightarrow> date) option" where
  "period_start period =
     (if period = ''daily'' then Some (\<lambda>d. d)
      else if period = ''weekly'' then Some (\<lambda>d. d - weekday d)
      else if period = ''monthly'' then Some (\<lambda>d. mk_date (year_of d) (month_of d) 1)
      else if period = ''yearly'' then Some (\<lambda>d. mk_date (year_of d) 1 1)
      else None)"

definition in_range :: "date option \<Rightarrow> date option \<Rightarrow> date \<Rightarrow> bool" where
  "in_range start stop d \<longleftrightarrow> (start \<noteq> None \<longrightarrow> the start \<le> d) \<and> (stop \<noteq> None \<longrightarrow> d \<le> the stop)"

definition report_txns :: "date option \<Rightarrow> date option \<Rightarrow> sales_store \<Rightarrow> txn list" where
  "report_txns start stop st = filter (\<lambda>t. \<not> tx_voided t \<and> in_range start stop (local_date (tx_created t))) (ss_txns st)"

text \<open>A grouped aggregate: one row per key with the sum over its members.\<close>

definition group_sums :: "('x \<Rightarrow> 'k) \<Rightarrow> ('x \<Rightarrow> dec) \<Rightarrow> 'x list \<Rightarrow> ('k \<times> dec) list" where
  "group_sums key amount xs = map (\<lambda>k. (k, \<Sum>x\<leftarrow>filter (\<lambda>x. key x = k) xs. amount x)) (remdups (map key xs))"

definition get_revenue_report :: "string \<Rightarrow> date option \<Rightarrow> date option \<Rightarrow> sales_store \<Rightarrow> (date \<times> dec) list res" where
  "get_revenue_report period start stop st =
     (case period_start period of
        None \<Rightarrow> Inl (ValueErrorF ''Invalid period '{}'. Must be one of ['daily', 'weekly', 'monthly', 'yearly'].'' [FStr period])
      | Some trunc \<Rightarrow>
          Inr (sort_key fst (group_sums (\<lambda>t. trunc (local_date (tx_created t))) tx_total (report_txns start stop st))))"

definition report_items :: "date option \<Rightarrow> date option \<Rightarrow> sales_store \<Rightarrow> titem list" where
  "report_items start stop st =
     filter (\<lambda>i. case get_txn (ss_txns st) (ti_txn i) of None \<Rightarrow> False
                 | Some t \<Rightarrow> \<not> tx_voided t \<and> in_range start stop (local_date (tx_created t))) (ss_items st)"

definition item_product :: "sales_store \<Rightarrow> titem \<Rightarrow> product option" where
  "item_product st i =
     (case get_batch (st_batches st) (ti_batch i) of None \<Rightarrow> None | Some b \<Rightarrow> row_get pr_id (st_products st) (pb_product b))"

definition coalesce :: "'x option \<Rightarrow> 'x option \<Rightarrow> 'x option" where
  "coalesce v w = (case v of None \<Rightarrow> w | Some x \<Rightarrow> Some x)"

definition best_seller_key :: "sales_store \<Rightarrow> titem \<Rightarrow> nat option \<times> string option \<times> string option" where
  "best_seller_key st i =
     (coalesce (ti_product_snap i) (map_option pr_id (item_product st i)),
      coalesce (ti_name_snap i) (map_option pr_name (item_product st i)),
      coalesce (ti_variant_snap i) (case item_product st i of None \<Rightarrow> None | Some p \<Rightarrow> pr_variant p))"

definition get_best_sellers ::
    "nat \<Rightarrow> date option \<Rightarrow> date option \<Rightarrow> sales_store \<Rightarrow> ((nat option \<times> string option \<times> string option) \<times> dec) list" where
  "get_best_sellers limit start stop st =
     take limit (sort_key (\<lambda>r. - snd r) (group_sums (best_seller_key st) ti_qty (report_items start stop st)))"

definition category_key :: "sales_store \<Rightarrow> titem \<Rightarrow> nat option \<times> string option" where
  "category_key st i =
     (coalesce (ti_cat_snap i) (map_option pr_category (item_product st i)),
      coalesce (ti_catname_snap i)
        (case item_product st i of None \<Rightarrow> None | Some p \<Rightarrow> map_option cat_name (category_of st (pr_id p))))"

definition get_sales_by_category ::
    "date option \<Rightarrow> date option \<Rightarrow> sales_store \<Rightarrow> ((nat option \<times> string option) \<times> dec) list" where
  "get_sales_by_category start stop st =
     sort_key (\<lambda>r. - snd r) (group_sums (category_key st) ti_qty (report_items start stop st))"

definition parse_date_param :: "string option \<Rightarrow> string \<Rightarrow> date option res" where
  "parse_date_param v name =
     (case v of
        None \<Rightarrow> Inr None
      | Some s \<Rightarrow> if s = [] then Inr None
                  else (case strptime_date s of
                          None \<Rightarrow> Inl (ValueErrorF '''{}' must be in YYYY-MM-DD format.'' [FStr name])
                        | Some d \<Rightarrow> Inr (Some d)))"

definition report_range :: "params \<Rightarrow> (date option \<times> date option) res" where
  "report_range ps =
     rbind (parse_date_param (map_of ps ''start_date'') ''start_date'') (\<lambda>start.
     rbind (parse_date_param (map_of ps ''end_date'') ''end_date'') (\<lambda>stop.
     if start \<noteq> None \<and> stop \<noteq> None \<and> the stop < the start
     then Inl (ValueError '''start_date' must be on or before 'end_date'.'') else Inr (start, stop)))"

definition revenue_report_get :: "params \<Rightarrow> sales_store \<Rightarrow> (date \<times> dec) list http" where
  "revenue_report_get ps st =
     (case rbind (report_range ps) (\<lambda>(start, stop).
             get_revenue_report (param_default ps ''period'' ''monthly'') start stop st) of
        Inl e \<Rightarrow> Inl (400, e) | Inr rows \<Rightarrow> Inr (200, rows))"

definition best_seller_limit :: "params \<Rightarrow> nat res" where
  "best_seller_limit ps =
     (case py_int (param_default ps ''limit'' ''10'') of
        None \<Rightarrow> Inl (ValueError ''limit must be an integer.'')
      | Some limit \<Rightarrow>
          if limit \<le> 0 then Inl (ValueError ''limit must be greater than zero.'')
          else if 500 < limit then Inl (ValueErrorF ''limit must be at most {}.'' [FInt 500])
          else Inr (nat limit))"

definition best_sellers_get ::
    "params \<Rightarrow> sales_store \<Rightarrow> ((nat option \<times> string option \<times> string option) \<times> dec) list http" where
  "best_sellers_get ps st =
     (case rbind (best_seller_limit ps) (\<lambda>limit. rbind (report_range ps) (\<lambda>(start, stop).
             Inr (get_best_sellers limit start stop st))) of
        Inl e \<Rightarrow> Inl (400, e) | Inr rows \<Rightarrow> Inr (200, rows))"

text \<open>Shares of categories as exact fractions in per cent; the view rounds them to one decimal.\<close>

definition category_shares ::
    "params \<Rightarrow> sales_store \<Rightarrow> ((nat option \<times> string option) \<times> dec \<times> dec) list http" where
  "category_shares ps st =
     (case report_range ps of
        Inl e \<Rightarrow> Inl (400, e)
      | Inr (start, stop) \<Rightarrow>
          (let rows = get_sales_by_category start stop st; whole = (\<Sum>r\<leftarrow>rows. snd r)
           in Inr (200, map (\<lambda>(k, sold). (k, if whole = 0 then (0, 1) else (sold * 100, whole))) rows)))"


subsection \<open>Customers\<close>

definition customer_sales :: "account \<Rightarrow> sales_store \<Rightarrow> nat \<Rightarrow> txn list" where
  "customer_sales user st c =
     filter (\<lambda>t. tx_customer t = Some c \<and> \<not> tx_voided t)
       (visible_transactions (ac_role user = ''staff'') (Some (ac_id user)) st (ss_txns st))"

record customer_view =
  cv_customer :: customer
  cv_count :: nat
  cv_last :: "instant option"
  cv_spent :: dec

definition customer_totals :: "account \<Rightarrow> sales_store \<Rightarrow> customer \<Rightarrow> customer_view" where
  "customer_totals user st c =
     (let sales = customer_sales user st (cu_id c)
      in \<lparr>cv_customer = c, cv_count = length sales,
          cv_last = (if sales = [] then None else Some (Max (set (map tx_created sales)))),
          cv_spent = (\<Sum>t\<leftarrow>sales. tx_total t)\<rparr>)"

definition customer_list :: "account \<Rightarrow> params \<Rightarrow> sales_store \<Rightarrow> customer_view list" where
  "customer_list user ps st =
     map (customer_totals user st)
       (if casefold (param_default ps ''include_inactive'' ''false'') \<noteq> ''true''
        then filter cu_active (ss_customers st) else ss_customers st)"

definition customer_transactions :: "account \<Rightarrow> params \<Rightarrow> nat \<Rightarrow> sales_store \<Rightarrow> txn list http" where
  "customer_transactions user ps pk st =
     (case row_get cu_id (ss_customers st) pk of
        None \<Rightarrow> Inl (404, DoesNotExist ''Customer'')
      | Some c \<Rightarrow>
          (let xs = filter (\<lambda>t. tx_customer t = Some pk) (transaction_history_queryset user st)
           in Inr (200, if casefold (param_default ps ''include_voided'' ''false'') \<noteq> ''true''
                        then filter (\<lambda>t. \<not> tx_voided t) xs else xs)))"

definition customer_linked :: "nat \<Rightarrow> sales_store \<Rightarrow> bool" where
  "customer_linked c st \<longleftrightarrow> list_ex (\<lambda>t. tx_customer t = Some c) (ss_txns st) \<or> list_ex (\<lambda>x. or_customer x = c) (ss_orders st)"

definition customer_destroy :: "account \<Rightarrow> nat \<Rightarrow> sales_store \<Rightarrow> (string \<times> sales_store) http" where
  "customer_destroy user pk st =
     (if ac_role user \<noteq> ''admin'' then Inl (403, PermissionDenied ''You do not have permission to perform this action.'')
      else case row_get cu_id (ss_customers st) pk of
        None \<Rightarrow> Inl (404, DoesNotExist ''Customer'')
      | Some c \<Rightarrow>
          if customer_linked pk st
          then Inr (200, ''deactivated'', st\<lparr>ss_customers := row_save cu_id (c\<lparr>cu_active := False\<rparr>) (ss_customers st)\<rparr>)
          else Inr (200, ''permanent'', st\<lparr>ss_customers := row_del cu_id pk (ss_customers st)\<rparr>))"

definition customer_reactivate :: "account \<Rightarrow> nat \<Rightarrow> sales_store \<Rightarrow> sales_store http" where
  "customer_reactivate user pk st =
     (if ac_role user \<noteq> ''admin'' then Inl (403, PermissionDenied ''You do not have permission to perform this action.'')
      else case row_get cu_id (ss_customers st) pk of
        None \<Rightarrow> Inl (404, DoesNotExist ''Customer'')
      | Some c \<Rightarrow> Inr (200, st\<lparr>ss_customers := row_save cu_id (c\<lparr>cu_active := True\<rparr>) (ss_customers st)\<rparr>))"

text \<open>
  \<^verbatim>\<open>CustomerSerializer.validate\<close>: a name that another account already carries is refused unless their
  contact details differ. The canonical form of a name is a parameter (see the customer names).
\<close>

record customer_attrs =
  ca_name :: "string option"
  ca_contact :: "string option option"
  ca_email :: "string option option"
  ca_address :: "string option option"

fun split_words :: "string \<Rightarrow> string \<Rightarrow> string list" where
  "split_words acc [] = (if acc = [] then [] else [rev acc])"
| "split_words acc (c # cs) =
     (if is_space c then (if acc = [] then split_words [] cs else rev acc # split_words [] cs)
      else split_words (c # acc) cs)"

definition squeeze :: "string \<Rightarrow> string" where
  "squeeze s = join_text '' '' (split_words [] s)"

definition differ :: "string option \<Rightarrow> string option \<Rightarrow> bool" where
  "differ v w \<longleftrightarrow> (case (v, w) of
     (Some x, Some y) \<Rightarrow> x \<noteq> [] \<and> y \<noteq> [] \<and> casefold (squeeze x) \<noteq> casefold (squeeze y) | _ \<Rightarrow> False)"

definition incoming :: "'x option option \<Rightarrow> (customer \<Rightarrow> 'x option) \<Rightarrow> customer option \<Rightarrow> 'x option" where
  "incoming v col inst = (case v of Some x \<Rightarrow> x | None \<Rightarrow> (case inst of None \<Rightarrow> None | Some c \<Rightarrow> col c))"

definition distinct_contacts :: "customer_attrs \<Rightarrow> customer option \<Rightarrow> customer \<Rightarrow> bool" where
  "distinct_contacts a inst other \<longleftrightarrow>
     differ (incoming (ca_contact a) cu_contact inst) (cu_contact other) \<or>
     differ (incoming (ca_email a) cu_email inst) (cu_email other) \<or>
     differ (incoming (ca_address a) cu_address inst) (cu_address other)"

definition validate_customer ::
    "(string \<Rightarrow> string) \<Rightarrow> customer_attrs \<Rightarrow> customer option \<Rightarrow> sales_store \<Rightarrow> customer_attrs res" where
  "validate_customer canonical a inst st =
     (case ca_name a of
        None \<Rightarrow> Inr a
      | Some raw \<Rightarrow>
          (let name = canonical raw;
               matches = filter (\<lambda>c. casefold (cu_name c) = casefold name \<and>
                                     (inst = None \<or> cu_id c \<noteq> cu_id (the inst))) (ss_customers st)
           in if name = [] then Inl (ValidationError ''name'' ''Enter a customer name.'')
              else (case find (\<lambda>c. \<not> distinct_contacts a inst c) matches of
                      Some other \<Rightarrow> Inl (ValidationError ''name''
                        (''This customer already exists as '' @ cu_name other @ '' (ID '' @ str_nat (cu_id other) @
                         ''). Select the existing account.''))
                    | None \<Rightarrow> Inr (a\<lparr>ca_name := Some name\<rparr>))))"

subsection \<open>What the history shows\<close>

lemma day_split: "t + manila_us = day_us * local_date t + (t + manila_us) mod day_us \<and>
    0 \<le> (t + manila_us) mod day_us \<and> (t + manila_us) mod day_us < day_us"
  by (simp add: local_date_def day_us_def)

lemma at_hour_start: "at_hour d 0 \<le> t \<longleftrightarrow> d \<le> local_date t"
  using day_split[of t] unfolding at_hour_def day_us_def by (auto simp: algebra_simps)

lemma at_hour_end: "t \<le> at_hour (d + 1) 0 - 1 \<longleftrightarrow> local_date t \<le> d"
  using day_split[of t] unfolding at_hour_def day_us_def by (auto simp: algebra_simps)

text \<open>The whole filter as one condition on a row, with the dates taken in local time.\<close>

definition matches_history :: "bool \<Rightarrow> date option \<Rightarrow> date option \<Rightarrow> params \<Rightarrow> hrow \<Rightarrow> bool" where
  "matches_history orders start stop ps r \<longleftrightarrow>
     in_range start stop (local_date (hr_date r)) \<and>
     (\<forall>(f, allowed, col) \<in> set (history_choices orders). given ps f \<noteq> None \<longrightarrow> col r = given ps f) \<and>
     (given ps ''handled_by'' \<noteq> None \<longrightarrow>
        parse_positive_id (PStr (the (given ps ''handled_by''))) ''handled_by'' = Inr (hr_by r)) \<and>
     (given ps ''customer_id'' \<noteq> None \<longrightarrow> hr_customer r \<noteq> None \<and>
        parse_positive_id (PStr (the (given ps ''customer_id''))) ''customer_id'' = Inr (the (hr_customer r))) \<and>
     (\<not> orders \<and> casefold (param_default ps ''include_voided'' ''false'') \<noteq> ''true'' \<longrightarrow> \<not> hr_voided r) \<and>
     (strip (param_default ps ''search'' []) \<noteq> [] \<longrightarrow> search_matches orders (strip (param_default ps ''search'' [])) r)"

lemma rfold_filter:
  assumes "\<And>xs c ys. f xs c = Inr ys \<Longrightarrow> ys = filter (P c) xs" "rfold f xs cs = Inr ys"
  shows "ys = filter (\<lambda>x. \<forall>c \<in> set cs. P c x) xs"
  using assms(2) by (induction cs arbitrary: xs) (simp, fastforce dest: assms(1))

lemma filter_choice_Inr:
  "filter_choice ps row xs c = Inr ys \<Longrightarrow>
     ys = filter (\<lambda>x. given ps (fst c) \<noteq> None \<longrightarrow> snd (snd c) (row x) = given ps (fst c)) xs"
  by (auto simp: filter_choice_def split: prod.split_asm option.split_asm if_split_asm)

lemma filter_id_Inr:
  "filter_id ps row xs c = Inr ys \<Longrightarrow>
     ys = filter (\<lambda>x. given ps (fst c) \<noteq> None \<longrightarrow> snd (snd c) (row x) \<noteq> None \<and>
       parse_positive_id (PStr (the (given ps (fst c)))) (fst c) = Inr (the (snd (snd c) (row x)))) xs"
  by (auto simp: filter_id_def split: prod.split_asm option.split_asm sum.split_asm intro!: filter_cong)

lemma filter_history_spec:
  assumes "filter_history orders ps row xs = Inr ys"
  obtains start stop where "date_param ps ''start_date'' = Inr start" "date_param ps ''end_date'' = Inr stop"
    "ys = filter (\<lambda>x. matches_history orders start stop ps (row x)) xs"
proof -
  define ids :: "(string \<times> string \<times> (hrow \<Rightarrow> nat option)) list" where
    "ids = [(''handled_by'', ''handled_by must be a valid user id.'', \<lambda>r. Some (hr_by r)),
            (''customer_id'', ''customer_id must be a valid customer id.'', hr_customer)]"
  obtain start stop where d: "date_param ps ''start_date'' = Inr start" "date_param ps ''end_date'' = Inr stop"
    using assms by (auto simp: filter_history_def)
  define xs2 where "xs2 = filter (\<lambda>x. in_range start stop (local_date (hr_date (row x)))) xs"
  define P where "P = (\<lambda>x. (\<not> orders \<and> casefold (param_default ps ''include_voided'' ''false'') \<noteq> ''true'' \<longrightarrow> \<not> hr_voided (row x)) \<and>
     (strip (param_default ps ''search'' []) \<noteq> [] \<longrightarrow> search_matches orders (strip (param_default ps ''search'' [])) (row x)))"
  have two: "(case stop of None \<Rightarrow> (case start of None \<Rightarrow> xs | Some d \<Rightarrow> filter (\<lambda>x. at_hour d 0 \<le> hr_date (row x)) xs)
      | Some d \<Rightarrow> filter (\<lambda>x. hr_date (row x) \<le> at_hour (d + 1) 0 - 1)
          (case start of None \<Rightarrow> xs | Some d \<Rightarrow> filter (\<lambda>x. at_hour d 0 \<le> hr_date (row x)) xs)) = xs2"
    unfolding xs2_def in_range_def at_hour_start at_hour_end by (auto split: option.splits intro: filter_cong)
  from assms obtain xs3 xs4 where
    r: "rfold (filter_choice ps row) xs2 (history_choices orders) = Inr xs3" "rfold (filter_id ps row) xs3 ids = Inr xs4"
    and y: "ys = (if strip (param_default ps ''search'' []) = []
      then if \<not> orders \<and> casefold (param_default ps ''include_voided'' ''false'') \<noteq> ''true''
           then filter (\<lambda>x. \<not> hr_voided (row x)) xs4 else xs4
      else filter (\<lambda>x. search_matches orders (strip (param_default ps ''search'' [])) (row x))
        (if \<not> orders \<and> casefold (param_default ps ''include_voided'' ''false'') \<noteq> ''true''
         then filter (\<lambda>x. \<not> hr_voided (row x)) xs4 else xs4))"
    unfolding filter_history_def d rbind.simps Let_def guard_Inr two ids_def[symmetric] rbind_Inr_iff sum.inject by blast
  have r3: "ys = filter P xs4" unfolding y P_def by (simp cong: filter_cong)
  have x3: "xs3 = filter (\<lambda>x. \<forall>c \<in> set (history_choices orders). given ps (fst c) \<noteq> None \<longrightarrow> snd (snd c) (row x) = given ps (fst c)) xs2"
    by (rule rfold_filter[OF _ r(1)]) (rule filter_choice_Inr)
  have x4: "xs4 = filter (\<lambda>x. \<forall>c \<in> set ids. given ps (fst c) \<noteq> None \<longrightarrow> snd (snd c) (row x) \<noteq> None \<and>
       parse_positive_id (PStr (the (given ps (fst c)))) (fst c) = Inr (the (snd (snd c) (row x)))) xs3"
    by (rule rfold_filter[OF _ r(2)]) (rule filter_id_Inr)
  have "ys = filter (\<lambda>x. matches_history orders start stop ps (row x)) xs"
    unfolding r3 x4 x3 xs2_def filter_filter matches_history_def P_def ids_def list.set ball_simps fst_conv snd_conv split_beta
    by (rule filter_cong) (simp, fastforce)
  then show ?thesis using d that by blast
qed

lemma filter_history_subset: "filter_history orders ps row xs = Inr ys \<Longrightarrow> set ys \<subseteq> set xs"
  by (elim filter_history_spec) simp

lemma order_history_mset: "order_history collate orders ps row xs = Inr ys \<Longrightarrow> mset ys = mset xs"
  by (auto simp: order_history_def Let_def split: if_split_asm)

lemma order_history_sorted:
  assumes "order_history collate orders ps row xs = Inr ys"
  shows "\<exists>key desc. key \<in> set (history_fields orders) \<and> sorted (map (\<lambda>x. history_key collate key desc (row x)) ys)"
proof -
  define key where "key = (let ordering = (case given ps ''ordering'' of None \<Rightarrow> ''-created_at'' | Some v \<Rightarrow> v)
    in if take 1 ordering = ''-'' then tl ordering else ordering)"
  define desc where "desc = (take 1 (case given ps ''ordering'' of None \<Rightarrow> ''-created_at'' | Some v \<Rightarrow> v) = ''-'')"
  have "key \<in> set (history_fields orders)" "ys = sort_key (\<lambda>x. history_key collate key desc (row x)) xs"
    using assms unfolding order_history_def Let_def guard_Inr key_def desc_def by simp_all
  then show ?thesis by (intro exI[of _ key] exI[of _ desc]) simp
qed

lemma sum_list_mset_eq: "mset xs = mset ys \<Longrightarrow> (\<Sum>x\<leftarrow>xs. f x) = (\<Sum>x\<leftarrow>ys. (f x :: int))"
  by (metis mset_map sum_mset_sum_list)

lemma status_partition:
  "length xs = (\<Sum>s\<leftarrow>[Paid, Pending, PayUnknown]. length (filter (\<lambda>t. tx_pay_status t = s) xs)) \<and>
   (\<Sum>t\<leftarrow>xs. tx_total t) = (\<Sum>s\<leftarrow>[Paid, Pending, PayUnknown]. \<Sum>t\<leftarrow>filter (\<lambda>t. tx_pay_status t = s) xs. tx_total t)"
proof (induction xs)
  case (Cons t xs) then show ?case by (cases "tx_pay_status t") auto
qed simp

lemma transaction_list_set:
  assumes "transaction_list username collate user ps st = Inr (n, xs)"
  obtains ys where "filtered_history username user ps st = Inr ys" "mset xs = mset ys" "n = 200"
  using assms by (auto simp: transaction_list_def dest!: order_history_mset split: sum.split_asm)

text \<open>
  The receipts of the sales history are exactly the caller's visible receipts that meet every given
  filter, with the start and end dates taken as whole local days, and they are sorted by the requested
  column with ties by id.
\<close>

lemma history_lists_matching:
  assumes "transaction_list username collate user ps st = Inr (n, xs)"
  shows "\<exists>start stop key desc. date_param ps ''start_date'' = Inr start \<and> date_param ps ''end_date'' = Inr stop \<and>
    mset xs = mset (filter (\<lambda>t. matches_history False start stop ps (txn_row username st t)) (transaction_history_queryset user st)) \<and>
    key \<in> set (history_fields False) \<and> sorted (map (\<lambda>t. history_key collate key desc (txn_row username st t)) xs)"
proof -
  obtain ys where ys: "filter_history False ps (txn_row username st) (transaction_history_queryset user st) = Inr ys"
    "order_history collate False ps (txn_row username st) ys = Inr xs"
    using assms by (auto simp: transaction_list_def filtered_history_def split: sum.split_asm)
  obtain start stop where "date_param ps ''start_date'' = Inr start" "date_param ps ''end_date'' = Inr stop"
    "ys = filter (\<lambda>t. matches_history False start stop ps (txn_row username st t)) (transaction_history_queryset user st)"
    using filter_history_spec[OF ys(1)] by blast
  then show ?thesis using order_history_mset[OF ys(2)] order_history_sorted[OF ys(2)] by blast
qed

definition demo_account :: "string \<Rightarrow> account" where
  "demo_account role = \<lparr>ac_id = 1, ac_role = role\<rparr>"

lemma demo_list:
  "\<exists>t. transaction_list (\<lambda>_. ''ana'') (\<lambda>s. int (length s)) (demo_account ''admin'')
     [(''payment_status'', ''paid''), (''ordering'', ''-total_amount'')] (snd demo_sold) = Inr (200, [t])"
proof -
  have "map_sum id (\<lambda>r. length (snd r)) (transaction_list (\<lambda>_. ''ana'') (\<lambda>s. int (length s)) (demo_account ''admin'')
     [(''payment_status'', ''paid''), (''ordering'', ''-total_amount'')] (snd demo_sold)) = Inr 1" by code_simp
  then show ?thesis by (auto simp: transaction_list_def map_sum_def length_Suc_conv split: sum.splits)
qed

lemma history_lists_matching_witness:
  "\<exists>t. transaction_list (\<lambda>_. ''ana'') (\<lambda>s. int (length s)) (demo_account ''admin'')
     [(''payment_status'', ''paid''), (''ordering'', ''-total_amount'')] (snd demo_sold) = Inr (200, [t]) \<and>
   (\<exists>start stop. t \<in># mset (filter (\<lambda>t. matches_history False start stop [(''payment_status'', ''paid''), (''ordering'', ''-total_amount'')]
      (txn_row (\<lambda>_. ''ana'') (snd demo_sold) t)) (transaction_history_queryset (demo_account ''admin'') (snd demo_sold))))"
proof -
  obtain t where t: "transaction_list (\<lambda>_. ''ana'') (\<lambda>s. int (length s)) (demo_account ''admin'')
     [(''payment_status'', ''paid''), (''ordering'', ''-total_amount'')] (snd demo_sold) = Inr (200, [t])" using demo_list by blast
  from history_lists_matching[OF t] obtain start stop where
    "mset [t] = mset (filter (\<lambda>t. matches_history False start stop [(''payment_status'', ''paid''), (''ordering'', ''-total_amount'')]
      (txn_row (\<lambda>_. ''ana'') (snd demo_sold) t)) (transaction_history_queryset (demo_account ''admin'') (snd demo_sold)))"
    by metis
  then show ?thesis using t by (metis mset.simps(2) union_single_eq_member)
qed

text \<open>
  The summary of the history agrees with its list: it counts and adds up exactly the listed receipts,
  and the paid, pending and unrecorded parts make up the whole.
\<close>

lemma history_summary_agrees:
  assumes "transaction_list username collate user ps st = Inr (n, xs)"
  shows "\<exists>s. transaction_summary username user ps st = Inr (200, s) \<and> ts_count s = length xs \<and>
    ts_revenue s = (\<Sum>t\<leftarrow>xs. tx_total t) \<and> ts_count s = (\<Sum>(p, c, a)\<leftarrow>ts_states s. c) \<and>
    ts_revenue s = (\<Sum>(p, c, a)\<leftarrow>ts_states s. a)"
proof -
  obtain ys where ys: "filtered_history username user ps st = Inr ys" "mset xs = mset ys"
    using assms by (rule transaction_list_set)
  have "length xs = length ys" "(\<Sum>t\<leftarrow>xs. tx_total t) = (\<Sum>t\<leftarrow>ys. tx_total t)"
    using ys(2) mset_eq_length sum_list_mset_eq by blast+
  then show ?thesis using ys(1) status_partition[of ys] by (simp add: transaction_summary_def)
qed

lemma history_summary_agrees_witness:
  "\<exists>s. transaction_summary (\<lambda>_. ''ana'') (demo_account ''admin'')
     [(''payment_status'', ''paid''), (''ordering'', ''-total_amount'')] (snd demo_sold) = Inr (200, s) \<and> ts_count s = 1"
proof -
  obtain t where "transaction_list (\<lambda>_. ''ana'') (\<lambda>s. int (length s)) (demo_account ''admin'')
     [(''payment_status'', ''paid''), (''ordering'', ''-total_amount'')] (snd demo_sold) = Inr (200, [t])" using demo_list by blast
  from history_summary_agrees[OF this] show ?thesis by auto
qed

text \<open>
  A staff member sees only sales he handled himself, and none with a product of a hidden or inactive
  category, in the history, in the orders and in the receipts of a customer.
\<close>

lemma staff_sees_own_sales:
  assumes "ac_role user = ''staff''"
  shows "(transaction_list username collate user ps st = Inr (n, xs) \<longrightarrow>
      (\<forall>t \<in> set xs. tx_handled_by t = ac_id user \<and> \<not> list_ex (hidden_item st) (txn_items (tx_id t) st))) \<and>
    (order_list username collate user ps st = Inr (n, os) \<longrightarrow>
      (\<forall>x \<in> set os. or_by x = ac_id user \<and> \<not> list_ex (\<lambda>i. hidden_product st (oi_product i)) (order_lines (or_id x) st))) \<and>
    (customer_transactions user ps pk st = Inr (n, xs) \<longrightarrow>
      (\<forall>t \<in> set xs. tx_handled_by t = ac_id user \<and> \<not> list_ex (hidden_item st) (txn_items (tx_id t) st)))"
proof (intro conjI impI)
  have own: "tx_handled_by t = ac_id user \<and> \<not> list_ex (hidden_item st) (txn_items (tx_id t) st)"
    if "t \<in> set (transaction_history_queryset user st)" for t
    using that assms by (auto simp: transaction_history_queryset_def visible_transactions_def)
  {
    assume "transaction_list username collate user ps st = Inr (n, xs)"
    then obtain ys where ys: "filtered_history username user ps st = Inr ys" "mset xs = mset ys" by (rule transaction_list_set)
    from filter_history_subset[OF ys(1)[unfolded filtered_history_def]] have "set ys \<subseteq> set (transaction_history_queryset user st)" .
    then show "\<forall>t \<in> set xs. tx_handled_by t = ac_id user \<and> \<not> list_ex (hidden_item st) (txn_items (tx_id t) st)"
      using own mset_eq_setD[OF ys(2)] by blast
  next
    assume "order_list username collate user ps st = Inr (n, os)"
    then obtain ys where ys: "filter_history True ps (order_row username st) (visible_orders user st (ss_orders st)) = Inr ys"
      "mset os = mset ys"
      by (auto simp: order_list_def order_queryset_def dest!: order_history_mset split: sum.split_asm)
    from filter_history_subset[OF ys(1)] have "set ys \<subseteq> set (visible_orders user st (ss_orders st))" .
    then show "\<forall>x \<in> set os. or_by x = ac_id user \<and> \<not> list_ex (\<lambda>i. hidden_product st (oi_product i)) (order_lines (or_id x) st)"
      using mset_eq_setD[OF ys(2)] assms by (auto simp: visible_orders_def)
  next
    assume "customer_transactions user ps pk st = Inr (n, xs)"
    then have "set xs \<subseteq> set (transaction_history_queryset user st)"
      by (auto simp: customer_transactions_def Let_def split: option.split_asm if_split_asm)
    then show "\<forall>t \<in> set xs. tx_handled_by t = ac_id user \<and> \<not> list_ex (hidden_item st) (txn_items (tx_id t) st)"
      using own by blast
  }
qed

lemma staff_sees_own_sales_witness:
  "\<exists>t. transaction_list (\<lambda>_. ''ana'') (\<lambda>s. int (length s)) (demo_account ''staff'') [] (snd demo_sold) = Inr (200, [t]) \<and>
     tx_handled_by t = 1"
proof -
  have "map_sum id (\<lambda>r. length (snd r)) (transaction_list (\<lambda>_. ''ana'') (\<lambda>s. int (length s)) (demo_account ''staff'') [] (snd demo_sold)) = Inr 1"
    by code_simp
  then obtain t where t: "transaction_list (\<lambda>_. ''ana'') (\<lambda>s. int (length s)) (demo_account ''staff'') [] (snd demo_sold) = Inr (200, [t])"
    by (auto simp: transaction_list_def map_sum_def length_Suc_conv split: sum.splits)
  have "ac_role (demo_account ''staff'') = ''staff''" "ac_id (demo_account ''staff'') = 1" by (simp_all add: demo_account_def)
  with staff_sees_own_sales[of "demo_account ''staff''" "\<lambda>_. ''ana''" "\<lambda>s. int (length s)" "[]" "snd demo_sold" 200 "[t]"] t
  show ?thesis by auto
qed


subsection \<open>What the reports add up to\<close>

lemma sum_by_key:
  assumes "finite K" "key ` set xs \<subseteq> K"
  shows "(\<Sum>k\<in>K. \<Sum>x\<leftarrow>filter (\<lambda>x. key x = k) xs. amount x) = (\<Sum>x\<leftarrow>xs. (amount x :: int))"
  using assms(2)
proof (induction xs)
  case (Cons x xs)
  have "(\<Sum>k\<in>K. \<Sum>y\<leftarrow>filter (\<lambda>y. key y = k) (x # xs). amount y)
      = (\<Sum>k\<in>K. (if key x = k then amount x else 0) + (\<Sum>y\<leftarrow>filter (\<lambda>y. key y = k) xs. amount y))"
    by (rule sum.cong) auto
  then show ?case using Cons assms(1) by (simp add: sum.distrib)
qed simp

lemma group_sums_total: "(\<Sum>r\<leftarrow>group_sums key amount xs. snd r) = (\<Sum>x\<leftarrow>xs. amount x)"
proof -
  have "(\<Sum>r\<leftarrow>group_sums key amount xs. snd r)
      = (\<Sum>k\<leftarrow>remdups (map key xs). \<Sum>x\<leftarrow>filter (\<lambda>x. key x = k) xs. amount x)"
    by (simp add: group_sums_def o_def)
  also have "\<dots> = (\<Sum>k\<in>set (map key xs). \<Sum>x\<leftarrow>filter (\<lambda>x. key x = k) xs. amount x)"
    by (simp add: sum.distinct_set_conv_list[symmetric])
  also have "\<dots> = (\<Sum>x\<leftarrow>xs. amount x)" by (rule sum_by_key) auto
  finally show ?thesis .
qed

lemma group_sums_keys: "distinct (map fst (group_sums key amount xs))"
  by (simp add: group_sums_def o_def)

lemma group_sums_row: "(k, a) \<in> set (group_sums key amount xs) \<Longrightarrow> a = (\<Sum>x\<leftarrow>filter (\<lambda>x. key x = k) xs. amount x)"
  by (auto simp: group_sums_def)

text \<open>
  The revenue report splits the revenue without loss: its periods are distinct and in order, each
  carries the total of the sales of that period, and together they give the total of all sales in the
  range that are not voided.
\<close>

lemma revenue_report_adds_up:
  assumes "get_revenue_report period start stop st = Inr rows"
  shows "(\<Sum>r\<leftarrow>rows. snd r) = (\<Sum>t\<leftarrow>report_txns start stop st. tx_total t) \<and> sorted_wrt (<) (map fst rows) \<and>
    (\<exists>trunc. period_start period = Some trunc \<and> (\<forall>(b, a) \<in> set rows.
       a = (\<Sum>t\<leftarrow>filter (\<lambda>t. trunc (local_date (tx_created t)) = b) (report_txns start stop st). tx_total t)))"
proof -
  obtain trunc where t: "period_start period = Some trunc"
    "rows = sort_key fst (group_sums (\<lambda>t. trunc (local_date (tx_created t))) tx_total (report_txns start stop st))"
    using assms by (auto simp: get_revenue_report_def split: option.split_asm)
  let ?g = "group_sums (\<lambda>t. trunc (local_date (tx_created t))) tx_total (report_txns start stop st)"
  have "sorted (map fst rows)" using t(2) by simp
  moreover have "distinct (map fst rows)" using t(2) group_sums_keys[of _ _ "report_txns start stop st"]
    by (metis distinct_map distinct_sort set_sort)
  ultimately have "sorted_wrt (<) (map fst rows)" by (simp add: strict_sorted_iff)
  moreover have "(\<Sum>r\<leftarrow>rows. snd r) = (\<Sum>t\<leftarrow>report_txns start stop st. tx_total t)"
    unfolding t(2) sum_list_sort_key by (rule group_sums_total)
  moreover have "\<forall>(b, a) \<in> set rows.
      a = (\<Sum>t\<leftarrow>filter (\<lambda>t. trunc (local_date (tx_created t)) = b) (report_txns start stop st). tx_total t)"
    unfolding t(2) set_sort by (auto dest: group_sums_row)
  ultimately show ?thesis using t(1) by blast
qed

lemma revenue_report_adds_up_witness:
  "\<exists>rows. get_revenue_report ''daily'' None None (snd demo_sold) = Inr rows \<and>
     (\<Sum>r\<leftarrow>rows. snd r) = (\<Sum>t\<leftarrow>report_txns None None (snd demo_sold). tx_total t) \<and> rows \<noteq> []"
proof -
  have "isl (get_revenue_report ''daily'' None None (snd demo_sold)) = False \<and>
    projr (get_revenue_report ''daily'' None None (snd demo_sold)) \<noteq> []" by code_simp
  then obtain rows where "get_revenue_report ''daily'' None None (snd demo_sold) = Inr rows" "rows \<noteq> []"
    by (metis sum.collapse(2))
  with revenue_report_adds_up[OF this(1)] show ?thesis by auto
qed

end
