(* ===== verification/Sale_Views.thy ===== *)
theory Sale_Views
  imports History
begin

text \<open>
  The endpoints that make sales: the checkout, order and encoding views
  (\<^verbatim>\<open>sales/views/checkout_views.py\<close>, \<^verbatim>\<open>order_views.py\<close>, \<^verbatim>\<open>encoding_views.py\<close>) and the validation of
  their carts (\<^verbatim>\<open>sales/serializers/sale_input_serializer.py\<close>, \<^verbatim>\<open>encoding_serializer.py\<close>). A response is
  an error status or a success status with the result and the new store. The fields of the encoding
  forms are validated by the framework; the checks the serializers add themselves are written out.
\<close>

subsection \<open>Carts\<close>

text \<open>The products a caller may sell: active ones, for staff only of active and visible categories.\<close>

definition sale_product :: "account \<Rightarrow> 'z inv_store_scheme \<Rightarrow> nat \<Rightarrow> product option" where
  "sale_product user st pid =
     (case row_get pr_id (st_products st) pid of
        None \<Rightarrow> None
      | Some p \<Rightarrow>
          if pr_active p \<and> (ac_role user \<noteq> ''staff'' \<or>
               (case category_of st pid of None \<Rightarrow> False | Some c \<Rightarrow> cat_active c \<and> cat_visible c))
          then Some p else None)"

definition sale_item_input :: "dec_field \<Rightarrow> account \<Rightarrow> 'z inv_store_scheme \<Rightarrow> pyval \<Rightarrow> string list + cart_entry" where
  "sale_item_input rv user st item =
     (case item of
        PDict d \<Rightarrow>
          (case reject_discount_fields rv d of
             Inl _ \<Rightarrow> Inl [''non_field_errors'']
           | Inr _ \<Rightarrow>
               (let product = (case item_product_id item of Inl _ \<Rightarrow> None | Inr pid \<Rightarrow> sale_product user st pid);
                    quantity = (if has_key d ''quantity'' then rv 10 (Some 1) (dict_get d ''quantity'') else None);
                    price = (if has_key d ''unit_price'' then rv 10 (Some 0) (dict_get d ''unit_price'') else None);
                    bad = (if product = None then [''product_id''] else []) @ (if quantity = None then [''quantity''] else []) @
                          (if price = None then [''unit_price''] else [])
                in if bad \<noteq> [] then Inl bad
                   else Inr \<lparr>ce_product = pr_id (the product),
                             ce_rest = [PDec (the quantity), PDec (the price), PStr ''none'', PDec 0]\<rparr>))
      | _ \<Rightarrow> Inl [''non_field_errors''])"

text \<open>All items are validated; the first one with errors is reported with its index and fields.\<close>

fun collect_items :: "dec_field \<Rightarrow> account \<Rightarrow> 'z inv_store_scheme \<Rightarrow> nat \<Rightarrow> pyval list \<Rightarrow> cart_entry list res" where
  "collect_items rv user st i [] = Inr []"
| "collect_items rv user st i (item # items) =
     (case sale_item_input rv user st item of
        Inl bad \<Rightarrow> Inl (ValueErrorF ''Item at index {}: {}'' (FInt (int i) # map FStr bad))
      | Inr entry \<Rightarrow> rbind (collect_items rv user st (i + 1) items) (\<lambda>entries. Inr (entry # entries)))"

definition encoded_sale_items ::
    "dec_field \<Rightarrow> nat \<Rightarrow> account \<Rightarrow> pyval \<Rightarrow> 'z inv_store_scheme \<Rightarrow> cart_entry list res" where
  "encoded_sale_items rv max_cart_items user raw_items st =
     rbind (require_item_list max_cart_items raw_items) (\<lambda>items. collect_items rv user st 0 items)"


subsection \<open>Checkout and orders\<close>

definition view_error :: "exn \<Rightarrow> (nat \<times> exn)" where
  "view_error e = (value_error_status e, e)"

definition tendered_field :: "dec_field \<Rightarrow> (string \<times> pyval) list \<Rightarrow> dec option res" where
  "tendered_field rv d =
     (if dict_get d ''amount_tendered'' = PNone then Inr None
      else rbind (parse_decimal rv (dict_get d ''amount_tendered'') ''amount_tendered'' (Some 0) 20) (\<lambda>a. Inr (Some a)))"

definition checkout_customer :: "(string \<times> pyval) list \<Rightarrow> sales_store \<Rightarrow> nat option res" where
  "checkout_customer d st =
     (let v = dict_get d ''customer_id''
      in if v = PNone \<or> v = PStr [] then Inr None
      else case parse_positive_id v ''customer_id'' of
             Inl _ \<Rightarrow> Inl (ValueError ''Customer not found.'')
           | Inr k \<Rightarrow> (case row_get cu_id (ss_customers st) k of
                         None \<Rightarrow> Inl (ValueError ''Customer not found.'')
                       | Some c \<Rightarrow> if cu_active c then Inr (Some k) else Inl (ValueError ''Customer not found.'')))"

record sale_env =
  se_rv :: dec_field
  se_fp :: "sale_payload \<Rightarrow> string"
  se_uuid :: "string \<Rightarrow> nat option"
  se_max_items :: nat

definition checkout_create ::
    "sale_env \<Rightarrow> clock \<Rightarrow> account \<Rightarrow> (string \<times> pyval) list \<Rightarrow> pyval \<Rightarrow> sales_store \<Rightarrow> (nat option \<times> sales_store) http" where
  "checkout_create env ck user headers body st =
     (let r = object_body body (\<lambda>d.
        rbind (request_id (se_uuid env) d headers) (\<lambda>key.
        rbind (checkout_customer d st) (\<lambda>customer.
        rbind (reject_discount_fields (se_rv env) d) (\<lambda>_.
        rbind (tendered_field (se_rv env) d) (\<lambda>tendered.
        rbind (encoded_sale_items (se_rv env) (se_max_items env) user (dict_get_default d ''items'' (PList [])) st) (\<lambda>items.
        submit_request (se_rv env) (se_fp env)
          \<lparr>sq_user = ac_id user, sq_key = key, sq_order = False, sq_items = items, sq_customer = customer,
           sq_method = dict_get_default d ''payment_method'' (PStr ''cash''), sq_tendered = tendered, sq_clock = ck\<rparr> st))))))
      in case r of
           Inl e \<Rightarrow> Inl (view_error e)
         | Inr ((row, created), st') \<Rightarrow> Inr (if created then 201 else 200, (row, st')))"

text \<open>The customer of an order is a required field of its serializer: an active account.\<close>

definition order_customer :: "(string \<times> pyval) list \<Rightarrow> sales_store \<Rightarrow> nat res" where
  "order_customer d st =
     pk_field_value (\<lambda>k. case row_get cu_id (ss_customers st) k of
         None \<Rightarrow> None | Some c \<Rightarrow> if cu_active c then Some k else None) ''customer_id'' (dict_get d ''customer_id'')"

definition order_create ::
    "sale_env \<Rightarrow> clock \<Rightarrow> account \<Rightarrow> (string \<times> pyval) list \<Rightarrow> pyval \<Rightarrow> sales_store \<Rightarrow> (nat option \<times> sales_store) http" where
  "order_create env ck user headers body st =
     (let r = object_body body (\<lambda>d.
        rbind (request_id (se_uuid env) d headers) (\<lambda>key.
        rbind (reject_discount_fields (se_rv env) d) (\<lambda>_.
        rbind (encoded_sale_items (se_rv env) (se_max_items env) user (dict_get_default d ''items'' (PList [])) st) (\<lambda>items.
        rbind (order_customer d st) (\<lambda>customer.
        rbind (tendered_field (se_rv env) d) (\<lambda>tendered.
        submit_request (se_rv env) (se_fp env)
          \<lparr>sq_user = ac_id user, sq_key = key, sq_order = True, sq_items = items, sq_customer = Some customer,
           sq_method = dict_get_default d ''payment_method'' (PStr ''cash''), sq_tendered = tendered, sq_clock = ck\<rparr> st))))))
      in case r of
           Inl e \<Rightarrow> Inl (view_error e)
         | Inr ((row, created), st') \<Rightarrow> Inr (if created then 201 else 200, (row, st')))"


subsection \<open>Encoding\<close>

text \<open>
  The metadata of an encoding form, before its items are known. Its text fields reach the service without
  surrounding white space (\<^verbatim>\<open>CharField\<close> trims).
\<close>

definition trim_metadata :: "encode_args \<Rightarrow> encode_args" where
  "trim_metadata m = m\<lparr>en_si := strip (en_si m), en_note := strip (en_note m)\<rparr>"

definition validate_transaction_date :: "date \<Rightarrow> date \<Rightarrow> date res" where
  "validate_transaction_date today value =
     (if today < value then Inl (ValidationError ''transaction_date'' ''Transaction date cannot be in the future.'') else Inr value)"

fun conflict_status :: "exn \<Rightarrow> nat" where
  "conflict_status EncodingConflict = 409"
| "conflict_status (InvoiceNumberConflict n) = 409"
| "conflict_status e = value_error_status e"

definition encoding_create ::
    "sale_env \<Rightarrow> (encode_payload \<Rightarrow> string) \<Rightarrow> encode_clock \<Rightarrow> account \<Rightarrow> encode_args \<Rightarrow> date \<Rightarrow>
     (string \<times> pyval) list \<Rightarrow> sales_store \<Rightarrow> (txn \<times> sales_store) http" where
  "encoding_create env fp ek user metadata day d st =
     (let r =
        rbind (validate_transaction_date (ek_today ek) day) (\<lambda>day'.
        rbind (reject_discount_fields (se_rv env) d) (\<lambda>_.
        rbind (encoded_sale_items (se_rv env) (se_max_items env) user (dict_get_default d ''items'' (PList [])) st) (\<lambda>items.
        encode_transaction (se_rv env) fp ek
          ((trim_metadata metadata)\<lparr>en_items := items, en_user := ac_id user, en_date := PyDate day'\<rparr>) st)))
      in case r of
           Inl e \<Rightarrow> Inl (conflict_status e, e)
         | Inr ((t, created), st') \<Rightarrow> Inr (if created then 201 else 200, (t, st')))"

fun payment_status :: "exn \<Rightarrow> nat" where
  "payment_status PaymentLockedError = 409"
| "payment_status e = value_error_status e"

definition encoding_payment ::
    "sale_env \<Rightarrow> instant \<Rightarrow> account \<Rightarrow> nat \<Rightarrow> string list \<Rightarrow> pay_update \<Rightarrow> sales_store \<Rightarrow> (txn \<times> sales_store) http" where
  "encoding_payment env now user pk unknown u st =
     (if find (\<lambda>t. tx_id t = pk) (encoding_queryset user st) = None then Inl (404, DoesNotExist ''Transaction'')
      else if unknown \<noteq> []
      then Inl (400, ValidationError ''non_field_errors'' ''Only payment_status, payment_method and amount_tendered may be updated here.'')
      else (case update_encoding_payment (se_rv env) now pk user u st of
              Inl e \<Rightarrow> Inl (payment_status e, e) | Inr (t, st') \<Rightarrow> Inr (200, (t, st'))))"


subsection \<open>What the endpoints accept\<close>

lemma sale_product_Some:
  "sale_product user st pid = Some p \<Longrightarrow> pr_id p = pid \<and> pr_active p \<and> (ac_role user = ''staff'' \<longrightarrow> \<not> hidden_product st pid)"
  by (auto simp: sale_product_def hidden_product_def dest: row_get_Some split: option.split_asm if_split_asm)

definition entry_ok :: "dec_field \<Rightarrow> account \<Rightarrow> 'z inv_store_scheme \<Rightarrow> cart_entry \<Rightarrow> bool" where
  "entry_ok rv user st e \<longleftrightarrow> (\<exists>p q c. row_get pr_id (st_products st) (ce_product e) = Some p \<and> pr_active p \<and>
     (ac_role user = ''staff'' \<longrightarrow> \<not> hidden_product st (ce_product e)) \<and>
     ce_rest e = [PDec q, PDec c, PStr ''none'', PDec 0] \<and> 1 \<le> q \<and> q < 10 ^ 10 \<and> 0 \<le> c \<and> c < 10 ^ 10)"

lemma sale_item_ok:
  assumes "drf_decimal rv" "sale_item_input rv user st item = Inr e"
  shows "entry_ok rv user st e \<and> item_product_id item = Inr (ce_product e)"
proof -
  obtain d where d: "item = PDict d" using assms(2) by (auto simp: sale_item_input_def split: pyval.split_asm)
  obtain pid p where p: "item_product_id item = Inr pid" "sale_product user st pid = Some p"
    "ce_product e = pr_id p"
    and v: "rv 10 (Some 1) (dict_get d ''quantity'') \<noteq> None" "rv 10 (Some 0) (dict_get d ''unit_price'') \<noteq> None"
    "ce_rest e = [PDec (the (rv 10 (Some 1) (dict_get d ''quantity''))), PDec (the (rv 10 (Some 0) (dict_get d ''unit_price''))),
       PStr ''none'', PDec 0]"
    using assms(2) d by (auto simp: sale_item_input_def Let_def split: sum.split_asm if_split_asm)
  obtain q c where q: "rv 10 (Some 1) (dict_get d ''quantity'') = Some q" "rv 10 (Some 0) (dict_get d ''unit_price'') = Some c"
    using v(1,2) by blast
  then have "\<bar>q\<bar> < 10 ^ 10" "1 \<le> q" "\<bar>c\<bar> < 10 ^ 10" "0 \<le> c" using assms(1) unfolding drf_decimal_def by blast+
  moreover have "row_get pr_id (st_products st) pid = Some p"
    using p(2) by (auto simp: sale_product_def split: option.split_asm if_split_asm)
  ultimately show ?thesis using sale_product_Some[OF p(2)] p v(3) q by (auto simp: entry_ok_def)
qed

lemma collect_items_ok:
  assumes "drf_decimal rv" "collect_items rv user st i items = Inr es"
  shows "list_all (entry_ok rv user st) es \<and> rmap item_product_id items = Inr (map ce_product es)"
  using assms(2)
proof (induction items arbitrary: i es)
  case (Cons item items)
  then show ?case by (auto split: sum.split_asm dest: sale_item_ok[OF assms(1)])
qed simp

lemma check_items_distinct:
  "check_items seen items = Inr () \<Longrightarrow> rmap item_product_id items = Inr ids \<Longrightarrow> distinct ids \<and> set ids \<inter> set seen = {}"
proof (induction items arbitrary: seen ids)
  case (Cons item items)
  then obtain pid rest where r: "item_product_id item = Inr pid" "pid \<notin> set seen" "check_items (pid # seen) items = Inr ()"
    "rmap item_product_id items = Inr rest" "ids = pid # rest" by (auto split: if_split_asm)
  from Cons.IH[OF r(3,4)] r(2,5) show ?case by auto
qed simp

text \<open>
  C39: A cart that the sale endpoints accept names each product once; every product exists and is active,
  and for staff its category is active and visible; quantities are positive, prices are not negative and
  both fit their columns.
\<close>

theorem encoded_sale_items_sound:
  assumes "drf_decimal rv" "encoded_sale_items rv max_cart_items user raw_items st = Inr es"
  shows "es \<noteq> [] \<and> length es \<le> max_cart_items \<and> distinct (map ce_product es) \<and> list_all (entry_ok rv user st) es"
proof -
  obtain items where i: "raw_items = PList items" "items \<noteq> []" "length items \<le> max_cart_items"
    "check_items [] items = Inr ()" "collect_items rv user st 0 items = Inr es"
    using assms(2) by (auto simp: encoded_sale_items_def require_item_list_def split: pyval.split_asm if_split_asm)
  note ok = collect_items_ok[OF assms(1) i(5)]
  have "length es = length items" using ok rmap_length by fastforce
  moreover have "distinct (map ce_product es)" using check_items_distinct[OF i(4)] ok by blast
  ultimately show ?thesis using ok i(2,3) by auto
qed

theorem encoded_sale_items_sound_witness:
  "\<exists>e. encoded_sale_items plain_dec_field 100 \<lparr>ac_id = 1, ac_role = ''staff''\<rparr>
       (PList [PDict [(''product_id'', PInt 1), (''quantity'', PInt 2), (''unit_price'', PInt 50)]]) demo_sales = Inr [e] \<and>
     entry_ok plain_dec_field \<lparr>ac_id = 1, ac_role = ''staff''\<rparr> demo_sales e"
proof -
  let ?r = "encoded_sale_items plain_dec_field 100 \<lparr>ac_id = 1, ac_role = ''staff''\<rparr>
       (PList [PDict [(''product_id'', PInt 1), (''quantity'', PInt 2), (''unit_price'', PInt 50)]]) demo_sales"
  have "map_sum id length ?r = Inr 1" by code_simp
  then obtain e where e: "?r = Inr [e]" by (auto simp: map_sum_def length_Suc_conv split: sum.splits)
  from encoded_sale_items_sound[OF plain_dec_field_ok e] e show ?thesis by auto
qed

end
