(* ===== verification/Ledger.thy ===== *)
theory Ledger
  imports Encoding
begin

text \<open>
  The whole stock and sales system as a transition system: every service call that commits is a step of
  \<open>system_step\<close>. A call that raises is rolled back and is no step. The invariant is the bookkeeping
  equation of the inventory ledger: what is left of a batch is what was received, less adjustments and
  sales, plus returns.
\<close>

definition adjusted_in :: "nat \<Rightarrow> stock_adjustment list \<Rightarrow> dec" where
  "adjusted_in i adjs = (\<Sum>a\<leftarrow>adjs. if sa_batch a = i then sa_quantity a else 0)"

text \<open>The foreign keys of the ledger tables.\<close>

definition refs_ok :: "sales_store \<Rightarrow> bool" where
  "refs_ok st \<longleftrightarrow>
     (\<forall>x \<in> set (ss_items st). ti_batch x \<in> pb_id ` set (st_batches st)) \<and>
     (\<forall>a \<in> set (st_adjustments st). sa_batch a \<in> pb_id ` set (st_batches st)) \<and>
     (\<forall>r \<in> set (ss_returns st). sr_item r \<in> ti_id ` set (ss_items st))"

definition balanced :: "sales_store \<Rightarrow> bool" where
  "balanced st \<longleftrightarrow> (\<forall>i \<in> pb_id ` set (st_batches st).
     remaining_of i (st_batches st) =
       initial_of i (st_batches st) - adjusted_in i (st_adjustments st) - sold_from i (ss_items st) +
       returned_to i (ss_items st) (ss_returns st))"

definition ledger_ok :: "sales_store \<Rightarrow> bool" where
  "ledger_ok st \<longleftrightarrow> books_ok st \<and> refs_ok st \<and> balanced st"

text \<open>\<open>linked\<close> for the batch view: sold items protect their batch.\<close>

definition batch_sold :: "sales_store \<Rightarrow> nat \<Rightarrow> bool" where
  "batch_sold st pk \<longleftrightarrow> pk \<in> ti_batch ` set (ss_items st)"

inductive system_step :: "dec_field \<Rightarrow> (encode_payload \<Rightarrow> string) \<Rightarrow> sales_store \<Rightarrow> sales_store \<Rightarrow> bool"
  for rv fp where
  sale: "checkout rv ck cart user a st = Inr (t, st') \<Longrightarrow> system_step rv fp st st'"
| order: "place_order rv ck customer items user a st = Inr (ord, st') \<Longrightarrow> system_step rv fp st st'"
| encode: "encode_transaction rv fp ek e st = Inr (r, st') \<Longrightarrow> system_step rv fp st st'"
| payment: "update_encoding_payment rv now k acc u st = Inr (t, st') \<Longrightarrow> system_step rv fp st st'"
| void: "void_transaction vk k voider reason st = Inr (r, st') \<Longrightarrow> system_step rv fp st st'"
| adjust: "create_stock_adjustment now ty q c user reason (Some k) st = Inr (adj, st') \<Longrightarrow> system_step rv fp st st'"
| receive: "batch_view_create race now role attrs st = Inr (b, st') \<Longrightarrow> system_step rv fp st st'"
| edit: "update_batch today role_opt k attrs st = Inr (b, st') \<Longrightarrow> system_step rv fp st st'"
| remove: "batch_view_destroy batch_sold role k st = Inr st' \<Longrightarrow> system_step rv fp st st'"
| thresholds: "update_fefo today fattrs st = Inr st' \<Longrightarrow> system_step rv fp st st'"

inductive reachable :: "dec_field \<Rightarrow> (encode_payload \<Rightarrow> string) \<Rightarrow> sales_store \<Rightarrow> sales_store \<Rightarrow> bool"
  for rv fp where
  start: "reachable rv fp st st"
| more: "reachable rv fp st st1 \<Longrightarrow> system_step rv fp st1 st2 \<Longrightarrow> reachable rv fp st st2"

inductive_cases system_stepE: "system_step rv fp st st'"


subsection \<open>Steps that keep the equation\<close>

lemma item_batch_append:
  assumes "k \<in> ti_id ` set items" shows "item_batch (items @ new) k = item_batch items k"
proof -
  have "find (\<lambda>r. ti_id r = k) items \<noteq> None" using assms by (auto simp: find_None_iff)
  then show ?thesis by (auto simp: item_batch_def row_get_def find_append split: option.splits)
qed

lemma returned_to_more_items:
  "(\<And>r. r \<in> set rs \<Longrightarrow> sr_item r \<in> ti_id ` set items) \<Longrightarrow> returned_to i (items @ new) rs = returned_to i items rs"
  unfolding returned_to_def by (induction rs) (simp_all add: item_batch_append)

lemma sold_from_pos:
  assumes "\<forall>x \<in> set new. 0 < ti_qty x" and "x \<in> set new" shows "0 < sold_from (ti_batch x) new"
proof -
  obtain ys zs where new: "new = ys @ x # zs" using assms(2) by (meson split_list)
  have "\<forall>y \<in> set new. 0 \<le> ti_qty y" using assms(1) by force
  then have "0 \<le> sold_from (ti_batch x) ys" "0 \<le> sold_from (ti_batch x) zs"
    unfolding sold_from_def new by (auto intro!: sum_list_nonneg_all)
  moreover have "sold_from (ti_batch x) (x # zs) = ti_qty x + sold_from (ti_batch x) zs" by (simp add: sold_from_def)
  ultimately show ?thesis using assms new by simp
qed

lemma remaining_of_absent: "i \<notin> pb_id ` set t \<Longrightarrow> remaining_of i t = 0"
proof -
  assume "i \<notin> pb_id ` set t"
  then have "get_batch t i = None" by (simp add: row_get_None)
  then show ?thesis by (simp add: remaining_of_def)
qed

text \<open>
  What the ledger sees of a sale: new items, and batches reduced by them. The other tables the equation
  mentions stay as they are.
\<close>

lemma ledger_sale:
  assumes ok: "ledger_ok st" and books: "books_ok st'"
    and ids: "map pb_id (st_batches st') = map pb_id (st_batches st)"
    and rem: "\<forall>i. remaining_of i (st_batches st') = remaining_of i (st_batches st) - sold_from i new"
    and core: "\<forall>i. map_option batch_core (get_batch (st_batches st') i) = map_option batch_core (get_batch (st_batches st) i)"
    and items: "ss_items st' = ss_items st @ new" and adjs: "st_adjustments st' = st_adjustments st"
    and rets: "ss_returns st' = ss_returns st"
  shows "ledger_ok st'"
proof -
  have idset: "pb_id ` set (st_batches st') = pb_id ` set (st_batches st)" using ids by (metis list.set_map)
  have pos: "\<forall>x \<in> set new. 0 < ti_qty x" using books items by (auto simp: books_ok_def)
  have new: "ti_batch x \<in> pb_id ` set (st_batches st)" if "x \<in> set new" for x
  proof (rule ccontr)
    assume n: "ti_batch x \<notin> pb_id ` set (st_batches st)"
    have "sold_from (ti_batch x) new = 0"
      using remaining_of_absent [OF n] remaining_of_absent [of "ti_batch x" "st_batches st'"] n idset rem by simp
    with sold_from_pos [OF pos that] show False by simp
  qed
  have ret: "returned_to i (ss_items st @ new) (ss_returns st) = returned_to i (ss_items st) (ss_returns st)" for i
    using ok by (intro returned_to_more_items) (auto simp: ledger_ok_def refs_ok_def)
  have "refs_ok st'" using ok new by (auto simp: refs_ok_def ledger_ok_def items adjs rets idset)
  moreover have "balanced st'"
    unfolding balanced_def idset
  proof
    fix i assume i: "i \<in> pb_id ` set (st_batches st)"
    have "initial_of i (st_batches st') = initial_of i (st_batches st)" using core by (intro initial_of_core) simp
    moreover have "remaining_of i (st_batches st) = initial_of i (st_batches st) - adjusted_in i (st_adjustments st)
        - sold_from i (ss_items st) + returned_to i (ss_items st) (ss_returns st)"
      using ok i unfolding ledger_ok_def balanced_def by blast
    ultimately show "remaining_of i (st_batches st') = initial_of i (st_batches st') - adjusted_in i (st_adjustments st')
        - sold_from i (ss_items st') + returned_to i (ss_items st') (ss_returns st')"
      using rem by (simp add: items adjs rets ret)
  qed
  ultimately show ?thesis using books by (simp add: ledger_ok_def)
qed

text \<open>The equation depends only on the ledger tables and the books.\<close>

lemma ledger_cong:
  assumes "st_batches st' = st_batches st" and "ss_items st' = ss_items st" and "st_adjustments st' = st_adjustments st"
    and "ss_returns st' = ss_returns st" and "ledger_ok st" and "books_ok st'"
  shows "ledger_ok st'"
  using assms by (simp add: ledger_ok_def refs_ok_def balanced_def)

lemma checkout_ids:
  assumes "drf_decimal rv" and "books_ok st" and "checkout rv ck cart user a st = Inr (t, st')"
  shows "map pb_id (st_batches st') = map pb_id (st_batches st)"
proof -
  from checkout_result [OF assms] obtain number and st1 :: sales_store where
    n: "assign_invoice (year_of (business_date ck a)) (sg_number a) st = Inr (number, st1)"
    and f: "sale_frame (st1\<lparr>ss_txns := row_ins t (ss_txns st1)\<rparr>) (txn_items (tx_id t) st') st'" by metis
  have "st_batches st1 = st_batches st" by (subst assign_invoice_frame [OF n]) simp
  with f show ?thesis by (simp add: sale_frame_def)
qed

lemma ledger_checkout:
  assumes rv: "drf_decimal rv" and ok: "ledger_ok st" and c: "checkout rv ck cart user a st = Inr (t, st')"
  shows "ledger_ok st'"
proof -
  have b: "books_ok st" using ok by (simp add: ledger_ok_def)
  note s = checkout_stock [OF rv b c] and f = checkout_frame [OF rv b c]
  show ?thesis using s f(3,4) checkout_ids [OF rv b c] by (intro ledger_sale [OF ok]) auto
qed

lemma ledger_place_order:
  assumes rv: "drf_decimal rv" and ok: "ledger_ok st" and c: "place_order rv ck customer items user a st = Inr (ord, st')"
  shows "ledger_ok st'"
  using c
proof (cases rule: place_order_unfold)
  case (1 lines ord0 t st2)
  let ?st = "st\<lparr>ss_orders := row_ins ord0 (ss_orders st),
      ss_order_items := new_order_items (or_id ord0) lines (ss_order_items st)\<rparr>"
  have "ledger_ok ?st" using ok by (intro ledger_cong [of ?st st]) (simp_all add: ledger_ok_def)
  from ledger_checkout [OF rv this 1(3)] have "ledger_ok st2" .
  then show ?thesis using 1(5)
    by (intro ledger_cong [of st' st2]) (simp_all add: ledger_ok_def, simp_all add: save_order_def)
qed

lemma ledger_encode:
  assumes rv: "drf_decimal rv" and ok: "ledger_ok st" and e: "encode_transaction rv fp ek a st = Inr (r, st')"
  shows "ledger_ok st'"
proof -
  obtain sale' c where r: "r = (sale', c)" by (cases r)
  from e obtain k where k: "en_request a = Some k"
    by (auto simp: encode_transaction_def split: py_date.splits if_splits option.splits)
  show ?thesis
  proof (cases "find_request k st")
    case (Some u)
    with e k have "st' = st" by (auto simp: encode_transaction_def replayed_def Let_def split: py_date.splits if_splits)
    with ok show ?thesis by simp
  next
    case None
    from e [unfolded r] k None obtain d lines sale st1 where
      s: "encode_sale rv ek a d st = Inr (sale, st1)"
      "sale' = mark_encoded ek a k (encode_fingerprint fp a d lines) sale"
      "st' = date_order sale' (st1\<lparr>ss_txns := save_txn sale' (ss_txns st1)\<rparr>)" by (rule encode_transaction_new)
    have l1: "ledger_ok st1"
      using s(1) ledger_checkout [OF rv ok] ledger_place_order [OF rv ok]
      by (auto simp: encode_sale_def split: option.splits)
    have "tx_id ` set (save_txn sale' (ss_txns st1)) = tx_id ` set (ss_txns st1)"
      by (metis list.set_map map_key_row_save)
    with l1 have "books_ok st'" by (simp add: s(3) date_order_def books_ok_def ledger_ok_def)
    with l1 show ?thesis by (intro ledger_cong [of st' st1]) (simp_all add: s(3) date_order_def)
  qed
qed

lemma ledger_payment:
  assumes ok: "ledger_ok st" and u: "update_encoding_payment rv now k acc u st = Inr (t, st')"
  shows "ledger_ok st'"
proof -
  from payment_update_writes [OF u] have "st' = st\<lparr>ss_txns := save_txn t (ss_txns st)\<rparr> \<or> st' = st" by blast
  moreover have "tx_id ` set (save_txn t (ss_txns st)) = tx_id ` set (ss_txns st)" by (metis list.set_map map_key_row_save)
  ultimately have e: "st_batches st' = st_batches st" "ss_items st' = ss_items st" "st_adjustments st' = st_adjustments st"
    "ss_returns st' = ss_returns st" "books_ok st'" using ok by (auto simp: books_ok_def ledger_ok_def)
  from ledger_cong [OF e(1-4) ok e(5)] show ?thesis .
qed

lemma ledger_void:
  assumes ok: "ledger_ok st" and v: "void_transaction vk k voider reason st = Inr (r, st')"
  shows "ledger_ok st'"
proof -
  obtain t' sk where r: "r = (t', sk)" by (cases r)
  have b: "books_ok st" using ok by (simp add: ledger_ok_def)
  from void_result [OF b v [unfolded r]] obtain t and st1 and rs where
    t: "get_txn (ss_txns st) k = Some t" and fr: "void_frame st rs st1"
    and st': "st' = cancel_orders k sk (st1\<lparr>ss_txns := save_txn t' (ss_txns st1)\<rparr>)"
    and items: "mset (map sr_item rs) = mset (map ti_id (txn_items k st))" by metis
  note f = void_frame_fields [OF fr]
  have idset: "pb_id ` set (st_batches st') = pb_id ` set (st_batches st)"
    using fr by (simp add: st' void_frame_def) (metis list.set_map)
  have "tx_id ` set (save_txn t' (ss_txns st)) = tx_id ` set (ss_txns st)" by (metis list.set_map map_key_row_save)
  then have "books_ok st'" using b fr by (simp add: books_ok_def st' f void_frame_def)
  moreover have "set (map sr_item rs) = set (map ti_id (txn_items k st))" using items by (metis set_mset_mset)
  then have "\<forall>x \<in> set rs. sr_item x \<in> ti_id ` set (ss_items st)" by (auto simp: txn_items_def)
  then have "refs_ok st'" using ok by (auto simp: ledger_ok_def refs_ok_def idset) (auto simp: st' f)
  moreover have "balanced st'"
    unfolding balanced_def idset
  proof
    fix i assume i: "i \<in> pb_id ` set (st_batches st)"
    have "initial_of i (st_batches st') = initial_of i (st_batches st)"
      using fr by (intro initial_of_core) (simp add: st' void_frame_def)
    moreover have "remaining_of i (st_batches st') = remaining_of i (st_batches st) + returned_to i (ss_items st) rs"
      using fr by (simp add: st' void_frame_def)
    moreover have "remaining_of i (st_batches st) = initial_of i (st_batches st) - adjusted_in i (st_adjustments st)
        - sold_from i (ss_items st) + returned_to i (ss_items st) (ss_returns st)"
      using ok i unfolding ledger_ok_def balanced_def by blast
    moreover have "ss_items st' = ss_items st" "st_adjustments st' = st_adjustments st"
      "ss_returns st' = ss_returns st @ rs" by (simp_all add: st' f)
    ultimately show "remaining_of i (st_batches st') = initial_of i (st_batches st') - adjusted_in i (st_adjustments st')
        - sold_from i (ss_items st') + returned_to i (ss_items st') (ss_returns st')" by simp
  qed
  ultimately show ?thesis by (simp add: ledger_ok_def)
qed

lemma ledger_adjust:
  assumes ok: "ledger_ok st"
    and a: "create_stock_adjustment now ty q c user reason (Some k) st = Inr (adj, st')"
  shows "ledger_ok st'"
  using a
proof (cases rule: adjust_unfold)
  case (1 aty pk b)
  have s: "stock_ok (st_batches st)" using ok by (simp add: ledger_ok_def books_ok_def)
  note bk = stock_ok_get [OF s 1(3)]
  let ?b = "adjusted_batch aty q b"
  have b': "pb_remaining ?b = pb_remaining b - q" "pb_initial ?b = pb_initial b" "pb_id ?b = pk"
    using adjusted_batch_remaining [of b q aty] bk 1(8) by (auto simp: batch_ok_def)
  have idset: "pb_id ` set (st_batches st') = pb_id ` set (st_batches st)"
    using 1(11) by simp (metis list.set_map map_key_row_save)
  have get: "get_batch (st_batches st') i = (if i = pk then Some ?b else get_batch (st_batches st) i)" for i
    using 1(3,11) b'(3) by (simp add: row_get_save)
  have f: "ss_items st' = ss_items st" "ss_returns st' = ss_returns st" "ss_txns st' = ss_txns st"
    "st_adjustments st' = st_adjustments st @ [adj]" using 1(11) by (simp_all add: row_ins_def)
  have "books_ok st'" using ok adjust_stock_ok [OF s a] by (simp add: ledger_ok_def books_ok_def f)
  moreover have "pk \<in> pb_id ` set (st_batches st)" using row_get_Some [OF 1(3)] by auto
  then have "refs_ok st'" using ok 1(10) by (auto simp: ledger_ok_def refs_ok_def idset f)
  moreover have "balanced st'"
    unfolding balanced_def idset
  proof
    fix i assume i: "i \<in> pb_id ` set (st_batches st)"
    have "remaining_of i (st_batches st) = initial_of i (st_batches st) - adjusted_in i (st_adjustments st)
        - sold_from i (ss_items st) + returned_to i (ss_items st) (ss_returns st)"
      using ok i unfolding ledger_ok_def balanced_def by blast
    moreover have "adjusted_in i (st_adjustments st') = adjusted_in i (st_adjustments st) + (if i = pk then q else 0)"
      using 1(10) by (simp add: f adjusted_in_def)
    moreover have "remaining_of i (st_batches st') = remaining_of i (st_batches st) - (if i = pk then q else 0)"
      "initial_of i (st_batches st') = initial_of i (st_batches st)"
      using 1(3) b' by (auto simp: remaining_of_def initial_of_def get)
    ultimately show "remaining_of i (st_batches st') = initial_of i (st_batches st') - adjusted_in i (st_adjustments st')
        - sold_from i (ss_items st') + returned_to i (ss_items st') (ss_returns st')" by (simp add: f)
  qed
  ultimately show ?thesis by (simp add: ledger_ok_def)
qed

lemma create_batch_frame:
  "create_batch race today attrs st = Inr (b, st') \<Longrightarrow>
   st' = st\<lparr>st_batches := st_batches st', st_sequences := st_sequences st'\<rparr>"
  by (auto simp: create_batch_def Let_def split: option.splits if_splits)

lemma ledger_receive:
  assumes ok: "ledger_ok st" and v: "batch_view_create race now role attrs st = Inr (b, st')"
  shows "ledger_ok st'"
proof -
  from v obtain attrs' where fields: "batch_fields_ok (Some role) st attrs"
    and val: "validate_batch (local_date now) (Some role) None attrs = Inr attrs'"
    and c: "create_batch race (local_date now) attrs' st = Inr (b, st')"
    by (auto simp: batch_view_create_def split: if_splits)
  from fields validate_batch_new(2) [OF val] obtain q where q: "ba_quantity attrs' = Some q" "0 < q"
    by (auto simp: batch_fields_ok_def split: option.splits)
  have s: "stock_ok (st_batches st)" using ok by (simp add: ledger_ok_def books_ok_def)
  note u = create_batch_unfold [OF c] and e = create_batch_frame [OF c]
  have f: "ss_items st' = ss_items st" "ss_returns st' = ss_returns st" "ss_txns st' = ss_txns st"
    "st_adjustments st' = st_adjustments st" by (subst e, simp)+
  have bt: "st_batches st' = st_batches st @ [b]" using u by (simp add: row_ins_def)
  have fresh: "pb_id b \<notin> pb_id ` set (st_batches st)" using u by simp
  have get: "get_batch (st_batches st') i = (if i = pb_id b then Some b else get_batch (st_batches st) i)" for i
    using row_get_ins [OF fresh] by (simp add: bt row_ins_def)
  have "books_ok st'" using ok create_batch_stock_ok [OF s c q] by (simp add: ledger_ok_def books_ok_def f)
  moreover have r: "refs_ok st'" using ok by (auto simp: ledger_ok_def refs_ok_def f bt)
  moreover have "balanced st'"
    unfolding balanced_def
  proof
    fix i assume i: "i \<in> pb_id ` set (st_batches st')"
    show "remaining_of i (st_batches st') = initial_of i (st_batches st') - adjusted_in i (st_adjustments st')
        - sold_from i (ss_items st') + returned_to i (ss_items st') (ss_returns st')"
    proof (cases "i = pb_id b")
      case True
      have "\<forall>x \<in> set (ss_items st). ti_batch x \<noteq> i" "\<forall>a \<in> set (st_adjustments st). sa_batch a \<noteq> i"
        using ok fresh True unfolding ledger_ok_def refs_ok_def by metis+
      then have "sold_from i (ss_items st) = 0" "adjusted_in i (st_adjustments st) = 0"
        by (simp_all add: sold_from_def adjusted_in_def cong: map_cong)
      moreover have "item_batch (ss_items st) k \<noteq> Some i" for k
        using \<open>\<forall>x \<in> set (ss_items st). ti_batch x \<noteq> i\<close> by (auto simp: item_batch_def dest: row_get_Some)
      then have "returned_to i (ss_items st) (ss_returns st) = 0" by (simp add: returned_to_def)
      moreover have "remaining_of i (st_batches st') = initial_of i (st_batches st')"
        unfolding remaining_of_def initial_of_def get using True u by simp
      ultimately show ?thesis by (simp add: f)
    next
      case False
      with i have "i \<in> pb_id ` set (st_batches st)" by (auto simp: bt)
      with ok have "remaining_of i (st_batches st) = initial_of i (st_batches st) - adjusted_in i (st_adjustments st)
          - sold_from i (ss_items st) + returned_to i (ss_items st) (ss_returns st)"
        unfolding ledger_ok_def balanced_def by blast
      with False show ?thesis by (simp add: f remaining_of_def initial_of_def get)
    qed
  qed
  ultimately show ?thesis by (simp add: ledger_ok_def)
qed

lemma ledger_edit:
  assumes ok: "ledger_ok st" and e: "update_batch today role k attrs st = Inr (b, st')"
  shows "ledger_ok st'"
  using e
proof (cases rule: update_batch_unfold)
  case (1 old)
  have s: "stock_ok (st_batches st)" using ok by (simp add: ledger_ok_def books_ok_def)
  have k: "pb_id old = k" using row_get_Some [OF 1(1)] by simp
  have get: "get_batch (st_batches st') i = (if i = k then Some b else get_batch (st_batches st) i)" for i
    using 1 k by (simp add: row_get_save)
  have "remaining_of i (st_batches st') = remaining_of i (st_batches st)"
    "initial_of i (st_batches st') = initial_of i (st_batches st)" for i
    using 1(1,5,6) by (auto simp: remaining_of_def initial_of_def get)
  moreover have "pb_id ` set (st_batches st') = pb_id ` set (st_batches st)"
    using 1(8) by simp (metis list.set_map map_key_row_save)
  moreover have "stock_ok (st_batches st')" by (rule update_batch_stock_ok [OF s e])
  moreover have "ss_items st' = ss_items st" "ss_returns st' = ss_returns st" "ss_txns st' = ss_txns st"
    "st_adjustments st' = st_adjustments st" using 1(8) by simp_all
  ultimately show ?thesis using ok by (simp add: ledger_ok_def books_ok_def refs_ok_def balanced_def)
qed

lemma row_get_del: "i \<noteq> k \<Longrightarrow> row_get key (row_del key k t) i = row_get key t i"
  by (induction t) (auto simp: row_get_def row_del_def)

lemma ledger_remove:
  assumes ok: "ledger_ok st" and d: "batch_view_destroy batch_sold role k st = Inr st'"
  shows "ledger_ok st'"
proof -
  from d obtain b where b: "get_batch (st_batches st) k = Some b" "\<not> batch_sold st k"
    "k \<notin> sa_batch ` set (st_adjustments st)" "st' = st\<lparr>st_batches := row_del pb_id k (st_batches st)\<rparr>"
    by (auto simp: batch_view_destroy_def split: if_splits option.splits)
  have get: "get_batch (row_del pb_id k (st_batches st)) i = get_batch (st_batches st) i" if "i \<noteq> k" for i
    using that by (rule row_get_del)
  have set: "pb_id ` set (row_del pb_id k (st_batches st)) = pb_id ` set (st_batches st) - {k}"
    by (auto simp: row_del_def)
  have "keys_ok pb_id (row_del pb_id k (st_batches st))"
    using ok by (auto simp: ledger_ok_def books_ok_def stock_ok_def keys_ok_def row_del_def distinct_map_filter)
  then have "stock_ok (row_del pb_id k (st_batches st))"
    using ok by (auto simp: ledger_ok_def books_ok_def stock_ok_def row_del_def)
  moreover have "remaining_of i (row_del pb_id k (st_batches st)) = remaining_of i (st_batches st)"
    "initial_of i (row_del pb_id k (st_batches st)) = initial_of i (st_batches st)" if "i \<noteq> k" for i
    using get [OF that] by (simp_all add: remaining_of_def initial_of_def)
  moreover have "refs_ok st'"
    using ok b(2,3) by (auto simp: ledger_ok_def refs_ok_def b(4) set batch_sold_def)
  ultimately show ?thesis using ok by (auto simp: ledger_ok_def books_ok_def balanced_def b(4) set)
qed

lemma ledger_thresholds:
  assumes "ledger_ok st" and "update_fefo today attrs st = Inr st'"
  shows "ledger_ok st'"
proof -
  from assms(2) have "st_batches st' = st_batches st" "ss_items st' = ss_items st" "ss_txns st' = ss_txns st"
    "ss_returns st' = ss_returns st" "st_adjustments st' = st_adjustments st"
    by (auto simp: update_fefo_def fefo_save_def get_config_def split: option.splits sum.splits)
  with assms(1) show ?thesis by (simp add: ledger_ok_def books_ok_def refs_ok_def balanced_def)
qed

lemmas ledger_steps = ledger_checkout ledger_place_order ledger_encode ledger_payment ledger_void ledger_adjust
  ledger_receive ledger_edit ledger_remove ledger_thresholds

lemma ledger_step:
  assumes "drf_decimal rv" and "ledger_ok st" and "system_step rv fp st st'"
  shows "ledger_ok st'"
  using assms(3) assms(1,2) by (cases rule: system_step.cases) (auto intro: ledger_steps)

lemma ledger_reachable:
  assumes "reachable rv fp st st'" and "drf_decimal rv" and "ledger_ok st"
  shows "ledger_ok st'"
  using assms by (induction rule: reachable.induct) (auto intro: ledger_step)

text \<open>
  C1: the inventory ledger always balances. In every state that any sequence of committed sales, orders,
  backdated entries, payments, voids, adjustments, receipts, edits and deletions of batches can reach
  from a balanced store, each batch holds exactly what was received less what was adjusted and sold plus
  what was returned, between zero and the received quantity.
\<close>

theorem ledger_always_balances:
  assumes "drf_decimal rv" and "ledger_ok st" and "reachable rv fp st st'" and "b \<in> set (st_batches st')"
  shows "pb_remaining b = pb_initial b - adjusted_in (pb_id b) (st_adjustments st') - sold_from (pb_id b) (ss_items st')
      + returned_to (pb_id b) (ss_items st') (ss_returns st') \<and>
    0 \<le> pb_remaining b \<and> pb_remaining b \<le> pb_initial b"
proof -
  have l: "ledger_ok st'" by (rule ledger_reachable [OF assms(3,1,2)])
  then have s: "stock_ok (st_batches st')" by (simp add: ledger_ok_def books_ok_def)
  with assms(4) have g: "get_batch (st_batches st') (pb_id b) = Some b" by (simp add: stock_ok_def row_get_iff)
  have "remaining_of (pb_id b) (st_batches st') = initial_of (pb_id b) (st_batches st')
      - adjusted_in (pb_id b) (st_adjustments st') - sold_from (pb_id b) (ss_items st')
      + returned_to (pb_id b) (ss_items st') (ss_returns st')"
    using l assms(4) unfolding ledger_ok_def balanced_def by blast
  with g stock_ok_get [OF s g] show ?thesis by (simp add: remaining_of_def initial_of_def batch_ok_def)
qed

lemma demo_ledger_ok: "ledger_ok demo_sales"
proof -
  have "balanced demo_sales" by code_simp
  moreover have "refs_ok demo_sales" by (simp add: refs_ok_def demo_sales_def)
  ultimately show ?thesis using demo_books_ok by (simp add: ledger_ok_def)
qed

theorem ledger_always_balances_witness:
  "\<exists>b. b \<in> set (st_batches (snd demo_void)) \<and>
     pb_remaining b = pb_initial b - adjusted_in (pb_id b) (st_adjustments (snd demo_void))
       - sold_from (pb_id b) (ss_items (snd demo_void))
       + returned_to (pb_id b) (ss_items (snd demo_void)) (ss_returns (snd demo_void))"
proof -
  have "checkout plain_dec_field demo_clock demo_cart 1 demo_args demo_sales = Inr (fst demo_sold, snd demo_sold)"
    using demo_checkout by simp
  from system_step.sale [OF this, of ep_note] have "reachable plain_dec_field ep_note demo_sales (snd demo_sold)"
    by (rule reachable.more [OF reachable.start])
  from reachable.more [OF this system_step.void [OF demo_voided]]
  have r: "reachable plain_dec_field ep_note demo_sales (snd demo_void)" .
  have "st_batches (snd demo_void) \<noteq> []" by code_simp
  then obtain b where "b \<in> set (st_batches (snd demo_void))" by (meson list.set_sel(1))
  with ledger_always_balances [OF plain_dec_field_ok demo_ledger_ok r this] show ?thesis by blast
qed

end
