(* ===== verification/Reports.thy ===== *)
theory Reports
  imports Sale_Views Ledger
begin

text \<open>
  The sales and customer reports of \<^verbatim>\<open>reporting/services.py\<close>. Amounts are exact: a growth rate and an
  average are pairs of numerator and denominator (the code rounds the first to two decimals of a float
  and divides decimals for the second); line revenue is in ten-thousandths, because a line without a
  stored subtotal counts quantity times price. SQL text order is the collation sort key of \<^verbatim>\<open>History\<close>.
\<close>

record scope =
  sc_staff :: bool
  sc_user :: "nat option"

definition period_txns :: "scope \<Rightarrow> date \<Rightarrow> date \<Rightarrow> sales_store \<Rightarrow> txn list" where
  "period_txns sc start stop st =
     filter (\<lambda>t. \<not> tx_voided t \<and> start \<le> local_date (tx_created t) \<and> local_date (tx_created t) \<le> stop)
       (visible_transactions (sc_staff sc) (sc_user sc) st (ss_txns st))"

definition sales_summary :: "scope \<Rightarrow> date \<Rightarrow> date \<Rightarrow> sales_store \<Rightarrow> dec \<times> nat" where
  "sales_summary sc start stop st =
     (let xs = period_txns sc start stop st in (\<Sum>t\<leftarrow>xs. tx_total t, length xs))"

datatype growth = NoGrowth | Growth int int

definition growth_rate :: "dec \<Rightarrow> dec \<Rightarrow> growth" where
  "growth_rate current previous =
     (if previous = 0 then (if current = 0 then NoGrowth else Growth 100 1)
      else Growth ((current - previous) * 100) previous)"

definition product_label :: "string option \<times> string option \<Rightarrow> string" where
  "product_label nv =
     (let name = (case fst nv of None \<Rightarrow> ''None'' | Some n \<Rightarrow> n)
      in case snd nv of None \<Rightarrow> name | Some v \<Rightarrow> if v = [] then name else name @ [CHR '' '', CHR 0xB7, CHR '' ''] @ v)"

definition line_revenue :: "titem \<Rightarrow> int" where
  "line_revenue i = (case ti_subtotal i of Some s \<Rightarrow> 100 * s | None \<Rightarrow> ti_qty i * ti_price i)"

definition period_items :: "scope \<Rightarrow> date \<Rightarrow> date \<Rightarrow> sales_store \<Rightarrow> titem list" where
  "period_items sc start stop st =
     filter (\<lambda>i. ti_txn i \<in> tx_id ` set (period_txns sc start stop st)) (ss_items st)"

text \<open>Grouped rows with two sums, by falling first sum and a second sort key.\<close>

definition mix :: "('x \<Rightarrow> 'k) \<Rightarrow> ('x \<Rightarrow> int) \<Rightarrow> ('x \<Rightarrow> int) \<Rightarrow> ('k \<Rightarrow> int) \<Rightarrow> 'x list \<Rightarrow> ('k \<times> int \<times> int) list" where
  "mix key amount quantity order xs =
     sort_key (\<lambda>(k, a, q). (- a, order k))
       (map (\<lambda>k. (k, \<Sum>x\<leftarrow>filter (\<lambda>x. key x = k) xs. amount x, \<Sum>x\<leftarrow>filter (\<lambda>x. key x = k) xs. quantity x))
         (remdups (map key xs)))"

definition text_order :: "(string \<Rightarrow> int) \<Rightarrow> string option \<Rightarrow> int" where
  "text_order collate v = (case v of None \<Rightarrow> 0 | Some s \<Rightarrow> collate s)"

definition sold_name :: "sales_store \<Rightarrow> titem \<Rightarrow> string option" where
  "sold_name st i = coalesce (ti_name_snap i) (map_option pr_name (item_product st i))"

definition sold_variant :: "sales_store \<Rightarrow> titem \<Rightarrow> string option" where
  "sold_variant st i = coalesce (ti_variant_snap i) (case item_product st i of None \<Rightarrow> None | Some p \<Rightarrow> pr_variant p)"

record sales_drivers =
  sd_gross :: dec
  sd_ticket :: "dec \<times> nat"
  sd_payment :: "(pay_method \<times> int \<times> int) list"
  sd_category :: "(string option \<times> int \<times> int) list"
  sd_family :: "(string option \<times> int \<times> int) list"

definition drivers_of :: "(string \<Rightarrow> int) \<Rightarrow> scope \<Rightarrow> date \<Rightarrow> date \<Rightarrow> sales_store \<Rightarrow> sales_drivers" where
  "drivers_of collate sc start stop st =
     (let xs = period_txns sc start stop st; items = period_items sc start stop st
      in \<lparr>sd_gross = (\<Sum>t\<leftarrow>xs. tx_subtotal t), sd_ticket = (\<Sum>t\<leftarrow>xs. tx_total t, length xs),
          sd_payment = mix tx_method tx_total (\<lambda>_. 1) (\<lambda>_. 0) xs,
          sd_category = mix (\<lambda>i. snd (category_key st i)) line_revenue ti_qty (text_order collate) items,
          sd_family = mix (sold_name st) line_revenue ti_qty (text_order collate) items\<rparr>)"

record sales_report =
  sp_start :: date
  sp_stop :: date
  sp_prev_start :: date
  sp_prev_stop :: date
  sp_revenue :: dec
  sp_count :: nat
  sp_prev_revenue :: dec
  sp_prev_count :: nat
  sp_growth :: growth
  sp_products :: "((string option \<times> string option) \<times> int \<times> int) list"
  sp_breakdown :: "(date \<times> date \<times> nat \<times> dec) list"
  sp_drivers :: sales_drivers

definition products_of :: "(string \<Rightarrow> int) \<Rightarrow> scope \<Rightarrow> date \<Rightarrow> date \<Rightarrow> sales_store \<Rightarrow> ((string option \<times> string option) \<times> int \<times> int) list" where
  "products_of collate sc start stop st =
     mix (\<lambda>i. (sold_name st i, sold_variant st i)) line_revenue ti_qty (\<lambda>k. text_order collate (fst k))
       (period_items sc start stop st)"

text \<open>The shared part of the three reports.\<close>

definition build_report ::
    "(string \<Rightarrow> int) \<Rightarrow> scope \<Rightarrow> date \<Rightarrow> date \<Rightarrow> date \<Rightarrow> date \<Rightarrow> (date \<times> date \<times> nat \<times> dec) list \<Rightarrow> sales_store \<Rightarrow> sales_report" where
  "build_report collate sc start stop prev_start prev_stop breakdown st =
     (let (revenue, count) = sales_summary sc start stop st;
          (prev_revenue, prev_count) = sales_summary sc prev_start prev_stop st
      in \<lparr>sp_start = start, sp_stop = stop, sp_prev_start = prev_start, sp_prev_stop = prev_stop,
          sp_revenue = revenue, sp_count = count, sp_prev_revenue = prev_revenue, sp_prev_count = prev_count,
          sp_growth = growth_rate revenue prev_revenue, sp_products = products_of collate sc start stop st,
          sp_breakdown = breakdown, sp_drivers = drivers_of collate sc start stop st\<rparr>)"

definition daily_sales ::
    "(string \<Rightarrow> int) \<Rightarrow> date \<Rightarrow> scope \<Rightarrow> date option \<Rightarrow> date option \<Rightarrow> sales_store \<Rightarrow> sales_report" where
  "daily_sales collate today sc start_date end_date st =
     (let start = fill start_date today; stop = fill end_date today;
          previous_end = start - 1; previous_start = previous_end - (stop - start)
      in build_report collate sc start stop previous_start previous_end [] st)"

definition daily_sales_breakdown :: "scope \<Rightarrow> date \<Rightarrow> date \<Rightarrow> sales_store \<Rightarrow> (date \<times> date \<times> nat \<times> dec) list" where
  "daily_sales_breakdown sc start stop st =
     (let xs = period_txns sc start stop st
      in map (\<lambda>d. let day = filter (\<lambda>t. local_date (tx_created t) = d) xs
                  in (d, d, length day, \<Sum>t\<leftarrow>day. tx_total t)) [start..stop])"

definition weekly_sales ::
    "(string \<Rightarrow> int) \<Rightarrow> date \<Rightarrow> scope \<Rightarrow> date option \<Rightarrow> date option \<Rightarrow> sales_store \<Rightarrow> sales_report" where
  "weekly_sales collate today sc start_date end_date st =
     (let stop = fill end_date today; start = fill start_date (stop - 6);
          previous_end = start - 1; previous_start = previous_end - (stop - start)
      in build_report collate sc start stop previous_start previous_end (daily_sales_breakdown sc start stop st) st)"

text \<open>The loop over the days of the range that collects the Mondays of its weeks.\<close>

definition add_week :: "date list \<Rightarrow> date \<Rightarrow> date list" where
  "add_week week_starts cursor =
     (let week_start = cursor - weekday cursor
      in if week_starts = [] \<or> List.last week_starts \<noteq> week_start then week_starts @ [week_start] else week_starts)"

definition week_starts :: "date \<Rightarrow> date \<Rightarrow> date list" where
  "week_starts start stop = foldl add_week [] [start..stop]"

definition weekly_breakdown :: "scope \<Rightarrow> date \<Rightarrow> date \<Rightarrow> sales_store \<Rightarrow> (date \<times> date \<times> nat \<times> dec) list" where
  "weekly_breakdown sc start stop st =
     map (\<lambda>w. let bucket_start = max w start; bucket_end = min (w + 6) stop;
                  (revenue, count) = sales_summary sc bucket_start bucket_end st
              in (bucket_start, bucket_end, count, revenue)) (week_starts start stop)"

definition first_of_month :: "date \<Rightarrow> date" where
  "first_of_month d = mk_date (year_of d) (month_of d) 1"

definition monthly_sales ::
    "(string \<Rightarrow> int) \<Rightarrow> date \<Rightarrow> scope \<Rightarrow> date option \<Rightarrow> date option \<Rightarrow> sales_store \<Rightarrow> sales_report" where
  "monthly_sales collate today sc start_date end_date st =
     (let start = fill start_date (first_of_month today); stop = fill end_date today;
          previous_month_end = start - 1;
          previous_start = first_of_month previous_month_end;
          previous_end = min previous_month_end (previous_start + (day_of today - 1));
          (previous_start, previous_end) =
            (if start_date \<noteq> None then (start - 1 - (stop - start), start - 1) else (previous_start, previous_end))
      in build_report collate sc start stop previous_start previous_end (weekly_breakdown sc start stop st) st)"


subsection \<open>The breakdowns add up\<close>

lemma sum_list_days: "(\<Sum>d\<leftarrow>[a..b]. f d) = (\<Sum>d = a..b. (f d :: int))"
  by (simp add: sum.distinct_set_conv_list[symmetric])

lemma period_txns_sub:
  "start \<le> a \<Longrightarrow> b \<le> stop \<Longrightarrow>
     period_txns sc a b st = filter (\<lambda>t. a \<le> local_date (tx_created t) \<and> local_date (tx_created t) \<le> b) (period_txns sc start stop st)"
  by (auto simp: period_txns_def intro!: filter_cong)

text \<open>Whatever is summed over the sales of a range is the sum over its days.\<close>

lemma period_days:
  "(\<Sum>t\<leftarrow>period_txns sc start stop st. f t) =
     (\<Sum>d = start..stop. \<Sum>t\<leftarrow>filter (\<lambda>t. local_date (tx_created t) = d) (period_txns sc start stop st). (f t :: int))"
  by (rule sum_by_key[symmetric]) (auto simp: period_txns_def)

lemma period_days_sub:
  assumes "start \<le> a" "b \<le> stop"
  shows "(\<Sum>t\<leftarrow>period_txns sc a b st. f t) =
     (\<Sum>d = a..b. \<Sum>t\<leftarrow>filter (\<lambda>t. local_date (tx_created t) = d) (period_txns sc start stop st). (f t :: int))"
proof -
  have "filter (\<lambda>t. local_date (tx_created t) = d) (period_txns sc a b st)
      = filter (\<lambda>t. local_date (tx_created t) = d) (period_txns sc start stop st)" if "d \<in> {a..b}" for d
    unfolding period_txns_sub[OF assms] filter_filter using that by (intro filter_cong) auto
  then show ?thesis unfolding period_days[of f sc a b] by (intro sum.cong) auto
qed

lemma weekday_range: "0 \<le> weekday d \<and> weekday d \<le> 6"
  by (simp add: weekday_def)

lemma weekday_step: "weekday (d + 1) = (if weekday d = 6 then 0 else weekday d + 1)"
  unfolding weekday_def by presburger

text \<open>
  After the days up to \<open>stop\<close> the last collected week is the one of \<open>stop\<close>, the earlier ones end before
  it, and the weeks clipped to the range cover it day by day.
\<close>

definition weeks_ok :: "date \<Rightarrow> date \<Rightarrow> date list \<Rightarrow> bool" where
  "weeks_ok start stop ws \<longleftrightarrow> ws \<noteq> [] \<and> List.last ws = stop - weekday stop \<and> (\<forall>w \<in> set (butlast ws). w + 6 < List.last ws) \<and>
     (\<forall>g. (\<Sum>w\<leftarrow>ws. \<Sum>d = max w start..min (w + 6) stop. g d) = (\<Sum>d = start..stop. (g d :: int)))"

lemma clip_next:
  assumes "\<forall>w \<in> set ws. w + 6 < (stop :: int) + 1"
  shows "(\<Sum>w\<leftarrow>ws. \<Sum>d = max w start..min (w + 6) (stop + 1). g d) = (\<Sum>w\<leftarrow>ws. \<Sum>d = max w start..min (w + 6) stop. (g d :: int))"
proof -
  have "min (w + 6) (stop + 1) = min (w + 6) stop" if "w \<in> set ws" for w using bspec[OF assms that] by simp
  then show ?thesis by (intro arg_cong[of _ _ sum_list] map_cong) auto
qed

lemma sum_days_snoc: "a \<le> (b :: int) + 1 \<Longrightarrow> (\<Sum>d = a..b + 1. g d) = (\<Sum>d = a..b. g d) + (g (b + 1) :: int)"
proof -
  assume "a \<le> b + 1"
  then have "{a..b + 1} = insert (b + 1) {a..b}" by auto
  then show ?thesis by simp
qed

lemma weeks_ok_step:
  assumes ok: "weeks_ok start stop ws" and r: "start \<le> stop"
  shows "weeks_ok start (stop + 1) (add_week ws (stop + 1))"
proof -
  let ?w = "stop - weekday stop"
  obtain us where us: "ws = us @ [?w]" using ok by (metis append_butlast_last_id weeks_ok_def)
  have b: "\<forall>w \<in> set us. w + 6 < ?w" using ok us by (simp add: weeks_ok_def)
  then have b': "\<forall>w \<in> set us. w + 6 < stop + 1" using weekday_range[of stop] by fastforce
  have k: "min (?w + 6) stop = stop" using weekday_range[of stop] by simp
  have g: "(\<Sum>w\<leftarrow>us. \<Sum>d = max w start..min (w + 6) stop. f d) + (\<Sum>d = max ?w start..stop. f d)
      = (\<Sum>d = start..stop. (f d :: int))" for f
    using ok k by (simp add: weeks_ok_def us)
  show ?thesis
  proof (cases "weekday stop = 6")
    case True
    then have w: "weekday (stop + 1) = 0" by (simp add: weekday_step)
    then have a: "add_week ws (stop + 1) = ws @ [stop + 1]" using weekday_range[of stop] by (simp add: add_week_def us)
    have m: "\<forall>w \<in> set ws. w + 6 < stop + 1" using b' True by (simp add: us)
    have x: "max (stop + 1) start = stop + 1" using r by simp
    have "(\<Sum>w\<leftarrow>ws @ [stop + 1]. \<Sum>d = max w start..min (w + 6) (stop + 1). f d) = (\<Sum>d = start..stop + 1. f d)" for f :: "date \<Rightarrow> int"
      using ok r by (simp add: clip_next[OF m] x weeks_ok_def sum_days_snoc)
    then show ?thesis using a w m by (simp add: weeks_ok_def)
  next
    case False
    then have w: "weekday (stop + 1) = weekday stop + 1" by (simp add: weekday_step)
    then have a: "add_week ws (stop + 1) = ws" by (simp add: add_week_def us)
    have k': "min (?w + 6) (stop + 1) = stop + 1" using weekday_range[of stop] False by simp
    have m: "max ?w start \<le> stop + 1" using weekday_range[of stop] r by simp
    have "(\<Sum>w\<leftarrow>ws. \<Sum>d = max w start..min (w + 6) (stop + 1). f d) = (\<Sum>d = start..stop + 1. f d)" for f :: "date \<Rightarrow> int"
      using g[of f] r by (simp add: us clip_next[OF b'] k' sum_days_snoc[OF m] sum_days_snoc)
    then show ?thesis using a w b by (simp add: weeks_ok_def us)
  qed
qed

lemma upto_snoc: "start \<le> stop + 1 \<Longrightarrow> [start..stop + 1] = [start..stop] @ [stop + 1]"
  using upto_rec2[of start "stop + 1"] by simp

lemma week_starts_ok:
  assumes "start \<le> stop" shows "weeks_ok start stop (week_starts start stop)"
  using assms
proof (induction "nat (stop - start)" arbitrary: stop)
  case 0
  then have "stop = start" by simp
  then show ?case using weekday_range[of start]
    by (simp add: week_starts_def add_week_def weeks_ok_def)
next
  case (Suc n)
  then have "weeks_ok start (stop - 1) (week_starts start (stop - 1))" by (intro Suc(1)) auto
  from weeks_ok_step[OF this] Suc(2,3) show ?case using upto_snoc[of start "stop - 1"] by (simp add: week_starts_def)
qed

definition breakdown_ok :: "sales_report \<Rightarrow> bool" where
  "breakdown_ok r \<longleftrightarrow> (\<Sum>(a, b, count, revenue)\<leftarrow>sp_breakdown r. revenue) = sp_revenue r \<and>
     (\<Sum>(a, b, count, revenue)\<leftarrow>sp_breakdown r. int count) = int (sp_count r)"

lemma length_as_sum: "int (length xs) = (\<Sum>x\<leftarrow>xs. 1)"
  by (induction xs) auto

lemma build_report_fields [simp]:
  "sp_revenue (build_report collate sc start stop ps pe bd st) = (\<Sum>t\<leftarrow>period_txns sc start stop st. tx_total t)"
  "sp_count (build_report collate sc start stop ps pe bd st) = length (period_txns sc start stop st)"
  "sp_breakdown (build_report collate sc start stop ps pe bd st) = bd"
  "sp_start (build_report collate sc start stop ps pe bd st) = start" "sp_stop (build_report collate sc start stop ps pe bd st) = stop"
  "sp_prev_start (build_report collate sc start stop ps pe bd st) = ps" "sp_prev_stop (build_report collate sc start stop ps pe bd st) = pe"
  by (simp_all add: build_report_def sales_summary_def Let_def)

lemma daily_breakdown_ok:
  "(\<Sum>(a, b, count, revenue)\<leftarrow>daily_sales_breakdown sc start stop st. revenue) = (\<Sum>t\<leftarrow>period_txns sc start stop st. tx_total t) \<and>
   (\<Sum>(a, b, count, revenue)\<leftarrow>daily_sales_breakdown sc start stop st. int count) = int (length (period_txns sc start stop st))"
  unfolding length_as_sum
  by (simp only: daily_sales_breakdown_def Let_def map_map o_def prod.case length_as_sum sum_list_days period_days[of _ sc start stop] simp_thms)

lemma weekly_breakdown_sum:
  assumes "start \<le> stop"
  shows "(\<Sum>w\<leftarrow>week_starts start stop. \<Sum>t\<leftarrow>period_txns sc (max w start) (min (w + 6) stop) st. f t)
    = (\<Sum>t\<leftarrow>period_txns sc start stop st. (f t :: int))"
proof -
  define g where "g d = (\<Sum>t\<leftarrow>filter (\<lambda>t. local_date (tx_created t) = d) (period_txns sc start stop st). f t)" for d
  have "(\<Sum>t\<leftarrow>period_txns sc (max w start) (min (w + 6) stop) st. f t) = (\<Sum>d = max w start..min (w + 6) stop. g d)" for w
    unfolding g_def by (rule period_days_sub) auto
  moreover have "(\<Sum>w\<leftarrow>week_starts start stop. \<Sum>d = max w start..min (w + 6) stop. g d) = (\<Sum>d = start..stop. g d)"
    using week_starts_ok[OF assms] by (simp add: weeks_ok_def)
  moreover have "(\<Sum>d = start..stop. g d) = (\<Sum>t\<leftarrow>period_txns sc start stop st. f t)"
    unfolding g_def by (rule period_days[symmetric])
  ultimately show ?thesis by simp
qed

lemma weekly_breakdown_ok:
  "(\<Sum>(a, b, count, revenue)\<leftarrow>weekly_breakdown sc start stop st. revenue) = (\<Sum>t\<leftarrow>period_txns sc start stop st. tx_total t) \<and>
   (\<Sum>(a, b, count, revenue)\<leftarrow>weekly_breakdown sc start stop st. int count) = int (length (period_txns sc start stop st))"
proof (cases "start \<le> stop")
  case True
  show ?thesis unfolding length_as_sum
    using weekly_breakdown_sum[OF True, of tx_total sc st] weekly_breakdown_sum[OF True, of "\<lambda>_. 1" sc st]
    by (simp add: weekly_breakdown_def sales_summary_def Let_def o_def length_as_sum)
next
  case False
  then have "period_txns sc start stop st = []" by (auto simp: period_txns_def filter_empty_conv)
  moreover have "weekly_breakdown sc start stop st = []" using False by (simp add: weekly_breakdown_def week_starts_def)
  ultimately show ?thesis by simp
qed

text \<open>
  C19: The breakdown of a weekly report by days and of a monthly report by calendar weeks, cut off at the
  ends of the range, adds up to the reported revenue and number of sales; and the period a report (but
  for the monthly one of the current month) compares with is the one of the same length right before.
\<close>

theorem report_breakdowns_add_up:
  "breakdown_ok (weekly_sales collate today sc start_date end_date st) \<and>
   breakdown_ok (monthly_sales collate today sc start_date end_date st) \<and>
   (\<forall>r \<in> {daily_sales collate today sc start_date end_date st, weekly_sales collate today sc start_date end_date st,
           monthly_sales collate today sc (Some first) end_date st}.
      sp_prev_stop r + 1 = sp_start r \<and> sp_prev_stop r - sp_prev_start r = sp_stop r - sp_start r)"
  unfolding breakdown_ok_def weekly_sales_def monthly_sales_def daily_sales_def Let_def
  by (simp add: daily_breakdown_ok weekly_breakdown_ok split: prod.split)

lemma report_breakdowns_demo:
  "map_option (\<lambda>_. sp_revenue (weekly_sales (\<lambda>_. 0) (local_date (tx_created (fst demo_sold))) \<lparr>sc_staff = False, sc_user = None\<rparr> None None (snd demo_sold)))
     (Some ()) = Some (tx_total (fst demo_sold))"
  by code_simp

theorem report_breakdowns_add_up_witness:
  "breakdown_ok (weekly_sales (\<lambda>_. 0) (local_date (tx_created (fst demo_sold))) \<lparr>sc_staff = False, sc_user = None\<rparr> None None (snd demo_sold)) \<and>
   sp_revenue (weekly_sales (\<lambda>_. 0) (local_date (tx_created (fst demo_sold))) \<lparr>sc_staff = False, sc_user = None\<rparr> None None (snd demo_sold))
     = tx_total (fst demo_sold)"
  using report_breakdowns_add_up[of "\<lambda>_. 0" _ _ None None _ 0] report_breakdowns_demo by simp

end
