(* ===== verification/Stock_Ledger.thy ===== *)
theory Stock_Ledger
  imports Reports "HOL-Library.List_Lexorder" "HOL-Library.Char_ord"
begin

text \<open>
  The inventory reports of \<^verbatim>\<open>reporting/services.py\<close>: the rows of the current stock and the ledger of
  stock movements in a range of days. The creation time of a batch row, which no other part of the model
  reads, is an argument. Remarks are kept as values and not rendered as text.
\<close>

subsection \<open>The current stock\<close>

datatype fefo_status = NoStock | ExpiredSoonest | ExpiringSoon | Healthy

record stock_row =
  sk_product :: product
  sk_quantity :: dec
  sk_low :: bool
  sk_next :: "date option"
  sk_status :: fefo_status

definition sellable_now :: "date \<Rightarrow> nat \<Rightarrow> batch \<Rightarrow> bool" where
  "sellable_now today product b \<longleftrightarrow> pb_product b = product \<and> pb_status b = Available \<and> today \<le> pb_expiration b \<and> pb_received b \<le> today"

definition min_date :: "date list \<Rightarrow> date option" where
  "min_date ds = (if ds = [] then None else Some (Min (set ds)))"

definition inventory_row :: "date \<Rightarrow> fefo_conf \<Rightarrow> 'z inv_store_scheme \<Rightarrow> product \<Rightarrow> stock_row" where
  "inventory_row today config st p =
     (let quantity = (\<Sum>b\<leftarrow>filter (sellable_now today (pr_id p)) (st_batches st). pb_remaining b);
          next = min_date (map pb_expiration (filter (\<lambda>b. sellable_now today (pr_id p) b \<and> 0 < pb_remaining b) (st_batches st)))
      in \<lparr>sk_product = p, sk_quantity = quantity, sk_low = (quantity \<le> 100 * fc_low config), sk_next = next,
          sk_status = (case next of
             None \<Rightarrow> NoStock
           | Some d \<Rightarrow> if quantity \<le> 0 then NoStock
                        else if d < today then ExpiredSoonest
                        else if d \<le> expiry_cutoff today (fc_near config) then ExpiringSoon else Healthy)\<rparr>)"

definition inventory_rows :: "date \<Rightarrow> bool \<Rightarrow> 'z inv_store_scheme \<Rightarrow> stock_row list" where
  "inventory_rows today visible_to_staff st =
     map (inventory_row today (fst (get_config st)) st)
       (filter (\<lambda>p. pr_active p \<and> (visible_to_staff \<longrightarrow> category_visible st (pr_category p))) (st_products st))"

record stock_status =
  sx_rows :: "stock_row list"
  sx_products :: nat
  sx_low :: nat
  sx_expired :: nat
  sx_expiring :: nat
  sx_counts :: "(fefo_status \<times> nat) list"

definition stock_summary :: "date \<Rightarrow> bool \<Rightarrow> 'z inv_store_scheme \<Rightarrow> stock_status" where
  "stock_summary today visible_to_staff st =
     (let rows = inventory_rows today visible_to_staff st;
          batches = filter (\<lambda>b. visible_to_staff \<longrightarrow> batch_visible st b) (st_batches st);
          soon = expiry_cutoff today (fc_near (fst (get_config st)))
      in \<lparr>sx_rows = rows, sx_products = length rows, sx_low = length (filter sk_low rows),
          sx_expired = length (filter (expired_stock_filter today) batches),
          sx_expiring = length (filter (\<lambda>b. pb_status b = Available \<and> 0 < pb_remaining b \<and> pb_received b \<le> today \<and>
                          today \<le> pb_expiration b \<and> pb_expiration b \<le> soon) batches),
          sx_counts = map (\<lambda>s. (s, length (filter (\<lambda>r. sk_status r = s) rows))) [NoStock, ExpiredSoonest, ExpiringSoon, Healthy]\<rparr>)"


subsection \<open>The ledger of movements\<close>

datatype remark =
    OnHand dec bool
  | Adjusted dec adjustment_type "string option"
  | Returned dec

record ledger_row =
  lr_product :: nat
  lr_label :: string
  lr_beginning :: dec
  lr_received :: dec
  lr_total :: dec
  lr_outlet :: dec
  lr_allocations :: "((string \<times> string) \<times> dec) list"
  lr_ending :: dec
  lr_adjustments :: dec
  lr_remarks :: "remark list"

text \<open>The batches of the ledger: of an active product, no historical reference, received by the end.\<close>

definition active_product :: "'z inv_store_scheme \<Rightarrow> nat \<Rightarrow> bool" where
  "active_product st pid = (case row_get pr_id (st_products st) pid of None \<Rightarrow> False | Some p \<Rightarrow> pr_active p)"

definition ledger_batches :: "(nat \<Rightarrow> instant) \<Rightarrow> bool \<Rightarrow> date \<Rightarrow> 'z inv_store_scheme \<Rightarrow> batch list" where
  "ledger_batches created custom stop st =
     filter (\<lambda>b. active_product st (pb_product b) \<and> \<not> pb_historical b \<and> pb_received b \<le> stop \<and>
                 (custom \<longrightarrow> local_date (created (pb_id b)) \<le> stop)) (st_batches st)"

definition received_on :: "(nat \<Rightarrow> instant) \<Rightarrow> bool \<Rightarrow> batch \<Rightarrow> date" where
  "received_on created custom b =
     (if custom then max (local_date (created (pb_id b))) (pb_received b) else local_date (created (pb_id b)))"

text \<open>
  The deductions that count: sales that stand, and voided ones whose return is recorded. A sale moves
  stock when it is entered, also when its receipt carries an earlier date.
\<close>

definition counted :: "sales_store \<Rightarrow> titem \<Rightarrow> bool" where
  "counted st i \<longleftrightarrow> (case get_txn (ss_txns st) (ti_txn i) of None \<Rightarrow> False | Some t \<Rightarrow> \<not> tx_voided t) \<or>
     ti_id i \<in> sr_item ` set (ss_returns st)"

definition movement_date :: "sales_store \<Rightarrow> titem \<Rightarrow> date" where
  "movement_date st i =
     (case get_txn (ss_txns st) (ti_txn i) of
        None \<Rightarrow> 0
      | Some t \<Rightarrow> local_date (case tx_encoded_at t of Some e \<Rightarrow> e | None \<Rightarrow> tx_created t))"

text \<open>The sum over the movements of some batches that meet a condition.\<close>

definition tally :: "('x \<Rightarrow> nat option) \<Rightarrow> ('x \<Rightarrow> dec) \<Rightarrow> ('x \<Rightarrow> bool) \<Rightarrow> nat list \<Rightarrow> 'x list \<Rightarrow> dec" where
  "tally key amount P ids xs = (\<Sum>x\<leftarrow>filter (\<lambda>x. P x \<and> key x \<in> Some ` set ids) xs. amount x)"

definition sold_when :: "(date \<Rightarrow> bool) \<Rightarrow> nat list \<Rightarrow> sales_store \<Rightarrow> dec" where
  "sold_when D ids st = tally (\<lambda>i. Some (ti_batch i)) ti_qty (\<lambda>i. counted st i \<and> D (movement_date st i)) ids (ss_items st)"

definition adjusted_when :: "(date \<Rightarrow> bool) \<Rightarrow> nat list \<Rightarrow> sales_store \<Rightarrow> dec" where
  "adjusted_when D ids st = tally (\<lambda>a. Some (sa_batch a)) sa_quantity (\<lambda>a. D (local_date (sa_created a))) ids (st_adjustments st)"

definition returned_when :: "(date \<Rightarrow> bool) \<Rightarrow> nat list \<Rightarrow> sales_store \<Rightarrow> dec" where
  "returned_when D ids st =
     tally (\<lambda>r. item_batch (ss_items st) (sr_item r)) sr_qty (\<lambda>r. D (local_date (sr_created r))) ids (ss_returns st)"

text \<open>Where a sale went: the outlet, or a column for a customer account or an imported label.\<close>

definition allocation_key :: "sales_store \<Rightarrow> titem \<Rightarrow> (string \<times> string) option" where
  "allocation_key st i =
     (case get_txn (ss_txns st) (ti_txn i) of
        None \<Rightarrow> None
      | Some t \<Rightarrow>
          (let label = strip (tx_customer_label t)
           in case tx_customer t of
                Some c \<Rightarrow> Some (''customer-'' @ str_nat c, fill (customer_name st (Some c)) [])
              | None \<Rightarrow> if label \<noteq> [] \<and> casefold label \<noteq> ''outlet sales'' then Some (''source-'' @ label, label) else None))"

definition range_sales :: "date \<Rightarrow> date \<Rightarrow> nat list \<Rightarrow> sales_store \<Rightarrow> titem list" where
  "range_sales start stop ids st =
     filter (\<lambda>i. (counted st i \<and> start \<le> movement_date st i \<and> movement_date st i \<le> stop) \<and>
                 Some (ti_batch i) \<in> Some ` set ids) (ss_items st)"

definition ledger_remarks :: "bool \<Rightarrow> date \<Rightarrow> date \<Rightarrow> batch list \<Rightarrow> sales_store \<Rightarrow> remark list" where
  "ledger_remarks custom start stop bs st =
     (let ids = map pb_id bs
      in (if custom then [] else
            map (\<lambda>b. OnHand (pb_remaining b) (pb_status b = Disposed))
              (filter (\<lambda>b. pb_remaining b \<noteq> 0 \<and> (pb_status b \<in> {Expired, Disposed} \<or> pb_expiration b < stop)) bs)) @
         map (\<lambda>a. Adjusted (sa_quantity a) (sa_type a) (sa_reason a))
           (filter (\<lambda>a. sa_batch a \<in> set ids \<and> start \<le> local_date (sa_created a) \<and> local_date (sa_created a) \<le> stop) (st_adjustments st)) @
         map (\<lambda>r. Returned (sr_qty r))
           (filter (\<lambda>r. sr_qty r \<noteq> 0 \<and> item_batch (ss_items st) (sr_item r) \<in> Some ` set ids \<and>
                        start \<le> local_date (sr_created r) \<and> local_date (sr_created r) \<le> stop) (ss_returns st)))"

definition product_ledger ::
    "(nat \<Rightarrow> instant) \<Rightarrow> bool \<Rightarrow> date \<Rightarrow> date \<Rightarrow> sales_store \<Rightarrow> product \<Rightarrow> ledger_row" where
  "product_ledger created custom start stop st p =
     (let bs = filter (\<lambda>b. pb_product b = pr_id p) (ledger_batches created custom stop st);
          ids = map pb_id bs;
          later = (\<lambda>d. stop < d);
          within = (\<lambda>d. start \<le> d \<and> d \<le> stop);
          ending = (\<Sum>b\<leftarrow>bs. pb_remaining b) +
                   (if custom then sold_when later ids st + adjusted_when later ids st - returned_when later ids st else 0);
          received = (\<Sum>b\<leftarrow>filter (\<lambda>b. within (received_on created custom b)) bs. pb_initial b);
          sales = range_sales start stop ids st;
          outlet = (\<Sum>i\<leftarrow>filter (\<lambda>i. allocation_key st i = None) sales. ti_qty i);
          allocations = group_sums (\<lambda>i. the (allocation_key st i)) ti_qty (filter (\<lambda>i. allocation_key st i \<noteq> None) sales);
          adjustments = adjusted_when within ids st - returned_when within ids st;
          deductions = outlet + (\<Sum>a\<leftarrow>allocations. snd a) + adjustments;
          all = ending + deductions
      in \<lparr>lr_product = pr_id p, lr_label = product_label (Some (pr_name p), pr_variant p), lr_beginning = all - received,
          lr_received = received, lr_total = all, lr_outlet = outlet, lr_allocations = allocations, lr_ending = ending,
          lr_adjustments = adjustments, lr_remarks = ledger_remarks custom start stop bs st\<rparr>)"

definition ledger_columns :: "ledger_row list \<Rightarrow> (string \<times> string) list" where
  "ledger_columns rows =
     sort_key (\<lambda>(key, name). (casefold name, key)) (remdups (concat (map (\<lambda>r. map fst (lr_allocations r)) rows)))"

definition inventory_ledger ::
    "(string \<Rightarrow> int) \<Rightarrow> (nat \<Rightarrow> instant) \<Rightarrow> date \<Rightarrow> bool \<Rightarrow> date option \<Rightarrow> date option \<Rightarrow> sales_store \<Rightarrow>
     ((date \<times> date) \<times> (string \<times> string) list \<times> ledger_row list) res" where
  "inventory_ledger collate created today visible_to_staff start_date end_date st =
     (if visible_to_staff
      then Inl (PermissionDenied ''Global inventory movement reports require an admin account.'')
      else
      let stop = fill end_date today; start = fill start_date stop;
          products = sort_key (\<lambda>p. (collate (pr_name p), text_order collate (pr_variant p), pr_id p)) (filter pr_active (st_products st));
          rows = map (product_ledger created (start_date \<noteq> None) start stop st) products
      in Inr ((start, stop), ledger_columns rows, rows))"

subsection \<open>The ledger carries over\<close>

lemma tally_cong: "(\<And>x. x \<in> set xs \<Longrightarrow> key x \<in> Some ` set ids \<Longrightarrow> P x = Q x) \<Longrightarrow> tally key f P ids xs = tally key f Q ids xs"
  unfolding tally_def by (intro arg_cong[of _ _ sum_list] arg_cong[of _ _ "map f"] filter_cong) auto

lemma tally_add:
  "(\<And>x. x \<in> set xs \<Longrightarrow> \<not> (P x \<and> Q x)) \<Longrightarrow> tally key f (\<lambda>x. P x \<or> Q x) ids xs = tally key f P ids xs + tally key f Q ids xs"
  unfolding tally_def by (induction xs) auto

lemma tally_ids:
  "set ids = set us \<union> set vs \<Longrightarrow> set us \<inter> set vs = {} \<Longrightarrow> tally key f P ids xs = tally key f P us xs + tally key f P vs xs"
  unfolding tally_def by (induction xs) auto

lemma tally_each:
  "distinct ids \<Longrightarrow> tally key f (\<lambda>_. True) ids xs = (\<Sum>i\<leftarrow>ids. \<Sum>x\<leftarrow>xs. if key x = Some i then f x else 0)"
proof (induction ids)
  case Nil then show ?case by (simp add: tally_def)
next
  case (Cons i ids)
  have "tally key f (\<lambda>_. True) (i # ids) xs = tally key f (\<lambda>_. True) [i] xs + tally key f (\<lambda>_. True) ids xs"
    using Cons.prems by (intro tally_ids) auto
  moreover have "tally key f (\<lambda>_. True) [i] xs = (\<Sum>x\<leftarrow>xs. if key x = Some i then f x else 0)"
    by (induction xs) (auto simp: tally_def)
  ultimately show ?case using Cons by simp
qed

text \<open>
  What the continuity needs of the recorded dates: no batch moves before the day it counts as received,
  and every item of a voided sale has its return.
\<close>

definition movements_dated :: "(nat \<Rightarrow> instant) \<Rightarrow> sales_store \<Rightarrow> bool" where
  "movements_dated created st \<longleftrightarrow>
     (\<forall>i \<in> set (ss_items st). counted st i) \<and>
     (\<forall>b \<in> set (st_batches st).
        (\<forall>i \<in> set (ss_items st). ti_batch i = pb_id b \<longrightarrow> received_on created True b \<le> movement_date st i) \<and>
        (\<forall>a \<in> set (st_adjustments st). sa_batch a = pb_id b \<longrightarrow> received_on created True b \<le> local_date (sa_created a)) \<and>
        (\<forall>r \<in> set (ss_returns st). item_batch (ss_items st) (sr_item r) = Some (pb_id b) \<longrightarrow>
           received_on created True b \<le> local_date (sr_created r)))"

definition net_moved :: "(date \<Rightarrow> bool) \<Rightarrow> nat list \<Rightarrow> sales_store \<Rightarrow> dec" where
  "net_moved D ids st = sold_when D ids st + adjusted_when D ids st - returned_when D ids st"

lemma net_moved_add:
  assumes "\<And>d. \<not> (D d \<and> E d)"
  shows "net_moved (\<lambda>d. D d \<or> E d) ids st = net_moved D ids st + net_moved E ids st"
proof -
  have "sold_when (\<lambda>d. D d \<or> E d) ids st = sold_when D ids st + sold_when E ids st"
    unfolding sold_when_def using tally_add[of "ss_items st" "\<lambda>i. counted st i \<and> D (movement_date st i)" "\<lambda>i. counted st i \<and> E (movement_date st i)"] assms
    by (simp add: conj_disj_distribL)
  moreover have "adjusted_when (\<lambda>d. D d \<or> E d) ids st = adjusted_when D ids st + adjusted_when E ids st"
    unfolding adjusted_when_def using assms by (intro tally_add) auto
  moreover have "returned_when (\<lambda>d. D d \<or> E d) ids st = returned_when D ids st + returned_when E ids st"
    unfolding returned_when_def using assms by (intro tally_add) auto
  ultimately show ?thesis by (simp add: net_moved_def)
qed

lemma net_moved_ids:
  "set ids = set us \<union> set vs \<Longrightarrow> set us \<inter> set vs = {} \<Longrightarrow> net_moved D ids st = net_moved D us st + net_moved D vs st"
  unfolding net_moved_def sold_when_def adjusted_when_def returned_when_def by (simp add: tally_ids)

text \<open>All movements of some batches: what was received less what is left.\<close>

lemma net_moved_all:
  assumes "ledger_ok st" "movements_dated created st" "set bs \<subseteq> set (st_batches st)" "distinct (map pb_id bs)"
    "\<And>b. b \<in> set bs \<Longrightarrow> s \<le> received_on created True b"
  shows "net_moved (\<lambda>d. s \<le> d) (map pb_id bs) st = (\<Sum>b\<leftarrow>bs. pb_initial b) - (\<Sum>b\<leftarrow>bs. pb_remaining b)"
proof -
  have d: "\<And>b i. b \<in> set bs \<Longrightarrow> i \<in> set (ss_items st) \<Longrightarrow> ti_batch i = pb_id b \<Longrightarrow> counted st i \<and> s \<le> movement_date st i"
    "\<And>b a. b \<in> set bs \<Longrightarrow> a \<in> set (st_adjustments st) \<Longrightarrow> sa_batch a = pb_id b \<Longrightarrow> s \<le> local_date (sa_created a)"
    "\<And>b r. b \<in> set bs \<Longrightarrow> r \<in> set (ss_returns st) \<Longrightarrow> item_batch (ss_items st) (sr_item r) = Some (pb_id b) \<Longrightarrow> s \<le> local_date (sr_created r)"
    using assms(2,3,5) unfolding movements_dated_def by (meson order_trans subsetD)+
  have "sold_when (\<lambda>d. s \<le> d) (map pb_id bs) st = tally (\<lambda>i. Some (ti_batch i)) ti_qty (\<lambda>_. True) (map pb_id bs) (ss_items st)"
    unfolding sold_when_def using d(1) by (intro tally_cong) auto
  also have "\<dots> = (\<Sum>b\<leftarrow>bs. sold_from (pb_id b) (ss_items st))"
    by (simp add: tally_each[OF assms(4)] sold_from_def o_def)
  finally have 1: "sold_when (\<lambda>d. s \<le> d) (map pb_id bs) st = (\<Sum>b\<leftarrow>bs. sold_from (pb_id b) (ss_items st))" .
  have "adjusted_when (\<lambda>d. s \<le> d) (map pb_id bs) st = tally (\<lambda>a. Some (sa_batch a)) sa_quantity (\<lambda>_. True) (map pb_id bs) (st_adjustments st)"
    unfolding adjusted_when_def using d(2) by (intro tally_cong) auto
  also have "\<dots> = (\<Sum>b\<leftarrow>bs. adjusted_in (pb_id b) (st_adjustments st))"
    by (simp add: tally_each[OF assms(4)] adjusted_in_def o_def)
  finally have 2: "adjusted_when (\<lambda>d. s \<le> d) (map pb_id bs) st = (\<Sum>b\<leftarrow>bs. adjusted_in (pb_id b) (st_adjustments st))" .
  have "returned_when (\<lambda>d. s \<le> d) (map pb_id bs) st
      = tally (\<lambda>r. item_batch (ss_items st) (sr_item r)) sr_qty (\<lambda>_. True) (map pb_id bs) (ss_returns st)"
    unfolding returned_when_def using d(3) by (intro tally_cong) auto
  also have "\<dots> = (\<Sum>b\<leftarrow>bs. returned_to (pb_id b) (ss_items st) (ss_returns st))"
    by (simp add: tally_each[OF assms(4)] returned_to_def o_def)
  finally have 3: "returned_when (\<lambda>d. s \<le> d) (map pb_id bs) st = (\<Sum>b\<leftarrow>bs. returned_to (pb_id b) (ss_items st) (ss_returns st))" .
  have "sold_from (pb_id b) (ss_items st) + adjusted_in (pb_id b) (st_adjustments st) - returned_to (pb_id b) (ss_items st) (ss_returns st)
      = pb_initial b - pb_remaining b" if "b \<in> set bs" for b
  proof -
    have m: "b \<in> set (st_batches st)" using that assms(3) by blast
    have "get_batch (st_batches st) (pb_id b) = Some b"
      using m assms(1) by (simp add: ledger_ok_def books_ok_def stock_ok_def row_get_iff)
    then show ?thesis using m assms(1) by (force simp: ledger_ok_def balanced_def remaining_of_def initial_of_def)
  qed
  then have "(\<Sum>b\<leftarrow>bs. sold_from (pb_id b) (ss_items st) + adjusted_in (pb_id b) (st_adjustments st) - returned_to (pb_id b) (ss_items st) (ss_returns st))
      = (\<Sum>b\<leftarrow>bs. pb_initial b - pb_remaining b)" by (intro arg_cong[of _ _ sum_list] map_cong) auto
  then show ?thesis by (simp add: net_moved_def 1 2 3 sum_list_addf sum_list_subtractf)
qed

lemma range_sales_sum:
  "(\<Sum>i\<leftarrow>range_sales start stop ids st. ti_qty i) = sold_when (\<lambda>d. start \<le> d \<and> d \<le> stop) ids st"
  by (simp add: range_sales_def sold_when_def tally_def)

lemma ledger_ending:
  "lr_ending (product_ledger created True start stop st p) =
     (\<Sum>b\<leftarrow>filter (\<lambda>b. pb_product b = pr_id p) (ledger_batches created True stop st). pb_remaining b) +
     net_moved (\<lambda>d. stop < d) (map pb_id (filter (\<lambda>b. pb_product b = pr_id p) (ledger_batches created True stop st))) st"
  by (simp add: product_ledger_def Let_def net_moved_def)

lemma ledger_beginning:
  "lr_beginning (product_ledger created custom start stop st p) + lr_received (product_ledger created custom start stop st p) =
     lr_ending (product_ledger created custom start stop st p) +
     net_moved (\<lambda>d. start \<le> d \<and> d \<le> stop) (map pb_id (filter (\<lambda>b. pb_product b = pr_id p) (ledger_batches created custom stop st))) st"
proof -
  let ?s = "range_sales start stop (map pb_id (filter (\<lambda>b. pb_product b = pr_id p) (ledger_batches created custom stop st))) st"
  have "(\<Sum>i\<leftarrow>filter (\<lambda>i. allocation_key st i = None) ?s. ti_qty i) +
      (\<Sum>a\<leftarrow>group_sums (\<lambda>i. the (allocation_key st i)) ti_qty (filter (\<lambda>i. allocation_key st i \<noteq> None) ?s). snd a) = (\<Sum>i\<leftarrow>?s. ti_qty i)"
    unfolding group_sums_total by (rule sum_list_filter_split[symmetric])
  then show ?thesis
    by (simp add: product_ledger_def Let_def net_moved_def range_sales_sum)
qed

lemma ledger_batches_custom:
  "ledger_batches created True stop st =
     filter (\<lambda>b. active_product st (pb_product b) \<and> \<not> pb_historical b \<and> received_on created True b \<le> stop) (st_batches st)"
  unfolding ledger_batches_def received_on_def by (intro filter_cong) auto

lemma ledger_carries_over:
  assumes ok: "ledger_ok st" and dated: "movements_dated created st" and r: "start \<le> stop"
  shows "lr_beginning (product_ledger created True start stop st p) = lr_ending (product_ledger created True before (start - 1) st p)"
proof -
  define bs where "bs = filter (\<lambda>b. pb_product b = pr_id p) (ledger_batches created True stop st)"
  define old where "old = filter (\<lambda>b. received_on created True b \<le> start - 1) bs"
  define new where "new = filter (\<lambda>b. \<not> received_on created True b \<le> start - 1) bs"
  have old: "filter (\<lambda>b. pb_product b = pr_id p) (ledger_batches created True (start - 1) st) = old"
    unfolding old_def bs_def ledger_batches_custom filter_filter using r by (intro filter_cong) auto
  have sub: "set bs \<subseteq> set (st_batches st)" by (auto simp: bs_def ledger_batches_def)
  have keys: "distinct (map pb_id (st_batches st))" using ok by (simp add: ledger_ok_def books_ok_def stock_ok_def keys_ok_def)
  have dist: "distinct (map pb_id bs)" unfolding bs_def ledger_batches_def using keys by (intro distinct_map_filter)
  have dn: "distinct (map pb_id new)" unfolding new_def using dist by (rule distinct_map_filter)
  have inj: "inj_on pb_id (set bs)" using dist by (simp add: distinct_map)
  have ids: "set (map pb_id bs) = set (map pb_id old) \<union> set (map pb_id new)" by (auto simp: old_def new_def)
  have disj: "set (map pb_id old) \<inter> set (map pb_id new) = {}"
    using inj by (auto simp: old_def new_def dest: inj_onD)
  have rem: "(\<Sum>b\<leftarrow>bs. pb_remaining b) = (\<Sum>b\<leftarrow>old. pb_remaining b) + (\<Sum>b\<leftarrow>new. pb_remaining b)"
    unfolding old_def new_def by (rule sum_list_filter_split)
  have rec: "lr_received (product_ledger created True start stop st p) = (\<Sum>b\<leftarrow>new. pb_initial b)"
  proof -
    have "filter (\<lambda>b. start \<le> received_on created True b \<and> received_on created True b \<le> stop) bs = new"
      unfolding new_def by (intro filter_cong) (auto simp: bs_def ledger_batches_custom)
    then show ?thesis by (simp add: product_ledger_def Let_def bs_def)
  qed
  have moved: "net_moved (\<lambda>d. start \<le> d) (map pb_id new) st = (\<Sum>b\<leftarrow>new. pb_initial b) - (\<Sum>b\<leftarrow>new. pb_remaining b)"
    using sub by (intro net_moved_all[OF ok dated _ dn]) (auto simp: new_def)
  have whole: "net_moved (\<lambda>d. stop < d) (map pb_id bs) st + net_moved (\<lambda>d. start \<le> d \<and> d \<le> stop) (map pb_id bs) st
      = net_moved (\<lambda>d. start \<le> d) (map pb_id bs) st"
  proof -
    have "(\<lambda>d. stop < d \<or> start \<le> d \<and> d \<le> stop) = (\<lambda>d. start \<le> d)" using r by (intro ext) auto
    then show ?thesis using net_moved_add[of "\<lambda>d. stop < d" "\<lambda>d. start \<le> d \<and> d \<le> stop" "map pb_id bs" st] by simp
  qed
  have e: "lr_ending (product_ledger created True start stop st p) = (\<Sum>b\<leftarrow>bs. pb_remaining b) + net_moved (\<lambda>d. stop < d) (map pb_id bs) st"
    unfolding ledger_ending bs_def ..
  have b: "lr_beginning (product_ledger created True start stop st p) + lr_received (product_ledger created True start stop st p)
      = lr_ending (product_ledger created True start stop st p) + net_moved (\<lambda>d. start \<le> d \<and> d \<le> stop) (map pb_id bs) st"
    unfolding bs_def by (rule ledger_beginning)
  have o: "lr_ending (product_ledger created True before (start - 1) st p) = (\<Sum>b\<leftarrow>old. pb_remaining b) + net_moved (\<lambda>d. start \<le> d) (map pb_id old) st"
  proof -
    have "(\<lambda>d. start - 1 < d) = (\<lambda>d. start \<le> d)" by (intro ext) auto
    then show ?thesis unfolding ledger_ending old by simp
  qed
  show ?thesis using b e o rec rem moved whole net_moved_ids[OF ids disj, of "\<lambda>d. start \<le> d" st] by simp
qed

text \<open>
  C18: The inventory ledger carries over: in every reachable state, the beginning stock of a product in any
  range of days is its ending stock in a range that ends the day before, as long as no batch moves before
  the day it counts as received and voided items have their returns.
\<close>

theorem inventory_ledger_carries_over:
  assumes "drf_decimal rv" "ledger_ok st0" "reachable rv fp st0 st" "movements_dated created st" "start \<le> stop"
  shows "lr_beginning (product_ledger created True start stop st p) = lr_ending (product_ledger created True before (start - 1) st p)"
  using ledger_carries_over[OF ledger_reachable[OF assms(3,1,2)] assms(4,5)] .

theorem inventory_ledger_carries_over_witness:
  "lr_beginning (product_ledger (\<lambda>_. at_hour 700000 9) True 700010 700012 (snd demo_sold) (hd (st_products demo_store)))
     = lr_ending (product_ledger (\<lambda>_. at_hour 700000 9) True 700001 700009 (snd demo_sold) (hd (st_products demo_store))) \<and>
   lr_outlet (product_ledger (\<lambda>_. at_hour 700000 9) True 700010 700012 (snd demo_sold) (hd (st_products demo_store))) = 450"
proof -
  have "checkout plain_dec_field demo_clock demo_cart 1 demo_args demo_sales = Inr (fst demo_sold, snd demo_sold)"
    using demo_checkout by simp
  from system_step.sale[OF this, of ep_note] have r: "reachable plain_dec_field ep_note demo_sales (snd demo_sold)"
    by (rule reachable.more[OF reachable.start])
  have d: "movements_dated (\<lambda>_. at_hour 700000 9) (snd demo_sold)" by code_simp
  have "lr_outlet (product_ledger (\<lambda>_. at_hour 700000 9) True 700010 700012 (snd demo_sold) (hd (st_products demo_store))) = 450"
    by code_simp
  with inventory_ledger_carries_over[OF plain_dec_field_ok demo_ledger_ok r d, of 700010 700012 "hd (st_products demo_store)" 700001]
  show ?thesis by simp
qed

end
