(* ===== verification/Customer_Report.thy ===== *)
theory Customer_Report
  imports Stock_Ledger
begin

text \<open>
  The customer report and the choice of reports of \<^verbatim>\<open>reporting/services.py\<close>: totals per customer and per
  month, and who may read which report. The average lifetime value is a pair; caching, the forecast and
  the PDF are not modelled.
\<close>

subsection \<open>Months of a range\<close>

definition month_end :: "date \<Rightarrow> date" where
  "month_end d = mk_date (year_of d) (month_of d) (days_in_month (year_of d) (month_of d))"

lemma month_end_eq: "month_end d = d + (days_in_month (year_of d) (month_of d) - day_of d)"
  using mk_date_of[of d] by (simp add: month_end_def mk_date_def)

lemma month_end_ge: "d \<le> month_end d"
  using day_of_range[of d] by (simp add: month_end_eq)

text \<open>The loop over the months: it ends with the month that reaches the end of the range.\<close>

function month_loop :: "date \<Rightarrow> date \<Rightarrow> date list" where
  "month_loop stop month =
     (if stop < month then []
      else if stop \<le> month_end month then [month]
      else month # month_loop stop (month_end month + 1))"
  by pat_completeness auto
termination
proof (relation "measure (\<lambda>(stop, month). nat (stop + 1 - month))")
  fix stop month :: date assume "\<not> stop < month"
  then show "((stop, month_end month + 1), stop, month) \<in> measure (\<lambda>(stop, month). nat (stop + 1 - month))"
    using month_end_ge[of month] by simp
qed simp

declare month_loop.simps [simp del]

lemma first_of_month_fields:
  "year_of (first_of_month d) = year_of d" "month_of (first_of_month d) = month_of d" "day_of (first_of_month d) = 1"
proof -
  have "valid_ymd (year_of d) (month_of d) 1" using day_of_range[of d] month_of_range[of d] by (simp add: valid_ymd_def)
  then show "year_of (first_of_month d) = year_of d" "month_of (first_of_month d) = month_of d" "day_of (first_of_month d) = 1"
    by (simp_all add: first_of_month_def mk_date_fields)
qed

lemma month_after:
  assumes "day_of m = 1" shows "day_of (month_end m + 1) = 1"
proof -
  let ?y = "year_of m" and ?m = "month_of m"
  have r: "1 \<le> ?m" "?m \<le> 12" using month_of_range[of m] by auto
  show ?thesis
  proof (cases "?m = 12")
    case True
    have "month_end m + 1 = mk_date (?y + 1) 1 1"
      using True by (simp add: month_end_def mk_date_def days_before_year_step days_before_month_def days_in_month_def)
    moreover have "valid_ymd (?y + 1) 1 1" by (simp add: valid_ymd_def days_in_month_def)
    ultimately show ?thesis by (simp add: day_of_mk_date)
  next
    case False
    have "days_before_month ?y (?m + 1) = days_before_month ?y ?m + days_in_month ?y ?m"
      using r False by (cases rule: month_cases) (auto simp: days_before_month_def days_in_month_def)
    then have "month_end m + 1 = mk_date ?y (?m + 1) 1" by (simp add: month_end_def mk_date_def)
    moreover have "valid_ymd ?y (?m + 1) 1" using r False by (auto simp: valid_ymd_def days_in_month_def)
    ultimately show ?thesis by (simp add: day_of_mk_date)
  qed
qed

lemma same_month:
  assumes "day_of m = 1" "m \<le> d" "d \<le> month_end m" shows "first_of_month d = m"
proof -
  let ?y = "year_of m" and ?m = "month_of m"
  have m: "m = mk_date ?y ?m 1" using mk_date_of[of m] assms(1) by simp
  then have d: "d = mk_date ?y ?m (1 + (d - m))" by (simp add: mk_date_def)
  have "d - m \<le> days_in_month ?y ?m - 1" using assms(3) by (simp add: month_end_eq assms(1))
  then have v: "valid_ymd ?y ?m (1 + (d - m))" using assms(2) month_of_range[of m] by (simp add: valid_ymd_def)
  have "year_of d = ?y" "month_of d = ?m" using d v mk_date_fields(1,2)[OF v] by metis+
  then show ?thesis using m by (simp add: first_of_month_def)
qed

lemma month_loop_mem:
  assumes "day_of m = 1" "m \<le> d" "d \<le> stop" shows "first_of_month d \<in> set (month_loop stop m)"
  using assms
proof (induction stop m rule: month_loop.induct)
  case (1 stop m)
  show ?case
  proof (cases "d \<le> month_end m")
    case True then show ?thesis using same_month 1(2,3) 1(4) by (subst month_loop.simps) auto
  next
    case False
    then have "first_of_month d \<in> set (month_loop stop (month_end m + 1))"
      using 1 month_after[OF 1(2)] by (intro "1.IH") auto
    then show ?thesis using False 1(3,4) by (subst month_loop.simps) auto
  qed
qed

lemma month_loop_ge: "x \<in> set (month_loop stop m) \<Longrightarrow> m \<le> x"
proof (induction stop m rule: month_loop.induct)
  case (1 stop m)
  then show ?case using month_end_ge[of m] by (subst (asm) (2) month_loop.simps) (force split: if_splits)
qed

lemma month_loop_distinct: "distinct (month_loop stop m)"
proof (induction stop m rule: month_loop.induct)
  case (1 stop m)
  have "m \<notin> set (month_loop stop (month_end m + 1))" using month_loop_ge[of m stop "month_end m + 1"] month_end_ge[of m] by auto
  then show ?case using 1 by (subst month_loop.simps) auto
qed

lemma month_loop_sorted: "sorted_wrt (<) (month_loop stop m)"
proof (induction stop m rule: month_loop.induct)
  case (1 stop m)
  have "m < x" if "x \<in> set (month_loop stop (month_end m + 1))" for x
    using month_loop_ge[OF that] month_end_ge[of m] by simp
  then show ?case using 1 by (subst month_loop.simps) auto
qed

lemma month_loop_firsts:
  "day_of m = 1 \<Longrightarrow> x \<in> set (month_loop stop m) \<Longrightarrow> day_of x = 1 \<and> x \<le> stop"
proof (induction stop m rule: month_loop.induct)
  case (1 stop m)
  then show ?case using month_after[of m] by (subst (asm) (2) month_loop.simps) (auto split: if_splits)
qed

lemma month_loop_set: "day_of m = 1 \<Longrightarrow> set (month_loop stop m) = first_of_month ` {m..stop}"
proof (intro set_eqI iffI)
  fix x assume m: "day_of m = 1" and x: "x \<in> set (month_loop stop m)"
  have "first_of_month x = x" using same_month[of x x] month_loop_firsts[OF m x] month_end_ge[of x] by simp
  then show "x \<in> first_of_month ` {m..stop}" using month_loop_ge[OF x] month_loop_firsts[OF m x] by (metis atLeastAtMost_iff imageI)
qed (auto intro: month_loop_mem)

lemma first_of_month_le: "first_of_month d \<le> d"
  using day_of_range[of d] mk_date_of[of d] by (simp add: first_of_month_def mk_date_def)

lemma month_range:
  assumes "start \<le> stop" shows "first_of_month ` {first_of_month start..stop} = first_of_month ` {start..stop}"
proof -
  let ?m = "first_of_month start"
  have m: "day_of ?m = 1" by (rule first_of_month_fields)
  have "month_end ?m = month_end start" unfolding month_end_def by (simp only: first_of_month_fields)
  then have e: "start \<le> month_end ?m" using month_end_ge[of start] by simp
  have early: "first_of_month d = ?m" if "?m \<le> d" "d \<le> start" for d
    using same_month[OF m that(1) order_trans[OF that(2) e]] .
  have "first_of_month d \<in> first_of_month ` {start..stop}" if "?m \<le> d" "d \<le> stop" for d
  proof (cases "start \<le> d")
    case True with that show ?thesis by (intro imageI) simp
  next
    case False
    then have "d \<le> start" by simp
    from early[OF that(1) this] have "first_of_month d = ?m" .
    moreover have "start \<in> {start..stop}" using assms by simp
    ultimately show ?thesis by (rule image_eqI)
  qed
  moreover have "{start..stop} \<subseteq> {?m..stop}" using first_of_month_le[of start] by auto
  ultimately show ?thesis by (intro equalityI image_mono subsetI) auto
qed

text \<open>
  The loop over the months of the customer report ends and misses nothing: for any range of days it
  lists the first day of every month that the range touches, each once, in order.
\<close>

lemma report_months_complete:
  assumes "start \<le> stop"
  shows "set (month_loop stop (first_of_month start)) = first_of_month ` {start..stop} \<and>
    sorted_wrt (<) (month_loop stop (first_of_month start))"
  using month_loop_set[OF first_of_month_fields(3)] month_range[OF assms] month_loop_sorted by simp

lemma report_months_complete_witness:
  "set (month_loop 700100 (first_of_month 700000)) = first_of_month ` {700000..700100}"
  by (rule conjunct1[OF report_months_complete]) simp


subsection \<open>Totals per customer\<close>

record customer_row =
  cr_customer :: nat
  cr_name :: string
  cr_active :: bool
  cr_count :: nat
  cr_spent :: dec
  cr_paid :: dec
  cr_pending :: dec
  cr_unknown :: dec
  cr_pending_count :: nat
  cr_last :: "date option"

definition spent_with :: "pay_status \<Rightarrow> txn list \<Rightarrow> dec" where
  "spent_with s xs = (\<Sum>t\<leftarrow>filter (\<lambda>t. tx_pay_status t = s) xs. tx_total t)"

definition customer_stats :: "customer \<Rightarrow> txn list \<Rightarrow> customer_row" where
  "customer_stats c xs =
     \<lparr>cr_customer = cu_id c, cr_name = cu_name c, cr_active = cu_active c, cr_count = length xs,
      cr_spent = (\<Sum>t\<leftarrow>xs. tx_total t), cr_paid = spent_with Paid xs, cr_pending = spent_with Pending xs,
      cr_unknown = spent_with PayUnknown xs, cr_pending_count = length (filter (\<lambda>t. tx_pay_status t = Pending) xs),
      cr_last = (if xs = [] then None else Some (local_date (Max (set (map tx_created xs)))))\<rparr>"

record month_row =
  mo_month :: date
  mo_start :: date
  mo_stop :: date
  mo_customers :: "customer_row list"
  mo_count :: nat
  mo_revenue :: dec

record customer_summary =
  cy_start :: date
  cy_stop :: date
  cy_revenue :: dec
  cy_count :: nat
  cy_customers :: "customer_row list"
  cy_top :: "customer_row list"
  cy_months :: "month_row list"
  cy_active :: nat
  cy_repeat :: nat
  cy_paid :: dec
  cy_pending :: dec
  cy_unknown :: dec
  cy_pending_customers :: nat
  cy_unassigned :: "nat \<times> dec"
  cy_recent :: nat
  cy_lifetime :: "dec \<times> nat"

definition of_customer :: "nat \<Rightarrow> txn list \<Rightarrow> txn list" where
  "of_customer c xs = filter (\<lambda>t. tx_customer t = Some c) xs"

definition customer_ids :: "txn list \<Rightarrow> nat set" where
  "customer_ids xs = the ` (tx_customer ` set xs - {None})"

definition buyers :: "(string \<Rightarrow> int) \<Rightarrow> sales_store \<Rightarrow> txn list \<Rightarrow> customer list" where
  "buyers collate st xs =
     sort_key (\<lambda>c. (collate (cu_name c), cu_id c)) (filter (\<lambda>c. Some (cu_id c) \<in> tx_customer ` set xs) (ss_customers st))"

definition month_summary :: "date \<Rightarrow> date \<Rightarrow> customer list \<Rightarrow> txn list \<Rightarrow> date \<Rightarrow> month_row" where
  "month_summary start stop accounts xs month =
     (let ys = filter (\<lambda>t. first_of_month (local_date (tx_created t)) = month) xs;
          entries = sort_key (\<lambda>r. (casefold (cr_name r), cr_customer r))
            (map (\<lambda>c. customer_stats c (of_customer (cu_id c) ys)) (filter (\<lambda>c. of_customer (cu_id c) ys \<noteq> []) accounts))
      in \<lparr>mo_month = month, mo_start = max month start, mo_stop = min (month_end month) stop, mo_customers = entries,
          mo_count = (\<Sum>r\<leftarrow>entries. cr_count r), mo_revenue = (\<Sum>r\<leftarrow>entries. cr_spent r)\<rparr>)"

definition customer_report ::
    "(string \<Rightarrow> int) \<Rightarrow> date \<Rightarrow> scope \<Rightarrow> date option \<Rightarrow> date option \<Rightarrow> sales_store \<Rightarrow> customer_summary" where
  "customer_report collate today sc start_date end_date st =
     (let start = fill start_date (first_of_month today); stop = fill end_date today;
          history = filter (\<lambda>t. \<not> tx_voided t \<and> local_date (tx_created t) \<le> today)
            (visible_transactions (sc_staff sc) (sc_user sc) st (ss_txns st));
          all_sales = filter (\<lambda>t. start \<le> local_date (tx_created t) \<and> local_date (tx_created t) \<le> stop) history;
          xs = filter (\<lambda>t. tx_customer t \<noteq> None) all_sales;
          accounts = buyers collate st xs;
          rows = map (\<lambda>c. customer_stats c (of_customer (cu_id c) xs)) accounts;
          none = filter (\<lambda>t. tx_customer t = None) all_sales;
          known = filter (\<lambda>t. tx_customer t \<noteq> None) history
      in \<lparr>cy_start = start, cy_stop = stop, cy_revenue = (\<Sum>r\<leftarrow>rows. cr_spent r), cy_count = (\<Sum>r\<leftarrow>rows. cr_count r),
          cy_customers = rows,
          cy_top = sort_key (\<lambda>r. (- cr_spent r, cr_name r, cr_customer r)) (filter (\<lambda>r. cr_count r \<noteq> 0) rows),
          cy_months = map (month_summary start stop accounts xs) (month_loop stop (first_of_month start)),
          cy_active = length (filter cu_active (ss_customers st)),
          cy_repeat = length (filter (\<lambda>r. 2 \<le> cr_count r) rows),
          cy_paid = (\<Sum>r\<leftarrow>rows. cr_paid r), cy_pending = (\<Sum>r\<leftarrow>rows. cr_pending r), cy_unknown = (\<Sum>r\<leftarrow>rows. cr_unknown r),
          cy_pending_customers = length (filter (\<lambda>r. 0 < cr_pending_count r) rows),
          cy_unassigned = (length none, \<Sum>t\<leftarrow>none. tx_total t),
          cy_recent = card (customer_ids (filter (\<lambda>t. today - 89 \<le> local_date (tx_created t)) known)),
          cy_lifetime = (\<Sum>t\<leftarrow>known. tx_total t, card (customer_ids known))\<rparr>)"


subsection \<open>Who may read which report\<close>

definition report_builders :: "string list" where
  "report_builders = [''daily_sales'', ''weekly_sales'', ''monthly_sales'', ''inventory'', ''sarima_forecast'', ''customer'']"

definition report_scope :: "string \<Rightarrow> account option \<Rightarrow> bool \<Rightarrow> scope res" where
  "report_scope report_type user visible_to_staff =
     (if report_type \<notin> set report_builders then Inl (ValueErrorF ''Unsupported report type: {}'' [FStr report_type])
      else
      let staff = (case user of None \<Rightarrow> visible_to_staff | Some u \<Rightarrow> ac_role u = ''staff'')
      in if staff \<and> user = None then Inl (PermissionDenied ''Staff reports require an authenticated staff identity.'')
      else if staff \<and> report_type \<in> {''sarima_forecast'', ''inventory''}
      then Inl (PermissionDenied ''Global forecasts and inventory movement reports require an admin account.'')
      else Inr \<lparr>sc_staff = staff, sc_user = (if staff then map_option ac_id user else None)\<rparr>)"

definition refreshed_reports :: "bool \<Rightarrow> string list" where
  "refreshed_reports visible_to_staff =
     filter (\<lambda>n. \<not> (visible_to_staff \<and> n \<in> {''sarima_forecast'', ''inventory''})) report_builders"

subsection \<open>The totals agree\<close>

lemma by_customer:
  assumes "distinct (map cu_id cs)" "\<And>t. t \<in> set xs \<Longrightarrow> tx_customer t \<in> Some ` cu_id ` set cs"
  shows "(\<Sum>c\<leftarrow>cs. \<Sum>t\<leftarrow>of_customer (cu_id c) xs. f t) = (\<Sum>t\<leftarrow>xs. (f t :: int))"
proof -
  have "(\<Sum>c\<leftarrow>cs. \<Sum>t\<leftarrow>of_customer (cu_id c) xs. f t) = (\<Sum>k\<leftarrow>map cu_id cs. \<Sum>t\<leftarrow>of_customer k xs. f t)" by (simp add: o_def)
  also have "\<dots> = (\<Sum>k\<in>set (map cu_id cs). \<Sum>t\<leftarrow>of_customer k xs. f t)"
    by (rule sum.distinct_set_conv_list[symmetric, OF assms(1)])
  also have "\<dots> = (\<Sum>k\<in>Some ` set (map cu_id cs). \<Sum>t\<leftarrow>filter (\<lambda>t. tx_customer t = k) xs. f t)"
    by (simp add: sum.reindex of_customer_def o_def)
  also have "\<dots> = (\<Sum>t\<leftarrow>xs. f t)" using assms(2) by (intro sum_by_key) auto
  finally show ?thesis .
qed

lemma stats_fields [simp]:
  "cr_spent (customer_stats c xs) = (\<Sum>t\<leftarrow>xs. tx_total t)" "cr_count (customer_stats c xs) = length xs"
  "cr_paid (customer_stats c xs) = spent_with Paid xs" "cr_pending (customer_stats c xs) = spent_with Pending xs"
  "cr_unknown (customer_stats c xs) = spent_with PayUnknown xs"
  by (simp_all add: customer_stats_def)

lemma spent_split: "spent_with Paid xs + spent_with Pending xs + spent_with PayUnknown xs = (\<Sum>t\<leftarrow>xs. tx_total t)"
  using status_partition[of xs] by (simp add: spent_with_def)

lemma sum_list_filter_zero: "(\<And>x. x \<in> set xs \<Longrightarrow> \<not> P x \<Longrightarrow> f x = 0) \<Longrightarrow> (\<Sum>x\<leftarrow>filter P xs. f x) = (\<Sum>x\<leftarrow>xs. (f x :: int))"
  by (induction xs) auto

lemma month_summary_revenue:
  assumes "distinct (map cu_id cs)" "\<And>t. t \<in> set xs \<Longrightarrow> tx_customer t \<in> Some ` cu_id ` set cs"
  shows "mo_revenue (month_summary start stop cs xs month) =
    (\<Sum>t\<leftarrow>filter (\<lambda>t. first_of_month (local_date (tx_created t)) = month) xs. tx_total t)"
proof -
  let ?ys = "filter (\<lambda>t. first_of_month (local_date (tx_created t)) = month) xs"
  have "mo_revenue (month_summary start stop cs xs month)
      = (\<Sum>c\<leftarrow>filter (\<lambda>c. of_customer (cu_id c) ?ys \<noteq> []) cs. \<Sum>t\<leftarrow>of_customer (cu_id c) ?ys. tx_total t)"
    by (simp add: month_summary_def Let_def o_def)
  also have "\<dots> = (\<Sum>c\<leftarrow>cs. \<Sum>t\<leftarrow>of_customer (cu_id c) ?ys. tx_total t)" by (rule sum_list_filter_zero) simp
  also have "\<dots> = (\<Sum>t\<leftarrow>?ys. tx_total t)" using assms by (intro by_customer) auto
  finally show ?thesis .
qed

text \<open>The receipts of the report: not voided, not in the future, of a customer, within the range.\<close>

definition reported_sales :: "date \<Rightarrow> scope \<Rightarrow> date \<Rightarrow> date \<Rightarrow> sales_store \<Rightarrow> txn list" where
  "reported_sales today sc start stop st =
     filter (\<lambda>t. \<not> tx_voided t \<and> local_date (tx_created t) \<le> today \<and> start \<le> local_date (tx_created t) \<and>
                 local_date (tx_created t) \<le> stop \<and> tx_customer t \<noteq> None)
       (visible_transactions (sc_staff sc) (sc_user sc) st (ss_txns st))"

text \<open>
  The customer report is consistent: its revenue is that of the visible receipts of customers in the
  range, the paid, pending and unrecorded parts add up to it, and so do the months.
\<close>

lemma customer_report_adds_up:
  assumes "keys_ok cu_id (ss_customers st)" "\<forall>t \<in> set (ss_txns st). \<forall>c. tx_customer t = Some c \<longrightarrow> c \<in> cu_id ` set (ss_customers st)"
  shows "cy_revenue (customer_report collate today sc start_date end_date st) =
      (\<Sum>t\<leftarrow>reported_sales today sc (cy_start (customer_report collate today sc start_date end_date st))
         (cy_stop (customer_report collate today sc start_date end_date st)) st. tx_total t) \<and>
    cy_paid (customer_report collate today sc start_date end_date st) + cy_pending (customer_report collate today sc start_date end_date st) +
      cy_unknown (customer_report collate today sc start_date end_date st) = cy_revenue (customer_report collate today sc start_date end_date st) \<and>
    (\<Sum>m\<leftarrow>cy_months (customer_report collate today sc start_date end_date st). mo_revenue m) =
      cy_revenue (customer_report collate today sc start_date end_date st)"
proof -
  define start where "start = fill start_date (first_of_month today)"
  define stop where "stop = fill end_date today"
  define xs where "xs = reported_sales today sc start stop st"
  define cs where "cs = buyers collate st xs"
  define rep where "rep = customer_report collate today sc start_date end_date st"
  have xs: "filter (\<lambda>t. tx_customer t \<noteq> None) (filter (\<lambda>t. start \<le> local_date (tx_created t) \<and> local_date (tx_created t) \<le> stop)
      (filter (\<lambda>t. \<not> tx_voided t \<and> local_date (tx_created t) \<le> today)
        (visible_transactions (sc_staff sc) (sc_user sc) st (ss_txns st)))) = xs"
    unfolding xs_def reported_sales_def filter_filter by (intro filter_cong) auto
  have f: "cy_start rep = start" "cy_stop rep = stop"
    "cy_revenue rep = (\<Sum>c\<leftarrow>cs. \<Sum>t\<leftarrow>of_customer (cu_id c) xs. tx_total t)"
    "cy_paid rep = (\<Sum>c\<leftarrow>cs. spent_with Paid (of_customer (cu_id c) xs))"
    "cy_pending rep = (\<Sum>c\<leftarrow>cs. spent_with Pending (of_customer (cu_id c) xs))"
    "cy_unknown rep = (\<Sum>c\<leftarrow>cs. spent_with PayUnknown (of_customer (cu_id c) xs))"
    "cy_months rep = map (month_summary start stop cs xs) (month_loop stop (first_of_month start))"
    unfolding rep_def customer_report_def Let_def start_def[symmetric] stop_def[symmetric] xs cs_def by (simp_all add: o_def)
  have sub: "set xs \<subseteq> set (ss_txns st)"
    by (auto simp: xs_def reported_sales_def visible_transactions_def split: if_split_asm option.split_asm)
  have dist: "distinct (map cu_id cs)" unfolding cs_def buyers_def
    using assms(1) by (simp add: keys_ok_def distinct_map_filter distinct_map inj_on_def)
  have mem: "tx_customer t \<in> Some ` cu_id ` set cs" if x: "t \<in> set xs" for t
  proof -
    have "tx_customer t \<noteq> None" using x by (simp add: xs_def reported_sales_def)
    then obtain c where c: "tx_customer t = Some c" by blast
    then obtain x where "x \<in> set (ss_customers st)" "cu_id x = c" using assms(2) sub x by blast
    moreover have "Some c \<in> tx_customer ` set xs" using c x by (metis image_eqI)
    ultimately show ?thesis using c by (auto simp: cs_def buyers_def)
  qed
  have rev: "cy_revenue rep = (\<Sum>t\<leftarrow>xs. tx_total t)" unfolding f using by_customer[OF dist mem] .
  have parts: "cy_paid rep + cy_pending rep + cy_unknown rep = cy_revenue rep"
    unfolding f by (simp add: sum_list_addf[symmetric] spent_split)
  have "(\<Sum>m\<leftarrow>cy_months rep. mo_revenue m)
      = (\<Sum>m\<leftarrow>month_loop stop (first_of_month start). \<Sum>t\<leftarrow>filter (\<lambda>t. first_of_month (local_date (tx_created t)) = m) xs. tx_total t)"
    unfolding f using month_summary_revenue[OF dist mem] by (simp add: o_def)
  also have "\<dots> = (\<Sum>m\<in>set (month_loop stop (first_of_month start)). \<Sum>t\<leftarrow>filter (\<lambda>t. first_of_month (local_date (tx_created t)) = m) xs. tx_total t)"
    by (rule sum.distinct_set_conv_list[symmetric, OF month_loop_distinct])
  also have "\<dots> = (\<Sum>t\<leftarrow>xs. tx_total t)"
  proof (rule sum_by_key)
    have "first_of_month start \<le> start" using day_of_range[of start] mk_date_of[of start] by (simp add: first_of_month_def mk_date_def)
    then show "(\<lambda>t. first_of_month (local_date (tx_created t))) ` set xs \<subseteq> set (month_loop stop (first_of_month start))"
      by (auto simp: xs_def reported_sales_def intro!: month_loop_mem first_of_month_fields)
  qed simp
  finally show ?thesis using rev parts unfolding rep_def[symmetric] f(1,2) xs_def[symmetric] by simp
qed

definition demo_customer_sale :: sales_store where
  "demo_customer_sale = snd (case checkout plain_dec_field demo_clock demo_cart 1 (demo_args\<lparr>sg_customer := Some 4\<rparr>)
       (demo_sales\<lparr>ss_customers := [\<lparr>cu_id = 4, cu_name = ''Rosario Coop'', cu_contact = None, cu_email = None, cu_address = None,
          cu_active = True, cu_created_by = 1\<rparr>]\<rparr>) of Inr r \<Rightarrow> r | Inl _ \<Rightarrow> demo_sold)"

lemma customer_report_adds_up_witness:
  "(\<Sum>m\<leftarrow>cy_months (customer_report (\<lambda>_. 0) 700020 \<lparr>sc_staff = False, sc_user = None\<rparr> (Some 699900) None demo_customer_sale). mo_revenue m)
     = cy_revenue (customer_report (\<lambda>_. 0) 700020 \<lparr>sc_staff = False, sc_user = None\<rparr> (Some 699900) None demo_customer_sale) \<and>
   ss_txns demo_customer_sale \<noteq> []"
proof -
  have k: "keys_ok cu_id (ss_customers demo_customer_sale)" by code_simp
  have "list_all (\<lambda>t. tx_customer t = Some 4) (ss_txns demo_customer_sale) \<and> map cu_id (ss_customers demo_customer_sale) = [4]" by code_simp
  then have "tx_customer t = Some 4" "4 \<in> cu_id ` set (ss_customers demo_customer_sale)" if "t \<in> set (ss_txns demo_customer_sale)" for t
    using that by (auto simp: list_all_iff)
  then have r: "\<forall>t \<in> set (ss_txns demo_customer_sale). \<forall>c. tx_customer t = Some c \<longrightarrow> c \<in> cu_id ` set (ss_customers demo_customer_sale)" by auto
  have "ss_txns demo_customer_sale \<noteq> []" by code_simp
  with customer_report_adds_up[OF k r] show ?thesis by blast
qed

end
