(* ===== verification/Stock_Spec.thy ===== *)
theory Stock_Spec
  imports Ledger
begin

text \<open>
  The abstract specification of selling and the proof that checkout implements it. To a customer the
  inventory is a counter per product; selling takes the wanted quantity off it or refuses. The code
  spreads a sale over batches in the order of expiry, line by line in the order of product keys; seen
  through the abstraction \<open>stock_view\<close> it is the counter, in the order of the cart.
\<close>

subsection \<open>The specification\<close>

type_synonym counter = "nat \<Rightarrow> dec"

definition sell :: "nat \<times> dec \<Rightarrow> counter \<Rightarrow> counter option" where
  "sell pq c = (if 0 < snd pq \<and> snd pq \<le> c (fst pq) then Some (c(fst pq := c (fst pq) - snd pq)) else None)"

fun sell_all :: "(nat \<times> dec) list \<Rightarrow> counter \<Rightarrow> counter option" where
  "sell_all [] c = Some c"
| "sell_all (pq # xs) c = (case sell pq c of None \<Rightarrow> None | Some c' \<Rightarrow> sell_all xs c')"

definition stock_view :: "date \<Rightarrow> 'z inv_store_scheme \<Rightarrow> counter" where
  "stock_view today st = (\<lambda>p. sellable today p (st_batches st))"

text \<open>What a list of lines takes of each product.\<close>

definition wanted :: "(nat \<times> dec) list \<Rightarrow> counter" where
  "wanted xs = (\<lambda>p. \<Sum>x\<leftarrow>xs. if fst x = p then snd x else 0)"

lemma wanted_simps [simp]:
  "wanted [] p = 0" "wanted (x # xs) p = (if fst x = p then snd x else 0) + wanted xs p"
  by (simp_all add: wanted_def)

lemma wanted_absent: "p \<notin> fst ` set xs \<Longrightarrow> wanted xs p = 0"
  by (induction xs) auto

text \<open>For distinct products the order of the lines does not matter.\<close>

lemma sell_all_distinct:
  "distinct (map fst xs) \<Longrightarrow>
     sell_all xs c =
       (if \<forall>x \<in> set xs. 0 < snd x \<and> snd x \<le> c (fst x) then Some (\<lambda>p. c p - wanted xs p) else None)"
proof (induction xs arbitrary: c)
  case (Cons x xs)
  let ?c = "c(fst x := c (fst x) - snd x)"
  have same: "?c (fst y) = c (fst y)" if "y \<in> set xs" for y
    using Cons.prems that by (auto simp: image_iff)
  have "(\<lambda>p. ?c p - wanted xs p) = (\<lambda>p. c p - wanted (x # xs) p)"
    by (auto simp: fun_eq_iff)
  moreover have "sell_all xs ?c =
      (if \<forall>y \<in> set xs. 0 < snd y \<and> snd y \<le> c (fst y) then Some (\<lambda>p. ?c p - wanted xs p) else None)"
    using Cons same by simp
  ultimately show ?case by (simp add: sell_def)
qed simp


subsection \<open>Deducting one product\<close>

lemma foldl_save_weight:
  assumes "keys_ok pb_id t" and "distinct (map (pb_id \<circ> fst) xs)"
    and "\<And>b k. (b, k) \<in> set xs \<Longrightarrow> b \<in> set t \<and> (w (fefo_after b k) :: int) = w b - k"
  shows "(\<Sum>b\<leftarrow>foldl (\<lambda>t (b, k). save_batch (fefo_after b k) t) t xs. w b) = (\<Sum>b\<leftarrow>t. w b) - (\<Sum>x\<leftarrow>xs. snd x)"
  using assms
proof (induction xs arbitrary: t)
  case (Cons x xs)
  obtain b k where x: "x = (b, k)" by (cases x)
  let ?t = "save_batch (fefo_after b k) t"
  have b: "b \<in> set t" "w (fefo_after b k) = w b - k" using Cons.prems(3) x by auto
  then have "get_batch t (pb_id (fefo_after b k)) = Some b" using Cons.prems(1) by (simp add: row_get_iff)
  with sum_row_save [OF Cons.prems(1) this, of w] b have "(\<Sum>b\<leftarrow>?t. w b) = (\<Sum>b\<leftarrow>t. w b) - k" by simp
  moreover have "b' \<in> set ?t \<and> w (fefo_after b' k') = w b' - k'" if m: "(b', k') \<in> set xs" for b' k'
  proof -
    have "b' \<in> set t" "w (fefo_after b' k') = w b' - k'" using Cons.prems(3) m by auto
    moreover have "pb_id b' \<noteq> pb_id b" using Cons.prems(2) x m by (force simp: image_iff)
    ultimately show ?thesis
      using Cons.prems batch_rows.rows_nonempty_save [of t b' "fefo_after b k"] by simp
  qed
  ultimately show ?case using Cons x by simp
qed simp

lemma sellable_weight:
  "sellable day p t = (\<Sum>b\<leftarrow>t. if fefo_eligible day p b then pb_remaining b else 0)"
  by (induction t) (simp_all add: sellable_def)

lemma deduct_sellable:
  assumes ok: "stock_ok (st_batches st)" and d: "deduct_product_batch today p q st = Inr (consumed, st')"
  shows "sellable today p (st_batches st') = sellable today p (st_batches st) - q"
proof -
  let ?xs = "fefo_takes (fefo_batches today p (st_batches st)) q"
  let ?w = "\<lambda>b. if fefo_eligible today p b then pb_remaining b else 0"
  have "b \<in> set (st_batches st) \<and> ?w (fefo_after b k) = ?w b - k" if "(b, k) \<in> set ?xs" for b k
    using takes_eligible [OF ok that] by (auto simp: fefo_eligible_def fefo_after_def Let_def)
  then have "sellable today p (st_batches st') = sellable today p (st_batches st) - (\<Sum>x\<leftarrow>?xs. snd x)"
    unfolding sellable_weight deduct_unfold(4) [OF d]
    using ok takes_distinct [OF ok] by (simp add: foldl_save_weight stock_ok_def)
  moreover have "(\<Sum>x\<leftarrow>?xs. snd x) = q"
    using deduct_sum [OF ok d] unfolding deduct_unfold(3) [OF d] by (simp add: case_prod_beta o_def)
  ultimately show ?thesis by simp
qed

text \<open>A deduction is one step of the counter: it succeeds when the counter does, with the same effect.\<close>

lemma deduct_refines_sell:
  assumes "stock_ok (st_batches st)"
  shows "(case deduct_product_batch today p q st of Inl _ \<Rightarrow> None | Inr (_, st') \<Rightarrow> Some (stock_view today st'))
    = sell (p, q) (stock_view today st)"
proof (cases "deduct_product_batch today p q st")
  case (Inl e)
  have "\<not> (0 < q \<and> q \<le> sellable today p (st_batches st))"
    using Inl by (auto simp: deduct_product_batch_def Let_def split: prod.splits if_splits)
  with Inl show ?thesis by (auto simp: sell_def stock_view_def)
next
  case (Inr r)
  obtain consumed st' where r: "r = (consumed, st')" by (cases r)
  note d = Inr [unfolded r]
  have "stock_view today st' = (stock_view today st)(p := stock_view today st p - q)"
    using deduct_sellable [OF assms d] deduct_other_products [OF assms d] by (auto simp: stock_view_def fun_eq_iff)
  with d deduct_unfold(1,2) [OF d] show ?thesis by (simp add: sell_def stock_view_def)
qed


subsection \<open>Selling a cart\<close>

lemma sell_line_view:
  assumes s: "sell_line ck txn st (n, l) = Inr st'" and ok: "stock_ok (st_batches st)"
    and keys: "keys_ok ti_id (ss_items st)" and day: "ck_line ck n = today"
  shows "stock_view today st' = (\<lambda>p. stock_view today st p - (if pi_product l = p then pi_quantity l else 0))"
proof -
  from s obtain consumed st1 where
    d: "deduct_product_batch today (pi_product l) (pi_quantity l) st = Inr (consumed, st1)"
    and loop: "item_loop txn n (pi_unit_price l) 0 0 consumed st1 = Inr st'"
    by (auto simp: sell_line_def day)
  have "st1 = st\<lparr>st_batches := st_batches st1\<rparr>" by (rule deduct_more [OF d])
  then have "ss_items st1 = ss_items st" by (cases st; cases st1) simp
  with item_loop_items [OF loop] keys have "st_batches st' = st_batches st1" by (auto simp: money_def)
  then show ?thesis
    using deduct_sellable [OF ok d] deduct_other_products [OF ok d] by (auto simp: stock_view_def fun_eq_iff)
qed

definition line_want :: "priced_item \<Rightarrow> nat \<times> dec" where
  "line_want l = (pi_product l, pi_quantity l)"

lemma line_want_fields [simp]: "fst (line_want l) = pi_product l" "snd (line_want l) = pi_quantity l"
  by (simp_all add: line_want_def)

lemma sell_lines_view:
  assumes "rfold (sell_line ck txn) st nls = Inr st'" "stock_ok (st_batches st)" "keys_ok ti_id (ss_items st)"
    "\<forall>nl \<in> set nls. priced_ok (snd nl)" "\<And>n. ck_line ck n = today"
  shows "stock_view today st' = (\<lambda>p. stock_view today st p - wanted (map (line_want \<circ> snd) nls) p)"
  using assms
proof (induction nls arbitrary: st)
  case (Cons nl nls)
  obtain n l where nl: "nl = (n, l)" by (cases nl)
  from Cons.prems(1) obtain st1 where s: "sell_line ck txn st nl = Inr st1"
    and r: "rfold (sell_line ck txn) st1 nls = Inr st'" by (cases "sell_line ck txn st nl") auto
  from sell_line_result [OF s] Cons.prems obtain new where fr: "sale_frame st new st1" by auto
  have "stock_view today st' = (\<lambda>p. stock_view today st1 p - wanted (map (line_want \<circ> snd) nls) p)"
    using fr Cons.prems r by (intro Cons.IH) (auto simp: sale_frame_def)
  with sell_line_view [OF s [unfolded nl] Cons.prems(2,3,5)] show ?case
    by (auto simp: nl fun_eq_iff o_def)
qed simp

lemma wanted_sorted: "wanted (map (line_want \<circ> snd) (sorted_lines lines)) = wanted (map line_want lines)"
  using sum_sorted_lines [of "\<lambda>l. if fst (line_want l) = p then snd (line_want l) else 0" lines for p]
  by (simp add: wanted_def o_def)

lemma checkout_view:
  assumes c: "checkout rv ck cart user a st = Inr (t, st')" and rv: "drf_decimal rv" and ok: "books_ok st"
    and l: "price_items rv cart = Inr lines" and day: "\<And>n. ck_line ck n = today"
  shows "stock_view today st' = (\<lambda>p. stock_view today st p - wanted (map line_want lines) p)"
proof -
  from checkout_unfold [OF c] obtain pay where rs: "record_sale ck user a lines pay st = Inr (t, st')"
    using l by (metis sum.inject(2))
  then obtain number st1 where inv: "assign_invoice (year_of (business_date ck a)) (sg_number a) st = Inr (number, st1)"
    by (cases "assign_invoice (year_of (business_date ck a)) (sg_number a) st") (auto simp: record_sale_def)
  let ?t = "new_txn ck user a (\<Sum>l\<leftarrow>lines. pi_subtotal l) pay number st1"
  let ?st = "st1\<lparr>ss_txns := row_ins ?t (ss_txns st1)\<rparr>"
  have same: "st_batches st1 = st_batches st" "ss_items st1 = ss_items st"
    by (subst assign_invoice_frame [OF inv], simp)+
  have "rfold (sell_line ck (tx_id ?t)) ?st (sorted_lines lines) = Inr st'"
    using rs inv by (auto simp: record_sale_def Let_def insert_txn_def split: if_splits)
  from sell_lines_view [OF this _ _ _ day] same ok price_items_ok [OF rv l] priced_sorted_lines [of lines]
  show ?thesis by (simp add: wanted_sorted books_ok_def stock_view_def)
qed

text \<open>
  C4: Checkout refines the stock counter. Once the cart, the payment and the invoice number are accepted,
  a checkout does on the batch tables exactly what the specification does on one number per product: it
  goes through when every wanted quantity is covered, in whatever order the lines are listed, and then
  the sellable stock of each product has fallen by what the cart asked for; otherwise both refuse.
\<close>

theorem checkout_refines_stock_counter:
  assumes "drf_decimal rv" and "books_ok st" and "catalog_ok st" and "invoices_ok st"
    and "sg_method a = PStr ''cash'' \<or> sg_method a = PStr ''online''"
    and "reject_invoice_discount rv (sg_discount_type a) (sg_discount_value a) = Inr ()"
    and "price_items rv cart = Inr lines"
    and "payment_values rv (\<Sum>l\<leftarrow>lines. pi_subtotal l) (method_text (sg_method a)) (sg_status a) (sg_tendered a) = Inr pay"
    and "assign_invoice (year_of (business_date ck a)) (sg_number a) st = Inr (number, st1)"
    and "\<And>p. sg_number a = Some p \<Longrightarrow> strip p \<noteq> [] \<Longrightarrow> strip p = p"
    and "\<And>n. ck_line ck n = today"
  shows "(case checkout rv ck cart user a st of Inl _ \<Rightarrow> None | Inr (_, st') \<Rightarrow> Some (stock_view today st')) =
    sell_all (map (\<lambda>l. (pi_product l, pi_quantity l)) lines) (stock_view today st)"
proof -
  note l = price_items_ok [OF assms(1,7)]
  have w: "map (\<lambda>l. (pi_product l, pi_quantity l)) lines = map line_want lines" by (simp add: line_want_def)
  have "map fst (map line_want lines) = map pi_product lines" by simp
  with l have dist: "distinct (map fst (map line_want lines))" by simp
  have pos: "0 < pi_quantity x" if "x \<in> set lines" for x using l that by (auto simp: list_all_iff priced_ok_def)
  have iff: "(\<exists>t st'. checkout rv ck cart user a st = Inr (t, st')) \<longleftrightarrow>
      (\<forall>x \<in> set (map line_want lines). 0 < snd x \<and> snd x \<le> stock_view today st (fst x))"
  proof -
    have "(\<exists>t st'. checkout rv ck cart user a st = Inr (t, st')) \<longleftrightarrow>
        (\<forall>n < length lines. pi_quantity (lines ! n) \<le> sellable today (pi_product (lines ! n)) (st_batches st))"
      using checkout_stocked_iff [OF assms(1-10), of user] unfolding assms(11) .
    also have "\<dots> \<longleftrightarrow> (\<forall>x \<in> set lines. pi_quantity x \<le> sellable today (pi_product x) (st_batches st))"
      unfolding all_set_conv_all_nth by blast
    finally show ?thesis using pos by (auto simp: stock_view_def)
  qed
  show ?thesis
  proof (cases "checkout rv ck cart user a st")
    case (Inl e)
    with iff show ?thesis unfolding w sell_all_distinct [OF dist] by auto
  next
    case (Inr r)
    obtain t st' where r: "r = (t, st')" by (cases r)
    from checkout_view [OF Inr [unfolded r] assms(1,2,7,11)] iff Inr r show ?thesis
      unfolding w sell_all_distinct [OF dist] by auto
  qed
qed

theorem checkout_refines_stock_counter_witness:
  "(case checkout plain_dec_field demo_clock demo_cart 1 demo_args demo_sales of
      Inl _ \<Rightarrow> None | Inr (_, st') \<Rightarrow> Some (stock_view 700010 st' 1)) = Some 750 \<and>
   stock_view 700010 demo_sales 1 = 1200"
proof -
  let ?l = "\<lparr>pi_product = 1, pi_quantity = 450, pi_unit_price = 3333, pi_subtotal = 14999, pi_total = 14999\<rparr>"
  have lines: "price_items plain_dec_field demo_cart = Inr [?l]" by code_simp
  have disc: "reject_invoice_discount plain_dec_field (sg_discount_type demo_args) (sg_discount_value demo_args) = Inr ()"
    by code_simp
  have pay: "payment_values plain_dec_field (\<Sum>l\<leftarrow>[?l]. pi_subtotal l) (method_text (sg_method demo_args))
      (sg_status demo_args) (sg_tendered demo_args) = Inr (Some 30000, Some 15001)" by code_simp
  have "\<not> (case assign_invoice (year_of (business_date demo_clock demo_args)) (sg_number demo_args) demo_sales of
      Inl _ \<Rightarrow> True | Inr _ \<Rightarrow> False)" by code_simp
  then obtain number st1 where
    inv: "assign_invoice (year_of (business_date demo_clock demo_args)) (sg_number demo_args) demo_sales = Inr (number, st1)"
    by (auto split: sum.splits)
  have cat: "catalog_ok demo_sales" by code_simp
  have ok: "invoices_ok demo_sales" by (simp add: invoices_ok_def demo_sales_def)
  have m: "sg_method demo_args = PStr ''cash'' \<or> sg_method demo_args = PStr ''online''" by (simp add: demo_args_def)
  have clean: "strip p = p" if "sg_number demo_args = Some p" for p using that by (simp add: demo_args_def)
  have day: "ck_line demo_clock n = 700010" for n by (simp add: demo_clock_def)
  have v: "stock_view 700010 demo_sales 1 = 1200" by code_simp
  from checkout_refines_stock_counter [OF plain_dec_field_ok demo_books_ok cat ok m disc lines pay inv _ day, of 1] clean
  have "(case checkout plain_dec_field demo_clock demo_cart 1 demo_args demo_sales of
      Inl _ \<Rightarrow> None | Inr (_, st') \<Rightarrow> Some (stock_view 700010 st'))
      = Some ((stock_view 700010 demo_sales)(1 := 750))"
    using v by (simp add: sell_def)
  then show ?thesis using v by (auto split: sum.splits)
qed

end
