(* ===== verification/Product_Consolidation.thy ===== *)
theory Product_Consolidation
  imports Ledger
begin

text \<open>
  Merging products whose records differ only in the formatting of their label
  (\<^verbatim>\<open>inventory/services/product_consolidation.py\<close>): the plan, and the transaction that moves batches,
  receipt lines and order lines to the oldest product of each group. The management command around it
  (backup file, table locks, audit) is not modelled; its last check, that no duplicates remain, is a
  theorem here.
\<close>

subsection \<open>Groups in the order of first occurrence\<close>

text \<open>A \<^verbatim>\<open>defaultdict(list)\<close> filled in one pass: its values, in the order in which the keys appear.\<close>

function group_by :: "('a \<Rightarrow> 'k) \<Rightarrow> 'a list \<Rightarrow> 'a list list" where
  "group_by k [] = []"
| "group_by k (x # xs) = (x # filter (\<lambda>y. k y = k x) xs) # group_by k (filter (\<lambda>y. k y \<noteq> k x) xs)"
  by pat_completeness auto
termination by (relation "measure (length \<circ> snd)") (auto simp: le_imp_less_Suc)

lemma group_by_groups:
  "g \<in> set (group_by k xs) \<Longrightarrow> \<exists>x \<in> set xs. g = filter (\<lambda>y. k y = k x) xs"
proof (induction k xs rule: group_by.induct)
  case (2 k x xs)
  show ?case
  proof (cases "g = x # filter (\<lambda>y. k y = k x) xs")
    case True then show ?thesis by auto
  next
    case False
    with 2 obtain z where z: "z \<in> set xs" "k z \<noteq> k x" "g = filter (\<lambda>y. k y = k z) (filter (\<lambda>y. k y \<noteq> k x) xs)" by auto
    have "g = filter (\<lambda>y. k y = k z) (x # xs)" using z(2) unfolding z(3) by (auto intro!: filter_cong)
    with z(1) show ?thesis by auto
  qed
qed simp

lemma group_by_all: "x \<in> set xs \<Longrightarrow> filter (\<lambda>y. k y = k x) xs \<in> set (group_by k xs)"
proof (induction k xs rule: group_by.induct)
  case (2 k z xs)
  show ?case
  proof (cases "k x = k z")
    case True then show ?thesis by simp
  next
    case False
    with 2 have "filter (\<lambda>y. k y = k x) (filter (\<lambda>y. k y \<noteq> k z) xs) \<in> set (group_by k (filter (\<lambda>y. k y \<noteq> k z) xs))" by auto
    moreover have "filter (\<lambda>y. k y = k x) (filter (\<lambda>y. k y \<noteq> k z) xs) = filter (\<lambda>y. k y = k x) (z # xs)"
      using False by (auto intro!: filter_cong)
    ultimately show ?thesis by simp
  qed
qed simp

lemma group_by_distinct_keys: "distinct (map (k \<circ> hd) (group_by k xs))"
proof (induction k xs rule: group_by.induct)
  case (2 k x xs)
  have "k (hd g) \<noteq> k x" if g: "g \<in> set (group_by k (filter (\<lambda>y. k y \<noteq> k x) xs))" for g
  proof -
    obtain z where z: "z \<in> set (filter (\<lambda>y. k y \<noteq> k x) xs)" "g = filter (\<lambda>y. k y = k z) (filter (\<lambda>y. k y \<noteq> k x) xs)"
      using group_by_groups[OF g] by blast
    then have "z \<in> set g" by simp
    then have "g \<noteq> []" by auto
    then have "hd g \<in> set g" by simp
    with z show ?thesis by simp
  qed
  then have "k x \<notin> (k \<circ> hd) ` set (group_by k (filter (\<lambda>y. k y \<noteq> k x) xs))" by fastforce
  with 2 show ?case by (simp add: o_def)
qed simp


subsection \<open>The plan\<close>

text \<open>Products with the same \<open>product_key\<close>, the identity that \<open>Stock_Check\<close> checks for new products, form a group.\<close>

definition duplicate_product_groups :: "'z inv_store_scheme \<Rightarrow> product list list" where
  "duplicate_product_groups st =
     filter (\<lambda>g. 1 < length g) (group_by product_key (sort_key pr_id (st_products st)))"

record product_plan =
  pp_keep :: nat
  pp_name :: string
  pp_members :: "(nat \<times> string \<times> nat) list"

definition shortest_name :: "product list \<Rightarrow> string" where
  "shortest_name g = pr_name (hd (sort_key (\<lambda>p. (length (pr_name p), pr_id p)) g))"

definition product_plan_of :: "product list \<Rightarrow> product_plan" where
  "product_plan_of g =
     \<lparr>pp_keep = pr_id (hd g), pp_name = shortest_name g,
      pp_members = map (\<lambda>p. (pr_id p, pr_name p, pr_category p)) g\<rparr>"

definition product_consolidation_plan :: "'z inv_store_scheme \<Rightarrow> product_plan list" where
  "product_consolidation_plan st = map product_plan_of (duplicate_product_groups st)"


subsection \<open>Carrying it out\<close>

definition plan_ids :: "product_plan \<Rightarrow> nat list" where
  "plan_ids plan = map fst (pp_members plan)"

definition plan_removed :: "product_plan \<Rightarrow> nat list" where
  "plan_removed plan = filter (\<lambda>k. k \<noteq> pp_keep plan) (plan_ids plan)"

text \<open>The receipt lines of a group: by the product recorded on the line, else by that of its batch.\<close>

definition line_of_products :: "nat list \<Rightarrow> batch list \<Rightarrow> titem \<Rightarrow> bool" where
  "line_of_products ids bs i =
     (case ti_product_snap i of
        Some p \<Rightarrow> p \<in> set ids
      | None \<Rightarrow> (case get_batch bs (ti_batch i) of Some b \<Rightarrow> pb_product b \<in> set ids | None \<Rightarrow> False))"

text \<open>The two updates of a line: keep the label it was sold under, then take the identity of the keeper.\<close>

definition relabel_line :: "nat \<Rightarrow> string \<Rightarrow> nat \<Rightarrow> string \<Rightarrow> titem \<Rightarrow> titem" where
  "relabel_line keep name cat catname i =
     (let j = (case ti_name_snap i of Some n \<Rightarrow> if ti_label i = [] then i\<lparr>ti_label := n\<rparr> else i | None \<Rightarrow> i)
      in j\<lparr>ti_product_snap := Some keep, ti_name_snap := Some name, ti_cat_snap := Some cat, ti_catname_snap := Some catname\<rparr>)"

text \<open>
  The delete of the other products at the end is refused while a batch or an order line still names one of
  them (both foreign keys are \<^verbatim>\<open>on_delete=PROTECT\<close>).
\<close>

definition merge_products :: "product_plan \<Rightarrow> sales_store \<Rightarrow> ((product_plan \<times> nat \<times> nat) \<times> sales_store) res" where
  "merge_products plan st =
     (case row_get pr_id (st_products st) (pp_keep plan) of
        None \<Rightarrow> Inl (DoesNotExist ''Product'')
      | Some keeper \<Rightarrow>
        (case row_get cat_id (st_categories st) (pr_category keeper) of
           None \<Rightarrow> Inl (DoesNotExist ''Category'')
         | Some c \<Rightarrow>
           let ids = plan_ids plan; removed = plan_removed plan;
               items = map (\<lambda>i. if line_of_products ids (st_batches st) i
                     then relabel_line (pr_id keeper) (pp_name plan) (pr_category keeper) (cat_name c) i else i) (ss_items st);
               batches = map (\<lambda>b. if pb_product b \<in> set removed then b\<lparr>pb_product := pr_id keeper\<rparr> else b) (st_batches st);
               order_items = map (\<lambda>r. if oi_product r \<in> set removed then r\<lparr>oi_product := pr_id keeper\<rparr> else r) (ss_order_items st);
               active = list_ex (\<lambda>p. pr_id p \<in> set ids \<and> pr_active p) (st_products st);
               products = map (\<lambda>p. if pr_id p = pr_id keeper then p\<lparr>pr_name := pp_name plan, pr_active := active\<rparr> else p)
                 (st_products st)
           in if list_ex (\<lambda>b. pb_product b \<in> set removed) batches \<or> list_ex (\<lambda>r. oi_product r \<in> set removed) order_items
              then Inl ProtectedError
              else Inr ((plan, length (filter (\<lambda>b. pb_product b \<in> set removed) (st_batches st)),
                    length (filter (\<lambda>r. oi_product r \<in> set removed) (ss_order_items st))),
                st\<lparr>ss_items := items, st_batches := batches, ss_order_items := order_items,
                   st_products := filter (\<lambda>p. pr_id p \<notin> set removed) products\<rparr>)))"

fun merge_loop :: "product_plan list \<Rightarrow> sales_store \<Rightarrow> ((product_plan \<times> nat \<times> nat) list \<times> sales_store) res" where
  "merge_loop [] st = Inr ([], st)"
| "merge_loop (plan # plans) st =
     rbind (merge_products plan st) (\<lambda>(r, st1). rbind (merge_loop plans st1) (\<lambda>(rs, st2). Inr (r # rs, st2)))"

definition consolidate_products :: "sales_store \<Rightarrow> ((product_plan \<times> nat \<times> nat) list \<times> sales_store) res" where
  "consolidate_products st = merge_loop (product_consolidation_plan st) st"

subsection \<open>What a merge leaves alone\<close>

text \<open>
  A merge rewrites columns row by row: the product of batches and order lines, and the labels and the
  product and category snapshots of receipt lines. Everything else of these rows, and every other table
  except the products, stays.
\<close>

definition same_sale :: "titem \<Rightarrow> titem \<Rightarrow> bool" where
  "same_sale i j \<longleftrightarrow> ti_id j = ti_id i \<and> ti_txn j = ti_txn i \<and> ti_batch j = ti_batch i \<and> ti_line j = ti_line i \<and>
     ti_qty j = ti_qty i \<and> ti_price j = ti_price i \<and> ti_subtotal j = ti_subtotal i \<and> ti_total j = ti_total i"

definition only_relabelled :: "sales_store \<Rightarrow> sales_store \<Rightarrow> bool" where
  "only_relabelled st st' \<longleftrightarrow>
     (\<exists>f g h. (\<forall>b. f b = b\<lparr>pb_product := pb_product (f b)\<rparr>) \<and> (\<forall>i. same_sale i (g i)) \<and>
       st' = st\<lparr>ss_items := map g (ss_items st), st_batches := map f (st_batches st),
                ss_order_items := map h (ss_order_items st), st_products := st_products st'\<rparr>)"

lemma same_sale_refl [simp]: "same_sale i i"
  by (simp add: same_sale_def)

lemma same_sale_trans: "same_sale i j \<Longrightarrow> same_sale j k \<Longrightarrow> same_sale i k"
  by (simp add: same_sale_def)

lemma only_relabelled_trans:
  assumes "only_relabelled st st1" "only_relabelled st1 st2" shows "only_relabelled st st2"
proof -
  from assms(1) obtain f g h where 1: "\<And>b. f b = b\<lparr>pb_product := pb_product (f b)\<rparr>" "\<And>i. same_sale i (g i)"
    "st1 = st\<lparr>ss_items := map g (ss_items st), st_batches := map f (st_batches st),
       ss_order_items := map h (ss_order_items st), st_products := st_products st1\<rparr>" unfolding only_relabelled_def by blast
  from assms(2) obtain f' g' h' where 2: "\<And>b. f' b = b\<lparr>pb_product := pb_product (f' b)\<rparr>" "\<And>i. same_sale i (g' i)"
    "st2 = st1\<lparr>ss_items := map g' (ss_items st1), st_batches := map f' (st_batches st1),
       ss_order_items := map h' (ss_order_items st1), st_products := st_products st2\<rparr>" unfolding only_relabelled_def by blast
  have "(f' \<circ> f) b = b\<lparr>pb_product := pb_product ((f' \<circ> f) b)\<rparr>" for b
    by (subst comp_apply, subst 2(1), subst 1(1)) simp
  moreover have "same_sale i ((g' \<circ> g) i)" for i using same_sale_trans[OF 1(2) 2(2)] by simp
  moreover have tables: "ss_items st1 = map g (ss_items st)" "st_batches st1 = map f (st_batches st)"
    "ss_order_items st1 = map h (ss_order_items st)" by (subst 1(3), simp)+
  have "st2 = st\<lparr>ss_items := map (g' \<circ> g) (ss_items st), st_batches := map (f' \<circ> f) (st_batches st),
       ss_order_items := map (h' \<circ> h) (ss_order_items st), st_products := st_products st2\<rparr>"
    by (subst 2(3), subst 1(3)) (simp add: tables)
  ultimately show ?thesis unfolding only_relabelled_def by blast
qed

lemma only_relabelled_refl: "only_relabelled st st"
  unfolding only_relabelled_def
  by (intro exI[of _ "\<lambda>x. x"]) simp

lemma relabel_same_sale: "same_sale i (relabel_line k n c cn i)"
  by (simp add: same_sale_def relabel_line_def Let_def split: option.split)

lemma merge_products_relabels: "merge_products plan st = Inr (r, st') \<Longrightarrow> only_relabelled st st'"
  unfolding merge_products_def Let_def guard_opt_Inr only_relabelled_def
proof (elim exE conjE, goal_cases)
  case (1 keeper c)
  show ?case
    by (rule exI[of _ "\<lambda>b. if pb_product b \<in> set (plan_removed plan) then b\<lparr>pb_product := pr_id keeper\<rparr> else b"],
        rule exI[of _ "\<lambda>i. if line_of_products (plan_ids plan) (st_batches st) i
            then relabel_line (pr_id keeper) (pp_name plan) (pr_category keeper) (cat_name c) i else i"],
        rule exI[of _ "\<lambda>r. if oi_product r \<in> set (plan_removed plan) then r\<lparr>oi_product := pr_id keeper\<rparr> else r"])
      (use 1(3) in \<open>auto simp: relabel_same_sale split: if_splits\<close>)
qed

lemma merge_loop_relabels: "merge_loop plans st = Inr (rs, st') \<Longrightarrow> only_relabelled st st'"
proof (induction plans arbitrary: st rs)
  case (Cons plan plans)
  then obtain r st1 rs' where "merge_products plan st = Inr (r, st1)" "merge_loop plans st1 = Inr (rs', st')" by auto
  from only_relabelled_trans[OF merge_products_relabels[OF this(1)] Cons.IH[OF this(2)]] show ?case .
qed (simp add: only_relabelled_refl)

text \<open>Renaming columns that the books do not mention keeps the books.\<close>

lemma row_get_map: "(\<And>x. key (f x) = key x) \<Longrightarrow> row_get key (map f t) k = map_option f (row_get key t k)"
  by (induction t) (auto simp: row_get_def)

lemma keys_ok_map: "(\<And>x. key (f x) = key x) \<Longrightarrow> keys_ok key (map f t) = keys_ok key t"
  by (simp add: keys_ok_def o_def)

lemma relabelled_ledger:
  assumes r: "only_relabelled st st'" and ok: "ledger_ok st"
  shows "ledger_ok st' \<and> (\<forall>i. remaining_of i (st_batches st') = remaining_of i (st_batches st)) \<and>
    (\<forall>i. sold_from i (ss_items st') = sold_from i (ss_items st)) \<and> ss_txns st' = ss_txns st"
proof -
  from r obtain f g h where f: "\<And>b. f b = b\<lparr>pb_product := pb_product (f b)\<rparr>" and g: "\<And>i. same_sale i (g i)"
    and st': "st' = st\<lparr>ss_items := map g (ss_items st), st_batches := map f (st_batches st),
       ss_order_items := map h (ss_order_items st), st_products := st_products st'\<rparr>" unfolding only_relabelled_def by blast
  have fs: "pb_id (f b) = pb_id b" "pb_remaining (f b) = pb_remaining b" "pb_initial (f b) = pb_initial b"
    "pb_status (f b) = pb_status b" for b by (subst f, simp)+
  have gs: "ti_id (g i) = ti_id i" "ti_txn (g i) = ti_txn i" "ti_batch (g i) = ti_batch i" "ti_qty (g i) = ti_qty i" for i
    using g[of i] by (simp_all add: same_sale_def)
  have t: "ss_items st' = map g (ss_items st)" "st_batches st' = map f (st_batches st)" "ss_txns st' = ss_txns st"
    "st_adjustments st' = st_adjustments st" "ss_returns st' = ss_returns st" by (subst st', simp)+
  have rem: "remaining_of i (st_batches st') = remaining_of i (st_batches st)" for i
    by (simp add: remaining_of_def t row_get_map fs option.case_eq_if option.map_sel)
  have ini: "initial_of i (st_batches st') = initial_of i (st_batches st)" for i
    by (simp add: initial_of_def t row_get_map fs option.case_eq_if option.map_sel)
  have sold: "sold_from i (ss_items st') = sold_from i (ss_items st)" for i
    by (simp add: sold_from_def t o_def gs cong: if_cong)
  have "map_option ti_batch \<circ> map_option g = map_option ti_batch" by (simp add: option.map_comp o_def gs fun_eq_iff)
  then have ret: "returned_to i (ss_items st') rs = returned_to i (ss_items st) rs" for i rs
    by (simp add: returned_to_def item_batch_def t row_get_map gs option.map_comp o_def)
  have books: "books_ok st'"
    using ok by (simp add: ledger_ok_def books_ok_def stock_ok_def batch_ok_def t keys_ok_map fs gs)
  have ids: "pb_id ` set (st_batches st') = pb_id ` set (st_batches st)" "ti_id ` set (ss_items st') = ti_id ` set (ss_items st)"
    by (simp_all add: t image_image fs gs)
  have "refs_ok st'" using ok unfolding ledger_ok_def refs_ok_def ids t by (simp add: gs image_image fs)
  moreover have "balanced st'" using ok unfolding ledger_ok_def balanced_def rem ini sold ret ids unfolding t by simp
  ultimately show ?thesis using books rem sold t by (simp add: ledger_ok_def)
qed

subsection \<open>What becomes of the products\<close>

definition like_product :: "product \<Rightarrow> product \<Rightarrow> bool" where
  "like_product p q \<longleftrightarrow> pr_id q = pr_id p \<and> product_key q = product_key p \<and> pr_category q = pr_category p"

text \<open>The rows with keys in \<open>R\<close> are gone; each other one has a successor with its key, and there are no others.\<close>

definition products_without :: "nat set \<Rightarrow> product list \<Rightarrow> product list \<Rightarrow> bool" where
  "products_without R t t' \<longleftrightarrow> (keys_ok pr_id t \<longrightarrow> keys_ok pr_id t') \<and>
     (\<forall>q \<in> set t'. pr_id q \<notin> R \<and> (\<exists>p \<in> set t. like_product p q)) \<and>
     (\<forall>p \<in> set t. pr_id p \<notin> R \<longrightarrow> (\<exists>q \<in> set t'. like_product p q))"

lemma products_without_trans:
  assumes 1: "products_without R t t1" and 2: "products_without S t1 t2"
  shows "products_without (R \<union> S) t t2"
proof -
  have tr: "like_product p q \<Longrightarrow> like_product q r \<Longrightarrow> like_product p r" for p q r by (simp add: like_product_def)
  have "pr_id q \<notin> R \<union> S \<and> (\<exists>p \<in> set t. like_product p q)" if q: "q \<in> set t2" for q
  proof -
    obtain r where r: "r \<in> set t1" "like_product r q" using 2 q by (auto simp: products_without_def)
    obtain p where p: "p \<in> set t" "like_product p r" using 1 r(1) by (auto simp: products_without_def)
    have "pr_id r \<notin> R" "pr_id q \<notin> S" "pr_id q = pr_id r"
      using 1 2 q r by (auto simp: products_without_def like_product_def)
    with tr[OF p(2) r(2)] p(1) show ?thesis by auto
  qed
  moreover have "\<exists>q \<in> set t2. like_product p q" if p: "p \<in> set t" "pr_id p \<notin> R \<union> S" for p
  proof -
    obtain r where r: "r \<in> set t1" "like_product p r" using 1 p by (auto simp: products_without_def)
    then have "pr_id r \<notin> S" using p(2) by (simp add: like_product_def)
    then obtain q where "q \<in> set t2" "like_product r q" using 2 r(1) by (auto simp: products_without_def)
    with tr r(2) show ?thesis by blast
  qed
  ultimately show ?thesis using 1 2 by (simp add: products_without_def)
qed

text \<open>A plan fits the product table: its keeper is one of its members, and its name has the keeper's key.\<close>

definition plan_fits :: "product_plan \<Rightarrow> product list \<Rightarrow> bool" where
  "plan_fits plan t \<longleftrightarrow> pp_keep plan \<in> set (plan_ids plan) \<and>
     (\<forall>p \<in> set t. pr_id p = pp_keep plan \<longrightarrow> product_name_key (pp_name plan) = product_name_key (pr_name p))"

lemma plan_fits_without: "plan_fits plan t \<Longrightarrow> products_without R t t' \<Longrightarrow> plan_fits plan t'"
  unfolding plan_fits_def products_without_def like_product_def product_key_def by fastforce

lemma merge_products_result:
  assumes m: "merge_products plan st = Inr (r, st')" and fits: "plan_fits plan (st_products st)"
  shows "products_without (set (plan_removed plan)) (st_products st) (st_products st') \<and>
    st_categories st' = st_categories st \<and>
    st_batches st' = map (\<lambda>b. b\<lparr>pb_product := if pb_product b \<in> set (plan_removed plan) then pp_keep plan else pb_product b\<rparr>) (st_batches st) \<and>
    map oi_product (ss_order_items st') = map (\<lambda>r. if oi_product r \<in> set (plan_removed plan) then pp_keep plan else oi_product r) (ss_order_items st)"
proof -
  obtain keeper c where k: "row_get pr_id (st_products st) (pp_keep plan) = Some keeper"
    and c: "row_get cat_id (st_categories st) (pr_category keeper) = Some c"
    using m unfolding merge_products_def guard_opt_Inr by blast
  have id: "pr_id keeper = pp_keep plan" using row_get_Some[OF k] by simp
  define f :: "product \<Rightarrow> product" where "f p = (if pr_id p = pp_keep plan then p\<lparr>pr_name := pp_name plan,
      pr_active := list_ex (\<lambda>p. pr_id p \<in> set (plan_ids plan) \<and> pr_active p) (st_products st)\<rparr> else p)" for p
  have t: "st_products st' = filter (\<lambda>p. pr_id p \<notin> set (plan_removed plan)) (map f (st_products st))"
    "st_categories st' = st_categories st"
    "st_batches st' = map (\<lambda>b. if pb_product b \<in> set (plan_removed plan) then b\<lparr>pb_product := pp_keep plan\<rparr> else b) (st_batches st)"
    "ss_order_items st' = map (\<lambda>r. if oi_product r \<in> set (plan_removed plan) then r\<lparr>oi_product := pp_keep plan\<rparr> else r) (ss_order_items st)"
    using m k c unfolding merge_products_def by (auto simp: Let_def id f_def[abs_def] split: if_splits)
  have fid: "pr_id (f p) = pr_id p" for p by (simp add: f_def)
  have like: "like_product p (f p)" if "p \<in> set (st_products st)" for p
    using fits that by (auto simp: like_product_def f_def plan_fits_def product_key_def)
  have "keys_ok pr_id (st_products st')" if "keys_ok pr_id (st_products st)"
    using that unfolding t(1) keys_ok_def by (simp add: distinct_map_filter o_def fid)
  then have "products_without (set (plan_removed plan)) (st_products st) (st_products st')"
    using like unfolding products_without_def t(1) by (auto simp: fid)
  moreover have "(\<lambda>b. if pb_product b \<in> set (plan_removed plan) then b\<lparr>pb_product := pp_keep plan\<rparr> else b)
      = (\<lambda>b. b\<lparr>pb_product := if pb_product b \<in> set (plan_removed plan) then pp_keep plan else pb_product b\<rparr>)" by (intro ext) simp
  ultimately show ?thesis using t by simp
qed

text \<open>Where a plan list sends a product key.\<close>

definition owner :: "product_plan list \<Rightarrow> nat \<Rightarrow> nat" where
  "owner plans k = foldl (\<lambda>k plan. if k \<in> set (plan_removed plan) then pp_keep plan else k) k plans"

lemma owner_simps [simp]:
  "owner [] k = k" "owner (plan # plans) k = owner plans (if k \<in> set (plan_removed plan) then pp_keep plan else k)"
  by (simp_all add: owner_def)

definition removed_by :: "product_plan list \<Rightarrow> nat set" where
  "removed_by plans = (\<Union>plan \<in> set plans. set (plan_removed plan))"

text \<open>Plans that share no member.\<close>

definition plans_apart :: "product_plan list \<Rightarrow> bool" where
  "plans_apart plans \<longleftrightarrow> sorted_wrt (\<lambda>p q. set (plan_ids p) \<inter> set (plan_ids q) = {}) plans \<and>
     (\<forall>p \<in> set plans. pp_keep p \<in> set (plan_ids p) \<and> distinct (plan_ids p))"

lemma removed_sub: "set (plan_removed plan) = set (plan_ids plan) - {pp_keep plan}"
  by (auto simp: plan_removed_def)

lemma owner_outside: "(\<And>plan. plan \<in> set plans \<Longrightarrow> k \<notin> set (plan_removed plan)) \<Longrightarrow> owner plans k = k"
  by (induction plans) auto

lemma owner_member:
  "plans_apart plans \<Longrightarrow> plan \<in> set plans \<Longrightarrow> k \<in> set (plan_ids plan) \<Longrightarrow> owner plans k = pp_keep plan"
proof (induction plans arbitrary: k)
  case (Cons p ps)
  have apart: "plans_apart ps" using Cons.prems(1) by (simp add: plans_apart_def)
  show ?case
  proof (cases "plan = p")
    case True
    have "owner ps (pp_keep p) = pp_keep p"
      using Cons.prems(1) by (intro owner_outside) (auto simp: plans_apart_def removed_sub)
    then show ?thesis using Cons.prems(3) True by (auto simp: removed_sub)
  next
    case False
    with Cons.prems have "plan \<in> set ps" "k \<notin> set (plan_ids p)" by (auto simp: plans_apart_def)
    with Cons.IH[OF apart _ Cons.prems(3)] show ?thesis by (auto simp: removed_sub)
  qed
qed simp

lemma plans_apart_eq:
  assumes "plans_apart plans" "p \<in> set plans" "q \<in> set plans" "k \<in> set (plan_ids p)" "k \<in> set (plan_ids q)"
  shows "p = q"
  using assms by (induction plans) (auto simp: plans_apart_def)

lemma owner_keep:
  assumes a: "plans_apart plans" and p: "plan \<in> set plans"
  shows "owner plans k = pp_keep plan \<longleftrightarrow> k \<in> set (plan_ids plan)"
proof
  assume o: "owner plans k = pp_keep plan"
  have keep: "pp_keep q \<in> set (plan_ids q)" if "q \<in> set plans" for q using a that by (simp add: plans_apart_def)
  show "k \<in> set (plan_ids plan)"
  proof (cases "\<exists>q \<in> set plans. k \<in> set (plan_ids q)")
    case True
    then obtain q where q: "q \<in> set plans" "k \<in> set (plan_ids q)" by blast
    with owner_member[OF a q] o have "pp_keep q = pp_keep plan" by simp
    with plans_apart_eq[OF a q(1) p keep[OF q(1)]] keep[OF p] q show ?thesis by simp
  next
    case False
    then have "owner plans k = k" by (intro owner_outside) (auto simp: removed_sub)
    with o keep[OF p] show ?thesis by simp
  qed
qed (rule owner_member[OF a p])

lemma keep_not_removed:
  assumes "plans_apart plans" "plan \<in> set plans" shows "pp_keep plan \<notin> removed_by plans"
proof
  assume "pp_keep plan \<in> removed_by plans"
  then obtain q where q: "q \<in> set plans" "pp_keep plan \<in> set (plan_removed q)" by (auto simp: removed_by_def)
  have "pp_keep plan \<in> set (plan_ids plan)" using assms by (simp add: plans_apart_def)
  with plans_apart_eq[OF assms(1,2) q(1)] q(2) have "plan = q" by (auto simp: removed_sub)
  with q(2) show False by (simp add: removed_sub)
qed

lemma owner_not_removed: "plans_apart plans \<Longrightarrow> owner plans k \<notin> removed_by plans"
proof (cases "\<exists>q \<in> set plans. k \<in> set (plan_ids q)")
  case True
  moreover assume "plans_apart plans"
  ultimately show ?thesis using owner_member keep_not_removed by metis
next
  case False
  then have "owner plans k = k" by (intro owner_outside) (auto simp: removed_sub)
  with False show ?thesis by (auto simp: removed_by_def removed_sub)
qed

lemma merge_products_succeeds:
  assumes "pp_keep plan \<in> pr_id ` set (st_products st)"
    and "\<forall>p \<in> set (st_products st). row_get cat_id (st_categories st) (pr_category p) \<noteq> None"
  shows "\<exists>r st'. merge_products plan st = Inr (r, st')"
proof -
  have "row_get pr_id (st_products st) (pp_keep plan) \<noteq> None" using assms(1) by (simp add: row_get_None)
  then obtain keeper where k: "row_get pr_id (st_products st) (pp_keep plan) = Some keeper" by blast
  then obtain c where "row_get cat_id (st_categories st) (pr_category keeper) = Some c" using row_get_Some[OF k] assms(2) by blast
  moreover have "pr_id keeper \<notin> set (plan_removed plan)" using row_get_Some[OF k] by (simp add: removed_sub)
  then have "\<not> list_ex (\<lambda>b. pb_product b \<in> set (plan_removed plan))
      (map (\<lambda>b. if pb_product b \<in> set (plan_removed plan) then b\<lparr>pb_product := pr_id keeper\<rparr> else b) (st_batches st))"
    "\<not> list_ex (\<lambda>r. oi_product r \<in> set (plan_removed plan))
      (map (\<lambda>r. if oi_product r \<in> set (plan_removed plan) then r\<lparr>oi_product := pr_id keeper\<rparr> else r) (ss_order_items st))"
    by (auto simp: list_ex_iff)
  ultimately show ?thesis using k by (simp add: merge_products_def Let_def)
qed

lemma merge_loop_result:
  assumes "plans_apart plans" "\<forall>plan \<in> set plans. plan_fits plan (st_products st) \<and> pp_keep plan \<in> pr_id ` set (st_products st)"
    "\<forall>p \<in> set (st_products st). row_get cat_id (st_categories st) (pr_category p) \<noteq> None"
  shows "\<exists>rs st'. merge_loop plans st = Inr (rs, st') \<and> products_without (removed_by plans) (st_products st) (st_products st') \<and>
    st_categories st' = st_categories st \<and>
    st_batches st' = map (\<lambda>b. b\<lparr>pb_product := owner plans (pb_product b)\<rparr>) (st_batches st) \<and>
    map oi_product (ss_order_items st') = map (owner plans) (map oi_product (ss_order_items st))"
  using assms
proof (induction plans arbitrary: st)
  case Nil
  have "like_product p p" for p by (simp add: like_product_def)
  then show ?case by (auto simp: products_without_def removed_by_def)
next
  case (Cons plan plans)
  obtain r st1 where m: "merge_products plan st = Inr (r, st1)"
    using merge_products_succeeds[of plan st] Cons.prems(2,3) by auto
  have fits: "plan_fits plan (st_products st)" using Cons.prems(2) by simp
  note w = merge_products_result[OF m fits]
  have apart: "plans_apart plans" using Cons.prems(1) by (simp add: plans_apart_def)
  have "plan_fits p (st_products st1) \<and> pp_keep p \<in> pr_id ` set (st_products st1)" if p: "p \<in> set plans" for p
  proof
    show "plan_fits p (st_products st1)" using plan_fits_without Cons.prems(2) w p by auto
    have "pp_keep p \<notin> set (plan_removed plan)" using Cons.prems(1) p by (auto simp: plans_apart_def removed_sub)
    moreover obtain x where "x \<in> set (st_products st)" "pr_id x = pp_keep p" using Cons.prems(2) p by auto
    ultimately show "pp_keep p \<in> pr_id ` set (st_products st1)"
      using w unfolding products_without_def like_product_def by (metis image_eqI)
  qed
  moreover have "row_get cat_id (st_categories st1) (pr_category q) \<noteq> None" if q: "q \<in> set (st_products st1)" for q
  proof -
    obtain p where "p \<in> set (st_products st)" "like_product p q" using w q by (auto simp: products_without_def)
    with Cons.prems(3) w show ?thesis by (simp add: like_product_def)
  qed
  ultimately obtain rs st' where l: "merge_loop plans st1 = Inr (rs, st')"
    "products_without (removed_by plans) (st_products st1) (st_products st')" "st_categories st' = st_categories st1"
    "st_batches st' = map (\<lambda>b. b\<lparr>pb_product := owner plans (pb_product b)\<rparr>) (st_batches st1)"
    "map oi_product (ss_order_items st') = map (owner plans) (map oi_product (ss_order_items st1))"
    using Cons.IH[OF apart, of st1] by blast
  have "removed_by (plan # plans) = set (plan_removed plan) \<union> removed_by plans" by (simp add: removed_by_def)
  with products_without_trans[OF conjunct1[OF w] l(2)]
  have "products_without (removed_by (plan # plans)) (st_products st) (st_products st')" by simp
  moreover have "st_batches st' = map (\<lambda>b. b\<lparr>pb_product := owner (plan # plans) (pb_product b)\<rparr>) (st_batches st)"
    using w l(4) by simp
  moreover have "map oi_product (ss_order_items st') = map (owner (plan # plans)) (map oi_product (ss_order_items st))"
    unfolding l(5) using w by (simp add: o_def)
  ultimately show ?case using m l(1,3) w by (intro exI[of _ "r # rs"] exI[of _ st']) simp
qed


subsection \<open>The plan of a store\<close>

lemma distinct_apart:
  assumes "distinct (map key gs)" "\<And>g h. g \<in> set gs \<Longrightarrow> h \<in> set gs \<Longrightarrow> key g \<noteq> key h \<Longrightarrow> R g h"
  shows "sorted_wrt R gs"
  using assms by (induction gs) (auto simp: image_iff)

lemma shortest_member: "g \<noteq> [] \<Longrightarrow> \<exists>p \<in> set g. shortest_name g = pr_name p"
proof -
  assume g: "g \<noteq> []"
  let ?s = "sort_key (\<lambda>p. (length (pr_name p), pr_id p)) g"
  have "length ?s = length g" by (rule length_sort)
  then have "?s \<noteq> []" using g by (metis length_0_conv)
  then have "hd ?s \<in> set ?s" by (rule hd_in_set)
  then show ?thesis by (auto simp: shortest_name_def)
qed

lemma group_facts:
  assumes g: "g \<in> set (duplicate_product_groups st)"
  shows "set g \<subseteq> set (st_products st)" "g \<noteq> []" "p \<in> set g \<Longrightarrow> q \<in> set (st_products st) \<Longrightarrow> q \<in> set g \<longleftrightarrow> product_key q = product_key p"
proof -
  obtain x where x: "g = filter (\<lambda>y. product_key y = product_key x) (sort_key pr_id (st_products st))" "1 < length g"
    using g group_by_groups by (fastforce simp: duplicate_product_groups_def)
  show "set g \<subseteq> set (st_products st)" "g \<noteq> []" using x by auto
  show "p \<in> set g \<Longrightarrow> q \<in> set (st_products st) \<Longrightarrow> q \<in> set g \<longleftrightarrow> product_key q = product_key p" by (auto simp: x(1))
qed

lemma plan_fields:
  "plan_ids (product_plan_of g) = map pr_id g" "pp_keep (product_plan_of g) = pr_id (hd g)" "pp_name (product_plan_of g) = shortest_name g"
  by (simp_all add: product_plan_of_def plan_ids_def o_def)

lemma same_id: "keys_ok pr_id t \<Longrightarrow> p \<in> set t \<Longrightarrow> q \<in> set t \<Longrightarrow> pr_id p = pr_id q \<Longrightarrow> p = q"
  by (metis row_get_iff option.inject)

lemma plan_apart:
  assumes k: "keys_ok pr_id (st_products st)" shows "plans_apart (product_consolidation_plan st)"
proof -
  let ?gs = "duplicate_product_groups st"
  have dist: "distinct (map (product_key \<circ> hd) ?gs)"
    unfolding duplicate_product_groups_def by (intro distinct_map_filter group_by_distinct_keys)
  have "set (plan_ids (product_plan_of g)) \<inter> set (plan_ids (product_plan_of h)) = {}"
    if gh: "g \<in> set ?gs" "h \<in> set ?gs" "(product_key \<circ> hd) g \<noteq> (product_key \<circ> hd) h" for g h
  proof -
    have "pr_id p \<noteq> pr_id q" if pq: "p \<in> set g" "q \<in> set h" for p q
    proof
      assume "pr_id p = pr_id q"
      then have "p = q" using same_id[OF k] group_facts(1) gh pq by blast
      moreover have "product_key (hd g) = product_key p" "product_key (hd h) = product_key q"
        using group_facts(3)[OF gh(1) pq(1), of "hd g"] group_facts(3)[OF gh(2) pq(2), of "hd h"]
        group_facts(1,2)[OF gh(1)] group_facts(1,2)[OF gh(2)] by (metis list.set_sel(1) subsetD)+
      ultimately show False using gh(3) by simp
    qed
    then show ?thesis by (auto simp: plan_fields)
  qed
  from distinct_apart[OF dist this] have "sorted_wrt (\<lambda>p q. set (plan_ids p) \<inter> set (plan_ids q) = {}) (product_consolidation_plan st)"
    by (simp add: product_consolidation_plan_def sorted_wrt_map)
  moreover have "distinct (map pr_id g)" if g: "g \<in> set ?gs" for g
  proof -
    obtain x where "g = filter (\<lambda>y. product_key y = product_key x) (sort_key pr_id (st_products st))"
      using g group_by_groups by (fastforce simp: duplicate_product_groups_def)
    moreover have "distinct (map pr_id (sort_key pr_id (st_products st)))"
      using k unfolding keys_ok_def by (metis mset_map mset_sort mset_eq_imp_distinct_iff)
    ultimately show ?thesis by (simp add: distinct_map_filter)
  qed
  ultimately show ?thesis
    using group_facts(2) by (auto simp: plans_apart_def product_consolidation_plan_def plan_fields intro!: imageI hd_in_set)
qed

lemma plan_of_store:
  assumes k: "keys_ok pr_id (st_products st)" and p: "plan \<in> set (product_consolidation_plan st)"
  shows "plan_fits plan (st_products st)" "pp_keep plan \<in> pr_id ` set (st_products st)"
proof -
  obtain g where g: "g \<in> set (duplicate_product_groups st)" "plan = product_plan_of g"
    using p by (auto simp: product_consolidation_plan_def)
  note f = group_facts[OF g(1)]
  have h: "hd g \<in> set (st_products st)" "hd g \<in> set g" using f(1,2) by auto
  show "pp_keep plan \<in> pr_id ` set (st_products st)" using h by (simp add: g plan_fields)
  obtain s where s: "s \<in> set g" "shortest_name g = pr_name s" using shortest_member[OF f(2)] by blast
  have "product_name_key (pr_name s) = product_name_key (pr_name x)" if x: "x \<in> set (st_products st)" "pr_id x = pr_id (hd g)" for x
  proof -
    have "x = hd g" using same_id[OF k x(1) h(1) x(2)] .
    then have "product_key s = product_key x" using f(3)[OF h(2), of s] s(1) f(1) by auto
    then show ?thesis by (simp add: product_key_def)
  qed
  then show "plan_fits plan (st_products st)" using h s by (auto simp: plan_fits_def g plan_fields)
qed

text \<open>After the merges no two products have the same key.\<close>

lemma no_duplicates_left:
  assumes k: "keys_ok pr_id (st_products st)"
    and w: "products_without (removed_by (product_consolidation_plan st)) (st_products st) (st_products st')"
  shows "product_consolidation_plan st' = []"
proof -
  have k': "keys_ok pr_id (st_products st')" using w k by (simp add: products_without_def)
  have "\<not> 1 < length g" if g: "g \<in> set (group_by product_key (sort_key pr_id (st_products st')))" for g
  proof
    assume l: "1 < length g"
    have g': "g \<in> set (duplicate_product_groups st')" using g l by (simp add: duplicate_product_groups_def)
    obtain a b rest where ab: "g = a # b # rest" using l by (cases g; cases "tl g") auto
    have "product_plan_of g \<in> set (product_consolidation_plan st')" using g' by (simp add: product_consolidation_plan_def)
    with plan_apart[OF k'] have "distinct (map pr_id g)" by (auto simp: plans_apart_def plan_fields)
    then have ne: "pr_id a \<noteq> pr_id b" by (simp add: ab)
    have in': "a \<in> set (st_products st')" "b \<in> set (st_products st')" using group_facts(1)[OF g'] by (auto simp: ab)
    have key: "product_key a = product_key b" using group_facts(3)[OF g', of b a] in' by (simp add: ab)
    obtain p q where p: "p \<in> set (st_products st)" "like_product p a" and q: "q \<in> set (st_products st)" "like_product q b"
      using w in' unfolding products_without_def by meson
    let ?h = "filter (\<lambda>y. product_key y = product_key p) (sort_key pr_id (st_products st))"
    have pq: "p \<in> set ?h" "q \<in> set ?h" "p \<noteq> q" using p q key ne by (auto simp: like_product_def)
    then have "1 < length ?h" by (cases ?h; cases "tl ?h") auto
    moreover have "?h \<in> set (group_by product_key (sort_key pr_id (st_products st)))" by (rule group_by_all) (simp add: p(1))
    ultimately have plan: "product_plan_of ?h \<in> set (product_consolidation_plan st)"
      by (simp add: product_consolidation_plan_def duplicate_product_groups_def)
    have "pr_id a \<noteq> pp_keep (product_plan_of ?h) \<or> pr_id b \<noteq> pp_keep (product_plan_of ?h)" using ne by auto
    moreover have "pr_id a \<in> set (plan_ids (product_plan_of ?h))" "pr_id b \<in> set (plan_ids (product_plan_of ?h))"
      using pq(1,2) p(2) q(2) unfolding plan_fields set_map like_product_def by (metis imageI)+
    ultimately have "pr_id a \<in> removed_by (product_consolidation_plan st) \<or> pr_id b \<in> removed_by (product_consolidation_plan st)"
      using plan by (auto simp: removed_by_def removed_sub)
    then show False using w in' by (auto simp: products_without_def)
  qed
  then show ?thesis by (simp add: product_consolidation_plan_def duplicate_product_groups_def filter_empty_conv)
qed

subsection \<open>Properties\<close>

lemma sum_distinct_keys:
  "distinct ks \<Longrightarrow> (\<Sum>x\<leftarrow>xs. if P x \<and> key x \<in> set ks then f x else 0) = (\<Sum>k\<leftarrow>ks. \<Sum>x\<leftarrow>xs. if P x \<and> key x = k then (f x :: int) else 0)"
proof (induction xs)
  case (Cons x xs)
  have "(\<Sum>k\<leftarrow>ks. if P x \<and> key x = k then f x else 0) = (if P x \<and> key x \<in> set ks then f x else 0)"
    using Cons.prems by (induction ks) auto
  with Cons show ?case by (simp add: sum_list_addf)
qed simp

lemma sellable_moved:
  assumes "plans_apart plans" "plan \<in> set plans"
  shows "sellable today (pp_keep plan) (map (\<lambda>b. b\<lparr>pb_product := owner plans (pb_product b)\<rparr>) t) =
    (\<Sum>k\<leftarrow>plan_ids plan. sellable today k t)"
proof -
  let ?P = "\<lambda>b. pb_status b = Available \<and> today \<le> pb_expiration b \<and> pb_received b \<le> today"
  have s: "sellable today k u = (\<Sum>b\<leftarrow>u. if ?P b \<and> pb_product b = k then pb_remaining b else 0)" for k u
    by (induction u) (auto simp: sellable_def fefo_eligible_def)
  have "distinct (plan_ids plan)" using assms by (simp add: plans_apart_def)
  from sum_distinct_keys[OF this, of ?P pb_product pb_remaining t] show ?thesis
    unfolding s by (simp add: o_def owner_keep[OF assms] cong: if_cong)
qed

text \<open>
  C21: Merging duplicate products is bookkeeping only. Whatever it merges, the inventory ledger still
  balances, no batch gains or loses stock, and every receipt and every sold quantity is what it was.
\<close>

theorem consolidation_keeps_books:
  assumes "ledger_ok st" "consolidate_products st = Inr (rs, st')"
  shows "ledger_ok st' \<and> (\<forall>i. remaining_of i (st_batches st') = remaining_of i (st_batches st)) \<and>
    (\<forall>i. sold_from i (ss_items st') = sold_from i (ss_items st)) \<and> ss_txns st' = ss_txns st"
  using relabelled_ledger[OF merge_loop_relabels assms(1)] assms(2) by (simp add: consolidate_products_def)

text \<open>
  C20: Merging duplicate products always goes through on an intact catalogue: nothing refers to the removed
  products any more when they are deleted, neither a batch nor an order line. It leaves no duplicates (the
  check after which the command would roll back) and no batch without its product, sends every order line of
  a group to the kept product and no other one there, and offers under the kept product exactly the
  sellable stock of all products of its group.
\<close>

theorem consolidation_leaves_no_duplicates:
  assumes "keys_ok pr_id (st_products st)" "catalog_ok st"
  shows "\<exists>rs st'. consolidate_products st = Inr (rs, st') \<and> product_consolidation_plan st' = [] \<and> catalog_ok st' \<and>
    (\<forall>plan \<in> set (product_consolidation_plan st). \<forall>today.
       sellable today (pp_keep plan) (st_batches st') = (\<Sum>k\<leftarrow>plan_ids plan. sellable today k (st_batches st))) \<and>
    length (ss_order_items st') = length (ss_order_items st) \<and>
    (\<forall>n < length (ss_order_items st). \<forall>plan \<in> set (product_consolidation_plan st).
       oi_product (ss_order_items st' ! n) = pp_keep plan \<longleftrightarrow> oi_product (ss_order_items st ! n) \<in> set (plan_ids plan))"
proof -
  let ?plans = "product_consolidation_plan st"
  note apart = plan_apart[OF assms(1)]
  have cats: "\<forall>p \<in> set (st_products st). row_get cat_id (st_categories st) (pr_category p) \<noteq> None"
    using assms(2) by (simp add: catalog_ok_def)
  obtain rs st' where l: "merge_loop ?plans st = Inr (rs, st')"
    and w: "products_without (removed_by ?plans) (st_products st) (st_products st')"
    and c: "st_categories st' = st_categories st"
    and b: "st_batches st' = map (\<lambda>b. b\<lparr>pb_product := owner ?plans (pb_product b)\<rparr>) (st_batches st)"
    and orders: "map oi_product (ss_order_items st') = map (owner ?plans) (map oi_product (ss_order_items st))"
    using merge_loop_result[OF apart _ cats] plan_of_store[OF assms(1)] by blast
  have there: "k \<in> pr_id ` set (st_products st')" if "k \<in> pr_id ` set (st_products st)" "k \<notin> removed_by ?plans" for k
  proof -
    from that obtain p where "p \<in> set (st_products st)" "pr_id p = k" by auto
    with w that(2) obtain q where "q \<in> set (st_products st')" "like_product p q" unfolding products_without_def by blast
    with \<open>pr_id p = k\<close> have "pr_id q = k" "q \<in> set (st_products st')" by (simp_all add: like_product_def)
    then show ?thesis by blast
  qed
  have "row_get pr_id (st_products st') (owner ?plans (pb_product x)) \<noteq> None" if x: "x \<in> set (st_batches st)" for x
  proof -
    have "pb_product x \<in> pr_id ` set (st_products st)" using assms(2) x by (simp add: catalog_ok_def row_get_None)
    moreover have "owner ?plans (pb_product x) = pb_product x \<or> (\<exists>plan \<in> set ?plans. owner ?plans (pb_product x) = pp_keep plan)"
    proof (cases "\<exists>plan \<in> set ?plans. pb_product x \<in> set (plan_ids plan)")
      case True then show ?thesis using owner_member[OF apart] by blast
    next
      case False then show ?thesis by (intro disjI1 owner_outside) (auto simp: removed_sub)
    qed
    ultimately have "owner ?plans (pb_product x) \<in> pr_id ` set (st_products st)" using plan_of_store(2)[OF assms(1)] by metis
    from there[OF this owner_not_removed[OF apart]] show ?thesis by (simp add: row_get_None)
  qed
  moreover have "row_get cat_id (st_categories st') (pr_category q) \<noteq> None" if q: "q \<in> set (st_products st')" for q
  proof -
    obtain p where "p \<in> set (st_products st)" "like_product p q" using w q by (auto simp: products_without_def)
    with cats c show ?thesis by (simp add: like_product_def)
  qed
  ultimately have "catalog_ok st'" by (simp add: catalog_ok_def b)
  moreover have "product_consolidation_plan st' = []" by (rule no_duplicates_left[OF assms(1) w])
  moreover have "\<forall>plan \<in> set ?plans. \<forall>today.
      sellable today (pp_keep plan) (st_batches st') = (\<Sum>k\<leftarrow>plan_ids plan. sellable today k (st_batches st))"
    unfolding b using sellable_moved[OF apart] by blast
  moreover have "consolidate_products st = Inr (rs, st')" unfolding consolidate_products_def by (rule l)
  moreover have len: "length (ss_order_items st') = length (ss_order_items st)" using arg_cong[OF orders, of length] by simp
  moreover have "oi_product (ss_order_items st' ! n) = pp_keep plan \<longleftrightarrow> oi_product (ss_order_items st ! n) \<in> set (plan_ids plan)"
    if "n < length (ss_order_items st)" "plan \<in> set ?plans" for n plan
    using arg_cong[OF orders, of "\<lambda>xs. xs ! n"] that len by (simp add: owner_keep[OF apart])
  ultimately show ?thesis by blast
qed

text \<open>A catalogue that lists one product twice, with an order for the second.\<close>

definition demo_duplicates :: sales_store where
  "demo_duplicates = (snd demo_sold)\<lparr>st_products := st_products demo_store @
     [\<lparr>pr_id = 2, pr_category = 1, pr_name = ''FreshMilk'', pr_unit = ''L '', pr_variant = Some '''', pr_shelf_life = 7, pr_active = False\<rparr>],
     st_batches := st_batches (snd demo_sold) @ [(demo_batch 9 250 700025)\<lparr>pb_product := 2\<rparr>],
     ss_order_items := [\<lparr>oi_id = 1, oi_order = 1, oi_product = 2, oi_qty = 100, oi_price = 900, oi_subtotal = 900, oi_total = None\<rparr>]\<rparr>"

lemma demo_duplicates_plan:
  "product_consolidation_plan demo_duplicates =
     [\<lparr>pp_keep = 1, pp_name = ''FreshMilk'', pp_members = [(1, ''Fresh Milk'', 1), (2, ''FreshMilk'', 1)]\<rparr>]"
  by code_simp

theorem consolidation_leaves_no_duplicates_witness:
  "\<exists>rs st'. consolidate_products demo_duplicates = Inr (rs, st') \<and> product_consolidation_plan st' = [] \<and>
     sellable 700010 1 (st_batches st') = 1000 \<and> length (ss_order_items st') = 1 \<and> oi_product (ss_order_items st' ! 0) = 1"
proof -
  have k: "keys_ok pr_id (st_products demo_duplicates)" by code_simp
  have c: "catalog_ok demo_duplicates" by code_simp
  have s: "sellable 700010 1 (st_batches demo_duplicates) = 750" "sellable 700010 2 (st_batches demo_duplicates) = 250" by code_simp+
  have "plan_ids (hd (product_consolidation_plan demo_duplicates)) = [1, 2]" by (simp add: demo_duplicates_plan plan_ids_def)
  moreover have "ss_order_items demo_duplicates \<noteq> []" "length (ss_order_items demo_duplicates) = 1" "oi_product (ss_order_items demo_duplicates ! 0) = 2"
    by (simp_all add: demo_duplicates_def)
  ultimately show ?thesis using consolidation_leaves_no_duplicates[OF k c] s
    by (fastforce simp: demo_duplicates_plan plan_ids_def)
qed

theorem consolidation_keeps_books_witness:
  "\<exists>rs st'. consolidate_products demo_duplicates = Inr (rs, st') \<and> ledger_ok st' \<and> remaining_of 9 (st_batches st') = 250"
proof -
  have ok: "ledger_ok demo_duplicates" by code_simp
  have "\<not> (case consolidate_products demo_duplicates of Inl _ \<Rightarrow> True | Inr _ \<Rightarrow> False)" by code_simp
  then obtain rs st' where s: "consolidate_products demo_duplicates = Inr (rs, st')" by (auto split: sum.splits)
  have "remaining_of 9 (st_batches demo_duplicates) = 250" by code_simp
  with consolidation_keeps_books[OF ok s] s show ?thesis by auto
qed

end
