(* ===== verification/Customer_Names.thy ===== *)
theory Customer_Names
  imports History
begin

text \<open>
  The names of customers (\<^verbatim>\<open>sales/customer_names.py\<close> and \<^verbatim>\<open>canonical_customer\<close>, \<^verbatim>\<open>customer_key\<close> of
  \<^verbatim>\<open>sales/importers/annual_sales.py\<close>): the listed variants of a label, dated and numbered event labels, and
  the canonical name that decides which accounts are the same. The regular expressions are data of a small
  type with the backtracking matcher of Python's \<^verbatim>\<open>re\<close>: greedy repetition, alternatives in their order. Text is
  ASCII, so the typographic apostrophe of the formatting key does not occur.
\<close>

subsection \<open>Regular expressions\<close>

datatype rx = RxEmpty | RxChar "char \<Rightarrow> bool" | RxThen rx rx | RxOr rx rx | RxMany rx | RxWordEnd

definition word_char :: "char \<Rightarrow> bool" where
  "word_char c \<longleftrightarrow> is_digit c \<or> c = CHR ''_'' \<or> upper_char c \<noteq> lower_char c"

text \<open>What is left of a text after each way to match a prefix of it, in the order of the search.\<close>

function rx_rest :: "rx \<Rightarrow> string \<Rightarrow> string list" where
  "rx_rest RxEmpty s = [s]"
| "rx_rest (RxChar p) s = (case s of [] \<Rightarrow> [] | c # cs \<Rightarrow> if p c then [cs] else [])"
| "rx_rest (RxThen a b) s = concat (map (rx_rest b) (rx_rest a s))"
| "rx_rest (RxOr a b) s = rx_rest a s @ rx_rest b s"
| "rx_rest (RxMany a) s = concat (map (rx_rest (RxMany a)) (filter (\<lambda>t. length t < length s) (rx_rest a s))) @ [s]"
| "rx_rest RxWordEnd s = (case s of [] \<Rightarrow> [s] | c # cs \<Rightarrow> if word_char c then [] else [s])"
  by pat_completeness auto
termination by (relation "measures [size \<circ> fst, length \<circ> snd]") auto

declare rx_rest.simps(5) [simp del]

definition rx_full :: "rx \<Rightarrow> string \<Rightarrow> bool" where
  "rx_full r s \<longleftrightarrow> [] \<in> set (rx_rest r s)"

text \<open>The first group of a pattern that starts with it: the first prefix after which the rest matches to the end.\<close>

definition rx_group :: "rx \<Rightarrow> rx \<Rightarrow> string \<Rightarrow> string option" where
  "rx_group inner after s =
     map_option (\<lambda>t. take (length s - length t) s) (find (rx_full after) (rx_rest inner s))"

text \<open>\<^verbatim>\<open>re.sub(pattern, '', text)\<close>.\<close>

function rx_drop :: "rx \<Rightarrow> string \<Rightarrow> string" where
  "rx_drop r s =
     (case s of [] \<Rightarrow> []
      | c # cs \<Rightarrow> (case filter (\<lambda>t. length t < length s) (take 1 (rx_rest r s)) of
                    [] \<Rightarrow> c # rx_drop r cs
                  | t # ts \<Rightarrow> rx_drop r t))"
  by pat_completeness auto
termination
proof (relation "measure (length \<circ> snd)")
  fix r :: rx and s t :: string and c :: char and cs :: string and ts :: "string list"
  assume "s = c # cs" and f: "filter (\<lambda>t. length t < length s) (take 1 (rx_rest r s)) = t # ts"
  then have "t \<in> set (filter (\<lambda>t. length t < length s) (take 1 (rx_rest r s)))" by simp
  then show "((r, t), r, s) \<in> measure (length \<circ> snd)" by simp
qed auto

declare rx_drop.simps [simp del]

definition rx_lit :: "string \<Rightarrow> rx" where
  "rx_lit s = foldr (\<lambda>c r. RxThen (RxChar (\<lambda>d. lower_char d = lower_char c)) r) s RxEmpty"

definition rx_seq :: "rx list \<Rightarrow> rx" where
  "rx_seq rs = foldr RxThen rs RxEmpty"

fun rx_any :: "rx list \<Rightarrow> rx" where
  "rx_any [] = RxEmpty"
| "rx_any [r] = r"
| "rx_any (r # rs) = RxOr r (rx_any rs)"

definition rx_opt :: "rx \<Rightarrow> rx" where
  "rx_opt r = RxOr r RxEmpty"

definition rx_some :: "rx \<Rightarrow> rx" where
  "rx_some r = RxThen r (RxMany r)"

abbreviation "rx_space \<equiv> RxChar is_space"
abbreviation "rx_digit \<equiv> RxChar is_digit"


subsection \<open>Listed identities\<close>

definition customer_groups :: "(string \<times> string list) list" where
  "customer_groups =
     [(''Ala Eh Festival'', [''Ala Eh'', ''Ala Eh Batangas'', ''Ala Eh Festival'']),
      (''Dairy Box Sales'', [''Dairy Box'', ''Dairy Box Sales'']),
      (''Tikme'', [''Tikme'']), (''BSU'', [''BSU'']), (''SM'', [''SM'']), (''San Jose'', [''San Jose'']),
      (''Sta. Cruz'', [''Sta Cruz'']), (''Sta. Rosa'', [''Sta Rosa'']), (''Sto. Tomas'', [''Sto Tomas'']),
      (''Kadiwa-DBM'', [''Kadiwa DBM'']), (''Kadiwa-BIR'', [''Kadiwa BIR'']), (''Kadiwa-San Pedro'', [''Kadiwa San Pedro'']),
      (''Kadiwa-Sta. Cruz'', [''Kadiwa Sta Cruz'']), (''Kadiwa-Sta. Rosa'', [''Kadiwa Sta Rosa'']),
      (''Bombay-Lipa'', [''Bombay Lipa'']), (''Camsur'', [''Cam Sur'']), (''MHO-Garcia'', [''MHO Garcia'']),
      (''Members'', [''Member's'', ''Member's Sales'', ''Members Sales'', ''Members'']),
      (''Staff Sales'', [''Staff'', ''Staff Sales'']), (''Lito Ayson'', [''Sir Lito Ayson'', ''Lito Ayson'']),
      (''Eat Plenty Food Corp'', [''Eat Plenty'', ''Eat Plenty Food Corp'']),
      (''Jamie Ortiz'', [''Jaime Ortiz'', ''Jamie Ortiz'']), (''Cassie Alagar'', [''Cassie'', ''Cassie A.'', ''Cassie Alagar'']),
      (''Sir Sonny'', [''Sonny'', ''Sir Sonny'', ''Sonny Bombay'']), (''Jonny Decena'', [''Jhonny Decena'', ''Jonny Decena''])]"

definition formatting_key :: "string \<Rightarrow> string" where
  "formatting_key label = casefold (filter (\<lambda>c. \<not> is_space c \<and> c \<notin> set ''._()'-'') label)"

text \<open>A dictionary built from a list: a later entry replaces an earlier one.\<close>

definition label_aliases :: "(string \<times> string) list" where
  "label_aliases = rev (concat (map (\<lambda>(canonical, variants). map (\<lambda>v. (formatting_key v, canonical)) (canonical # variants)) customer_groups))"

definition day_group :: rx where
  "day_group = rx_any [rx_lit ''BSU'', rx_lit ''SM'', rx_lit ''San Jose'',
     rx_seq [rx_lit ''Sta'', rx_opt (rx_lit ''.''), RxMany rx_space, rx_lit ''Cruz''], rx_lit ''Tikme'']"

definition day_after :: rx where
  "day_after = rx_seq [rx_some (RxChar (\<lambda>c. is_space c \<or> c = CHR ''-'')), rx_lit ''Day'', RxMany rx_space, rx_some rx_digit,
     rx_opt (rx_seq [RxMany rx_space, rx_lit ''&'', RxMany rx_space, rx_some rx_digit])]"

definition rx_month :: rx where
  "rx_month = rx_any (map (\<lambda>(short, more). RxThen (rx_lit short) (if more = '''' then RxEmpty else rx_opt (rx_lit more)))
     [(''Jan'', ''uary''), (''Feb'', ''ruary''), (''Mar'', ''ch''), (''Apr'', ''il''), (''May'', ''''), (''Jun'', ''e''), (''Jul'', ''y''),
      (''Aug'', ''ust'')] @ [RxThen (rx_lit ''Sep'') (rx_opt (RxThen (rx_lit ''t'') (rx_opt (rx_lit ''ember''))))] @
     map (\<lambda>(short, more). RxThen (rx_lit short) (rx_opt (rx_lit more))) [(''Oct'', ''ober''), (''Nov'', ''ember''), (''Dec'', ''ember'')])"

definition rx_one_or_two :: rx where
  "rx_one_or_two = RxThen rx_digit (rx_opt rx_digit)"

definition dated_group :: rx where
  "dated_group = rx_any [RxThen (rx_lit ''Dairy Box'') (rx_opt (rx_lit '' Sales'')), rx_lit ''Tikme'',
     rx_seq [rx_lit ''Kadiwa'', rx_some (RxChar (\<lambda>c. is_space c \<or> c \<in> set ''_-'')), rx_lit ''DBM'']]"

definition dated_after :: rx where
  "dated_after = rx_seq [rx_some rx_space, rx_month, rx_opt (rx_lit ''.''), RxMany rx_space, rx_one_or_two,
     RxMany (rx_seq [RxMany rx_space, RxChar (\<lambda>c. c \<in> set ''-,''), RxMany rx_space, rx_one_or_two]),
     rx_opt (RxThen (rx_some rx_space) (rx_lit ''Sales''))]"

definition ala_pattern :: rx where
  "ala_pattern = rx_seq [rx_lit ''Ala'', rx_some rx_space, rx_lit ''Eh'',
     rx_opt (RxThen (rx_some rx_space) (rx_any [rx_lit ''Batangas'', rx_lit ''Festival''])),
     rx_opt (rx_seq [rx_some rx_space, rx_lit ''Dec'', rx_opt (rx_lit ''ember''), rx_opt (rx_lit ''.''), RxMany rx_space, rx_one_or_two,
       rx_opt (rx_seq [RxMany rx_space, rx_lit ''-'', RxMany rx_space, rx_one_or_two])]),
     rx_opt (RxThen (rx_some rx_space) (rx_lit ''Sales''))]"

definition consolidated_name :: "string \<Rightarrow> string" where
  "consolidated_name raw =
     (let label = squeeze raw
      in if rx_full ala_pattern label then ''Ala Eh Festival''
         else let event = (case rx_group day_group day_after label of Some g \<Rightarrow> Some g | None \<Rightarrow> rx_group dated_group dated_after label);
                  name = fill event label
              in fill (map_of label_aliases (formatting_key name)) name)"

subsection \<open>Canonical names\<close>

definition customer_aliases :: "(string \<times> string) list" where
  "customer_aliases =
     [(''outlet'', ''Outlet Sales''), (''outletsales'', ''Outlet Sales''), (''skye'', ''Skye Dairy''),
      (''moo and moore'', ''Moo and More''), (''tri star batangas corp'', ''Tri Star''), (''arnold'', ''Arnold Berse''),
      (''lito'', ''Lito Ayson''), (''jamie'', ''Jamie Ortiz''), (''joseph c.'', ''Joseph Caguimbal''), (''wtc-svs'', ''WTC_SVS''),
      (''wtc-sj'', ''WTC_SJ''), (''wtc-a'', ''WTC_A''), (''azaad'', ''AZAAD''), (''azad'', ''AZAAD''),
      (''ouutlet sales'', ''Outlet Sales''), (''daiy box sales'', ''Dairy Box Sales''), (''moo an more'', ''Moo and More''),
      (''arnold besre'', ''Arnold Berse''), (''agrijoy'', ''Agri Joy''), (''eat plenty food corp.'', ''Eat Plenty Food Corp''),
      (''eat plenty fodd corp'', ''Eat Plenty Food Corp''), (''eat plemty food corp'', ''Eat Plenty Food Corp''),
      (''eat pelnty food corp'', ''Eat Plenty Food Corp''), (''eat plenty food'', ''Eat Plenty Food Corp''),
      (''wtc__svs'', ''WTC_SVS''), (''wtc_ svs'', ''WTC_SVS''), (''pcc -uplb'', ''PCC-UPLB''),
      (''milk feeding las pinas'', ''Milk Feeding-Las Pinas''), (''milk feeding-las pinas'', ''Milk Feeding-Las Pinas''),
      (''milk feeding dswd'', ''Milk Feeding-DSWD''), (''milk feedin-dswd'', ''Milk Feeding-DSWD''),
      (''milk feeding-dswd'', ''Milk Feeding-DSWD''), (''milk feeding-deped'', ''Milk Feeding-DEPED''),
      (''milk feeding rizal'', ''Milk Feeding-Rizal''), (''milk feeding-rizal'', ''Milk Feeding-Rizal''),
      (''kadiwa-sta.rosa'', ''Kadiwa-Sta. Rosa''), (''kadiwa sta.rosa'', ''Kadiwa-Sta. Rosa''), (''kadiwa sta rosa'', ''Kadiwa-Sta. Rosa''),
      (''kadiwa_lares'', ''Kadiwa-Lares''), (''kadiwa- alaminos'', ''Kadiwa-Alaminos''), (''kadiwa- lumban'', ''Kadiwa-Lumban'')]"

definition strip_chars :: "string \<Rightarrow> string \<Rightarrow> string" where
  "strip_chars cs s = rev (dropWhile (\<lambda>c. c \<in> set cs) (rev (dropWhile (\<lambda>c. c \<in> set cs) s)))"

definition rstrip_dots :: "string \<Rightarrow> string" where
  "rstrip_dots s = rev (dropWhile (\<lambda>c. c = CHR ''.'') (rev s))"

definition starts_with :: "string \<Rightarrow> string \<Rightarrow> bool" where
  "starts_with p s \<longleftrightarrow> take (length p) s = p"

definition cancelled_pattern :: rx where
  "cancelled_pattern = rx_seq [rx_opt (rx_lit ''(''), RxMany rx_space, rx_lit ''cancelled'', RxMany rx_space, rx_opt (rx_lit '')'')]"

definition si_pattern :: rx where
  "si_pattern = rx_seq [rx_lit ''(SI'', rx_some rx_digit, rx_lit '')'']"

definition walk_in_pattern :: rx where
  "walk_in_pattern = rx_seq [rx_lit ''/'', RxMany rx_space, rx_lit ''walk-in'', RxWordEnd]"

definition canonical_customer :: "string \<Rightarrow> string option" where
  "canonical_customer raw =
     (let label = squeeze raw
      in if label = [] then None
         else let label = strip_chars '' -_/'' (rx_drop cancelled_pattern label);
                  label = strip (rx_drop si_pattern label)
              in if label = [] then None
                 else if starts_with ''outlet sales'' (casefold label) then Some ''Outlet Sales''
                 else if starts_with ''walk-in'' (casefold label) \<or> starts_with ''walk in'' (casefold label) then Some ''Walk-in''
                 else let label = strip (rx_drop walk_in_pattern label)
                      in Some (consolidated_name (fill (map_of customer_aliases (casefold label))
                                 (fill (map_of customer_aliases (rstrip_dots (casefold label))) label))))"

definition customer_key :: "string \<Rightarrow> string option" where
  "customer_key raw = (case canonical_customer raw of None \<Rightarrow> None | Some name \<Rightarrow> if name = [] then None else Some (casefold name))"


subsection \<open>The matcher against its meaning\<close>

inductive rx_matches :: "rx \<Rightarrow> string \<Rightarrow> string \<Rightarrow> bool" where
  "rx_matches RxEmpty s s"
| "p c \<Longrightarrow> rx_matches (RxChar p) (c # s) s"
| "rx_matches a s t \<Longrightarrow> rx_matches b t u \<Longrightarrow> rx_matches (RxThen a b) s u"
| "rx_matches a s t \<Longrightarrow> rx_matches (RxOr a b) s t"
| "rx_matches b s t \<Longrightarrow> rx_matches (RxOr a b) s t"
| "rx_matches (RxMany a) s s"
| "rx_matches a s t \<Longrightarrow> rx_matches (RxMany a) t u \<Longrightarrow> rx_matches (RxMany a) s u"
| "s = [] \<or> \<not> word_char (hd s) \<Longrightarrow> rx_matches RxWordEnd s s"

lemma rx_matches_suffix: "rx_matches r s t \<Longrightarrow> \<exists>w. s = w @ t"
  by (induction rule: rx_matches.induct) auto

lemma rx_rest_sound: "t \<in> set (rx_rest r s) \<Longrightarrow> rx_matches r s t"
proof (induction r s arbitrary: t rule: rx_rest.induct)
  case (2 p s)
  then show ?case by (cases s) (auto split: if_splits intro: rx_matches.intros)
next
  case (5 a s)
  then consider "t = s" | u where "u \<in> set (rx_rest a s)" "length u < length s" "t \<in> set (rx_rest (RxMany a) u)"
    by (auto simp: rx_rest.simps(5)[of a s])
  then show ?case
  proof cases
    case 2
    with 5(1)[of u] 5(2)[of u t] show ?thesis by (auto intro: rx_matches.intros)
  qed (auto intro: rx_matches.intros)
next
  case (6 s)
  then show ?case by (cases s) (auto split: if_splits intro: rx_matches.intros)
qed (auto intro: rx_matches.intros)

lemma rx_rest_complete: "rx_matches r s t \<Longrightarrow> t \<in> set (rx_rest r s)"
proof (induction rule: rx_matches.induct)
  case (7 a s t u)
  show ?case
  proof (cases "length t < length s")
    case True
    with 7 show ?thesis by (auto simp: rx_rest.simps(5)[of a s])
  next
    case False
    with rx_matches_suffix[OF 7(1)] have "t = s" by auto
    with 7 show ?thesis by simp
  qed
next
  case (6 a s)
  then show ?case by (simp add: rx_rest.simps(5)[of a s])
next
  case (8 s)
  then show ?case by (cases s) auto
qed auto

text \<open>
  The search of the matcher is the meaning of the expressions: it finds a rest exactly when the expression
  matches what precedes it.
\<close>

lemma rx_rest_matches: "t \<in> set (rx_rest r s) \<longleftrightarrow> rx_matches r s t"
  using rx_rest_sound rx_rest_complete by blast

lemma day_labels:
  "rx_group day_group day_after ''BSU Day 3'' = Some ''BSU''"
  "rx_group day_group day_after ''BSU North Day 3'' = None"
  by code_simp+

end
