(* ===== verification/Customer_Consolidation.thy ===== *)
theory Customer_Consolidation
  imports Product_Consolidation Customer_Names "HOL-Library.List_Lexorder" "HOL-Library.Char_ord"
begin

text \<open>
  Merging customer accounts whose names are variants of one identity
  (\<^verbatim>\<open>sales/services/customer_consolidation.py\<close>): the plan with the groups that are merged and those that wait for
  a review, and the transaction that moves receipts and orders to the account that is kept. The management
  command around it (backup file, table locks, audit) is not modelled.
\<close>

subsection \<open>The plan\<close>

definition normalized_contact :: "string option \<Rightarrow> string" where
  "normalized_contact v = casefold (squeeze (fill v []))"

text \<open>A value that is there: neither null nor empty.\<close>

definition filled :: "string option \<Rightarrow> bool" where
  "filled v \<longleftrightarrow> v \<noteq> None \<and> v \<noteq> Some []"

definition contact_fields :: "(string \<times> (customer \<Rightarrow> string option)) list" where
  "contact_fields = [(''contact_number'', cu_contact), (''email'', cu_email), (''address'', cu_address)]"

definition contact_values :: "(customer \<Rightarrow> string option) \<Rightarrow> customer list \<Rightarrow> string set" where
  "contact_values field members = set (map (normalized_contact \<circ> field) (filter (filled \<circ> field) members))"

definition contact_conflicts :: "customer list \<Rightarrow> string list" where
  "contact_conflicts members = map fst (filter (\<lambda>(name, field). 1 < card (contact_values field members)) contact_fields)"

definition same_contact :: "customer list \<Rightarrow> bool" where
  "same_contact members \<longleftrightarrow> list_ex (\<lambda>field. card (contact_values field members) = 1 \<and> list_all (filled \<circ> field) members) [cu_contact, cu_email]"

record merge_group =
  mg_keep :: nat
  mg_name :: string
  mg_members :: "(nat \<times> string \<times> nat) list"
  mg_contact :: "string option"
  mg_email :: "string option"
  mg_address :: "string option"

record review_group =
  rg_members :: "(nat \<times> string \<times> nat) list"
  rg_reason :: string
  rg_fields :: "string list"

record customer_plan =
  cp_merge :: "merge_group list"
  cp_review :: "review_group list"

definition sale_count :: "sales_store \<Rightarrow> customer \<Rightarrow> nat" where
  "sale_count st c = length (filter (\<lambda>t. tx_customer t = Some (cu_id c)) (ss_txns st))"

definition member_details :: "sales_store \<Rightarrow> customer list \<Rightarrow> (nat \<times> string \<times> nat) list" where
  "member_details st members = map (\<lambda>c. (cu_id c, cu_name c, sale_count st c)) members"

text \<open>\<^verbatim>\<open>min(members, key=lambda c: (c.name != canonical, c.pk))\<close>.\<close>

definition keeper_of :: "string \<Rightarrow> customer list \<Rightarrow> customer" where
  "keeper_of canonical members = hd (sort_key (\<lambda>c. (cu_name c \<noteq> canonical, cu_id c)) members)"

definition kept_contact :: "(customer \<Rightarrow> string option) \<Rightarrow> customer \<Rightarrow> customer list \<Rightarrow> string option" where
  "kept_contact field keeper members =
     (if filled (field keeper) then field keeper else Option.bind (find (filled \<circ> field) members) field)"

definition needs_review :: "string \<Rightarrow> customer list \<Rightarrow> bool" where
  "needs_review canonical members \<longleftrightarrow> contact_conflicts members \<noteq> [] \<or>
     (card ((\<lambda>c. casefold (strip (cu_name c))) ` set members) = 1 \<and> canonical \<notin> fst ` set customer_groups \<and> \<not> same_contact members)"

definition keyed_customers :: "sales_store \<Rightarrow> customer list" where
  "keyed_customers st = filter (\<lambda>c. customer_key (cu_name c) \<noteq> None) (sort_key cu_id (ss_customers st))"

definition customer_sets :: "sales_store \<Rightarrow> customer list list" where
  "customer_sets st = filter (\<lambda>members. 2 \<le> length members)
     (sort_key (\<lambda>members. the (customer_key (cu_name (hd members)))) (group_by (\<lambda>c. customer_key (cu_name c)) (keyed_customers st)))"

definition canonical_of :: "customer list \<Rightarrow> string" where
  "canonical_of members = the (canonical_customer (cu_name (hd members)))"

definition merge_of :: "sales_store \<Rightarrow> customer list \<Rightarrow> merge_group" where
  "merge_of st members =
     (let keeper = keeper_of (canonical_of members) members
      in \<lparr>mg_keep = cu_id keeper, mg_name = canonical_of members, mg_members = member_details st members,
          mg_contact = kept_contact cu_contact keeper members, mg_email = kept_contact cu_email keeper members,
          mg_address = kept_contact cu_address keeper members\<rparr>)"

definition review_of :: "sales_store \<Rightarrow> customer list \<Rightarrow> review_group" where
  "review_of st members =
     \<lparr>rg_members = member_details st members,
      rg_reason = (if contact_conflicts members \<noteq> [] then ''conflicting_contact_details'' else ''same_name_identity_unconfirmed''),
      rg_fields = contact_conflicts members\<rparr>"

definition customer_consolidation_plan :: "sales_store \<Rightarrow> customer_plan" where
  "customer_consolidation_plan st =
     \<lparr>cp_merge = map (merge_of st) (filter (\<lambda>m. \<not> needs_review (canonical_of m) m) (customer_sets st)),
      cp_review = map (review_of st) (filter (\<lambda>m. needs_review (canonical_of m) m) (customer_sets st))\<rparr>"


subsection \<open>The merge\<close>

record merge_record =
  mr_group :: merge_group
  mr_txn_links :: "(nat \<times> nat) list"
  mr_order_links :: "(nat \<times> nat) list"

definition group_ids :: "merge_group \<Rightarrow> nat list" where
  "group_ids g = map fst (mg_members g)"

definition removed_of :: "merge_group \<Rightarrow> nat list" where
  "removed_of g = filter (\<lambda>k. k \<noteq> mg_keep g) (group_ids g)"

definition move_txn :: "merge_group \<Rightarrow> txn \<Rightarrow> txn" where
  "move_txn g t = (case tx_customer t of
      Some k \<Rightarrow> if k \<in> set (removed_of g) then t\<lparr>tx_customer := Some (mg_keep g)\<rparr> else t | None \<Rightarrow> t)"

definition move_order :: "merge_group \<Rightarrow> order \<Rightarrow> order" where
  "move_order g q = (if or_customer q \<in> set (removed_of g) then q\<lparr>or_customer := mg_keep g\<rparr> else q)"

definition update_keeper :: "merge_group \<Rightarrow> bool \<Rightarrow> customer \<Rightarrow> customer" where
  "update_keeper g active c = (if cu_id c = mg_keep g
     then c\<lparr>cu_name := mg_name g, cu_contact := mg_contact g, cu_email := mg_email g, cu_address := mg_address g, cu_active := active\<rparr>
     else c)"

definition merge_customers :: "merge_group \<Rightarrow> sales_store \<Rightarrow> (merge_record \<times> sales_store) res" where
  "merge_customers g st =
     (case row_get cu_id (ss_customers st) (mg_keep g) of
        None \<Rightarrow> Inl (DoesNotExist ''Customer'')
      | Some keeper \<Rightarrow>
          let removed = removed_of g;
              active = list_ex (\<lambda>c. cu_id c \<in> set (group_ids g) \<and> cu_active c) (ss_customers st);
              txns = map (move_txn g) (ss_txns st);
              orders = map (move_order g) (ss_orders st)
          in if list_ex (\<lambda>t. tx_customer t \<in> Some ` set removed) txns \<or> list_ex (\<lambda>q. or_customer q \<in> set removed) orders
             then Inl ProtectedError
             else Inr (\<lparr>mr_group = g,
                 mr_txn_links = List.map_filter (\<lambda>t. case tx_customer t of
                     Some k \<Rightarrow> if k \<in> set removed then Some (tx_id t, k) else None | None \<Rightarrow> None) (ss_txns st),
                 mr_order_links = List.map_filter (\<lambda>q. if or_customer q \<in> set removed then Some (or_id q, or_customer q) else None) (ss_orders st)\<rparr>,
               st\<lparr>ss_txns := txns, ss_orders := orders,
                  ss_customers := filter (\<lambda>c. cu_id c \<notin> set removed) (map (update_keeper g active) (ss_customers st))\<rparr>))"

fun merge_groups :: "merge_group list \<Rightarrow> sales_store \<Rightarrow> (merge_record list \<times> sales_store) res" where
  "merge_groups [] st = Inr ([], st)"
| "merge_groups (g # gs) st =
     rbind (merge_customers g st) (\<lambda>(r, st1). rbind (merge_groups gs st1) (\<lambda>(rs, st2). Inr (r # rs, st2)))"

definition consolidate_customers :: "sales_store \<Rightarrow> (merge_record list \<times> sales_store) res" where
  "consolidate_customers st = merge_groups (cp_merge (customer_consolidation_plan st)) st"

subsection \<open>The effect of a list of groups\<close>

fun home :: "merge_group list \<Rightarrow> nat \<Rightarrow> nat" where
  "home [] k = k"
| "home (g # gs) k = home gs (if k \<in> set (removed_of g) then mg_keep g else k)"

fun groups_apart :: "merge_group list \<Rightarrow> bool" where
  "groups_apart [] = True"
| "groups_apart (g # gs) =
     ((\<forall>h\<in>set gs. set (group_ids g) \<inter> set (group_ids h) = {}) \<and> mg_keep g \<in> set (group_ids g) \<and> groups_apart gs)"

lemma groups_apart_keep: "groups_apart gs \<Longrightarrow> g \<in> set gs \<Longrightarrow> mg_keep g \<in> set (group_ids g)"
  by (induction gs) auto

lemma removed_ids_sub: "set (removed_of g) \<subseteq> set (group_ids g)"
  by (auto simp: removed_of_def)

lemma home_outside: "(\<And>g. g \<in> set gs \<Longrightarrow> k \<notin> set (group_ids g)) \<Longrightarrow> home gs k = k"
  using removed_ids_sub by (induction gs arbitrary: k) (auto simp: subset_iff)

lemma home_member:
  assumes "groups_apart gs" "g \<in> set gs" "k \<in> set (group_ids g)"
  shows "home gs k = mg_keep g"
  using assms
proof (induction gs arbitrary: k)
  case (Cons h gs)
  show ?case
  proof (cases "g = h")
    case True
    have out: "mg_keep h \<notin> set (group_ids x)" if "x \<in> set gs" for x using Cons.prems(1) that by auto
    have "home gs (mg_keep h) = mg_keep h" by (rule home_outside) (rule out)
    moreover have "k \<in> set (removed_of h) \<or> k = mg_keep h" using Cons.prems(3) True by (auto simp: removed_of_def)
    moreover have "mg_keep h \<notin> set (removed_of h)" by (simp add: removed_of_def)
    ultimately show ?thesis using True by auto
  next
    case False
    with Cons.prems have g: "g \<in> set gs" "k \<notin> set (group_ids h)" by auto
    then have "k \<notin> set (removed_of h)" using removed_ids_sub by blast
    then show ?thesis using Cons.IH[of k] Cons.prems g by simp
  qed
qed simp

lemma merge_customers_result:
  assumes "k0 \<in> set (ss_customers st)" "cu_id k0 = mg_keep g"
  shows "\<exists>r. merge_customers g st = Inr (r, st\<lparr>ss_txns := map (move_txn g) (ss_txns st), ss_orders := map (move_order g) (ss_orders st),
     ss_customers := filter (\<lambda>c. cu_id c \<notin> set (removed_of g)) (map (update_keeper g
        (list_ex (\<lambda>c. cu_id c \<in> set (group_ids g) \<and> cu_active c) (ss_customers st))) (ss_customers st))\<rparr>)"
proof -
  have keep: "mg_keep g \<notin> set (removed_of g)" by (simp add: removed_of_def)
  have t: "\<not> list_ex (\<lambda>t. tx_customer t \<in> Some ` set (removed_of g)) (map (move_txn g) (ss_txns st))"
    using keep by (auto simp: list_ex_iff move_txn_def split: option.splits if_splits)
  have o: "\<not> list_ex (\<lambda>q. or_customer q \<in> set (removed_of g)) (map (move_order g) (ss_orders st))"
    using keep by (auto simp: list_ex_iff move_order_def)
  have "row_get cu_id (ss_customers st) (mg_keep g) \<noteq> None"
    using assms by (auto simp: row_get_def find_None_iff)
  then obtain keeper where "row_get cu_id (ss_customers st) (mg_keep g) = Some keeper" by blast
  with t o show ?thesis by (simp add: merge_customers_def Let_def)
qed

definition relinked :: "(nat \<Rightarrow> nat) \<Rightarrow> sales_store \<Rightarrow> sales_store \<Rightarrow> bool" where
  "relinked f st st' \<longleftrightarrow>
     ss_txns st' = map (\<lambda>t. t\<lparr>tx_customer := map_option f (tx_customer t)\<rparr>) (ss_txns st) \<and>
     ss_orders st' = map (\<lambda>q. q\<lparr>or_customer := f (or_customer q)\<rparr>) (ss_orders st) \<and>
     st' = st\<lparr>ss_txns := ss_txns st', ss_orders := ss_orders st', ss_customers := ss_customers st'\<rparr>"

lemma move_txn_eq: "move_txn g t = t\<lparr>tx_customer := map_option (\<lambda>k. if k \<in> set (removed_of g) then mg_keep g else k) (tx_customer t)\<rparr>"
  by (cases "tx_customer t") (auto simp: move_txn_def)

lemma move_order_eq: "move_order g q = q\<lparr>or_customer := (if or_customer q \<in> set (removed_of g) then mg_keep g else or_customer q)\<rparr>"
  by (simp add: move_order_def)

definition active_in :: "merge_group \<Rightarrow> sales_store \<Rightarrow> bool" where
  "active_in g st \<longleftrightarrow> list_ex (\<lambda>c. cu_id c \<in> set (group_ids g) \<and> cu_active c) (ss_customers st)"

lemma cu_id_update_keeper [simp]: "cu_id (update_keeper g a c) = cu_id c"
  by (simp add: update_keeper_def)

lemma update_keeper_other: "cu_id c \<noteq> mg_keep g \<Longrightarrow> update_keeper g a c = c"
  by (simp add: update_keeper_def)

text \<open>One group: what it does to the table of customers.\<close>

definition after_merge :: "merge_group \<Rightarrow> sales_store \<Rightarrow> sales_store" where
  "after_merge g st = st\<lparr>ss_txns := map (move_txn g) (ss_txns st), ss_orders := map (move_order g) (ss_orders st),
     ss_customers := filter (\<lambda>c. cu_id c \<notin> set (removed_of g)) (map (update_keeper g (active_in g st)) (ss_customers st))\<rparr>"

lemma after_merge_in:
  "c \<in> set (ss_customers st) \<Longrightarrow> cu_id c \<notin> set (removed_of g) \<Longrightarrow> update_keeper g (active_in g st) c \<in> set (ss_customers (after_merge g st))"
  by (simp add: after_merge_def)

lemma after_merge_outside:
  assumes "cu_id c \<notin> set (group_ids g)" "mg_keep g \<in> set (group_ids g)"
  shows "c \<in> set (ss_customers (after_merge g st)) \<longleftrightarrow> c \<in> set (ss_customers st)"
proof
  assume "c \<in> set (ss_customers (after_merge g st))"
  then obtain b where b: "b \<in> set (ss_customers st)" "c = update_keeper g (active_in g st) b" by (auto simp: after_merge_def)
  then have "cu_id b \<noteq> mg_keep g" using assms by auto
  then show "c \<in> set (ss_customers st)" using b by (simp add: update_keeper_other)
next
  assume c: "c \<in> set (ss_customers st)"
  have "cu_id c \<noteq> mg_keep g" "cu_id c \<notin> set (removed_of g)" using assms removed_ids_sub by auto
  then show "c \<in> set (ss_customers (after_merge g st))" using after_merge_in[OF c] by (metis update_keeper_other)
qed

lemma after_merge_active:
  assumes "set (group_ids g) \<inter> set (group_ids h) = {}" "mg_keep g \<in> set (group_ids g)"
  shows "active_in h (after_merge g st) = active_in h st"
  unfolding active_in_def list_ex_iff using after_merge_outside[of _ g st] assms by blast

lemma home_fixed:
  assumes "groups_apart (g # gs)"
  shows "home (g # gs) k = k \<longleftrightarrow> k \<notin> set (removed_of g) \<and> home gs k = k"
proof -
  have "home gs (mg_keep g) = mg_keep g" using assms by (intro home_outside) auto
  moreover have "mg_keep g \<notin> set (removed_of g)" by (simp add: removed_of_def)
  ultimately show ?thesis by auto
qed

lemma relinked_after:
  assumes "relinked (home gs) (after_merge g st) st'"
  shows "relinked (home (g # gs)) st st'"
proof -
  have h: "home (g # gs) = (\<lambda>k. home gs (if k \<in> set (removed_of g) then mg_keep g else k))" by (rule ext) simp
  have l: "ss_txns st' = map (\<lambda>t. t\<lparr>tx_customer := map_option (home gs) (tx_customer t)\<rparr>) (ss_txns (after_merge g st))"
    "ss_orders st' = map (\<lambda>q. q\<lparr>or_customer := home gs (or_customer q)\<rparr>) (ss_orders (after_merge g st))"
    "st' = (after_merge g st)\<lparr>ss_txns := ss_txns st', ss_orders := ss_orders st', ss_customers := ss_customers st'\<rparr>"
    using assms by (auto simp only: relinked_def)
  note l(3)
  also have "(after_merge g st)\<lparr>ss_txns := ss_txns st', ss_orders := ss_orders st', ss_customers := ss_customers st'\<rparr> =
    st\<lparr>ss_txns := ss_txns st', ss_orders := ss_orders st', ss_customers := ss_customers st'\<rparr>" by (simp add: after_merge_def)
  finally have e: "st' = st\<lparr>ss_txns := ss_txns st', ss_orders := ss_orders st', ss_customers := ss_customers st'\<rparr>" .
  have t: "ss_txns st' = map (\<lambda>t. t\<lparr>tx_customer := map_option (home (g # gs)) (tx_customer t)\<rparr>) (ss_txns st)"
    unfolding h by (simp add: l(1) after_merge_def move_txn_eq option.map_comp o_def)
  have q: "ss_orders st' = map (\<lambda>q. q\<lparr>or_customer := home (g # gs) (or_customer q)\<rparr>) (ss_orders st)"
    unfolding h by (simp add: l(2) after_merge_def move_order_eq)
  show ?thesis unfolding relinked_def by (intro conjI t q e)
qed

lemma merge_groups_result:
  assumes "groups_apart gs" "\<And>g. g \<in> set gs \<Longrightarrow> \<exists>k \<in> set (ss_customers st). cu_id k = mg_keep g"
  shows "\<exists>rs st'. merge_groups gs st = Inr (rs, st') \<and> relinked (home gs) st st' \<and>
     map cu_id (ss_customers st') = filter (\<lambda>k. home gs k = k) (map cu_id (ss_customers st)) \<and>
     (\<forall>c \<in> set (ss_customers st). (\<forall>g \<in> set gs. cu_id c \<notin> set (group_ids g)) \<longrightarrow> c \<in> set (ss_customers st')) \<and>
     (\<forall>g \<in> set gs. \<forall>k \<in> set (ss_customers st). cu_id k = mg_keep g \<longrightarrow> update_keeper g (active_in g st) k \<in> set (ss_customers st'))"
  using assms
proof (induction gs arbitrary: st)
  case Nil
  then show ?case by (simp add: relinked_def option.map_ident)
next
  case (Cons g gs)
  let ?st1 = "after_merge g st"
  have apart: "groups_apart gs" "mg_keep g \<in> set (group_ids g)" using Cons.prems(1) by auto
  have dis: "set (group_ids g) \<inter> set (group_ids h) = {}" "mg_keep h \<notin> set (group_ids g)" "mg_keep g \<notin> set (group_ids h)"
    if h: "h \<in> set gs" for h
    using Cons.prems(1) groups_apart_keep[OF apart(1) h] h by auto
  obtain k0 where k0: "k0 \<in> set (ss_customers st)" "cu_id k0 = mg_keep g" using Cons.prems(2) by auto
  obtain r where r: "merge_customers g st = Inr (r, ?st1)"
    using merge_customers_result[OF k0] by (auto simp: after_merge_def active_in_def)
  have "\<exists>k \<in> set (ss_customers ?st1). cu_id k = mg_keep h" if h: "h \<in> set gs" for h
    using Cons.prems(2)[of h] after_merge_outside[OF _ apart(2)] dis(2)[OF h] h by (metis list.set_intros(2))
  from Cons.IH[OF apart(1) this] obtain rs st' where
    m: "merge_groups gs ?st1 = Inr (rs, st')" and l: "relinked (home gs) ?st1 st'"
    and ids: "map cu_id (ss_customers st') = filter (\<lambda>k. home gs k = k) (map cu_id (ss_customers ?st1))"
    and out: "\<And>c. c \<in> set (ss_customers ?st1) \<Longrightarrow> (\<forall>g \<in> set gs. cu_id c \<notin> set (group_ids g)) \<Longrightarrow> c \<in> set (ss_customers st')"
    and kept: "\<And>h k. h \<in> set gs \<Longrightarrow> k \<in> set (ss_customers ?st1) \<Longrightarrow> cu_id k = mg_keep h \<Longrightarrow>
      update_keeper h (active_in h ?st1) k \<in> set (ss_customers st')" by blast
  have "relinked (home (g # gs)) st st'" using l by (rule relinked_after)
  moreover have "map cu_id (ss_customers st') = filter (\<lambda>k. home (g # gs) k = k) (map cu_id (ss_customers st))"
    using ids by (simp only: home_fixed[OF Cons.prems(1)]) (simp add: after_merge_def filter_map o_def conj_commute)
  moreover have "c \<in> set (ss_customers st')" if "c \<in> set (ss_customers st)" "\<forall>h \<in> set (g # gs). cu_id c \<notin> set (group_ids h)" for c
    using out[of c] after_merge_outside[OF _ apart(2), of c st] that by auto
  moreover have "update_keeper h (active_in h st) k \<in> set (ss_customers st')"
    if h: "h \<in> set (g # gs)" "k \<in> set (ss_customers st)" "cu_id k = mg_keep h" for h k
  proof (cases "h \<in> set gs")
    case True
    then show ?thesis
      using kept[OF True, of k] after_merge_active[OF dis(1)[OF True] apart(2)] after_merge_outside[OF _ apart(2), of k st] dis(2)[OF True] h
      by simp
  next
    case False
    then have "h = g" using h by simp
    moreover have "cu_id k \<notin> set (removed_of g)" using h(3) \<open>h = g\<close> by (simp add: removed_of_def)
    ultimately show ?thesis using out[OF after_merge_in[OF h(2)]] dis(3) h(3) by simp
  qed
  ultimately show ?case using r m by (simp del: home.simps)
qed

subsection \<open>The groups of the plan\<close>

lemma customer_set_facts:
  assumes m: "members \<in> set (customer_sets st)"
  shows "set members \<subseteq> set (ss_customers st)" "members \<noteq> []"
    "c \<in> set members \<Longrightarrow> customer_key (cu_name c) = Some (casefold (canonical_of members))"
proof -
  let ?k = "\<lambda>c. customer_key (cu_name c)"
  obtain x where x: "x \<in> set (keyed_customers st)" "members = filter (\<lambda>y. ?k y = ?k x) (keyed_customers st)"
    using m group_by_groups by (fastforce simp: customer_sets_def)
  show "set members \<subseteq> set (ss_customers st)" by (auto simp: x(2) keyed_customers_def)
  have "x \<in> set members" using x by simp
  then show ne: "members \<noteq> []" by auto
  have "?k y \<noteq> None" if "y \<in> set (keyed_customers st)" for y using that by (simp add: keyed_customers_def)
  moreover have "set members \<subseteq> set (keyed_customers st)" by (auto simp: x(2))
  ultimately have "?k (hd members) \<noteq> None" using hd_in_set[OF ne] by blast
  then have key: "?k (hd members) = Some (casefold (canonical_of members))"
    by (auto simp: customer_key_def canonical_of_def split: option.splits if_splits)
  have "?k c = ?k x" if "c \<in> set members" for c using that by (simp add: x(2))
  then show "c \<in> set members \<Longrightarrow> ?k c = Some (casefold (canonical_of members))" using hd_in_set[OF ne] key by metis
qed

lemma keeper_member:
  assumes "members \<noteq> []" shows "keeper_of canonical members \<in> set members"
proof -
  let ?s = "sort_key (\<lambda>c. (cu_name c \<noteq> canonical, cu_id c)) members"
  have "?s \<noteq> []" using assms by (metis length_0_conv length_sort)
  then have "hd ?s \<in> set ?s" by (rule hd_in_set)
  then show ?thesis by (simp add: keeper_of_def)
qed

lemma merge_of_fields:
  "group_ids (merge_of st members) = map cu_id members" "mg_keep (merge_of st members) = cu_id (keeper_of (canonical_of members) members)"
  by (simp_all add: merge_of_def group_ids_def member_details_def Let_def o_def)

lemma groups_apart_iff:
  "groups_apart gs \<longleftrightarrow> sorted_wrt (\<lambda>g h. set (group_ids g) \<inter> set (group_ids h) = {}) gs \<and> (\<forall>g \<in> set gs. mg_keep g \<in> set (group_ids g))"
  by (induction gs) auto

lemma same_customer: "keys_ok cu_id t \<Longrightarrow> c \<in> set t \<Longrightarrow> d \<in> set t \<Longrightarrow> cu_id c = cu_id d \<Longrightarrow> c = d"
  by (metis row_get_iff option.inject)

lemma customer_sets_apart:
  assumes k: "keys_ok cu_id (ss_customers st)"
  shows "sorted_wrt (\<lambda>m n. set (map cu_id m) \<inter> set (map cu_id n) = {}) (customer_sets st)"
proof (rule distinct_apart)
  let ?k = "\<lambda>c. customer_key (cu_name c)"
  let ?g = "group_by ?k (keyed_customers st)"
  have "distinct (map (?k \<circ> hd) (sort_key (\<lambda>m. the (?k (hd m))) ?g))"
    using group_by_distinct_keys[of ?k "keyed_customers st"] by (metis mset_map mset_sort mset_eq_imp_distinct_iff)
  then show "distinct (map (?k \<circ> hd) (customer_sets st))" unfolding customer_sets_def by (rule distinct_map_filter)
  fix m n assume mn: "m \<in> set (customer_sets st)" "n \<in> set (customer_sets st)" "(?k \<circ> hd) m \<noteq> (?k \<circ> hd) n"
  note f = customer_set_facts[OF mn(1)] and h = customer_set_facts[OF mn(2)]
  have "casefold (canonical_of m) \<noteq> casefold (canonical_of n)" using mn(3) f(3)[OF hd_in_set[OF f(2)]] h(3)[OF hd_in_set[OF h(2)]] by simp
  then have "c \<noteq> d" if "c \<in> set m" "d \<in> set n" for c d using f(3)[OF that(1)] h(3)[OF that(2)] by auto
  then have "cu_id c \<noteq> cu_id d" if "c \<in> set m" "d \<in> set n" for c d using same_customer[OF k] f(1) h(1) that by blast
  then show "set (map cu_id m) \<inter> set (map cu_id n) = {}" by auto
qed

lemma plan_groups:
  "g \<in> set (cp_merge (customer_consolidation_plan st)) \<longleftrightarrow>
     (\<exists>m \<in> set (customer_sets st). \<not> needs_review (canonical_of m) m \<and> g = merge_of st m)"
  by (auto simp: customer_consolidation_plan_def)

lemma customer_plan_apart:
  assumes k: "keys_ok cu_id (ss_customers st)"
  shows "groups_apart (cp_merge (customer_consolidation_plan st))"
proof -
  have "mg_keep g \<in> set (group_ids g)" if "g \<in> set (cp_merge (customer_consolidation_plan st))" for g
    using that keeper_member[OF customer_set_facts(2)] by (auto simp: plan_groups merge_of_fields)
  then show ?thesis
    using sorted_wrt_filter[OF customer_sets_apart[OF k]]
    by (auto simp: groups_apart_iff customer_consolidation_plan_def sorted_wrt_map merge_of_fields)
qed

text \<open>Contact details: what a merge keeps agrees with every detail that any member had.\<close>

lemma kept_contact_agrees:
  assumes c: "contact_conflicts members = []" "(name, field) \<in> set contact_fields"
    and m: "keeper \<in> set members" "x \<in> set members" "filled (field x)"
  shows "filled (kept_contact field keeper members) \<and>
    normalized_contact (kept_contact field keeper members) = normalized_contact (field x)"
proof -
  have "card (contact_values field members) \<le> Suc 0" using c by (auto simp: contact_conflicts_def filter_empty_conv)
  moreover have "finite (contact_values field members)" by (simp add: contact_values_def)
  ultimately have one: "u = v" if "u \<in> contact_values field members" "v \<in> contact_values field members" for u v
    using that by (simp add: card_le_Suc0_iff_eq)
  have "\<exists>d \<in> set members. filled (field d) \<and> kept_contact field keeper members = field d"
  proof (cases "filled (field keeper)")
    case False
    have "find (filled \<circ> field) members \<noteq> None" using m by (auto simp: find_None_iff)
    then obtain d where d: "find (filled \<circ> field) members = Some d" by blast
    then have "d \<in> set members" "filled (field d)" by (auto simp: find_Some_iff)
    then show ?thesis using False d by (auto simp: kept_contact_def)
  qed (use m(1) in \<open>auto simp: kept_contact_def\<close>)
  then show ?thesis using one m(2,3) by (fastforce simp: contact_values_def)
qed

definition contact_kept :: "customer \<Rightarrow> customer \<Rightarrow> bool" where
  "contact_kept c d \<longleftrightarrow> (\<forall>(name, field) \<in> set contact_fields. filled (field c) \<longrightarrow>
     filled (field d) \<and> normalized_contact (field d) = normalized_contact (field c))"

lemma merged_account:
  assumes k: "keys_ok cu_id (ss_customers st)"
    and m: "m \<in> set (customer_sets st)" "\<not> needs_review (canonical_of m) m" and c: "c \<in> set m"
  defines "d \<equiv> update_keeper (merge_of st m) (active_in (merge_of st m) st) (keeper_of (canonical_of m) m)"
  shows "contact_kept c d" "cu_active c \<longrightarrow> cu_active d" "customer_key (cu_name c) = Some (casefold (cu_name d))"
proof -
  note f = customer_set_facts[OF m(1)]
  note keeper = keeper_member[OF f(2), of "canonical_of m"]
  have conf: "contact_conflicts m = []" using m(2) by (simp add: needs_review_def)
  have d: "cu_contact d = kept_contact cu_contact (keeper_of (canonical_of m) m) m" "cu_email d = kept_contact cu_email (keeper_of (canonical_of m) m) m"
    "cu_address d = kept_contact cu_address (keeper_of (canonical_of m) m) m" "cu_name d = canonical_of m" "cu_active d = active_in (merge_of st m) st"
    by (simp_all add: d_def update_keeper_def merge_of_def Let_def)
  note agree = kept_contact_agrees[OF conf _ keeper c]
  show "contact_kept c d"
    using agree[of "''contact_number''" cu_contact] agree[of "''email''" cu_email] agree[of "''address''" cu_address]
    by (auto simp: contact_kept_def contact_fields_def d)
  show "cu_active c \<longrightarrow> cu_active d" using c f(1) by (auto simp: d active_in_def merge_of_fields list_ex_iff)
  show "customer_key (cu_name c) = Some (casefold (cu_name d))" using f(3)[OF c] by (simp add: d)
qed

text \<open>
  C22: Merging customer accounts (\<^verbatim>\<open>consolidate_customers\<close>) always succeeds on the plan of the current tables: no
  receipt or order still points at a removed account when it is deleted. Receipts and orders keep every field except
  the customer link, which goes to the account kept. Exactly the accounts that were moved away are removed. Each
  customer has an account in the new table: it carries every contact detail the customer had (up to case and
  spacing), stays active if the customer was, and is either unchanged or named by the shared identity.
\<close>
theorem consolidation_keeps_customers:
  assumes k: "keys_ok cu_id (ss_customers st)"
  shows "\<exists>rs st' moved. consolidate_customers st = Inr (rs, st') \<and> relinked moved st st' \<and>
    map cu_id (ss_customers st') = filter (\<lambda>k. moved k = k) (map cu_id (ss_customers st)) \<and>
    (\<forall>c \<in> set (ss_customers st). \<exists>d \<in> set (ss_customers st'). cu_id d = moved (cu_id c) \<and> contact_kept c d \<and>
       (cu_active c \<longrightarrow> cu_active d) \<and> (d = c \<or> customer_key (cu_name c) = Some (casefold (cu_name d))))"
proof -
  let ?gs = "cp_merge (customer_consolidation_plan st)"
  note apart = customer_plan_apart[OF k]
  have keeper: "keeper_of (canonical_of m) m \<in> set m \<and> keeper_of (canonical_of m) m \<in> set (ss_customers st)"
    if "m \<in> set (customer_sets st)" for m
    using keeper_member customer_set_facts(1,2)[OF that] by blast
  have "\<exists>c \<in> set (ss_customers st). cu_id c = mg_keep g" if g: "g \<in> set ?gs" for g
    using g keeper by (auto simp: plan_groups merge_of_fields)
  from merge_groups_result[OF apart this] obtain rs st' where r: "consolidate_customers st = Inr (rs, st')" "relinked (home ?gs) st st'"
    "map cu_id (ss_customers st') = filter (\<lambda>k. home ?gs k = k) (map cu_id (ss_customers st))"
    and out: "\<And>c. c \<in> set (ss_customers st) \<Longrightarrow> (\<forall>g \<in> set ?gs. cu_id c \<notin> set (group_ids g)) \<Longrightarrow> c \<in> set (ss_customers st')"
    and kept: "\<And>g c. g \<in> set ?gs \<Longrightarrow> c \<in> set (ss_customers st) \<Longrightarrow> cu_id c = mg_keep g \<Longrightarrow> update_keeper g (active_in g st) c \<in> set (ss_customers st')"
    unfolding consolidate_customers_def by blast
  have "\<exists>d \<in> set (ss_customers st'). cu_id d = home ?gs (cu_id c) \<and> contact_kept c d \<and> (cu_active c \<longrightarrow> cu_active d) \<and>
      (d = c \<or> customer_key (cu_name c) = Some (casefold (cu_name d)))" if c: "c \<in> set (ss_customers st)" for c
  proof (cases "\<forall>g \<in> set ?gs. cu_id c \<notin> set (group_ids g)")
    case True
    then have "home ?gs (cu_id c) = cu_id c" by (intro home_outside) blast
    then show ?thesis using out[OF c True] by (intro bexI[of _ c]) (auto simp: contact_kept_def)
  next
    case False
    then obtain g where g: "g \<in> set ?gs" "cu_id c \<in> set (group_ids g)" by blast
    then obtain m where m: "m \<in> set (customer_sets st)" "\<not> needs_review (canonical_of m) m" "merge_of st m \<in> set ?gs"
      and g': "g = merge_of st m" unfolding plan_groups by blast
    obtain b where b: "b \<in> set m" "cu_id b = cu_id c" using g(2) by (auto simp: g' merge_of_fields)
    have cm: "c \<in> set m" using same_customer[OF k c _ b(2)[symmetric]] customer_set_facts(1)[OF m(1)] b(1) by blast
    have "home ?gs (cu_id c) = mg_keep (merge_of st m)" using cm by (intro home_member[OF apart m(3)]) (simp add: merge_of_fields)
    then have h: "home ?gs (cu_id c) = cu_id (keeper_of (canonical_of m) m)" by (simp add: merge_of_fields)
    let ?d = "update_keeper (merge_of st m) (active_in (merge_of st m) st) (keeper_of (canonical_of m) m)"
    have "?d \<in> set (ss_customers st')" using keeper[OF m(1)] by (intro kept[OF m(3)]) (simp_all add: merge_of_fields)
    then show ?thesis
      by (rule bexI[rotated]) (intro conjI disjI2 merged_account[OF k m(1,2) cm], simp add: h)
  qed
  then show ?thesis using r by blast
qed

text \<open>A customer with only an email, a variant of the name with only a number, and a label without a name.\<close>

definition outlet_customers :: "customer list" where
  "outlet_customers =
     [\<lparr>cu_id = 1, cu_name = ''Outlet Sales'', cu_contact = None, cu_email = Some ''a@b'', cu_address = None, cu_active = False, cu_created_by = 1\<rparr>,
      \<lparr>cu_id = 2, cu_name = ''Outlet Sales Lipa'', cu_contact = Some ''09'', cu_email = Some [], cu_address = None, cu_active = True, cu_created_by = 1\<rparr>]"

definition outlet_store :: sales_store where
  "outlet_store = demo_sales\<lparr>ss_customers := outlet_customers @
     [\<lparr>cu_id = 3, cu_name = ''---'', cu_contact = None, cu_email = None, cu_address = None, cu_active = True, cu_created_by = 1\<rparr>]\<rparr>"

lemma outlet_key: "customer_key ''Outlet Sales'' = Some ''outlet sales''" "customer_key ''Outlet Sales Lipa'' = Some ''outlet sales''" "customer_key ''---'' = None"
  by code_simp+

lemma outlet_names: "casefold (strip ''Outlet Sales'') = ''outlet sales''" "casefold (strip ''Outlet Sales Lipa'') = ''outlet sales lipa''"
  by code_simp+

lemma outlet_sets: "customer_sets outlet_store = [outlet_customers]"
  by (simp add: customer_sets_def keyed_customers_def outlet_store_def outlet_customers_def outlet_key)

lemma outlet_clear: "\<not> needs_review n outlet_customers"
  by (simp add: needs_review_def outlet_customers_def outlet_names contact_conflicts_def contact_fields_def contact_values_def filled_def)

lemma outlet_moved:
  assumes "consolidate_customers outlet_store = Inr (rs, st')"
  shows "map cu_id (ss_customers st') = [1, 3]"
proof -
  have name: "canonical_of outlet_customers = ''Outlet Sales''" by (simp add: canonical_of_def outlet_customers_def) code_simp
  have "cp_merge (customer_consolidation_plan outlet_store) = [merge_of outlet_store outlet_customers]"
    by (simp add: customer_consolidation_plan_def outlet_sets outlet_clear)
  moreover have "map fst (member_details outlet_store outlet_customers) = [1, 2]" by (simp add: member_details_def outlet_customers_def)
  moreover have "cu_id (keeper_of ''Outlet Sales'' outlet_customers) = 1" by (simp add: keeper_of_def outlet_customers_def)
  ultimately show ?thesis using assms name
    by (auto simp: consolidate_customers_def merge_customers_def merge_of_def Let_def removed_of_def group_ids_def
     outlet_store_def outlet_customers_def row_get_def split: sum.splits prod.splits if_splits option.splits)
qed

theorem consolidation_keeps_customers_witness:
  "\<exists>rs st' moved. consolidate_customers outlet_store = Inr (rs, st') \<and> relinked moved outlet_store st' \<and>
    map cu_id (ss_customers st') = [1, 3] \<and>
    (\<exists>d \<in> set (ss_customers st'). cu_id d = moved 2 \<and> filled (cu_contact d) \<and> cu_active d)"
proof -
  have "keys_ok cu_id (ss_customers outlet_store)" by (simp add: outlet_store_def outlet_customers_def demo_sales_def keys_ok_def)
  from consolidation_keeps_customers[OF this] obtain rs st' moved where r: "consolidate_customers outlet_store = Inr (rs, st')" "relinked moved outlet_store st'"
    and all: "\<forall>c \<in> set (ss_customers outlet_store). \<exists>d \<in> set (ss_customers st'). cu_id d = moved (cu_id c) \<and> contact_kept c d \<and>
       (cu_active c \<longrightarrow> cu_active d) \<and> (d = c \<or> customer_key (cu_name c) = Some (casefold (cu_name d)))" by blast
  have in2: "outlet_customers ! 1 \<in> set (ss_customers outlet_store)" by (simp add: outlet_store_def outlet_customers_def)
  from bspec[OF all in2] show ?thesis
    using r outlet_moved[OF r(1)] by (auto simp: outlet_customers_def contact_kept_def contact_fields_def filled_def)
qed

end
