(* ===== verification/Refresh_Jobs.thy ===== *)
theory Refresh_Jobs
  imports Ledger "HOL-Library.AList"
begin

text \<open>
  Forecast maintenance jobs (\<^verbatim>\<open>forecasting/refresh_jobs.py\<close>, the refresh endpoint of
  \<^verbatim>\<open>forecasting/views.py\<close>, and the job table of \<^verbatim>\<open>forecasting/models.py\<close>). Requests queue a job, one worker
  process runs it under a database-wide advisory lock, and a later caller that gets the lock cleans up
  after a worker that died. The management command of a stage is code outside the model: its outcome is
  an argument. The worker is modelled statement by statement, because requests run between its
  statements; the code that only holds the lock for a moment is one step.
\<close>

subsection \<open>The job table\<close>

datatype job_status = Queued | Running | Succeeded | JobFailed

record job =
  jb_id :: nat
  jb_status :: job_status
  jb_trigger :: string
  jb_by :: "nat option"
  jb_stage :: string
  jb_results :: "(string \<times> string) list"
  jb_error :: string
  jb_created :: instant
  jb_started :: "instant option"
  jb_finished :: "instant option"

definition job_active :: "job \<Rightarrow> bool" where
  "job_active j \<longleftrightarrow> jb_status j = Queued \<or> jb_status j = Running"

definition refresh_stages :: "string list" where
  "refresh_stages = [''refresh_forecast_patterns'', ''refresh_forecast_models'', ''refresh_weekly_forecasts'',
     ''refresh_provisional_forecasts'', ''refresh_beta_graphs'', ''refresh_projection_evidence'']"

text \<open>\<^verbatim>\<open>objects.filter(P).first()\<close> with the newest row first.\<close>

definition newest_job :: "(job \<Rightarrow> bool) \<Rightarrow> job list \<Rightarrow> job option" where
  "newest_job P js = (case filter P (sort_key (\<lambda>j. - int (jb_id j)) js) of [] \<Rightarrow> None | j # _ \<Rightarrow> Some j)"

text \<open>\<^verbatim>\<open>objects.create\<close> under the constraint that one job may be active.\<close>

definition create_job :: "string \<Rightarrow> nat option \<Rightarrow> instant \<Rightarrow> job list \<Rightarrow> (job \<times> job list) res" where
  "create_job trigger user now js =
     (if list_ex job_active js then Inl IntegrityError
      else let j = \<lparr>jb_id = new_pk jb_id js, jb_status = Queued, jb_trigger = trigger, jb_by = user, jb_stage = ''queued'',
                    jb_results = [], jb_error = '''', jb_created = now, jb_started = None, jb_finished = None\<rparr>
           in Inr (j, row_ins j js))"

text \<open>\<^verbatim>\<open>save(update_fields=...)\<close> and \<^verbatim>\<open>filter(...).update(...)\<close>: an update of the row with a key.\<close>

definition update_job :: "nat \<Rightarrow> (job \<Rightarrow> job) \<Rightarrow> job list \<Rightarrow> job list" where
  "update_job k f js = map (\<lambda>j. if jb_id j = k then f j else j) js"


subsection \<open>Requests\<close>

definition ten_minutes :: instant where
  "ten_minutes = 10 * 60 * 1000000"

definition recover_abandoned :: "instant \<Rightarrow> job list \<Rightarrow> job list" where
  "recover_abandoned now js =
     map (\<lambda>j. if jb_status j = Running
          then j\<lparr>jb_status := JobFailed, jb_stage := ''interrupted'', jb_error := ''worker_interrupted'', jb_finished := Some now\<rparr>
          else if jb_status j = Queued \<and> jb_created j < now - ten_minutes
          then j\<lparr>jb_status := JobFailed, jb_stage := ''interrupted'', jb_error := ''worker_not_started'', jb_finished := Some now\<rparr>
          else j) js"

definition enqueue_refresh :: "bool \<Rightarrow> nat \<Rightarrow> instant \<Rightarrow> job list \<Rightarrow> ((job option \<times> bool) \<times> job list) res" where
  "enqueue_refresh acquired user now js =
     (if acquired
      then let js1 = recover_abandoned now js
           in case newest_job job_active js1 of
                Some j \<Rightarrow> Inr ((Some j, False), js1)
              | None \<Rightarrow> rbind (create_job ''manual'' (Some user) now js1) (\<lambda>(j, js2). Inr ((Some j, True), js2))
      else Inr ((newest_job job_active js, False), js))"

text \<open>The handler of a child process that could not be started.\<close>

definition launch_failed :: "nat \<Rightarrow> instant \<Rightarrow> job list \<Rightarrow> job list" where
  "launch_failed k now js =
     update_job k (\<lambda>j. if jb_status j = Queued
       then j\<lparr>jb_status := JobFailed, jb_stage := ''launch_failed'', jb_error := ''worker_launch_failed'', jb_finished := Some now\<rparr>
       else j) js"

definition lookup_refresh :: "bool \<Rightarrow> nat option \<Rightarrow> instant \<Rightarrow> job list \<Rightarrow> job option \<times> job list" where
  "lookup_refresh acquired job_id now js =
     (let js1 = (if acquired then recover_abandoned now js else js)
      in (case job_id of Some k \<Rightarrow> row_get jb_id js1 k | None \<Rightarrow> newest_job (\<lambda>_. True) js1, js1))"

text \<open>
  The endpoint: the status code and the answer of a request to start a refresh. \<open>started\<close> tells whether
  the child process could be launched.
\<close>

definition refresh_post :: "bool \<Rightarrow> bool \<Rightarrow> nat \<Rightarrow> instant \<Rightarrow> job list \<Rightarrow> ((nat \<times> (job \<times> bool) option) \<times> job list) res" where
  "refresh_post acquired started user now js =
     rbind (enqueue_refresh acquired user now js) (\<lambda>((jo, created), js1).
       case jo of
         None \<Rightarrow> Inr ((409, None), js1)
       | Some j \<Rightarrow>
           let js2 = (if created \<and> \<not> started then launch_failed (jb_id j) now js1 else js1);
               j2 = (if created then fill (row_get jb_id js2 (jb_id j)) j else j)
           in Inr ((202, Some (j2, \<not> created)), js2))"


subsection \<open>The worker\<close>

definition select_job :: "nat option \<Rightarrow> instant \<Rightarrow> job list \<Rightarrow> (job \<times> job list) res" where
  "select_job job_id now js =
     (case job_id of
        None \<Rightarrow> (case newest_job (\<lambda>j. jb_status j = Queued) js of
                   Some j \<Rightarrow> Inr (j, js)
                 | None \<Rightarrow> create_job ''scheduled'' None now js)
      | Some k \<Rightarrow> (case row_get jb_id js k of None \<Rightarrow> Inl (DoesNotExist ''ForecastRefreshJob'') | Some j \<Rightarrow> Inr (j, js)))"

text \<open>
  Where a worker is, with its own copy of the job: it has read a queued job; it is about to enter the
  stage with a number; the command of that stage is running.
\<close>

datatype worker = Chosen job | Between nat job | InStage nat job

definition worker_begin :: "instant \<Rightarrow> job \<Rightarrow> job list \<Rightarrow> worker \<times> job list" where
  "worker_begin now j js =
     (let j1 = j\<lparr>jb_status := Running, jb_started := Some now\<rparr>
      in (Between 0 j1, update_job (jb_id j) (\<lambda>r. r\<lparr>jb_status := jb_status j1, jb_started := jb_started j1\<rparr>) js))"

definition worker_enter :: "nat \<Rightarrow> job \<Rightarrow> job list \<Rightarrow> worker \<times> job list" where
  "worker_enter n j js =
     (let j1 = j\<lparr>jb_stage := refresh_stages ! n\<rparr>
      in (InStage n j1, update_job (jb_id j) (\<lambda>r. r\<lparr>jb_stage := jb_stage j1\<rparr>) js))"

definition worker_stage_done :: "nat \<Rightarrow> string \<Rightarrow> job \<Rightarrow> job list \<Rightarrow> worker \<times> job list" where
  "worker_stage_done n output j js =
     (let j1 = j\<lparr>jb_results := AList.update (refresh_stages ! n) output (jb_results j)\<rparr>
      in (Between (Suc n) j1, update_job (jb_id j) (\<lambda>r. r\<lparr>jb_results := jb_results j1\<rparr>) js))"

text \<open>The end of a run, with the exception of a stage if there was one: is it a \<^verbatim>\<open>ValueError\<close>?\<close>

definition worker_finish :: "instant \<Rightarrow> bool option \<Rightarrow> job \<Rightarrow> job list \<Rightarrow> job \<times> job list" where
  "worker_finish now exc j js =
     (let j1 = (case exc of
          None \<Rightarrow> j\<lparr>jb_status := Succeeded, jb_stage := ''complete''\<rparr>
        | Some value_error \<Rightarrow> j\<lparr>jb_status := JobFailed, jb_error := (if value_error then ''source_changed'' else ''refresh_failed'')\<rparr>);
          j2 = j1\<lparr>jb_finished := Some now\<rparr>
      in (j2, update_job (jb_id j) (\<lambda>r. r\<lparr>jb_status := jb_status j2, jb_stage := jb_stage j2, jb_error := jb_error j2,
            jb_finished := jb_finished j2, jb_results := jb_results j2\<rparr>) js))"


text \<open>
  One run without interruption, with the outcome of every stage command: the exception it raised or its
  output. The result is the status that the command reports, and the key of the job.
\<close>

fun job_of :: "worker \<Rightarrow> job" where
  "job_of (Chosen j) = j"
| "job_of (Between n j) = j"
| "job_of (InStage n j) = j"

fun run_stages :: "(nat \<Rightarrow> bool + string) \<Rightarrow> nat list \<Rightarrow> job \<Rightarrow> job list \<Rightarrow> (bool option \<times> job) \<times> job list" where
  "run_stages command [] j js = ((None, j), js)"
| "run_stages command (n # ns) j js =
     (let (w, js1) = worker_enter n j js
      in case command n of
           Inl value_error \<Rightarrow> ((Some value_error, job_of w), js1)
         | Inr output \<Rightarrow> let (w2, js2) = worker_stage_done n output (job_of w) js1 in run_stages command ns (job_of w2) js2)"

definition status_text :: "job_status \<Rightarrow> string" where
  "status_text st = (case st of Queued \<Rightarrow> ''queued'' | Running \<Rightarrow> ''running'' | Succeeded \<Rightarrow> ''succeeded'' | JobFailed \<Rightarrow> ''failed'')"

definition run_maintenance ::
    "bool \<Rightarrow> nat option \<Rightarrow> (nat \<Rightarrow> bool + string) \<Rightarrow> instant \<Rightarrow> instant \<Rightarrow> instant \<Rightarrow> job list \<Rightarrow> ((string \<times> nat option) \<times> job list) res" where
  "run_maintenance acquired job_id command now started finished js =
     (if \<not> acquired then Inr ((''busy'', map_option jb_id (newest_job job_active js)), js)
      else rbind (select_job job_id now (recover_abandoned now js)) (\<lambda>(j, js1).
        if jb_status j \<noteq> Queued then Inr ((status_text (jb_status j), Some (jb_id j)), js1)
        else let (w, js2) = worker_begin started j js1;
                 ((exc, j1), js3) = run_stages command [0..<length refresh_stages] (job_of w) js2;
                 (j2, js4) = worker_finish finished exc j1 js3
             in Inr ((status_text (jb_status j2), Some (jb_id j2)), js4)))"


subsection \<open>Everything together\<close>

text \<open>The lock is held exactly while there is a worker; a worker that dies loses it without a trace in the table.\<close>

record refresh_state =
  rf_jobs :: "job list"
  rf_worker :: "worker option"

definition lock_free :: "refresh_state \<Rightarrow> bool" where
  "lock_free s \<longleftrightarrow> rf_worker s = None"

inductive refresh_step :: "refresh_state \<Rightarrow> refresh_state \<Rightarrow> bool" where
  post: "refresh_post (lock_free s) started user now (rf_jobs s) = Inr (r, js) \<Longrightarrow> refresh_step s (s\<lparr>rf_jobs := js\<rparr>)"
| late_launch_failure: "refresh_step s (s\<lparr>rf_jobs := launch_failed k now (rf_jobs s)\<rparr>)"
| poll: "lookup_refresh (lock_free s) k now (rf_jobs s) = (r, js) \<Longrightarrow> refresh_step s (s\<lparr>rf_jobs := js\<rparr>)"
| choose: "lock_free s \<Longrightarrow> select_job k now (recover_abandoned now (rf_jobs s)) = Inr (j, js) \<Longrightarrow> jb_status j = Queued \<Longrightarrow>
    refresh_step s (s\<lparr>rf_jobs := js, rf_worker := Some (Chosen j)\<rparr>)"
| give_up: "lock_free s \<Longrightarrow> select_job k now (recover_abandoned now (rf_jobs s)) = Inr (j, js) \<Longrightarrow> jb_status j \<noteq> Queued \<Longrightarrow>
    refresh_step s (s\<lparr>rf_jobs := js\<rparr>)"
| missing: "lock_free s \<Longrightarrow> select_job k now (recover_abandoned now (rf_jobs s)) = Inl e \<Longrightarrow>
    refresh_step s (s\<lparr>rf_jobs := recover_abandoned now (rf_jobs s)\<rparr>)"
| begin_run: "rf_worker s = Some (Chosen j) \<Longrightarrow> worker_begin now j (rf_jobs s) = (w, js) \<Longrightarrow>
    refresh_step s (s\<lparr>rf_jobs := js, rf_worker := Some w\<rparr>)"
| enter_stage: "rf_worker s = Some (Between n j) \<Longrightarrow> n < length refresh_stages \<Longrightarrow> worker_enter n j (rf_jobs s) = (w, js) \<Longrightarrow>
    refresh_step s (s\<lparr>rf_jobs := js, rf_worker := Some w\<rparr>)"
| stage_done: "rf_worker s = Some (InStage n j) \<Longrightarrow> worker_stage_done n out j (rf_jobs s) = (w, js) \<Longrightarrow>
    refresh_step s (s\<lparr>rf_jobs := js, rf_worker := Some w\<rparr>)"
| stage_fails: "rf_worker s = Some (InStage n j) \<Longrightarrow> worker_finish now (Some v) j (rf_jobs s) = (j', js) \<Longrightarrow>
    refresh_step s (s\<lparr>rf_jobs := js, rf_worker := None\<rparr>)"
| completes: "rf_worker s = Some (Between (length refresh_stages) j) \<Longrightarrow> worker_finish now None j (rf_jobs s) = (j', js) \<Longrightarrow>
    refresh_step s (s\<lparr>rf_jobs := js, rf_worker := None\<rparr>)"
| dies: "refresh_step s (s\<lparr>rf_worker := None\<rparr>)"

inductive refresh_reachable :: "refresh_state \<Rightarrow> bool" where
  empty: "refresh_reachable \<lparr>rf_jobs = [], rf_worker = None\<rparr>"
| step: "refresh_reachable s \<Longrightarrow> refresh_step s s' \<Longrightarrow> refresh_reachable s'"

inductive_cases refresh_stepE: "refresh_step s s'"

subsection \<open>The invariant\<close>

definition row_ok :: "job \<Rightarrow> bool" where
  "row_ok j \<longleftrightarrow> (jb_status j = Succeeded \<longrightarrow> map fst (jb_results j) = refresh_stages) \<and> (jb_status j = Queued \<longrightarrow> jb_results j = [])"

definition jobs_ok :: "job list \<Rightarrow> bool" where
  "jobs_ok js \<longleftrightarrow> keys_ok jb_id js \<and> (\<forall>j \<in> set js. row_ok j) \<and>
     (\<forall>a \<in> set js. \<forall>b \<in> set js. job_active a \<and> job_active b \<longrightarrow> a = b)"

text \<open>While a worker holds the lock, only its job is active.\<close>

definition owns :: "job \<Rightarrow> job_status set \<Rightarrow> job list \<Rightarrow> bool" where
  "owns j S js \<longleftrightarrow> (\<exists>r \<in> set js. jb_id r = jb_id j \<and> jb_status r \<in> S) \<and> (\<forall>r \<in> set js. job_active r \<longrightarrow> jb_id r = jb_id j)"

fun worker_ok :: "worker option \<Rightarrow> job list \<Rightarrow> bool" where
  "worker_ok None js \<longleftrightarrow> True"
| "worker_ok (Some (Chosen j)) js \<longleftrightarrow> jb_results j = [] \<and> owns j {Queued, JobFailed} js"
| "worker_ok (Some (Between n j)) js \<longleftrightarrow> map fst (jb_results j) = take n refresh_stages \<and> owns j {Running} js"
| "worker_ok (Some (InStage n j)) js \<longleftrightarrow> n < length refresh_stages \<and> map fst (jb_results j) = take n refresh_stages \<and> owns j {Running} js"

definition refresh_ok :: "refresh_state \<Rightarrow> bool" where
  "refresh_ok s \<longleftrightarrow> jobs_ok (rf_jobs s) \<and> worker_ok (rf_worker s) (rf_jobs s)"

lemma newest_Some: "newest_job P js = Some j \<Longrightarrow> j \<in> set js \<and> P j"
proof -
  assume "newest_job P js = Some j"
  then obtain xs where e: "filter P (sort_key (\<lambda>j. - int (jb_id j)) js) = j # xs" by (auto simp: newest_job_def split: list.splits)
  have "j \<in> set (filter P (sort_key (\<lambda>j. - int (jb_id j)) js))" unfolding e by simp
  then show ?thesis by simp
qed

lemma newest_None: "newest_job P js = None \<longleftrightarrow> (\<forall>j \<in> set js. \<not> P j)"
proof -
  have "newest_job P js = None \<longleftrightarrow> filter P (sort_key (\<lambda>j. - int (jb_id j)) js) = []"
    by (auto simp: newest_job_def split: list.splits)
  then show ?thesis by (simp add: filter_empty_conv)
qed

text \<open>Jobs only ever leave the active statuses by failing, except at the hands of the worker.\<close>

definition demoted :: "job \<Rightarrow> job \<Rightarrow> bool" where
  "demoted j j' \<longleftrightarrow> j' = j \<or> (jb_id j' = jb_id j \<and> job_active j \<and> jb_status j' = JobFailed)"

lemma demoted_id: "demoted j j' \<Longrightarrow> jb_id j' = jb_id j"
  by (auto simp: demoted_def)

lemma demoted_active: "demoted j j' \<Longrightarrow> job_active j' \<Longrightarrow> j' = j"
  by (auto simp: demoted_def job_active_def)

lemma demote_ok:
  assumes ok: "jobs_ok js" and d: "\<And>j. demoted j (f j)" shows "jobs_ok (map f js)"
proof -
  have "map jb_id (map f js) = map jb_id js" using demoted_id[OF d] by simp
  then have "keys_ok jb_id (map f js)" using ok unfolding jobs_ok_def keys_ok_def by metis
  moreover have "row_ok (f j)" if "j \<in> set js" for j
  proof -
    have "row_ok j" using ok that by (simp add: jobs_ok_def)
    with d[of j] show ?thesis by (auto simp: demoted_def row_ok_def)
  qed
  moreover have "f a = f b" if "a \<in> set js" "b \<in> set js" "job_active (f a)" "job_active (f b)" for a b
    using ok that demoted_active[OF d] unfolding jobs_ok_def by metis
  ultimately show ?thesis by (auto simp: jobs_ok_def)
qed

lemma recover_as_map: "\<exists>f. recover_abandoned now js = map f js \<and> (\<forall>j. demoted j (f j)) \<and> (\<forall>j. jb_status (f j) \<noteq> Running)"
  unfolding recover_abandoned_def
  by (intro exI conjI allI, rule refl) (auto simp: demoted_def job_active_def)

lemma recover_ok: "jobs_ok js \<Longrightarrow> jobs_ok (recover_abandoned now js)"
  using recover_as_map[of now js] demote_ok by metis

lemma recover_not_running: "j \<in> set (recover_abandoned now js) \<Longrightarrow> jb_status j \<noteq> Running"
  using recover_as_map[of now js] by auto

lemma launch_failed_as_map: "\<exists>f. launch_failed k now js = map f js \<and> (\<forall>j. demoted j (f j)) \<and> (\<forall>j. jb_status j = Running \<longrightarrow> f j = j)"
  unfolding launch_failed_def update_job_def
  by (intro exI conjI allI, rule refl) (auto simp: demoted_def job_active_def)

lemma launch_failed_ok: "jobs_ok js \<Longrightarrow> jobs_ok (launch_failed k now js)"
  using launch_failed_as_map[of k now js] demote_ok by metis

lemma launch_failed_worker:
  assumes "worker_ok w js" shows "worker_ok w (launch_failed k now js)"
proof -
  obtain f where f: "launch_failed k now js = map f js" "\<And>j. demoted j (f j)" "\<And>j. jb_status j = Running \<Longrightarrow> f j = j"
    using launch_failed_as_map[of k now js] by blast
  have "owns j S (map f js)" if o: "owns j S js" and S: "S = {Running} \<or> S = {Queued, JobFailed}" for j S
  proof -
    obtain r where r: "r \<in> set js" "jb_id r = jb_id j" "jb_status r \<in> S" using o by (auto simp: owns_def)
    have "jb_status (f r) \<in> S" using f(2)[of r] f(3)[of r] r(3) S by (auto simp: demoted_def)
    moreover have "jb_id (f r) = jb_id j" using demoted_id[OF f(2)] r(2) by simp
    moreover have "jb_id (f x) = jb_id j" if "x \<in> set js" "job_active (f x)" for x
      using o that demoted_active[OF f(2) that(2)] by (simp add: owns_def)
    ultimately show ?thesis using r(1) by (auto simp: owns_def)
  qed
  with assms show ?thesis unfolding f(1) by (cases "(w, js)" rule: worker_ok.cases) auto
qed

lemma create_job_ok:
  assumes ok: "jobs_ok js" and c: "create_job t u now js = Inr (j, js')"
  shows "jobs_ok js' \<and> j \<in> set js' \<and> jb_status j = Queued \<and> jb_results j = [] \<and> set js' = insert j (set js) \<and> (\<forall>x \<in> set js. \<not> job_active x)"
proof -
  have n: "\<forall>x \<in> set js. \<not> job_active x" and js': "js' = row_ins j js" and jid: "jb_id j = new_pk jb_id js"
    and q: "jb_status j = Queued" "jb_results j = []"
    using c by (auto simp: create_job_def Let_def list_ex_iff split: if_splits)
  have "keys_ok jb_id js'" using ok by (simp add: js' keys_ok_ins jid jobs_ok_def)
  moreover have "row_ok j" using q by (simp add: row_ok_def)
  ultimately have "jobs_ok js'" using ok n by (auto simp: jobs_ok_def js' row_ins_def)
  with n q show ?thesis by (auto simp: js' row_ins_def)
qed

text \<open>The write of a worker: the row of its job, which is the only active one.\<close>

lemma worker_write_ok:
  assumes ok: "jobs_ok js" and only: "\<forall>r \<in> set js. job_active r \<longrightarrow> jb_id r = k"
    and f: "\<And>r. r \<in> set js \<Longrightarrow> jb_id r = k \<Longrightarrow> jb_id (f r) = k \<and> row_ok (f r)"
  shows "jobs_ok (update_job k f js)"
proof -
  let ?g = "\<lambda>j. if jb_id j = k then f j else j"
  have id: "jb_id (?g j) = jb_id j" if "j \<in> set js" for j using f that by auto
  then have "map jb_id (update_job k f js) = map jb_id js" by (auto simp: update_job_def)
  then have keys: "keys_ok jb_id (update_job k f js)" using ok unfolding jobs_ok_def keys_ok_def by metis
  have "row_ok (?g j)" if "j \<in> set js" for j using ok f that by (auto simp: jobs_ok_def)
  then have rows: "\<forall>j \<in> set (update_job k f js). row_ok j" unfolding update_job_def set_map by blast
  have "jb_id j = k" if "j \<in> set (update_job k f js)" "job_active j" for j
    using only f that by (auto simp: update_job_def split: if_split_asm)
  then have "a = b" if "a \<in> set (update_job k f js)" "b \<in> set (update_job k f js)" "job_active a" "job_active b" for a b
    using that keys by (metis row_get_iff option.inject)
  then show ?thesis unfolding jobs_ok_def using keys rows by blast
qed

lemma worker_write_owns:
  assumes o: "owns j S js" and f: "\<And>r. jb_id r = jb_id j \<Longrightarrow> jb_id (f r) = jb_id j \<and> (jb_status r \<in> S \<longrightarrow> jb_status (f r) \<in> T)"
    and id: "jb_id j' = jb_id j"
  shows "owns j' T (update_job (jb_id j) f js)"
proof -
  obtain r where r: "r \<in> set js" "jb_id r = jb_id j" "jb_status r \<in> S" using o by (auto simp: owns_def)
  then have "f r \<in> set (update_job (jb_id j) f js)" by (force simp: update_job_def)
  moreover have "jb_id x = jb_id j" if "x \<in> set (update_job (jb_id j) f js)" "job_active x" for x
    using o f that by (auto simp: owns_def update_job_def split: if_split_asm)
  ultimately show ?thesis using f[OF r(2)] r(3) id unfolding owns_def by metis
qed

text \<open>With distinct keys a row that shares the worker's key is the worker's row.\<close>

lemma owns_status:
  assumes "jobs_ok js" "owns j S js" "r \<in> set js" "jb_id r = jb_id j" shows "jb_status r \<in> S"
  using assms unfolding owns_def jobs_ok_def by (metis row_get_iff option.inject)

subsection \<open>Every step keeps it\<close>

lemma enqueue_ok:
  assumes ok: "jobs_ok js" and e: "enqueue_refresh acquired user now js = Inr ((jo, created), js')"
  shows "jobs_ok js' \<and> (acquired \<or> js' = js \<and> \<not> created)"
proof (cases acquired)
  case True
  note r = recover_ok[OF ok, of now]
  show ?thesis
  proof (cases "newest_job job_active (recover_abandoned now js)")
    case None
    with e True obtain j where "create_job ''manual'' (Some user) now (recover_abandoned now js) = Inr (j, js')"
      by (auto simp: enqueue_refresh_def)
    with create_job_ok[OF r this] True show ?thesis by simp
  qed (use e True r in \<open>auto simp: enqueue_refresh_def\<close>)
qed (use e ok in \<open>auto simp: enqueue_refresh_def\<close>)

lemma post_ok:
  assumes ok: "jobs_ok js" and p: "refresh_post acquired started user now js = Inr (r, js')"
  shows "jobs_ok js' \<and> (acquired \<or> js' = js)"
proof -
  obtain jo c js1 where e: "enqueue_refresh acquired user now js = Inr ((jo, c), js1)"
    and rest: "js' = (case jo of None \<Rightarrow> js1 | Some j \<Rightarrow> if c \<and> \<not> started then launch_failed (jb_id j) now js1 else js1)"
    using p by (auto simp: refresh_post_def Let_def split: option.splits)
  from enqueue_ok[OF ok e] have 1: "jobs_ok js1" "acquired \<or> js1 = js \<and> \<not> c" by auto
  then show ?thesis using launch_failed_ok[OF 1(1)] rest by (auto split: option.splits)
qed

lemma select_ok:
  assumes ok: "jobs_ok js" and nr: "\<And>j. j \<in> set js \<Longrightarrow> jb_status j \<noteq> Running" and s: "select_job k now js = Inr (j, js')"
  shows "jobs_ok js' \<and> (jb_status j = Queued \<longrightarrow> worker_ok (Some (Chosen j)) js')"
proof -
  have own: "worker_ok (Some (Chosen j)) js" if j: "j \<in> set js" "jb_status j = Queued" for j
  proof -
    have "row_ok j" "\<forall>r \<in> set js. job_active r \<longrightarrow> r = j" using ok j by (auto simp: jobs_ok_def job_active_def)
    with j show ?thesis by (auto simp: owns_def row_ok_def)
  qed
  show ?thesis
  proof (cases k)
    case None
    show ?thesis
    proof (cases "newest_job (\<lambda>j. jb_status j = Queued) js")
      case (Some j')
      with None s newest_Some[OF Some] own ok show ?thesis by (auto simp: select_job_def)
    next
      case n: None
      with None s have "create_job ''scheduled'' None now js = Inr (j, js')" by (simp add: select_job_def)
      from create_job_ok[OF ok this] show ?thesis by (auto simp: owns_def job_active_def)
    qed
  next
    case (Some i)
    with s have j: "row_get jb_id js i = Some j" "js' = js" by (auto simp: select_job_def split: option.splits)
    with row_get_Some[OF j(1)] own ok show ?thesis by simp
  qed
qed

lemma begin_ok:
  assumes ok: "jobs_ok js" and w: "worker_ok (Some (Chosen j)) js" and b: "worker_begin now j js = (x, js')"
  shows "jobs_ok js' \<and> worker_ok (Some x) js'"
proof -
  let ?f = "\<lambda>r. r\<lparr>jb_status := Running, jb_started := Some now\<rparr>"
  have js': "js' = update_job (jb_id j) ?f js" and x: "x = Between 0 (j\<lparr>jb_status := Running, jb_started := Some now\<rparr>)"
    using b by (auto simp: worker_begin_def Let_def)
  have o: "owns j {Queued, JobFailed} js" using w by simp
  have "jobs_ok js'" unfolding js' using o by (intro worker_write_ok[OF ok]) (auto simp: owns_def row_ok_def)
  moreover have "owns (j\<lparr>jb_status := Running, jb_started := Some now\<rparr>) {Running} js'"
    unfolding js' by (rule worker_write_owns[OF o]) auto
  ultimately show ?thesis using w by (simp add: x)
qed

lemma running_write:
  assumes ok: "jobs_ok js" and o: "owns j {Running} js" and id: "jb_id j' = jb_id j"
    and f: "\<And>r. jb_id (f r) = jb_id r \<and> jb_status (f r) = jb_status r"
  shows "jobs_ok (update_job (jb_id j) f js) \<and> owns j' {Running} (update_job (jb_id j) f js)"
proof
  show "jobs_ok (update_job (jb_id j) f js)"
  proof (rule worker_write_ok[OF ok])
    fix r assume r: "r \<in> set js" "jb_id r = jb_id j"
    have "jb_status r = Running" using owns_status[OF ok o r] by simp
    with r f[of r] show "jb_id (f r) = jb_id j \<and> row_ok (f r)" by (simp add: row_ok_def)
  qed (use o in \<open>simp add: owns_def\<close>)
  show "owns j' {Running} (update_job (jb_id j) f js)" by (rule worker_write_owns[OF o _ id]) (use f in auto)
qed

lemma enter_ok:
  assumes "jobs_ok js" "worker_ok (Some (Between n j)) js" "n < length refresh_stages" "worker_enter n j js = (x, js')"
  shows "jobs_ok js' \<and> worker_ok (Some x) js'"
  using running_write[OF assms(1), of j "j\<lparr>jb_stage := refresh_stages ! n\<rparr>" "\<lambda>r. r\<lparr>jb_stage := refresh_stages ! n\<rparr>"] assms(2-4)
  by (auto simp: worker_enter_def Let_def)

lemma distinct_stages: "distinct refresh_stages"
  by (simp add: refresh_stages_def)

lemma keys_update:
  assumes "map fst al = take n refresh_stages" "n < length refresh_stages"
  shows "map fst (AList.update (refresh_stages ! n) v al) = take (Suc n) refresh_stages"
proof -
  have "refresh_stages ! n \<notin> set (take n refresh_stages)"
    using distinct_stages assms(2) by (metis distinct_take id_take_nth_drop not_distinct_conv_prefix)
  then have "refresh_stages ! n \<notin> set (map fst al)" by (simp add: assms(1))
  then show ?thesis using assms by (simp add: update_keys take_Suc_conv_app_nth)
qed

lemma stage_done_ok:
  assumes "jobs_ok js" "worker_ok (Some (InStage n j)) js" "worker_stage_done n out j js = (x, js')"
  shows "jobs_ok js' \<and> worker_ok (Some x) js'"
  using running_write[OF assms(1), of j "j\<lparr>jb_results := AList.update (refresh_stages ! n) out (jb_results j)\<rparr>"
      "\<lambda>r. r\<lparr>jb_results := AList.update (refresh_stages ! n) out (jb_results j)\<rparr>"] assms(2,3) keys_update
  by (auto simp: worker_stage_done_def Let_def)

lemma finish_ok:
  assumes ok: "jobs_ok js" and o: "owns j {Running} js" and f: "worker_finish now exc j js = (j', js')"
    and full: "exc = None \<Longrightarrow> map fst (jb_results j) = refresh_stages"
  shows "jobs_ok js'"
proof -
  have js': "js' = update_job (jb_id j) (\<lambda>r. r\<lparr>jb_status := jb_status j', jb_stage := jb_stage j', jb_error := jb_error j',
            jb_finished := jb_finished j', jb_results := jb_results j'\<rparr>) js"
    and j': "jb_results j' = jb_results j" "jb_status j' = (if exc = None then Succeeded else JobFailed)"
    using f by (auto simp: worker_finish_def Let_def split: option.splits)
  show ?thesis unfolding js' using o full by (intro worker_write_ok[OF ok]) (auto simp: owns_def row_ok_def j')
qed

lemma refresh_step_ok: "refresh_step s s' \<Longrightarrow> refresh_ok s \<Longrightarrow> refresh_ok s'"
proof (induction rule: refresh_step.induct)
  case (post s started user now r js)
  from post_ok[OF _ post(1)] post(2) show ?case by (auto simp: refresh_ok_def lock_free_def)
next
  case (late_launch_failure s k now)
  then show ?case using launch_failed_ok launch_failed_worker by (simp add: refresh_ok_def)
next
  case (poll s k now r js)
  then show ?case using recover_ok by (auto simp: refresh_ok_def lookup_refresh_def Let_def lock_free_def split: if_split_asm)
next
  case (choose s k now j js)
  have "jobs_ok (recover_abandoned now (rf_jobs s))" using choose(4) recover_ok by (simp add: refresh_ok_def)
  from select_ok[OF this recover_not_running choose(2)] choose(3) show ?case by (simp add: refresh_ok_def)
next
  case (give_up s k now j js)
  have "jobs_ok (recover_abandoned now (rf_jobs s))" using give_up(4) recover_ok by (simp add: refresh_ok_def)
  from select_ok[OF this recover_not_running give_up(2)] give_up(1) show ?case by (simp add: refresh_ok_def lock_free_def)
next
  case (missing s k now e)
  then show ?case using recover_ok by (simp add: refresh_ok_def lock_free_def)
next
  case (begin_run s j now w js)
  then show ?case using begin_ok[of "rf_jobs s" j now w js] by (simp add: refresh_ok_def)
next
  case (enter_stage s n j w js)
  then show ?case using enter_ok[of "rf_jobs s" n j w js] by (simp add: refresh_ok_def)
next
  case (stage_done s n j out w js)
  then show ?case using stage_done_ok[of "rf_jobs s" n j out w js] by (simp add: refresh_ok_def)
next
  case (stage_fails s n j now v j' js)
  then show ?case using finish_ok[of "rf_jobs s" j now "Some v" j' js] by (simp add: refresh_ok_def)
next
  case (completes s j now j' js)
  then show ?case using finish_ok[of "rf_jobs s" j now None j' js] by (simp add: refresh_ok_def)
next
  case (dies s)
  then show ?case by (simp add: refresh_ok_def)
qed

lemma reachable_refresh_ok: "refresh_reachable s \<Longrightarrow> refresh_ok s"
proof (induction rule: refresh_reachable.induct)
  case empty
  show ?case by (simp add: refresh_ok_def jobs_ok_def keys_ok_def)
next
  case (step s s')
  then show ?case using refresh_step_ok by blast
qed

subsection \<open>Properties\<close>

lemma single_active_count: "jobs_ok js \<Longrightarrow> length (filter job_active js) \<le> 1"
proof -
  assume ok: "jobs_ok js"
  have d: "distinct (filter job_active js)" using ok by (simp add: jobs_ok_def keys_ok_def distinct_map)
  have "a = b" if "a \<in> set (filter job_active js)" "b \<in> set (filter job_active js)" for a b
    using ok that by (auto simp: jobs_ok_def)
  then have "card (set (filter job_active js)) \<le> Suc 0" unfolding card_le_Suc0_iff_eq[OF List.finite_set] by blast
  then show ?thesis using distinct_card[OF d] by simp
qed

lemma create_accepts: "newest_job job_active xs = None \<Longrightarrow> \<exists>j ys. create_job t u now xs = Inr (j, ys)"
  by (auto simp: newest_None create_job_def Let_def list_ex_iff)

lemma enqueue_accepts: "\<exists>r js'. enqueue_refresh acquired user now js = Inr (r, js')"
proof (cases "newest_job job_active (recover_abandoned now js)")
  case None
  from create_accepts[OF None, of "''manual''" "Some user" now] None show ?thesis by (auto simp: enqueue_refresh_def)
qed (auto simp: enqueue_refresh_def)

text \<open>
  C15: Whatever requests, launch failures, crashes and worker statements come in whatever order, at most
  one maintenance job is active, a job reported as succeeded has the output of all six stages in order,
  and a request to start a refresh never hits the uniqueness constraint.
\<close>

theorem single_active_refresh:
  assumes "refresh_reachable s"
  shows "length (filter job_active (rf_jobs s)) \<le> 1 \<and>
    (\<forall>j \<in> set (rf_jobs s). jb_status j = Succeeded \<longrightarrow> map fst (jb_results j) = refresh_stages) \<and>
    (\<exists>r js. refresh_post (lock_free s) started user now (rf_jobs s) = Inr (r, js))"
proof -
  have ok: "jobs_ok (rf_jobs s)" using reachable_refresh_ok[OF assms] by (simp add: refresh_ok_def)
  obtain jo c js where "enqueue_refresh (lock_free s) user now (rf_jobs s) = Inr ((jo, c), js)"
    using enqueue_accepts[of "lock_free s" user now "rf_jobs s"] by force
  then have "\<exists>r js. refresh_post (lock_free s) started user now (rf_jobs s) = Inr (r, js)"
    by (cases jo) (auto simp: refresh_post_def Let_def)
  with single_active_count[OF ok] ok show ?thesis by (auto simp: jobs_ok_def row_ok_def)
qed

text \<open>
  C35: Maintenance is never blocked for good. When no worker holds the lock and no queued job is younger
  than ten minutes, a request gets a new job whatever a dead worker left behind, and it is the active one.
\<close>

theorem refresh_never_stuck:
  assumes "refresh_reachable s" "lock_free s"
    and "\<forall>j \<in> set (rf_jobs s). jb_status j = Queued \<longrightarrow> jb_created j < now - ten_minutes"
  shows "\<exists>j js. enqueue_refresh True user now (rf_jobs s) = Inr ((Some j, True), js) \<and> filter job_active js = [j]"
proof -
  let ?js = "recover_abandoned now (rf_jobs s)"
  have none: "\<forall>j \<in> set ?js. \<not> job_active j"
    using assms(3) by (auto simp: recover_abandoned_def job_active_def)
  then have "newest_job job_active ?js = None" by (simp add: newest_None)
  moreover have "\<not> list_ex job_active ?js" using none by (simp add: list_ex_iff)
  moreover have "filter job_active ?js = []" using none by (simp add: filter_empty_conv)
  ultimately show ?thesis
    by (simp add: enqueue_refresh_def create_job_def Let_def row_ins_def job_active_def)
qed

text \<open>
  The record of a successful run is final: no later request, cleanup, launch failure or worker
  statement changes it.
\<close>

lemma succeeded_job_final:
  assumes "refresh_reachable s" "refresh_step s s'" "j \<in> set (rf_jobs s)" "jb_status j = Succeeded"
  shows "j \<in> set (rf_jobs s')"
proof -
  have ok: "refresh_ok s" by (rule reachable_refresh_ok[OF assms(1)])
  have rec: "j \<in> set (recover_abandoned now js)" if "j \<in> set js" for now js
    using that assms(4) by (force simp: recover_abandoned_def)
  have ins: "create_job t u now js = Inr (x, js') \<Longrightarrow> j \<in> set js \<Longrightarrow> j \<in> set js'" for t u now js x js'
    by (auto simp: create_job_def Let_def row_ins_def split: if_splits)
  have lf: "j \<in> set js \<Longrightarrow> j \<in> set (launch_failed k now js)" for k now js
    using assms(4) by (force simp: launch_failed_def update_job_def)
  have sel: "select_job k now js = Inr (x, js') \<Longrightarrow> j \<in> set js \<Longrightarrow> j \<in> set js'" for k now js x js'
    using ins by (auto simp: select_job_def split: option.splits)
  have upd: "j \<in> set (update_job (jb_id i) f js)" if o: "owns i S js" "jobs_ok js" "Succeeded \<notin> S" "j \<in> set js" for i S f js
  proof -
    have "jb_id j \<noteq> jb_id i" using owns_status[OF o(2,1,4)] o(3) assms(4) by auto
    then show ?thesis using o(4) by (force simp: update_job_def)
  qed
  from assms(2) ok assms(3) show ?thesis
  proof (induction rule: refresh_step.induct)
    case (post s started user now r js)
    then show ?case using rec ins lf
      by (auto simp: refresh_post_def enqueue_refresh_def Let_def split: option.splits if_splits)
  qed (auto simp: lf rec lookup_refresh_def Let_def refresh_ok_def worker_begin_def worker_enter_def worker_stage_done_def
        worker_finish_def intro!: upd intro: sel split: if_splits)
qed

text \<open>An uninterrupted run is a path of the step relation.\<close>

abbreviation at_work :: "job list \<Rightarrow> worker option \<Rightarrow> refresh_state" where
  "at_work js w \<equiv> \<lparr>rf_jobs = js, rf_worker = w\<rparr>"

lemma worker_steps:
  "worker_begin now j js = (w, js') \<Longrightarrow> refresh_step (at_work js (Some (Chosen j))) (at_work js' (Some w))"
  "n < length refresh_stages \<Longrightarrow> worker_enter n j js = (w, js') \<Longrightarrow> refresh_step (at_work js (Some (Between n j))) (at_work js' (Some w))"
  "worker_stage_done n out j js = (w, js') \<Longrightarrow> refresh_step (at_work js (Some (InStage n j))) (at_work js' (Some w))"
  "worker_finish now (Some v) j js = (j', js') \<Longrightarrow> refresh_step (at_work js (Some (InStage n j))) (at_work js' None)"
  "worker_finish now None j js = (j', js') \<Longrightarrow> refresh_step (at_work js (Some (Between (length refresh_stages) j))) (at_work js' None)"
  using begin_run[of "at_work js (Some (Chosen j))" j now w js'] enter_stage[of "at_work js (Some (Between n j))" n j w js']
    stage_done[of "at_work js (Some (InStage n j))" n j out w js'] stage_fails[of "at_work js (Some (InStage n j))" n j now v j' js']
    completes[of "at_work js (Some (Between (length refresh_stages) j))" j now j' js'] by simp_all

lemma run_stages_path:
  assumes "n \<le> length refresh_stages" "run_stages command [n..<length refresh_stages] j js = ((exc, j1), js1)"
  shows "\<exists>w. refresh_step\<^sup>*\<^sup>* (at_work js (Some (Between n j))) (at_work js1 (Some w)) \<and>
    (case exc of None \<Rightarrow> w = Between (length refresh_stages) j1 | Some v \<Rightarrow> \<exists>m. w = InStage m j1)"
  using assms
proof (induction "length refresh_stages - n" arbitrary: n j js)
  case 0
  then show ?case by auto
next
  case (Suc k)
  then have n: "n < length refresh_stages" and u: "[n..<length refresh_stages] = n # [Suc n..<length refresh_stages]"
    by (simp_all add: upt_conv_Cons)
  obtain i jsa where e: "worker_enter n j js = (InStage n i, jsa)" by (simp add: worker_enter_def Let_def)
  note step = worker_steps(2)[OF n e]
  show ?case
  proof (cases "command n")
    case (Inl v)
    with Suc.prems(2) e u have "exc = Some v" "j1 = i" "js1 = jsa" by simp_all
    with step show ?thesis by auto
  next
    case (Inr out)
    obtain i2 js2 where d: "worker_stage_done n out i jsa = (Between (Suc n) i2, js2)" by (simp add: worker_stage_done_def Let_def)
    with Suc.prems(2) e u Inr have r: "run_stages command [Suc n..<length refresh_stages] i2 js2 = ((exc, j1), js1)" by simp
    have "k = length refresh_stages - Suc n" "Suc n \<le> length refresh_stages" using Suc.hyps(2) n by simp_all
    from Suc.hyps(1)[OF this r] step worker_steps(3)[OF d] show ?thesis by (meson converse_rtranclp_into_rtranclp)
  qed
qed

lemma run_stages_all: "(\<And>n. n \<in> set ns \<Longrightarrow> \<not> isl (command n)) \<Longrightarrow> run_stages command ns j js = ((exc, j1), js1) \<Longrightarrow> exc = None"
proof (induction ns arbitrary: j js)
  case (Cons n ns)
  then obtain out where c: "command n = Inr out" by (metis list.set_intros(1) sum.collapse(2))
  obtain w jsa where e: "worker_enter n j js = (w, jsa)" by fastforce
  obtain w2 js2 where d: "worker_stage_done n out (job_of w) jsa = (w2, js2)" by fastforce
  from Cons.prems(2) c e d have "run_stages command ns (job_of w2) js2 = ((exc, j1), js1)" by simp
  from Cons.IH[OF _ this] Cons.prems(1) show ?case by simp
qed simp

lemma rtranclp_reachable: "refresh_step\<^sup>*\<^sup>* s s' \<Longrightarrow> refresh_reachable s \<Longrightarrow> refresh_reachable s'"
  by (induction rule: rtranclp_induct) (auto intro: refresh_reachable.step)

lemma select_other:
  assumes "select_job k now js = Inr (j, js')" "jb_status j \<noteq> Queued" shows "js' = js"
proof (cases k)
  case None
  show ?thesis
  proof (cases "newest_job (\<lambda>j. jb_status j = Queued) js")
    case (Some i)
    with None assms(1) show ?thesis by (simp add: select_job_def)
  next
    case n: None
    with None assms have "create_job ''scheduled'' None now js = Inr (j, js')" by (simp add: select_job_def)
    with assms(2) show ?thesis by (auto simp: create_job_def Let_def split: if_splits)
  qed
qed (use assms(1) in \<open>auto simp: select_job_def split: option.splits\<close>)

lemma maintenance_path:
  assumes "refresh_reachable \<lparr>rf_jobs = js, rf_worker = None\<rparr>"
    and "run_maintenance True k command now started finished js = Inr ((status, i), js')"
    and "select_job k now (recover_abandoned now js) = Inr (j, js1)"
  shows "refresh_step\<^sup>*\<^sup>* \<lparr>rf_jobs = js, rf_worker = None\<rparr> \<lparr>rf_jobs = js', rf_worker = None\<rparr> \<and>
    (\<forall>x \<in> set js'. jb_status x \<noteq> Running) \<and>
    (jb_status j = Queued \<and> (\<forall>n < length refresh_stages. \<not> isl (command n)) \<longrightarrow> status = ''succeeded'')"
proof (cases "jb_status j = Queued")
  case False
  with assms(2,3) have "js' = js1" by (simp add: run_maintenance_def)
  moreover have "refresh_step (at_work js None) (at_work js1 None)"
    using give_up[of "at_work js None" k now j js1] assms(3) False by (simp add: lock_free_def)
  moreover have "js1 = recover_abandoned now js" using select_other[OF assms(3) False] .
  ultimately show ?thesis using False recover_not_running by blast
next
  case True
  obtain w js2 where b: "worker_begin started j js1 = (w, js2)" by fastforce
  then obtain j0 where w: "w = Between 0 j0" by (auto simp: worker_begin_def Let_def)
  obtain exc j1 js3 where r: "run_stages command [0..<length refresh_stages] j0 js2 = ((exc, j1), js3)" by (metis surj_pair)
  obtain j2 where f: "worker_finish finished exc j1 js3 = (j2, js')" "status = status_text (jb_status j2)"
    using assms(2,3) True b r w by (auto simp: run_maintenance_def split: prod.splits)
  have 1: "refresh_step (at_work js None) (at_work js1 (Some (Chosen j)))"
    using choose[of "at_work js None" k now j js1] assms(3) True by (simp add: lock_free_def)
  note 2 = worker_steps(1)[OF b, unfolded w]
  from run_stages_path[OF _ r] obtain v where
    3: "refresh_step\<^sup>*\<^sup>* (at_work js2 (Some (Between 0 j0))) (at_work js3 (Some v))"
    and v: "case exc of None \<Rightarrow> v = Between (length refresh_stages) j1 | Some e \<Rightarrow> \<exists>m. v = InStage m j1" by auto
  have 4: "refresh_step (at_work js3 (Some v)) (at_work js' None)"
    using v f(1) worker_steps(4,5) by (auto split: option.splits)
  have path: "refresh_step\<^sup>*\<^sup>* (at_work js None) (at_work js3 (Some v))"
    using 1 2 3 by (meson converse_rtranclp_into_rtranclp)
  have ok: "refresh_ok (at_work js3 (Some v))" by (rule reachable_refresh_ok[OF rtranclp_reachable[OF path assms(1)]])
  then have o: "owns j1 {Running} js3" using v by (auto simp: refresh_ok_def split: option.splits)
  have st: "jb_status j2 = (if exc = None then Succeeded else JobFailed)"
    and js': "js' = update_job (jb_id j1) (\<lambda>r. r\<lparr>jb_status := jb_status j2, jb_stage := jb_stage j2, jb_error := jb_error j2,
            jb_finished := jb_finished j2, jb_results := jb_results j2\<rparr>) js3"
    using f(1) by (auto simp: worker_finish_def Let_def split: option.splits)
  have "jb_status x \<noteq> Running" if "x \<in> set js'" for x
    using that o st by (auto simp: js' update_job_def owns_def job_active_def split: if_splits)
  moreover have "status = ''succeeded''" if "\<forall>n < length refresh_stages. \<not> isl (command n)"
  proof -
    have "exc = None" by (rule run_stages_all[OF _ r]) (use that in auto)
    then show ?thesis by (simp add: f(2) st status_text_def)
  qed
  ultimately show ?thesis using path 4 by (meson rtranclp.rtrancl_into_rtrancl)
qed

text \<open>
  C36: A maintenance run ends. With the lock and whatever its stages do, \<open>run_maintenance\<close> is a sequence of
  steps of the system that gives the lock back, leaves no job running, and reports \<open>succeeded\<close> when it
  started a queued job and every stage command returned.
\<close>

theorem maintenance_run_ends:
  assumes "refresh_reachable \<lparr>rf_jobs = js, rf_worker = None\<rparr>"
    and "run_maintenance True k command now started finished js = Inr ((status, i), js')"
    and "select_job k now (recover_abandoned now js) = Inr (j, js1)"
  shows "refresh_step\<^sup>*\<^sup>* \<lparr>rf_jobs = js, rf_worker = None\<rparr> \<lparr>rf_jobs = js', rf_worker = None\<rparr> \<and>
    (\<forall>x \<in> set js'. jb_status x \<noteq> Running) \<and>
    (jb_status j = Queued \<and> (\<forall>n < length refresh_stages. \<not> isl (command n)) \<longrightarrow> status = ''succeeded'')"
  using assms by (rule maintenance_path)

text \<open>A request, a run and a later poll.\<close>

definition demo_queued :: "job list" where
  "demo_queued = [\<lparr>jb_id = 1, jb_status = Queued, jb_trigger = ''manual'', jb_by = Some 7, jb_stage = ''queued'', jb_results = [],
     jb_error = '''', jb_created = 100, jb_started = None, jb_finished = None\<rparr>]"

definition demo_command :: "nat \<Rightarrow> bool + string" where
  "demo_command n = Inr ''{}''"

definition demo_done :: "job list" where
  "demo_done = snd (case run_maintenance True (Some 1) demo_command 200 200 300 demo_queued of Inr r \<Rightarrow> r | Inl _ \<Rightarrow> ((''error'', None), []))"

lemma demo_queued_reachable: "refresh_reachable \<lparr>rf_jobs = demo_queued, rf_worker = None\<rparr>"
proof -
  have "refresh_post True True 7 100 [] = Inr ((202, Some (hd demo_queued, False)), demo_queued)" by code_simp
  with post[of "\<lparr>rf_jobs = [], rf_worker = None\<rparr>" True 7 100 _ demo_queued]
  have "refresh_step \<lparr>rf_jobs = [], rf_worker = None\<rparr> \<lparr>rf_jobs = demo_queued, rf_worker = None\<rparr>" by (simp add: lock_free_def)
  with refresh_reachable.empty show ?thesis by (rule refresh_reachable.step)
qed

lemma demo_run: "run_maintenance True (Some 1) demo_command 200 200 300 demo_queued = Inr ((''succeeded'', Some 1), demo_done)"
  by code_simp

lemma demo_select: "select_job (Some 1) 200 (recover_abandoned 200 demo_queued) = Inr (hd demo_queued, demo_queued)"
  by code_simp

lemma demo_done_reachable: "refresh_reachable \<lparr>rf_jobs = demo_done, rf_worker = None\<rparr>"
  using maintenance_path[OF demo_queued_reachable demo_run demo_select] rtranclp_reachable demo_queued_reachable by blast

theorem maintenance_run_ends_witness:
  "refresh_step\<^sup>*\<^sup>* \<lparr>rf_jobs = demo_queued, rf_worker = None\<rparr> \<lparr>rf_jobs = demo_done, rf_worker = None\<rparr> \<and>
   map jb_status demo_done = [Succeeded]"
proof -
  have "map jb_status demo_done = [Succeeded]" by code_simp
  with maintenance_run_ends[OF demo_queued_reachable demo_run demo_select] show ?thesis by simp
qed

theorem single_active_refresh_witness:
  "length (filter job_active demo_queued) \<le> 1 \<and> demo_queued \<noteq> []"
  using single_active_refresh[OF demo_queued_reachable] by (simp add: demo_queued_def)

theorem refresh_never_stuck_witness:
  "\<exists>j js. enqueue_refresh True 7 (101 + ten_minutes) demo_queued = Inr ((Some j, True), js) \<and> filter job_active js = [j]"
  using refresh_never_stuck[OF demo_queued_reachable, of "101 + ten_minutes" 7] by (simp add: lock_free_def demo_queued_def)

lemma succeeded_job_final_witness:
  "hd demo_done \<in> set (recover_abandoned 900 demo_done)"
proof -
  have p: "lookup_refresh True None 900 demo_done = (Some (hd demo_done), recover_abandoned 900 demo_done)" by code_simp
  have s: "jb_status (hd demo_done) = Succeeded" "hd demo_done \<in> set demo_done" by code_simp+
  from poll[of "\<lparr>rf_jobs = demo_done, rf_worker = None\<rparr>" None 900] p
  have "refresh_step \<lparr>rf_jobs = demo_done, rf_worker = None\<rparr> \<lparr>rf_jobs = recover_abandoned 900 demo_done, rf_worker = None\<rparr>"
    by (simp add: lock_free_def)
  from succeeded_job_final[OF demo_done_reachable this] s show ?thesis by simp
qed

end
