(* ===== verification/Data_Cache.thy ===== *)
theory Data_Cache
  imports Prelude
begin

text \<open>
  Caching of API responses and its invalidation (\<^verbatim>\<open>config/cache_invalidation.py\<close>, \<^verbatim>\<open>config/data_cache.py\<close>,
  \<^verbatim>\<open>config/cache_payloads.py\<close>). A business write leaves a marker in the database in its own transaction;
  readers form the key of a cached response from the shared version and the markers still pending, so that
  a failed invalidation cannot make an old key valid again. Any number of requests and invalidations
  interleave, and the cache may fail, forget or lose replies at any call.

  A UUID is the next number of a supply, a SHA-256 digest stands for what was hashed, and the content of
  the database is the number of committed writes: a marker has the number of its write. A write inside
  \<^verbatim>\<open>transaction.atomic\<close> commits together with its marker. A plain \<^verbatim>\<open>save()\<close> outside a transaction commits its
  row first and inserts the marker afterwards, in the \<^verbatim>\<open>post_save\<close> signal, or never if the process dies in
  between; a write is announced once its marker is committed, which for a save is before it returns. A
  transaction with several markers is a sequence of such commits. Reads of a request inside its own
  uncommitted transaction are not modelled.
\<close>

subsection \<open>Cache calls\<close>

text \<open>The library's cache may do its work, refuse or raise, or do its work and fail to say so.\<close>

datatype cache_reply = Works | Refuses | LostReply

datatype digest = Markers "nat list" | Unique nat
datatype namespace = Namespace nat digest

text \<open>
  A request: the number of the last write announced when it started comes first. It has read the pending
  markers (and whether it is inside a transaction); has rotated the version and will remove the markers;
  has its namespace; has missed and reads the data; has answered with data of some state.
\<close>

datatype reader =
    Idle
  | GotPending nat bool "nat list" digest
  | Rotated nat nat "nat list" digest
  | Ready nat namespace
  | Reading nat namespace nat
  | Answered nat nat

record cache_state =
  ca_rows :: nat
  ca_announced :: nat
  ca_unannounced :: "nat list"
  ca_pending :: "nat list"
  ca_version :: "nat option"
  ca_fresh :: nat
  ca_payloads :: "(namespace \<times> nat) list"
  ca_callbacks :: "(nat \<times> nat option) list"
  ca_readers :: "reader list"

definition recovery_batch_size :: nat where
  "recovery_batch_size = 1000"

definition uuid4 :: "cache_state \<Rightarrow> nat \<times> cache_state" where
  "uuid4 s = (ca_fresh s, s\<lparr>ca_fresh := Suc (ca_fresh s)\<rparr>)"

definition rotate_version :: "cache_reply \<Rightarrow> cache_state \<Rightarrow> nat option \<times> cache_state" where
  "rotate_version reply s =
     (let (u, s1) = uuid4 s
      in case reply of
           Works \<Rightarrow> (Some u, s1\<lparr>ca_version := Some u\<rparr>)
         | Refuses \<Rightarrow> (None, s1)
         | LostReply \<Rightarrow> (None, s1\<lparr>ca_version := Some u\<rparr>))"

definition remove_pending :: "bool \<Rightarrow> nat list \<Rightarrow> cache_state \<Rightarrow> cache_state" where
  "remove_pending database_ok ids s =
     (if database_ok then s\<lparr>ca_pending := filter (\<lambda>m. m \<notin> set ids) (ca_pending s)\<rparr> else s)"


subsection \<open>Writes\<close>

text \<open>The marker of a write is inserted and committed; its callback will run after the commit.\<close>

definition insert_marker :: "nat \<Rightarrow> cache_state \<Rightarrow> cache_state" where
  "insert_marker m s =
     s\<lparr>ca_announced := max (ca_announced s) m, ca_pending := ca_pending s @ [m], ca_callbacks := ca_callbacks s @ [(m, None)]\<rparr>"

text \<open>A row is committed.\<close>

definition commit_row :: "cache_state \<Rightarrow> nat \<times> cache_state" where
  "commit_row s = (Suc (ca_rows s), s\<lparr>ca_rows := Suc (ca_rows s)\<rparr>)"

text \<open>A write in a transaction: the row and the marker in one commit.\<close>

definition business_commit :: "cache_state \<Rightarrow> cache_state" where
  "business_commit s = (let (m, s1) = commit_row s in insert_marker m s1)"

text \<open>A save outside a transaction: the row in a commit of its own, and later the marker.\<close>

definition save_row :: "cache_state \<Rightarrow> cache_state" where
  "save_row s = (let (m, s1) = commit_row s in s1\<lparr>ca_unannounced := ca_unannounced s @ [m]\<rparr>)"

definition save_signal :: "nat \<Rightarrow> cache_state \<Rightarrow> cache_state" where
  "save_signal i s =
     (insert_marker (ca_unannounced s ! i) s)\<lparr>ca_unannounced := take i (ca_unannounced s) @ drop (Suc i) (ca_unannounced s)\<rparr>"

text \<open>The callback: rotate the version, and only if that worked remove the marker.\<close>

definition callback_rotate :: "cache_reply \<Rightarrow> nat \<Rightarrow> cache_state \<Rightarrow> cache_state" where
  "callback_rotate reply i s =
     (let (v, s1) = rotate_version reply s
      in case v of
           Some u \<Rightarrow> s1\<lparr>ca_callbacks := (ca_callbacks s)[i := (fst (ca_callbacks s ! i), Some u)]\<rparr>
         | None \<Rightarrow> s1\<lparr>ca_callbacks := take i (ca_callbacks s) @ drop (Suc i) (ca_callbacks s)\<rparr>)"

definition callback_remove :: "bool \<Rightarrow> nat \<Rightarrow> cache_state \<Rightarrow> cache_state" where
  "callback_remove database_ok i s =
     (remove_pending database_ok [fst (ca_callbacks s ! i)] s)
       \<lparr>ca_callbacks := take i (ca_callbacks s) @ drop (Suc i) (ca_callbacks s)\<rparr>"


subsection \<open>Requests\<close>

definition pending_digest :: "cache_state \<Rightarrow> (nat list \<times> digest) \<times> cache_state" where
  "pending_digest s =
     (if recovery_batch_size < length (ca_pending s)
      then let (u, s1) = uuid4 s in ((take recovery_batch_size (ca_pending s), Unique u), s1)
      else ((ca_pending s, Markers (ca_pending s)), s))"

text \<open>The version of the cache, or a new one where there is none or the cache fails.\<close>

definition current_version :: "cache_reply \<Rightarrow> cache_state \<Rightarrow> nat \<times> cache_state" where
  "current_version reply s =
     (case (reply, ca_version s) of
        (Works, Some v) \<Rightarrow> (v, s)
      | (Works, None) \<Rightarrow> (let (u, s1) = uuid4 s in (u, s1\<lparr>ca_version := Some u\<rparr>))
      | (Refuses, _) \<Rightarrow> uuid4 s
      | (LostReply, Some _) \<Rightarrow> uuid4 s
      | (LostReply, None) \<Rightarrow> (let (_, s1) = uuid4 s in uuid4 (s1\<lparr>ca_version := Some (ca_fresh s)\<rparr>)))"

definition start_request :: "bool \<Rightarrow> cache_state \<Rightarrow> reader \<times> cache_state" where
  "start_request in_atomic s =
     (let ((ids, d), s1) = pending_digest s in (GotPending (ca_announced s) in_atomic ids d, s1))"

definition resolve_version :: "cache_reply \<Rightarrow> nat \<Rightarrow> bool \<Rightarrow> nat list \<Rightarrow> digest \<Rightarrow> cache_state \<Rightarrow> reader \<times> cache_state" where
  "resolve_version reply a in_atomic ids d s =
     (if ids \<noteq> [] \<and> \<not> in_atomic
      then let (v, s1) = rotate_version reply s
           in case v of Some u \<Rightarrow> (Rotated a u ids d, s1) | None \<Rightarrow> let (u, s2) = uuid4 s1 in (Ready a (Namespace u d), s2)
      else let (v, s1) = current_version reply s in (Ready a (Namespace v d), s1))"

definition set_reader :: "nat \<Rightarrow> reader \<times> cache_state \<Rightarrow> cache_state" where
  "set_reader i rs = (snd rs)\<lparr>ca_readers := (ca_readers (snd rs))[i := fst rs]\<rparr>"

inductive cache_step :: "cache_state \<Rightarrow> cache_state \<Rightarrow> bool" where
  commit: "cache_step s (business_commit s)"
| save: "cache_step s (save_row s)"
| signal: "i < length (ca_unannounced s) \<Longrightarrow> cache_step s (save_signal i s)"
| save_dies: "cache_step s (s\<lparr>ca_unannounced := take i (ca_unannounced s) @ drop (Suc i) (ca_unannounced s)\<rparr>)"
| after_commit: "i < length (ca_callbacks s) \<Longrightarrow> ca_callbacks s ! i = (m, None) \<Longrightarrow> cache_step s (callback_rotate reply i s)"
| clean_up: "i < length (ca_callbacks s) \<Longrightarrow> ca_callbacks s ! i = (m, Some u) \<Longrightarrow> cache_step s (callback_remove ok i s)"
| callback_dies: "cache_step s (s\<lparr>ca_callbacks := take i (ca_callbacks s) @ drop (Suc i) (ca_callbacks s)\<rparr>)"
| arrive: "cache_step s (s\<lparr>ca_readers := ca_readers s @ [Idle]\<rparr>)"
| start: "i < length (ca_readers s) \<Longrightarrow> ca_readers s ! i = Idle \<Longrightarrow> cache_step s (set_reader i (start_request in_atomic s))"
| resolve: "i < length (ca_readers s) \<Longrightarrow> ca_readers s ! i = GotPending a in_atomic ids d \<Longrightarrow>
    cache_step s (set_reader i (resolve_version reply a in_atomic ids d s))"
| drain: "i < length (ca_readers s) \<Longrightarrow> ca_readers s ! i = Rotated a u ids d \<Longrightarrow>
    cache_step s (set_reader i (Ready a (Namespace u d), remove_pending ok ids s))"
| hit: "i < length (ca_readers s) \<Longrightarrow> ca_readers s ! i = Ready a ns \<Longrightarrow> (ns, k) \<in> set (ca_payloads s) \<Longrightarrow>
    cache_step s (set_reader i (Answered a k, s))"
| miss: "i < length (ca_readers s) \<Longrightarrow> ca_readers s ! i = Ready a ns \<Longrightarrow> cache_step s (set_reader i (Reading a ns (ca_rows s), s))"
| respond: "i < length (ca_readers s) \<Longrightarrow> ca_readers s ! i = Reading a ns k \<Longrightarrow>
    cache_step s (set_reader i (Answered a k, if stored then s\<lparr>ca_payloads := (ns, k) # ca_payloads s\<rparr> else s))"
| evict: "cache_step s (s\<lparr>ca_payloads := filter P (ca_payloads s)\<rparr>)"
| forget_version: "cache_step s (s\<lparr>ca_version := None\<rparr>)"

definition cache_start :: cache_state where
  "cache_start = \<lparr>ca_rows = 0, ca_announced = 0, ca_unannounced = [], ca_pending = [], ca_version = None, ca_fresh = 0, ca_payloads = [], ca_callbacks = [], ca_readers = []\<rparr>"

inductive cache_reachable :: "cache_state \<Rightarrow> bool" where
  initial: "cache_reachable cache_start"
| step: "cache_reachable s \<Longrightarrow> cache_step s s' \<Longrightarrow> cache_reachable s'"


subsection \<open>The invariant\<close>

text \<open>Responses under their keys, stored or about to be.\<close>

definition items :: "cache_state \<Rightarrow> (namespace \<times> nat) set" where
  "items s = set (ca_payloads s) \<union> {(ns, k) |ns k. \<exists>a. Reading a ns k \<in> set (ca_readers s)}"

text \<open>Who is about to remove which markers after rotating to which version.\<close>

definition removers :: "cache_state \<Rightarrow> (nat \<times> nat set) set" where
  "removers s = {(u, {m}) |m u. (m, Some u) \<in> set (ca_callbacks s)} \<union>
     {(u, set ids) |u ids. \<exists>a d. Rotated a u ids d \<in> set (ca_readers s)}"

fun ns_version :: "namespace \<Rightarrow> nat" where
  "ns_version (Namespace v d) = v"

fun ns_digest :: "namespace \<Rightarrow> digest" where
  "ns_digest (Namespace v d) = d"

fun digest_markers :: "digest \<Rightarrow> nat set" where
  "digest_markers (Markers P) = set P"
| "digest_markers (Unique u) = {}"

fun digest_fresh :: "nat \<Rightarrow> digest \<Rightarrow> bool" where
  "digest_fresh n (Markers P) \<longleftrightarrow> True"
| "digest_fresh n (Unique u) \<longleftrightarrow> u < n"

text \<open>
  A response that is behind the database has a key whose version is retired, or a newer marker is still
  pending. Markers are removed only after the version of every response behind them was retired.
\<close>

definition item_ok :: "cache_state \<Rightarrow> namespace \<times> nat \<Rightarrow> bool" where
  "item_ok s x \<longleftrightarrow> ns_version (fst x) < ca_fresh s \<and> digest_fresh (ca_fresh s) (ns_digest (fst x)) \<and>
     (\<forall>m \<in> digest_markers (ns_digest (fst x)). m \<le> snd x) \<and>
     (snd x < ca_announced s \<longrightarrow> ca_version s = Some (ns_version (fst x)) \<longrightarrow> (\<exists>m \<in> set (ca_pending s). snd x < m))"

definition remover_ok :: "cache_state \<Rightarrow> nat \<times> nat set \<Rightarrow> bool" where
  "remover_ok s y \<longleftrightarrow> fst y < ca_fresh s \<and> (\<forall>m \<in> snd y. m \<le> ca_announced s) \<and>
     (\<forall>x \<in> items s. fst y \<le> ns_version (fst x) \<longrightarrow> (\<forall>m \<in> snd y. m \<le> snd x)) \<and>
     (\<forall>v. ca_version s = Some v \<longrightarrow> fst y \<le> v)"

fun reader_ok :: "cache_state \<Rightarrow> reader \<Rightarrow> bool" where
  "reader_ok s Idle \<longleftrightarrow> True"
| "reader_ok s (GotPending a at ids d) \<longleftrightarrow> a \<le> ca_announced s \<and> (\<forall>m \<in> set ids. m \<le> a) \<and> (\<forall>m \<in> digest_markers d. m \<le> a) \<and>
     digest_fresh (ca_fresh s) d \<and>
     (\<forall>x \<in> items s. snd x < a \<and> ns_digest (fst x) = d \<longrightarrow> ca_version s \<noteq> Some (ns_version (fst x)))"
| "reader_ok s (Rotated a u ids d) \<longleftrightarrow> a \<le> ca_announced s \<and> u < ca_fresh s \<and> (\<forall>m \<in> digest_markers d. m \<le> a) \<and>
     digest_fresh (ca_fresh s) d \<and> (\<forall>x \<in> items s. snd x < a \<longrightarrow> ns_version (fst x) \<noteq> u)"
| "reader_ok s (Ready a ns) \<longleftrightarrow> a \<le> ca_announced s \<and> ns_version ns < ca_fresh s \<and> (\<forall>m \<in> digest_markers (ns_digest ns). m \<le> a) \<and>
     digest_fresh (ca_fresh s) (ns_digest ns) \<and> (\<forall>x \<in> items s. fst x = ns \<longrightarrow> a \<le> snd x)"
| "reader_ok s (Reading a ns k) \<longleftrightarrow> a \<le> k"
| "reader_ok s (Answered a k) \<longleftrightarrow> a \<le> k"

definition cache_ok :: "cache_state \<Rightarrow> bool" where
  "cache_ok s \<longleftrightarrow> ca_announced s \<le> ca_rows s \<and> (\<forall>m \<in> set (ca_unannounced s). m \<le> ca_rows s) \<and> (\<forall>v. ca_version s = Some v \<longrightarrow> v < ca_fresh s) \<and> (\<forall>m \<in> set (ca_pending s). m \<le> ca_announced s) \<and>
     (\<forall>c \<in> set (ca_callbacks s). fst c \<le> ca_announced s) \<and>
     (\<forall>x \<in> items s. item_ok s x) \<and> (\<forall>y \<in> removers s. remover_ok s y) \<and> (\<forall>r \<in> set (ca_readers s). reader_ok s r)"

text \<open>What every step does: time goes on, tokens are used up, a new version is new, and new responses are current.\<close>

definition later :: "cache_state \<Rightarrow> cache_state \<Rightarrow> bool" where
  "later s s' \<longleftrightarrow> ca_announced s \<le> ca_announced s' \<and> ca_fresh s \<le> ca_fresh s' \<and>
     (\<forall>v. ca_version s' = Some v \<longrightarrow> v < ca_fresh s' \<and> (ca_version s = Some v \<or> ca_fresh s \<le> v)) \<and>
     (\<forall>x \<in> items s'. x \<in> items s \<or> ca_announced s \<le> snd x)"

lemma digest_fresh_mono: "digest_fresh n d \<Longrightarrow> n \<le> n' \<Longrightarrow> digest_fresh n' d"
  by (cases d) auto

lemma reader_later:
  assumes l: "later s s'" and items: "\<forall>x \<in> items s. item_ok s x" and r: "reader_ok s r"
  shows "reader_ok s' r"
proof -
  have d: "ca_announced s \<le> ca_announced s'" "ca_fresh s \<le> ca_fresh s'" using l by (auto simp: later_def)
  have new: "x \<in> items s \<or> ca_announced s \<le> snd x" if "x \<in> items s'" for x using l that by (auto simp: later_def)
  have old: "ns_version (fst x) < ca_fresh s" if "x \<in> items s" for x using items that by (simp add: item_ok_def)
  have ver: "ca_version s \<noteq> Some (ns_version (fst x)) \<Longrightarrow> ca_version s' \<noteq> Some (ns_version (fst x))" if "x \<in> items s" for x
    using l old[OF that] by (auto simp: later_def)
  show ?thesis
  proof (cases r)
    case (GotPending a at ids g)
    have "ca_version s' \<noteq> Some (ns_version (fst x))" if x: "x \<in> items s'" "snd x < a" "ns_digest (fst x) = g" for x
    proof -
      have "x \<in> items s" using new[OF x(1)] r x(2) by (auto simp: GotPending)
      with r x ver show ?thesis by (simp add: GotPending)
    qed
    with r d show ?thesis by (auto simp: GotPending intro: digest_fresh_mono order_trans)
  next
    case (Rotated a u ids g)
    have "ns_version (fst x) \<noteq> u" if x: "x \<in> items s'" "snd x < a" for x
      using new[OF x(1)] r x(2) by (auto simp: Rotated)
    with r d show ?thesis by (auto simp: Rotated intro: digest_fresh_mono order_trans)
  next
    case (Ready a ns)
    have "a \<le> snd x" if x: "x \<in> items s'" "fst x = ns" for x using new[OF x(1)] r x(2) by (auto simp: Ready)
    with r d show ?thesis by (auto simp: Ready intro: digest_fresh_mono order_trans)
  qed (use r in auto)
qed

lemma remover_later:
  assumes l: "later s s'" and r: "remover_ok s y" shows "remover_ok s' y"
proof -
  have 1: "\<forall>m \<in> snd y. m \<le> snd x" if "x \<in> items s'" "fst y \<le> ns_version (fst x)" for x
    using l r that unfolding later_def remover_ok_def by (meson order_trans)
  have 2: "fst y \<le> v" if v: "ca_version s' = Some v" for v
  proof -
    have "ca_version s = Some v \<or> ca_fresh s \<le> v" using l v by (simp add: later_def)
    then show ?thesis using r by (auto simp: remover_ok_def)
  qed
  have "fst y < ca_fresh s'" "\<forall>m \<in> snd y. m \<le> ca_announced s'"
    using l r unfolding later_def remover_ok_def by (meson order_less_le_trans order_trans)+
  with 1 2 show ?thesis by (simp add: remover_ok_def)
qed

lemma item_later:
  assumes l: "later s s'" and i: "item_ok s x"
    and p: "ca_version s = Some (ns_version (fst x)) \<Longrightarrow> \<forall>m \<in> set (ca_pending s). snd x < m \<longrightarrow> m \<in> set (ca_pending s')"
    and c: "ca_announced s < ca_announced s' \<Longrightarrow> ca_announced s' \<in> set (ca_pending s')"
  shows "item_ok s' x"
proof -
  have "\<exists>m \<in> set (ca_pending s'). snd x < m" if h: "snd x < ca_announced s'" "ca_version s' = Some (ns_version (fst x))"
  proof (cases "ca_announced s < ca_announced s'")
    case True then show ?thesis using c h by blast
  next
    case False
    have "ca_version s = Some (ns_version (fst x))" using l i h(2) by (auto simp: later_def item_ok_def)
    moreover have "snd x < ca_announced s" using h(1) False by simp
    ultimately show ?thesis using i p unfolding item_ok_def by blast
  qed
  then show ?thesis using l i by (auto simp: item_ok_def later_def intro: digest_fresh_mono)
qed

lemma step_keeps:
  assumes ok: "cache_ok s" and l: "later s s'"
    and rows: "ca_announced s' \<le> ca_rows s'" "\<forall>m \<in> set (ca_unannounced s'). m \<le> ca_rows s'"
    and pend: "\<forall>m \<in> set (ca_pending s'). m \<in> set (ca_pending s) \<or> m \<le> ca_announced s'"
    and cb: "\<forall>c \<in> set (ca_callbacks s'). fst c \<in> fst ` set (ca_callbacks s) \<or> fst c \<le> ca_announced s'"
    and gone: "\<And>x. x \<in> items s \<Longrightarrow> ca_version s = Some (ns_version (fst x)) \<Longrightarrow> \<forall>m \<in> set (ca_pending s). snd x < m \<longrightarrow> m \<in> set (ca_pending s')"
    and com: "ca_announced s < ca_announced s' \<Longrightarrow> ca_announced s' \<in> set (ca_pending s')"
    and new: "\<And>x. x \<in> items s' \<Longrightarrow> x \<notin> items s \<Longrightarrow> item_ok s' x"
    and rem: "\<And>y. y \<in> removers s' \<Longrightarrow> y \<notin> removers s \<Longrightarrow> remover_ok s' y"
    and rd: "\<And>r. r \<in> set (ca_readers s') \<Longrightarrow> r \<notin> set (ca_readers s) \<Longrightarrow> reader_ok s' r"
  shows "cache_ok s'"
proof -
  have "\<forall>x \<in> items s'. item_ok s' x"
  proof
    fix x assume x: "x \<in> items s'"
    show "item_ok s' x"
    proof (cases "x \<in> items s")
      case True
      then have "item_ok s x" using ok by (simp add: cache_ok_def)
      from item_later[OF l this gone[OF True] com] show ?thesis .
    qed (rule new[OF x])
  qed
  moreover have "\<forall>y \<in> removers s'. remover_ok s' y"
  proof
    fix y assume y: "y \<in> removers s'"
    show "remover_ok s' y"
    proof (cases "y \<in> removers s")
      case True
      then have "remover_ok s y" using ok by (simp add: cache_ok_def)
      from remover_later[OF l this] show ?thesis .
    qed (rule rem[OF y])
  qed
  moreover have "\<forall>r \<in> set (ca_readers s'). reader_ok s' r"
  proof
    fix r assume r: "r \<in> set (ca_readers s')"
    show "reader_ok s' r"
    proof (cases "r \<in> set (ca_readers s)")
      case True
      then have "reader_ok s r" "\<forall>x \<in> items s. item_ok s x" using ok by (simp_all add: cache_ok_def)
      from reader_later[OF l this(2,1)] show ?thesis .
    qed (rule rd[OF r])
  qed
  moreover have "ca_announced s \<le> ca_announced s'" using l by (simp add: later_def)
  then have "\<forall>m \<in> set (ca_pending s'). m \<le> ca_announced s'" "\<forall>c \<in> set (ca_callbacks s'). fst c \<le> ca_announced s'"
    using pend cb ok unfolding cache_ok_def by fastforce+
  moreover have "\<forall>v. ca_version s' = Some v \<longrightarrow> v < ca_fresh s'" using l by (simp add: later_def)
  ultimately show ?thesis using rows by (simp add: cache_ok_def)
qed

subsection \<open>Every step keeps it\<close>

lemma set_reader_fields [simp]:
  "ca_rows (set_reader i (r, t)) = ca_rows t" "ca_unannounced (set_reader i (r, t)) = ca_unannounced t"
  "ca_announced (set_reader i (r, t)) = ca_announced t" "ca_pending (set_reader i (r, t)) = ca_pending t"
  "ca_version (set_reader i (r, t)) = ca_version t" "ca_fresh (set_reader i (r, t)) = ca_fresh t"
  "ca_callbacks (set_reader i (r, t)) = ca_callbacks t" "ca_payloads (set_reader i (r, t)) = ca_payloads t"
  by (simp_all add: set_reader_def)

lemma cache_calls_rows [simp]:
  "ca_rows (remove_pending b ids s) = ca_rows s" "ca_unannounced (remove_pending b ids s) = ca_unannounced s"
  "ca_rows (callback_rotate reply i s) = ca_rows s" "ca_unannounced (callback_rotate reply i s) = ca_unannounced s"
  "ca_rows (callback_remove b i s) = ca_rows s" "ca_unannounced (callback_remove b i s) = ca_unannounced s"
  by (auto simp: remove_pending_def callback_rotate_def callback_remove_def rotate_version_def uuid4_def Let_def
    split: cache_reply.splits option.splits prod.splits)

lemma set_reader_readers: "q \<in> set (ca_readers (set_reader i (r, t))) \<Longrightarrow> q \<in> set (ca_readers t) \<or> q = r"
  using set_update_subset_insert[of "ca_readers t" i r] by (auto simp: set_reader_def)

lemma set_reader_items: "x \<in> items (set_reader i (r, t)) \<Longrightarrow> x \<in> items t \<or> (\<exists>a. r = Reading a (fst x) (snd x))"
  unfolding items_def using set_reader_readers[of _ i r t] by fastforce

lemma set_reader_removers:
  "y \<in> removers (set_reader i (r, t)) \<Longrightarrow> y \<in> removers t \<or> (\<exists>a ids d. r = Rotated a (fst y) ids d \<and> snd y = set ids)"
  unfolding removers_def using set_reader_readers[of _ i r t] by fastforce

lemma items_cong: "ca_payloads t = ca_payloads s \<Longrightarrow> ca_readers t = ca_readers s \<Longrightarrow> items t = items s"
  by (simp add: items_def)

lemma removers_cong: "ca_callbacks t = ca_callbacks s \<Longrightarrow> ca_readers t = ca_readers s \<Longrightarrow> removers t = removers s"
  by (simp add: removers_def)

lemma cache_okD:
  assumes "cache_ok s"
  shows "ca_version s = Some v \<Longrightarrow> v < ca_fresh s" "m \<in> set (ca_pending s) \<Longrightarrow> m \<le> ca_announced s"
    "c \<in> set (ca_callbacks s) \<Longrightarrow> fst c \<le> ca_announced s" "x \<in> items s \<Longrightarrow> item_ok s x" "y \<in> removers s \<Longrightarrow> remover_ok s y"
    "r \<in> set (ca_readers s) \<Longrightarrow> reader_ok s r" "ca_announced s \<le> ca_rows s" "m \<in> set (ca_unannounced s) \<Longrightarrow> m \<le> ca_rows s"
  using assms by (auto simp: cache_ok_def)

text \<open>A step of one request that leaves the responses alone.\<close>

lemma reader_step:
  assumes ok: "cache_ok s"
    and t: "ca_payloads t = ca_payloads s" "ca_readers t = ca_readers s" "ca_callbacks t = ca_callbacks s" "ca_announced t = ca_announced s"
      "ca_pending t = ca_pending s" "ca_fresh s \<le> ca_fresh t"
      "\<And>v. ca_version t = Some v \<Longrightarrow> v < ca_fresh t \<and> (ca_version s = Some v \<or> ca_fresh s \<le> v)"
      "ca_rows t = ca_rows s" "ca_unannounced t = ca_unannounced s"
    and r: "reader_ok t r" "\<And>a ns k. r \<noteq> Reading a ns k" "\<And>a u ids d. r = Rotated a u ids d \<Longrightarrow> remover_ok t (u, set ids)"
  shows "cache_ok (set_reader i (r, t))"
proof -
  have items: "items (set_reader i (r, t)) \<subseteq> items s" using set_reader_items[of _ i r t] r(2) items_cong[OF t(1,2)] by auto
  have l: "later s (set_reader i (r, t))" using t items by (auto simp: later_def)
  have sub: "reader_ok (set_reader i (r, t)) q" if "reader_ok t q" for q
    using that items items_cong[OF t(1,2)] by (cases q) auto
  have rsub: "remover_ok (set_reader i (r, t)) y" if "remover_ok t y" for y
    using that items items_cong[OF t(1,2)] by (auto simp: remover_ok_def)
  show ?thesis
  proof (rule step_keeps[OF ok l])
    fix y assume "y \<in> removers (set_reader i (r, t))" "y \<notin> removers s"
    then obtain a ids d where "r = Rotated a (fst y) ids d" "snd y = set ids"
      using set_reader_removers removers_cong[OF t(3,2)] by blast
    with r(3) rsub show "remover_ok (set_reader i (r, t)) y" by (metis prod.collapse)
  next
    fix q assume "q \<in> set (ca_readers (set_reader i (r, t)))" "q \<notin> set (ca_readers s)"
    then have "q = r" using set_reader_readers t(2) by metis
    with sub r(1) show "reader_ok (set_reader i (r, t)) q" by simp
  qed (use t items cache_okD(7,8)[OF ok] in auto)
qed

lemma start_ok:
  assumes ok: "cache_ok s" shows "cache_ok (set_reader i (start_request in_atomic s))"
proof (cases "recovery_batch_size < length (ca_pending s)")
  case True
  let ?t = "s\<lparr>ca_fresh := Suc (ca_fresh s)\<rparr>"
  have e: "start_request in_atomic s = (GotPending (ca_announced s) in_atomic (take recovery_batch_size (ca_pending s)) (Unique (ca_fresh s)), ?t)"
    using True by (simp add: start_request_def pending_digest_def uuid4_def)
  have "ns_digest (fst x) \<noteq> Unique (ca_fresh s)" if "x \<in> items s" for x
    using cache_okD(4)[OF ok that] by (auto simp: item_ok_def)
  then have "reader_ok ?t (GotPending (ca_announced s) in_atomic (take recovery_batch_size (ca_pending s)) (Unique (ca_fresh s)))"
    using cache_okD(2)[OF ok] items_cong[of ?t s] by (auto dest: in_set_takeD)
  then show ?thesis unfolding e using cache_okD(1)[OF ok] by (intro reader_step[OF ok]) (auto simp: less_Suc_eq)
next
  case False
  let ?d = "Markers (ca_pending s)"
  have e: "start_request in_atomic s = (GotPending (ca_announced s) in_atomic (ca_pending s) ?d, s)"
    using False by (simp add: start_request_def pending_digest_def)
  have "ca_version s \<noteq> Some (ns_version (fst x))" if x: "x \<in> items s" "snd x < ca_announced s" "ns_digest (fst x) = ?d" for x
    using cache_okD(4)[OF ok x(1)] x(2,3) by (fastforce simp: item_ok_def)
  then have "reader_ok s (GotPending (ca_announced s) in_atomic (ca_pending s) ?d)" using cache_okD(2)[OF ok] by simp
  then show ?thesis unfolding e using cache_okD(1)[OF ok] by (intro reader_step[OF ok]) auto
qed

lemma resolve_ok:
  assumes ok: "cache_ok s" and r: "GotPending a in_atomic ids d \<in> set (ca_readers s)"
  shows "cache_ok (set_reader i (resolve_version reply a in_atomic ids d s))"
proof -
  have g: "a \<le> ca_announced s" "\<forall>m \<in> set ids. m \<le> a" "\<forall>m \<in> digest_markers d. m \<le> a" "digest_fresh (ca_fresh s) d"
    "\<And>x. x \<in> items s \<Longrightarrow> snd x < a \<Longrightarrow> ns_digest (fst x) = d \<Longrightarrow> ca_version s \<noteq> Some (ns_version (fst x))"
    using cache_okD(6)[OF ok r] by auto
  have old: "ns_version (fst x) < ca_fresh s" if "x \<in> items s" for x using cache_okD(4)[OF ok that] by (simp add: item_ok_def)
  have ready: "cache_ok (set_reader i (Ready a (Namespace v d), t))"
    if t: "ca_payloads t = ca_payloads s" "ca_readers t = ca_readers s" "ca_callbacks t = ca_callbacks s" "ca_announced t = ca_announced s"
        "ca_pending t = ca_pending s" "ca_fresh s \<le> ca_fresh t"
        "\<And>v. ca_version t = Some v \<Longrightarrow> v < ca_fresh t \<and> (ca_version s = Some v \<or> ca_fresh s \<le> v)"
        "ca_rows t = ca_rows s" "ca_unannounced t = ca_unannounced s"
      and v: "v < ca_fresh t" "ca_fresh s \<le> v \<or> ca_version s = Some v" for v t
  proof -
    have "a \<le> snd x" if "x \<in> items s" "fst x = Namespace v d" for x
      using g(5)[OF that(1)] old[OF that(1)] that(2) v(2) by (cases "snd x < a") auto
    then have "reader_ok t (Ready a (Namespace v d))"
      using g v(1) t(4,6) items_cong[OF t(1,2)] by (auto intro: digest_fresh_mono)
    then show ?thesis using t by (intro reader_step[OF ok]) auto
  qed
  show ?thesis
  proof (cases "ids \<noteq> [] \<and> \<not> in_atomic")
    case False
    then show ?thesis
      by (cases reply; cases "ca_version s")
        (auto simp: resolve_version_def current_version_def uuid4_def Let_def less_Suc_eq intro!: ready dest: cache_okD(1)[OF ok])
  next
    case True
    show ?thesis
    proof (cases "reply = Works")
      case False
      with True show ?thesis
        by (cases reply) (auto simp: resolve_version_def rotate_version_def uuid4_def Let_def less_Suc_eq intro!: ready dest: cache_okD(1)[OF ok])
    next
      case w: True
      let ?t = "s\<lparr>ca_fresh := Suc (ca_fresh s), ca_version := Some (ca_fresh s)\<rparr>"
      have e: "resolve_version reply a in_atomic ids d s = (Rotated a (ca_fresh s) ids d, ?t)"
        using True w by (simp add: resolve_version_def rotate_version_def uuid4_def Let_def)
      have i: "items ?t = items s" by (rule items_cong) simp_all
      have "\<forall>x \<in> items s. ns_version (fst x) \<noteq> ca_fresh s" using old by fastforce
      then have "reader_ok ?t (Rotated a (ca_fresh s) ids d)" using g(1,3,4) by (simp add: i digest_fresh_mono)
      moreover have "remover_ok ?t (ca_fresh s, set ids)" using g(1,2) old by (force simp: i remover_ok_def)
      ultimately show ?thesis unfolding e by (intro reader_step[OF ok]) auto
    qed
  qed
qed

text \<open>Removing markers harms nothing: what is behind them is retired.\<close>

lemma gone_ok:
  assumes ok: "cache_ok s" and y: "(u, R) \<in> removers s" and x: "x \<in> items s" "ca_version s = Some (ns_version (fst x))"
  shows "m \<in> R \<Longrightarrow> m \<le> snd x"
  using cache_okD(5)[OF ok y] x by (auto simp: remover_ok_def)

lemma drain_ok:
  assumes ok: "cache_ok s" and r: "Rotated a u ids d \<in> set (ca_readers s)"
  shows "cache_ok (set_reader i (Ready a (Namespace u d), remove_pending database_ok ids s))"
proof -
  let ?t = "remove_pending database_ok ids s"
  let ?s = "set_reader i (Ready a (Namespace u d), ?t)"
  have t: "ca_payloads ?t = ca_payloads s" "ca_readers ?t = ca_readers s" "ca_callbacks ?t = ca_callbacks s" "ca_announced ?t = ca_announced s"
    "ca_fresh ?t = ca_fresh s" "ca_version ?t = ca_version s" "set (ca_pending ?t) \<subseteq> set (ca_pending s)"
    by (auto simp: remove_pending_def)
  have items: "items ?s \<subseteq> items s" using set_reader_items[of _ i _ ?t] items_cong[OF t(1,2)] by auto
  have l: "later s ?s" using t items cache_okD(1)[OF ok] by (auto simp: later_def)
  have g: "a \<le> ca_announced s" "u < ca_fresh s" "\<forall>m \<in> digest_markers d. m \<le> a" "digest_fresh (ca_fresh s) d"
    "\<And>x. x \<in> items s \<Longrightarrow> snd x < a \<Longrightarrow> ns_version (fst x) \<noteq> u" using cache_okD(6)[OF ok r] by auto
  have y: "(u, set ids) \<in> removers s" using r by (auto simp: removers_def)
  show ?thesis
  proof (rule step_keeps[OF ok l])
    fix x assume "x \<in> items s" "ca_version s = Some (ns_version (fst x))"
    from gone_ok[OF ok y this] show "\<forall>m \<in> set (ca_pending s). snd x < m \<longrightarrow> m \<in> set (ca_pending ?s)"
      by (fastforce simp: remove_pending_def)
  next
    fix q assume "q \<in> set (ca_readers ?s)" "q \<notin> set (ca_readers s)"
    then have q: "q = Ready a (Namespace u d)" using set_reader_readers t(2) by metis
    have "a \<le> snd x" if "x \<in> items ?s" "fst x = Namespace u d" for x
      using g(5)[of x] that items by (cases "snd x < a") auto
    with g t show "reader_ok ?s q" by (simp add: q)
  next
    fix z assume "z \<in> removers ?s" "z \<notin> removers s"
    then show "remover_ok ?s z" using set_reader_removers[of z i _ ?t] removers_cong[OF t(3,2)] by auto
  qed (use t items cache_okD(7,8)[OF ok] in auto)
qed

lemma callback_rotate_ok:
  assumes ok: "cache_ok s" and i: "i < length (ca_callbacks s)" "ca_callbacks s ! i = (m, None)"
  shows "cache_ok (callback_rotate reply i s)"
proof -
  let ?s = "callback_rotate reply i s"
  have t: "ca_payloads ?s = ca_payloads s" "ca_readers ?s = ca_readers s" "ca_announced ?s = ca_announced s" "ca_pending ?s = ca_pending s"
    "ca_fresh ?s = Suc (ca_fresh s)" "ca_version ?s = (if reply = Refuses then ca_version s else Some (ca_fresh s))"
    "set (ca_callbacks ?s) \<subseteq> insert (m, if reply = Works then Some (ca_fresh s) else None) (set (ca_callbacks s))"
    using i set_update_subset_insert[of "ca_callbacks s" i "(m, Some (ca_fresh s))"] set_take_subset[of i] set_drop_subset[of "Suc i"]
    by (auto simp: callback_rotate_def rotate_version_def uuid4_def Let_def split: cache_reply.splits dest: in_set_takeD in_set_dropD)
  have items: "items ?s = items s" by (rule items_cong[OF t(1,2)])
  have cb: "(m, None) \<in> set (ca_callbacks s)" using i nth_mem by metis
  have l: "later s ?s" using t items cache_okD(1)[OF ok] by (auto simp: later_def less_Suc_eq)
  show ?thesis
  proof (rule step_keeps[OF ok l])
    fix y assume "y \<in> removers ?s" "y \<notin> removers s"
    then have y: "y = (ca_fresh s, {m})" "reply = Works" using t(2,7) by (auto simp: removers_def split: if_splits)
    have "\<not> ca_fresh s \<le> ns_version (fst x)" if "x \<in> items s" for x using cache_okD(4)[OF ok that] by (simp add: item_ok_def)
    moreover have "m \<le> ca_announced s" using cache_okD(3)[OF ok cb] by simp
    ultimately show "remover_ok ?s y" unfolding remover_ok_def y(1) items t using y(2) by simp
  next
    show "\<forall>c \<in> set (ca_callbacks ?s). fst c \<in> fst ` set (ca_callbacks s) \<or> fst c \<le> ca_announced ?s"
      using t(7) cb by force
  qed (use t items cache_okD(7,8)[OF ok] in auto)
qed

lemma callback_remove_ok:
  assumes ok: "cache_ok s" and i: "i < length (ca_callbacks s)" "ca_callbacks s ! i = (m, Some u)"
  shows "cache_ok (callback_remove database_ok i s)"
proof -
  let ?s = "callback_remove database_ok i s"
  have t: "ca_payloads ?s = ca_payloads s" "ca_readers ?s = ca_readers s" "ca_announced ?s = ca_announced s"
    "ca_fresh ?s = ca_fresh s" "ca_version ?s = ca_version s" "set (ca_callbacks ?s) \<subseteq> set (ca_callbacks s)"
    "set (ca_pending s) - {m} \<subseteq> set (ca_pending ?s)" "set (ca_pending ?s) \<subseteq> set (ca_pending s)"
    using i by (auto simp: callback_remove_def remove_pending_def dest: in_set_takeD in_set_dropD)
  have items: "items ?s = items s" by (rule items_cong[OF t(1,2)])
  have l: "later s ?s" using t items cache_okD(1)[OF ok] by (auto simp: later_def)
  have "(m, Some u) \<in> set (ca_callbacks s)" using i nth_mem by metis
  then have y: "(u, {m}) \<in> removers s" by (auto simp: removers_def)
  show ?thesis
  proof (rule step_keeps[OF ok l])
    fix x assume "x \<in> items s" "ca_version s = Some (ns_version (fst x))"
    from gone_ok[OF ok y this] t(7) show "\<forall>n \<in> set (ca_pending s). snd x < n \<longrightarrow> n \<in> set (ca_pending ?s)" by fastforce
  next
    fix z assume "z \<in> removers ?s" "z \<notin> removers s"
    then show "remover_ok ?s z" using t(2,6) by (auto simp: removers_def)
  qed (use t items cache_okD(7,8)[OF ok] in auto)
qed

text \<open>Steps that only take away callbacks, responses or the version.\<close>

lemma less_ok:
  assumes ok: "cache_ok s" and t: "ca_readers s' = ca_readers s \<or> ca_readers s' = ca_readers s @ [Idle]" "ca_announced s' = ca_announced s"
    "ca_pending s' = ca_pending s" "ca_fresh s' = ca_fresh s" "ca_version s' = ca_version s \<or> ca_version s' = None"
    "set (ca_callbacks s') \<subseteq> set (ca_callbacks s)" "set (ca_payloads s') \<subseteq> set (ca_payloads s)"
    "ca_rows s \<le> ca_rows s'" "\<forall>m \<in> set (ca_unannounced s'). m \<in> set (ca_unannounced s) \<or> m \<le> ca_rows s'"
  shows "cache_ok s'"
proof -
  have items: "items s' \<subseteq> items s" using t(1,7) by (auto simp: items_def)
  have l: "later s s'" using t items cache_okD(1)[OF ok] by (auto simp: later_def)
  have r: "ca_announced s' \<le> ca_rows s'" "\<forall>m \<in> set (ca_unannounced s'). m \<le> ca_rows s'"
    using t(2,8,9) cache_okD(7,8)[OF ok] by (auto intro: order_trans)
  show ?thesis
  proof (rule step_keeps[OF ok l])
    fix z assume "z \<in> removers s'" "z \<notin> removers s"
    then show "remover_ok s' z" using t(1,6) by (auto simp: removers_def)
  next
    fix q assume "q \<in> set (ca_readers s')" "q \<notin> set (ca_readers s)"
    then show "reader_ok s' q" using t(1) by auto
  qed (use t items r in auto)
qed

lemma insert_marker_ok:
  assumes ok: "cache_ok s" and m: "m \<le> ca_rows s" shows "cache_ok (insert_marker m s)"
proof -
  let ?s = "insert_marker m s"
  have t: "ca_payloads ?s = ca_payloads s" "ca_readers ?s = ca_readers s" "ca_announced ?s = max (ca_announced s) m" "ca_fresh ?s = ca_fresh s"
    "ca_version ?s = ca_version s" "ca_pending ?s = ca_pending s @ [m]" "ca_callbacks ?s = ca_callbacks s @ [(m, None)]"
    "ca_rows ?s = ca_rows s" "ca_unannounced ?s = ca_unannounced s"
    by (simp_all add: insert_marker_def)
  have items: "items ?s = items s" by (rule items_cong[OF t(1,2)])
  have rem: "removers ?s = removers s" using t by (auto simp: removers_def)
  have l: "later s ?s" using t items cache_okD(1)[OF ok] by (auto simp: later_def)
  show ?thesis by (rule step_keeps[OF ok l]) (use t items rem m cache_okD(2,3,7,8)[OF ok] in \<open>auto simp: max_def\<close>)
qed

lemma commit_row_ok:
  assumes ok: "cache_ok s" shows "cache_ok (snd (commit_row s))"
  by (rule less_ok[OF ok]) (auto simp: commit_row_def)

lemma commit_ok: "cache_ok s \<Longrightarrow> cache_ok (business_commit s)"
  using insert_marker_ok[OF commit_row_ok] by (simp add: business_commit_def commit_row_def)

lemma save_row_ok:
  assumes ok: "cache_ok s" shows "cache_ok (save_row s)"
  by (rule less_ok[OF ok]) (auto simp: save_row_def commit_row_def)

lemma save_signal_ok:
  assumes ok: "cache_ok s" and i: "i < length (ca_unannounced s)" shows "cache_ok (save_signal i s)"
proof -
  have "ca_unannounced s ! i \<le> ca_rows s" using cache_okD(8)[OF ok] i by simp
  from insert_marker_ok[OF ok this] show ?thesis
    unfolding save_signal_def by (rule less_ok) (auto simp: insert_marker_def dest: in_set_takeD in_set_dropD)
qed

lemma answer_ok:
  assumes ok: "cache_ok s" and r: "Reading a ns k \<in> set (ca_readers s)"
  shows "cache_ok (set_reader i (Answered a k, if stored then s\<lparr>ca_payloads := (ns, k) # ca_payloads s\<rparr> else s))"
proof -
  define t where "t = (if stored then s\<lparr>ca_payloads := (ns, k) # ca_payloads s\<rparr> else s)"
  have t: "ca_readers t = ca_readers s" "ca_callbacks t = ca_callbacks s" "ca_announced t = ca_announced s" "ca_pending t = ca_pending s"
    "ca_version t = ca_version s" "ca_fresh t = ca_fresh s" "items t = items s"
    "ca_rows t = ca_rows s" "ca_unannounced t = ca_unannounced s" using r by (auto simp: t_def items_def)
  let ?s = "set_reader i (Answered a k, t)"
  have items: "items ?s \<subseteq> items s"
  proof (intro subsetI)
    fix x assume "x \<in> items ?s"
    from set_reader_items[OF this] t(7) show "x \<in> items s" by simp
  qed
  have l: "later s ?s" using items t cache_okD(1)[OF ok] by (auto simp: later_def)
  have "cache_ok ?s"
  proof (rule step_keeps[OF ok l])
    fix q assume "q \<in> set (ca_readers ?s)" "q \<notin> set (ca_readers s)"
    then have "q = Answered a k" using set_reader_readers t(1) by metis
    then show "reader_ok ?s q" using cache_okD(6)[OF ok r] by simp
  next
    fix z assume "z \<in> removers ?s" "z \<notin> removers s"
    then show "remover_ok ?s z" using set_reader_removers[of z i _ t] removers_cong[OF t(2,1)] by auto
  qed (use items t cache_okD(7,8)[OF ok] in auto)
  then show ?thesis by (simp add: t_def)
qed

lemma miss_ok:
  assumes ok: "cache_ok s" and r: "Ready a ns \<in> set (ca_readers s)"
  shows "cache_ok (set_reader i (Reading a ns (ca_rows s), s))"
proof -
  let ?s = "set_reader i (Reading a ns (ca_rows s), s)"
  have items: "items ?s \<subseteq> insert (ns, ca_rows s) (items s)" using set_reader_items[of _ i _ s] by force
  have rows: "ca_announced s \<le> ca_rows s" by (rule cache_okD(7)[OF ok])
  have "x \<in> items s \<or> ca_announced s \<le> snd x" if "x \<in> items ?s" for x using items that rows by auto
  then have l: "later s ?s" using cache_okD(1)[OF ok] by (simp add: later_def)
  have g: "a \<le> ca_announced s" "ns_version ns < ca_fresh s" "\<forall>m \<in> digest_markers (ns_digest ns). m \<le> a" "digest_fresh (ca_fresh s) (ns_digest ns)"
    using cache_okD(6)[OF ok r] by auto
  show ?thesis
  proof (rule step_keeps[OF ok l])
    fix x assume "x \<in> items ?s" "x \<notin> items s"
    then have "x = (ns, ca_rows s)" using items by auto
    with g rows show "item_ok ?s x" by (auto simp: item_ok_def)
  next
    fix z assume "z \<in> removers ?s" "z \<notin> removers s"
    then show "remover_ok ?s z" using set_reader_removers[of z i _ s] by auto
  next
    fix q assume "q \<in> set (ca_readers ?s)" "q \<notin> set (ca_readers s)"
    then have "q = Reading a ns (ca_rows s)" using set_reader_readers by metis
    then show "reader_ok ?s q" using g(1) rows by simp
  qed (use cache_okD(7,8)[OF ok] in auto)
qed

lemma hit_ok:
  assumes ok: "cache_ok s" and r: "Ready a ns \<in> set (ca_readers s)" and p: "(ns, k) \<in> set (ca_payloads s)"
  shows "cache_ok (set_reader i (Answered a k, s))"
proof (rule reader_step[OF ok])
  have "(ns, k) \<in> items s" using p by (simp add: items_def)
  then show "reader_ok s (Answered a k)" using cache_okD(6)[OF ok r] by auto
qed (use cache_okD(1)[OF ok] in auto)

lemma cache_step_ok: "cache_step s s' \<Longrightarrow> cache_ok s \<Longrightarrow> cache_ok s'"
proof (induction rule: cache_step.induct)
  case (commit s) then show ?case by (rule commit_ok)
next
  case (save s) then show ?case by (rule save_row_ok)
next
  case (signal i s) then show ?case by (intro save_signal_ok)
next
  case (save_dies s i) then show ?case by (rule less_ok) (auto dest: in_set_takeD in_set_dropD)
next
  case (after_commit i s m reply) then show ?case by (intro callback_rotate_ok)
next
  case (clean_up i s m u ok) then show ?case by (intro callback_remove_ok)
next
  case (callback_dies s i) then show ?case by (rule less_ok) (auto dest: in_set_takeD in_set_dropD)
next
  case (arrive s) then show ?case by (rule less_ok) auto
next
  case (start i s in_atomic) then show ?case by (intro start_ok)
next
  case (resolve i s a in_atomic ids d reply) then show ?case by (metis resolve_ok nth_mem)
next
  case (drain i s a u ids d ok) then show ?case by (metis drain_ok nth_mem)
next
  case (hit i s a ns k) then show ?case by (metis hit_ok nth_mem)
next
  case (miss i s a ns) then show ?case by (metis miss_ok nth_mem)
next
  case (respond i s a ns k stored) then show ?case by (metis answer_ok nth_mem)
next
  case (evict s P) then show ?case by (rule less_ok) auto
next
  case (forget_version s) then show ?case by (rule less_ok) auto
qed

lemma reachable_cache_ok: "cache_reachable s \<Longrightarrow> cache_ok s"
proof (induction rule: cache_reachable.induct)
  case initial
  show ?case by (simp add: cache_ok_def cache_start_def items_def removers_def)
next
  case (step s s')
  then show ?case using cache_step_ok by blast
qed


subsection \<open>Properties\<close>

text \<open>
  C5: A cached response is never older than the writes announced before its request. However requests,
  writes, their markers and their callbacks interleave, and whatever calls of the cache or of the cleanup
  fail or lose their reply, a request is answered with data that includes every write whose marker was
  committed before the request started: every transaction that had committed, and every plain save that
  had returned. (A save outside a transaction commits its row before its marker; see \<open>save_window\<close>.)
\<close>

theorem cached_response_fresh:
  assumes "cache_reachable s" "Answered a k \<in> set (ca_readers s)"
  shows "a \<le> k"
  using cache_okD(6)[OF reachable_cache_ok[OF assms(1)] assms(2)] by simp

text \<open>
  A request fills the cache, a write commits and its invalidation dies, and a second request asks again:
  it misses, although the version is still the old one.
\<close>

definition demo_filled :: cache_state where
  "demo_filled = \<lparr>ca_rows = 0, ca_announced = 0, ca_unannounced = [], ca_pending = [], ca_version = Some 0, ca_fresh = 1, ca_payloads = [(Namespace 0 (Markers []), 0)],
     ca_callbacks = [], ca_readers = [Answered 0 0]\<rparr>"

definition demo_answered :: cache_state where
  "demo_answered = \<lparr>ca_rows = 1, ca_announced = 1, ca_unannounced = [], ca_pending = [1], ca_version = Some 0, ca_fresh = 1,
     ca_payloads = [(Namespace 0 (Markers [1]), 1), (Namespace 0 (Markers []), 0)],
     ca_callbacks = [], ca_readers = [Answered 0 0, Answered 1 1]\<rparr>"

lemmas request_simps = set_reader_def start_request_def pending_digest_def recovery_batch_size_def resolve_version_def
  current_version_def uuid4_def business_commit_def commit_row_def insert_marker_def save_row_def cache_start_def

lemma demo_filled_reachable: "cache_reachable demo_filled"
proof -
  let ?v = "Some 0 :: nat option"
  have r1: "cache_reachable (cache_start\<lparr>ca_readers := [Idle]\<rparr>)"
    using cache_reachable.step[OF initial arrive] by (simp add: cache_start_def)
  have r2: "cache_reachable (cache_start\<lparr>ca_readers := [GotPending 0 False [] (Markers [])]\<rparr>)"
    using cache_reachable.step[OF r1 start[of 0 _ False]] by (simp add: request_simps)
  have r3: "cache_reachable (cache_start\<lparr>ca_version := ?v, ca_fresh := 1, ca_readers := [Ready 0 (Namespace 0 (Markers []))]\<rparr>)"
    using cache_reachable.step[OF r2 resolve[of 0 _ 0 False "[]" "Markers []" Works]] by (simp add: request_simps)
  have r4: "cache_reachable (cache_start\<lparr>ca_version := ?v, ca_fresh := 1, ca_readers := [Reading 0 (Namespace 0 (Markers [])) 0]\<rparr>)"
    using cache_reachable.step[OF r3 miss[of 0 _ 0 "Namespace 0 (Markers [])"]] by (simp add: request_simps)
  show ?thesis
    using cache_reachable.step[OF r4 respond[of 0 _ 0 "Namespace 0 (Markers [])" 0 True]] by (simp add: request_simps demo_filled_def)
qed

lemma demo_answered_reachable: "cache_reachable demo_answered"
proof -
  let ?n = "Namespace 0 (Markers [1])"
  let ?s = "\<lambda>r. demo_filled\<lparr>ca_rows := 1, ca_announced := 1, ca_pending := [1], ca_readers := [Answered 0 0, r]\<rparr>"
  have c: "cache_reachable (demo_filled\<lparr>ca_rows := 1, ca_announced := 1, ca_pending := [1], ca_callbacks := [(1, None)]\<rparr>)"
    using cache_reachable.step[OF demo_filled_reachable commit] by (simp add: demo_filled_def request_simps)
  have d: "cache_reachable (demo_filled\<lparr>ca_rows := 1, ca_announced := 1, ca_pending := [1]\<rparr>)"
    using cache_reachable.step[OF c callback_dies[of _ 0]] by (simp add: demo_filled_def)
  have r0: "cache_reachable (?s Idle)"
    using cache_reachable.step[OF d arrive] by (simp add: demo_filled_def)
  have r1: "cache_reachable (?s (GotPending 1 True [1] (Markers [1])))"
    using cache_reachable.step[OF r0 start[of 1 _ True]] by (simp add: request_simps demo_filled_def)
  have r2: "cache_reachable (?s (Ready 1 ?n))"
    using cache_reachable.step[OF r1 resolve[of 1 _ 1 True "[1]" "Markers [1]" Works]] by (simp add: request_simps demo_filled_def)
  have r3: "cache_reachable (?s (Reading 1 ?n 1))"
    using cache_reachable.step[OF r2 miss[of 1 _ 1 ?n]] by (simp add: request_simps demo_filled_def)
  show ?thesis
    using cache_reachable.step[OF r3 respond[of 1 _ 1 ?n 1 True]] by (simp add: request_simps demo_filled_def demo_answered_def)
qed

theorem cached_response_fresh_witness: "(1 :: nat) \<le> 1 \<and> Answered 1 1 \<in> set (ca_readers demo_answered)"
  using cached_response_fresh[OF demo_answered_reachable, of 1 1] by (simp add: demo_answered_def)

text \<open>
  The window of a plain save: its row is committed, its marker is not, and a request that starts only now is
  answered from the cache with the data before the write.
\<close>

definition window_state :: "reader \<Rightarrow> cache_state" where
  "window_state r = demo_filled\<lparr>ca_rows := 1, ca_unannounced := [1], ca_readers := [Answered 0 0, r]\<rparr>"

lemma save_window:
  "cache_reachable (window_state Idle)" "ca_rows (window_state Idle) = 1" "cache_step\<^sup>*\<^sup>* (window_state Idle) (window_state (Answered 0 0))"
proof -
  have s: "cache_reachable (demo_filled\<lparr>ca_rows := 1, ca_unannounced := [1]\<rparr>)"
    using cache_reachable.step[OF demo_filled_reachable save] by (simp add: demo_filled_def request_simps)
  show "cache_reachable (window_state Idle)"
    using cache_reachable.step[OF s arrive] by (simp add: demo_filled_def window_state_def)
  show "ca_rows (window_state Idle) = 1" by (simp add: window_state_def)
  let ?n = "Namespace 0 (Markers [])"
  have 1: "cache_step (window_state Idle) (window_state (GotPending 0 False [] (Markers [])))"
    using start[of 1 "window_state Idle" False] by (simp add: request_simps demo_filled_def window_state_def)
  have 2: "cache_step (window_state (GotPending 0 False [] (Markers []))) (window_state (Ready 0 ?n))"
    using resolve[of 1 "window_state (GotPending 0 False [] (Markers []))" 0 False "[]" "Markers []" Works]
    by (simp add: request_simps demo_filled_def window_state_def)
  have 3: "cache_step (window_state (Ready 0 ?n)) (window_state (Answered 0 0))"
    using hit[of 1 "window_state (Ready 0 ?n)" 0 ?n 0] by (simp add: request_simps demo_filled_def window_state_def)
  from 1 2 3 show "cache_step\<^sup>*\<^sup>* (window_state Idle) (window_state (Answered 0 0))"
    by (meson converse_rtranclp_into_rtranclp rtranclp.rtrancl_refl)
qed

end
