(* ===== verification/Api_Cache.thy ===== *)
theory Api_Cache
  imports Data_Cache
begin

text \<open>
  The read cache in front of the list and report endpoints: the wrapper \<^verbatim>\<open>cache_api_response\<close> and the
  signal filter of \<^verbatim>\<open>config/data_cache.py\<close>, over the two cache levels of \<^verbatim>\<open>config/cache_payloads.py\<close>.
  Times are seconds. The library caches may forget an entry at any time (\<open>Evict\<close>); they never invent one. The
  wrapped handler is an argument: its status code and its data.
\<close>

subsection \<open>Two levels of payloads\<close>

text \<open>An entry is a payload with the time at which it expires, if it does.\<close>

type_synonym ('k, 'v) level = "'k \<Rightarrow> (int option \<times> 'v) option"

definition get_payload :: "int \<Rightarrow> 'k \<Rightarrow> ('k, 'v) level \<Rightarrow> ('k, 'v) level \<Rightarrow> 'v option \<times> ('k, 'v) level" where
  "get_payload now key memory shared =
     (case memory key of
        None \<Rightarrow>
          (case shared key of
             None \<Rightarrow> (None, memory)
           | Some (expires_at, value) \<Rightarrow>
               if (case expires_at of Some e \<Rightarrow> e - now \<le> 0 | None \<Rightarrow> False) then (None, memory)
               else (Some value, memory(key \<mapsto> (expires_at, value))))
      | Some (expires_at, value) \<Rightarrow>
          if (case expires_at of Some e \<Rightarrow> e \<le> now | None \<Rightarrow> False) then (None, memory(key := None))
          else (Some value, memory))"

text \<open>
  A write to the shared level works, is declined with a result of False, or raises before or after its effect. Only
  when it raises the entry does not reach the memory.
\<close>

datatype set_reply = SetWorks | SetDeclined | SetRaises bool

definition set_payload ::
    "set_reply \<Rightarrow> int \<Rightarrow> 'k \<Rightarrow> 'v \<Rightarrow> int option \<Rightarrow> ('k, 'v) level \<Rightarrow> ('k, 'v) level \<Rightarrow> ('k, 'v) level \<times> ('k, 'v) level" where
  "set_payload reply now key value timeout memory shared =
     (let entry = (map_option (\<lambda>t. now + t) timeout, value)
      in case reply of
           SetWorks \<Rightarrow> (memory(key \<mapsto> entry), shared(key \<mapsto> entry))
         | SetDeclined \<Rightarrow> (memory(key \<mapsto> entry), shared)
         | SetRaises done \<Rightarrow> (memory, if done then shared(key \<mapsto> entry) else shared))"


subsection \<open>The wrapper\<close>

record api_request =
  aq_method :: string
  aq_authenticated :: bool
  aq_user :: nat
  aq_role :: string
  aq_uri :: string
  aq_timezone :: string
  aq_today :: int

text \<open>\<^verbatim>\<open>data_version\<close>: for staff the namespace is combined with the digest of what they may see.\<close>

definition data_version :: "namespace \<Rightarrow> string \<Rightarrow> bool \<Rightarrow> namespace \<times> string option" where
  "data_version ns visibility visible_to_staff = (ns, if visible_to_staff then Some visibility else None)"

type_synonym api_key = "(namespace \<times> string option) \<times> nat \<times> string \<times> string \<times> string \<times> int"

definition api_key :: "namespace \<Rightarrow> string \<Rightarrow> api_request \<Rightarrow> api_key" where
  "api_key ns visibility q =
     (data_version ns visibility (aq_role q = ''staff''), aq_user q, aq_role q, aq_uri q, aq_timezone q, aq_today q)"

text \<open>One memory per process, and the shared level.\<close>

record 'v api_cache =
  ap_memory :: "nat \<Rightarrow> (api_key, 'v) level"
  ap_shared :: "(api_key, 'v) level"

datatype cache_header = NoHeader | Hit | Miss

record 'v api_response =
  ar_status :: nat
  ar_data :: 'v
  ar_header :: cache_header

text \<open>
  The arguments besides the request: the process, the clock, the namespace and visibility at the time of
  the request, whether the read of the cache worked, how its write went, and the handler.
\<close>

record 'v api_call =
  al_process :: nat
  al_now :: int
  al_namespace :: namespace
  al_visibility :: string
  al_read_ok :: bool
  al_write :: set_reply
  al_timeout :: "int option"
  al_request :: api_request
  al_handler :: "nat \<times> 'v"

definition cache_api_response :: "'v api_call \<Rightarrow> 'v api_cache \<Rightarrow> 'v api_response \<times> 'v api_cache" where
  "cache_api_response c st =
     (let q = al_request c; p = al_process c; (code, data) = al_handler c
      in if aq_method q \<notin> {''GET'', ''HEAD''} \<or> \<not> aq_authenticated q
         then (\<lparr>ar_status = code, ar_data = data, ar_header = NoHeader\<rparr>, st)
         else
           let key = api_key (al_namespace c) (al_visibility c) q;
               (found, memory) = (if al_read_ok c then get_payload (al_now c) key (ap_memory st p) (ap_shared st) else (None, ap_memory st p));
               st1 = st\<lparr>ap_memory := (ap_memory st)(p := memory)\<rparr>
           in case found of
                Some payload \<Rightarrow> (\<lparr>ar_status = 200, ar_data = payload, ar_header = Hit\<rparr>, st1)
              | None \<Rightarrow>
                  if code = 200
                  then let (memory2, shared2) = set_payload (al_write c) (al_now c) key data (al_timeout c) memory (ap_shared st)
                       in (\<lparr>ar_status = code, ar_data = data, ar_header = Miss\<rparr>,
                           st1\<lparr>ap_memory := (ap_memory st)(p := memory2), ap_shared := shared2\<rparr>)
                  else (\<lparr>ar_status = code, ar_data = data, ar_header = NoHeader\<rparr>, st1))"

text \<open>The signal handler: which saved and deleted rows retire the namespace.\<close>

definition login_fields :: "string list" where
  "login_fields = [''last_login'', ''failed_login_attempts'', ''locked_until'', ''password'', ''last_password_change_at'']"

definition business_write :: "bool \<Rightarrow> string list option \<Rightarrow> bool" where
  "business_write is_user update_fields =
     (\<not> (is_user \<and> (case update_fields of Some fs \<Rightarrow> set fs \<subseteq> set login_fields | None \<Rightarrow> False)))"

definition watched_model :: "string \<Rightarrow> string \<Rightarrow> bool" where
  "watched_model app label =
     (app \<in> {''inventory'', ''sales'', ''forecasting''} \<or>
      label \<in> {''accounts.users'', ''systemsetting.systemsettings'', ''systemsetting.notificationsettings''})"


text \<open>
  What happens to the cache: requests in any process, and either level forgetting entries, which the library
  caches may do at any time.
\<close>

datatype 'v api_event = Serve "'v api_call" | Evict "nat \<Rightarrow> api_key set" "api_key set"

fun api_event_step :: "'v api_event \<Rightarrow> 'v api_cache \<Rightarrow> 'v api_cache" where
  "api_event_step (Serve c) st = snd (cache_api_response c st)"
| "api_event_step (Evict lost gone) st =
     st\<lparr>ap_memory := (\<lambda>p. (ap_memory st p) |` (- lost p)), ap_shared := (ap_shared st) |` (- gone)\<rparr>"

definition api_run :: "'v api_event list \<Rightarrow> 'v api_cache \<Rightarrow> 'v api_cache" where
  "api_run es st = foldl (\<lambda>st e. api_event_step e st) st es"

definition empty_api_cache :: "'v api_cache" where
  "empty_api_cache = \<lparr>ap_memory = (\<lambda>_ _. None), ap_shared = (\<lambda>_. None)\<rparr>"


subsection \<open>Where a cached payload comes from\<close>

text \<open>A call of the wrapper that would leave this entry under this key.\<close>

definition call_key :: "'v api_call \<Rightarrow> api_key" where
  "call_key c = api_key (al_namespace c) (al_visibility c) (al_request c)"

fun entry_from :: "'v api_call \<Rightarrow> api_key \<Rightarrow> int option \<times> 'v \<Rightarrow> bool" where
  "entry_from c key (e, v) \<longleftrightarrow> call_key c = key \<and> al_handler c = (200, v) \<and> e = map_option (\<lambda>d. al_now c + d) (al_timeout c)"

text \<open>Every entry of either level was left by one of the calls.\<close>

definition levels_ok :: "'v api_call set \<Rightarrow> 'v api_cache \<Rightarrow> bool" where
  "levels_ok C st \<longleftrightarrow>
     (\<forall>key x. ap_shared st key = Some x \<longrightarrow> (\<exists>c \<in> C. entry_from c key x)) \<and>
     (\<forall>p key x. ap_memory st p key = Some x \<longrightarrow> (\<exists>c \<in> C. entry_from c key x))"

lemma levels_ok_mono: "levels_ok C st \<Longrightarrow> C \<subseteq> D \<Longrightarrow> levels_ok D st"
  unfolding levels_ok_def by blast

lemma get_payload_from:
  assumes "get_payload now key memory shared = (found, memory')"
  shows "memory' k = Some x \<Longrightarrow> memory k = Some x \<or> shared k = Some x"
    and "found = Some v \<Longrightarrow> \<exists>e. (memory key = Some (e, v) \<or> shared key = Some (e, v)) \<and> (\<forall>t. e = Some t \<longrightarrow> now < t)"
  using assms by (auto simp: get_payload_def split: option.splits if_splits prod.splits)

lemma set_payload_from:
  assumes "set_payload reply now key value timeout memory shared = (memory', shared')"
  shows "memory' k = Some x \<Longrightarrow> memory k = Some x \<or> (k = key \<and> x = (map_option (\<lambda>t. now + t) timeout, value))"
    and "shared' k = Some x \<Longrightarrow> shared k = Some x \<or> (k = key \<and> x = (map_option (\<lambda>t. now + t) timeout, value))"
  using assms by (auto simp: set_payload_def Let_def split: set_reply.splits if_splits)

text \<open>An answer: what it leaves in the two levels, and where a hit comes from.\<close>

lemma cache_api_response_from:
  assumes "cache_api_response c st = (resp, st')"
  shows "ap_memory st' p k = Some x \<Longrightarrow> ap_memory st p k = Some x \<or> ap_shared st k = Some x \<or> entry_from c k x"
    and "ap_shared st' k = Some x \<Longrightarrow> ap_shared st k = Some x \<or> entry_from c k x"
    and "ar_header resp = Hit \<Longrightarrow> \<exists>e. (ap_memory st (al_process c) (call_key c) = Some (e, ar_data resp) \<or>
      ap_shared st (call_key c) = Some (e, ar_data resp)) \<and> (\<forall>t. e = Some t \<longrightarrow> al_now c < t)"
proof -
  let ?q = "al_request c" and ?p = "al_process c" and ?key = "call_key c"
  obtain code data where h: "al_handler c = (code, data)" by fastforce
  obtain found memory where g: "(if al_read_ok c then get_payload (al_now c) ?key (ap_memory st ?p) (ap_shared st) else (None, ap_memory st ?p))
      = (found, memory)" by (metis surj_pair)
  have mem: "memory k = Some x \<Longrightarrow> ap_memory st ?p k = Some x \<or> ap_shared st k = Some x" for k x
    using get_payload_from(1)[of _ _ _ _ found memory k x] g by (auto split: if_splits)
  obtain memory2 shared2 where s: "set_payload (al_write c) (al_now c) ?key data (al_timeout c) memory (ap_shared st) = (memory2, shared2)"
    by fastforce
  consider (plain) "st' = st" "ar_header resp = NoHeader"
    | (read) "st' = st\<lparr>ap_memory := (ap_memory st)(?p := memory)\<rparr>" "ar_header resp = Hit \<Longrightarrow> found = Some (ar_data resp)"
    | (stored) "st' = st\<lparr>ap_memory := (ap_memory st)(?p := memory2), ap_shared := shared2\<rparr>" "code = 200" "ar_header resp = Miss"
  proof (cases "aq_method ?q \<notin> {''GET'', ''HEAD''} \<or> \<not> aq_authenticated ?q")
    case True
    with assms show ?thesis by (intro plain) (auto simp: cache_api_response_def h)
  next
    case f: False
    note r' = assms[unfolded cache_api_response_def Let_def h prod.case if_not_P[OF f] g[unfolded call_key_def]]
    show ?thesis
    proof (cases "found = None \<and> code = 200")
      case True
      with r' s show ?thesis by (intro stored) (auto simp: call_key_def)
    next
      case False
      with r' show ?thesis by (intro read) (cases found, auto split: if_splits)+
    qed
  qed
  note kinds = this
  from kinds show "ap_memory st' p k = Some x \<Longrightarrow> ap_memory st p k = Some x \<or> ap_shared st k = Some x \<or> entry_from c k x"
  proof cases
    case stored
    then show "ap_memory st' p k = Some x \<Longrightarrow> ap_memory st p k = Some x \<or> ap_shared st k = Some x \<or> entry_from c k x"
      using set_payload_from(1)[OF s, of k x] mem[of k x] h by (cases "p = ?p") auto
  qed (auto dest: mem split: if_splits)
  from kinds show "ap_shared st' k = Some x \<Longrightarrow> ap_shared st k = Some x \<or> entry_from c k x"
    using set_payload_from(2)[OF s, of k x] h by cases auto
  assume hit: "ar_header resp = Hit"
  with kinds have "found = Some (ar_data resp)" by cases auto
  with g have "get_payload (al_now c) ?key (ap_memory st ?p) (ap_shared st) = (Some (ar_data resp), memory)" by (auto split: if_splits)
  from get_payload_from(2)[OF this] show "\<exists>e. (ap_memory st ?p ?key = Some (e, ar_data resp) \<or>
      ap_shared st ?key = Some (e, ar_data resp)) \<and> (\<forall>t. e = Some t \<longrightarrow> al_now c < t)" by blast
qed

lemma api_event_ok:
  assumes ok: "levels_ok C st"
  shows "levels_ok (C \<union> {c. e = Serve c}) (api_event_step e st)"
proof (cases e)
  case (Serve c)
  note resp = cache_api_response_from[of c st "fst (cache_api_response c st)" "snd (cache_api_response c st)"]
  let ?C = "C \<union> {x. e = Serve x}" and ?st = "snd (cache_api_response c st)"
  have mem: "c \<in> ?C" "C \<subseteq> ?C" using Serve by auto
  have "\<exists>x \<in> ?C. entry_from x k v" if "ap_shared ?st k = Some v" for k v
    using resp(2)[of k v] that ok mem unfolding levels_ok_def prod.collapse by blast
  moreover have "\<exists>x \<in> ?C. entry_from x k v" if "ap_memory ?st p k = Some v" for p k v
    using resp(1)[of p k v] that ok mem unfolding levels_ok_def prod.collapse by blast
  ultimately show ?thesis unfolding Serve levels_ok_def api_event_step.simps by (simp add: Serve)
next
  case (Evict lost gone)
  then show ?thesis using ok by (auto simp: levels_ok_def restrict_map_def split: if_splits)
qed

lemma api_run_ok: "levels_ok C st \<Longrightarrow> levels_ok (C \<union> {c. Serve c \<in> set es}) (api_run es st)"
proof (induction es arbitrary: C st)
  case (Cons e es)
  have "levels_ok (C \<union> {c. e = Serve c} \<union> {c. Serve c \<in> set es}) (api_run es (api_event_step e st))"
    by (rule Cons.IH[OF api_event_ok[OF Cons.prems]])
  moreover have "api_run (e # es) st = api_run es (api_event_step e st)" by (simp add: api_run_def)
  moreover have "C \<union> {c. e = Serve c} \<union> {c. Serve c \<in> set es} = C \<union> {c. Serve c \<in> set (e # es)}" by auto
  ultimately show ?case by simp
qed (simp add: api_run_def)

text \<open>
  C34: A cached answer belongs to its reader and is not stale. After any run of requests in any processes, with
  entries forgotten at any time, an answer from the cache is data that the handler returned with status 200 to an
  earlier request of the same user in the same role, for the same address, day and time zone and the same version of
  the business data (for staff also the same visibility of products), less than the timeout of that request ago.
\<close>

theorem cached_answer_is_own:
  assumes "cache_api_response c (api_run es empty_api_cache) = (resp, st')"
    "ar_header resp = Hit"
  shows "\<exists>c0. Serve c0 \<in> set es \<and> al_handler c0 = (200, ar_data resp) \<and>
    (case al_timeout c0 of None \<Rightarrow> True | Some d \<Rightarrow> al_now c < al_now c0 + d) \<and>
    aq_user (al_request c0) = aq_user (al_request c) \<and> aq_role (al_request c0) = aq_role (al_request c) \<and>
    aq_uri (al_request c0) = aq_uri (al_request c) \<and> aq_timezone (al_request c0) = aq_timezone (al_request c) \<and>
    aq_today (al_request c0) = aq_today (al_request c) \<and> al_namespace c0 = al_namespace c \<and>
    (aq_role (al_request c) = ''staff'' \<longrightarrow> al_visibility c0 = al_visibility c)"
proof -
  let ?st = "api_run es empty_api_cache"
  have ok: "levels_ok {x. Serve x \<in> set es} ?st" using api_run_ok[of "{}" empty_api_cache es] by (auto simp: levels_ok_def empty_api_cache_def)
  obtain e where e: "ap_memory ?st (al_process c) (call_key c) = Some (e, ar_data resp) \<or> ap_shared ?st (call_key c) = Some (e, ar_data resp)"
    "\<forall>t. e = Some t \<longrightarrow> al_now c < t" using cache_api_response_from(3)[OF assms] by blast
  then obtain c0 where c0: "Serve c0 \<in> set es" "entry_from c0 (call_key c) (e, ar_data resp)" using ok unfolding levels_ok_def by blast
  then show ?thesis using e(2)
    by (intro exI[of _ c0]) (auto simp: call_key_def api_key_def data_version_def split: if_splits option.splits)
qed

definition demo_call :: "nat \<Rightarrow> int \<Rightarrow> string api_call" where
  "demo_call process now = \<lparr>al_process = process, al_now = now, al_namespace = Namespace 0 (Markers []), al_visibility = ''v'',
     al_read_ok = True, al_write = SetWorks, al_timeout = Some 60,
     al_request = \<lparr>aq_method = ''GET'', aq_authenticated = True, aq_user = 1, aq_role = ''staff'', aq_uri = ''/api/stock/'',
       aq_timezone = ''Asia/Manila'', aq_today = 700000\<rparr>,
     al_handler = (200, ''[]'')\<rparr>"

theorem cached_answer_is_own_witness:
  "\<exists>c0. Serve c0 \<in> set [Serve (demo_call 0 0), Evict (\<lambda>p. UNIV) {}] \<and> al_handler c0 = (200, ''[]'') \<and> (30 :: int) < al_now c0 + 60 \<and>
     aq_user (al_request c0) = 1 \<and> al_visibility c0 = ''v''"
proof -
  let ?es = "[Serve (demo_call 0 0), Evict (\<lambda>p. UNIV) {}]"
  let ?r = "cache_api_response (demo_call 1 30) (api_run ?es empty_api_cache)"
  have "ar_header (fst ?r) = Hit \<and> ar_data (fst ?r) = ''[]''"
    by (simp add: api_run_def cache_api_response_def demo_call_def Let_def api_key_def data_version_def get_payload_def set_payload_def empty_api_cache_def)
  then show ?thesis using cached_answer_is_own[of "demo_call 1 30" ?es "fst ?r" "snd ?r"]
    by (fastforce simp: demo_call_def)
qed

end
