(* ===== verification/Notifications.thy ===== *)
theory Notifications
  imports Sale_Views
begin

text \<open>
  The alert inbox: live alerts computed from stock and orders (\<^verbatim>\<open>systemsetting/notifications.py\<close>), the
  table of acknowledgements and the settings rows (\<^verbatim>\<open>systemsetting/models\<close>), and the endpoint that marks
  alerts as read, dismissed or restored (\<^verbatim>\<open>systemsetting/views/inbox_views.py\<close>). The revision of an alert
  is a digest of the data it is about; here it is that data. The wording of a body is kept as its parts,
  and a bullet in a title is a dash.
\<close>

subsection \<open>Alerts\<close>

datatype revision =
    LowStockOf "(nat \<times> dec \<times> int) list"
  | ExpiryOf nat date expiry_status
  | OrderOf nat order_status dec instant

datatype alert_body =
    BelowMinimum nat
  | ExpiredOn string string date
  | ExpiresOn string string date
  | OrderTotal nat dec

record alert =
  an_id :: string
  an_revision :: revision
  an_type :: string
  an_title :: string
  an_body :: alert_body
  an_time :: string
  an_unread :: bool
  an_dismissed :: bool

definition add_alert :: "string \<Rightarrow> string \<Rightarrow> string \<Rightarrow> alert_body \<Rightarrow> revision \<Rightarrow> string \<Rightarrow> alert" where
  "add_alert key kind title body source time =
     \<lparr>an_id = key, an_revision = source, an_type = kind, an_title = title, an_body = body, an_time = time,
      an_unread = True, an_dismissed = False\<rparr>"

record note_settings =
  nq_low :: bool
  nq_near :: bool
  nq_new :: bool

text \<open>An acknowledgement; there is at most one per user, alert and revision.\<close>

record note_state =
  nt_user :: nat
  nt_key :: string
  nt_revision :: revision
  nt_read :: "instant option"
  nt_dismissed :: "instant option"

record note_store =
  no_settings :: "note_settings option"
  no_states :: "note_state list"

definition note_config :: "note_store \<Rightarrow> note_settings \<times> note_store" where
  "note_config ns = (case no_settings ns of
      Some c \<Rightarrow> (c, ns)
    | None \<Rightarrow> let c = \<lparr>nq_low = True, nq_near = True, nq_new = True\<rparr> in (c, ns\<lparr>no_settings := Some c\<rparr>))"

definition product_of_batch :: "'z inv_store_scheme \<Rightarrow> batch \<Rightarrow> string" where
  "product_of_batch st b = (case row_get pr_id (st_products st) (pb_product b) of Some p \<Rightarrow> pr_name p | None \<Rightarrow> [])"

definition low_stock_alerts :: "date \<Rightarrow> bool \<Rightarrow> sales_store \<Rightarrow> alert list \<times> sales_store" where
  "low_stock_alerts today visible st =
     (let (config, st1) = get_config st;
          (rows, st2) = check_product_stock today visible st1
      in (if rows = [] then []
          else [add_alert ''low-stock-products'' ''warning'' ''Low Stock Alert'' (BelowMinimum (length rows))
                 (LowStockOf (sort_key fst (map (\<lambda>(p, q). (pr_id p, q, fc_low config)) rows))) ''Live''], st2))"

definition expiry_key :: "batch \<Rightarrow> string" where
  "expiry_key b = ''expiry-product-'' @ str_nat (pb_id b)"

definition expired_alerts :: "date \<Rightarrow> bool \<Rightarrow> sales_store \<Rightarrow> alert list" where
  "expired_alerts today visible st =
     (let rows = filter (expired_stock_filter today) (sort_key pb_expiration (st_batches st));
          rows = (if visible then filter (batch_visible st) rows else rows)
      in map (\<lambda>b. add_alert (expiry_key b) ''danger'' ''EXPIRED - Action Required''
           (ExpiredOn (product_of_batch st b) (pb_number b) (pb_expiration b)) (ExpiryOf (pb_id b) (pb_expiration b) ExpiredStock) ''Live'') rows)"

definition near_expiry_alerts :: "date \<Rightarrow> bool \<Rightarrow> sales_store \<Rightarrow> alert list \<times> sales_store" where
  "near_expiry_alerts today visible st =
     (let (rows, st') = check_product_expiration today visible st
      in (map (\<lambda>(b, status). add_alert (expiry_key b) ''danger'' ''Product Expiry Warning''
          (ExpiresOn (product_of_batch st b) (pb_number b) (pb_expiration b)) (ExpiryOf (pb_id b) (pb_expiration b) status) ''Live'') rows, st'))"

definition age_label :: "date \<Rightarrow> date \<Rightarrow> string" where
  "age_label today day =
     (let elapsed = today - day
      in if elapsed \<le> 0 then ''Today'' else if elapsed = 1 then ''Yesterday'' else str_nat (nat elapsed) @ '' days ago'')"

definition order_alerts :: "date \<Rightarrow> account \<Rightarrow> sales_store \<Rightarrow> alert list" where
  "order_alerts today user st =
     (let orders = visible_orders user st (filter (\<lambda>ord. or_status ord = Fulfilled) (ss_orders st));
          latest = take 2 (sort_key (\<lambda>ord. (- or_created ord, - int (or_id ord))) orders)
      in map (\<lambda>ord. add_alert (''fulfilled-'' @ str_nat (or_id ord)) ''success'' ''Order Fulfilled'' (OrderTotal (or_id ord) (order_total st ord))
           (OrderOf (or_id ord) (or_status ord) (order_total st ord) (or_created ord)) (age_label today (local_date (or_created ord)))) latest)"

definition live_notifications ::
    "date \<Rightarrow> account \<Rightarrow> sales_store \<Rightarrow> note_store \<Rightarrow> alert list \<times> sales_store \<times> note_store" where
  "live_notifications today user st ns =
     (let (settings, ns1) = note_config ns;
          visible = (ac_role user = ''staff'');
          (low, st1) = (if nq_low settings then low_stock_alerts today visible st else ([], st));
          (near, st2) = (if nq_near settings
                         then let (alerts, st2) = near_expiry_alerts today visible st1
                              in (expired_alerts today visible st1 @ alerts, st2)
                         else ([], st1));
          new = (if nq_new settings then order_alerts today user st2 else [])
      in (low @ near @ new, st2, ns1))"


subsection \<open>The inbox\<close>

definition note_of :: "nat \<Rightarrow> string \<Rightarrow> revision \<Rightarrow> note_state list \<Rightarrow> note_state option" where
  "note_of user key r states = find (\<lambda>s. nt_user s = user \<and> nt_key s = key \<and> nt_revision s = r) states"

definition with_state :: "nat \<Rightarrow> note_state list \<Rightarrow> alert \<Rightarrow> alert" where
  "with_state user states a =
     (case note_of user (an_id a) (an_revision a) states of
        None \<Rightarrow> a
      | Some s \<Rightarrow> a\<lparr>an_unread := (nt_read s = None), an_dismissed := (nt_dismissed s \<noteq> None)\<rparr>)"

definition notification_feed :: "date \<Rightarrow> account \<Rightarrow> sales_store \<Rightarrow> note_store \<Rightarrow> alert list \<times> sales_store \<times> note_store" where
  "notification_feed today user st ns =
     (let (alerts, st1, ns1) = live_notifications today user st ns
      in (map (with_state (ac_id user) (no_states ns1)) alerts, st1, ns1))"

datatype note_action = MarkRead | Dismiss | Restore

definition apply_action :: "note_action \<Rightarrow> instant \<Rightarrow> note_state \<Rightarrow> note_state" where
  "apply_action action now s =
     (let s1 = (if action = MarkRead \<or> action = Dismiss then s\<lparr>nt_read := Some (fill (nt_read s) now)\<rparr> else s)
      in if action = Dismiss then s1\<lparr>nt_dismissed := Some (fill (nt_dismissed s1) now)\<rparr>
         else if action = Restore then s1\<lparr>nt_dismissed := None\<rparr> else s1)"

definition mark_one :: "nat \<Rightarrow> note_action \<Rightarrow> instant \<Rightarrow> string \<times> revision \<Rightarrow> note_state list \<Rightarrow> note_state list" where
  "mark_one user action now kr states =
     (let fits = (\<lambda>s. nt_user s = user \<and> nt_key s = fst kr \<and> nt_revision s = snd kr);
          states1 = (case note_of user (fst kr) (snd kr) states of
              Some _ \<Rightarrow> states
            | None \<Rightarrow> states @ [\<lparr>nt_user = user, nt_key = fst kr, nt_revision = snd kr, nt_read = None, nt_dismissed = None\<rparr>])
      in map (\<lambda>s. if fits s then apply_action action now s else s) states1)"

text \<open>
  The endpoint; the answer is the status code and the number of alerts. New rows come in the order of the
  request instead of the order of their keys; nothing reads that order.
\<close>

definition inbox_post ::
    "date \<Rightarrow> instant \<Rightarrow> account \<Rightarrow> note_action \<Rightarrow> (string \<times> revision) list \<Rightarrow> sales_store \<Rightarrow> note_store \<Rightarrow>
     (nat \<times> nat) \<times> sales_store \<times> note_store" where
  "inbox_post today now user action requested st ns =
     (let (alerts, st1, ns1) = live_notifications today user st ns;
          valid = map (\<lambda>a. (an_id a, an_revision a)) alerts;
          keys = remdups requested
      in if \<not> set keys \<subseteq> set valid then ((409, 0), st1, ns1)
         else ((200, length keys), st1, ns1\<lparr>no_states := fold (mark_one (ac_id user) action now) keys (no_states ns1)\<rparr>))"


subsection \<open>Acknowledgements\<close>

text \<open>What an action does to one acknowledgement is seen by a look-up of that user, alert and revision only.\<close>

definition blank_note :: "nat \<Rightarrow> string \<Rightarrow> revision \<Rightarrow> note_state" where
  "blank_note user key r = \<lparr>nt_user = user, nt_key = key, nt_revision = r, nt_read = None, nt_dismissed = None\<rparr>"

lemma apply_action_key [simp]:
  "nt_user (apply_action action now s) = nt_user s" "nt_key (apply_action action now s) = nt_key s"
  "nt_revision (apply_action action now s) = nt_revision s"
  by (simp_all add: apply_action_def Let_def)

lemma find_map_same: "(\<And>x. P (f x) = P x) \<Longrightarrow> find P (map f xs) = map_option f (find P xs)"
  by (induction xs) auto

lemma find_key: "find P xs = Some x \<Longrightarrow> P x"
  by (induction xs) (auto split: if_splits)

lemma mark_one_note:
  "note_of user' key' r' (mark_one user action now (key, r) states) =
     (if user' = user \<and> key' = key \<and> r' = r
      then Some (apply_action action now (case note_of user key r states of Some s \<Rightarrow> s | None \<Rightarrow> blank_note user key r))
      else note_of user' key' r' states)"
proof -
  let ?fits = "\<lambda>s. nt_user s = user \<and> nt_key s = key \<and> nt_revision s = r"
  let ?f = "\<lambda>s. if ?fits s then apply_action action now s else s"
  define states1 where "states1 = (case note_of user key r states of Some _ \<Rightarrow> states | None \<Rightarrow> states @ [blank_note user key r])"
  have m: "mark_one user action now (key, r) states = map ?f states1"
    by (cases "note_of user key r states") (simp_all add: mark_one_def states1_def blank_note_def Let_def)
  have "note_of user' key' r' (map ?f states1) = map_option ?f (note_of user' key' r' states1)"
    unfolding note_of_def by (rule find_map_same) auto
  moreover have "note_of user key r states1 = Some (case note_of user key r states of Some s \<Rightarrow> s | None \<Rightarrow> blank_note user key r)"
    by (auto simp: states1_def note_of_def find_append blank_note_def split: option.splits)
  moreover have "note_of user' key' r' states1 = note_of user' key' r' states" if "\<not> (user' = user \<and> key' = key \<and> r' = r)"
    using that by (auto simp: states1_def note_of_def find_append blank_note_def split: option.splits)
  moreover have "?fits s" if "note_of user key r states1 = Some s" for s
    using find_key[OF that[unfolded note_of_def]] .
  moreover have "\<not> ?fits s" if "note_of user' key' r' states1 = Some s" "\<not> (user' = user \<and> key' = key \<and> r' = r)" for s
    using find_key[OF that(1)[unfolded note_of_def]] that(2) by auto
  ultimately show ?thesis unfolding m by (cases "note_of user' key' r' states") auto
qed

lemma marked_note:
  assumes "distinct keys"
  shows "note_of user' key' r' (fold (mark_one user action now) keys states) =
     (if user' = user \<and> (key', r') \<in> set keys
      then Some (apply_action action now (case note_of user key' r' states of Some s \<Rightarrow> s | None \<Rightarrow> blank_note user key' r'))
      else note_of user' key' r' states)"
  using assms
proof (induction keys arbitrary: states)
  case (Cons k keys)
  obtain key r where k: "k = (key, r)" by fastforce
  with Cons show ?case by (auto simp: mark_one_note)
qed simp


subsection \<open>A second look\<close>

lemma get_config_same: "get_config st = (c, st') \<Longrightarrow> st' = st\<lparr>st_fefo := Some c\<rparr>"
  by (auto simp: get_config_def split: option.splits)

lemma get_config_again [simp]: "get_config (st\<lparr>st_fefo := Some c\<rparr>) = (c, st\<lparr>st_fefo := Some c\<rparr>)"
  by (simp add: get_config_def)

lemma visible_fefo [simp]:
  "category_visible (st\<lparr>st_fefo := c\<rparr>) = category_visible st"
  "batch_visible (st\<lparr>st_fefo := c\<rparr>) = batch_visible st"
  "product_of_batch (st\<lparr>st_fefo := c\<rparr>) = product_of_batch st"
  by (auto simp: fun_eq_iff category_visible_def batch_visible_def product_visible_def product_of_batch_def split: option.splits)

lemma hidden_product_fefo [simp]: "hidden_product (st\<lparr>st_fefo := c\<rparr>) = hidden_product st"
  by (simp add: fun_eq_iff hidden_product_def category_of_def split: option.splits)

lemma sale_rows_fefo [simp]:
  "hidden_item (st\<lparr>st_fefo := c\<rparr>) = hidden_item st"
  "order_txn (st\<lparr>st_fefo := c\<rparr>) = order_txn st"
  "order_lines k (st\<lparr>st_fefo := c\<rparr>) = order_lines k st"
  "txn_items k (st\<lparr>st_fefo := c\<rparr>) = txn_items k st"
  by (simp_all add: fun_eq_iff hidden_item_def order_txn_def order_lines_def txn_items_def cong: option.case_cong)

lemma visible_orders_fefo [simp]:
  "visible_orders u (st\<lparr>st_fefo := c\<rparr>) = visible_orders u st"
  "order_total (st\<lparr>st_fefo := c\<rparr>) = order_total st"
  by (simp_all add: fun_eq_iff visible_orders_def order_total_def cong: option.case_cong)

lemma expired_alerts_fefo [simp]: "expired_alerts today v (st\<lparr>st_fefo := c\<rparr>) = expired_alerts today v st"
  by (simp add: expired_alerts_def Let_def)

lemma order_alerts_fefo [simp]: "order_alerts today u (st\<lparr>st_fefo := c\<rparr>) = order_alerts today u st"
  by (simp add: order_alerts_def Let_def)


text \<open>A second look sees the same alerts: only the configuration row may have been created.\<close>

lemma low_stock_again:
  assumes "low_stock_alerts today v st = (alerts, st')"
  shows "\<exists>c. st' = st\<lparr>st_fefo := Some c\<rparr> \<and> low_stock_alerts today v st' = (alerts, st') \<and> fst (get_config st) = c"
proof -
  obtain c st1 where c: "get_config st = (c, st1)" by fastforce
  note st1 = get_config_same[OF c]
  show ?thesis using assms
    by (intro exI[of _ c]) (cases v, auto simp: low_stock_alerts_def check_product_stock_def c st1 Let_def case_prod_beta split: if_splits)
qed

lemma near_expiry_again:
  assumes "near_expiry_alerts today v st = (alerts, st')"
  shows "\<exists>c. st' = st\<lparr>st_fefo := Some c\<rparr> \<and> near_expiry_alerts today v st' = (alerts, st') \<and> fst (get_config st) = c"
proof -
  obtain c st1 where c: "get_config st = (c, st1)" by fastforce
  note st1 = get_config_same[OF c]
  show ?thesis using assms
    by (intro exI[of _ c]) (cases v, auto simp: near_expiry_alerts_def check_product_expiration_def c st1 Let_def case_prod_beta)
qed


lemma live_again:
  assumes "live_notifications today u st ns = (alerts, st', ns')"
  shows "live_notifications today u st' ns' = (alerts, st', ns')" "no_states ns' = no_states ns"
proof -
  obtain cfg ns1 where cfg: "note_config ns = (cfg, ns1)" by fastforce
  then have again: "note_config ns1 = (cfg, ns1)" "no_states ns1 = no_states ns"
    by (auto simp: note_config_def Let_def split: option.splits)
  let ?v = "ac_role u = ''staff''"
  obtain low st1 where low: "(if nq_low cfg then low_stock_alerts today ?v st else ([], st)) = (low, st1)" by fastforce
  obtain near st2 where near: "(if nq_near cfg then near_expiry_alerts today ?v st1 else ([], st1)) = (near, st2)" by fastforce
  have eqs: "st' = st2" "ns' = ns1" "alerts = low @ (if nq_near cfg then expired_alerts today ?v st1 @ near else []) @
      (if nq_new cfg then order_alerts today u st2 else [])"
    using assms near by (auto simp: live_notifications_def cfg low Let_def split: if_splits prod.splits)
  show "no_states ns' = no_states ns" using again(2) eqs(2) by simp
  have st1: "low_stock_alerts today ?v st1 = (low, st1) \<and> (\<exists>c. st1 = st\<lparr>st_fefo := Some c\<rparr>)" if "nq_low cfg"
    using low low_stock_again[of today ?v st low st1] that by auto
  have st2: "near_expiry_alerts today ?v st2 = (near, st2) \<and> st2 = st1\<lparr>st_fefo := Some (fst (get_config st1))\<rparr>" if "nq_near cfg"
    using near near_expiry_again[of today ?v st1 near st2] that by auto
  have same: "st2 = st1" if "nq_low cfg"
    using st1[OF that] st2 near by (cases "nq_near cfg") auto
  have low2: "(if nq_low cfg then low_stock_alerts today ?v st2 else ([], st2)) = (low, st2)"
    using st1 same low by (auto split: if_splits)
  have near2: "(if nq_near cfg then near_expiry_alerts today ?v st2 else ([], st2)) = (near, st2)"
    using st2 near by (auto split: if_splits)
  have exp: "expired_alerts today ?v st2 = expired_alerts today ?v st1"
  proof (cases "nq_near cfg")
    case True
    then have e: "st2 = st1\<lparr>st_fefo := Some (fst (get_config st1))\<rparr>" using st2 by blast
    show ?thesis by (subst e) simp
  qed (use near in auto)
  show "live_notifications today u st' ns' = (alerts, st', ns')"
    using near2 exp by (auto simp: live_notifications_def again(1) eqs low2 Let_def split: if_splits prod.splits)
qed

lemma live_unread:
  assumes "live_notifications today u st ns = (alerts, st', ns')" "a \<in> set alerts"
  shows "an_unread a" "\<not> an_dismissed a"
  using assms
  by (auto simp: live_notifications_def low_stock_alerts_def near_expiry_alerts_def expired_alerts_def order_alerts_def
      add_alert_def Let_def split: if_splits prod.splits)

text \<open>The visible effect of an action on an alert.\<close>

fun acted :: "note_action \<Rightarrow> alert \<Rightarrow> alert" where
  "acted MarkRead a = a\<lparr>an_unread := False\<rparr>"
| "acted Dismiss a = a\<lparr>an_unread := False, an_dismissed := True\<rparr>"
| "acted Restore a = a\<lparr>an_dismissed := False\<rparr>"

lemma with_state_acted:
  assumes "an_unread a" "\<not> an_dismissed a"
    and "note_of user (an_id a) (an_revision a) states' =
      Some (apply_action action now (case note_of user (an_id a) (an_revision a) states of Some s \<Rightarrow> s
        | None \<Rightarrow> blank_note user (an_id a) (an_revision a)))"
  shows "with_state user states' a = acted action (with_state user states a)"
proof -
  obtain i r t h b m un di where a: "a = \<lparr>an_id = i, an_revision = r, an_type = t, an_title = h, an_body = b, an_time = m,
      an_unread = un, an_dismissed = di\<rparr>" by (cases a)
  show ?thesis using assms
    by (cases action; cases "note_of user i r states")
      (auto simp: a with_state_def apply_action_def blank_note_def Let_def fill_def split: option.splits)
qed

lemma apply_action_again: "apply_action action later (apply_action action now s) = apply_action action now s"
  by (cases action) (auto simp: apply_action_def Let_def fill_def split: option.splits)

lemma inbox_post_unfold:
  assumes "live_notifications today user st ns = (alerts, st1, ns1)"
  shows "inbox_post today now user action requested st ns =
    (if set requested \<subseteq> (\<lambda>a. (an_id a, an_revision a)) ` set alerts
     then ((200, card (set requested)), st1, ns1\<lparr>no_states := fold (mark_one (ac_id user) action now) (remdups requested) (no_states ns1)\<rparr>)
     else ((409, 0), st1, ns1))"
  by (simp add: inbox_post_def assms Let_def length_remdups_card_conv)

lemma live_states:
  "live_notifications today u st (ns\<lparr>no_states := x\<rparr>) =
     (let (alerts, st', ns') = live_notifications today u st ns in (alerts, st', ns'\<lparr>no_states := x\<rparr>))"
proof -
  have "note_config (ns\<lparr>no_states := x\<rparr>) = (fst (note_config ns), snd (note_config ns)\<lparr>no_states := x\<rparr>)"
    by (auto simp: note_config_def Let_def split: option.splits)
  then show ?thesis by (simp add: live_notifications_def Let_def case_prod_beta)
qed

lemma inbox_effect:
  assumes "live_notifications today user st ns = (alerts, st1, ns1)"
    and "set requested \<subseteq> (\<lambda>a. (an_id a, an_revision a)) ` set alerts"
    and "inbox_post today now user action requested st ns = (answer, st', ns')"
  shows "notification_feed today user st' ns' =
      (map (\<lambda>a. (if (an_id a, an_revision a) \<in> set requested then acted action else id) (with_state (ac_id user) (no_states ns) a))
         alerts, st', ns')"
    and "inbox_post today later user action requested st' ns' = (answer, st', ns'') \<Longrightarrow>
      note_of v key r (no_states ns'') = note_of v key r (no_states ns')"
    and "\<exists>ns''. inbox_post today later user action requested st' ns' = (answer, st', ns'')"
proof -
  let ?m = "\<lambda>now. fold (mark_one (ac_id user) action now) (remdups requested)"
  note again = live_again[OF assms(1)]
  have st': "st' = st1" "ns' = ns1\<lparr>no_states := ?m now (no_states ns)\<rparr>" "answer = (200, card (set requested))"
    using assms(3) by (auto simp: inbox_post_unfold[OF assms(1)] assms(2) again(2))
  have live: "live_notifications today user st' ns' = (alerts, st', ns')"
    unfolding st' live_states again(1) by simp
  note marked = marked_note[OF distinct_remdups, unfolded set_remdups]
  have "with_state (ac_id user) (no_states ns') a =
      (if (an_id a, an_revision a) \<in> set requested then acted action else id) (with_state (ac_id user) (no_states ns) a)"
    if a: "a \<in> set alerts" for a
  proof (cases "(an_id a, an_revision a) \<in> set requested")
    case True
    have "with_state (ac_id user) (no_states ns') a = acted action (with_state (ac_id user) (no_states ns) a)"
      by (rule with_state_acted[OF live_unread[OF assms(1) a]]) (simp add: st' marked True)
    with True show ?thesis by simp
  next
    case False
    have "note_of (ac_id user) (an_id a) (an_revision a) (no_states ns') = note_of (ac_id user) (an_id a) (an_revision a) (no_states ns)"
      by (simp add: st' marked False)
    with False show ?thesis by (simp add: with_state_def)
  qed
  then show "notification_feed today user st' ns' =
      (map (\<lambda>a. (if (an_id a, an_revision a) \<in> set requested then acted action else id) (with_state (ac_id user) (no_states ns) a))
         alerts, st', ns')"
    by (simp add: notification_feed_def live)
  have post: "inbox_post today later user action requested st' ns' =
      (answer, st', ns'\<lparr>no_states := ?m later (no_states ns')\<rparr>)"
    by (simp add: inbox_post_unfold[OF live] assms(2) st'(3))
  then show "\<exists>ns''. inbox_post today later user action requested st' ns' = (answer, st', ns'')" by blast
  show "note_of v key r (no_states ns'') = note_of v key r (no_states ns')"
    if "inbox_post today later user action requested st' ns' = (answer, st', ns'')"
    using that post by (auto simp: marked st'(2) apply_action_again)
qed

subsection \<open>One alert per key\<close>

lemma str_nat_inj [simp]: "str_nat m = str_nat n \<longleftrightarrow> m = n"
  by (metis int_of_str_nat)

lemma expiry_key_inj: "expiry_key a = expiry_key b \<longleftrightarrow> pb_id a = pb_id b"
  by (simp add: expiry_key_def)

lemma distinct_map_sorted: "distinct (map f xs) \<Longrightarrow> distinct (map f (sort_key k xs))"
  by (metis mset_map mset_sort mset_eq_imp_distinct_iff)

text \<open>Alerts about batches: their keys are distinct when the batches are.\<close>

lemma batch_alert_keys:
  assumes "keys_ok pb_id t"
  shows "distinct (map expiry_key (sort_key k (filter P t)))"
proof -
  have "distinct (map pb_id (sort_key k (filter P t)))"
    using assms unfolding keys_ok_def by (intro distinct_map_sorted distinct_map_filter)
  then show ?thesis by (auto simp: distinct_map inj_on_def expiry_key_inj)
qed

lemma expired_keys:
  "map an_id (expired_alerts today v st) = map expiry_key (sort_key pb_expiration
     (filter (\<lambda>b. expired_stock_filter today b \<and> (v \<longrightarrow> batch_visible st b)) (st_batches st)))"
  by (cases v) (simp_all add: expired_alerts_def add_alert_def Let_def o_def filter_sort conj_commute)

lemma near_keys:
  "\<exists>near. map an_id (fst (near_expiry_alerts today v st)) = map expiry_key (sort_key pb_expiration
     (filter (\<lambda>b. (pb_status b = Available \<and> today \<le> pb_expiration b \<and> pb_expiration b \<le> near \<and> pb_received b \<le> today) \<and>
       (v \<longrightarrow> batch_visible st b)) (st_batches st)))"
  by (rule exI[of _ "expiry_cutoff today (fc_near (fst (get_config st)))"], cases v)
    (simp_all add: near_expiry_alerts_def check_product_expiration_def add_alert_def Let_def o_def case_prod_beta conj_commute conj_left_commute)

lemma order_alert_keys:
  assumes "keys_ok or_id (ss_orders st)"
  shows "distinct (map an_id (order_alerts today u st))"
proof -
  obtain P where P: "visible_orders u st (filter (\<lambda>ord. or_status ord = Fulfilled) (ss_orders st)) = filter P (ss_orders st)"
    by (cases "ac_role u = ''staff''") (auto simp: visible_orders_def)
  let ?rows = "take 2 (sort_key (\<lambda>ord. (- or_created ord, - int (or_id ord))) (filter P (ss_orders st)))"
  have "distinct (map or_id ?rows)"
    using assms unfolding keys_ok_def take_map[symmetric] by (intro distinct_take distinct_map_sorted distinct_map_filter)
  then have "distinct (map (\<lambda>ord. ''fulfilled-'' @ str_nat (or_id ord)) ?rows)"
    by (auto simp: distinct_map inj_on_def)
  then show ?thesis by (simp add: order_alerts_def P add_alert_def o_def)
qed

lemma alert_initials:
  "x \<in> set (fst (low_stock_alerts today v st)) \<Longrightarrow> hd (an_id x) = CHR ''l''"
  "x \<in> set (expired_alerts today v st) \<union> set (fst (near_expiry_alerts today v st)) \<Longrightarrow> hd (an_id x) = CHR ''e''"
  "x \<in> set (order_alerts today u st) \<Longrightarrow> hd (an_id x) = CHR ''f''"
  by (auto simp: low_stock_alerts_def expired_alerts_def near_expiry_alerts_def order_alerts_def add_alert_def expiry_key_def
      Let_def split: if_splits prod.splits)

lemma live_keys:
  assumes "keys_ok pb_id (st_batches st)" "keys_ok or_id (ss_orders st)"
    and "live_notifications today u st ns = (alerts, st', ns')"
  shows "distinct (map an_id alerts)"
proof -
  let ?v = "ac_role u = ''staff''"
  obtain cfg ns1 where cfg: "note_config ns = (cfg, ns1)" by fastforce
  obtain low st1 where low: "(if nq_low cfg then low_stock_alerts today ?v st else ([], st)) = (low, st1)" by fastforce
  obtain near st2 where near: "(if nq_near cfg then near_expiry_alerts today ?v st1 else ([], st1)) = (near, st2)" by fastforce
  define expired where "expired = (if nq_near cfg then expired_alerts today ?v st1 else [])"
  define new where "new = (if nq_new cfg then order_alerts today u st2 else [])"
  have alerts: "alerts = low @ (expired @ near) @ new"
    using assms(3) near by (auto simp: live_notifications_def cfg low expired_def new_def Let_def split: if_splits prod.splits)
  have tables: "st_batches st1 = st_batches st" "ss_orders st2 = ss_orders st"
    using low near low_stock_again[of today ?v st low st1] near_expiry_again[of today ?v st1 near st2] by (auto split: if_splits)
  have low_ok: "distinct (map an_id low)" "\<forall>x \<in> set low. hd (an_id x) = CHR ''l''"
    using low alert_initials(1)[of _ today ?v st] by (auto simp: low_stock_alerts_def Let_def split: if_splits prod.splits)
  have new_ok: "distinct (map an_id new)" "\<forall>x \<in> set new. hd (an_id x) = CHR ''f''"
    using order_alert_keys[of st2] assms(2) tables(2) alert_initials(3)[of _ today u st2] by (auto simp: new_def)
  have exp_hd: "\<forall>x \<in> set (expired @ near). hd (an_id x) = CHR ''e''"
    using near alert_initials(2)[of _ today ?v st1] by (auto simp: expired_def split: if_splits)
  have exp: "distinct (map an_id (expired @ near))"
  proof (cases "nq_near cfg")
    case True
    have ks: "keys_ok pb_id (st_batches st1)" using assms(1) tables(1) by simp
    obtain lim where n: "map an_id near = map expiry_key (sort_key pb_expiration
        (filter (\<lambda>b. (pb_status b = Available \<and> today \<le> pb_expiration b \<and> pb_expiration b \<le> lim \<and> pb_received b \<le> today) \<and>
          (?v \<longrightarrow> batch_visible st1 b)) (st_batches st1)))"
      using near_keys[of today ?v st1] near True by auto
    have e: "map an_id expired = map expiry_key (sort_key pb_expiration
        (filter (\<lambda>b. expired_stock_filter today b \<and> (?v \<longrightarrow> batch_visible st1 b)) (st_batches st1)))"
      using expired_keys[of today ?v st1] True by (simp add: expired_def)
    have "x \<notin> set (map an_id near)" if x: "x \<in> set (map an_id expired)" for x
    proof
      assume y: "x \<in> set (map an_id near)"
      obtain b where b: "b \<in> set (st_batches st1)" "x = expiry_key b" "expired_stock_filter today b" using x unfolding e by auto
      obtain c where c: "c \<in> set (st_batches st1)" "x = expiry_key c" "pb_status c = Available" "today \<le> pb_expiration c"
        using y unfolding n by auto
      have "pb_id b = pb_id c" using b(2) c(2) by (simp add: expiry_key_inj)
      then have "b = c" using b(1) c(1) ks by (simp add: keys_ok_def distinct_map inj_on_def)
      with b(3) c(3,4) show False by (auto simp: expired_stock_filter_def)
    qed
    then have "set (map an_id expired) \<inter> set (map an_id near) = {}" by blast
    moreover have "distinct (map an_id expired)" "distinct (map an_id near)" unfolding e n by (rule batch_alert_keys[OF ks])+
    ultimately show ?thesis unfolding map_append distinct_append by blast
  qed (use near in \<open>auto simp: expired_def\<close>)
  have apart: "set (map an_id xs) \<inter> set (map an_id ys) = {}"
    if "\<forall>x \<in> set xs. hd (an_id x) = c" "\<forall>y \<in> set ys. hd (an_id y) = d" "c \<noteq> d" for xs ys :: "alert list" and c d
    using that by fastforce
  show ?thesis
    unfolding alerts map_append distinct_append set_append Int_Un_distrib
    using low_ok new_ok exp exp_hd apart[OF low_ok(2) exp_hd] apart[OF low_ok(2) new_ok(2)] apart[OF exp_hd new_ok(2)]
    by (simp add: Int_Un_distrib2 Int_Un_distrib)
qed

text \<open>
  C33: The inbox. An action on alerts that are all still shown is accepted, has exactly its effect on those
  alerts in the user's next feed, changes no acknowledgement of another user or another alert, and may be
  repeated at any later time with the same answer and no further effect. Otherwise, when an alert has gone or
  its data has changed, the answer is 409 and nothing is recorded. No two alerts of a feed share a key.
\<close>

theorem inbox_action_sticks:
  assumes "keys_ok pb_id (st_batches st)" "keys_ok or_id (ss_orders st)"
    and "live_notifications today user st ns = (alerts, st1, ns1)"
    and "inbox_post today now user action requested st ns = ((code, n), st', ns')"
  shows "distinct (map an_id alerts) \<and>
    code = (if set requested \<subseteq> (\<lambda>a. (an_id a, an_revision a)) ` set alerts then 200 else 409) \<and>
    (code = 409 \<longrightarrow> no_states ns' = no_states ns) \<and>
    (\<forall>v key r. v \<noteq> ac_id user \<or> (key, r) \<notin> set requested \<longrightarrow> note_of v key r (no_states ns') = note_of v key r (no_states ns)) \<and>
    (code = 200 \<longrightarrow> notification_feed today user st' ns' =
      (map (\<lambda>a. (if (an_id a, an_revision a) \<in> set requested then acted action else id) (with_state (ac_id user) (no_states ns) a))
         alerts, st', ns') \<and>
      (\<exists>ns''. inbox_post today later user action requested st' ns' = ((code, n), st', ns'') \<and>
        (\<forall>v key r. note_of v key r (no_states ns'') = note_of v key r (no_states ns'))))"
proof -
  note states = live_again(2)[OF assms(3)] and post = assms(4)[unfolded inbox_post_unfold[OF assms(3)]]
  have code: "code = (if set requested \<subseteq> (\<lambda>a. (an_id a, an_revision a)) ` set alerts then 200 else 409)"
    using post by (auto split: if_splits)
  moreover have "code = 409 \<longrightarrow> no_states ns' = no_states ns" using post states by (auto split: if_splits)
  moreover have "\<forall>v key r. v \<noteq> ac_id user \<or> (key, r) \<notin> set requested \<longrightarrow>
      note_of v key r (no_states ns') = note_of v key r (no_states ns)"
    using post states by (auto simp: marked_note[OF distinct_remdups] split: if_splits)
  moreover have "set requested \<subseteq> (\<lambda>a. (an_id a, an_revision a)) ` set alerts" if "code = 200"
    using that code by (auto split: if_splits)
  note effect = inbox_effect[OF assms(3) this assms(4)]
  ultimately show ?thesis using live_keys[OF assms(1-3)] effect(1) effect(2,3)[where later = later] by blast
qed

text \<open>An admin dismisses the expiry warning of the sample stock.\<close>

definition demo_notes :: note_store where
  "demo_notes = \<lparr>no_settings = None, no_states = []\<rparr>"

definition demo_admin :: account where
  "demo_admin = \<lparr>ac_id = 1, ac_role = ''admin''\<rparr>"

definition demo_alerts :: "alert list" where
  "demo_alerts = fst (live_notifications 700015 demo_admin demo_sales demo_notes)"

lemma demo_alert_keys: "map (\<lambda>a. (an_id a, an_revision a)) demo_alerts =
    [(''low-stock-products'', LowStockOf [(1, 1200, 20)]), (''expiry-product-2'', ExpiryOf 2 700020 NearExpiry)]"
  by code_simp

theorem inbox_action_sticks_witness:
  "\<exists>st' ns'. inbox_post 700015 5 demo_admin Dismiss [(''expiry-product-2'', ExpiryOf 2 700020 NearExpiry)] demo_sales demo_notes =
      ((200, 1), st', ns') \<and>
    map (\<lambda>a. (an_unread a, an_dismissed a)) (fst (notification_feed 700015 demo_admin st' ns')) = [(True, False), (False, True)]"
proof -
  obtain st1 ns1 where live: "live_notifications 700015 demo_admin demo_sales demo_notes = (demo_alerts, st1, ns1)"
    by (cases "live_notifications 700015 demo_admin demo_sales demo_notes") (auto simp: demo_alerts_def)
  let ?req = "[(''expiry-product-2'', ExpiryOf 2 700020 NearExpiry)]"
  have post: "fst (inbox_post 700015 5 demo_admin Dismiss ?req demo_sales demo_notes) = (200, 1)" by code_simp
  obtain code n st' ns' where r: "inbox_post 700015 5 demo_admin Dismiss ?req demo_sales demo_notes = ((code, n), st', ns')"
    by (metis prod.collapse)
  have c: "code = 200" "n = 1" using post r by simp_all
  have keys: "keys_ok pb_id (st_batches demo_sales)" "keys_ok or_id (ss_orders demo_sales)" by code_simp+
  have f: "fst (notification_feed 700015 demo_admin st' ns') =
      map (\<lambda>a. (if (an_id a, an_revision a) \<in> set ?req then acted Dismiss else id) (with_state 1 [] a)) demo_alerts"
    using inbox_action_sticks[OF keys live r] c by (simp add: demo_admin_def demo_notes_def)
  have "map (\<lambda>a. (an_unread a, an_dismissed a))
      (map (\<lambda>a. (if (an_id a, an_revision a) \<in> set ?req then acted Dismiss else id) (with_state 1 [] a)) demo_alerts) =
      [(True, False), (False, True)]" by code_simp
  with f r c show ?thesis by (intro exI[of _ st'] exI[of _ ns']) simp
qed

end
