(* ===== verification/Forecast_Data.thy ===== *)
theory Forecast_Data
  imports Reports
begin

text \<open>
  What the forecasts may learn from (\<^verbatim>\<open>forecasting/data.py\<close>): the completed sales before a cut-off day, with
  the dairy part of their revenue, and the product policy that decides what is dairy. The policy file is an
  argument, a list of product keys with their decisions. A revision is a digest of what it is computed from;
  here it is that data. The share of a receipt is an exact quotient before it is rounded half up. The
  aliases of \<^verbatim>\<open>sales/importers/annual_sales.py\<close> that the product key needs are included, and so is the
  description of the feeding programmes (\<^verbatim>\<open>forecasting/feeding.py\<close>).
\<close>

subsection \<open>Product keys\<close>

definition product_aliases :: "(string \<times> string) list" where
  "product_aliases = [
    (''raw milk 1000ml'', ''Raw Milk 1L''), (''rawmilk 1000ml'', ''Raw Milk 1L''), (''raw milk l'', ''Raw Milk 1L''),
    (''raw milk 1l'', ''Raw Milk 1L''), (''raw milk'', ''Raw Milk 1L''), (''raw l'', ''Raw Milk 1L''), (''rawl'', ''Raw Milk 1L''),
    (''cara 1000ml'', ''Cara 1L''), (''cara l'', ''Cara 1L''), (''cara 300ml'', ''Cara 300ml''), (''cara 300'', ''Cara 300ml''),
    (''cara300'', ''Cara 300ml''), (''ice candy'', ''Ice Candy''), (''uns l'', ''Uns L''), (''unsl'', ''Uns L''),
    (''mozza'', ''Mozza''), (''mozarella'', ''Mozza''), (''chocoballs'', ''Choco Balls''), (''conebite'', ''Cone Bite''),
    (''pdx13'', ''PDLX13''), (''pdx16'', ''PDLX16''), (''pld chz'', ''PDL CHZ''), (''atssarang suka'', ''Atsarang Suka''),
    (''samaploc'', ''Sampaloc'')]"

definition is_lower :: "char \<Rightarrow> bool" where
  "is_lower c \<longleftrightarrow> c \<in> set ''abcdefghijklmnopqrstuvwxyz''"

text \<open>The two patterns of product codes: letters and digits, and \<^verbatim>\<open>pd\<close> with a middle part.\<close>

definition letters_digits :: "string \<Rightarrow> bool" where
  "letters_digits s =
     (let a = takeWhile is_lower s; b = dropWhile is_lower s
      in 1 \<le> length a \<and> length a \<le> 5 \<and> 2 \<le> length b \<and> length b \<le> 4 \<and> list_all is_digit b)"

definition pd_code :: "string \<Rightarrow> bool" where
  "pd_code s =
     (let middle = (\<lambda>c. c = CHR ''l'' \<or> c = CHR ''x'' \<or> c = CHR '' ''); rest = drop 2 s; b = dropWhile middle rest
      in take 2 s = ''pd'' \<and> takeWhile middle rest \<noteq> [] \<and> 2 \<le> length b \<and> length b \<le> 3 \<and> list_all is_digit b)"

definition canonical_product :: "string \<Rightarrow> string" where
  "canonical_product raw =
     (let label = squeeze raw; key = casefold label
      in case map_of product_aliases key of
           Some name \<Rightarrow> name
         | None \<Rightarrow> if letters_digits key \<or> pd_code key then upper label else label)"

definition source_product_key :: "string \<Rightarrow> string" where
  "source_product_key label = product_name_key (canonical_product label)"

type_synonym policy = "(string \<times> string) list"

definition decision_of :: "policy \<Rightarrow> string \<Rightarrow> string" where
  "decision_of policy label = (case map_of policy (source_product_key label) of Some d \<Rightarrow> d | None \<Rightarrow> ''review'')"


subsection \<open>Snapshots\<close>

record recorded_sale =
  rs_id :: nat
  rs_day :: date
  rs_key :: string
  rs_name :: string
  rs_segment :: string
  rs_revenue :: dec

record snapshot =
  sn_as_of :: date
  sn_policy :: policy
  sn_dropped :: "nat list"
  sn_sales :: "recorded_sale list"
  sn_demo :: nat

definition sn_non_dairy :: "snapshot \<Rightarrow> nat" where
  "sn_non_dairy s = length (sn_dropped s)"

type_synonym sales_revision = "policy \<times> nat list \<times> recorded_sale list"

definition sn_revision :: "snapshot \<Rightarrow> sales_revision" where
  "sn_revision s = (sn_policy s, sn_dropped s, sn_sales s)"

text \<open>\<^verbatim>\<open>^2026:[0-9]{6}$\<close>\<close>

definition demo_reference :: "string option \<Rightarrow> bool" where
  "demo_reference r = (case r of None \<Rightarrow> False
     | Some s \<Rightarrow> take 5 s = ''2026:'' \<and> length s = 11 \<and> list_all is_digit (drop 5 s))"

definition live_row :: "txn \<Rightarrow> bool" where
  "live_row t \<longleftrightarrow> tx_segment t = [] \<and> \<not> demo_reference (tx_source_ref t)"

text \<open>The rows before a day and the lines of those that need the product policy.\<close>

definition load_source :: "date \<Rightarrow> sales_store \<Rightarrow> txn list \<times> (nat \<Rightarrow> titem list)" where
  "load_source as_of st =
     (let cutoff = at_hour as_of 0;
          rows = sort_key tx_id (filter (\<lambda>t. \<not> tx_voided t \<and> tx_created t < cutoff) (ss_txns st));
          live_ids = map tx_id (filter live_row rows)
      in (rows, \<lambda>t. if t \<in> set live_ids then txn_items t st else []))"

definition customer_name_of :: "sales_store \<Rightarrow> txn \<Rightarrow> string" where
  "customer_name_of st t =
     (let source_label = strip (tx_customer_label t);
          name = (case tx_customer t of None \<Rightarrow> []
                  | Some c \<Rightarrow> (case row_get cu_id (ss_customers st) c of None \<Rightarrow> [] | Some x \<Rightarrow> cu_name x))
      in if source_label \<noteq> [] then source_label else if name \<noteq> [] then name else ''Walk-in'')"

definition customer_key_of :: "txn \<Rightarrow> string" where
  "customer_key_of t =
     (let source_label = strip (tx_customer_label t)
      in case tx_customer t of
           Some c \<Rightarrow> ''customer:'' @ str_nat c
         | None \<Rightarrow> if source_label \<noteq> [] then ''label:'' @ squeeze (casefold source_label) else ''walk-in'')"

definition item_label :: "sales_store \<Rightarrow> titem \<Rightarrow> string" where
  "item_label st i =
     (case ti_name_snap i of
        Some (c # cs) \<Rightarrow> c # cs
      | _ \<Rightarrow> (case get_batch (st_batches st) (ti_batch i) of None \<Rightarrow> []
              | Some b \<Rightarrow> (case row_get pr_id (st_products st) (pb_product b) of None \<Rightarrow> [] | Some p \<Rightarrow> pr_name p)))"

text \<open>
  An amount of a line in ten-thousandths: its total, else the total of the source (a column that no other
  part of the model reads), else quantity times price.
\<close>

definition item_amount :: "(nat \<Rightarrow> dec option) \<Rightarrow> titem \<Rightarrow> int" where
  "item_amount line_total i =
     (case ti_total i of Some a \<Rightarrow> 100 * a
      | None \<Rightarrow> (case line_total (ti_id i) of Some a \<Rightarrow> 100 * a | None \<Rightarrow> ti_qty i * ti_price i))"

definition quotient_half_up :: "int \<Rightarrow> int \<Rightarrow> int" where
  "quotient_half_up n d = sgn n * ((2 * \<bar>n\<bar> + d) div (2 * d))"

datatype classified = NonDairy | Classified string dec

definition classify ::
    "policy \<Rightarrow> (nat \<Rightarrow> dec option) \<Rightarrow> sales_store \<Rightarrow> titem list \<Rightarrow> string \<Rightarrow> txn \<Rightarrow> classified" where
  "classify policy line_total st lines segment t =
     (let decisions = map (\<lambda>i. decision_of policy (item_label st i)) lines;
          gross = (\<Sum>i\<leftarrow>lines. item_amount line_total i);
          dairy = (\<Sum>i\<leftarrow>filter (\<lambda>i. decision_of policy (item_label st i) = ''dairy'') lines. item_amount line_total i)
      in if lines \<noteq> [] \<and> list_all (\<lambda>d. d = ''non_dairy'') decisions then NonDairy
         else if lines = [] \<or> ''review'' \<in> set decisions \<or> gross \<le> 0 then Classified ''unclassified'' (tx_total t)
         else Classified segment (quotient_half_up (tx_total t * dairy) gross))"

definition row_outcome ::
    "policy \<Rightarrow> (nat \<Rightarrow> dec option) \<Rightarrow> sales_store \<Rightarrow> (nat \<Rightarrow> titem list) \<Rightarrow> txn \<Rightarrow> classified" where
  "row_outcome policy line_total st live_lines t =
     (let segment = (if tx_segment t \<noteq> [] then tx_segment t
                     else if text_contains ''feedin'' (casefold (customer_name_of st t)) then ''feeding'' else ''regular'')
      in if tx_segment t \<noteq> [] then Classified segment (tx_total t)
         else classify policy line_total st (live_lines (tx_id t)) segment t)"

definition sale_of :: "sales_store \<Rightarrow> txn \<Rightarrow> string \<Rightarrow> dec \<Rightarrow> recorded_sale" where
  "sale_of st t segment revenue =
     \<lparr>rs_id = tx_id t, rs_day = local_date (tx_created t), rs_key = customer_key_of t, rs_name = customer_name_of st t,
      rs_segment = segment, rs_revenue = revenue\<rparr>"

fun snapshot_loop ::
    "policy \<Rightarrow> (nat \<Rightarrow> dec option) \<Rightarrow> sales_store \<Rightarrow> (nat \<Rightarrow> titem list) \<Rightarrow> txn list \<Rightarrow> recorded_sale list \<times> nat \<times> nat list" where
  "snapshot_loop policy line_total st live_lines [] = ([], 0, [])"
| "snapshot_loop policy line_total st live_lines (t # rows) =
     (let (sales, excluded, dropped) = snapshot_loop policy line_total st live_lines rows
      in if demo_reference (tx_source_ref t) then (sales, excluded + 1, dropped)
         else case row_outcome policy line_total st live_lines t of
                NonDairy \<Rightarrow> (sales, excluded, tx_id t # dropped)
              | Classified segment revenue \<Rightarrow> (sale_of st t segment revenue # sales, excluded, dropped))"

definition make_snapshot ::
    "policy \<Rightarrow> (nat \<Rightarrow> dec option) \<Rightarrow> sales_store \<Rightarrow> date \<Rightarrow> txn list \<Rightarrow> (nat \<Rightarrow> titem list) \<Rightarrow> snapshot" where
  "make_snapshot policy line_total st as_of rows live_lines =
     (let (sales, excluded, dropped) = snapshot_loop policy line_total st live_lines rows
      in \<lparr>sn_as_of = as_of, sn_policy = policy, sn_dropped = dropped, sn_sales = sales, sn_demo = excluded\<rparr>)"

definition load_snapshot :: "policy \<Rightarrow> (nat \<Rightarrow> dec option) \<Rightarrow> date \<Rightarrow> sales_store \<Rightarrow> snapshot" where
  "load_snapshot policy line_total as_of st =
     (let (rows, live_lines) = load_source as_of st in make_snapshot policy line_total st as_of rows live_lines)"

definition load_snapshots :: "policy \<Rightarrow> (nat \<Rightarrow> dec option) \<Rightarrow> date list \<Rightarrow> sales_store \<Rightarrow> (date \<times> snapshot) list" where
  "load_snapshots policy line_total cutoffs st =
     (let cutoffs = rev (remdups (rev cutoffs))
      in if cutoffs = [] then []
         else let (rows, live_lines) = load_source (Max (set cutoffs)) st
              in map (\<lambda>day. let boundary = at_hour day 0; selected = filter (\<lambda>t. tx_created t < boundary) rows
                            in (day, make_snapshot policy line_total st day selected live_lines)) cutoffs)"

subsection \<open>One read for several cut-offs\<close>

lemma snapshot_loop_cong:
  assumes "\<And>t. t \<in> set rows \<Longrightarrow> live_row t \<Longrightarrow> f (tx_id t) = g (tx_id t)"
  shows "snapshot_loop policy lt st f rows = snapshot_loop policy lt st g rows"
  using assms
proof (induction rows)
  case (Cons t rows)
  have "row_outcome policy lt st f t = row_outcome policy lt st g t" if "\<not> demo_reference (tx_source_ref t)"
    using Cons.prems[of t] that by (auto simp: row_outcome_def live_row_def Let_def)
  with Cons show ?case by (cases "demo_reference (tx_source_ref t)") auto
qed simp

lemma at_hour_zero_mono: "d \<le> e \<Longrightarrow> at_hour d 0 \<le> at_hour e 0"
  by (simp add: at_hour_def day_us_def)

lemma load_source_restrict:
  assumes "d \<le> e" "load_source e st = (rows, f)" "load_source d st = (rows', f')"
  shows "filter (\<lambda>t. tx_created t < at_hour d 0) rows = rows'"
    and "t \<in> set rows' \<Longrightarrow> live_row t \<Longrightarrow> f (tx_id t) = f' (tx_id t)"
proof -
  have rows: "rows = sort_key tx_id (filter (\<lambda>t. \<not> tx_voided t \<and> tx_created t < at_hour e 0) (ss_txns st))"
    and rows': "rows' = sort_key tx_id (filter (\<lambda>t. \<not> tx_voided t \<and> tx_created t < at_hour d 0) (ss_txns st))"
    using assms(2,3) by (auto simp: load_source_def Let_def)
  have "(\<lambda>t :: txn. (\<not> tx_voided t \<and> tx_created t < at_hour e 0) \<and> tx_created t < at_hour d 0) =
      (\<lambda>t. \<not> tx_voided t \<and> tx_created t < at_hour d 0)"
    using at_hour_zero_mono[OF assms(1)] by (intro ext) linarith
  then show eq: "filter (\<lambda>t. tx_created t < at_hour d 0) rows = rows'"
    unfolding rows rows' filter_sort filter_filter by (simp only:)
  then show "t \<in> set rows' \<Longrightarrow> live_row t \<Longrightarrow> f (tx_id t) = f' (tx_id t)"
    using assms(2,3) by (auto simp: load_source_def Let_def)
qed

lemma load_snapshots_single:
  assumes "(d, s) \<in> set (load_snapshots policy lt cutoffs st)"
  shows "d \<in> set cutoffs \<and> s = load_snapshot policy lt d st"
proof -
  define ds where "ds = rev (remdups (rev cutoffs))"
  obtain rows f where src: "load_source (Max (set ds)) st = (rows, f)" by fastforce
  obtain rows' f' where src': "load_source d st = (rows', f')" by fastforce
  have d: "d \<in> set ds" and s: "s = make_snapshot policy lt st d (filter (\<lambda>t. tx_created t < at_hour d 0) rows) f"
    using assms src by (auto simp: load_snapshots_def ds_def[symmetric] Let_def split: if_splits)
  have "d \<le> Max (set ds)" using d by simp
  note restrict = load_source_restrict[OF this src src']
  have "s = make_snapshot policy lt st d rows' f'"
    unfolding s restrict(1) make_snapshot_def using snapshot_loop_cong[of rows' f f' policy lt st] restrict(2) by simp
  then show ?thesis using d by (simp add: load_snapshot_def src' ds_def)
qed

lemma load_snapshots_keys: "map fst (load_snapshots policy lt cutoffs st) = rev (remdups (rev cutoffs))"
  by (auto simp: load_snapshots_def Let_def o_def split: prod.splits)

text \<open>
  C29: Reading the ledger once for several cut-off days is the same as reading it once per day: every
  requested day gets exactly the snapshot that a separate read would give, its own exclusions and revision
  included.
\<close>

theorem load_snapshots_agree:
  "load_snapshots policy lt cutoffs st = map (\<lambda>d. (d, load_snapshot policy lt d st)) (rev (remdups (rev cutoffs)))"
proof -
  let ?l = "load_snapshots policy lt cutoffs st"
  have "?l = map (\<lambda>(d, s). (d, load_snapshot policy lt d st)) ?l"
    by (rule sym, rule map_idI) (use load_snapshots_single in fastforce)
  also have "\<dots> = map (\<lambda>d. (d, load_snapshot policy lt d st)) (map fst ?l)" by (simp add: case_prod_beta o_def)
  finally show ?thesis unfolding load_snapshots_keys .
qed


subsection \<open>What a snapshot contains\<close>

lemma half_up_whole:
  assumes "(0 :: int) < d"
  shows "(2 * (a * d) + d) div (2 * d) = a"
proof -
  have "2 * (a * d) + d = d + (2 * d) * a" by algebra
  then have "(2 * (a * d) + d) div (2 * d) = a + d div (2 * d)"
    using div_mult_self2[of "2 * d" d a] assms by (simp only: mult_eq_0_iff) linarith
  moreover have "d div (2 * d) = 0" using assms by (intro div_pos_pos_trivial) auto
  ultimately show ?thesis by linarith
qed

lemma quotient_half_up_bounds:
  assumes "0 \<le> a" "0 \<le> n" "n \<le> d" "0 < d"
  shows "0 \<le> quotient_half_up (a * n) d" "quotient_half_up (a * n) d \<le> a"
proof -
  have an: "0 \<le> a * n" "a * n \<le> a * d" using assms by (simp_all add: mult_left_mono)
  have q: "quotient_half_up (a * n) d = (2 * (a * n) + d) div (2 * d)"
  proof (cases "a * n = 0")
    case True
    show ?thesis unfolding True quotient_half_up_def using assms(4) by simp
  next
    case False
    then have "0 < a * n" using an by linarith
    then show ?thesis unfolding quotient_half_up_def by simp
  qed
  show "0 \<le> quotient_half_up (a * n) d" unfolding q using an(1) assms(4) by (simp add: pos_imp_zdiv_nonneg_iff)
  have "(2 * (a * n) + d) div (2 * d) \<le> (2 * (a * d) + d) div (2 * d)"
    using an assms(4) by (intro zdiv_mono1) auto
  also have "\<dots> = a" by (rule half_up_whole[OF assms(4)])
  finally show "quotient_half_up (a * n) d \<le> a" unfolding q .
qed

lemma quotient_half_up_all:
  assumes "0 < d"
  shows "quotient_half_up (a * d) d = a"
proof -
  have "quotient_half_up (a * d) d = sgn a * ((2 * (\<bar>a\<bar> * d) + d) div (2 * d))"
    using assms by (simp add: quotient_half_up_def abs_mult sgn_mult)
  then show ?thesis unfolding half_up_whole[OF assms] by (simp add: sgn_mult_abs)
qed

text \<open>Which receipts enter, and how.\<close>

definition sale_fits :: "policy \<Rightarrow> (nat \<Rightarrow> dec option) \<Rightarrow> sales_store \<Rightarrow> txn \<Rightarrow> recorded_sale \<Rightarrow> bool" where
  "sale_fits policy lt st t s \<longleftrightarrow>
     rs_id s = tx_id t \<and> rs_day s = local_date (tx_created t) \<and> rs_key s = customer_key_of t \<and>
     (tx_segment t \<noteq> [] \<longrightarrow> rs_segment s = tx_segment t \<and> rs_revenue s = tx_total t) \<and>
     (tx_segment t = [] \<longrightarrow>
        (rs_segment s = ''unclassified'' \<and> rs_revenue s = tx_total t \<or>
         rs_segment s \<in> {''regular'', ''feeding''} \<and> txn_items (tx_id t) st \<noteq> [] \<and>
         (\<forall>i \<in> set (txn_items (tx_id t) st). decision_of policy (item_label st i) \<noteq> ''review'') \<and>
         (\<exists>i \<in> set (txn_items (tx_id t) st). decision_of policy (item_label st i) \<noteq> ''non_dairy'') \<and>
         ((\<forall>i \<in> set (txn_items (tx_id t) st). decision_of policy (item_label st i) = ''dairy'') \<longrightarrow> rs_revenue s = tx_total t) \<and>
         (0 \<le> tx_total t \<longrightarrow> (\<forall>i \<in> set (txn_items (tx_id t) st). 0 \<le> item_amount lt i) \<longrightarrow>
            0 \<le> rs_revenue s \<and> rs_revenue s \<le> tx_total t)))"

definition all_non_dairy :: "policy \<Rightarrow> sales_store \<Rightarrow> txn \<Rightarrow> bool" where
  "all_non_dairy policy st t \<longleftrightarrow> tx_segment t = [] \<and> txn_items (tx_id t) st \<noteq> [] \<and>
     (\<forall>i \<in> set (txn_items (tx_id t) st). decision_of policy (item_label st i) = ''non_dairy'')"

lemma dairy_sum_bounds:
  assumes "\<forall>i \<in> set lines. (0 :: int) \<le> f i"
  shows "0 \<le> (\<Sum>i\<leftarrow>filter P lines. f i) \<and> (\<Sum>i\<leftarrow>filter P lines. f i) \<le> (\<Sum>i\<leftarrow>lines. f i)"
  using assms by (induction lines) auto

lemma classify_fits:
  assumes "tx_segment t = []" "lines = txn_items (tx_id t) st" "segment \<in> {''regular'', ''feeding''}"
  shows "case classify policy lt st lines segment t of
      NonDairy \<Rightarrow> all_non_dairy policy st t
    | Classified sg r \<Rightarrow> \<not> all_non_dairy policy st t \<and> sale_fits policy lt st t (sale_of st t sg r)"
proof -
  define d where "d = (\<lambda>i. decision_of policy (item_label st i))"
  define gross where "gross = (\<Sum>i\<leftarrow>lines. item_amount lt i)"
  define dairy where "dairy = (\<Sum>i\<leftarrow>filter (\<lambda>i. d i = ''dairy'') lines. item_amount lt i)"
  have c: "classify policy lt st lines segment t =
      (if lines \<noteq> [] \<and> (\<forall>i \<in> set lines. d i = ''non_dairy'') then NonDairy
       else if lines = [] \<or> (\<exists>i \<in> set lines. d i = ''review'') \<or> gross \<le> 0 then Classified ''unclassified'' (tx_total t)
       else Classified segment (quotient_half_up (tx_total t * dairy) gross))"
    by (simp add: classify_def Let_def d_def gross_def dairy_def list_all_iff image_iff eq_commute[of "''review''"])
  have nd: "all_non_dairy policy st t \<longleftrightarrow> lines \<noteq> [] \<and> (\<forall>i \<in> set lines. d i = ''non_dairy'')"
    using assms(1,2) by (simp add: all_non_dairy_def d_def)
  have all: "quotient_half_up (tx_total t * dairy) gross = tx_total t" if "\<forall>i \<in> set lines. d i = ''dairy''" "0 < gross"
  proof -
    have "dairy = gross" using that(1) by (simp add: dairy_def gross_def filter_id_conv[THEN iffD2])
    then show ?thesis using quotient_half_up_all[OF that(2)] by simp
  qed
  have bounds: "0 \<le> quotient_half_up (tx_total t * dairy) gross \<and> quotient_half_up (tx_total t * dairy) gross \<le> tx_total t"
    if "0 \<le> tx_total t" "\<forall>i \<in> set lines. 0 \<le> item_amount lt i" "0 < gross"
    using dairy_sum_bounds[OF that(2), of "\<lambda>i. d i = ''dairy''"] quotient_half_up_bounds[OF that(1) _ _ that(3), of dairy]
    by (simp add: gross_def dairy_def)
  have d: "decision_of policy (item_label st i) = d i" for i by (simp add: d_def)
  consider "lines \<noteq> [] \<and> (\<forall>i \<in> set lines. d i = ''non_dairy'')"
    | "\<not> (lines \<noteq> [] \<and> (\<forall>i \<in> set lines. d i = ''non_dairy''))" "lines = [] \<or> (\<exists>i \<in> set lines. d i = ''review'') \<or> gross \<le> 0"
    | "\<not> (lines \<noteq> [] \<and> (\<forall>i \<in> set lines. d i = ''non_dairy''))" "\<not> (lines = [] \<or> (\<exists>i \<in> set lines. d i = ''review'') \<or> gross \<le> 0)"
    by blast
  then show ?thesis
  proof cases
    case 1
    then show ?thesis by (simp add: c nd)
  next
    case 2
    then show ?thesis unfolding c nd if_not_P[OF 2(1)] if_P[OF 2(2)] by (simp add: sale_fits_def sale_of_def assms(1))
  next
    case 3
    then have "lines \<noteq> []" "\<forall>i \<in> set lines. d i \<noteq> ''review''" "\<exists>i \<in> set lines. d i \<noteq> ''non_dairy''" "0 < gross" by auto
    with all bounds assms(3) 3(1) show ?thesis
      unfolding c nd if_not_P[OF 3(1)] if_not_P[OF 3(2)]
      by (simp add: sale_fits_def sale_of_def assms(1) assms(2)[symmetric] d)
  qed
qed

lemma row_fits:
  assumes "\<And>t. live_row t \<Longrightarrow> t \<in> set rows \<Longrightarrow> f (tx_id t) = txn_items (tx_id t) st" "t \<in> set rows" "\<not> demo_reference (tx_source_ref t)"
  shows "case row_outcome policy lt st f t of
      NonDairy \<Rightarrow> all_non_dairy policy st t
    | Classified sg r \<Rightarrow> \<not> all_non_dairy policy st t \<and> sale_fits policy lt st t (sale_of st t sg r)"
proof (cases "tx_segment t = []")
  case True
  have "f (tx_id t) = txn_items (tx_id t) st" using assms True by (simp add: live_row_def)
  then show ?thesis
    using classify_fits[OF True, of "f (tx_id t)" st] True by (simp add: row_outcome_def)
next
  case False
  then show ?thesis by (simp add: row_outcome_def all_non_dairy_def sale_fits_def sale_of_def)
qed

lemma snapshot_loop_fits:
  assumes "\<And>t. live_row t \<Longrightarrow> t \<in> set rows \<Longrightarrow> f (tx_id t) = txn_items (tx_id t) st"
    and "snapshot_loop policy lt st f rows = (sales, demo, dropped)"
  shows "list_all2 (sale_fits policy lt st)
      (filter (\<lambda>t. \<not> demo_reference (tx_source_ref t) \<and> \<not> all_non_dairy policy st t) rows) sales \<and>
    dropped = map tx_id (filter (\<lambda>t. \<not> demo_reference (tx_source_ref t) \<and> all_non_dairy policy st t) rows) \<and>
    demo = length (filter (\<lambda>t. demo_reference (tx_source_ref t)) rows)"
  using assms
proof (induction rows arbitrary: sales demo dropped)
  case (Cons t rows)
  obtain s e d where r: "snapshot_loop policy lt st f rows = (s, e, d)" by (cases "snapshot_loop policy lt st f rows")
  note IH = Cons.IH[OF Cons.prems(1) r, simplified]
  show ?case
  proof (cases "demo_reference (tx_source_ref t)")
    case True
    with Cons.prems(2) r IH show ?thesis by auto
  next
    case False
    have "case row_outcome policy lt st f t of NonDairy \<Rightarrow> all_non_dairy policy st t
      | Classified sg r \<Rightarrow> \<not> all_non_dairy policy st t \<and> sale_fits policy lt st t (sale_of st t sg r)"
      by (rule row_fits[of "t # rows"]) (use Cons.prems(1) False in auto)
    with Cons.prems(2) r IH False show ?thesis by (cases "row_outcome policy lt st f t") auto
  qed
qed simp

text \<open>
  What a snapshot learns from. Every receipt that is not voided and was made before the cut-off day
  enters exactly once, in the order of its key: generated demonstration receipts and receipts of nothing
  but non-dairy products are counted and left out, and of every other receipt the sale fits the receipt. A
  receipt of the shop enters as regular or feeding only when every product on it is decided and one may be
  dairy; its revenue is then between nothing and the receipt's total, and the total when all is dairy.
\<close>

lemma snapshot_partitions:
  "let rows = sort_key tx_id (filter (\<lambda>t. \<not> tx_voided t \<and> local_date (tx_created t) < as_of) (ss_txns st));
       s = load_snapshot policy lt as_of st
   in list_all2 (sale_fits policy lt st)
        (filter (\<lambda>t. \<not> demo_reference (tx_source_ref t) \<and> \<not> all_non_dairy policy st t) rows) (sn_sales s) \<and>
      sn_dropped s = map tx_id (filter (\<lambda>t. \<not> demo_reference (tx_source_ref t) \<and> all_non_dairy policy st t) rows) \<and>
      sn_demo s = length (filter (\<lambda>t. demo_reference (tx_source_ref t)) rows)"
proof -
  obtain rows f where src: "load_source as_of st = (rows, f)" by fastforce
  have "tx_created t < at_hour as_of 0 \<longleftrightarrow> local_date (tx_created t) < as_of" for t :: txn
    using at_hour_start[of as_of "tx_created t"] by linarith
  then have rows: "rows = sort_key tx_id (filter (\<lambda>t. \<not> tx_voided t \<and> local_date (tx_created t) < as_of) (ss_txns st))"
    using src by (auto simp: load_source_def Let_def)
  obtain sales demo dropped where loop: "snapshot_loop policy lt st f rows = (sales, demo, dropped)"
    by (cases "snapshot_loop policy lt st f rows")
  have "f (tx_id t) = txn_items (tx_id t) st" if "live_row t" "t \<in> set rows" for t
    using src that by (auto simp: load_source_def Let_def)
  from snapshot_loop_fits[OF this loop] show ?thesis
    unfolding rows[symmetric] Let_def by (simp add: load_snapshot_def src make_snapshot_def loop)
qed

text \<open>The sample sale at the counter, with fresh milk decided as dairy: seen the next day, not on its own day.\<close>

definition demo_policy :: policy where
  "demo_policy = [(''freshmilk'', ''dairy'')]"

lemma snapshot_demo:
  "map (\<lambda>d. map (\<lambda>s. (rs_segment s, rs_revenue s)) (sn_sales (load_snapshot demo_policy (\<lambda>_. None) d (snd demo_sold))))
     [local_date (tx_created (fst demo_sold)), local_date (tx_created (fst demo_sold)) + 1] =
   [[], [(''regular'', 14999)]]"
  by code_simp

end
