(* ===== verification/Forecast_Learning.thy ===== *)
theory Forecast_Learning
  imports Forecast_Data Customer_Report
begin

text \<open>
  Monthly learning (\<^verbatim>\<open>forecasting/learning.py\<close>, \<^verbatim>\<open>forecasting/benchmarks.py\<close>): the monthly history of
  regular sales, the walk-forward folds, their scores and the choice of a model. Fitting itself is numerical
  code on third-party libraries; it is an argument that maps a model name and a history to a fitted state,
  or fails with one of the exceptions that the code catches. Revenue is in hundredths, an error percentage in
  ten-thousandths of a percent, and the arithmetic of scores is exact before it is rounded half to even.
\<close>

subsection \<open>Months\<close>

definition shift_month :: "date \<Rightarrow> int \<Rightarrow> date" where
  "shift_month month k =
     (let index = year_of month * 12 + month_of month - 1 + k in mk_date (index div 12) (index mod 12 + 1) 1)"

definition month_index :: "date \<Rightarrow> int" where
  "month_index d = year_of d * 12 + month_of d - 1"

lemma shift_month_fields:
  "day_of (shift_month m k) = 1" "month_index (shift_month m k) = month_index m + k"
proof -
  define i where "i = month_index m + k"
  have v: "valid_ymd (i div 12) (i mod 12 + 1) 1"
    by (auto simp: valid_ymd_def days_in_month_def)
  have s: "shift_month m k = mk_date (i div 12) (i mod 12 + 1) 1"
    by (simp add: shift_month_def i_def month_index_def Let_def)
  show "day_of (shift_month m k) = 1" unfolding s by (rule day_of_mk_date[OF v])
  show "month_index (shift_month m k) = month_index m + k"
  proof -
    have "month_index (shift_month m k) = i div 12 * 12 + i mod 12"
      unfolding s month_index_def[of "mk_date _ _ _"] year_of_mk_date[OF v] month_of_mk_date[OF v] by simp
    then show ?thesis unfolding div_mult_mod_eq i_def .
  qed
qed

lemma month_index_inj:
  assumes "day_of a = 1" "day_of b = 1" "month_index a = month_index b"
  shows "a = b"
proof -
  have "year_of a = year_of b \<and> month_of a = month_of b"
    using assms(3) month_of_range[of a] month_of_range[of b] unfolding month_index_def by presburger
  then show ?thesis using assms(1,2) mk_date_of[of a] mk_date_of[of b] by simp
qed

lemma month_start_index: "month_index (first_of_month d) = month_index d"
  by (simp add: month_index_def first_of_month_fields)

lemma shift_month_iff: "day_of b = 1 \<Longrightarrow> b = shift_month a k \<longleftrightarrow> month_index b = month_index a + k"
  using month_index_inj[of b "shift_month a k"] by (auto simp: shift_month_fields)

lemma shift_month_next: "shift_month d 1 = month_end d + 1"
proof -
  let ?y = "year_of d" and ?m = "month_of d"
  have r: "1 \<le> ?m" "?m \<le> 12" using month_of_range[of d] by auto
  show ?thesis
  proof (cases "?m = 12")
    case True
    have i: "(?y * 12 + 12) div 12 = ?y + 1" "(?y * 12 + 12) mod 12 = 0" by simp_all
    have "shift_month d 1 = mk_date (?y + 1) 1 1" using True i by (simp add: shift_month_def Let_def add.commute)
    also have "\<dots> = month_end d + 1"
      using True by (simp add: month_end_def mk_date_def days_before_year_step days_before_month_def days_in_month_def)
    finally show ?thesis .
  next
    case False
    have i: "(?y * 12 + ?m) div 12 = ?y" "(?y * 12 + ?m) mod 12 = ?m" using r False by auto
    have "days_before_month ?y (?m + 1) = days_before_month ?y ?m + days_in_month ?y ?m"
      using r False by (cases rule: month_cases) (auto simp: days_before_month_def days_in_month_def)
    then have "month_end d + 1 = mk_date ?y (?m + 1) 1" by (simp add: month_end_def mk_date_def)
    with i show ?thesis by (simp add: shift_month_def Let_def)
  qed
qed

lemma shift_month_shift: "shift_month (shift_month d j) k = shift_month d (j + k)"
  by (simp add: shift_month_iff shift_month_fields)

lemma shift_month_later: "0 < k \<Longrightarrow> month_end d < shift_month d k"
proof (induction k rule: int_gr_induct)
  case base
  then show ?case by (simp add: shift_month_next)
next
  case (step k)
  have "shift_month d k < shift_month (shift_month d k) 1" using month_end_ge[of "shift_month d k"] by (simp add: shift_month_next)
  with step show ?case by (simp add: shift_month_shift)
qed

lemma month_index_mono:
  assumes "d \<le> e"
  shows "month_index d \<le> month_index e"
proof (rule ccontr)
  assume "\<not> ?thesis"
  then have "month_end e < shift_month e (month_index d - month_index e)" by (intro shift_month_later) simp
  moreover have "shift_month e (month_index d - month_index e) = first_of_month d"
    by (rule month_index_inj) (simp_all add: shift_month_fields first_of_month_fields month_start_index)
  ultimately show False using first_of_month_le[of d] month_end_ge[of e] assms by simp
qed

text \<open>The content of a month, whose digest is its revision.\<close>

type_synonym month_content = "(nat \<times> date \<times> string \<times> string \<times> dec) list"

definition month_revision :: "snapshot \<Rightarrow> date \<Rightarrow> month_content" where
  "month_revision s month =
     map (\<lambda>x. (rs_id x, rs_day x, rs_key x, rs_segment x, rs_revenue x))
       (filter (\<lambda>x. first_of_month (rs_day x) = month) (sn_sales s))"

text \<open>Missing months split a history: only its last stretch without a gap is kept.\<close>

fun contiguous_from :: "(date \<times> 'a) list \<Rightarrow> (date \<times> 'a) list \<Rightarrow> (date \<times> 'a) list" where
  "contiguous_from acc [] = acc"
| "contiguous_from acc ((m, x) # rest) =
     contiguous_from (if acc \<noteq> [] \<and> m \<noteq> shift_month (fst (last acc)) 1 then [(m, x)] else acc @ [(m, x)]) rest"

definition contiguous :: "(date \<times> 'a) list \<Rightarrow> (date \<times> 'a) list" where
  "contiguous rows = contiguous_from [] rows"

definition regular_totals :: "(recorded_sale \<Rightarrow> bool) \<Rightarrow> date list \<Rightarrow> snapshot \<Rightarrow> (date \<times> dec) list" where
  "regular_totals keep zeros s =
     (let months = group_sums (\<lambda>x. first_of_month (rs_day x)) rs_revenue
                     (filter (\<lambda>x. rs_segment x = ''regular'' \<and> keep x) (sn_sales s))
      in months @ map (\<lambda>m. (m, 0)) (remdups (filter (\<lambda>m. m \<notin> fst ` set months) zeros)))"

definition monthly_rows :: "snapshot \<Rightarrow> date list \<Rightarrow> (date \<times> dec) list" where
  "monthly_rows s confirmed_zero_months =
     (let this = first_of_month (sn_as_of s)
      in contiguous (sort_key fst (regular_totals (\<lambda>x. first_of_month (rs_day x) < this)
           (filter (\<lambda>m. m < this) confirmed_zero_months) s)))"


subsection \<open>Scores\<close>

definition round_half_even :: "int \<Rightarrow> int \<Rightarrow> int" where
  "round_half_even n d =
     (let q = n div d; r = n mod d
      in if 2 * r < d then q else if d < 2 * r then q + 1 else if even q then q else q + 1)"

record fold_row =
  fo_month :: date
  fo_through :: date
  fo_actual :: dec
  fo_predicted :: dec

record score =
  sc_periods :: nat
  sc_wape :: "int option"
  sc_mae :: "dec option"
  sc_bias :: "dec option"

definition score_of :: "(dec \<times> dec) list \<Rightarrow> score" where
  "score_of rows =
     (let total = (\<Sum>(a, p)\<leftarrow>rows. \<bar>a\<bar>); error = (\<Sum>(a, p)\<leftarrow>rows. \<bar>p - a\<bar>); n = int (length rows)
      in \<lparr>sc_periods = length rows,
          sc_wape = (if total \<noteq> 0 then Some (round_half_even (1000000 * error) total) else None),
          sc_mae = (if rows \<noteq> [] then Some (round_half_even error n) else None),
          sc_bias = (if rows \<noteq> [] then Some (round_half_even (\<Sum>(a, p)\<leftarrow>rows. p - a) n) else None)\<rparr>)"

definition fold_score :: "fold_row list \<Rightarrow> score" where
  "fold_score rows = score_of (map (\<lambda>r. (fo_actual r, fo_predicted r)) rows)"

definition target_percent :: int where
  "target_percent = 150000"


subsection \<open>Training\<close>

definition sarima_names :: "string list" where
  "sarima_names = [''sarima_000_100_12'', ''sarima_100_100_12'', ''sarima_010_100_12'', ''sarima_110_100_12'', ''sarima_011_100_12'']"

definition benchmark_names :: "string list" where
  "benchmark_names = [''previous_month'', ''trailing_3_mean'', ''trailing_6_mean'', ''trailing_3_median'', ''same_month_last_year'']"

definition candidate_names :: "string list" where
  "candidate_names = sarima_names @ benchmark_names @ [''exponential_level'', ''damped_trend'', ''ridge_ar_10'', ''ridge_ar_100'']"

definition min_months :: nat where "min_months = 36"
definition validation_months :: nat where "validation_months = 6"
definition test_months :: nat where "test_months = 12"

record 'a fitted =
  fd_name :: string
  fd_through :: date
  fd_target :: date
  fd_months :: nat
  fd_state :: 'a

text \<open>
  The numerical part: \<open>ft_fit\<close> estimates the state of a named model, \<open>ft_value\<close> is the prediction of a fitted
  model in hundredths. \<open>None\<close> is an exception that the callers catch.
\<close>

record 'a fitting =
  ft_fit :: "string \<Rightarrow> (date \<times> dec) list \<Rightarrow> 'a option"
  ft_value :: "'a fitted \<Rightarrow> dec option"

definition fit_model :: "'a fitting \<Rightarrow> string \<Rightarrow> (date \<times> dec) list \<Rightarrow> 'a fitted option" where
  "fit_model env name rows =
     (if length rows < 12 \<or> (\<exists>r \<in> set rows. snd r < 0) then None
      else map_option (\<lambda>state. \<lparr>fd_name = name, fd_through = fst (last rows), fd_target = shift_month (fst (last rows)) 1,
                                fd_months = length rows, fd_state = state\<rparr>) (ft_fit env name rows))"

definition predict_model :: "'a fitting \<Rightarrow> 'a fitted \<Rightarrow> dec option" where
  "predict_model env fitted =
     (case ft_value env fitted of None \<Rightarrow> None
      | Some value \<Rightarrow> if 100 * 10 ^ 18 \<le> value then None else Some (max 0 value))"

definition fold_at :: "'a fitting \<Rightarrow> string \<Rightarrow> (date \<times> dec) list \<Rightarrow> nat \<Rightarrow> fold_row option" where
  "fold_at env name rows index =
     (case fit_model env name (take index rows) of None \<Rightarrow> None
      | Some fitted \<Rightarrow>
          map_option (\<lambda>p. \<lparr>fo_month = fst (rows ! index), fo_through = fst (rows ! (index - 1)),
                           fo_actual = snd (rows ! index), fo_predicted = p\<rparr>) (predict_model env fitted))"

definition walk_forward :: "'a fitting \<Rightarrow> string \<Rightarrow> (date \<times> dec) list \<Rightarrow> nat \<Rightarrow> nat \<Rightarrow> fold_row list option" where
  "walk_forward env name rows start stop = those (map (fold_at env name rows) [start..<stop])"

record next_point =
  np_date :: date
  np_value :: dec
  np_lower :: dec
  np_upper :: dec
  np_samples :: nat

record 'a findings =
  fi_status :: string
  fi_selected :: "string option"
  fi_baseline :: "string option"
  fi_candidates :: "(string \<times> score option \<times> score option) list"
  fi_test :: "score option"
  fi_base_test :: "score option"
  fi_gate :: "bool \<times> bool"
  fi_artifact :: "'a fitted option"
  fi_sha :: "'a fitted option"
  fi_next :: "next_point option"
  fi_end :: "date option"

definition early_findings :: "string \<Rightarrow> string option \<Rightarrow> (string \<times> score option \<times> score option) list \<Rightarrow> 'a findings" where
  "early_findings status selected candidates =
     \<lparr>fi_status = status, fi_selected = selected, fi_baseline = None, fi_candidates = candidates, fi_test = None,
      fi_base_test = None, fi_gate = (False, False), fi_artifact = None, fi_sha = None, fi_next = None, fi_end = None\<rparr>"

definition wape_of :: "score option \<Rightarrow> int option" where
  "wape_of s = (case s of None \<Rightarrow> None | Some x \<Rightarrow> sc_wape x)"

text \<open>The best of some names by a score, ties going to the first.\<close>

definition best_of :: "(string \<Rightarrow> int option) \<Rightarrow> string list \<Rightarrow> string option" where
  "best_of wape names =
     (let ranked = sort_key (\<lambda>n. the (wape n)) (filter (\<lambda>n. wape n \<noteq> None) names)
      in if ranked = [] then None else Some (hd ranked))"

definition validation_scores :: "'a fitting \<Rightarrow> (date \<times> dec) list \<Rightarrow> string \<Rightarrow> score option" where
  "validation_scores env rows name =
     map_option fold_score (walk_forward env name rows (length rows - test_months - validation_months) (length rows - test_months))"

definition gap_free :: "(date \<times> 'a) list \<Rightarrow> bool" where
  "gap_free rows \<longleftrightarrow> list_all (\<lambda>(p, c). shift_month (fst p) 1 = fst c) (zip rows (tl rows))"

text \<open>The findings of a training run that reached its end; \<open>folds\<close> are the test folds of the selected model.\<close>

definition research_findings ::
    "(date \<times> dec) list \<Rightarrow> string \<Rightarrow> string \<Rightarrow> (string \<times> score option \<times> score option) list \<Rightarrow> fold_row list \<Rightarrow> score \<Rightarrow>
     score option \<Rightarrow> 'a fitted \<Rightarrow> dec \<Rightarrow> 'a findings" where
  "research_findings rows selected baseline shown folds selected_test baseline_test fitted value =
     (let errors = sort (map (\<lambda>r. \<bar>fo_predicted r - fo_actual r\<bar>) folds);
          width = errors ! min (length errors - 1) ((9 * (length errors + 1) + 9) div 10 - 1);
          under = (case sc_wape selected_test of None \<Rightarrow> False | Some w \<Rightarrow> w < target_percent);
          no_worse = (case (wape_of baseline_test, sc_wape selected_test) of (Some b, Some w) \<Rightarrow> w \<le> b | _ \<Rightarrow> False)
      in \<lparr>fi_status = ''research_candidate'', fi_selected = Some selected, fi_baseline = Some baseline, fi_candidates = shown,
          fi_test = Some selected_test, fi_base_test = baseline_test, fi_gate = (under, no_worse), fi_artifact = Some fitted,
          fi_sha = Some fitted,
          fi_next = Some \<lparr>np_date = fd_target fitted, np_value = value, np_lower = max 0 (value - width),
            np_upper = value + width, np_samples = length errors\<rparr>,
          fi_end = Some (fst (last rows))\<rparr>)"

text \<open>The test folds of the models that have a validation score, and the table of all models.\<close>

definition test_folds :: "'a fitting \<Rightarrow> (date \<times> dec) list \<Rightarrow> string \<Rightarrow> fold_row list option" where
  "test_folds env rows name =
     (if wape_of (validation_scores env rows name) = None then None
      else walk_forward env name rows (length rows - test_months) (length rows))"

definition candidate_table :: "'a fitting \<Rightarrow> (date \<times> dec) list \<Rightarrow> (string \<times> score option \<times> score option) list" where
  "candidate_table env rows =
     map (\<lambda>n. (n, validation_scores env rows n, map_option fold_score (test_folds env rows n))) candidate_names"

definition train :: "'a fitting \<Rightarrow> (date \<times> dec) list \<Rightarrow> 'a findings res" where
  "train env rows =
     (if length rows < min_months then Inr (early_findings ''insufficient_history'' None [])
      else if \<not> gap_free rows then Inl (ValueError ''Training history contains missing months.'')
      else let wape = (\<lambda>n. wape_of (validation_scores env rows n));
               untested = map (\<lambda>n. (n, validation_scores env rows n, None)) candidate_names;
               shown = candidate_table env rows
           in (case best_of wape sarima_names of
                None \<Rightarrow> Inr (early_findings ''no_valid_candidates'' None untested)
              | Some selected \<Rightarrow>
                  (case best_of wape benchmark_names of
                    None \<Rightarrow> Inr (early_findings ''no_valid_baseline'' (Some selected) untested)
                  | Some baseline \<Rightarrow>
                      (case test_folds env rows selected of
                        Some folds \<Rightarrow>
                          (case fit_model env selected rows of
                             None \<Rightarrow> Inr (early_findings ''selected_model_failed'' (Some selected) shown)
                           | Some fitted \<Rightarrow>
                               (case predict_model env fitted of
                                 None \<Rightarrow> Inr (early_findings ''selected_model_failed'' (Some selected) shown)
                               | Some value \<Rightarrow>
                                   Inr (research_findings rows selected baseline shown folds (fold_score folds)
                                     (map_option fold_score (test_folds env rows baseline)) fitted value)))
                      | None \<Rightarrow> Inr (early_findings ''selected_model_failed'' (Some selected) shown)))))"

subsection \<open>Months without a gap\<close>

lemma contiguous_from_gap_free:
  assumes "gap_free acc"
  shows "gap_free (contiguous_from acc rows)"
  using assms
proof (induction acc rows rule: contiguous_from.induct)
  case (2 acc m x rest)
  have "gap_free (if acc \<noteq> [] \<and> m \<noteq> shift_month (fst (last acc)) 1 then [(m, x)] else acc @ [(m, x)])"
  proof (cases "acc \<noteq> [] \<and> m \<noteq> shift_month (fst (last acc)) 1")
    case True
    then show ?thesis by (simp add: gap_free_def)
  next
    case False
    have "gap_free (acc @ [(m, x)])" using "2.prems" False
    proof (induction acc)
      case (Cons a acc)
      then show ?case by (cases acc) (auto simp: gap_free_def)
    qed (simp add: gap_free_def)
    with False show ?thesis by auto
  qed
  with "2.IH" show ?case by simp
qed simp

lemma contiguous_from_suffix:
  "\<exists>pre. acc @ rows = pre @ contiguous_from acc rows"
proof (induction acc rows rule: contiguous_from.induct)
  case (2 acc m x rest)
  then obtain pre where pre: "(if acc \<noteq> [] \<and> m \<noteq> shift_month (fst (last acc)) 1 then [(m, x)] else acc @ [(m, x)]) @ rest =
      pre @ contiguous_from acc ((m, x) # rest)" by auto
  show ?case
  proof (cases "acc \<noteq> [] \<and> m \<noteq> shift_month (fst (last acc)) 1")
    case True
    then have e: "contiguous_from acc ((m, x) # rest) = contiguous_from [(m, x)] rest" by simp
    have "[(m, x)] @ rest = pre @ contiguous_from [(m, x)] rest" using pre True by simp
    then show ?thesis unfolding e by (intro exI[of _ "acc @ pre"]) simp
  next
    case False
    with pre show ?thesis by (intro exI[of _ pre]) auto
  qed
qed simp

lemma contiguous_gap_free: "gap_free (contiguous rows)"
  unfolding contiguous_def by (rule contiguous_from_gap_free) (simp add: gap_free_def)

lemma contiguous_suffix: "\<exists>pre. rows = pre @ contiguous rows"
  unfolding contiguous_def using contiguous_from_suffix[of "[]" rows] by simp



subsection \<open>The choice looks at the past only\<close>

lemma those_Some: "those xs = Some ys \<longleftrightarrow> xs = map Some ys"
  by (induction xs arbitrary: ys) (auto split: option.splits)

lemma fold_at_past:
  assumes "index < k" "k \<le> length rows" "k \<le> length rows'" "take k rows = take k rows'"
  shows "fold_at env name rows index = fold_at env name rows' index"
proof -
  have "rows ! i = rows' ! i" if "i < k" for i
    using that arg_cong[OF assms(4), of \<open>\<lambda>xs. xs ! i\<close>] by simp
  moreover have "take index rows = take index (take k rows)" "take index rows' = take index (take k rows')"
    using assms(1) by (simp_all add: min_def)
  then have "take index rows = take index rows'" using assms(4) by simp
  moreover have "index - 1 < k" using assms(1) by simp
  ultimately have "rows ! index = rows' ! index" "rows ! (index - 1) = rows' ! (index - 1)" "take index rows = take index rows'"
    using assms(1) by blast+
  then show ?thesis by (simp only: fold_at_def)
qed

lemma walk_forward_past:
  assumes "stop \<le> length rows" "stop \<le> length rows'" "take stop rows = take stop rows'"
  shows "walk_forward env name rows start stop = walk_forward env name rows' start stop"
  unfolding walk_forward_def using fold_at_past[OF _ assms] by (intro arg_cong[of _ _ those] map_cong) auto

lemma validation_past:
  assumes "length rows = length rows'" "take (length rows - test_months) rows = take (length rows - test_months) rows'"
  shows "validation_scores env rows = validation_scores env rows'"
proof
  fix name
  have "walk_forward env name rows (length rows - test_months - validation_months) (length rows - test_months) =
      walk_forward env name rows' (length rows - test_months - validation_months) (length rows - test_months)"
    by (rule walk_forward_past) (use assms in auto)
  then show "validation_scores env rows name = validation_scores env rows' name"
    using assms(1) by (simp add: validation_scores_def)
qed

text \<open>The choice of the model, and how a training run goes on from it.\<close>

definition chosen :: "'a fitting \<Rightarrow> (date \<times> dec) list \<Rightarrow> string list \<Rightarrow> string option" where
  "chosen env rows names = best_of (\<lambda>n. wape_of (validation_scores env rows n)) names"

lemma train_cases:
  assumes "train env rows = Inr f" "min_months \<le> length rows"
  obtains (none) shown where "f = early_findings ''no_valid_candidates'' None shown" "chosen env rows sarima_names = None"
  | (no_base) shown x where "f = early_findings ''no_valid_baseline'' (Some x) shown" "chosen env rows sarima_names = Some x"
  | (failed) shown x where "f = early_findings ''selected_model_failed'' (Some x) shown" "chosen env rows sarima_names = Some x"
  | (fitted) x b folds fd v where "chosen env rows sarima_names = Some x" "chosen env rows benchmark_names = Some b"
      "test_folds env rows x = Some folds" "fit_model env x rows = Some fd" "predict_model env fd = Some v"
      "f = research_findings rows x b (candidate_table env rows) folds (fold_score folds)
        (map_option fold_score (test_folds env rows b)) fd v"
proof -
  have rows: "\<not> length rows < min_months" "gap_free rows"
    using assms by (auto simp: train_def split: if_splits)
  note t = assms(1)[unfolded train_def Let_def, simplified rows if_False if_True not_True_eq_False not_False_eq_True, folded chosen_def]
  show ?thesis
  proof (cases "chosen env rows sarima_names")
    case None
    with t show ?thesis by (intro none) auto
  next
    case x: (Some x)
    show ?thesis
    proof (cases "chosen env rows benchmark_names")
      case None
      with t x show ?thesis by (intro no_base) auto
    next
      case b: (Some b)
      show ?thesis
      proof (cases "test_folds env rows x")
        case None
        with t x b show ?thesis by (intro failed) auto
      next
        case folds: (Some folds)
        show ?thesis
        proof (cases "fit_model env x rows")
          case None
          with t x b folds show ?thesis by (intro failed) auto
        next
          case fd: (Some fd)
          show ?thesis
          proof (cases "predict_model env fd")
            case None
            with t x b folds fd show ?thesis by (intro failed) auto
          next
            case v: (Some v)
            show ?thesis by (rule fitted[OF x b folds fd v]) (use t x b folds fd v in simp)
          qed
        qed
      qed
    qed
  qed
qed

lemma train_selected:
  assumes "train env rows = Inr f" "min_months \<le> length rows"
  shows "fi_selected f = chosen env rows sarima_names \<and> (\<forall>b. fi_baseline f = Some b \<longrightarrow> chosen env rows benchmark_names = Some b)"
  using assms by (cases rule: train_cases) (simp_all add: early_findings_def research_findings_def Let_def)

text \<open>
  C28: The test months never choose the model. Two histories of the same length that agree except in their
  last twelve months, whatever the sales of those months, get the same primary model and, where both runs
  get that far, the same baseline to beat.
\<close>

theorem selection_past_only:
  assumes "length rows = length rows'"
    and "take (length rows - test_months) rows = take (length rows - test_months) rows'"
    and "train env rows = Inr f" "train env rows' = Inr f'"
  shows "fi_selected f = fi_selected f' \<and> (\<forall>b b'. fi_baseline f = Some b \<and> fi_baseline f' = Some b' \<longrightarrow> b = b')"
proof (cases "length rows < min_months")
  case True
  then show ?thesis using assms by (auto simp: train_def early_findings_def)
next
  case False
  have "chosen env rows = chosen env rows'"
    unfolding chosen_def validation_past[OF assms(1,2)] ..
  then show ?thesis
    using train_selected[OF assms(3)] train_selected[OF assms(4)] assms(1) False by auto
qed

text \<open>Folds, and what a successful run reports.\<close>

lemma walk_forward_folds:
  assumes "walk_forward env name rows start stop = Some folds"
  shows "length folds = stop - start \<and>
    (\<forall>k < stop - start. fold_at env name rows (start + k) = Some (folds ! k))"
proof -
  have m: "map (fold_at env name rows) [start..<stop] = map Some folds" using assms by (simp add: walk_forward_def those_Some)
  then have len: "length folds = stop - start" by (metis length_map length_upt)
  moreover have "fold_at env name rows (start + k) = Some (folds ! k)" if "k < stop - start" for k
    using arg_cong[OF m, of "\<lambda>xs. xs ! k"] that len by simp
  ultimately show ?thesis by blast
qed

text \<open>In a history without a gap, the rows before a row are those of earlier months.\<close>

lemma gap_free_step:
  assumes "gap_free rows" "Suc j < length rows"
  shows "shift_month (fst (rows ! j)) 1 = fst (rows ! Suc j)"
proof -
  have "(rows ! j, rows ! Suc j) \<in> set (zip rows (tl rows))"
    using assms(2) by (auto simp: in_set_zip nth_tl intro!: exI[of _ j])
  with assms(1) show ?thesis by (fastforce simp: gap_free_def list_all_iff)
qed

lemma gap_free_index:
  "gap_free rows \<Longrightarrow> j < length rows \<Longrightarrow> month_index (fst (rows ! j)) = month_index (fst (rows ! 0)) + int j"
proof (induction j)
  case (Suc j)
  then show ?case using gap_free_step[of rows j] shift_month_fields(2)[of "fst (rows ! j)" 1] by simp
qed simp

lemma gap_free_less:
  assumes "gap_free rows" "i < length rows" "j < length rows"
  shows "fst (rows ! j) < fst (rows ! i) \<longleftrightarrow> j < i"
proof
  assume l: "fst (rows ! j) < fst (rows ! i)"
  then have "month_index (fst (rows ! j)) \<le> month_index (fst (rows ! i))" by (intro month_index_mono) simp
  then have "j \<le> i" using gap_free_index[OF assms(1)] assms(2,3) by simp
  moreover have "j \<noteq> i" using l by auto
  ultimately show "j < i" by simp
next
  assume "j < i"
  then have "\<not> month_index (fst (rows ! i)) \<le> month_index (fst (rows ! j))" using gap_free_index[OF assms(1)] assms(2,3) by simp
  then show "fst (rows ! j) < fst (rows ! i)" using month_index_mono[of "fst (rows ! i)" "fst (rows ! j)"] by linarith
qed

lemma earlier_months:
  assumes g: "gap_free rows" and i: "i < length rows"
  shows "filter (\<lambda>r. fst r < fst (rows ! i)) rows = take i rows"
proof -
  have "fst r < fst (rows ! i)" if "r \<in> set (take i rows)" for r
    using that gap_free_less[OF g i] i by (auto simp: in_set_conv_nth)
  then have "filter (\<lambda>r. fst r < fst (rows ! i)) (take i rows) = take i rows" by simp
  moreover have "\<not> fst r < fst (rows ! i)" if r: "r \<in> set (drop i rows)" for r
  proof -
    obtain j where "j < length rows - i" "r = drop i rows ! j" using r by (metis in_set_conv_nth length_drop)
    then show ?thesis using gap_free_less[OF g i, of "i + j"] i by simp
  qed
  then have "filter (\<lambda>r. fst r < fst (rows ! i)) (drop i rows) = []" by simp
  ultimately show ?thesis by (metis append_Nil2 append_take_drop_id filter_append)
qed

definition fold_of_past :: "'a fitting \<Rightarrow> string \<Rightarrow> (date \<times> dec) list \<Rightarrow> nat \<Rightarrow> fold_row \<Rightarrow> bool" where
  "fold_of_past env name rows index tested \<longleftrightarrow>
     rows ! index = (fo_month tested, fo_actual tested) \<and> shift_month (fo_through tested) 1 = fo_month tested \<and>
     (\<exists>fitted. fit_model env name (filter (\<lambda>r. fst r < fo_month tested) rows) = Some fitted \<and>
        predict_model env fitted = Some (fo_predicted tested))"

lemma fold_at_past_only:
  assumes "gap_free rows" "0 < index" "index < length rows" "fold_at env name rows index = Some tested"
  shows "fold_of_past env name rows index tested"
proof -
  from assms(4) have m: "fo_month tested = fst (rows ! index)" "fo_actual tested = snd (rows ! index)"
      "fo_through tested = fst (rows ! (index - 1))"
      "\<exists>fitted. fit_model env name (take index rows) = Some fitted \<and> predict_model env fitted = Some (fo_predicted tested)"
    by (auto simp: fold_at_def split: option.splits)
  with gap_free_step[OF assms(1), of "index - 1"] assms(2,3) show ?thesis
    by (simp add: fold_of_past_def earlier_months[OF assms(1,3)])
qed

lemma best_of_mem:
  assumes "best_of w names = Some x"
  shows "x \<in> set names \<and> w x \<noteq> None"
proof -
  define ranked where "ranked = sort_key (\<lambda>n. the (w n)) (filter (\<lambda>n. w n \<noteq> None) names)"
  have "ranked \<noteq> []" "x = hd ranked" 
    using assms unfolding best_of_def Let_def ranked_def[symmetric] by (auto split: if_splits)
  then have "x \<in> set ranked" by simp
  then show ?thesis by (simp add: ranked_def)
qed

text \<open>
  C30: What a successful training run reports. The primary model is one of the five seasonal models, fitted
  on the whole gap-free history of at least 36 months; it predicts the month after the history, within
  bounds that are never negative. The test months are the last twelve of the history; each was predicted by a
  fit on the rows of strictly earlier months, the last of them the month just before it, and is compared with
  its own recorded revenue; and the gate is open only when the test error is below 15 percent and no worse than the
  baseline's on the same months.
\<close>

theorem training_sound:
  assumes "train env rows = Inr f" "fi_status f = ''research_candidate''"
  shows "\<exists>x b fd v folds. fi_selected f = Some x \<and> x \<in> set sarima_names \<and> fi_baseline f = Some b \<and> b \<in> set benchmark_names \<and>
    min_months \<le> length rows \<and> gap_free rows \<and>
    fit_model env x rows = Some fd \<and> predict_model env fd = Some v \<and> fi_artifact f = Some fd \<and> fi_end f = Some (fst (last rows)) \<and>
    (\<exists>p. fi_next f = Some p \<and> np_date p = shift_month (fst (last rows)) 1 \<and> np_value p = v \<and>
       0 \<le> np_lower p \<and> np_lower p \<le> v \<and> v \<le> np_upper p) \<and>
    length folds = test_months \<and>
    (\<forall>k < test_months.
       rows ! (length rows - test_months + k) = (fo_month (folds ! k), fo_actual (folds ! k)) \<and>
       shift_month (fo_through (folds ! k)) 1 = fo_month (folds ! k) \<and>
       (\<exists>fitted. fit_model env x (filter (\<lambda>r. fst r < fo_month (folds ! k)) rows) = Some fitted \<and>
          predict_model env fitted = Some (fo_predicted (folds ! k)))) \<and>
    fi_test f = Some (fold_score folds) \<and>
    (fst (fi_gate f) \<longrightarrow> (\<exists>w. sc_wape (fold_score folds) = Some w \<and> w < target_percent)) \<and>
    (snd (fi_gate f) \<longrightarrow> (\<exists>w w0. sc_wape (fold_score folds) = Some w \<and> wape_of (fi_base_test f) = Some w0 \<and> w \<le> w0))"
proof -
  have long: "min_months \<le> length rows" and gap: "gap_free rows"
    using assms by (auto simp: train_def early_findings_def split: if_splits)
  from assms(1) long show ?thesis
  proof (cases rule: train_cases)
    case (fitted x b folds fd v)
    have "walk_forward env x rows (length rows - test_months) (length rows) = Some folds"
      using fitted(3) by (simp add: test_folds_def split: if_splits)
    from walk_forward_folds[OF this] long have folds: "length folds = test_months"
      "\<forall>k < test_months. fold_at env x rows (length rows - test_months + k) = Some (folds ! k)"
      by (simp_all add: test_months_def min_months_def)
    have "fold_of_past env x rows (length rows - test_months + k) (folds ! k)" if "k < test_months" for k
      using fold_at_past_only[OF gap _ _ folds(2)[rule_format, OF that]] long that by (simp add: min_months_def test_months_def)
    then have past: "\<forall>k < test_months.
       rows ! (length rows - test_months + k) = (fo_month (folds ! k), fo_actual (folds ! k)) \<and>
       shift_month (fo_through (folds ! k)) 1 = fo_month (folds ! k) \<and>
       (\<exists>fitted. fit_model env x (filter (\<lambda>r. fst r < fo_month (folds ! k)) rows) = Some fitted \<and>
          predict_model env fitted = Some (fo_predicted (folds ! k)))" by (simp add: fold_of_past_def)
    define errors where "errors = sort (map (\<lambda>r. \<bar>fo_predicted r - fo_actual r\<bar>) folds)"
    define width where "width = errors ! min (length errors - 1) ((9 * (length errors + 1) + 9) div 10 - 1)"
    have "length errors = test_months" by (simp add: errors_def folds(1))
    then have "width \<in> set errors" unfolding width_def by (intro nth_mem) (simp add: test_months_def)
    then have w: "0 \<le> width" by (auto simp: errors_def)
    have v: "0 \<le> v" using fitted(5) by (auto simp: predict_model_def split: option.splits if_splits)
    have fd: "fd_target fd = shift_month (fst (last rows)) 1" using fitted(4) by (auto simp: fit_model_def split: if_splits)
    have x: "x \<in> set sarima_names" "b \<in> set benchmark_names"
      using best_of_mem[OF fitted(1)[unfolded chosen_def]] best_of_mem[OF fitted(2)[unfolded chosen_def]] by blast+
    have gates: "(fst (fi_gate f) \<longrightarrow> (\<exists>w. sc_wape (fold_score folds) = Some w \<and> w < target_percent)) \<and>
      (snd (fi_gate f) \<longrightarrow> (\<exists>w w0. sc_wape (fold_score folds) = Some w \<and> wape_of (fi_base_test f) = Some w0 \<and> w \<le> w0))"
      by (simp add: fitted(6) research_findings_def Let_def split: option.splits)
    have "fi_next f = Some \<lparr>np_date = fd_target fd, np_value = v, np_lower = max 0 (v - width), np_upper = v + width,
        np_samples = length errors\<rparr>"
      unfolding fitted(6) research_findings_def Let_def errors_def[symmetric] width_def[symmetric] by simp
    then have next_ok: "\<exists>p. fi_next f = Some p \<and> np_date p = shift_month (fst (last rows)) 1 \<and> np_value p = v \<and>
       0 \<le> np_lower p \<and> np_lower p \<le> v \<and> v \<le> np_upper p"
      using w v by (simp add: fd)
    have rest: "fi_selected f = Some x" "fi_baseline f = Some b" "fi_artifact f = Some fd" "fi_end f = Some (fst (last rows))"
      "fi_test f = Some (fold_score folds)"
      by (simp_all add: fitted(6) research_findings_def Let_def)
    show ?thesis
      using rest x long gap fitted(4,5) next_ok folds(1) past gates by blast
  qed (use assms(2) in \<open>simp_all add: early_findings_def\<close>)
qed

text \<open>A history of 36 months; the fit repeats the last month, and only two of the models can be fitted.\<close>

definition month_number :: "int \<Rightarrow> date" where
  "month_number n = mk_date (n div 12) (n mod 12 + 1) 1"

lemma shift_month_number: "shift_month (month_number n) k = month_number (n + k)"
proof -
  have v: "valid_ymd (n div 12) (n mod 12 + 1) 1" by (auto simp: valid_ymd_def days_in_month_def)
  have "year_of (month_number n) * 12 + month_of (month_number n) - 1 = n"
    unfolding month_number_def year_of_mk_date[OF v] month_of_mk_date[OF v] by simp
  then show ?thesis by (simp add: shift_month_def month_number_def[of "n + k"] Let_def)
qed

definition demo_history :: "int \<Rightarrow> (date \<times> dec) list" where
  "demo_history x = map (\<lambda>k. (month_number (24276 + k), if k = 35 then x else 100000 + 1000 * k)) [0..35]"

definition demo_fitting :: "dec fitting" where
  "demo_fitting = \<lparr>ft_fit = (\<lambda>name rows. if name = ''sarima_000_100_12'' \<or> name = ''previous_month'' then Some (snd (last rows)) else None),
     ft_value = (\<lambda>fd. Some (fd_state fd))\<rparr>"

lemma demo_gap: "gap_free (demo_history x)"
  by (simp add: demo_history_def gap_free_def shift_month_number upto.simps)

lemma demo_length: "length (demo_history x) = 36"
  by (simp add: demo_history_def)

text \<open>Two histories that differ in the last month only.\<close>

lemma demo_scores:
  "list_all (\<lambda>x. chosen demo_fitting (demo_history x) sarima_names = Some ''sarima_000_100_12'' \<and>
     chosen demo_fitting (demo_history x) benchmark_names = Some ''previous_month'' \<and>
     test_folds demo_fitting (demo_history x) ''sarima_000_100_12'' \<noteq> None \<and>
     map_option (predict_model demo_fitting) (fit_model demo_fitting ''sarima_000_100_12'' (demo_history x)) = Some (Some x))
     [135000, 90000]"
  by code_simp

lemma demo_train:
  assumes "x \<in> {135000, 90000}"
  shows "\<exists>f. train demo_fitting (demo_history x) = Inr f \<and> fi_status f = ''research_candidate''"
proof -
  have c: "best_of (\<lambda>n. wape_of (validation_scores demo_fitting (demo_history x) n)) sarima_names = Some ''sarima_000_100_12''"
    "best_of (\<lambda>n. wape_of (validation_scores demo_fitting (demo_history x) n)) benchmark_names = Some ''previous_month''"
    and t: "test_folds demo_fitting (demo_history x) ''sarima_000_100_12'' \<noteq> None"
    and f: "map_option (predict_model demo_fitting) (fit_model demo_fitting ''sarima_000_100_12'' (demo_history x)) = Some (Some x)"
    using demo_scores assms by (auto simp: chosen_def)
  obtain folds fd where "test_folds demo_fitting (demo_history x) ''sarima_000_100_12'' = Some folds"
    "fit_model demo_fitting ''sarima_000_100_12'' (demo_history x) = Some fd" "predict_model demo_fitting fd = Some x"
    using t f by auto
  then show ?thesis
    by (simp add: train_def demo_length min_months_def demo_gap c Let_def research_findings_def)
qed

theorem training_sound_witness:
  "\<exists>f p. train demo_fitting (demo_history 135000) = Inr f \<and> fi_next f = Some p \<and>
     np_date p = shift_month (fst (last (demo_history 135000))) 1 \<and> np_lower p \<le> np_value p"
  using demo_train[of 135000] training_sound[of demo_fitting "demo_history 135000"] by fastforce

theorem selection_past_only_witness:
  "\<exists>f f'. train demo_fitting (demo_history 135000) = Inr f \<and> train demo_fitting (demo_history 90000) = Inr f' \<and>
     demo_history 135000 \<noteq> demo_history 90000 \<and> fi_selected f = fi_selected f'"
proof -
  obtain f f' where f: "train demo_fitting (demo_history 135000) = Inr f" "train demo_fitting (demo_history 90000) = Inr f'"
    using demo_train[of 135000] demo_train[of 90000] by auto
  have "take (36 - test_months) (demo_history 135000) = take (36 - test_months) (demo_history 90000)"
    by (simp add: demo_history_def upto.simps test_months_def)
  from selection_past_only[OF _ _ f] this have "fi_selected f = fi_selected f'" by (simp add: demo_length)
  moreover have "snd (last (demo_history 135000)) \<noteq> snd (last (demo_history 90000))"
    by (simp add: demo_history_def upto.simps)
  ultimately show ?thesis using f by metis
qed

end
