(* ===== verification/Forecast_Lifecycle.thy ===== *)
theory Forecast_Lifecycle
  imports Forecast_Learning Accounts
begin

text \<open>
  The life of a monthly model (\<^verbatim>\<open>forecasting/lifecycle.py\<close> and its tables in \<^verbatim>\<open>forecasting/models.py\<close>): source
  months are attested by an admin, models are fitted on attested history, on the first day of a month a
  forecast is issued, issued forecasts are scored once their month is over, and a model is deployed only
  through the quality gate. A service reads the ledger before its transaction and again inside it; the two
  stores are separate arguments, so that anything may happen in between. Revisions are the data whose digest
  they are. The shape check of a fitted state is an argument. Every clock reading is an argument.
\<close>

subsection \<open>Tables\<close>

record coverage =
  mc_month :: date
  mc_revision :: month_content
  mc_zero :: bool
  mc_by :: nat
  mc_note :: string

type_synonym coverage_digest = "(date \<times> month_content \<times> bool) list"

record 'a model_run =
  mr_id :: nat
  mr_engine :: string
  mr_source :: sales_revision
  mr_coverage :: coverage_digest
  mr_cutoff :: date
  mr_through :: "date option"
  mr_status :: string
  mr_findings :: "'a findings"
  mr_created :: instant

record issued_forecast =
  if_id :: nat
  if_run :: nat
  if_engine :: string
  if_target :: date
  if_value :: dec
  if_lower :: dec
  if_upper :: dec
  if_baseline :: dec
  if_at :: instant

record forecast_score =
  fs_issued :: nat
  fs_revision :: month_content
  fs_verified :: bool
  fs_actual :: dec
  fs_error :: dec
  fs_absolute :: dec
  fs_base_absolute :: dec

record evidence =
  ev_months :: "date list"
  ev_rows :: "(dec \<times> dec \<times> dec) list"
  ev_metrics :: score
  ev_baseline :: score

record gate =
  ga_reasons :: "string list"
  ga_missing :: "date list"
  ga_evidence :: evidence

record promotion =
  pm_run :: nat
  pm_previous :: "nat option"
  pm_reason :: string
  pm_evidence :: gate

record 'a forecast_db =
  fb_coverage :: "coverage list"
  fb_runs :: "'a model_run list"
  fb_issued :: "issued_forecast list"
  fb_scores :: "forecast_score list"
  fb_deployed :: "nat option"
  fb_promotions :: "promotion list"

record 'a learning =
  le_fit :: "'a fitting"
  le_shape :: "'a fitted \<Rightarrow> bool"

definition engine_version :: string where
  "engine_version = ''regular-monthly-sarima-v2''"


subsection \<open>Coverage\<close>

text \<open>\<^verbatim>\<open>_snapshot\<close>: completed months only, and never a future day.\<close>

definition month_snapshot :: "policy \<Rightarrow> (nat \<Rightarrow> dec option) \<Rightarrow> date \<Rightarrow> date \<Rightarrow> sales_store \<Rightarrow> snapshot res" where
  "month_snapshot policy lt today as_of st =
     (if today < as_of then Inl (ValueError ''as_of must be a business date no later than today.'')
      else Inr (load_snapshot policy lt (first_of_month as_of) st))"

definition valid_coverage :: "snapshot \<Rightarrow> coverage list \<Rightarrow> coverage list" where
  "valid_coverage s rows = filter (\<lambda>c. mc_month c < sn_as_of s \<and> mc_revision c = month_revision s (mc_month c)) rows"

definition covered :: "coverage list \<Rightarrow> date \<Rightarrow> bool" where
  "covered coverage m \<longleftrightarrow> m \<in> mc_month ` set coverage"

definition coverage_revision :: "coverage list \<Rightarrow> coverage_digest" where
  "coverage_revision coverage = map (\<lambda>c. (mc_month c, mc_revision c, mc_zero c)) (sort_key mc_month coverage)"

definition coverage_rows :: "snapshot \<Rightarrow> coverage list \<Rightarrow> (date \<times> dec) list" where
  "coverage_rows s coverage = monthly_rows s (map mc_month (filter mc_zero coverage))"

definition active_reviewer :: "string \<Rightarrow> user list \<Rightarrow> user option" where
  "active_reviewer username users = find (\<lambda>u. us_username u = username \<and> us_role u = ''admin'' \<and> us_active u) users"

definition attest_coverage ::
    "policy \<Rightarrow> (nat \<Rightarrow> dec option) \<Rightarrow> date \<Rightarrow> sales_store \<Rightarrow> date \<Rightarrow> sales_store \<Rightarrow> user list \<Rightarrow> date \<Rightarrow> string \<Rightarrow> string \<Rightarrow> bool \<Rightarrow>
     'a forecast_db \<Rightarrow> ((coverage \<times> bool) \<times> 'a forecast_db) res" where
  "attest_coverage policy lt today st today' st' users month username note confirm_zero db =
     rbind (month_snapshot policy lt today today st) (\<lambda>s.
     if day_of month \<noteq> 1 \<or> sn_as_of s \<le> month
     then Inl (ValueError ''Coverage must refer to a completed month, using its first date.'')
     else if strip note = [] then Inl (ValueError ''A source-reconciliation note is required.'')
     else case active_reviewer username users of
       None \<Rightarrow> Inl (DoesNotExist ''Users'')
     | Some reviewer \<Rightarrow>
         let entries = filter (\<lambda>x. first_of_month (rs_day x) = month) (sn_sales s);
             zero = (\<not> list_ex (\<lambda>x. rs_segment x = ''regular'') entries)
         in if list_ex (\<lambda>x. rs_segment x = ''unclassified'' \<and> rs_revenue x \<noteq> 0) entries
            then Inl (ValueError ''Resolve nonzero unclassified source entries before confirming this month.'')
            else if zero \<and> \<not> confirm_zero
            then Inl (ValueError ''No regular sales observed; --confirm-zero is required to assert a true zero month.'')
            else rbind (month_snapshot policy lt today' today' st') (\<lambda>s'.
              if month_revision s' month \<noteq> month_revision s month
              then Inl (ValueError ''Source changed during coverage review; retry.'')
              else case find (\<lambda>c. mc_month c = month \<and> mc_revision c = month_revision s month) (fb_coverage db) of
                Some c \<Rightarrow> Inr ((c, False), db)
              | None \<Rightarrow>
                  let c = \<lparr>mc_month = month, mc_revision = month_revision s month, mc_zero = zero, mc_by = us_id reviewer,
                           mc_note = strip note\<rparr>
                  in Inr ((c, True), db\<lparr>fb_coverage := fb_coverage db @ [c]\<rparr>)))"


subsection \<open>Scoring\<close>

definition sarima_artifact :: "'a learning \<Rightarrow> 'a fitted \<Rightarrow> bool" where
  "sarima_artifact env a \<longleftrightarrow> fd_name a \<in> set sarima_names \<and> 18 \<le> fd_months a \<and> le_shape env a"

definition prospective_issue :: "'a learning \<Rightarrow> 'a model_run list \<Rightarrow> issued_forecast \<Rightarrow> bool" where
  "prospective_issue env runs i \<longleftrightarrow>
     (case row_get mr_id runs (if_run i) of None \<Rightarrow> False
      | Some run \<Rightarrow>
          day_of (if_target i) = 1 \<and> local_date (if_at i) = if_target i \<and> mr_created run \<le> if_at i \<and>
          mr_cutoff run = if_target i \<and> mr_status run = ''research_candidate'' \<and>
          fi_status (mr_findings run) = ''research_candidate'' \<and>
          mr_through run = Some (month_end (shift_month (if_target i) (- 1))) \<and> mr_engine run = if_engine i \<and>
          (case fi_artifact (mr_findings run) of None \<Rightarrow> False
           | Some a \<Rightarrow> sarima_artifact env a \<and> fi_selected (mr_findings run) = Some (fd_name a) \<and> min_months \<le> fd_months a \<and>
               fi_sha (mr_findings run) = Some a) \<and>
          map_option np_date (fi_next (mr_findings run)) = Some (if_target i))"

definition due_issues :: "snapshot \<Rightarrow> 'a forecast_db \<Rightarrow> issued_forecast list" where
  "due_issues s db = filter (\<lambda>i. if_engine i = engine_version \<and> if_target i < sn_as_of s) (fb_issued db)"

definition score_one :: "snapshot \<Rightarrow> coverage list \<Rightarrow> dec \<Rightarrow> issued_forecast \<Rightarrow> forecast_score list \<Rightarrow> nat \<times> forecast_score list" where
  "score_one s coverage actual i scores =
     (let month = if_target i; revision = month_revision s month; verified = covered coverage month
      in if list_ex (\<lambda>x. fs_issued x = if_id i \<and> fs_revision x = revision \<and> fs_verified x = verified) scores then (0, scores)
         else (1, scores @ [\<lparr>fs_issued = if_id i, fs_revision = revision, fs_verified = verified, fs_actual = actual,
                             fs_error = if_value i - actual, fs_absolute = \<bar>if_value i - actual\<bar>,
                             fs_base_absolute = \<bar>if_baseline i - actual\<bar>\<rparr>]))"

fun score_loop ::
    "'a learning \<Rightarrow> snapshot \<Rightarrow> coverage list \<Rightarrow> 'a forecast_db \<Rightarrow> (date \<times> dec) list \<Rightarrow> issued_forecast list \<Rightarrow>
     forecast_score list \<Rightarrow> nat \<times> forecast_score list" where
  "score_loop env s coverage db months [] scores = (0, scores)"
| "score_loop env s coverage db months (i # rest) scores =
     (case map_of months (if_target i) of
        None \<Rightarrow> score_loop env s coverage db months rest scores
      | Some actual \<Rightarrow>
          if \<not> prospective_issue env (fb_runs db) i \<or> actual < 0 then score_loop env s coverage db months rest scores
          else let (new, scores1) = score_one s coverage actual i scores;
                   (created, scores2) = score_loop env s coverage db months rest scores1
               in (new + created, scores2))"

definition score_issued :: "'a learning \<Rightarrow> snapshot \<Rightarrow> coverage list \<Rightarrow> 'a forecast_db \<Rightarrow> nat \<times> 'a forecast_db" where
  "score_issued env s coverage db =
     (let months = regular_totals (\<lambda>_. True) (map mc_month (filter mc_zero coverage)) s;
          (created, scores) = score_loop env s coverage db months (due_issues s db) (fb_scores db)
      in (created, db\<lparr>fb_scores := scores\<rparr>))"

text \<open>The newest verified score of an issue against the current content of its month.\<close>

definition latest_score :: "snapshot \<Rightarrow> forecast_score list \<Rightarrow> issued_forecast \<Rightarrow> forecast_score option" where
  "latest_score s scores i =
     find (\<lambda>x. fs_issued x = if_id i \<and> fs_verified x \<and> fs_revision x = month_revision s (if_target i)) (rev scores)"

definition evidence_entry :: "snapshot \<Rightarrow> 'a forecast_db \<Rightarrow> issued_forecast \<Rightarrow> (date \<times> dec \<times> dec \<times> dec) option" where
  "evidence_entry s db i = map_option (\<lambda>x. (if_target i, fs_actual x, if_value i, if_baseline i)) (latest_score s (fb_scores db) i)"

definition prospective_evidence :: "'a learning \<Rightarrow> snapshot \<Rightarrow> coverage list \<Rightarrow> 'a forecast_db \<Rightarrow> evidence" where
  "prospective_evidence env s coverage db =
     (let issues = filter (\<lambda>i. covered coverage (if_target i) \<and> prospective_issue env (fb_runs db) i)
                     (sort_key if_target (due_issues s db));
          entries = List.map_filter (evidence_entry s db) issues;
          whole = contiguous entries;
          recent = drop (length whole - 12) whole
      in \<lparr>ev_months = map fst recent, ev_rows = map snd recent,
          ev_metrics = score_of (map (\<lambda>(m, a, p, b). (a, p)) recent),
          ev_baseline = score_of (map (\<lambda>(m, a, p, b). (a, b)) recent)\<rparr>)"

subsection \<open>The quality gate\<close>

definition quality_gate ::
    "'a learning \<Rightarrow> date \<Rightarrow> 'a model_run \<Rightarrow> snapshot \<Rightarrow> coverage list \<Rightarrow> 'a forecast_db \<Rightarrow> gate" where
  "quality_gate env today run s coverage db =
     (let f = mr_findings run;
          evidence = prospective_evidence env s coverage db;
          valid_artifact = (case fi_artifact f of None \<Rightarrow> False | Some a \<Rightarrow> sarima_artifact env a);
          valid_hash = (fi_artifact f \<noteq> None \<and> fi_sha f = fi_artifact f);
          last_months = (case mr_through run of None \<Rightarrow> []
                         | Some d \<Rightarrow> map (\<lambda>n. shift_month (first_of_month d) (- int n)) [0..<12]);
          missing = filter (\<lambda>m. \<not> covered coverage m) last_months;
          metrics = ev_metrics evidence;
          baseline = ev_baseline evidence;
          when = (\<lambda>b r. if b then [r] else []);
          reasons =
            when (fi_status f \<noteq> ''research_candidate'') ''insufficient_or_invalid_training_history'' @
            when (\<not> valid_hash \<or> \<not> valid_artifact) ''missing_or_invalid_fitted_artifact'' @
            when (mr_engine run \<noteq> engine_version \<or> \<not> valid_artifact \<or> fi_selected f \<noteq> map_option fd_name (fi_artifact f))
              ''primary_model_must_be_sarima'' @
            when (map_option np_date (fi_next f) \<noteq> Some (first_of_month today)) ''stale_training_data'' @
            when (missing \<noteq> [] \<or> mr_through run = None) ''unverified_ledger_coverage'' @
            when (fi_gate f \<noteq> (True, True)) ''retrospective_accuracy_gate_failed'' @
            (if sc_periods metrics < 12 then [''needs_12_prospective_reviewed_months'']
             else when (last (ev_months evidence) \<noteq> shift_month (sn_as_of s) (- 1)) ''prospective_evidence_is_stale'' @
                  when (case sc_wape metrics of None \<Rightarrow> True | Some w \<Rightarrow> target_percent \<le> w) ''prospective_error_not_below_15_percent'' @
                  when (case (sc_wape metrics, sc_wape baseline) of (Some w, Some b) \<Rightarrow> b < w | _ \<Rightarrow> True)
                    ''prospective_model_worse_than_baseline'')
      in \<lparr>ga_reasons = reasons, ga_missing = missing, ga_evidence = evidence\<rparr>)"

definition eligible :: "gate \<Rightarrow> bool" where
  "eligible g \<longleftrightarrow> ga_reasons g = []"

definition promote :: "nat \<Rightarrow> gate \<Rightarrow> string \<Rightarrow> 'a forecast_db \<Rightarrow> bool \<times> 'a forecast_db" where
  "promote run gate reason db =
     (if \<not> eligible gate then (False, db)
      else if fb_deployed db = Some run then (False, db)
      else (True, db\<lparr>fb_promotions := fb_promotions db @ [\<lparr>pm_run = run, pm_previous = fb_deployed db, pm_reason = reason, pm_evidence = gate\<rparr>],
                     fb_deployed := Some run\<rparr>))"


subsection \<open>Refreshing and activating\<close>

text \<open>The clock as \<^verbatim>\<open>refresh_models\<close> reads it, in this order.\<close>

record refresh_clock =
  rk_first :: date
  rk_second :: date
  rk_created :: instant
  rk_issue_day :: date
  rk_issued_at :: instant
  rk_gate_day :: date

definition run_lookup :: "snapshot \<Rightarrow> coverage_digest \<Rightarrow> 'a model_run list \<Rightarrow> 'a model_run option" where
  "run_lookup s hash runs =
     find (\<lambda>r. mr_engine r = engine_version \<and> mr_source r = sn_revision s \<and> mr_coverage r = hash \<and> mr_cutoff r = sn_as_of s) (rev runs)"

definition create_run ::
    "instant \<Rightarrow> snapshot \<Rightarrow> coverage_digest \<Rightarrow> 'a findings \<Rightarrow> 'a forecast_db \<Rightarrow> ('a model_run \<times> bool) \<times> 'a forecast_db" where
  "create_run now s hash findings db =
     (case run_lookup s hash (fb_runs db) of
        Some run \<Rightarrow> ((run, False), db)
      | None \<Rightarrow>
          let run = \<lparr>mr_id = new_pk mr_id (fb_runs db), mr_engine = engine_version, mr_source = sn_revision s, mr_coverage = hash,
                     mr_cutoff = sn_as_of s, mr_through = map_option month_end (fi_end findings), mr_status = fi_status findings,
                     mr_findings = findings, mr_created = now\<rparr>
          in ((run, True), db\<lparr>fb_runs := row_ins run (fb_runs db)\<rparr>))"

text \<open>An issue is made at most once per engine and month, within the bounds that the table demands.\<close>

definition create_issue :: "instant \<Rightarrow> 'a model_run \<Rightarrow> date \<Rightarrow> next_point \<Rightarrow> dec \<Rightarrow> 'a forecast_db \<Rightarrow> (bool \<times> 'a forecast_db) res" where
  "create_issue now run target point baseline db =
     (if list_ex (\<lambda>i. if_engine i = engine_version \<and> if_target i = target) (fb_issued db) then Inr (False, db)
      else if \<not> (0 \<le> np_value point \<and> 0 \<le> np_lower point \<and> np_lower point \<le> np_value point \<and> np_value point \<le> np_upper point)
      then Inl IntegrityError
      else Inr (True, db\<lparr>fb_issued := row_ins \<lparr>if_id = new_pk if_id (fb_issued db), if_run = mr_id run, if_engine = engine_version,
                  if_target = target, if_value = np_value point, if_lower = np_lower point, if_upper = np_upper point,
                  if_baseline = baseline, if_at = now\<rparr> (fb_issued db)\<rparr>))"

definition issue_current ::
    "'a learning \<Rightarrow> refresh_clock \<Rightarrow> date \<Rightarrow> snapshot \<Rightarrow> coverage list \<Rightarrow> 'a model_run \<Rightarrow> 'a forecast_db \<Rightarrow>
     (bool \<times> 'a forecast_db) res" where
  "issue_current env ck requested s coverage run db =
     (case fi_next (mr_findings run) of
        Some point \<Rightarrow>
          if mr_status run = ''research_candidate'' \<and> requested = rk_issue_day ck \<and> np_date point = requested
          then if fi_artifact (mr_findings run) \<noteq> fi_sha (mr_findings run) then Inl (ValueError ''Fitted artifact checksum failed.'')
               else (case fi_baseline (mr_findings run) of
                       None \<Rightarrow> Inl (RuntimeError ''selected_baseline'')
                     | Some name \<Rightarrow>
                         (case Option.bind (fit_model (le_fit env) name (coverage_rows s coverage)) (predict_model (le_fit env)) of
                            None \<Rightarrow> Inl (ValueError ''At least twelve finite nonnegative monthly totals are required.'')
                          | Some baseline \<Rightarrow> create_issue (rk_issued_at ck) run requested point baseline db))
          else Inr (False, db)
      | None \<Rightarrow>
          if mr_status run = ''research_candidate'' \<and> requested = rk_issue_day ck then Inl (RuntimeError ''next_month'')
          else Inr (False, db))"

record refresh_result =
  rr_run :: nat
  rr_created :: bool
  rr_scores :: nat
  rr_issued :: bool
  rr_promoted :: bool
  rr_gate :: gate

text \<open>
  The first reads, outside the transaction: the snapshot, its coverage and the run or the findings of a new
  fit. \<open>db\<close> and \<open>st\<close> are what they see.
\<close>

definition prepare_refresh ::
    "'a learning \<Rightarrow> policy \<Rightarrow> (nat \<Rightarrow> dec option) \<Rightarrow> refresh_clock \<Rightarrow> date \<Rightarrow> sales_store \<Rightarrow> 'a forecast_db \<Rightarrow>
     (snapshot \<times> coverage list \<times> ('a model_run + 'a findings)) res" where
  "prepare_refresh env policy lt ck requested st db =
     rbind (month_snapshot policy lt (rk_first ck) requested st) (\<lambda>s.
     let coverage = valid_coverage s (fb_coverage db)
     in case run_lookup s (coverage_revision coverage) (fb_runs db) of
          Some run \<Rightarrow> Inr (s, coverage, Inl run)
        | None \<Rightarrow> rbind (train (le_fit env) (coverage_rows s coverage)) (\<lambda>findings. Inr (s, coverage, Inr findings)))"

definition commit_refresh ::
    "'a learning \<Rightarrow> policy \<Rightarrow> (nat \<Rightarrow> dec option) \<Rightarrow> refresh_clock \<Rightarrow> date \<Rightarrow> sales_store \<Rightarrow>
     snapshot \<times> coverage list \<times> ('a model_run + 'a findings) \<Rightarrow> 'a forecast_db \<Rightarrow> (refresh_result \<times> 'a forecast_db) res" where
  "commit_refresh env policy lt ck requested st plan db =
     (let (s, coverage, fit) = plan; hash = coverage_revision coverage in
      rbind (month_snapshot policy lt (rk_second ck) requested st) (\<lambda>checked.
      if sn_revision checked \<noteq> sn_revision s \<or> coverage_revision (valid_coverage checked (fb_coverage db)) \<noteq> hash
      then Inl (ValueError ''Sales or coverage changed during training; retry without saving an inconsistent model.'')
      else let ((run, created), db1) = (case fit of Inl run \<Rightarrow> ((run, False), db)
                                        | Inr findings \<Rightarrow> create_run (rk_created ck) s hash findings db);
               (scored, db2) = score_issued env s coverage db1
           in rbind (issue_current env ck requested s coverage run db2) (\<lambda>(issued, db3).
              let gate = quality_gate env (rk_gate_day ck) run s coverage db3;
                  (promoted, db4) = promote (mr_id run) gate ''automatic_quality_gate'' db3
              in Inr (\<lparr>rr_run = mr_id run, rr_created = created, rr_scores = scored, rr_issued = issued, rr_promoted = promoted,
                       rr_gate = gate\<rparr>, db4))))"

definition refresh_models ::
    "'a learning \<Rightarrow> policy \<Rightarrow> (nat \<Rightarrow> dec option) \<Rightarrow> refresh_clock \<Rightarrow> date \<Rightarrow> sales_store \<Rightarrow> 'a forecast_db \<Rightarrow> sales_store \<Rightarrow>
     'a forecast_db \<Rightarrow> (refresh_result \<times> 'a forecast_db) res" where
  "refresh_models env policy lt ck requested st db st' db' =
     rbind (prepare_refresh env policy lt ck requested st db) (\<lambda>plan. commit_refresh env policy lt ck requested st' plan db')"

definition activate_model ::
    "'a learning \<Rightarrow> policy \<Rightarrow> (nat \<Rightarrow> dec option) \<Rightarrow> date \<Rightarrow> nat \<Rightarrow> sales_store \<Rightarrow> 'a forecast_db \<Rightarrow> ((nat \<times> bool) \<times> 'a forecast_db) res" where
  "activate_model env policy lt today model st db =
     rbind (month_snapshot policy lt today today st) (\<lambda>s.
     let coverage = valid_coverage s (fb_coverage db)
     in case row_get mr_id (fb_runs db) model of
          None \<Rightarrow> Inl (DoesNotExist ''MonthlyModelRun'')
        | Some run \<Rightarrow>
            if mr_engine run \<noteq> engine_version then Inl (DoesNotExist ''MonthlyModelRun'')
            else if mr_source run \<noteq> sn_revision s \<or> mr_coverage run \<noteq> coverage_revision coverage \<or> mr_cutoff run \<noteq> sn_as_of s
            then Inl (ValueError ''Model source/cutoff/coverage is stale; retrain before activation.'')
            else let gate = quality_gate env today run s coverage db
                 in if \<not> eligible gate
                    then Inl (ValueErrorF ''Activation withheld: {}'' (map FStr (ga_reasons gate)))
                    else let (promoted, db') = promote model gate ''operator_activation_or_rollback'' db
                         in Inr ((model, promoted), db'))"


subsection \<open>All that happens to the tables\<close>

text \<open>
  Rows of runs, issues and scores are only added. What a refresh read before its transaction is an earlier
  state of the tables: its runs are still there.
\<close>

inductive lifecycle_step :: "'a learning \<Rightarrow> 'a forecast_db \<Rightarrow> 'a forecast_db \<Rightarrow> bool" for env where
  attest: "attest_coverage policy lt today st today' st' users month username note zero db = Inr (r, db') \<Longrightarrow>
    lifecycle_step env db db'"
| refresh: "refresh_models env policy lt ck requested st db0 st' db = Inr (r, db') \<Longrightarrow> set (fb_runs db0) \<subseteq> set (fb_runs db) \<Longrightarrow>
    lifecycle_step env db db'"
| activate: "activate_model env policy lt today model st db = Inr (r, db') \<Longrightarrow> lifecycle_step env db db'"

definition empty_forecasts :: "'a forecast_db" where
  "empty_forecasts = \<lparr>fb_coverage = [], fb_runs = [], fb_issued = [], fb_scores = [], fb_deployed = None, fb_promotions = []\<rparr>"

inductive lifecycle_reachable :: "'a learning \<Rightarrow> 'a forecast_db \<Rightarrow> bool" for env where
  empty: "lifecycle_reachable env empty_forecasts"
| step: "lifecycle_reachable env db \<Longrightarrow> lifecycle_step env db db' \<Longrightarrow> lifecycle_reachable env db'"

subsection \<open>What an open gate means\<close>

lemma map_filter_source:
  "\<exists>xs'. set xs' \<subseteq> set xs \<and> map f xs' = map Some (List.map_filter f xs)"
proof (intro exI conjI)
  show "set (filter (\<lambda>x. f x \<noteq> None) xs) \<subseteq> set xs" by auto
  show "map f (filter (\<lambda>x. f x \<noteq> None) xs) = map Some (List.map_filter f xs)"
    by (induction xs) (auto simp: List.map_filter_def)
qed

lemma gap_free_suffix: "gap_free (xs @ ys) \<Longrightarrow> gap_free ys"
proof (induction xs)
  case (Cons a xs)
  then show ?case by (cases "xs @ ys") (auto simp: gap_free_def)
qed simp

lemma gap_free_nth:
  assumes "gap_free xs" "Suc k < length xs"
  shows "fst (xs ! Suc k) = shift_month (fst (xs ! k)) 1"
proof -
  have "\<forall>i < length (zip xs (tl xs)). shift_month (fst (fst (zip xs (tl xs) ! i))) 1 = fst (snd (zip xs (tl xs) ! i))"
    using assms(1) by (auto simp: gap_free_def list_all_length case_prod_beta)
  from this[rule_format, of k] assms(2) show ?thesis by (simp add: nth_tl)
qed

text \<open>A gap-free list of months counts back from its last month.\<close>

lemma gap_free_back:
  assumes "gap_free xs" "xs \<noteq> []" "fst (last xs) = shift_month m (- 1)" "\<forall>x \<in> set xs. day_of (fst x) = 1" "k < length xs"
  shows "fst (xs ! k) = shift_month m (int k - int (length xs))"
  using assms(5)
proof (induction "length xs - Suc k" arbitrary: k)
  case 0
  then have k: "k = length xs - 1" using assms(2) by (simp add: Suc_leI le_antisym)
  then have "fst (xs ! k) = shift_month m (- 1)" using assms(2,3) by (simp add: last_conv_nth)
  moreover have "int k - int (length xs) = - 1" using k assms(2) by (cases xs) auto
  ultimately show ?case by simp
next
  case (Suc j)
  then have k: "Suc k < length xs" by simp
  have "fst (xs ! Suc k) = shift_month m (int (Suc k) - int (length xs))" by (rule Suc.hyps(1)) (use Suc k in auto)
  then have "month_index (fst (xs ! k)) + 1 = month_index m + (int (Suc k) - int (length xs))"
    using gap_free_nth[OF assms(1) k] shift_month_fields(2)[of "fst (xs ! k)" 1] shift_month_fields(2)[of m "int (Suc k) - int (length xs)"]
    by simp
  moreover have "day_of (fst (xs ! k)) = 1" using assms(4) Suc.prems by simp
  ultimately show ?case by (simp add: shift_month_iff)
qed

definition evidence_for :: "'a learning \<Rightarrow> snapshot \<Rightarrow> coverage list \<Rightarrow> 'a forecast_db \<Rightarrow> issued_forecast \<times> forecast_score \<Rightarrow> bool" where
  "evidence_for env s coverage db ix \<longleftrightarrow>
     (let (i, x) = ix
      in i \<in> set (fb_issued db) \<and> if_engine i = engine_version \<and> prospective_issue env (fb_runs db) i \<and> covered coverage (if_target i) \<and>
         x \<in> set (fb_scores db) \<and> fs_issued x = if_id i \<and> fs_verified x \<and> fs_revision x = month_revision s (if_target i))"

lemma latest_score_mem:
  assumes "latest_score s scores i = Some x"
  shows "x \<in> set scores \<and> fs_issued x = if_id i \<and> fs_verified x \<and> fs_revision x = month_revision s (if_target i)"
  using assms by (auto simp: latest_score_def find_Some_iff in_set_conv_nth rev_nth intro!: exI[of _ "length scores - Suc _"])

text \<open>The rows of the evidence come from issues with their scores.\<close>

lemma evidence_source:
  assumes e_def: "e = prospective_evidence env s coverage db"
  shows "\<exists>ev. list_all (evidence_for env s coverage db) ev \<and> ev_months e = map (\<lambda>(i, x). if_target i) ev \<and>
    ev_metrics e = score_of (map (\<lambda>(i, x). (fs_actual x, if_value i)) ev) \<and>
    ev_baseline e = score_of (map (\<lambda>(i, x). (fs_actual x, if_baseline i)) ev) \<and> length ev \<le> 12 \<and>
    gap_free (map (\<lambda>(i, x). (if_target i, x)) ev)"
proof -
  define issues where "issues = filter (\<lambda>i. covered coverage (if_target i) \<and> prospective_issue env (fb_runs db) i)
    (sort_key if_target (due_issues s db))"
  define entries where "entries = List.map_filter (evidence_entry s db) issues"
  define whole where "whole = contiguous entries"
  define recent where "recent = drop (length whole - 12) whole"
  have e: "ev_months e = map fst recent" "ev_metrics e = score_of (map (\<lambda>(m, a, p, b). (a, p)) recent)"
    "ev_baseline e = score_of (map (\<lambda>(m, a, p, b). (a, b)) recent)"
    by (simp_all add: e_def prospective_evidence_def Let_def issues_def[symmetric] entries_def[symmetric] whole_def[symmetric]
        recent_def[symmetric])
  obtain xs where xs: "set xs \<subseteq> set issues" "map (evidence_entry s db) xs = map Some entries"
    using map_filter_source[of issues "evidence_entry s db"] entries_def by blast
  obtain pre where pre: "entries = pre @ whole" using contiguous_suffix[of entries] whole_def by blast
  define n where "n = length pre + (length whole - 12)"
  have recent: "recent = drop n entries" by (simp add: recent_def pre n_def)
  define is1 where "is1 = drop n xs"
  have is1: "set is1 \<subseteq> set issues" "map (evidence_entry s db) is1 = map Some recent"
    using xs set_drop_subset[of n xs] by (auto simp: is1_def recent drop_map simp flip: drop_map)
  define ev where "ev = map (\<lambda>i. (i, the (latest_score s (fb_scores db) i))) is1"
  have score: "latest_score s (fb_scores db) (fst p) = Some (snd p)" if "p \<in> set ev" for p
  proof -
    from that obtain i where i: "i \<in> set is1" "p = (i, the (latest_score s (fb_scores db) i))" by (auto simp: ev_def)
    then have "evidence_entry s db i \<in> set (map Some recent)" unfolding is1(2)[symmetric] by simp
    then have "evidence_entry s db i \<noteq> None" by auto
    then show ?thesis using i(2) by (auto simp: evidence_entry_def)
  qed
  have rec: "recent = map (\<lambda>(i, x). (if_target i, fs_actual x, if_value i, if_baseline i)) ev"
  proof -
    have "map Some recent = map (\<lambda>p. Some (case p of (i, x) \<Rightarrow> (if_target i, fs_actual x, if_value i, if_baseline i))) ev"
    proof -
      have "map (evidence_entry s db) is1 = map (\<lambda>p. evidence_entry s db (fst p)) ev" by (simp add: ev_def)
      also have "\<dots> = map (\<lambda>p. Some (case p of (i, x) \<Rightarrow> (if_target i, fs_actual x, if_value i, if_baseline i))) ev"
        using score by (intro map_cong refl) (auto simp: evidence_entry_def case_prod_beta)
      finally show ?thesis using is1(2) by simp
    qed
    then have "map the (map Some recent) = map the (map (\<lambda>p. Some (case p of (i, x) \<Rightarrow> (if_target i, fs_actual x, if_value i, if_baseline i))) ev)"
      by (rule arg_cong)
    then show ?thesis by (simp add: comp_def)
  qed
  have ok: "list_all (evidence_for env s coverage db) ev"
    unfolding list_all_iff
  proof
    fix p assume p: "p \<in> set ev"
    then have "fst p \<in> set issues" using is1(1) by (auto simp: ev_def)
    then show "evidence_for env s coverage db p"
      using latest_score_mem[OF score[OF p]] by (auto simp: evidence_for_def issues_def due_issues_def case_prod_beta)
  qed
  have gf: "gap_free recent"
    unfolding recent_def by (rule gap_free_suffix[of "take (length whole - 12) whole"])
      (simp add: whole_def contiguous_gap_free)
  have "gap_free (map (\<lambda>(i, x). (if_target i, x)) ev)"
    using gf unfolding rec gap_free_def list_all_length by (auto simp: case_prod_beta nth_tl)
  moreover have "length recent \<le> 12" by (simp add: recent_def)
  then have "length ev \<le> 12" unfolding rec by simp
  ultimately show ?thesis
    using ok by (intro exI[of _ ev]) (simp add: e rec split_def comp_def)
qed

lemma evidence_day: "evidence_for env s coverage db ix \<Longrightarrow> day_of (if_target (fst ix)) = 1"
  by (cases "row_get mr_id (fb_runs db) (if_run (fst ix))") (auto simp: evidence_for_def prospective_issue_def case_prod_beta)

lemma when_nil: "(if b then [r] else []) = [] \<longleftrightarrow> \<not> b"
  by simp

text \<open>
  C13: What an open gate means. A run passes the quality gate only if it is a research candidate of the current
  engine with an intact seasonal artifact under its own name, predicts the month of the day, passed the
  retrospective gate, and its last twelve training months are attested; and there are twelve forecasts, one
  for each of the twelve completed months before the snapshot, each issued on the first day of its month by a
  run that knew only the months before, each scored against the attested present content of its month, whose
  error is below 15 percent and no larger than the baseline's.
\<close>

theorem open_gate_evidence:
  assumes "eligible (quality_gate env today run s coverage db)"
  shows "(\<exists>a d. fi_artifact (mr_findings run) = Some a \<and> sarima_artifact env a \<and> fi_sha (mr_findings run) = Some a \<and>
      fi_selected (mr_findings run) = Some (fd_name a) \<and> fi_status (mr_findings run) = ''research_candidate'' \<and>
      mr_engine run = engine_version \<and> map_option np_date (fi_next (mr_findings run)) = Some (first_of_month today) \<and>
      fi_gate (mr_findings run) = (True, True) \<and> mr_through run = Some d \<and>
      (\<forall>n < 12. covered coverage (shift_month (first_of_month d) (- int n)))) \<and>
    (\<exists>ev w b. length ev = 12 \<and> list_all (evidence_for env s coverage db) ev \<and>
      (\<forall>k < 12. if_target (fst (ev ! k)) = shift_month (sn_as_of s) (int k - 12)) \<and>
      sc_wape (score_of (map (\<lambda>(i, x). (fs_actual x, if_value i)) ev)) = Some w \<and> w < target_percent \<and>
      sc_wape (score_of (map (\<lambda>(i, x). (fs_actual x, if_baseline i)) ev)) = Some b \<and> w \<le> b)"
proof -
  define e where "e = prospective_evidence env s coverage db"
  note g = assms[unfolded eligible_def quality_gate_def Let_def e_def[symmetric] gate.simps append_is_Nil_conv when_nil]
  have few: "\<not> sc_periods (ev_metrics e) < 12"
  proof
    assume "sc_periods (ev_metrics e) < 12"
    with g show False by (simp only: if_True) simp
  qed
  note m = g[unfolded if_not_P[OF few] append_is_Nil_conv when_nil]
  obtain a where a: "fi_artifact (mr_findings run) = Some a" "sarima_artifact env a" "fi_sha (mr_findings run) = Some a"
    using m by (cases "fi_artifact (mr_findings run)") auto
  obtain d where d: "mr_through run = Some d" using m by blast
  have cov: "covered coverage (shift_month (first_of_month d) (- int n))" if "n < 12" for n
  proof -
    have "filter (\<lambda>m. \<not> covered coverage m) (map (\<lambda>n. shift_month (first_of_month d) (- int n)) [0..<12]) = []"
      using m unfolding d option.case by blast
    then show ?thesis using that by (auto simp: filter_empty_conv)
  qed
  have first: "\<exists>a d. fi_artifact (mr_findings run) = Some a \<and> sarima_artifact env a \<and> fi_sha (mr_findings run) = Some a \<and>
      fi_selected (mr_findings run) = Some (fd_name a) \<and> fi_status (mr_findings run) = ''research_candidate'' \<and>
      mr_engine run = engine_version \<and> map_option np_date (fi_next (mr_findings run)) = Some (first_of_month today) \<and>
      fi_gate (mr_findings run) = (True, True) \<and> mr_through run = Some d \<and>
      (\<forall>n < 12. covered coverage (shift_month (first_of_month d) (- int n)))"
    using m a d cov by (intro exI[of _ a] exI[of _ d]) simp
  obtain ev where ev: "list_all (evidence_for env s coverage db) ev" "ev_months e = map (\<lambda>(i, x). if_target i) ev"
    "ev_metrics e = score_of (map (\<lambda>(i, x). (fs_actual x, if_value i)) ev)"
    "ev_baseline e = score_of (map (\<lambda>(i, x). (fs_actual x, if_baseline i)) ev)" "length ev \<le> 12"
    "gap_free (map (\<lambda>(i, x). (if_target i, x)) ev)"
    using evidence_source[OF e_def] by blast
  have len: "length ev = 12" using few ev(3,5) by (simp add: score_of_def Let_def)
  let ?xs = "map (\<lambda>(i, x). (if_target i, x)) ev"
  have last: "fst (last ?xs) = shift_month (sn_as_of s) (- 1)"
  proof -
    have "last (ev_months e) = shift_month (sn_as_of s) (- 1)" using m by blast
    moreover have "ev_months e = map fst ?xs" by (simp add: ev(2) case_prod_beta comp_def)
    moreover have "?xs \<noteq> []" using len by auto
    ultimately show ?thesis by (metis last_map)
  qed
  have days: "\<forall>x \<in> set ?xs. day_of (fst x) = 1"
    using ev(1) evidence_day unfolding list_all_iff by fastforce
  have months: "if_target (fst (ev ! k)) = shift_month (sn_as_of s) (int k - 12)" if "k < 12" for k
    using gap_free_back[OF ev(6) _ last days, of k] that len by (cases "ev = []") (auto simp: case_prod_beta)
  obtain w b where w: "sc_wape (ev_metrics e) = Some w" "w < target_percent" "sc_wape (ev_baseline e) = Some b" "w \<le> b"
    using m by (cases "sc_wape (ev_metrics e)"; cases "sc_wape (ev_baseline e)") (auto simp: not_le not_less)
  show ?thesis using first ev(1) len months w unfolding ev(3,4) by blast
qed

subsection \<open>Rows are only added\<close>

definition extends :: "'a forecast_db \<Rightarrow> 'a forecast_db \<Rightarrow> bool" where
  "extends db db' \<longleftrightarrow>
     (\<exists>c r i s p. fb_coverage db' = fb_coverage db @ c \<and> fb_runs db' = fb_runs db @ r \<and> fb_issued db' = fb_issued db @ i \<and>
        fb_scores db' = fb_scores db @ s \<and> fb_promotions db' = fb_promotions db @ p)"

lemma extends_refl [simp]: "extends db db"
  by (auto simp: extends_def)

lemma extends_trans: "extends a b \<Longrightarrow> extends b c \<Longrightarrow> extends a c"
  unfolding extends_def by (metis append.assoc)

lemma extends_memb:
  assumes "extends db db'"
  shows "set (fb_runs db) \<subseteq> set (fb_runs db')" "set (fb_issued db) \<subseteq> set (fb_issued db')" "set (fb_scores db) \<subseteq> set (fb_scores db')"
  using assms by (auto simp: extends_def)

text \<open>A score says what it was made from.\<close>

definition score_ok :: "issued_forecast list \<Rightarrow> forecast_score \<Rightarrow> bool" where
  "score_ok issues x \<longleftrightarrow> (\<exists>i \<in> set issues. fs_issued x = if_id i \<and> fs_error x = if_value i - fs_actual x \<and>
     fs_absolute x = \<bar>fs_error x\<bar> \<and> fs_base_absolute x = \<bar>if_baseline i - fs_actual x\<bar> \<and> 0 \<le> fs_actual x)"

definition score_key :: "forecast_score \<Rightarrow> nat \<times> month_content \<times> bool" where
  "score_key x = (fs_issued x, fs_revision x, fs_verified x)"

lemma score_one_adds:
  assumes "score_one s coverage actual i scores = (n, scores')" "0 \<le> actual" "i \<in> set issues" "distinct (map score_key scores)"
  shows "\<exists>new. scores' = scores @ new \<and> length new = n \<and> list_all (score_ok issues) new \<and> distinct (map score_key scores')"
proof (cases "list_ex (\<lambda>x. fs_issued x = if_id i \<and> fs_revision x = month_revision s (if_target i) \<and>
    fs_verified x = covered coverage (if_target i)) scores")
  case True
  with assms show ?thesis by (auto simp: score_one_def)
next
  case False
  then have "score_key x \<noteq> (if_id i, month_revision s (if_target i), covered coverage (if_target i))" if "x \<in> set scores" for x
    using that by (auto simp: list_ex_iff score_key_def)
  with assms False show ?thesis by (auto simp: score_one_def Let_def score_ok_def score_key_def)
qed

lemma score_loop_adds:
  assumes "score_loop env s coverage db months rest scores = (n, scores')" "set rest \<subseteq> set issues" "distinct (map score_key scores)"
  shows "\<exists>new. scores' = scores @ new \<and> length new = n \<and> list_all (score_ok issues) new \<and> distinct (map score_key scores')"
  using assms
proof (induction rest arbitrary: scores n)
  case (Cons i rest)
  show ?case
  proof (cases "map_of months (if_target i)")
    case None
    with Cons show ?thesis by auto
  next
    case (Some actual)
    show ?thesis
    proof (cases "\<not> prospective_issue env (fb_runs db) i \<or> actual < 0")
      case True
      with Some Cons show ?thesis by auto
    next
      case False
      obtain m scores1 where one: "score_one s coverage actual i scores = (m, scores1)" by fastforce
      obtain k where k: "score_loop env s coverage db months rest scores1 = (k, scores')" "n = m + k"
        using Cons.prems(1) Some False one by (auto split: prod.splits)
      from score_one_adds[OF one, of issues] False Cons.prems obtain new where
        new: "scores1 = scores @ new" "length new = m" "list_all (score_ok issues) new" "distinct (map score_key scores1)" by auto
      from Cons.IH[OF k(1)] new(4) Cons.prems(2) obtain new2 where
        "scores' = scores1 @ new2" "length new2 = k" "list_all (score_ok issues) new2" "distinct (map score_key scores')" by auto
      with new k(2) show ?thesis by (intro exI[of _ "new @ new2"]) auto
    qed
  qed
qed auto

text \<open>The invariant of the tables.\<close>

definition issue_ok :: "issued_forecast \<Rightarrow> bool" where
  "issue_ok i \<longleftrightarrow> if_engine i = engine_version \<and> 0 \<le> if_lower i \<and> if_lower i \<le> if_value i \<and> if_value i \<le> if_upper i"

fun trail_ok :: "nat option \<Rightarrow> promotion list \<Rightarrow> nat option \<Rightarrow> bool" where
  "trail_ok previous [] deployed = (previous = deployed)"
| "trail_ok previous (p # ps) deployed =
     (pm_previous p = previous \<and> previous \<noteq> Some (pm_run p) \<and> eligible (pm_evidence p) \<and> trail_ok (Some (pm_run p)) ps deployed)"

definition lifecycle_ok :: "'a forecast_db \<Rightarrow> bool" where
  "lifecycle_ok db \<longleftrightarrow> keys_ok mr_id (fb_runs db) \<and> list_all issue_ok (fb_issued db) \<and> keys_ok if_id (fb_issued db) \<and>
     distinct (map if_target (fb_issued db)) \<and> list_all (score_ok (fb_issued db)) (fb_scores db) \<and>
     distinct (map score_key (fb_scores db)) \<and> trail_ok None (fb_promotions db) (fb_deployed db) \<and>
     list_all (\<lambda>p. pm_run p \<in> mr_id ` set (fb_runs db)) (fb_promotions db) \<and>
     distinct (map (\<lambda>c. (mc_month c, mc_revision c)) (fb_coverage db))"

lemma trail_snoc: "trail_ok a (ps @ [p]) d \<longleftrightarrow>
    (\<exists>m. trail_ok a ps m \<and> pm_previous p = m \<and> m \<noteq> Some (pm_run p) \<and> eligible (pm_evidence p) \<and> d = Some (pm_run p))"
  by (induction ps arbitrary: a) auto

lemma score_ok_mono: "score_ok issues x \<Longrightarrow> set issues \<subseteq> set issues' \<Longrightarrow> score_ok issues' x"
  by (auto simp: score_ok_def)

lemma promote_ok:
  assumes "lifecycle_ok db" "run \<in> mr_id ` set (fb_runs db)" "promote run g reason db = (b, db')"
  shows "lifecycle_ok db' \<and> extends db db'"
proof (cases "eligible g \<and> fb_deployed db \<noteq> Some run")
  case True
  then have "db' = db\<lparr>fb_promotions := fb_promotions db @ [\<lparr>pm_run = run, pm_previous = fb_deployed db, pm_reason = reason,
      pm_evidence = g\<rparr>], fb_deployed := Some run\<rparr>"
    using assms(3) by (auto simp: promote_def)
  with True assms(1,2) show ?thesis by (auto simp: lifecycle_ok_def trail_snoc extends_def)
next
  case False
  with assms show ?thesis by (auto simp: promote_def split: if_splits)
qed

lemma create_run_ok:
  assumes "lifecycle_ok db" "create_run now s hash f db = ((run, new), db')"
  shows "lifecycle_ok db' \<and> extends db db' \<and> run \<in> set (fb_runs db')"
proof (cases "run_lookup s hash (fb_runs db)")
  case None
  have "new_pk mr_id (fb_runs db) \<notin> mr_id ` set (fb_runs db)" using new_pk_greater[of _ "fb_runs db" mr_id] by force
  with None assms show ?thesis
    by (auto simp: create_run_def Let_def lifecycle_ok_def extends_def row_ins_def keys_ok_def list_all_iff)
next
  case (Some r)
  then have "r \<in> set (fb_runs db)" by (auto simp: run_lookup_def find_Some_iff) (metis nth_mem set_rev length_rev)
  with Some assms show ?thesis by (auto simp: create_run_def)
qed

lemma score_issued_ok:
  assumes "lifecycle_ok db" "score_issued env s coverage db = (n, db')"
  shows "lifecycle_ok db' \<and> extends db db' \<and> fb_runs db' = fb_runs db"
proof -
  obtain scores where l: "score_loop env s coverage db (regular_totals (\<lambda>_. True) (map mc_month (filter mc_zero coverage)) s)
      (due_issues s db) (fb_scores db) = (n, scores)" and db': "db' = db\<lparr>fb_scores := scores\<rparr>"
    using assms(2) by (auto simp: score_issued_def Let_def split: prod.splits)
  have "set (due_issues s db) \<subseteq> set (fb_issued db)" by (auto simp: due_issues_def)
  from score_loop_adds[OF l this] assms(1) obtain new where
    "scores = fb_scores db @ new" "list_all (score_ok (fb_issued db)) new" "distinct (map score_key scores)"
    by (auto simp: lifecycle_ok_def)
  with assms(1) show ?thesis by (auto simp: db' lifecycle_ok_def extends_def)
qed

lemma create_issue_ok:
  assumes "lifecycle_ok db" "create_issue now run target point baseline db = Inr (b, db')"
  shows "lifecycle_ok db' \<and> extends db db' \<and> fb_runs db' = fb_runs db"
proof (cases "list_ex (\<lambda>i. if_engine i = engine_version \<and> if_target i = target) (fb_issued db)")
  case True
  with assms show ?thesis by (auto simp: create_issue_def)
next
  case False
  let ?i = "\<lparr>if_id = new_pk if_id (fb_issued db), if_run = mr_id run, if_engine = engine_version, if_target = target,
    if_value = np_value point, if_lower = np_lower point, if_upper = np_upper point, if_baseline = baseline, if_at = now\<rparr>"
  have db': "db' = db\<lparr>fb_issued := fb_issued db @ [?i]\<rparr>" and ok: "issue_ok ?i"
    using assms(2) False by (auto simp: create_issue_def row_ins_def issue_ok_def split: if_splits)
  have fresh: "if_id ?i \<notin> if_id ` set (fb_issued db)" using new_pk_greater[of _ "fb_issued db" if_id] by force
  have "target \<notin> if_target ` set (fb_issued db)"
    using False assms(1) by (auto simp: lifecycle_ok_def list_all_iff list_ex_iff issue_ok_def)
  moreover have "list_all (score_ok (fb_issued db @ [?i])) (fb_scores db)"
    using assms(1) unfolding lifecycle_ok_def list_all_iff by (auto intro: score_ok_mono)
  ultimately show ?thesis
    using assms(1) ok fresh unfolding db' by (auto simp: lifecycle_ok_def extends_def keys_ok_def)
qed

lemma issue_current_ok:
  assumes "lifecycle_ok db" "issue_current env ck requested s coverage run db = Inr (b, db')"
  shows "lifecycle_ok db' \<and> extends db db' \<and> fb_runs db' = fb_runs db"
  using assms create_issue_ok[OF assms(1)]
  by (auto simp: issue_current_def split: option.splits if_splits)

lemma commit_refresh_ok:
  assumes "lifecycle_ok db" "commit_refresh env policy lt ck requested st (s, coverage, fit) db = Inr (r, db')"
    and "\<And>run. fit = Inl run \<Longrightarrow> run \<in> set (fb_runs db)"
  shows "lifecycle_ok db' \<and> extends db db'"
proof -
  let ?hash = "coverage_revision coverage"
  obtain run created db1 where fit: "(case fit of Inl run \<Rightarrow> ((run, False), db)
      | Inr findings \<Rightarrow> create_run (rk_created ck) s ?hash findings db) = ((run, created), db1)" by (metis prod.collapse)
  obtain n db2 where sc: "score_issued env s coverage db1 = (n, db2)" by fastforce
  obtain issued db3 where iss: "issue_current env ck requested s coverage run db2 = Inr (issued, db3)"
    using assms(2) fit sc by (auto simp: commit_refresh_def Let_def split: if_splits)
  obtain b where pr: "promote (mr_id run) (quality_gate env (rk_gate_day ck) run s coverage db3) ''automatic_quality_gate'' db3 = (b, db')"
    using assms(2) fit sc iss by (auto simp: commit_refresh_def Let_def split: if_splits prod.splits)
  have 1: "lifecycle_ok db1 \<and> extends db db1 \<and> run \<in> set (fb_runs db1)"
    using fit assms(1,3) create_run_ok[OF assms(1)] by (cases fit) auto
  from 1 score_issued_ok[OF _ sc] have 2: "lifecycle_ok db2" "extends db1 db2" "fb_runs db2 = fb_runs db1" by auto
  from issue_current_ok[OF 2(1) iss] have 3: "lifecycle_ok db3" "extends db2 db3" "fb_runs db3 = fb_runs db2" by auto
  have "mr_id run \<in> mr_id ` set (fb_runs db3)" using 1 2(3) 3(3) by simp
  from promote_ok[OF 3(1) this pr] 1 2(2) 3(2) show ?thesis by (meson extends_trans)
qed

lemma attest_ok:
  assumes "lifecycle_ok db" "attest_coverage policy lt today st today' st' users month username note zero db = Inr (r, db')"
  shows "lifecycle_ok db' \<and> extends db db'"
proof -
  obtain s where s: "month_snapshot policy lt today today st = Inr s" using assms(2) by (auto simp: attest_coverage_def)
  have "db' = db \<or> (\<exists>c. db' = db\<lparr>fb_coverage := fb_coverage db @ [c]\<rparr> \<and> mc_month c = month \<and>
      mc_revision c = month_revision s month \<and>
      find (\<lambda>c. mc_month c = month \<and> mc_revision c = month_revision s month) (fb_coverage db) = None)"
    using assms(2) by (auto simp: attest_coverage_def s Let_def split: if_splits option.splits)
  with assms(1) show ?thesis by (auto simp: lifecycle_ok_def extends_def find_None_iff) metis
qed

lemma activate_ok:
  assumes "lifecycle_ok db" "activate_model env policy lt today model st db = Inr (r, db')"
  shows "lifecycle_ok db' \<and> extends db db'"
proof -
  obtain s where s: "month_snapshot policy lt today today st = Inr s" using assms(2) by (auto simp: activate_model_def)
  obtain run where run: "row_get mr_id (fb_runs db) model = Some run"
    using assms(2) s by (cases "row_get mr_id (fb_runs db) model") (auto simp: activate_model_def Let_def)
  obtain g b where p: "promote model g ''operator_activation_or_rollback'' db = (b, db')"
    using assms(2) by (auto simp: activate_model_def s run Let_def split: if_splits prod.splits)
  have "model \<in> mr_id ` set (fb_runs db)" using run assms(1) by (force simp: lifecycle_ok_def row_get_iff)
  from promote_ok[OF assms(1) this p] show ?thesis .
qed

lemma refresh_ok:
  assumes "lifecycle_ok db" "refresh_models env policy lt ck requested st db0 st' db = Inr (r, db')" "set (fb_runs db0) \<subseteq> set (fb_runs db)"
  shows "lifecycle_ok db' \<and> extends db db'"
proof -
  obtain s coverage fit where plan: "prepare_refresh env policy lt ck requested st db0 = Inr (s, coverage, fit)"
    and commit: "commit_refresh env policy lt ck requested st' (s, coverage, fit) db = Inr (r, db')"
    using assms(2) by (auto simp: refresh_models_def)
  have "run \<in> set (fb_runs db)" if "fit = Inl run" for run
  proof -
    have "run_lookup s (coverage_revision coverage) (fb_runs db0) = Some run"
      using plan that by (auto simp: prepare_refresh_def Let_def split: option.splits)
    then have "run \<in> set (fb_runs db0)" by (auto simp: run_lookup_def find_Some_iff) (metis nth_mem set_rev length_rev)
    then show ?thesis using assms(3) by blast
  qed
  from commit_refresh_ok[OF assms(1) commit this] show ?thesis .
qed

lemma lifecycle_step_ok: "lifecycle_step env db db' \<Longrightarrow> lifecycle_ok db \<Longrightarrow> lifecycle_ok db' \<and> extends db db'"
  by (induction rule: lifecycle_step.induct) (blast dest: attest_ok refresh_ok activate_ok)+

lemma reachable_lifecycle_ok: "lifecycle_reachable env db \<Longrightarrow> lifecycle_ok db"
  by (induction rule: lifecycle_reachable.induct)
    (auto dest: lifecycle_step_ok simp: lifecycle_ok_def empty_forecasts_def keys_ok_def)

lemma trail_last: "trail_ok a ps d \<Longrightarrow> ps \<noteq> [] \<Longrightarrow> d = Some (pm_run (last ps)) \<and> eligible (pm_evidence (last ps))"
  by (induction ps arbitrary: a) (auto split: if_splits)

text \<open>
  C14: The record of the monthly models. Whatever attestations, refreshes, activations and rollbacks happen, in
  whatever order and with whatever reads in between, nothing that was attested, fitted, issued, scored or
  promoted is ever changed or lost; there is one issued forecast per month, within its bounds; a score is the
  difference of an issued value and an actual that is not negative, kept once per content of the month; and
  the deployed model is the one of the last promotion, which had passed the quality gate.
\<close>

theorem deployment_gated:
  assumes "lifecycle_reachable env db" "lifecycle_step env db db'"
  shows "extends db db' \<and> list_all issue_ok (fb_issued db') \<and> distinct (map if_target (fb_issued db')) \<and>
    list_all (score_ok (fb_issued db')) (fb_scores db') \<and> distinct (map score_key (fb_scores db')) \<and>
    trail_ok None (fb_promotions db') (fb_deployed db') \<and>
    (\<forall>r. fb_deployed db' = Some r \<longrightarrow>
      fb_promotions db' \<noteq> [] \<and> pm_run (last (fb_promotions db')) = r \<and> eligible (pm_evidence (last (fb_promotions db'))))"
proof -
  have ok: "lifecycle_ok db'" "extends db db'"
    using lifecycle_step_ok[OF assms(2) reachable_lifecycle_ok[OF assms(1)]] by auto
  have "fb_promotions db' \<noteq> [] \<and> pm_run (last (fb_promotions db')) = r \<and> eligible (pm_evidence (last (fb_promotions db')))"
    if "fb_deployed db' = Some r" for r
  proof -
    have t: "trail_ok None (fb_promotions db') (Some r)" using ok(1) that by (simp add: lifecycle_ok_def)
    then have "fb_promotions db' \<noteq> []" by (cases "fb_promotions db'") auto
    with trail_last[OF t] show ?thesis by simp
  qed
  with ok show ?thesis by (simp add: lifecycle_ok_def)
qed

text \<open>An admin attests a month without sales.\<close>

definition demo_reviewer :: user where
  "demo_reviewer = \<lparr>us_id = 1, us_username = ''ana'', us_email = ''a@b.c'', us_password = '''', us_role = ''admin'', us_active = True,
     us_first = '''', us_last = '''', us_phone = None, us_address = None, us_reason = '''', us_failed = 0, us_locked = None,
     us_profile_at = None, us_password_at = None, us_version = 0\<rparr>"

definition demo_learning :: "dec learning" where
  "demo_learning = \<lparr>le_fit = demo_fitting, le_shape = (\<lambda>_. True)\<rparr>"

definition demo_attested :: "dec forecast_db" where
  "demo_attested = empty_forecasts\<lparr>fb_coverage := [\<lparr>mc_month = month_number 24300, mc_revision = [], mc_zero = True, mc_by = 1,
     mc_note = ''checked''\<rparr>]\<rparr>"

lemma month_number_fields: "day_of (month_number n) = 1" "month_index (month_number n) = n" "first_of_month (month_number n) = month_number n"
proof -
  have v: "valid_ymd (n div 12) (n mod 12 + 1) 1" by (auto simp: valid_ymd_def days_in_month_def)
  show d: "day_of (month_number n) = 1" unfolding month_number_def by (rule day_of_mk_date[OF v])
  show "month_index (month_number n) = n"
    unfolding month_number_def month_index_def year_of_mk_date[OF v] month_of_mk_date[OF v] by simp
  show "first_of_month (month_number n) = month_number n"
    using mk_date_of[of "month_number n"] d by (simp add: first_of_month_def)
qed

lemma demo_attest: "\<exists>r. attest_coverage [] (\<lambda>_. None) (month_number 24301) demo_sales (month_number 24301) demo_sales [demo_reviewer]
    (month_number 24300) ''ana'' ''checked'' True empty_forecasts = Inr (r, demo_attested)"
proof -
  have "month_number 24300 < month_number 24301" by code_simp
  moreover have "strip ''checked'' = ''checked''" by code_simp
  moreover have "load_snapshot [] (\<lambda>_. None) d demo_sales = \<lparr>sn_as_of = d, sn_policy = [], sn_dropped = [], sn_sales = [], sn_demo = 0\<rparr>" for d
    by (simp add: load_snapshot_def load_source_def make_snapshot_def demo_sales_def)
  ultimately show ?thesis
    by (simp add: attest_coverage_def month_snapshot_def month_number_fields active_reviewer_def demo_reviewer_def month_revision_def
        empty_forecasts_def demo_attested_def Let_def) blast
qed

theorem deployment_gated_witness:
  "extends empty_forecasts demo_attested \<and> trail_ok None (fb_promotions demo_attested) (fb_deployed demo_attested) \<and>
   length (fb_coverage demo_attested) = 1"
proof -
  obtain r where "attest_coverage [] (\<lambda>_. None) (month_number 24301) demo_sales (month_number 24301) demo_sales [demo_reviewer]
    (month_number 24300) ''ana'' ''checked'' True empty_forecasts = Inr (r, demo_attested)" using demo_attest by blast
  then have "lifecycle_step demo_learning empty_forecasts demo_attested" by (rule attest)
  from deployment_gated[OF empty this] show ?thesis by (simp add: demo_attested_def)
qed

text \<open>A year of issued and scored forecasts, and a run that passes the gate.\<close>

definition demo_month :: "nat \<Rightarrow> date" where
  "demo_month k = month_number (24300 + int k)"

definition demo_artifact :: "dec fitted" where
  "demo_artifact = \<lparr>fd_name = ''sarima_000_100_12'', fd_through = 0, fd_target = 0, fd_months = 36, fd_state = 100\<rparr>"

definition demo_run :: "nat \<Rightarrow> dec model_run" where
  "demo_run k = \<lparr>mr_id = k, mr_engine = engine_version, mr_source = ([], [], []), mr_coverage = [], mr_cutoff = demo_month k,
     mr_through = Some (month_end (shift_month (demo_month k) (- 1))), mr_status = ''research_candidate'',
     mr_findings = \<lparr>fi_status = ''research_candidate'', fi_selected = Some ''sarima_000_100_12'', fi_baseline = Some ''previous_month'',
       fi_candidates = [], fi_test = None, fi_base_test = None, fi_gate = (True, True), fi_artifact = Some demo_artifact,
       fi_sha = Some demo_artifact,
       fi_next = Some \<lparr>np_date = demo_month k, np_value = 100, np_lower = 90, np_upper = 110, np_samples = 12\<rparr>, fi_end = None\<rparr>,
     mr_created = at_hour (demo_month k) 0\<rparr>"

definition demo_issue :: "nat \<Rightarrow> issued_forecast" where
  "demo_issue k = \<lparr>if_id = k, if_run = k, if_engine = engine_version, if_target = demo_month k, if_value = 100, if_lower = 90,
     if_upper = 110, if_baseline = 50, if_at = at_hour (demo_month k) 0\<rparr>"

definition demo_score :: "nat \<Rightarrow> forecast_score" where
  "demo_score k = \<lparr>fs_issued = k, fs_revision = [], fs_verified = True, fs_actual = 100, fs_error = 0, fs_absolute = 0, fs_base_absolute = 50\<rparr>"

definition demo_year :: "dec forecast_db" where
  "demo_year = \<lparr>fb_coverage = [], fb_runs = map demo_run [0..<13], fb_issued = map demo_issue [0..<12],
     fb_scores = map demo_score [0..<12], fb_deployed = None, fb_promotions = []\<rparr>"

definition demo_ledger :: snapshot where
  "demo_ledger = \<lparr>sn_as_of = demo_month 12, sn_policy = [], sn_dropped = [], sn_sales = [], sn_demo = 0\<rparr>"

definition demo_reviewed :: "coverage list" where
  "demo_reviewed = map (\<lambda>k. \<lparr>mc_month = demo_month k, mc_revision = [], mc_zero = False, mc_by = 1, mc_note = ''checked''\<rparr>) [0..<12]"

lemma demo_month_less: "j < k \<Longrightarrow> k < 13 \<Longrightarrow> demo_month j < demo_month k"
proof -
  have "sorted_wrt (<) (map demo_month [0..<13])" by code_simp
  then show "j < k \<Longrightarrow> k < 13 \<Longrightarrow> demo_month j < demo_month k"
    using sorted_wrt_nth_less[of "(<)" "map demo_month [0..<13]" j k] by simp
qed

lemma shift_demo_month: "shift_month (demo_month (n + k)) (- int k) = demo_month n" "shift_month (demo_month k) 1 = demo_month (Suc k)"
  by (simp_all add: demo_month_def shift_month_number algebra_simps)

lemma demo_covered: "k < 12 \<Longrightarrow> covered demo_reviewed (demo_month k)"
  by (auto simp: covered_def demo_reviewed_def image_image)

lemma demo_prospective: "k < 12 \<Longrightarrow> prospective_issue demo_learning (fb_runs demo_year) (demo_issue k)"
proof -
  assume k: "k < 12"
  have "keys_ok mr_id (map demo_run [0..<13])" by (simp add: keys_ok_def demo_run_def o_def)
  then have "row_get mr_id (fb_runs demo_year) k = Some (demo_run k)"
    using k by (simp add: row_get_iff demo_year_def demo_run_def)
  then show ?thesis
    by (simp add: prospective_issue_def demo_issue_def demo_run_def demo_artifact_def sarima_artifact_def demo_learning_def
        sarima_names_def min_months_def demo_month_def month_number_fields)
qed

lemma demo_latest: "k < 12 \<Longrightarrow> latest_score demo_ledger (fb_scores demo_year) (demo_issue k) = Some (demo_score k)"
proof -
  have "\<forall>k < 12. find (\<lambda>x. fs_issued x = k \<and> fs_verified x \<and> fs_revision x = []) (rev (map demo_score [0..<12])) = Some (demo_score k)" by code_simp
  then show "k < 12 \<Longrightarrow> ?thesis"
    by (simp add: latest_score_def demo_year_def demo_issue_def demo_ledger_def month_revision_def)
qed

lemma demo_evidence:
  "prospective_evidence demo_learning demo_ledger demo_reviewed demo_year =
     \<lparr>ev_months = map demo_month [0..<12], ev_rows = map (\<lambda>_. (100, 100, 50)) [0..<12],
      ev_metrics = score_of (map (\<lambda>_. (100, 100)) [0..<12]), ev_baseline = score_of (map (\<lambda>_. (100, 50)) [0..<12])\<rparr>"
proof -
  have due: "due_issues demo_ledger demo_year = map demo_issue [0..<12]"
    unfolding due_issues_def demo_year_def forecast_db.simps
    by (rule filter_True) (auto simp: demo_issue_def demo_ledger_def intro: demo_month_less)
  have "sorted (map if_target (map demo_issue [0..<12]))"
    using demo_month_less by (auto simp: sorted_iff_nth_mono_less demo_issue_def less_imp_le)
  then have sorted: "sort_key if_target (due_issues demo_ledger demo_year) = map demo_issue [0..<12]"
    unfolding due by (rule sort_key_id_if_sorted)
  have issues: "filter (\<lambda>i. covered demo_reviewed (if_target i) \<and> prospective_issue demo_learning (fb_runs demo_year) i)
      (map demo_issue [0..<12]) = map demo_issue [0..<12]"
    by (rule filter_True) (auto simp: demo_covered demo_prospective, simp add: demo_issue_def demo_covered)
  have entry: "evidence_entry demo_ledger demo_year (demo_issue k) = Some (demo_month k, 100, 100, 50)" if "k < 12" for k
    using that by (simp add: evidence_entry_def demo_latest) (simp add: demo_issue_def demo_score_def)
  have entries: "List.map_filter (evidence_entry demo_ledger demo_year) (map demo_issue ks) = map (\<lambda>k. (demo_month k, 100, 100, 50)) ks"
    if "\<forall>k \<in> set ks. k < 12" for ks
    using that by (induction ks) (simp_all add: List.map_filter_def entry)
  have step: "contiguous_from acc (map (\<lambda>k. (demo_month k, x)) [a..<b]) = acc @ map (\<lambda>k. (demo_month k, x)) [a..<b]"
    if "a \<le> b" "acc = [] \<or> fst (last acc) = demo_month (a - 1) \<and> 0 < a" for acc a b and x :: "dec \<times> dec \<times> dec"
    using that
  proof (induction "b - a" arbitrary: a acc)
    case (Suc n)
    then have ab: "[a..<b] = a # [Suc a..<b]" by (simp add: upt_conv_Cons)
    have "contiguous_from (acc @ [(demo_month a, x)]) (map (\<lambda>k. (demo_month k, x)) [Suc a..<b]) =
        (acc @ [(demo_month a, x)]) @ map (\<lambda>k. (demo_month k, x)) [Suc a..<b]"
      by (rule Suc.hyps(1)) (use Suc.hyps(2) Suc.prems in auto)
    moreover have "demo_month a = shift_month (fst (last acc)) 1" if "acc \<noteq> []"
      using Suc.prems(2) that by (simp add: shift_demo_month)
    ultimately show ?case unfolding ab by auto
  qed simp
  have "contiguous (map (\<lambda>k. (demo_month k, 100 :: dec, 100 :: dec, 50 :: dec)) [0..<12]) =
      map (\<lambda>k. (demo_month k, 100, 100, 50)) [0..<12]"
    unfolding contiguous_def using step[of 0 12 "[]"] by simp
  moreover have "List.map_filter (evidence_entry demo_ledger demo_year) (map demo_issue [0..<12]) =
      map (\<lambda>k. (demo_month k, 100, 100, 50)) [0..<12]" by (rule entries) simp
  ultimately show ?thesis
    unfolding prospective_evidence_def sorted issues Let_def by (simp add: comp_def)
qed

lemma demo_gate: "eligible (quality_gate demo_learning (demo_month 12) (demo_run 12) demo_ledger demo_reviewed demo_year)"
proof -
  have m: "first_of_month (month_end (demo_month 11)) = demo_month 11"
    using same_month[of "demo_month 11" "month_end (demo_month 11)"] month_end_ge[of "demo_month 11"]
    by (simp add: demo_month_def month_number_fields)
  have s: "shift_month (demo_month 12) (- 1) = demo_month 11" using shift_demo_month(1)[of 11 1] by simp
  have c: "covered demo_reviewed (shift_month (demo_month 11) (- int n))" if "n < 12" for n
    using shift_demo_month(1)[of "11 - n" n] demo_covered[of "11 - n"] that by simp
  have miss: "filter (\<lambda>m. \<not> covered demo_reviewed m) (map (\<lambda>n. shift_month (demo_month 11) (- int n)) [0..<12]) = []"
    using c by (auto simp: filter_empty_conv)
  have w: "score_of (map (\<lambda>_. (100, 100)) [0..<12]) = \<lparr>sc_periods = 12, sc_wape = Some 0, sc_mae = Some 0, sc_bias = Some 0\<rparr>"
    "sc_wape (score_of (map (\<lambda>_. (100, 50)) [0..<12])) = Some 500000"
    by code_simp+
  have l: "last (map demo_month [0..<12]) = demo_month 11" by (simp add: last_map)
  have f: "first_of_month (demo_month 12) = demo_month 12" by (simp add: demo_month_def month_number_fields)
  show ?thesis
    unfolding eligible_def quality_gate_def Let_def demo_evidence
    using miss by (simp add: demo_run_def demo_artifact_def sarima_artifact_def demo_learning_def sarima_names_def s m f w l
        demo_ledger_def target_percent_def)
qed

theorem open_gate_evidence_witness:
  "\<exists>ev. length ev = 12 \<and> list_all (evidence_for demo_learning demo_ledger demo_reviewed demo_year) ev \<and>
     if_target (fst (ev ! 0)) = shift_month (demo_month 12) (- 12)"
  using open_gate_evidence[OF demo_gate] by (auto simp: demo_ledger_def dest!: spec[of _ 0])

end
