(* ===== verification/Projections.thy ===== *)
theory Projections
  imports Forecast_Lifecycle Complex_Main
begin

text \<open>
  The rough projections of the charts (\<^verbatim>\<open>forecasting/provisional.py\<close>): weekly and monthly series of the ledger
  with unknown periods, the choice of a model on earlier periods, projections of every target period with
  their bounds, and the saved runs. Estimating and filtering a state-space model is numerical code on
  third-party libraries; it is an argument, and so is the saved weekly model of \<^verbatim>\<open>forecasting/graph_sarima.py\<close>.
  Amounts are in hundredths; the numbers of a forecast are exact rationals before the code rounds them.
  Digests are the data they are taken of. Labels and warnings that are constant texts are left out.
\<close>

subsection \<open>Periods and series\<close>

definition projection_version :: string where
  "projection_version = ''actual-provisional-sarima-v4''"

definition periods :: "string list" where
  "periods = [''weekly'', ''monthly'', ''yearly'']"

definition views :: "string list" where
  "views = [''regular'', ''feeding'', ''combined'']"

definition start_of :: "date \<Rightarrow> string \<Rightarrow> date" where
  "start_of day period = (if period = ''weekly'' then day - weekday day else first_of_month day)"

definition advance :: "date \<Rightarrow> string \<Rightarrow> int \<Rightarrow> date" where
  "advance day period steps = (if period = ''weekly'' then day + 7 * steps else shift_month day steps)"

definition period_totals :: "snapshot \<Rightarrow> string \<Rightarrow> string \<Rightarrow> (date \<times> dec) list" where
  "period_totals s segment period =
     group_sums (\<lambda>x. start_of (rs_day x) period) rs_revenue (filter (\<lambda>x. rs_segment x = segment) (sn_sales s))"

lemma advance_later: "day < advance day period 1"
  using month_end_ge[of day] by (simp add: advance_def shift_month_next)

function span :: "string \<Rightarrow> date \<Rightarrow> date \<Rightarrow> date list" where
  "span period day final = (if final < day then [] else day # span period (advance day period 1) final)"
  by pat_completeness auto
termination
proof (relation "measure (\<lambda>(period, day, final). nat (final + 1 - day))")
  fix period :: string and day final :: date assume "\<not> final < day"
  then show "((period, advance day period 1, final), period, day, final) \<in> measure (\<lambda>(period, day, final). nat (final + 1 - day))"
    using advance_later[of day period] by simp
qed simp

declare span.simps [simp del]

definition series :: "snapshot \<Rightarrow> string \<Rightarrow> string \<Rightarrow> (date \<times> dec option) list" where
  "series s segment period =
     (let totals = period_totals s segment period; days = set (map fst totals)
      in if totals = [] then [] else map (\<lambda>d. (d, map_of totals d)) (span period (Min days) (Max days)))"

subsection \<open>Models\<close>

text \<open>
  \<open>pj_fit\<close> estimates a model of a given specification, \<open>pj_forecast\<close> is the path of a fitted model over a number
  of periods with its two bounds, a value that is not finite being \<open>None\<close>, and \<open>pj_adapt\<close> takes over the
  parameters of an approved monthly model whose stored history is the given one.
\<close>

type_synonym sarima_spec = "(nat \<times> nat \<times> nat) \<times> (nat \<times> nat \<times> nat \<times> nat) \<times> char"

record ('f, 'a) projecting =
  pj_fit :: "sarima_spec \<Rightarrow> (date \<times> dec option) list \<Rightarrow> 'a option"
  pj_forecast :: "'a \<Rightarrow> nat \<Rightarrow> (rat \<times> rat \<times> rat) option list"
  pj_adapt :: "'f fitted \<Rightarrow> (date \<times> dec) list \<Rightarrow> 'a option"
  pj_learning :: "'f learning"

record 'a proj_state =
  ps_name :: string
  ps_start :: date
  ps_through :: date
  ps_fit :: 'a

record proj_point =
  pp_value :: dec
  pp_lower :: dec
  pp_upper :: dec

definition model_specification :: "string \<Rightarrow> nat \<Rightarrow> sarima_spec" where
  "model_specification name season =
     (if name = ''local_level'' then ((0, 1, 0), (0, 0, 0, 0), CHR ''n'')
      else ((1, 0, 0), if name = ''seasonal_ar'' then (1, 0, 0, season) else (0, 0, 0, 0), CHR ''c''))"

definition fit :: "('f, 'a) projecting \<Rightarrow> (date \<times> dec option) list \<Rightarrow> string \<Rightarrow> nat \<Rightarrow> 'a proj_state option" where
  "fit env rows name season =
     map_option (\<lambda>a. \<lparr>ps_name = name, ps_start = fst (hd rows), ps_through = fst (last rows), ps_fit = a\<rparr>)
       (pj_fit env (model_specification name season) rows)"

text \<open>Python's \<^verbatim>\<open>round(x, 2)\<close> on the exact value, in hundredths.\<close>

definition round_cents :: "rat \<Rightarrow> dec" where
  "round_cents x =
     (let q = \<lfloor>100 * x\<rfloor>; r = 100 * x - of_int q
      in if r < 1 / 2 then q else if 1 / 2 < r then q + 1 else if even q then q else q + 1)"

definition proj_point_of :: "(rat \<times> rat \<times> rat) option \<Rightarrow> proj_point option" where
  "proj_point_of row =
     (case row of None \<Rightarrow> None
      | Some (value, low, high) \<Rightarrow>
          if \<not> (\<bar>value\<bar> < 10 ^ 18 \<and> \<bar>low\<bar> < 10 ^ 18 \<and> \<bar>high\<bar> < 10 ^ 18) then None
          else let value = max 0 value
               in Some \<lparr>pp_value = round_cents value, pp_lower = round_cents (max 0 (min value low)),
                        pp_upper = round_cents (max value high)\<rparr>)"

definition project :: "('f, 'a) projecting \<Rightarrow> 'a proj_state \<Rightarrow> int \<Rightarrow> proj_point list res" where
  "project env state steps =
     (if steps \<le> 0 \<or> 1200 < steps then Inl (ValueError ''Unsupported projection length.'')
      else case those (map proj_point_of (pj_forecast env (ps_fit state) (nat steps))) of
        None \<Rightarrow> Inl (ValueError ''Non-finite or unsupported forecast value.'')
      | Some path \<Rightarrow> Inr path)"

text \<open>The choice of a model by the periods it did not see.\<close>

record eval_row =
  el_date :: date
  el_actual :: dec
  el_predicted :: dec
  el_through :: date

record evaluation =
  el_wape :: "int option"
  el_rows :: "eval_row list"

definition steps_between :: "string \<Rightarrow> date \<Rightarrow> date \<Rightarrow> int" where
  "steps_between period origin target =
     (if period = ''weekly'' then (target - origin) div 7 else month_index target - month_index origin)"

definition evaluate :: "('f, 'a) projecting \<Rightarrow> 'a proj_state \<Rightarrow> (date \<times> dec option) list \<Rightarrow> string \<Rightarrow> evaluation res" where
  "evaluate env state rows period =
     (let origin = ps_through state
      in rbind (project env state (steps_between period origin (fst (last rows)))) (\<lambda>path.
         let comparisons = List.map_filter (\<lambda>(day, actual). map_option (\<lambda>a.
               \<lparr>el_date = day, el_actual = a, el_predicted = pp_value (path ! nat (steps_between period origin day - 1)),
                el_through = origin\<rparr>) actual) rows
         in Inr \<lparr>el_wape = sc_wape (score_of (map (\<lambda>r. (el_actual r, el_predicted r)) comparisons)), el_rows = comparisons\<rparr>))"

record 'a component =
  cp_status :: string
  cp_state :: "'a proj_state option"
  cp_selected :: "string option"
  cp_validation :: "(string \<times> evaluation option) list"
  cp_test :: "evaluation option"
  cp_failed :: "string list"
  cp_seasonal :: bool
  cp_observed :: "nat option"
  cp_missing :: "nat option"
  cp_basis :: string
  cp_primary :: "nat option"
  cp_fallback :: "string option"

definition no_component :: "string \<Rightarrow> 'a component" where
  "no_component status =
     \<lparr>cp_status = status, cp_state = None, cp_selected = None, cp_validation = [], cp_test = None, cp_failed = [],
      cp_seasonal = False, cp_observed = None, cp_missing = None, cp_basis = '''', cp_primary = None, cp_fallback = None\<rparr>"

definition observed_at :: "(date \<times> dec option) list \<Rightarrow> nat list" where
  "observed_at rows = filter (\<lambda>i. snd (rows ! i) \<noteq> None) [0..<length rows]"

text \<open>A fit or a projection that fails is the candidate's error, here \<open>None\<close>.\<close>

definition validate :: "('f, 'a) projecting \<Rightarrow> (date \<times> dec option) list \<Rightarrow> string \<Rightarrow> nat \<Rightarrow> nat \<Rightarrow> nat \<Rightarrow> string \<Rightarrow> evaluation option" where
  "validate env rows period season start stop name =
     (case fit env (take start rows) name season of None \<Rightarrow> None
      | Some state \<Rightarrow> (case evaluate env state (drop start (take stop rows)) period of Inl e \<Rightarrow> None | Inr x \<Rightarrow> Some x))"

definition holdout_of :: "nat list \<Rightarrow> nat" where
  "holdout_of observed = min 6 (max 1 (length observed div 5))"

definition candidates_at :: "(date \<times> dec option) list \<Rightarrow> nat \<Rightarrow> nat \<Rightarrow> string list" where
  "candidates_at rows validation_index season =
     [''local_level'', ''ar1''] @
     (if 2 * season \<le> validation_index \<and> 2 * season \<le> length (observed_at (take validation_index rows)) then [''seasonal_ar''] else [])"

definition season_of :: "string \<Rightarrow> nat" where
  "season_of period = (if period = ''weekly'' then 52 else 12)"

definition train_component :: "('f, 'a) projecting \<Rightarrow> (date \<times> dec option) list \<Rightarrow> string \<Rightarrow> 'a component" where
  "train_component env rows period =
     (let observed = observed_at rows
      in if length observed < 6 then no_component ''insufficient_data''
         else
           let holdout = holdout_of observed;
               validation_index = observed ! (length observed - 2 * holdout);
               test_index = observed ! (length observed - holdout);
               season = season_of period;
               names = candidates_at rows validation_index season;
               check = validate env rows period season validation_index test_index;
               results = map (\<lambda>name. (name, check name)) names
           in (case best_of (\<lambda>n. case check n of None \<Rightarrow> None | Some x \<Rightarrow> el_wape x) names of
                 None \<Rightarrow> (no_component ''fit_failed'')\<lparr>cp_validation := results\<rparr>
               | Some name \<Rightarrow>
                   let failed = (no_component ''fit_failed'')\<lparr>cp_validation := results, cp_selected := Some name, cp_failed := [name]\<rparr>
                   in (case (validate env rows period season test_index (length rows) name, fit env rows name season) of
                         (Some test, Some state) \<Rightarrow>
                           (case project env state 1 of Inl e \<Rightarrow> failed
                            | Inr p \<Rightarrow> (no_component ''provisional'')\<lparr>cp_state := Some state, cp_validation := results,
                                cp_test := Some test, cp_seasonal := name = ''seasonal_ar'', cp_observed := Some (length observed),
                                cp_missing := Some (length rows - length observed)\<rparr>)
                       | _ \<Rightarrow> failed)))"

subsection \<open>Points of the charts\<close>

record view_point =
  vp_date :: date
  vp_point :: proj_point
  vp_through :: "date option"
  vp_basis :: string
  vp_interval :: string

definition sum_points :: "proj_point list \<Rightarrow> proj_point" where
  "sum_points parts =
     \<lparr>pp_value = (\<Sum>p\<leftarrow>parts. pp_value p), pp_lower = (\<Sum>p\<leftarrow>parts. pp_lower p), pp_upper = (\<Sum>p\<leftarrow>parts. pp_upper p)\<rparr>"

definition path_at :: "(date \<times> proj_point) list \<Rightarrow> date \<Rightarrow> proj_point res" where
  "path_at path day = (case map_of path day of None \<Rightarrow> Inl (KeyError day) | Some p \<Rightarrow> Inr p)"

definition months_of_year :: "date \<Rightarrow> date list" where
  "months_of_year day = map (\<lambda>m. mk_date (year_of day) m (day_of day)) [1..12]"

definition point_at :: "(date \<times> proj_point) list \<Rightarrow> string \<Rightarrow> date \<Rightarrow> proj_point res" where
  "point_at path period target =
     (if period = ''yearly'' then rbind (rmap (path_at path) (months_of_year target)) (\<lambda>parts. Inr (sum_points parts))
      else path_at path target)"

definition future_rows :: "('f, 'a) projecting \<Rightarrow> 'a component \<Rightarrow> date list \<Rightarrow> string \<Rightarrow> view_point list res" where
  "future_rows env component targets period =
     (case cp_state component of None \<Rightarrow> Inr []
      | Some state \<Rightarrow>
          let origin = ps_through state;
              final = (if period = ''yearly'' then mk_date (year_of (last targets)) 12 (day_of (last targets)) else last targets);
              unit = (if period = ''weekly'' then ''weekly'' else ''monthly'')
          in rbind (project env state (steps_between unit origin final)) (\<lambda>points.
               let path = zip (map (\<lambda>n. advance origin unit (int n)) [1..<Suc (length points)]) points
               in rmap (\<lambda>target. rbind (point_at path period target) (\<lambda>p. Inr
                    \<lparr>vp_date = target, vp_point = p, vp_through = Some origin,
                     vp_basis = (if period = ''yearly'' then ''single_origin_monthly_path_sum'' else ''single_origin_sarima''),
                     vp_interval = (if period = ''yearly'' then ''sum_of_uncalibrated_monthly_bounds''
                                    else ''uncalibrated_90_percent_model_interval'')\<rparr>)) targets))"


subsection \<open>Components\<close>

record 'f dependency =
  dp_model :: "nat option"
  dp_coverage :: coverage_digest
  dp_artifact :: "'f fitted option"
  dp_status :: string
  dp_selected :: "string option"
  dp_through :: "date option"
  dp_declared :: "'f fitted option"

text \<open>\<^verbatim>\<open>primary_monthly\<close>: the approved monthly model, or why it cannot be used.\<close>

type_synonym ('f, 'a) primary = "'f dependency \<times> 'a component"

definition adapted_state :: "('f, 'a) projecting \<Rightarrow> (date \<times> dec) list \<Rightarrow> 'f model_run \<Rightarrow> 'a proj_state option" where
  "adapted_state env rows run =
     (case fi_artifact (mr_findings run) of None \<Rightarrow> None
      | Some a \<Rightarrow>
          if fi_status (mr_findings run) = ''research_candidate'' \<and> sarima_artifact (pj_learning env) a \<and>
             fi_sha (mr_findings run) = Some a \<and> fi_selected (mr_findings run) = Some (fd_name a) \<and>
             min_months \<le> length rows \<and> fd_through a = fst (last rows) \<and>
             mr_through run = Some (month_end (fst (last rows)))
          then map_option (\<lambda>s. \<lparr>ps_name = fd_name a, ps_start = fst (hd rows), ps_through = fd_through a, ps_fit = s\<rparr>)
                 (pj_adapt env a rows)
          else None)"

definition primary_monthly :: "('f, 'a) projecting \<Rightarrow> snapshot \<Rightarrow> 'f forecast_db \<Rightarrow> ('f, 'a) primary" where
  "primary_monthly env s db =
     (let coverage = valid_coverage s (fb_coverage db); rows = coverage_rows s coverage;
          run = run_lookup s (coverage_revision coverage) (fb_runs db);
          base = (\<lambda>status. (no_component status)\<lparr>cp_basis := ''primary_monthly_sarima'', cp_primary := map_option mr_id run\<rparr>)
      in (\<lparr>dp_model = map_option mr_id run, dp_coverage = coverage_revision coverage,
           dp_artifact = Option.bind run (\<lambda>r. fi_artifact (mr_findings r)),
           dp_status = (case run of None \<Rightarrow> ''missing'' | Some r \<Rightarrow> mr_status r),
           dp_selected = Option.bind run (\<lambda>r. fi_selected (mr_findings r)), dp_through = Option.bind run mr_through,
           dp_declared = Option.bind run (\<lambda>r. fi_sha (mr_findings r))\<rparr>,
          (case run of
             None \<Rightarrow> if length rows < min_months
                     then (base ''fallback_allowed'')\<lparr>cp_basis := ''provisional_fallback'',
                            cp_fallback := Some ''primary_requires_36_contiguous_completed_months''\<rparr>
                     else base ''primary_refresh_required''
           | Some r \<Rightarrow>
               if mr_status r \<noteq> ''research_candidate''
               then (if length rows < min_months
                     then (base ''fallback_allowed'')\<lparr>cp_basis := ''provisional_fallback'',
                            cp_fallback := Some ''primary_requires_36_contiguous_completed_months''\<rparr>
                     else base ''primary_model_unavailable'')
               else (case adapted_state env rows r of
                 None \<Rightarrow> base ''invalid_primary_artifact''
               | Some state \<Rightarrow> (base ''provisional'')\<lparr>cp_state := Some state, cp_seasonal := True,
                    cp_observed := Some (length rows), cp_missing := Some 0\<rparr>))))"

text \<open>The saved weekly model with its dependency; \<open>'w\<close> is the part of it that identifies a projection.\<close>

record ('w, 'a) weekly_dependency =
  wd_status :: string
  wd_rows :: "(date \<times> dec) list"
  wd_dependency :: 'w
  wd_component :: "'a component"

type_synonym 'w weekly_identity = "string \<times> ((date \<times> dec) list \<times> 'w) option"

definition weekly_identity :: "('w, 'a) weekly_dependency \<Rightarrow> 'w weekly_identity" where
  "weekly_identity w =
     (if wd_status w = ''insufficient_history'' then (''insufficient_history'', None)
      else (wd_status w, Some (wd_rows w, wd_dependency w)))"

datatype ('f, 'a, 'w) signature =
    SigRows "(date \<times> dec option) list"
  | SigPrimary "(date \<times> dec option) list" "('f, 'a) primary"
  | SigWeekly "(date \<times> dec option) list" "'w weekly_identity"

type_synonym ('f, 'a, 'w) components = "((string \<times> string) \<times> (('f, 'a, 'w) signature \<times> 'a component)) list"

definition reusable :: "('f, 'a, 'w) components \<Rightarrow> string \<times> string \<Rightarrow> ('f, 'a, 'w) signature \<Rightarrow> 'a component option" where
  "reusable previous key signature =
     (case map_of previous key of None \<Rightarrow> None
      | Some (old_signature, old) \<Rightarrow> if old_signature = signature \<and> cp_state old \<noteq> None then Some old else None)"

definition build_component ::
    "('f, 'a) projecting \<Rightarrow> ('f, 'a) primary \<Rightarrow> ('w, 'a) weekly_dependency \<Rightarrow> ('f, 'a, 'w) components \<Rightarrow> snapshot \<Rightarrow>
     string \<Rightarrow> string \<Rightarrow> ('f, 'a, 'w) signature \<times> 'a component" where
  "build_component env primary weekly previous s period segment =
     (let rows = series s segment period;
          is_primary = (segment = ''regular'' \<and> period = ''monthly'');
          is_weekly = (segment = ''regular'' \<and> period = ''weekly'');
          signature = (if is_primary then SigPrimary rows primary
                       else if is_weekly then SigWeekly rows (weekly_identity weekly) else SigRows rows);
          old = reusable previous (segment, period) signature
      in (signature,
          if is_weekly \<and> wd_status weekly \<noteq> ''insufficient_history'' then fill old (wd_component weekly)
          else if is_primary \<and> cp_status (snd primary) \<noteq> ''fallback_allowed'' then snd primary
          else let c = fill old (train_component env rows period)
               in c\<lparr>cp_basis := if is_primary \<or> is_weekly then ''provisional_fallback'' else ''provisional_selection'',
                    cp_fallback := if is_primary then cp_fallback (snd primary)
                      else if is_weekly then Some ''annual_weekly_sarima_requires_130_contiguous_completed_weeks''
                      else cp_fallback c\<rparr>))"

subsection \<open>Views\<close>

record proj_view =
  vw_status :: string
  vw_points :: "view_point list"
  vw_model :: "string option"
  vw_seasonal :: bool
  vw_basis :: "string option"
  vw_primary :: "nat option"
  vw_fallback :: "string option"
  vw_metrics :: "evaluation option"
  vw_observed :: "nat option"
  vw_missing :: "nat option"

definition segment_view :: "('f, 'a) projecting \<Rightarrow> 'a component \<Rightarrow> date list \<Rightarrow> string \<Rightarrow> proj_view res" where
  "segment_view env component targets period =
     rbind (future_rows env component targets period) (\<lambda>points. Inr
       \<lparr>vw_status = (if points \<noteq> [] then ''provisional'' else cp_status component), vw_points = points,
        vw_model = map_option ps_name (cp_state component), vw_seasonal = cp_seasonal component,
        vw_basis = Some (cp_basis component), vw_primary = cp_primary component, vw_fallback = cp_fallback component,
        vw_metrics = (if period = ''yearly'' then None else cp_test component),
        vw_observed = cp_observed component, vw_missing = cp_missing component\<rparr>)"

definition combined_point :: "view_point \<Rightarrow> view_point \<Rightarrow> view_point" where
  "combined_point regular feeding =
     \<lparr>vp_date = vp_date regular, vp_point = sum_points [vp_point regular, vp_point feeding], vp_through = None,
      vp_basis = ''sum_of_component_predictions'', vp_interval = ''sum_of_uncalibrated_component_bounds''\<rparr>"

definition combined_view :: "proj_view \<Rightarrow> proj_view \<Rightarrow> proj_view" where
  "combined_view regular feeding =
     (let combined = map2 combined_point (vw_points regular) (vw_points feeding)
      in \<lparr>vw_status = (if combined \<noteq> [] then ''provisional'' else ''component_unavailable''), vw_points = combined,
          vw_model = None, vw_seasonal = False, vw_basis = None, vw_primary = None, vw_fallback = None,
          vw_metrics = None, vw_observed = None, vw_missing = None\<rparr>)"

type_synonym period_views = "(string \<times> proj_view) list"

definition period_views :: "('f, 'a) projecting \<Rightarrow> (string \<Rightarrow> 'a component) \<Rightarrow> date list \<Rightarrow> string \<Rightarrow> period_views res" where
  "period_views env component_of targets period =
     rbind (segment_view env (component_of ''regular'') targets period) (\<lambda>regular.
     rbind (segment_view env (component_of ''feeding'') targets period) (\<lambda>feeding.
       Inr [(''regular'', regular), (''feeding'', feeding), (''combined'', combined_view regular feeding)]))"


subsection \<open>Runs\<close>

record ('f, 'a, 'w) proj_findings =
  pf_components :: "('f, 'a, 'w) components"
  pf_periods :: "(string \<times> period_views) list"
  pf_targets :: "(string \<times> date list) list"
  pf_sources :: "(string \<times> sales_revision) list"
  pf_cutoffs :: "(string \<times> date) list"

definition unit_of :: "string \<Rightarrow> string" where
  "unit_of period = (if period = ''yearly'' then ''monthly'' else period)"

definition lookup :: "(string \<times> 'x) list \<Rightarrow> string \<Rightarrow> 'x" where
  "lookup rows key = the (map_of rows key)"

definition build ::
    "('f, 'a) projecting \<Rightarrow> ('f, 'a) primary \<Rightarrow> ('w, 'a) weekly_dependency \<Rightarrow> (string \<times> snapshot) list \<Rightarrow>
     (string \<times> date list) list \<Rightarrow> ('f, 'a, 'w) components \<Rightarrow> ('f, 'a, 'w) proj_findings res" where
  "build env primary weekly snapshots targets previous =
     (let components = map (\<lambda>(period, segment).
            ((segment, period), build_component env primary weekly previous (lookup snapshots period) period segment))
            (List.product [''weekly'', ''monthly''] [''regular'', ''feeding'']);
          component_of = (\<lambda>period segment. snd (the (map_of components (segment, unit_of period))))
      in rbind (rmap (\<lambda>period. rbind (period_views env (component_of period) (lookup targets period) period)
                         (\<lambda>v. Inr (period, v))) periods) (\<lambda>rows.
         Inr \<lparr>pf_components = components, pf_periods = rows, pf_targets = targets,
              pf_sources = map (\<lambda>(p, s). (p, sn_revision s)) snapshots, pf_cutoffs = map (\<lambda>(p, s). (p, sn_as_of s)) snapshots\<rparr>))"

definition targets_for :: "date \<Rightarrow> (string \<times> date list) list" where
  "targets_for today =
     [(''weekly'', map (\<lambda>n. advance (start_of today ''weekly'') ''weekly'' (int n)) [1..<14]),
      (''monthly'', map (\<lambda>n. shift_month (first_of_month today) (int n)) [1..<13]),
      (''yearly'', map (\<lambda>n. mk_date (year_of today + int n) 1 1) [1..<3])]"

record ('f, 'w) identity =
  id_sources :: "(string \<times> sales_revision) list"
  id_targets :: "(string \<times> date list) list"
  id_primary :: "'f dependency \<times> string"
  id_weekly :: "'w weekly_identity"

text \<open>What a request reads: the ledger and the tables of the models.\<close>

record ('f, 'a, 'w) source =
  so_sales :: sales_store
  so_models :: "'f forecast_db"
  so_weekly :: "snapshot \<Rightarrow> ('w, 'a) weekly_dependency"

definition project_snapshots :: "policy \<Rightarrow> (nat \<Rightarrow> dec option) \<Rightarrow> date \<Rightarrow> sales_store \<Rightarrow> (string \<times> snapshot) list" where
  "project_snapshots policy lt today st =
     map (\<lambda>p. (p, load_snapshot policy lt (start_of today p) st)) [''weekly'', ''monthly'']"

definition context_of ::
    "('f, 'a) projecting \<Rightarrow> policy \<Rightarrow> (nat \<Rightarrow> dec option) \<Rightarrow> date \<Rightarrow> ('f, 'a, 'w) source \<Rightarrow> ('f, 'w) identity" where
  "context_of env policy lt today src =
     (let snapshots = project_snapshots policy lt today (so_sales src);
          primary = primary_monthly env (lookup snapshots ''monthly'') (so_models src)
      in \<lparr>id_sources = map (\<lambda>(p, s). (p, sn_revision s)) snapshots, id_targets = targets_for today,
          id_primary = (fst primary, cp_status (snd primary)),
          id_weekly = weekly_identity (so_weekly src (lookup snapshots ''weekly''))\<rparr>)"

definition projection_context ::
    "('f, 'a) projecting \<Rightarrow> policy \<Rightarrow> (nat \<Rightarrow> dec option) \<Rightarrow> date \<Rightarrow> date \<Rightarrow> ('f, 'a, 'w) source \<Rightarrow>
     ((string \<times> snapshot) list \<times> (string \<times> date list) list \<times> ('f, 'w) identity) res" where
  "projection_context env policy lt clock today src =
     (if clock < today then Inl (ValueError ''Future extraction dates are not allowed.'')
      else Inr (project_snapshots policy lt today (so_sales src), targets_for today, context_of env policy lt today src))"

record ('f, 'a, 'w) proj_run =
  pv_id :: nat
  pv_engine :: string
  pv_source :: "('f, 'w) identity"
  pv_findings :: "('f, 'a, 'w) proj_findings"
  pv_digest :: "('f, 'a, 'w) proj_findings"
  pv_created :: instant

definition find_run :: "('f, 'w) identity \<Rightarrow> ('f, 'a, 'w) proj_run list \<Rightarrow> ('f, 'a, 'w) proj_run option" where
  "find_run revision runs = find (\<lambda>r. pv_engine r = projection_version \<and> pv_source r = revision) runs"

definition previous_components :: "('f, 'a, 'w) proj_run list \<Rightarrow> ('f, 'a, 'w) components" where
  "previous_components runs =
     (case find (\<lambda>r. pv_engine r = projection_version) (rev runs) of None \<Rightarrow> [] | Some r \<Rightarrow> pf_components (pv_findings r))"

text \<open>
  \<^verbatim>\<open>refresh\<close> fits outside its transaction: \<open>src\<close> is what it reads first, \<open>src'\<close> and \<open>runs'\<close> what it finds when it
  holds the lock.
\<close>

definition refresh_projections ::
    "('f, 'a) projecting \<Rightarrow> policy \<Rightarrow> (nat \<Rightarrow> dec option) \<Rightarrow> date \<Rightarrow> date \<Rightarrow> ('f, 'a, 'w) source \<Rightarrow> ('f, 'a, 'w) source \<Rightarrow> instant \<Rightarrow>
     ('f, 'a, 'w) proj_run list \<Rightarrow> ('f, 'a, 'w) proj_run list \<Rightarrow> (('f, 'a, 'w) proj_run \<times> bool \<times> ('f, 'a, 'w) proj_run list) res" where
  "refresh_projections env policy lt clock today src src' now runs runs' =
     rbind (projection_context env policy lt clock today src) (\<lambda>(snapshots, targets, revision).
     (case find_run revision runs of
        Some r \<Rightarrow> Inr (r, False, runs)
      | None \<Rightarrow>
          rbind (build env (primary_monthly env (lookup snapshots ''monthly'') (so_models src))
                   (so_weekly src (lookup snapshots ''weekly'')) snapshots targets (previous_components runs)) (\<lambda>findings.
          rbind (projection_context env policy lt clock today src') (\<lambda>(snapshots', targets', revision').
            if revision' \<noteq> revision
            then Inl (ValueError ''Actual source or target periods changed during fitting; retry refresh.'')
            else (case find_run revision runs' of
                Some r \<Rightarrow> Inr (r, False, runs')
              | None \<Rightarrow>
                  let r = \<lparr>pv_id = new_pk pv_id runs', pv_engine = projection_version, pv_source = revision,
                           pv_findings = findings, pv_digest = findings, pv_created = now\<rparr>
                  in Inr (r, True, runs' @ [r]))))))"

text \<open>A chart: its status, and per view the age of the history in days and whether it is stale.\<close>

datatype ('f, 'w) chart =
    RefreshRequired "date list"
  | InvalidArtifact "date list"
  | Chart nat "(string \<times> (proj_view \<times> int option \<times> bool)) list" "date list" "(string \<times> sales_revision) list"

definition history_age :: "date \<Rightarrow> proj_view \<Rightarrow> int option" where
  "history_age today v =
     (case vw_points v of [] \<Rightarrow> None | p # ps \<Rightarrow> map_option (\<lambda>through. today - through) (vp_through p))"

definition stale :: "date \<Rightarrow> string \<Rightarrow> proj_view \<Rightarrow> bool" where
  "stale today period v =
     (case history_age today v of None \<Rightarrow> False | Some age \<Rightarrow> (if period = ''weekly'' then 14 else 62) < age)"

definition projection_report ::
    "('f, 'a) projecting \<Rightarrow> policy \<Rightarrow> (nat \<Rightarrow> dec option) \<Rightarrow> date \<Rightarrow> date \<Rightarrow> ('f, 'a, 'w) source \<Rightarrow> ('f, 'a, 'w) proj_run list \<Rightarrow>
     string \<Rightarrow> ('f, 'w) chart res" where
  "projection_report env policy lt clock today src runs period =
     rbind (projection_context env policy lt clock today src) (\<lambda>(snapshots, targets, revision).
     Inr (case find_run revision runs of
        None \<Rightarrow> RefreshRequired (lookup targets period)
      | Some r \<Rightarrow>
          if pv_digest r \<noteq> pv_findings r then InvalidArtifact (lookup targets period)
          else let shown = lookup (pf_periods (pv_findings r)) period;
                   late = (\<lambda>segment. stale today period (lookup shown segment))
               in Chart (pv_id r)
                    (map (\<lambda>segment. (segment, lookup shown segment, history_age today (lookup shown segment), late segment))
                       [''regular'', ''feeding''] @
                     [(''combined'', lookup shown ''combined'', None, late ''regular'' \<or> late ''feeding'')])
                    (lookup targets period) (pf_sources (pv_findings r))))"

subsection \<open>Bounds of the points\<close>

lemma round_cents_mono:
  assumes "x \<le> y"
  shows "round_cents x \<le> round_cents y"
proof -
  define p q where "p = \<lfloor>100 * x\<rfloor>" and "q = \<lfloor>100 * y\<rfloor>"
  have r: "0 \<le> 100 * x - of_int p" "100 * x - of_int p < 1" "0 \<le> 100 * y - of_int q" "100 * y - of_int q < 1"
    unfolding p_def q_def by linarith+
  have "p \<le> q" unfolding p_def q_def using assms by (intro floor_mono) simp
  then consider "p = q" | "p + 1 \<le> q" by linarith
  then show ?thesis
  proof cases
    case 1
    then show ?thesis using assms by (auto simp: round_cents_def Let_def p_def[symmetric] q_def[symmetric])
  next
    case 2
    have "round_cents x \<le> p + 1" "q \<le> round_cents y"
      by (auto simp: round_cents_def Let_def p_def[symmetric] q_def[symmetric])
    with 2 show ?thesis by simp
  qed
qed

lemma round_cents_nonneg: "0 \<le> x \<Longrightarrow> 0 \<le> round_cents x"
  using round_cents_mono[of 0 x] by (simp add: round_cents_def)

definition bounded :: "proj_point \<Rightarrow> bool" where
  "bounded p \<longleftrightarrow> 0 \<le> pp_lower p \<and> pp_lower p \<le> pp_value p \<and> pp_value p \<le> pp_upper p"

lemma proj_point_bounded: "proj_point_of row = Some p \<Longrightarrow> bounded p"
  by (auto simp: proj_point_of_def bounded_def Let_def split: option.splits prod.splits if_splits
      intro!: round_cents_mono round_cents_nonneg)

lemma project_bounded:
  assumes "project env state steps = Inr path" "p \<in> set path"
  shows "bounded p"
proof -
  from assms(1) have "map proj_point_of (pj_forecast env (ps_fit state) (nat steps)) = map Some path"
    by (auto simp: project_def those_Some split: if_splits option.splits)
  with assms(2) have "Some p \<in> set (map proj_point_of (pj_forecast env (ps_fit state) (nat steps)))" by simp
  then show ?thesis using proj_point_bounded by auto
qed

lemma sum_points_bounded: "list_all bounded parts \<Longrightarrow> bounded (sum_points parts)"
  by (induction parts) (auto simp: sum_points_def bounded_def)

lemma rmap_all:
  assumes "rmap f xs = Inr ys" "\<And>x y. x \<in> set xs \<Longrightarrow> f x = Inr y \<Longrightarrow> P y"
  shows "list_all P ys"
  unfolding list_all_length
proof (intro allI impI)
  fix i assume "i < length ys"
  with rmap_length[OF assms(1)] have i: "i < length xs" by simp
  from rmap_nth[OF assms(1) i] show "P (ys ! i)" by (intro assms(2)[of "xs ! i"]) (use i in auto)
qed

lemma rmap_map: "rmap f xs = Inr ys \<Longrightarrow> (\<And>x y. x \<in> set xs \<Longrightarrow> f x = Inr y \<Longrightarrow> g y = h x) \<Longrightarrow> map g ys = map h xs"
  by (induction xs arbitrary: ys) auto

lemma path_at_bounded: "list_all bounded (map snd path) \<Longrightarrow> path_at path d = Inr p \<Longrightarrow> bounded p"
  by (auto simp: path_at_def list_all_iff split: option.splits dest!: map_of_SomeD)

lemma point_at_bounded:
  assumes "list_all bounded (map snd path)" "point_at path period target = Inr p"
  shows "bounded p"
  using assms by (auto simp: point_at_def path_at_bounded split: if_splits intro!: sum_points_bounded elim!: rmap_all)

lemma future_rows_points:
  assumes "future_rows env component targets period = Inr points"
  shows "list_all (\<lambda>p. bounded (vp_point p)) points \<and> (points = [] \<or> map vp_date points = targets)"
proof (cases "cp_state component")
  case None
  then show ?thesis using assms by (simp add: future_rows_def)
next
  case (Some state)
  from assms[unfolded future_rows_def Some Let_def option.case]
  obtain path where path: "project env state (steps_between (if period = ''weekly'' then ''weekly'' else ''monthly'') (ps_through state)
      (if period = ''yearly'' then mk_date (year_of (last targets)) 12 (day_of (last targets)) else last targets)) = Inr path"
    and rows: "rmap (\<lambda>target. rbind (point_at (zip (map (\<lambda>n. advance (ps_through state)
        (if period = ''weekly'' then ''weekly'' else ''monthly'') (int n)) [1..<Suc (length path)]) path) period target) (\<lambda>p. Inr
                    \<lparr>vp_date = target, vp_point = p, vp_through = Some (ps_through state),
                     vp_basis = (if period = ''yearly'' then ''single_origin_monthly_path_sum'' else ''single_origin_sarima''),
                     vp_interval = (if period = ''yearly'' then ''sum_of_uncalibrated_monthly_bounds''
                                    else ''uncalibrated_90_percent_model_interval'')\<rparr>)) targets = Inr points"
    unfolding rbind_Inr_iff by blast
  have "list_all bounded (map snd (zip (map (\<lambda>n. advance (ps_through state)
        (if period = ''weekly'' then ''weekly'' else ''monthly'') (int n)) [1..<Suc (length path)]) path))"
    using project_bounded[OF path] by (auto simp: list_all_iff dest: set_zip_rightD)
  note b = point_at_bounded[OF this]
  have "list_all (\<lambda>p. bounded (vp_point p)) points" by (rule rmap_all[OF rows]) (auto simp del: upt_Suc One_nat_def dest: b)
  moreover have "map vp_date points = map (\<lambda>x. x) targets" by (rule rmap_map[OF rows]) auto
  ultimately show ?thesis by simp
qed

lemma period_views_sound:
  assumes "period_views env component_of targets period = Inr v"
  shows "map fst v = views"
    and "\<And>name w. (name, w) \<in> set v \<Longrightarrow>
           list_all (\<lambda>p. bounded (vp_point p)) (vw_points w) \<and> (vw_points w = [] \<or> map vp_date (vw_points w) = targets)"
    and "vw_points (lookup v ''combined'') =
           map2 combined_point (vw_points (lookup v ''regular'')) (vw_points (lookup v ''feeding''))"
proof -
  from assms obtain r f where rf: "segment_view env (component_of ''regular'') targets period = Inr r"
      "segment_view env (component_of ''feeding'') targets period = Inr f"
      "v = [(''regular'', r), (''feeding'', f), (''combined'', combined_view r f)]"
    by (auto simp: period_views_def)
  note v = rf(3)
  have seg: "list_all (\<lambda>p. bounded (vp_point p)) (vw_points w) \<and> (vw_points w = [] \<or> map vp_date (vw_points w) = targets)"
    if "segment_view env c targets period = Inr w" for c w
    using that by (auto simp: segment_view_def dest!: future_rows_points)
  note rr = seg[OF rf(1)] and ff = seg[OF rf(2)]
  have "list_all (\<lambda>p. bounded (vp_point p)) (map2 combined_point (vw_points r) (vw_points f))"
    using rr ff by (auto simp: list_all_iff combined_point_def intro!: sum_points_bounded elim!: in_set_zipE)
  moreover have "map2 combined_point (vw_points r) (vw_points f) = [] \<or>
      map vp_date (map2 combined_point (vw_points r) (vw_points f)) = targets"
  proof -
    have l: "length (vw_points w) = length targets" if "map vp_date (vw_points w) = targets" for w :: proj_view
      using that by (metis length_map)
    have "map vp_date (map2 combined_point xs ys) = map vp_date xs" if "length xs = length ys" for xs ys
      using that by (induction xs ys rule: list_induct2) (auto simp: combined_point_def)
    with rr ff l show ?thesis by (metis list.map_disc_iff zip_Nil zip.simps(1))
  qed
  ultimately have cc: "list_all (\<lambda>p. bounded (vp_point p)) (vw_points (combined_view r f)) \<and>
      (vw_points (combined_view r f) = [] \<or> map vp_date (vw_points (combined_view r f)) = targets)"
    by (simp add: combined_view_def)
  show "map fst v = views" by (simp add: v views_def)
  show "\<And>name w. (name, w) \<in> set v \<Longrightarrow>
           list_all (\<lambda>p. bounded (vp_point p)) (vw_points w) \<and> (vw_points w = [] \<or> map vp_date (vw_points w) = targets)"
    using rr ff cc by (auto simp: v)
  show "vw_points (lookup v ''combined'') =
           map2 combined_point (vw_points (lookup v ''regular'')) (vw_points (lookup v ''feeding''))"
    by (simp add: v lookup_def combined_view_def Let_def)
qed

subsection \<open>Series\<close>

definition aligned :: "string \<Rightarrow> date \<Rightarrow> bool" where
  "aligned period day \<longleftrightarrow> start_of day period = day"

lemma first_of_month_idem: "day_of d = 1 \<Longrightarrow> first_of_month d = d"
  using same_month[of d d] month_end_ge[of d] by simp

lemma aligned_start: "aligned period (start_of day period)"
proof (cases "period = ''weekly''")
  case True
  have "weekday (day - weekday day) = 0" unfolding weekday_def by presburger
  with True show ?thesis by (simp add: aligned_def start_of_def)
qed (simp add: aligned_def start_of_def first_of_month_idem first_of_month_fields)

lemma aligned_advance: "aligned period day \<Longrightarrow> aligned period (advance day period 1)"
proof (cases "period = ''weekly''")
  case True
  assume "aligned period day"
  with True have "(day + 6) mod 7 = 0" by (auto simp: aligned_def start_of_def weekday_def)
  then have "(day + 7 + 6) mod 7 = 0" by presburger
  with True show ?thesis by (simp add: aligned_def start_of_def advance_def weekday_def)
qed (simp add: aligned_def start_of_def advance_def first_of_month_idem shift_month_fields)

lemma aligned_gap:
  assumes "aligned period a" "aligned period b" "a < b"
  shows "advance a period 1 \<le> b"
proof (cases "period = ''weekly''")
  case True
  with assms have "(a + 6) mod 7 = 0" "(b + 6) mod 7 = 0" by (auto simp: aligned_def start_of_def weekday_def)
  with assms(3) have "a + 7 \<le> b" by presburger
  with True show ?thesis by (simp add: advance_def)
next
  case False
  with assms have d: "first_of_month a = a" "first_of_month b = b" by (auto simp: aligned_def start_of_def)
  have a: "day_of a = 1" using first_of_month_fields(3)[of a] d by simp
  have "\<not> b \<le> month_end a" using same_month[OF a, of b] d assms(3) by auto
  with False show ?thesis by (simp add: advance_def shift_month_next)
qed

lemma span_mem:
  "\<lbrakk>aligned period day; aligned period x; day \<le> x; x \<le> final\<rbrakk> \<Longrightarrow> x \<in> set (span period day final)"
proof (induction period day final rule: span.induct)
  case (1 period day final)
  show ?case
  proof (cases "x = day")
    case True
    with 1(4,5) show ?thesis by (subst span.simps) auto
  next
    case False
    with 1 have "x \<in> set (span period (advance day period 1) final)" using aligned_gap[of period day x] by (intro "1.IH") (auto intro: aligned_advance)
    with False 1(4,5) show ?thesis by (subst span.simps) auto
  qed
qed

lemma span_ge: "x \<in> set (span period day final) \<Longrightarrow> day \<le> x"
proof (induction period day final rule: span.induct)
  case (1 period day final)
  then show ?case using advance_later[of day period] by (subst (asm) (2) span.simps) (force split: if_splits)
qed

lemma span_distinct: "distinct (span period day final)"
proof (induction period day final rule: span.induct)
  case (1 period day final)
  have "day \<notin> set (span period (advance day period 1) final)" using span_ge advance_later[of day period] by fastforce
  with 1 show ?case by (subst span.simps) auto
qed

lemma span_nth: "Suc i < length (span period day final) \<Longrightarrow> span period day final ! Suc i = advance (span period day final ! i) period 1"
proof (induction period day final arbitrary: i rule: span.induct)
  case (1 period day final)
  note s = span.simps[of period day final]
  show ?case
  proof (cases "final < day")
    case True with 1(2) s show ?thesis by simp
  next
    case False
    then have e: "span period day final = day # span period (advance day period 1) final" using s by simp
    show ?thesis
    proof (cases i)
      case 0
      with 1(2) e have "\<not> final < advance day period 1" by (auto simp: span.simps[of period "advance day period 1" final] split: if_splits)
      then show ?thesis using 0 e by (simp add: span.simps[of period "advance day period 1" final])
    next
      case (Suc j)
      with 1(2) e have "Suc j < length (span period (advance day period 1) final)" by simp
      from "1.IH"[OF False this] show ?thesis using Suc e by simp
    qed
  qed
qed

definition segment_sales :: "snapshot \<Rightarrow> string \<Rightarrow> recorded_sale list" where
  "segment_sales s segment = filter (\<lambda>x. rs_segment x = segment) (sn_sales s)"

lemma map_of_group_sums:
  "map_of (group_sums key amount xs) k =
     (if k \<in> key ` set xs then Some (\<Sum>x\<leftarrow>filter (\<lambda>x. key x = k) xs. amount x) else None)"
  by (simp add: group_sums_def map_of_map_restrict restrict_map_def)

lemma series_shape:
  fixes s segment period
  defines "starts \<equiv> (\<lambda>x. start_of (rs_day x) period) ` set (segment_sales s segment)"
  shows "series s segment period =
      (if starts = {} then [] else map (\<lambda>d. (d, map_of (period_totals s segment period) d)) (span period (Min starts) (Max starts)))"
proof -
  have k: "set (map fst (period_totals s segment period)) = starts"
    by (auto simp: period_totals_def group_sums_def starts_def segment_sales_def)
  moreover from k have "period_totals s segment period = [] \<longleftrightarrow> starts = {}" by (metis list.map_disc_iff set_empty)
  ultimately show ?thesis unfolding series_def Let_def by simp
qed

lemma series_covers:
  assumes "x \<in> set (segment_sales s segment)"
  shows "start_of (rs_day x) period \<in> fst ` set (series s segment period)"
proof -
  let ?starts = "(\<lambda>x. start_of (rs_day x) period) ` set (segment_sales s segment)"
  have ne: "?starts \<noteq> {}" and f: "finite ?starts" using assms by auto
  have al: "aligned period d" if "d \<in> ?starts" for d using that aligned_start by auto
  have x: "start_of (rs_day x) period \<in> ?starts" using assms by auto
  have "start_of (rs_day x) period \<in> set (span period (Min ?starts) (Max ?starts))"
    using al Min_in[OF f ne] Min_le[OF f x] Max_ge[OF f x] x by (intro span_mem) auto
  then show ?thesis using ne by (auto simp: series_shape image_iff)
qed

lemma series_total: "(\<Sum>(d, a)\<leftarrow>series s segment period. fill a 0) = (\<Sum>x\<leftarrow>segment_sales s segment. rs_revenue x)"
proof (cases "segment_sales s segment = []")
  case False
  let ?key = "\<lambda>x. start_of (rs_day x) period"
  let ?starts = "?key ` set (segment_sales s segment)"
  let ?days = "span period (Min ?starts) (Max ?starts)"
  have v: "fill (map_of (period_totals s segment period) d) 0 =
      (\<Sum>x\<leftarrow>filter (\<lambda>x. ?key x = d) (segment_sales s segment). rs_revenue x)" for d
  proof -
    have "filter (\<lambda>x. ?key x = d) (segment_sales s segment) = []" if "d \<notin> ?starts" using that by (auto simp: filter_empty_conv)
    then show ?thesis by (auto simp: period_totals_def map_of_group_sums fill_def segment_sales_def)
  qed
  have sub: "?starts \<subseteq> set ?days"
    using series_covers[of _ s segment period] False by (force simp: series_shape)
  have "(\<Sum>(d, a)\<leftarrow>series s segment period. fill a 0) =
      (\<Sum>d\<leftarrow>?days. \<Sum>x\<leftarrow>filter (\<lambda>x. ?key x = d) (segment_sales s segment). rs_revenue x)"
    using False by (simp add: series_shape o_def v)
  also have "\<dots> = (\<Sum>d\<in>set ?days. \<Sum>x\<leftarrow>filter (\<lambda>x. ?key x = d) (segment_sales s segment). rs_revenue x)"
    by (simp add: sum.distinct_set_conv_list span_distinct)
  also have "\<dots> = (\<Sum>x\<leftarrow>segment_sales s segment. rs_revenue x)" by (rule sum_by_key) (use sub in auto)
  finally show ?thesis .
qed (simp add: series_shape)

text \<open>
  The series of the charts. For a segment and a period length, the rows of \<^verbatim>\<open>series\<close> are consecutive
  periods, each starting where \<^verbatim>\<open>advance\<close> leads from the one before; every sale of the segment falls into a listed
  period; a period shows exactly the revenue of its sales, and is unknown, never zero, when it has none; the
  shown amounts add up to the revenue of the segment.
\<close>

lemma series_complete:
  "let rows = series s segment period; sales = segment_sales s segment
   in (\<forall>x\<in>set sales. start_of (rs_day x) period \<in> fst ` set rows) \<and>
      (\<forall>(d, a)\<in>set rows. a = (if d \<in> (\<lambda>x. start_of (rs_day x) period) ` set sales
          then Some (\<Sum>x\<leftarrow>filter (\<lambda>x. start_of (rs_day x) period = d) sales. rs_revenue x) else None)) \<and>
      (\<forall>i. Suc i < length rows \<longrightarrow> fst (rows ! Suc i) = advance (fst (rows ! i)) period 1) \<and>
      (\<Sum>(d, a)\<leftarrow>rows. fill a 0) = (\<Sum>x\<leftarrow>sales. rs_revenue x)"
  unfolding Let_def
proof (intro conjI ballI allI impI)
  fix r assume "r \<in> set (series s segment period)"
  then show "case r of (d, a) \<Rightarrow> a = (if d \<in> (\<lambda>x. start_of (rs_day x) period) ` set (segment_sales s segment)
      then Some (\<Sum>x\<leftarrow>filter (\<lambda>x. start_of (rs_day x) period = d) (segment_sales s segment). rs_revenue x) else None)"
    by (auto simp: series_shape period_totals_def map_of_group_sums segment_sales_def split: if_splits)
next
  fix i assume "Suc i < length (series s segment period)"
  then show "fst (series s segment period ! Suc i) = advance (fst (series s segment period ! i)) period 1"
    by (auto simp: series_shape span_nth split: if_splits)
qed (auto simp: series_covers series_total)

definition demo_feed :: "nat \<Rightarrow> date \<Rightarrow> dec \<Rightarrow> recorded_sale" where
  "demo_feed k day amount = \<lparr>rs_id = k, rs_day = day, rs_key = ''walk-in'', rs_name = ''Walk-in'', rs_segment = ''feeding'', rs_revenue = amount\<rparr>"

definition demo_feeding :: snapshot where
  "demo_feeding = \<lparr>sn_as_of = 739700, sn_policy = [], sn_dropped = [],
     sn_sales = [demo_feed 1 739620 50000, demo_feed 2 739630 70000, demo_feed 3 739631 2500], sn_demo = 0\<rparr>"

lemma series_complete_witness:
  "start_of 739630 ''weekly'' \<in> fst ` set (series demo_feeding ''feeding'' ''weekly'') \<and>
   (\<Sum>(d, a)\<leftarrow>series demo_feeding ''feeding'' ''weekly''. fill a 0) = 122500"
proof -
  have "segment_sales demo_feeding ''feeding'' = sn_sales demo_feeding" by (simp add: segment_sales_def demo_feeding_def demo_feed_def)
  then show ?thesis using series_complete[of demo_feeding "''feeding''" "''weekly''"]
    by (simp add: Let_def demo_feeding_def demo_feed_def)
qed

lemma series_unknown_week:
  "series demo_feeding ''feeding'' ''weekly'' = [(739614, Some 50000), (739621, None), (739628, Some 72500)]"
  by (simp add: series_def period_totals_def group_sums_def demo_feeding_def demo_feed_def start_of_def weekday_def advance_def
      span.simps)

text \<open>
  The points of the charts. In the findings that \<^verbatim>\<open>build\<close> saves, every period has the three views; a view shows
  no points or exactly the target periods; every point satisfies the check constraint of the table that its
  value is copied to (its lower bound is not negative, and the bounds enclose the value), the yearly sums and
  the combined sums included; a combined point is the sum of the two points of its date.
\<close>

lemma build_points_sound:
  assumes "build env primary weekly snapshots targets previous = Inr f"
    and "period \<in> set periods" and "view \<in> set views"
  shows "let shown = lookup (pf_periods f) period; points = vw_points (lookup shown view)
    in map fst shown = views \<and> (\<forall>p\<in>set points. bounded (vp_point p)) \<and>
       (points = [] \<or> map vp_date points = lookup targets period) \<and>
       vw_points (lookup shown ''combined'') =
         map2 combined_point (vw_points (lookup shown ''regular'')) (vw_points (lookup shown ''feeding''))"
proof -
  obtain component_of where rows: "rmap (\<lambda>period. rbind (period_views env (component_of period) (lookup targets period) period)
      (\<lambda>v. Inr (period, v))) periods = Inr (pf_periods f)"
    using assms(1) unfolding build_def Let_def by auto
  have fst: "map fst (pf_periods f) = map (\<lambda>x. x) periods" by (rule rmap_map[OF rows]) auto
  have "list_all (\<lambda>(p, v). period_views env (component_of p) (lookup targets p) p = Inr v) (pf_periods f)"
    by (rule rmap_all[OF rows]) auto
  moreover have "(period, lookup (pf_periods f) period) \<in> set (pf_periods f)"
  proof -
    from fst assms(2) have "period \<in> fst ` set (pf_periods f)" by (metis list.map_ident set_map)
    then obtain v where "map_of (pf_periods f) period = Some v" by (metis map_of_eq_None_iff not_None_eq)
    then show ?thesis using map_of_SomeD by (fastforce simp: lookup_def)
  qed
  ultimately have v: "period_views env (component_of period) (lookup targets period) period = Inr (lookup (pf_periods f) period)"
    by (auto simp: list_all_iff)
  note s = period_views_sound[OF v]
  have "(view, lookup (lookup (pf_periods f) period) view) \<in> set (lookup (pf_periods f) period)"
  proof -
    from s(1) assms(3) have "view \<in> fst ` set (lookup (pf_periods f) period)" by (metis set_map)
    then obtain w where "map_of (lookup (pf_periods f) period) view = Some w" by (metis map_of_eq_None_iff not_None_eq)
    then show ?thesis using map_of_SomeD by (fastforce simp: lookup_def)
  qed
  with s show ?thesis by (fastforce simp: Let_def list_all_iff)
qed

definition demo_projecting :: "(dec, unit) projecting" where
  "demo_projecting = \<lparr>pj_fit = \<lambda>_ _. None, pj_forecast = \<lambda>_ n. replicate n (Some (100, 80, 130)), pj_adapt = \<lambda>_ _. None,
     pj_learning = demo_learning\<rparr>"

definition demo_component :: "unit component" where
  "demo_component = (no_component ''provisional'')\<lparr>cp_state := Some \<lparr>ps_name = ''seasonal_ar'', ps_start = 739607, ps_through = 739614,
     ps_fit = ()\<rparr>\<rparr>"

definition demo_weekly :: "(unit, unit) weekly_dependency" where
  "demo_weekly = \<lparr>wd_status = ''saved_sarima'', wd_rows = [], wd_dependency = (), wd_component = demo_component\<rparr>"


subsection \<open>Saved runs and the current source\<close>

lemma refresh_projections_result:
  assumes "refresh_projections env policy lt clock today src src' now runs runs' = Inr (r, created, out)"
  shows "pv_source r = context_of env policy lt today src \<and> pv_engine r = projection_version \<and> r \<in> set out \<and>
    (out = runs \<or> out = runs' \<or> (created \<and> out = runs' @ [r] \<and> context_of env policy lt today src' = pv_source r \<and>
       find_run (pv_source r) runs' = None \<and> pv_id r = new_pk pv_id runs'))"
proof -
  let ?i = "context_of env policy lt today src"
  have ctx: "\<not> clock < today" using assms by (auto simp: refresh_projections_def projection_context_def split: if_splits)
  show ?thesis
  proof (cases "find_run ?i runs")
    case (Some x)
    then have "pv_engine x = projection_version \<and> pv_source x = ?i \<and> x \<in> set runs"
      by (auto simp: find_run_def find_Some_iff)
    with assms ctx Some show ?thesis by (auto simp: refresh_projections_def projection_context_def)
  next
    case None
    show ?thesis
    proof (cases "find_run ?i runs'")
      case (Some x)
      then have "pv_engine x = projection_version \<and> pv_source x = ?i \<and> x \<in> set runs'"
        by (auto simp: find_run_def find_Some_iff)
      with assms ctx None Some show ?thesis
        by (auto simp: refresh_projections_def projection_context_def split: if_splits)
    next
      assume n: "find_run ?i runs' = None"
      from assms ctx None n show ?thesis
        by (auto simp: refresh_projections_def projection_context_def Let_def split: if_splits)
    qed
  qed
qed

text \<open>
  The table of runs as refreshes fill it. Each reads the table once before it fits (an earlier state \<open>take k runs\<close>)
  and once when it holds the lock, and reads a ledger each time.
\<close>

inductive projection_runs ::
    "('f, 'a) projecting \<Rightarrow> policy \<Rightarrow> (nat \<Rightarrow> dec option) \<Rightarrow> ('f, 'a, 'w) proj_run list \<Rightarrow> bool" for env policy lt where
  no_runs: "projection_runs env policy lt []"
| refreshed: "\<lbrakk>projection_runs env policy lt runs;
     refresh_projections env policy lt clock today src src' now (take k runs) runs = Inr (r, created, out)\<rbrakk>
   \<Longrightarrow> projection_runs env policy lt (if created then out else runs)"

definition run_sound :: "('f, 'a) projecting \<Rightarrow> ('f, 'a, 'w) proj_run \<Rightarrow> bool" where
  "run_sound env r \<longleftrightarrow> (\<exists>primary weekly snapshots previous.
     build env primary weekly snapshots (id_targets (pv_source r)) previous = Inr (pv_findings r) \<and>
     id_sources (pv_source r) = map (\<lambda>(p, s). (p, sn_revision s)) snapshots)"

lemma build_frame:
  "build env primary weekly snapshots targets previous = Inr f \<Longrightarrow>
   pf_targets f = targets \<and> pf_sources f = map (\<lambda>(p, s). (p, sn_revision s)) snapshots"
  by (auto simp: build_def Let_def)

lemma refresh_projections_new:
  assumes "refresh_projections env policy lt clock today src src' now runs runs' = Inr (r, True, out)"
  shows "out = runs' @ [r] \<and> run_sound env r \<and> find_run (pv_source r) runs' = None \<and> pv_engine r = projection_version \<and>
    pv_digest r = pv_findings r \<and> pv_source r = context_of env policy lt today src' \<and> pv_id r = new_pk pv_id runs'"
proof -
  let ?p = "primary_monthly env (lookup (project_snapshots policy lt today (so_sales src)) ''monthly'') (so_models src)"
    and ?w = "so_weekly src (lookup (project_snapshots policy lt today (so_sales src)) ''weekly'')"
    and ?i = "context_of env policy lt today src"
  obtain f where b: "build env ?p ?w (project_snapshots policy lt today (so_sales src)) (targets_for today) (previous_components runs) = Inr f"
    and n: "find_run ?i runs' = None" and i: "context_of env policy lt today src' = ?i"
    and r: "r = \<lparr>pv_id = new_pk pv_id runs', pv_engine = projection_version, pv_source = ?i, pv_findings = f, pv_digest = f,
              pv_created = now\<rparr>" "out = runs' @ [r]"
    using assms by (auto simp: refresh_projections_def projection_context_def Let_def split: if_splits option.splits)
  have t: "id_targets ?i = targets_for today"
    "id_sources ?i = map (\<lambda>(p, s). (p, sn_revision s)) (project_snapshots policy lt today (so_sales src))"
    by (simp_all add: context_of_def Let_def)
  have "run_sound env r" unfolding run_sound_def r(1) proj_run.simps t using b by blast
  with n i r show ?thesis by simp
qed

definition runs_ok :: "('f, 'a) projecting \<Rightarrow> ('f, 'a, 'w) proj_run list \<Rightarrow> bool" where
  "runs_ok env runs \<longleftrightarrow> list_all (run_sound env) runs \<and> distinct (map pv_id runs) \<and>
     distinct (map pv_source runs) \<and> list_all (\<lambda>r. pv_engine r = projection_version) runs"

lemma projection_runs_ok: "projection_runs env policy lt runs \<Longrightarrow> runs_ok env runs"
proof (induction rule: projection_runs.induct)
  case no_runs
  then show ?case by (simp add: runs_ok_def)
next
  case (refreshed runs clock today src src' now k r created out)
  show ?case
  proof (cases created)
    case True
    then have new: "refresh_projections env policy lt clock today src src' now (take k runs) runs = Inr (r, True, out)"
      using refreshed(2) by simp
    note n = refresh_projections_new[OF new]
    then have "pv_source r \<notin> pv_source ` set runs"
      using refreshed(3) by (auto simp: find_run_def find_None_iff runs_ok_def list_all_iff)
    with n refreshed(3) True show ?thesis by (auto simp: runs_ok_def)
  qed (use refreshed in simp)
qed

subsection \<open>Reused components\<close>

text \<open>
  A refresh may take a component from the run before it. Every stored component is what \<^verbatim>\<open>build\<close> makes of
  its signature's inputs with no run before it, so taking it over changes nothing: the signature contains the
  series (and the approved model or the identity of the weekly model) that the component is made from.
\<close>

definition comps_fresh :: "('f, 'a) projecting \<Rightarrow> ('f, 'a, 'w) components \<Rightarrow> bool" where
  "comps_fresh env comps \<longleftrightarrow> (\<forall>((segment, period), stored)\<in>set comps. \<exists>primary (weekly :: ('w, 'a) weekly_dependency) s.
     stored = build_component env primary weekly [] s period segment)"

lemma not_reusable: "reusable [] key signature = None"
  by (simp add: reusable_def)

lemma weekly_identity_status: "weekly_identity w = weekly_identity w' \<Longrightarrow> wd_status w = wd_status w'"
  by (auto simp: weekly_identity_def split: if_splits)

lemma build_component_other:
  "(segment, period) \<noteq> (''regular'', ''weekly'') \<Longrightarrow>
   build_component env primary w previous s period segment = build_component env primary w' previous s period segment"
  by (auto simp: build_component_def Let_def)

lemma reusable_fresh:
  assumes "comps_fresh env previous" "reusable previous (segment, period) signature = Some old"
  shows "\<exists>primary weekly s. (signature, old) = build_component env primary weekly [] s period segment"
proof -
  from assms(2) have "((segment, period), (signature, old)) \<in> set previous"
    by (auto simp: reusable_def dest: map_of_SomeD split: option.splits if_splits)
  with assms(1) show ?thesis unfolding comps_fresh_def by blast
qed

lemma build_component_reuse:
  fixes previous :: "('f, 'a, 'w) components"
  assumes "comps_fresh env previous"
  shows "\<exists>w'. weekly_identity w' = weekly_identity w \<and>
    build_component env primary w previous s period segment = build_component env primary w' [] s period segment"
proof -
  let ?rows = "series s segment period"
  consider (primary) "segment = ''regular''" "period = ''monthly''" | (weekly) "segment = ''regular''" "period = ''weekly''"
    | (other) "\<not> (segment = ''regular'' \<and> period = ''monthly'')" "\<not> (segment = ''regular'' \<and> period = ''weekly'')" by blast
  then show ?thesis
  proof cases
    case primary
    show ?thesis
    proof (cases "reusable previous (segment, period) (SigPrimary ?rows primary)")
      case (Some old)
      from reusable_fresh[OF assms this] obtain p0 s0 and w0 :: "('w, 'a) weekly_dependency" where
        "(SigPrimary ?rows primary, old) = build_component env p0 w0 [] s0 period segment" by blast
      with Some show ?thesis using primary
        by (intro exI[of _ w]) (auto simp: build_component_def Let_def not_reusable fill_def)
    qed (intro exI[of _ w], use primary in \<open>simp add: build_component_def Let_def not_reusable\<close>)
  next
    case weekly
    show ?thesis
    proof (cases "reusable previous (segment, period) (SigWeekly ?rows (weekly_identity w))")
      case (Some old)
      from reusable_fresh[OF assms this] obtain p0 w0 s0 where
        old: "(SigWeekly ?rows (weekly_identity w), old) = build_component env p0 w0 [] s0 period segment" by blast
      then have i: "weekly_identity w0 = weekly_identity w" "series s0 segment period = ?rows"
        using weekly by (simp_all add: build_component_def Let_def)
      from weekly_identity_status[OF i(1)] have st: "wd_status w0 = wd_status w" .
      have "build_component env primary w previous s period segment = build_component env primary w0 [] s period segment"
        using old Some weekly i(2) by (auto simp: build_component_def Let_def not_reusable st i(1) fill_def)
      with i(1) show ?thesis by blast
    qed (intro exI[of _ w], use weekly in \<open>simp add: build_component_def Let_def not_reusable\<close>)
  next
    case other
    show ?thesis
    proof (cases "reusable previous (segment, period) (SigRows ?rows)")
      case (Some old)
      from reusable_fresh[OF assms this] obtain p0 s0 and w0 :: "('w, 'a) weekly_dependency" where
        "(SigRows ?rows, old) = build_component env p0 w0 [] s0 period segment" by blast
      with Some show ?thesis using other
        by (intro exI[of _ w]) (auto simp: build_component_def Let_def not_reusable fill_def)
    qed (intro exI[of _ w], use other in \<open>auto simp: build_component_def Let_def not_reusable\<close>)
  qed
qed

lemma build_reuse:
  assumes "comps_fresh env previous"
  shows "\<exists>w'. weekly_identity w' = weekly_identity w \<and>
    build env primary w snapshots targets previous = build env primary w' snapshots targets []"
proof -
  obtain w' where w: "weekly_identity w' = weekly_identity w"
    "build_component env primary w previous (lookup snapshots ''weekly'') ''weekly'' ''regular'' =
     build_component env primary w' [] (lookup snapshots ''weekly'') ''weekly'' ''regular''"
    using build_component_reuse[OF assms] by blast
  have "build_component env primary w previous (lookup snapshots period) period segment =
        build_component env primary w' [] (lookup snapshots period) period segment" for period segment
  proof (cases "(segment, period) = (''regular'', ''weekly'')")
    case False
    obtain v where "build_component env primary w previous (lookup snapshots period) period segment =
        build_component env primary v [] (lookup snapshots period) period segment" using build_component_reuse[OF assms] by blast
    with build_component_other[OF False] show ?thesis by metis
  qed (use w(2) in simp)
  with w(1) show ?thesis by (intro exI[of _ w']) (simp add: build_def)
qed

text \<open>The sales decide the series, and the revisions of the snapshots decide the sales.\<close>

lemma build_component_sales:
  "sn_sales s = sn_sales s' \<Longrightarrow> build_component env primary w previous s period segment = build_component env primary w previous s' period segment"
  by (simp add: build_component_def series_def period_totals_def)

lemma build_revision:
  assumes "build env primary w snapshots targets previous = Inr f"
    and "map (\<lambda>(p, s). (p, sn_revision s)) snapshots = map (\<lambda>(p, s). (p, sn_revision s)) snapshots'"
  shows "\<exists>f'. build env primary w snapshots' targets previous = Inr f' \<and> pf_periods f' = pf_periods f \<and> pf_components f' = pf_components f"
proof -
  have m: "map_option sn_revision (map_of snapshots p) = map_option sn_revision (map_of snapshots' p)" for p
    using arg_cong[OF assms(2), of "\<lambda>xs. map_of xs p"] by (simp add: map_of_map)
  have sales: "sn_sales (lookup snapshots p) = sn_sales (lookup snapshots' p)" for p
    using m[of p] by (cases "map_of snapshots p"; cases "map_of snapshots' p") (auto simp: lookup_def sn_revision_def)
  note c = build_component_sales[OF sales]
  show ?thesis using assms(1) unfolding build_def Let_def c by auto
qed

lemma build_components:
  assumes "build env primary w snapshots targets [] = Inr f"
  shows "comps_fresh env (pf_components f)"
proof -
  have "pf_components f = map (\<lambda>(period, segment). ((segment, period), build_component env primary w [] (lookup snapshots period) period segment))
      (List.product [''weekly'', ''monthly''] [''regular'', ''feeding''])"
    using assms unfolding build_def Let_def rbind_Inr_iff by auto
  then have "\<exists>period segment. x = ((segment, period), build_component env primary w [] (lookup snapshots period) period segment)"
    if "x \<in> set (pf_components f)" for x using that by auto
  then show ?thesis unfolding comps_fresh_def by fastforce
qed

definition primary_of :: "('f, 'a) projecting \<Rightarrow> policy \<Rightarrow> (nat \<Rightarrow> dec option) \<Rightarrow> date \<Rightarrow> ('f, 'a, 'w) source \<Rightarrow> ('f, 'a) primary" where
  "primary_of env policy lt today src =
     primary_monthly env (lookup (project_snapshots policy lt today (so_sales src)) ''monthly'') (so_models src)"

text \<open>What a saved run shows is what \<^verbatim>\<open>build\<close> makes of the sales it names, with no earlier run.\<close>

definition run_fresh :: "('f, 'a) projecting \<Rightarrow> policy \<Rightarrow> (nat \<Rightarrow> dec option) \<Rightarrow> ('f, 'a, 'w) proj_run \<Rightarrow> bool" where
  "run_fresh env policy lt r \<longleftrightarrow> (\<exists>day (src :: ('f, 'a, 'w) source) weekly.
     context_of env policy lt day src = pv_source r \<and> weekly_identity weekly = id_weekly (pv_source r) \<and>
     build env (primary_of env policy lt day src) weekly (project_snapshots policy lt day (so_sales src)) (id_targets (pv_source r)) [] =
       Inr (pv_findings r))"

lemma refresh_projections_fresh:
  fixes src :: "('f, 'a, 'w) source"
  assumes r: "refresh_projections env policy lt clock today src src' now runs runs' = Inr (r, True, out)"
    and fresh: "list_all (run_fresh env policy lt) runs"
  shows "run_fresh env policy lt r"
proof -
  let ?S = "project_snapshots policy lt today (so_sales src)" and ?i = "context_of env policy lt today src"
  have b: "build env (primary_of env policy lt today src) (so_weekly src (lookup ?S ''weekly'')) ?S (targets_for today) (previous_components runs) =
      Inr (pv_findings r)" and i: "pv_source r = ?i"
    using r by (auto simp: refresh_projections_def projection_context_def primary_of_def Let_def split: if_splits option.splits)
  have "comps_fresh env (previous_components runs)"
  proof (cases "find (\<lambda>r. pv_engine r = projection_version) (rev runs)")
    case (Some x)
    then have "x \<in> set (rev runs)" unfolding find_Some_iff by (metis nth_mem)
    then have "x \<in> set runs" by simp
    with fresh have "run_fresh env policy lt x" by (simp add: list_all_iff)
    then obtain day weekly and src0 :: "('f, 'a, 'w) source" where
      "build env (primary_of env policy lt day src0) weekly (project_snapshots policy lt day (so_sales src0))
         (id_targets (pv_source x)) [] = Inr (pv_findings x)" unfolding run_fresh_def by blast
    from build_components[OF this] Some show ?thesis by (simp add: previous_components_def)
  qed (simp add: previous_components_def comps_fresh_def)
  from build_reuse[OF this] obtain w where w: "weekly_identity w = weekly_identity (so_weekly src (lookup ?S ''weekly''))"
    "build env (primary_of env policy lt today src) (so_weekly src (lookup ?S ''weekly'')) ?S (targets_for today) (previous_components runs) =
     build env (primary_of env policy lt today src) w ?S (targets_for today) []" by blast
  have "id_weekly ?i = weekly_identity (so_weekly src (lookup ?S ''weekly''))" "id_targets ?i = targets_for today"
    by (simp_all add: context_of_def Let_def)
  with b w i show ?thesis unfolding run_fresh_def by metis
qed

lemma projection_runs_fresh: "projection_runs env policy lt runs \<Longrightarrow> list_all (run_fresh env policy lt) runs"
proof (induction rule: projection_runs.induct)
  case (refreshed runs clock today src src' now k r created out)
  show ?case
  proof (cases created)
    case True
    then have new: "refresh_projections env policy lt clock today src src' now (take k runs) runs = Inr (r, True, out)"
      using refreshed(2) by simp
    have "list_all (run_fresh env policy lt) (take k runs)" using refreshed(3) by (auto simp: list_all_iff dest: in_set_takeD)
    from refresh_projections_fresh[OF new this] refresh_projections_new[OF new] refreshed(3) True show ?thesis by simp
  qed (use refreshed in simp)
qed simp


definition demo_source :: "(dec, unit, unit) source" where
  "demo_source = \<lparr>so_sales = demo_sales, so_models = empty_forecasts, so_weekly = \<lambda>_. demo_weekly\<rparr>"

lemma demo_weekly_targets: "lookup (targets_for 739620) ''weekly'' = map (\<lambda>n. 739614 + 7 * int n) [1..<14]"
  by (simp add: lookup_def targets_for_def advance_def start_of_def weekday_def)

lemma demo_rows: "case future_rows demo_projecting demo_component (map (\<lambda>n. 739614 + 7 * int n) [1..<14]) ''weekly'' of
   Inl e \<Rightarrow> False | Inr points \<Rightarrow> length points = 13 \<and> list_all (\<lambda>p. pp_upper (vp_point p) = 13000) points"
  by code_simp

lemma demo_points: "\<exists>points. future_rows demo_projecting demo_component (lookup (targets_for 739620) ''weekly'') ''weekly'' = Inr points \<and>
   length points = 13 \<and> (\<forall>p\<in>set points. pp_upper (vp_point p) = 13000)"
proof -
  note r = demo_rows
  show ?thesis
  proof (cases "future_rows demo_projecting demo_component (map (\<lambda>n. 739614 + 7 * int n) [1..<14]) ''weekly''")
    case (Inl e)
    show ?thesis using r unfolding Inl sum.case by simp
  next
    case (Inr points)
    show ?thesis using r Inr unfolding Inr sum.case demo_weekly_targets list_all_iff by blast
  qed
qed

definition demo_upper :: "('f, 'a, 'w) proj_findings \<Rightarrow> bool" where
  "demo_upper f \<longleftrightarrow> (\<forall>period\<in>set periods. \<forall>view\<in>set views.
     \<forall>p\<in>set (vw_points (lookup (lookup (pf_periods f) period) view)). pp_upper (vp_point p) = 13000)"

lemma empty_series: "sn_sales s = [] \<Longrightarrow> series s segment period = []"
  by (simp add: series_def period_totals_def group_sums_def)

lemma demo_no_sales: "sn_sales (load_snapshot [] (\<lambda>_. None) day demo_sales) = []"
  by (simp add: load_snapshot_def load_source_def make_snapshot_def demo_sales_def)

lemma no_state_rows: "cp_state c = None \<Longrightarrow> future_rows env c targets period = Inr []"
  by (simp add: future_rows_def)

lemma demo_short_history: "train_component demo_projecting [] period = no_component ''insufficient_data''"
  by (simp add: train_component_def observed_at_def)

lemma demo_built:
  assumes "sn_sales s = []" "sn_sales s' = []" "cp_state (snd primary) = None"
  shows "\<exists>f. build demo_projecting primary demo_weekly [(''weekly'', s), (''monthly'', s')] (targets_for 739620) [] = Inr f \<and>
    length (vw_points (lookup (lookup (pf_periods f) ''weekly'') ''regular'')) = 13 \<and> demo_upper f"
proof -
  from demo_points obtain points where p: "future_rows demo_projecting demo_component (lookup (targets_for 739620) ''weekly'') ''weekly'' = Inr points"
    "length points = 13" "\<forall>p\<in>set points. pp_upper (vp_point p) = 13000" by blast
  have w: "snd (build_component demo_projecting primary demo_weekly [] s ''weekly'' ''regular'') = demo_component"
    by (simp add: build_component_def Let_def demo_weekly_def reusable_def fill_def)
  have n: "cp_state (snd (build_component demo_projecting primary demo_weekly [] t period segment)) = None"
    if "sn_sales t = []" "(segment, period) \<noteq> (''regular'', ''weekly'')" for t segment period
    using that assms(3) by (auto simp: build_component_def Let_def reusable_def fill_def empty_series demo_short_history no_component_def)
  show ?thesis
    using n[of s "''feeding''" "''weekly''"] n[of s' "''regular''" "''monthly''"] n[of s' "''feeding''" "''monthly''"] assms p[unfolded lookup_def] w
    by (simp add: build_def Let_def periods_def period_views_def segment_view_def no_state_rows unit_of_def lookup_def
        demo_upper_def views_def combined_view_def del: rbind_Inr_iff)
qed

lemma demo_primary:
  assumes "sn_sales s = []"
  shows "cp_state (snd (primary_monthly env s empty_forecasts)) = None"
proof -
  have r: "run_lookup s h [] = None" for h by (simp add: run_lookup_def)
  show ?thesis by (auto simp: primary_monthly_def Let_def empty_forecasts_def r no_component_def)
qed

lemma report_of_new:
  assumes "projection_context env policy lt clock today src = Inr (snapshots, targets, revision)"
    and "find_run revision runs = Some r" "pv_digest r = pv_findings r"
  shows "\<exists>shown. projection_report env policy lt clock today src runs period =
      Inr (Chart (pv_id r) shown (lookup targets period) (pf_sources (pv_findings r))) \<and>
    (\<exists>age late. shown ! 0 = (''regular'', lookup (lookup (pf_periods (pv_findings r)) period) ''regular'', age, late)) \<and> shown \<noteq> []"
  using assms by (simp add: projection_report_def Let_def)

lemma demo_refreshed:
  "\<exists>r. refresh_projections demo_projecting [] (\<lambda>_. None) 739620 739620 demo_source demo_source 0 [] [] = Inr (r, True, [r]) \<and>
     find_run (context_of demo_projecting [] (\<lambda>_. None) 739620 demo_source) [r] = Some r \<and> pv_created r = 0 \<and>
     pv_digest r = pv_findings r \<and> length (vw_points (lookup (lookup (pf_periods (pv_findings r)) ''weekly'') ''regular'')) = 13 \<and>
     demo_upper (pv_findings r)"
proof -
  let ?s = "project_snapshots [] (\<lambda>_. None) 739620 demo_sales"
  let ?w = "load_snapshot [] (\<lambda>_. None) (start_of 739620 ''weekly'') demo_sales"
    and ?m = "load_snapshot [] (\<lambda>_. None) (start_of 739620 ''monthly'') demo_sales"
  let ?i = "context_of demo_projecting [] (\<lambda>_. None) 739620 demo_source"
  have s: "?s = [(''weekly'', ?w), (''monthly'', ?m)]" by (simp add: project_snapshots_def)
  have c: "projection_context demo_projecting [] (\<lambda>_. None) 739620 739620 demo_source = Inr (?s, targets_for 739620, ?i)"
    by (simp add: projection_context_def demo_source_def)
  obtain f where f: "build demo_projecting (primary_monthly demo_projecting ?m empty_forecasts) demo_weekly ?s (targets_for 739620) [] = Inr f"
    "length (vw_points (lookup (lookup (pf_periods f) ''weekly'') ''regular'')) = 13" "demo_upper f"
    using demo_built[OF demo_no_sales[of "start_of 739620 ''weekly''"] demo_no_sales[of "start_of 739620 ''monthly''"]
        demo_primary[OF demo_no_sales[of "start_of 739620 ''monthly''"], of demo_projecting]]
    unfolding s by blast
  define r where "r = \<lparr>pv_id = new_pk pv_id ([] :: (dec, unit, unit) proj_run list), pv_engine = projection_version, pv_source = ?i,
    pv_findings = f, pv_digest = f, pv_created = 0\<rparr>"
  have l: "lookup ?s ''monthly'' = ?m" by (simp add: s lookup_def)
  have m: "so_models demo_source = empty_forecasts" "so_weekly demo_source = (\<lambda>_. demo_weekly)" "so_sales demo_source = demo_sales"
    by (simp_all add: demo_source_def)
  have "refresh_projections demo_projecting [] (\<lambda>_. None) 739620 739620 demo_source demo_source 0 [] [] = Inr (r, True, [r])"
    unfolding refresh_projections_def c rbind.simps prod.case find_run_def find.simps option.case previous_components_def rev.simps
      m l f(1) by (simp add: r_def Let_def)
  moreover have "find_run ?i [r] = Some r" by (simp add: find_run_def r_def)
  ultimately show ?thesis using f(2,3) by (intro exI[of _ r]) (simp add: r_def)
qed


end
