(* ===== verification/Projection_Evidence.thy ===== *)
theory Projection_Evidence
  imports Projections "HOL-Library.List_Lexorder" "HOL-Library.Char_ord"
begin

text \<open>
  The prospective evidence of the rough projections (\<^verbatim>\<open>forecasting/prospective.py\<close>, its tables in
  \<^verbatim>\<open>forecasting/models.py\<close> and the commands \<^verbatim>\<open>refresh_projection_evidence\<close> and \<^verbatim>\<open>verify_projection_coverage\<close>):
  the first projection of every target period is kept, an admin reviews the sales of a completed period, and
  a kept projection is scored against reviewed sales only. A revision is the content whose digest it is; the
  digest of a run's findings that an issue repeats is read through its run.
  Quotients in the report are exact; the code shows the nearest floating point number.
\<close>

subsection \<open>Tables\<close>

definition segments :: "string list" where
  "segments = [''regular'', ''feeding'']"

definition segments_of :: "string \<Rightarrow> string list" where
  "segments_of view = (if view = ''combined'' then segments else [view])"

type_synonym outcome_content = "(nat \<times> date \<times> string \<times> string \<times> string \<times> dec) list"
type_synonym reviewed_content = "(string \<times> outcome_content \<times> nat) list"

record proj_review =
  pc_id :: nat
  pc_period :: string
  pc_segment :: string
  pc_target :: date
  pc_revision :: outcome_content
  pc_zero :: bool
  pc_by :: nat
  pc_note :: string

record proj_issue =
  px_id :: nat
  px_run :: nat
  px_engine :: string
  px_period :: string
  px_view :: string
  px_origin :: date
  px_target :: date
  px_horizon :: nat
  px_value :: dec
  px_lower :: dec
  px_upper :: dec
  px_baseline :: "dec option"
  px_sources :: "(string \<times> sales_revision) list"
  px_basis :: "string \<times> string"
  px_at :: instant

record proj_score =
  xs_issued :: nat
  xs_revision :: reviewed_content
  xs_actual :: dec
  xs_error :: dec
  xs_absolute :: dec
  xs_base_absolute :: "dec option"
  xs_within :: bool

record ('f, 'a, 'w) evidence_db =
  eb_runs :: "('f, 'a, 'w) proj_run list"
  eb_reviews :: "proj_review list"
  eb_issues :: "proj_issue list"
  eb_scores :: "proj_score list"


subsection \<open>Periods and their sales\<close>

definition boundary :: "date \<Rightarrow> string \<Rightarrow> date res" where
  "boundary day period =
     (if period \<notin> set periods then Inl (ValueError ''Use a valid business date and weekly, monthly or yearly period.'')
      else Inr (if period = ''weekly'' then day - weekday day
                else if period = ''yearly'' then mk_date (year_of day) 1 1 else first_of_month day))"

definition period_end :: "date \<Rightarrow> string \<Rightarrow> date" where
  "period_end target period =
     (if period = ''weekly'' then target + 7 else shift_month target (if period = ''yearly'' then 12 else 1))"

definition validate_target :: "date \<Rightarrow> string \<Rightarrow> unit res" where
  "validate_target target period =
     rbind (boundary target period) (\<lambda>b.
       if b \<noteq> target then Inl (ValueError ''Target must be the first business date of the period (Monday for weeks).'') else Inr ())"

record outcome =
  oc_revision :: outcome_content
  oc_actual :: dec
  oc_empty :: bool
  oc_unresolved :: bool

definition period_sales :: "snapshot \<Rightarrow> string \<Rightarrow> date \<Rightarrow> recorded_sale list" where
  "period_sales s period target = filter (\<lambda>x. target \<le> rs_day x \<and> rs_day x < period_end target period) (sn_sales s)"

definition outcome_of :: "snapshot \<Rightarrow> string \<Rightarrow> date \<Rightarrow> string \<Rightarrow> outcome" where
  "outcome_of s period target segment =
     (let rows = filter (\<lambda>x. rs_segment x = segment \<or> rs_segment x = ''unclassified'') (period_sales s period target);
          selected = filter (\<lambda>x. rs_segment x = segment) rows
      in \<lparr>oc_revision = map (\<lambda>x. (rs_id x, rs_day x, rs_key x, rs_name x, rs_segment x, rs_revenue x)) (sort_key rs_id rows),
          oc_actual = (\<Sum>x\<leftarrow>selected. rs_revenue x), oc_empty = (selected = []),
          oc_unresolved = list_ex (\<lambda>x. rs_segment x = ''unclassified'' \<and> rs_revenue x \<noteq> 0) rows\<rparr>)"


subsection \<open>Reviews\<close>

definition same_review :: "string \<Rightarrow> string \<Rightarrow> date \<Rightarrow> outcome_content \<Rightarrow> proj_review \<Rightarrow> bool" where
  "same_review period segment target revision c \<longleftrightarrow>
     pc_period c = period \<and> pc_segment c = segment \<and> pc_target c = target \<and> pc_revision c = revision"

definition attest_projection ::
    "policy \<Rightarrow> (nat \<Rightarrow> dec option) \<Rightarrow> date \<Rightarrow> sales_store \<Rightarrow> user list \<Rightarrow> string \<Rightarrow> string \<Rightarrow> date \<Rightarrow> string \<Rightarrow> string \<Rightarrow> bool \<Rightarrow>
     ('f, 'a, 'w) evidence_db \<Rightarrow> ((proj_review \<times> bool) \<times> ('f, 'a, 'w) evidence_db) res" where
  "attest_projection policy lt today st users period segment target username note confirm_zero db =
     rbind (validate_target target period) (\<lambda>_.
     if segment \<notin> set segments \<or> strip note = []
     then Inl (ValueError ''Review regular or feeding separately and provide a reconciliation note.'')
     else if today < period_end target period then Inl (ValueError ''Only completed periods can be reviewed.'')
     else (case active_reviewer username users of
       None \<Rightarrow> Inl (DoesNotExist ''Users'')
     | Some reviewer \<Rightarrow>
         let result = outcome_of (load_snapshot policy lt today st) period target segment
         in if oc_unresolved result
            then Inl (ValueError ''Resolve nonzero unclassified entries before confirming coverage.'')
            else if oc_empty result \<and> \<not> confirm_zero
            then Inl (ValueError ''No observations; --confirm-zero is required after reconciling a true zero period.'')
            else (case find (same_review period segment target (oc_revision result)) (eb_reviews db) of
                Some c \<Rightarrow> Inr ((c, False), db)
              | None \<Rightarrow>
                  let c = \<lparr>pc_id = new_pk pc_id (eb_reviews db), pc_period = period, pc_segment = segment, pc_target = target,
                           pc_revision = oc_revision result, pc_zero = oc_empty result, pc_by = us_id reviewer, pc_note = strip note\<rparr>
                  in Inr ((c, True), db\<lparr>eb_reviews := row_ins c (eb_reviews db)\<rparr>))))"


subsection \<open>Issues\<close>

text \<open>The last observed period of each component; the last row of a series is never unknown.\<close>

definition last_observed :: "snapshot \<Rightarrow> string \<Rightarrow> string \<Rightarrow> dec option" where
  "last_observed s segment period =
     (let rows = series s segment (unit_of period)
      in if rows = [] then None else Some (the (snd (last rows)) * (if period = ''yearly'' then 12 else 1)))"

definition baseline :: "snapshot \<Rightarrow> string \<Rightarrow> string \<Rightarrow> dec option" where
  "baseline s view period = map_option sum_list (those (map (\<lambda>segment. last_observed s segment period) (segments_of view)))"

record issue_job =
  ij_period :: string
  ij_view :: string
  ij_baseline :: "dec option"
  ij_horizon :: nat
  ij_point :: view_point

definition issue_jobs :: "(string \<times> snapshot) list \<Rightarrow> (string \<times> period_views) list \<Rightarrow> issue_job list" where
  "issue_jobs snapshots shown =
     concat (map (\<lambda>period. concat (map (\<lambda>view.
       let reference = baseline (lookup snapshots (unit_of period)) view period
       in map (\<lambda>(n, p). \<lparr>ij_period = period, ij_view = view, ij_baseline = reference, ij_horizon = n, ij_point = p\<rparr>)
            (enumerate 1 (vw_points (lookup (lookup shown period) view)))) views)) periods)"

definition same_issue :: "string \<Rightarrow> string \<Rightarrow> string \<Rightarrow> date \<Rightarrow> date \<Rightarrow> proj_issue \<Rightarrow> bool" where
  "same_issue engine period view origin target i \<longleftrightarrow>
     px_engine i = engine \<and> px_period i = period \<and> px_view i = view \<and> px_origin i = origin \<and> px_target i = target"

text \<open>A number of hundredths in a \<^verbatim>\<open>DecimalField(max_digits=20, decimal_places=2)\<close>, and the four such columns of an issue.\<close>

definition column_fits :: "dec \<Rightarrow> bool" where
  "column_fits x \<longleftrightarrow> \<bar>x\<bar> < 10 ^ 20"

definition columns_fit :: "proj_issue \<Rightarrow> bool" where
  "columns_fit i \<longleftrightarrow> column_fits (px_value i) \<and> column_fits (px_lower i) \<and> column_fits (px_upper i) \<and>
     (case px_baseline i of None \<Rightarrow> True | Some x \<Rightarrow> column_fits x)"

text \<open>A row that the table takes: its numbers fit, and the check constraint \<^verbatim>\<open>projection_issue_valid_bounds\<close> holds.\<close>

definition valid_issue :: "proj_issue \<Rightarrow> bool" where
  "valid_issue i \<longleftrightarrow> columns_fit i \<and> 0 \<le> px_value i \<and> 0 \<le> px_lower i \<and> px_lower i \<le> px_value i \<and> px_value i \<le> px_upper i \<and>
     px_origin i < px_target i \<and> 1 \<le> px_horizon i"

definition issue_point ::
    "(nat \<Rightarrow> instant) \<Rightarrow> date \<Rightarrow> (string \<times> date list) list \<Rightarrow> ('f, 'a, 'w) proj_run \<Rightarrow> nat \<times> ('f, 'a, 'w) evidence_db \<Rightarrow> issue_job \<Rightarrow>
     (nat \<times> ('f, 'a, 'w) evidence_db) res" where
  "issue_point saved today targets run state j =
     (let (created, db) = state; p = vp_point (ij_point j); target = vp_date (ij_point j)
      in rbind (boundary today (ij_period j)) (\<lambda>origin.
         rbind (validate_target target (ij_period j)) (\<lambda>_.
         if target \<le> today \<or> target \<notin> set (lookup targets (ij_period j))
         then Inl (ValueError ''Only future target periods can be issued prospectively.'')
         else if list_ex (same_issue (pv_engine run) (ij_period j) (ij_view j) origin target) (eb_issues db) then Inr (created, db)
         else let i = \<lparr>px_id = new_pk px_id (eb_issues db), px_run = pv_id run, px_engine = pv_engine run, px_period = ij_period j,
                       px_view = ij_view j, px_origin = origin, px_target = target, px_horizon = ij_horizon j,
                       px_value = pp_value p, px_lower = pp_lower p, px_upper = pp_upper p, px_baseline = ij_baseline j,
                       px_sources = pf_sources (pv_findings run), px_basis = (vp_basis (ij_point j), vp_interval (ij_point j)),
                       px_at = saved created\<rparr>
              in if valid_issue i then Inr (created + 1, db\<lparr>eb_issues := row_ins i (eb_issues db)\<rparr>)
                 else Inl (if columns_fit i then IntegrityError else DataError))))"

text \<open>
  \<open>clock\<close> is the day read while the source is read, \<open>saved n\<close> the time stamp of the issue that follows \<open>n\<close> others,
  and \<open>final\<close> the day read at the end of the transaction.
\<close>

definition issue_projections ::
    "('f, 'a) projecting \<Rightarrow> policy \<Rightarrow> (nat \<Rightarrow> dec option) \<Rightarrow> instant \<Rightarrow> date \<Rightarrow> (nat \<Rightarrow> instant) \<Rightarrow> date \<Rightarrow> ('f, 'a, 'w) source \<Rightarrow>
     ('f, 'a, 'w) evidence_db \<Rightarrow> (nat \<times> ('f, 'a, 'w) evidence_db) res" where
  "issue_projections env policy lt now clock saved final src db =
     (let today = local_date now
      in rbind (projection_context env policy lt clock today src) (\<lambda>(snapshots, targets, revision).
         (case find_run revision (eb_runs db) of
            None \<Rightarrow> Inr (0, db)
          | Some run \<Rightarrow>
              if pv_digest run \<noteq> pv_findings run \<or> now < pv_created run
              then Inl (ValueError ''Cannot issue a corrupted or future-dated projection artifact.'')
              else if pf_targets (pv_findings run) \<noteq> targets \<or>
                      pf_sources (pv_findings run) \<noteq> map (\<lambda>(p, s). (p, sn_revision s)) snapshots
              then Inl (ValueError ''Projection evidence does not match current inputs and targets.'')
              else rbind (rfold (issue_point saved today targets run) (0, db) (issue_jobs snapshots (pf_periods (pv_findings run)))) (\<lambda>result.
                if final \<noteq> today then Inl (ValueError ''Business date changed while issuing; retry with current targets.'')
                else Inr result))))"

subsection \<open>Scores\<close>

text \<open>One review per view segment, or none of them counts.\<close>

fun review_loop ::
    "snapshot \<Rightarrow> proj_review list \<Rightarrow> proj_issue \<Rightarrow> string list \<Rightarrow> (string \<times> outcome \<times> nat) list \<Rightarrow> (string \<times> outcome \<times> nat) list option" where
  "review_loop s reviews i [] results = Some results"
| "review_loop s reviews i (segment # rest) results =
     (let result = outcome_of s (px_period i) (px_target i) segment
      in (case find (same_review (px_period i) segment (px_target i) (oc_revision result)) reviews of
            None \<Rightarrow> None
          | Some review \<Rightarrow>
              if oc_unresolved result \<or> (oc_empty result \<and> \<not> pc_zero review) then None
              else review_loop s reviews i rest (results @ [(segment, result, pc_id review)])))"

definition run_created :: "('f, 'a, 'w) proj_run list \<Rightarrow> nat \<Rightarrow> instant" where
  "run_created runs k = pv_created (the (row_get pv_id runs k))"

definition reviewed_outcome :: "snapshot \<Rightarrow> ('f, 'a, 'w) evidence_db \<Rightarrow> proj_issue \<Rightarrow> (dec \<times> reviewed_content) option res" where
  "reviewed_outcome s db i =
     (if sn_as_of s < period_end (px_target i) (px_period i) then Inr None
      else let issued_day = local_date (px_at i)
           in if px_target i \<le> issued_day then Inr None
              else rbind (boundary issued_day (px_period i)) (\<lambda>b.
                if b \<noteq> px_origin i \<or> px_at i < run_created (eb_runs db) (px_run i) then Inr None
                else Inr (map_option (\<lambda>results. (\<Sum>(segment, r, pk)\<leftarrow>results. oc_actual r,
                                                 map (\<lambda>(segment, r, pk). (segment, oc_revision r, pk)) results))
                            (review_loop s (eb_reviews db) i (segments_of (px_view i)) []))))"

definition record_score :: "nat \<times> ('f, 'a, 'w) evidence_db \<Rightarrow> proj_issue \<Rightarrow> (dec \<times> reviewed_content) option \<Rightarrow> nat \<times> ('f, 'a, 'w) evidence_db" where
  "record_score state i result =
     (case result of
        None \<Rightarrow> state
      | Some (actual, revision) \<Rightarrow>
          let (created, db) = state
          in if list_ex (\<lambda>x. xs_issued x = px_id i \<and> xs_revision x = revision) (eb_scores db) then (created, db)
             else (created + 1, db\<lparr>eb_scores := eb_scores db @
                     [\<lparr>xs_issued = px_id i, xs_revision = revision, xs_actual = actual, xs_error = px_value i - actual,
                       xs_absolute = \<bar>px_value i - actual\<bar>, xs_base_absolute = map_option (\<lambda>b. \<bar>b - actual\<bar>) (px_baseline i),
                       xs_within = (px_lower i \<le> actual \<and> actual \<le> px_upper i)\<rparr>]\<rparr>))"

definition score_point :: "snapshot \<Rightarrow> nat \<times> ('f, 'a, 'w) evidence_db \<Rightarrow> proj_issue \<Rightarrow> (nat \<times> ('f, 'a, 'w) evidence_db) res" where
  "score_point s state i = rbind (reviewed_outcome s (snd state) i) (\<lambda>result. Inr (record_score state i result))"

definition score_closed ::
    "policy \<Rightarrow> (nat \<Rightarrow> dec option) \<Rightarrow> date \<Rightarrow> sales_store \<Rightarrow> ('f, 'a, 'w) evidence_db \<Rightarrow> (nat \<times> ('f, 'a, 'w) evidence_db) res" where
  "score_closed policy lt today st db =
     (let s = load_snapshot policy lt today st
      in rfold (score_point s) (0, db) (filter (\<lambda>i. px_target i < sn_as_of s) (eb_issues db)))"

text \<open>The management command: the two services in their own transactions.\<close>

definition refresh_evidence ::
    "('f, 'a) projecting \<Rightarrow> policy \<Rightarrow> (nat \<Rightarrow> dec option) \<Rightarrow> instant \<Rightarrow> date \<Rightarrow> (nat \<Rightarrow> instant) \<Rightarrow> date \<Rightarrow> ('f, 'a, 'w) source \<Rightarrow>
     date \<Rightarrow> sales_store \<Rightarrow> ('f, 'a, 'w) evidence_db \<Rightarrow> (nat \<times> nat) res \<times> ('f, 'a, 'w) evidence_db" where
  "refresh_evidence env policy lt now clock saved final src day st db =
     (case issue_projections env policy lt now clock saved final src db of
        Inl e \<Rightarrow> (Inl e, db)
      | Inr (issues, db1) \<Rightarrow>
          (case score_closed policy lt day st db1 of Inl e \<Rightarrow> (Inl e, db1) | Inr (scores, db2) \<Rightarrow> (Inr (issues, scores), db2)))"


subsection \<open>The report\<close>

datatype standing = AwaitingOutcome | AwaitingReview | Scored proj_score

definition standing_of :: "snapshot \<Rightarrow> ('f, 'a, 'w) evidence_db \<Rightarrow> proj_issue \<Rightarrow> standing res" where
  "standing_of s db i =
     (if sn_as_of s < period_end (px_target i) (px_period i) then Inr AwaitingOutcome
      else rbind (reviewed_outcome s db i) (\<lambda>result.
        Inr (case Option.bind result (\<lambda>(actual, revision). find (\<lambda>x. xs_issued x = px_id i \<and> xs_revision x = revision) (eb_scores db)) of
               None \<Rightarrow> AwaitingReview | Some x \<Rightarrow> Scored x)))"

type_synonym group_key = "string \<times> string \<times> string \<times> nat"

definition key_of :: "proj_issue \<Rightarrow> group_key" where
  "key_of i = (px_engine i, px_period i, px_view i, px_horizon i)"

record evidence_row =
  er_key :: group_key
  er_issued :: nat
  er_awaiting :: nat
  er_unreviewed :: nat
  er_scored :: nat
  er_wape :: "rat option"
  er_mae :: "rat option"
  er_bias :: "rat option"
  er_paired :: nat
  er_base_wape :: "rat option"
  er_paired_wape :: "rat option"
  er_coverage :: "rat option"

text \<open>Percentages and amounts as exact quotients, amounts in hundredths.\<close>

definition quotient :: "int \<Rightarrow> int \<Rightarrow> rat option" where
  "quotient n d = (if d = 0 then None else Some (of_int n / of_int d))"

definition wape :: "int list \<Rightarrow> int \<Rightarrow> rat option" where
  "wape errors denominator = quotient (100 * sum_list errors) denominator"

definition evidence_row_of :: "(proj_issue \<times> standing) list \<Rightarrow> group_key \<Rightarrow> evidence_row" where
  "evidence_row_of judged key =
     (let group = map snd (filter (\<lambda>(i, x). key_of i = key) judged);
          points = List.map_filter (\<lambda>x. case x of Scored p \<Rightarrow> Some p | _ \<Rightarrow> None) group;
          actual = (\<Sum>p\<leftarrow>points. \<bar>xs_actual p\<bar>);
          paired = filter (\<lambda>p. xs_base_absolute p \<noteq> None) points;
          paired_actual = (\<Sum>p\<leftarrow>paired. \<bar>xs_actual p\<bar>)
      in \<lparr>er_key = key, er_issued = length group, er_awaiting = length (filter (\<lambda>x. x = AwaitingOutcome) group),
          er_unreviewed = length (filter (\<lambda>x. x = AwaitingReview) group), er_scored = length points,
          er_wape = wape (map xs_absolute points) actual, er_mae = quotient (\<Sum>p\<leftarrow>points. xs_absolute p) (int (length points)),
          er_bias = quotient (\<Sum>p\<leftarrow>points. xs_error p) (int (length points)), er_paired = length paired,
          er_base_wape = wape (map (\<lambda>p. the (xs_base_absolute p)) paired) paired_actual,
          er_paired_wape = wape (map xs_absolute paired) paired_actual,
          er_coverage = quotient (100 * int (length (filter xs_within points))) (int (length points))\<rparr>)"

definition evidence_report ::
    "policy \<Rightarrow> (nat \<Rightarrow> dec option) \<Rightarrow> date \<Rightarrow> sales_store \<Rightarrow> ('f, 'a, 'w) evidence_db \<Rightarrow> evidence_row list res" where
  "evidence_report policy lt today st db =
     (let s = load_snapshot policy lt today st; issues = sort_key px_id (eb_issues db)
      in rbind (rmap (standing_of s db) issues) (\<lambda>standings.
         Inr (map (evidence_row_of (zip issues standings)) (sort (remdups (map key_of issues))))))"

subsection \<open>The invariant of the tables\<close>

definition issue_key :: "proj_issue \<Rightarrow> string \<times> string \<times> string \<times> date \<times> date" where
  "issue_key i = (px_engine i, px_period i, px_view i, px_origin i, px_target i)"

definition content_total :: "reviewed_content \<Rightarrow> dec" where
  "content_total revision =
     (\<Sum>(segment, content, pk)\<leftarrow>revision. \<Sum>(k, day, key, name, seg, revenue)\<leftarrow>filter (\<lambda>(k, day, key, name, seg, revenue). seg = segment) content. revenue)"

definition issue_sound :: "('f, 'a, 'w) proj_run list \<Rightarrow> proj_issue \<Rightarrow> bool" where
  "issue_sound runs i \<longleftrightarrow> valid_issue i \<and> local_date (px_at i) < px_target i \<and>
     boundary (local_date (px_at i)) (px_period i) = Inr (px_origin i) \<and>
     boundary (px_target i) (px_period i) = Inr (px_target i) \<and>
     (\<exists>r\<in>set runs. pv_id r = px_run i \<and> pv_engine r = px_engine i \<and> pv_created r \<le> px_at i)"

definition score_sound :: "proj_issue list \<Rightarrow> proj_review list \<Rightarrow> proj_score \<Rightarrow> bool" where
  "score_sound issues reviews x \<longleftrightarrow> (\<exists>i\<in>set issues.
     xs_issued x = px_id i \<and> xs_actual x = content_total (xs_revision x) \<and> xs_error x = px_value i - xs_actual x \<and>
     xs_absolute x = \<bar>xs_error x\<bar> \<and> xs_within x = (px_lower i \<le> xs_actual x \<and> xs_actual x \<le> px_upper i) \<and>
     map fst (xs_revision x) = segments_of (px_view i) \<and>
     (\<forall>(segment, content, pk)\<in>set (xs_revision x). \<exists>c\<in>set reviews.
        pc_id c = pk \<and> same_review (px_period i) segment (px_target i) content c))"

definition evidence_ok :: "('f, 'a, 'w) evidence_db \<Rightarrow> bool" where
  "evidence_ok db \<longleftrightarrow> keys_ok pv_id (eb_runs db) \<and> keys_ok px_id (eb_issues db) \<and> distinct (map issue_key (eb_issues db)) \<and>
     list_all (issue_sound (eb_runs db)) (eb_issues db) \<and> keys_ok pc_id (eb_reviews db) \<and>
     list_all (score_sound (eb_issues db) (eb_reviews db)) (eb_scores db) \<and>
     distinct (map (\<lambda>x. (xs_issued x, xs_revision x)) (eb_scores db))"

definition evidence_extends :: "('f, 'a, 'w) evidence_db \<Rightarrow> ('f, 'a, 'w) evidence_db \<Rightarrow> bool" where
  "evidence_extends db db' \<longleftrightarrow> (\<exists>runs reviews issues scores. eb_runs db' = eb_runs db @ runs \<and> eb_reviews db' = eb_reviews db @ reviews \<and>
     eb_issues db' = eb_issues db @ issues \<and> eb_scores db' = eb_scores db @ scores)"

lemma evidence_extends_refl: "evidence_extends db db"
  by (simp add: evidence_extends_def)

lemma evidence_extends_trans: "evidence_extends a b \<Longrightarrow> evidence_extends b c \<Longrightarrow> evidence_extends a c"
  by (auto simp: evidence_extends_def)

lemma score_sound_more:
  "score_sound issues reviews x \<Longrightarrow> set issues \<subseteq> set issues' \<Longrightarrow> set reviews \<subseteq> set reviews' \<Longrightarrow> score_sound issues' reviews' x"
  unfolding score_sound_def by fast

lemma scores_sound_more:
  "list_all (score_sound issues reviews) xs \<Longrightarrow> set issues \<subseteq> set issues' \<Longrightarrow> set reviews \<subseteq> set reviews' \<Longrightarrow>
   list_all (score_sound issues' reviews') xs"
  by (auto simp: list_all_iff intro: score_sound_more)

lemma issue_sound_more: "issue_sound runs i \<Longrightarrow> set runs \<subseteq> set runs' \<Longrightarrow> issue_sound runs' i"
  unfolding issue_sound_def by fast

lemma attest_projection_ok:
  assumes "attest_projection policy lt today st users period segment target username note zero db = Inr (r, db')" "evidence_ok db"
  shows "evidence_ok db' \<and> evidence_extends db db'"
proof -
  from assms(1) consider "db' = db"
    | c where "db' = db\<lparr>eb_reviews := eb_reviews db @ [c]\<rparr>" "pc_id c = new_pk pc_id (eb_reviews db)"
    by (auto simp: attest_projection_def row_ins_def Let_def split: if_splits option.splits)
  then show ?thesis
  proof cases
    case 2
    have "list_all (score_sound (eb_issues db) (eb_reviews db @ [c])) (eb_scores db)"
      by (rule scores_sound_more[of "eb_issues db" "eb_reviews db"]) (use assms(2) in \<open>auto simp: evidence_ok_def\<close>)
    then have "evidence_ok db'" using 2 assms(2) by (simp add: evidence_ok_def keys_ok_def)
    then show ?thesis using 2 by (simp add: evidence_extends_def)
  qed (use assms(2) evidence_extends_refl in auto)
qed

lemma issue_point_ok:
  assumes "issue_point saved today targets run (n, db) j = Inr (m, db')" "evidence_ok db" "run \<in> set (eb_runs db)"
    and "pv_created run \<le> saved n" "local_date (saved n) = today"
  shows "evidence_ok db' \<and> evidence_extends db db' \<and> eb_runs db' = eb_runs db"
proof -
  from assms(1) obtain origin where o: "boundary today (ij_period j) = Inr origin"
    and v: "boundary (vp_date (ij_point j)) (ij_period j) = Inr (vp_date (ij_point j))" and later: "today < vp_date (ij_point j)"
    by (auto simp: issue_point_def validate_target_def Let_def split: if_splits)
  define i where "i = \<lparr>px_id = new_pk px_id (eb_issues db), px_run = pv_id run, px_engine = pv_engine run, px_period = ij_period j,
    px_view = ij_view j, px_origin = origin, px_target = vp_date (ij_point j), px_horizon = ij_horizon j,
    px_value = pp_value (vp_point (ij_point j)), px_lower = pp_lower (vp_point (ij_point j)), px_upper = pp_upper (vp_point (ij_point j)),
    px_baseline = ij_baseline j, px_sources = pf_sources (pv_findings run),
    px_basis = (vp_basis (ij_point j), vp_interval (ij_point j)), px_at = saved n\<rparr>"
  from assms(1) o have "db' = db \<or> (db' = db\<lparr>eb_issues := eb_issues db @ [i]\<rparr> \<and> valid_issue i \<and>
      \<not> list_ex (same_issue (pv_engine run) (ij_period j) (ij_view j) origin (vp_date (ij_point j))) (eb_issues db))"
    unfolding i_def by (auto simp: issue_point_def validate_target_def row_ins_def Let_def split: if_splits)
  then show ?thesis
  proof (elim disjE conjE)
    assume db': "db' = db\<lparr>eb_issues := eb_issues db @ [i]\<rparr>" and ok: "valid_issue i"
      and new: "\<not> list_ex (same_issue (pv_engine run) (ij_period j) (ij_view j) origin (vp_date (ij_point j))) (eb_issues db)"
    have i: "px_id i = new_pk px_id (eb_issues db)" "px_run i = pv_id run" "px_engine i = pv_engine run" "px_period i = ij_period j"
        "px_view i = ij_view j" "px_origin i = origin" "px_target i = vp_date (ij_point j)" "px_at i = saved n"
      by (simp_all add: i_def)
    have "issue_key i \<notin> issue_key ` set (eb_issues db)"
      using new i by (auto simp: list_ex_iff same_issue_def issue_key_def)
    moreover have "issue_sound (eb_runs db) i" using ok i o v later assms(3-5) by (auto simp: issue_sound_def)
    moreover have "list_all (score_sound (eb_issues db @ [i]) (eb_reviews db)) (eb_scores db)"
      by (rule scores_sound_more[of "eb_issues db" "eb_reviews db"]) (use assms(2) in \<open>auto simp: evidence_ok_def\<close>)
    ultimately have "evidence_ok db'" using assms(2) db' i(1) by (simp add: evidence_ok_def keys_ok_def)
    then show ?thesis using db' by (simp add: evidence_extends_def)
  qed (use assms(2) evidence_extends_refl in auto)
qed

lemma sum_sorted: "(\<Sum>x\<leftarrow>filter P (sort_key k xs). f x) = (\<Sum>x\<leftarrow>filter P xs. (f x :: int))"
proof -
  have "mset (filter P (sort_key k xs)) = mset (filter P xs)" by simp
  then show ?thesis by (metis mset_map sum_mset_sum_list)
qed

lemma outcome_actual:
  "oc_actual (outcome_of s period target segment) =
     (\<Sum>(k, day, key, name, seg, revenue)\<leftarrow>filter (\<lambda>(k, day, key, name, seg, revenue). seg = segment)
        (oc_revision (outcome_of s period target segment)). revenue)"
proof -
  let ?rows = "filter (\<lambda>x. rs_segment x = segment \<or> rs_segment x = ''unclassified'') (period_sales s period target)"
  have "(\<Sum>(k, day, key, name, seg, revenue)\<leftarrow>filter (\<lambda>(k, day, key, name, seg, revenue). seg = segment)
        (oc_revision (outcome_of s period target segment)). revenue) =
      (\<Sum>x\<leftarrow>filter (\<lambda>x. rs_segment x = segment) (sort_key rs_id ?rows). rs_revenue x)"
    by (simp add: outcome_of_def Let_def filter_map o_def split_def)
  also have "\<dots> = (\<Sum>x\<leftarrow>filter (\<lambda>x. rs_segment x = segment) ?rows. rs_revenue x)" by (rule sum_sorted)
  finally show ?thesis by (simp add: outcome_of_def Let_def)
qed

lemma review_loop_result:
  assumes "review_loop s reviews i names results = Some out"
  shows "\<exists>new. out = results @ new \<and> map fst new = names \<and>
    (\<forall>(segment, r, pk)\<in>set new. r = outcome_of s (px_period i) (px_target i) segment \<and> \<not> oc_unresolved r \<and>
       (\<exists>c\<in>set reviews. pc_id c = pk \<and> same_review (px_period i) segment (px_target i) (oc_revision r) c \<and> (oc_empty r \<longrightarrow> pc_zero c)))"
  using assms
proof (induction names arbitrary: results)
  case (Cons segment names)
  let ?r = "outcome_of s (px_period i) (px_target i) segment"
  from Cons.prems obtain c where c: "find (same_review (px_period i) segment (px_target i) (oc_revision ?r)) reviews = Some c"
    and ok: "\<not> oc_unresolved ?r" "oc_empty ?r \<longrightarrow> pc_zero c"
    and rest: "review_loop s reviews i names (results @ [(segment, ?r, pc_id c)]) = Some out"
    by (auto simp: Let_def split: option.splits if_splits)
  from c have "c \<in> set reviews" "same_review (px_period i) segment (px_target i) (oc_revision ?r) c" by (auto simp: find_Some_iff)
  moreover from Cons.IH[OF rest] obtain new where "out = (results @ [(segment, ?r, pc_id c)]) @ new" "map fst new = names"
    "\<forall>(segment, r, pk)\<in>set new. r = outcome_of s (px_period i) (px_target i) segment \<and> \<not> oc_unresolved r \<and>
       (\<exists>c\<in>set reviews. pc_id c = pk \<and> same_review (px_period i) segment (px_target i) (oc_revision r) c \<and> (oc_empty r \<longrightarrow> pc_zero c))"
    by blast
  ultimately show ?case using ok by (intro exI[of _ "(segment, ?r, pc_id c) # new"]) auto
qed simp

definition view_sales :: "snapshot \<Rightarrow> proj_issue \<Rightarrow> recorded_sale list" where
  "view_sales s i = filter (\<lambda>x. rs_segment x \<in> set (segments_of (px_view i))) (period_sales s (px_period i) (px_target i))"

text \<open>What a reviewed outcome says about the ledger.\<close>

definition reviewed :: "snapshot \<Rightarrow> proj_review list \<Rightarrow> proj_issue \<Rightarrow> bool" where
  "reviewed s reviews i \<longleftrightarrow> (\<forall>segment\<in>set (segments_of (px_view i)).
     let r = outcome_of s (px_period i) (px_target i) segment
     in \<not> oc_unresolved r \<and> (\<exists>c\<in>set reviews. same_review (px_period i) segment (px_target i) (oc_revision r) c \<and> (oc_empty r \<longrightarrow> pc_zero c)))"

lemma segments_distinct: "distinct (segments_of view)"
  by (simp add: segments_of_def segments_def)

lemma sum_by_segments:
  "distinct names \<Longrightarrow> (\<Sum>n\<leftarrow>names. \<Sum>x\<leftarrow>filter (\<lambda>x. key x = n) xs. (f x :: int)) = (\<Sum>x\<leftarrow>filter (\<lambda>x. key x \<in> set names) xs. f x)"
proof (induction xs)
  case (Cons a xs)
  have "(\<Sum>n\<leftarrow>names. if key a = n then f a else 0) = (if key a \<in> set names then f a else 0)"
    using Cons.prems by (induction names) auto
  moreover have "(\<Sum>n\<leftarrow>names. \<Sum>x\<leftarrow>filter (\<lambda>x. key x = n) (a # xs). f x) =
      (\<Sum>n\<leftarrow>names. (if key a = n then f a else 0) + (\<Sum>x\<leftarrow>filter (\<lambda>x. key x = n) xs. f x))"
    by (intro arg_cong[of _ _ sum_list] map_cong) auto
  ultimately show ?case using Cons by (simp add: sum_list_addf)
qed simp

lemma outcome_sales:
  assumes "segment \<in> set (segments_of (px_view i))"
  shows "oc_actual (outcome_of s (px_period i) (px_target i) segment) =
    (\<Sum>x\<leftarrow>filter (\<lambda>x. rs_segment x = segment) (period_sales s (px_period i) (px_target i)). rs_revenue x)"
  by (simp add: outcome_of_def Let_def) (metis (no_types, lifting) filter_cong)

lemma reviewed_outcome_result:
  assumes "reviewed_outcome s db i = Inr (Some (actual, revision))"
  shows "period_end (px_target i) (px_period i) \<le> sn_as_of s \<and> reviewed s (eb_reviews db) i \<and>
    actual = (\<Sum>x\<leftarrow>view_sales s i. rs_revenue x) \<and> actual = content_total revision \<and> map fst revision = segments_of (px_view i) \<and>
    (\<forall>(segment, content, pk)\<in>set revision. \<exists>c\<in>set (eb_reviews db).
       pc_id c = pk \<and> same_review (px_period i) segment (px_target i) content c)"
proof -
  from assms obtain out where out: "review_loop s (eb_reviews db) i (segments_of (px_view i)) [] = Some out"
    and e: "period_end (px_target i) (px_period i) \<le> sn_as_of s"
    and a: "actual = (\<Sum>(segment, r, pk)\<leftarrow>out. oc_actual r)" and r: "revision = map (\<lambda>(segment, r, pk). (segment, oc_revision r, pk)) out"
    by (auto simp: reviewed_outcome_def Let_def split: if_splits)
  from review_loop_result[OF out] have names: "map fst out = segments_of (px_view i)"
    and each: "\<forall>(segment, r, pk)\<in>set out. r = outcome_of s (px_period i) (px_target i) segment \<and> \<not> oc_unresolved r \<and>
       (\<exists>c\<in>set (eb_reviews db). pc_id c = pk \<and> same_review (px_period i) segment (px_target i) (oc_revision r) c \<and> (oc_empty r \<longrightarrow> pc_zero c))"
    by auto
  have "actual = (\<Sum>t\<leftarrow>out. oc_actual (outcome_of s (px_period i) (px_target i) (fst t)))"
    unfolding a using each by (intro arg_cong[of _ _ sum_list] map_cong) auto
  also have "\<dots> = (\<Sum>n\<leftarrow>segments_of (px_view i). oc_actual (outcome_of s (px_period i) (px_target i) n))"
    unfolding names[symmetric] by (simp add: o_def)
  also have "\<dots> = (\<Sum>n\<leftarrow>segments_of (px_view i).
      \<Sum>x\<leftarrow>filter (\<lambda>x. rs_segment x = n) (period_sales s (px_period i) (px_target i)). rs_revenue x)"
    by (intro arg_cong[of _ _ sum_list] map_cong refl outcome_sales) auto
  also have "\<dots> = (\<Sum>x\<leftarrow>view_sales s i. rs_revenue x)"
    unfolding view_sales_def by (rule sum_by_segments[OF segments_distinct])
  finally have "actual = (\<Sum>x\<leftarrow>view_sales s i. rs_revenue x)" .
  moreover have "actual = content_total revision"
    unfolding a r content_total_def using each
    by (auto simp: o_def split_def outcome_actual intro!: arg_cong[of _ _ sum_list] map_cong)
  moreover have "reviewed s (eb_reviews db) i"
    unfolding reviewed_def names[symmetric] Let_def using each by fastforce
  moreover have "map fst revision = segments_of (px_view i)" unfolding r names[symmetric] by (simp add: o_def split_def)
  moreover have "\<forall>(segment, content, pk)\<in>set revision. \<exists>c\<in>set (eb_reviews db).
       pc_id c = pk \<and> same_review (px_period i) segment (px_target i) content c"
    unfolding r using each by fastforce
  ultimately show ?thesis using e by simp
qed

lemma score_point_ok:
  assumes "score_point s (n, db) i = Inr (m, db')" "evidence_ok db" "i \<in> set (eb_issues db)"
  shows "evidence_ok db' \<and> evidence_extends db db' \<and> eb_issues db' = eb_issues db"
proof -
  from assms(1) obtain out where out: "reviewed_outcome s db i = Inr out" and rec: "record_score (n, db) i out = (m, db')"
    by (auto simp: score_point_def)
  show ?thesis
  proof (cases "db' = db")
    case True
    with assms(2) evidence_extends_refl show ?thesis by auto
  next
    case False
    then obtain actual revision where o: "out = Some (actual, revision)"
      using rec by (cases out) (auto simp: record_score_def)
    define x where "x = \<lparr>xs_issued = px_id i, xs_revision = revision, xs_actual = actual, xs_error = px_value i - actual,
        xs_absolute = \<bar>px_value i - actual\<bar>, xs_base_absolute = map_option (\<lambda>b. \<bar>b - actual\<bar>) (px_baseline i),
        xs_within = (px_lower i \<le> actual \<and> actual \<le> px_upper i)\<rparr>"
    from rec o False have new: "\<not> list_ex (\<lambda>x. xs_issued x = px_id i \<and> xs_revision x = revision) (eb_scores db)"
      and db': "db' = db\<lparr>eb_scores := eb_scores db @ [x]\<rparr>" by (auto simp: x_def record_score_def split: if_splits)
    from reviewed_outcome_result[of s db i actual revision] out o
    have r: "actual = content_total revision" "map fst revision = segments_of (px_view i)"
      "\<forall>(segment, content, pk)\<in>set revision. \<exists>c\<in>set (eb_reviews db).
         pc_id c = pk \<and> same_review (px_period i) segment (px_target i) content c" by auto
    then have "score_sound (eb_issues db) (eb_reviews db) x"
      unfolding score_sound_def using assms(3) by (intro bexI[of _ i]) (simp_all add: x_def)
    moreover have "(xs_issued x, xs_revision x) \<notin> (\<lambda>x. (xs_issued x, xs_revision x)) ` set (eb_scores db)"
      using new by (auto simp: x_def list_ex_iff)
    ultimately have "evidence_ok db'" using assms(2) db' by (simp add: evidence_ok_def)
    then show ?thesis using db' by (simp add: evidence_extends_def)
  qed
qed

lemma score_closed_ok:
  assumes "score_closed policy lt today st db = Inr (n, db')" "evidence_ok db"
  shows "evidence_ok db' \<and> evidence_extends db db'"
proof -
  let ?s = "load_snapshot policy lt today st"
  let ?P = "\<lambda>(m, d). evidence_ok d \<and> evidence_extends db d \<and> eb_issues d = eb_issues db"
  have "?P (n, db')"
  proof (rule rfold_invariant[OF assms(1)[unfolded score_closed_def Let_def], of ?P])
    show "?P (0, db)" using assms(2) evidence_extends_refl by auto
    fix state i state' assume i: "i \<in> set (filter (\<lambda>i. px_target i < sn_as_of ?s) (eb_issues db))"
      and step: "score_point ?s state i = Inr state'" and p: "?P state"
    obtain m d m' d' where d: "state = (m, d)" "state' = (m', d')" by fastforce
    with p i have "i \<in> set (eb_issues d)" "evidence_ok d" by auto
    from score_point_ok[OF step[unfolded d] this(2,1)] p d show "?P state'" using evidence_extends_trans by auto
  qed
  then show ?thesis by simp
qed

lemma find_run_mem: "find_run revision runs = Some r \<Longrightarrow> r \<in> set runs"
  by (auto simp: find_run_def find_Some_iff)

lemma issue_projections_ok:
  assumes "issue_projections env policy lt now clock saved final src db = Inr (n, db')" "evidence_ok db"
    and time: "\<And>k. now \<le> saved k \<and> local_date (saved k) \<le> final"
  shows "evidence_ok db' \<and> evidence_extends db db'"
proof (cases "db' = db")
  case False
  let ?today = "local_date now"
  from assms(1) False obtain snapshots targets revision run where
    run: "find_run revision (eb_runs db) = Some run" "pv_created run \<le> now" and final: "final = ?today"
    and loop: "rfold (issue_point saved ?today targets run) (0, db) (issue_jobs snapshots (pf_periods (pv_findings run))) = Inr (n, db')"
    by (auto simp: issue_projections_def Let_def projection_context_def split: if_splits option.splits)
  have today: "local_date (saved k) = ?today" for k
    using time[of k] final local_date_mono[of now "saved k"] by simp
  let ?P = "\<lambda>(m, d). evidence_ok d \<and> evidence_extends db d \<and> eb_runs d = eb_runs db"
  have "?P (n, db')"
  proof (rule rfold_invariant[OF loop, of ?P])
    show "?P (0, db)" using assms(2) evidence_extends_refl by auto
    fix state j state' assume step: "issue_point saved ?today targets run state j = Inr state'" and p: "?P state"
    obtain m d m' d' where d: "state = (m, d)" "state' = (m', d')" by fastforce
    have "run \<in> set (eb_runs d)" "pv_created run \<le> saved m" using p d find_run_mem[OF run(1)] run(2) time[of m] by auto
    from issue_point_ok[OF step[unfolded d] _ this today] p d show "?P state'" using evidence_extends_trans by auto
  qed
  then show ?thesis by simp
qed (use assms(2) evidence_extends_refl in auto)

text \<open>
  The tables as the commands fill them, each in a transaction of its own, over ledgers that may change in
  between. The clock does not run backwards within a transaction.
\<close>

inductive evidence_step :: "('f, 'a) projecting \<Rightarrow> ('f, 'a, 'w) evidence_db \<Rightarrow> ('f, 'a, 'w) evidence_db \<Rightarrow> bool" for env where
  refreshed: "refresh_projections env policy lt clock today src src' now (take k (eb_runs db)) (eb_runs db) = Inr (r, True, out) \<Longrightarrow>
     evidence_step env db (db\<lparr>eb_runs := out\<rparr>)"
| attested: "attest_projection policy lt today st users period segment target username note zero db = Inr (r, db') \<Longrightarrow>
     evidence_step env db db'"
| issued: "\<lbrakk>issue_projections env policy lt now clock saved final src db = Inr (n, db');
     \<And>k. now \<le> saved k \<and> local_date (saved k) \<le> final\<rbrakk> \<Longrightarrow> evidence_step env db db'"
| scored: "score_closed policy lt today st db = Inr (n, db') \<Longrightarrow> evidence_step env db db'"

definition no_evidence :: "('f, 'a, 'w) evidence_db" where
  "no_evidence = \<lparr>eb_runs = [], eb_reviews = [], eb_issues = [], eb_scores = []\<rparr>"

inductive evidence_reachable :: "('f, 'a) projecting \<Rightarrow> ('f, 'a, 'w) evidence_db \<Rightarrow> bool" for env where
  start: "evidence_reachable env no_evidence"
| step: "evidence_reachable env db \<Longrightarrow> evidence_step env db db' \<Longrightarrow> evidence_reachable env db'"

lemma refreshed_ok:
  assumes "refresh_projections env policy lt clock today src src' now runs (eb_runs db) = Inr (r, True, out)" "evidence_ok db"
  shows "evidence_ok (db\<lparr>eb_runs := out\<rparr>) \<and> evidence_extends db (db\<lparr>eb_runs := out\<rparr>)"
proof -
  from refresh_projections_new[OF assms(1)] have o: "out = eb_runs db @ [r]" "pv_id r = new_pk pv_id (eb_runs db)" by auto
  have "list_all (issue_sound out) (eb_issues db)"
    using assms(2) o by (auto simp: evidence_ok_def list_all_iff intro: issue_sound_more)
  with o assms(2) show ?thesis by (simp add: evidence_ok_def evidence_extends_def keys_ok_def)
qed

lemma evidence_step_ok: "evidence_step env db db' \<Longrightarrow> evidence_ok db \<Longrightarrow> evidence_ok db' \<and> evidence_extends db db'"
proof (induction rule: evidence_step.induct)
  case (issued policy lt now clock saved final src db n db')
  show ?case by (rule issue_projections_ok[OF issued(1) issued(3)]) (rule issued(2))
qed (blast dest: refreshed_ok attest_projection_ok score_closed_ok)+

lemma reachable_evidence_ok: "evidence_reachable env db \<Longrightarrow> evidence_ok db"
  by (induction rule: evidence_reachable.induct) (auto dest: evidence_step_ok simp: evidence_ok_def no_evidence_def keys_ok_def)

subsection \<open>Runs stay sound\<close>

lemma issue_point_runs: "issue_point saved today targets run state j = Inr state' \<Longrightarrow>
    eb_runs (snd state') = eb_runs (snd state) \<and> eb_reviews (snd state') = eb_reviews (snd state)"
  by (auto simp: issue_point_def Let_def split: prod.splits if_splits)

lemma issue_projections_runs:
  assumes "issue_projections env policy lt now clock saved final src db = Inr (n, db')"
  shows "eb_runs db' = eb_runs db \<and> eb_reviews db' = eb_reviews db"
proof (cases "db' = db")
  case False
  then obtain snapshots targets run where
    loop: "rfold (issue_point saved (local_date now) targets run) (0, db) (issue_jobs snapshots (pf_periods (pv_findings run))) = Inr (n, db')"
    using assms by (auto simp: issue_projections_def Let_def projection_context_def split: if_splits option.splits)
  have "eb_runs (snd (n, db')) = eb_runs db \<and> eb_reviews (snd (n, db')) = eb_reviews db"
    by (rule rfold_invariant[OF loop, of "\<lambda>state. eb_runs (snd state) = eb_runs db \<and> eb_reviews (snd state) = eb_reviews db"])
      (auto dest: issue_point_runs)
  then show ?thesis by simp
qed simp

definition frame_same :: "('f, 'a, 'w) evidence_db \<Rightarrow> ('f, 'a, 'w) evidence_db \<Rightarrow> bool" where
  "frame_same db db' \<longleftrightarrow> eb_runs db' = eb_runs db \<and> eb_reviews db' = eb_reviews db \<and> eb_issues db' = eb_issues db"

lemma record_score_frame: "frame_same (snd state) (snd (record_score state i result))"
proof (cases state; cases result)
  fix n db p assume "state = (n, db)" "result = Some p"
  then show ?thesis by (cases p) (simp add: record_score_def frame_same_def)
qed (simp_all add: record_score_def frame_same_def)

lemma score_point_frame: "score_point s state i = Inr state' \<Longrightarrow> frame_same (snd state) (snd state')"
  unfolding score_point_def rbind_Inr_iff by (auto simp del: split_paired_All intro: record_score_frame)

lemma score_closed_frame:
  assumes "score_closed policy lt today st db = Inr (n, db')"
  shows "frame_same db db'"
proof -
  have "frame_same db (snd (n, db'))"
    by (rule rfold_invariant[OF assms[unfolded score_closed_def Let_def], of "\<lambda>state. frame_same db (snd state)"])
      (auto simp: frame_same_def dest!: score_point_frame)
  then show ?thesis by simp
qed

definition intact_runs :: "('f, 'a) projecting \<Rightarrow> ('f, 'a, 'w) evidence_db \<Rightarrow> bool" where
  "intact_runs env db \<longleftrightarrow> list_all (\<lambda>r. run_sound env r \<and> pv_digest r = pv_findings r) (eb_runs db)"

lemma intact_step: "evidence_step env db db' \<Longrightarrow> intact_runs env db \<Longrightarrow> intact_runs env db'"
proof (induction rule: evidence_step.induct)
  case (refreshed policy lt clock today src src' now k db r out)
  from refresh_projections_new[OF refreshed(1)] refreshed(2) show ?case by (simp add: intact_runs_def)
next
  case (attested policy lt today st users period segment target username n zero db r db')
  then have "eb_runs db' = eb_runs db"
    by (auto simp: attest_projection_def Let_def split: if_splits option.splits)
  with attested show ?case by (simp add: intact_runs_def)
next
  case (issued policy lt now clock saved final src db n db')
  with issue_projections_runs[OF issued(1)] show ?case by (simp add: intact_runs_def)
next
  case (scored policy lt today st db n db')
  with score_closed_frame[OF scored(1)] show ?case by (simp add: intact_runs_def frame_same_def)
qed

lemma reachable_intact: "evidence_reachable env db \<Longrightarrow> intact_runs env db"
proof (induction rule: evidence_reachable.induct)
  case start
  then show ?case by (simp add: intact_runs_def no_evidence_def)
qed (rule intact_step)


subsection \<open>Issuing succeeds\<close>

lemma boundary_le: "boundary day period = Inr b \<Longrightarrow> b \<le> day"
proof -
  assume b: "boundary day period = Inr b"
  have w: "0 \<le> weekday day" by (simp add: weekday_def)
  have y: "mk_date (year_of day) 1 1 \<le> day"
  proof -
    have m: "1 \<le> month_of day" "month_of day \<le> 12" using month_of_range[of day] by auto
    have "0 \<le> days_before_month (year_of day) (month_of day)"
      using m by (cases rule: month_cases) (simp_all add: days_before_month_def)
    then show ?thesis using day_of_range[of day] mk_date_of[of day] by (simp add: mk_date_def days_before_month_def)
  qed
  from b w y first_of_month_le[of day] show ?thesis by (auto simp: boundary_def split: if_splits)
qed

lemma boundary_period: "boundary day period = Inr b \<Longrightarrow> period \<in> set periods"
  by (simp add: boundary_def split: if_splits)

lemma boundary_ok: "period \<in> set periods \<Longrightarrow> \<exists>b. boundary day period = Inr b"
  by (simp add: boundary_def)

lemma targets_aligned:
  assumes "period \<in> set periods" "d \<in> set (lookup (targets_for today) period)"
  shows "boundary d period = Inr d \<and> today < d"
proof -
  consider "period = ''weekly''" | "period = ''monthly''" | "period = ''yearly''" using assms(1) by (auto simp: periods_def)
  then show ?thesis
  proof cases
    case 1
    with assms(2) obtain k where k: "1 \<le> k" and d: "d = today - weekday today + 7 * int k"
      by (auto simp: lookup_def targets_for_def advance_def start_of_def)
    have "weekday d = 0" unfolding d weekday_def by presburger
    moreover have "weekday today < 7" by (simp add: weekday_def)
    ultimately show ?thesis using 1 k d by (simp add: boundary_def periods_def)
  next
    case 2
    with assms(2) obtain k where k: "1 \<le> k" and d: "d = shift_month (first_of_month today) (int k)"
      by (auto simp: lookup_def targets_for_def)
    have "first_of_month d = d" unfolding d by (simp add: first_of_month_idem shift_month_fields)
    moreover have "today \<le> month_end (first_of_month today)"
      using month_end_ge[of today] by (simp add: month_end_def first_of_month_fields)
    ultimately show ?thesis using 2 k d shift_month_later[of "int k" "first_of_month today"] by (simp add: boundary_def periods_def)
  next
    case 3
    with assms(2) obtain k where k: "1 \<le> k" and d: "d = mk_date (year_of today + int k) 1 1"
      by (auto simp: lookup_def targets_for_def)
    have v: "valid_ymd (year_of today + int k) 1 1" by (simp add: valid_ymd_def days_in_month_def)
    have y: "year_of d = year_of today + int k" unfolding d by (rule year_of_mk_date[OF v])
    have "today < d"
    proof (rule ccontr)
      assume "\<not> ?thesis"
      then have "month_index d \<le> month_index today" by (intro month_index_mono) simp
      moreover have "month_of d = 1" unfolding d by (rule month_of_mk_date[OF v])
      ultimately show False using y k month_of_range[of today] by (simp add: month_index_def)
    qed
    with 3 y d show ?thesis by (simp add: boundary_def periods_def)
  qed
qed

definition job_fits :: "issue_job \<Rightarrow> bool" where
  "job_fits j \<longleftrightarrow> column_fits (pp_upper (vp_point (ij_point j))) \<and>
     (case ij_baseline j of None \<Rightarrow> True | Some x \<Rightarrow> column_fits x)"

lemma issue_point_succeeds:
  assumes "ij_period j \<in> set periods" "vp_date (ij_point j) \<in> set (lookup (targets_for today) (ij_period j))"
    and "bounded (vp_point (ij_point j))" "1 \<le> ij_horizon j" "job_fits j"
  shows "\<exists>m db'. issue_point saved today (targets_for today) run (n, db) j = Inr (m, db') \<and> set (eb_issues db) \<subseteq> set (eb_issues db') \<and>
    (\<exists>i\<in>set (eb_issues db'). px_engine i = pv_engine run \<and> px_period i = ij_period j \<and> px_view i = ij_view j \<and>
       px_target i = vp_date (ij_point j) \<and> boundary today (ij_period j) = Inr (px_origin i))"
proof -
  obtain b where b: "boundary today (ij_period j) = Inr b" using boundary_ok[OF assms(1)] by blast
  note t = targets_aligned[OF assms(1,2)]
  show ?thesis
  proof (cases "list_ex (same_issue (pv_engine run) (ij_period j) (ij_view j) b (vp_date (ij_point j))) (eb_issues db)")
    case True
    then have "issue_point saved today (targets_for today) run (n, db) j = Inr (n, db)"
      using t b assms(2) by (simp add: issue_point_def validate_target_def Let_def)
    with True b show ?thesis by (auto simp: list_ex_iff same_issue_def)
  next
    case False
    define i where "i = \<lparr>px_id = new_pk px_id (eb_issues db), px_run = pv_id run, px_engine = pv_engine run, px_period = ij_period j,
      px_view = ij_view j, px_origin = b, px_target = vp_date (ij_point j), px_horizon = ij_horizon j,
      px_value = pp_value (vp_point (ij_point j)), px_lower = pp_lower (vp_point (ij_point j)), px_upper = pp_upper (vp_point (ij_point j)),
      px_baseline = ij_baseline j, px_sources = pf_sources (pv_findings run),
      px_basis = (vp_basis (ij_point j), vp_interval (ij_point j)), px_at = saved n\<rparr>"
    have "columns_fit i" using assms(3,5)
      by (cases "ij_baseline j") (auto simp: columns_fit_def column_fits_def job_fits_def bounded_def i_def)
    then have "valid_issue i" using boundary_le[OF b] t assms(3,4) by (simp add: valid_issue_def i_def bounded_def)
    then have "issue_point saved today (targets_for today) run (n, db) j = Inr (n + 1, db\<lparr>eb_issues := eb_issues db @ [i]\<rparr>)"
      using t b assms(2) False by (simp add: issue_point_def validate_target_def Let_def row_ins_def i_def)
    then show ?thesis using b by (auto simp: i_def)
  qed
qed

definition issued_for :: "date \<Rightarrow> ('f, 'a, 'w) proj_run \<Rightarrow> string \<Rightarrow> string \<Rightarrow> date \<Rightarrow> proj_issue \<Rightarrow> bool" where
  "issued_for today run period view target i \<longleftrightarrow> px_engine i = pv_engine run \<and> px_period i = period \<and> px_view i = view \<and>
     px_target i = target \<and> boundary today period = Inr (px_origin i)"

definition good_job :: "date \<Rightarrow> issue_job \<Rightarrow> bool" where
  "good_job today j \<longleftrightarrow> ij_period j \<in> set periods \<and> vp_date (ij_point j) \<in> set (lookup (targets_for today) (ij_period j)) \<and>
     bounded (vp_point (ij_point j)) \<and> 1 \<le> ij_horizon j"

lemma issue_loop_succeeds:
  assumes "list_all (\<lambda>j. good_job today j \<and> job_fits j) jobs"
  shows "\<exists>m db'. rfold (issue_point saved today (targets_for today) run) (n, db) jobs = Inr (m, db') \<and>
    set (eb_issues db) \<subseteq> set (eb_issues db') \<and>
    (\<forall>j\<in>set jobs. \<exists>i\<in>set (eb_issues db'). issued_for today run (ij_period j) (ij_view j) (vp_date (ij_point j)) i)"
  using assms
proof (induction jobs arbitrary: n db)
  case (Cons j jobs)
  then have g: "ij_period j \<in> set periods" "vp_date (ij_point j) \<in> set (lookup (targets_for today) (ij_period j))"
    "bounded (vp_point (ij_point j))" "1 \<le> ij_horizon j" "job_fits j" by (auto simp: good_job_def)
  from issue_point_succeeds[OF g, of saved run n db] obtain m db1 i where
    one: "issue_point saved today (targets_for today) run (n, db) j = Inr (m, db1)" "set (eb_issues db) \<subseteq> set (eb_issues db1)"
      "i \<in> set (eb_issues db1)" "issued_for today run (ij_period j) (ij_view j) (vp_date (ij_point j)) i"
    by (auto simp: issued_for_def)
  from Cons.IH[of m db1] Cons.prems obtain m' db2 where
    rest: "rfold (issue_point saved today (targets_for today) run) (m, db1) jobs = Inr (m', db2)" "set (eb_issues db1) \<subseteq> set (eb_issues db2)"
      "\<forall>j\<in>set jobs. \<exists>i\<in>set (eb_issues db2). issued_for today run (ij_period j) (ij_view j) (vp_date (ij_point j)) i"
    by auto
  have "rfold (issue_point saved today (targets_for today) run) (n, db) (j # jobs) = Inr (m', db2)" using one(1) rest(1) by simp
  then show ?case using one rest by (intro exI[of _ m'] exI[of _ db2]) auto
qed simp

lemma issue_jobs_mem:
  "j \<in> set (issue_jobs snapshots shown) \<longleftrightarrow> (\<exists>period\<in>set periods. \<exists>view\<in>set views. \<exists>k p.
     (k, p) \<in> set (enumerate 1 (vw_points (lookup (lookup shown period) view))) \<and>
     j = \<lparr>ij_period = period, ij_view = view, ij_baseline = baseline (lookup snapshots (unit_of period)) view period,
          ij_horizon = k, ij_point = p\<rparr>)"
proof
  assume "j \<in> set (issue_jobs snapshots shown)"
  then show "\<exists>period\<in>set periods. \<exists>view\<in>set views. \<exists>k p.
     (k, p) \<in> set (enumerate 1 (vw_points (lookup (lookup shown period) view))) \<and>
     j = \<lparr>ij_period = period, ij_view = view, ij_baseline = baseline (lookup snapshots (unit_of period)) view period,
          ij_horizon = k, ij_point = p\<rparr>"
    by (auto simp: issue_jobs_def Let_def)
next
  assume "\<exists>period\<in>set periods. \<exists>view\<in>set views. \<exists>k p.
     (k, p) \<in> set (enumerate 1 (vw_points (lookup (lookup shown period) view))) \<and>
     j = \<lparr>ij_period = period, ij_view = view, ij_baseline = baseline (lookup snapshots (unit_of period)) view period,
          ij_horizon = k, ij_point = p\<rparr>"
  then obtain period view k p where "period \<in> set periods" "view \<in> set views"
     "(k, p) \<in> set (enumerate 1 (vw_points (lookup (lookup shown period) view)))"
     "j = \<lparr>ij_period = period, ij_view = view, ij_baseline = baseline (lookup snapshots (unit_of period)) view period,
          ij_horizon = k, ij_point = p\<rparr>" by blast
  then show "j \<in> set (issue_jobs snapshots shown)"
    by (simp add: issue_jobs_def Let_def image_iff)
      (rule bexI[of _ period], rule bexI[of _ view], rule bexI[of _ "(k, p)"], simp_all)
qed

lemma sound_run_jobs:
  assumes "run_sound env run" "id_targets (pv_source run) = targets_for today"
  shows "list_all (good_job today) (issue_jobs snapshots (pf_periods (pv_findings run)))"
proof -
  from assms obtain primary weekly s previous where
    b: "build env primary weekly s (targets_for today) previous = Inr (pv_findings run)" by (auto simp: run_sound_def)
  have "good_job today j" if j: "j \<in> set (issue_jobs snapshots (pf_periods (pv_findings run)))" for j
  proof -
    from j[unfolded issue_jobs_mem] obtain period view k p where pv: "period \<in> set periods" "view \<in> set views"
      and kp: "(k, p) \<in> set (enumerate 1 (vw_points (lookup (lookup (pf_periods (pv_findings run)) period) view)))"
      and j: "j = \<lparr>ij_period = period, ij_view = view, ij_baseline = baseline (lookup snapshots (unit_of period)) view period,
          ij_horizon = k, ij_point = p\<rparr>" by blast
    from kp have k: "1 \<le> k" and p: "p \<in> set (vw_points (lookup (lookup (pf_periods (pv_findings run)) period) view))"
      by (auto simp: in_set_enumerate_eq)
    let ?points = "vw_points (lookup (lookup (pf_periods (pv_findings run)) period) view)"
    from build_points_sound[OF b pv] p have "bounded (vp_point p)" and d: "map vp_date ?points = lookup (targets_for today) period"
      by (auto simp: Let_def)
    moreover have "vp_date p \<in> set (lookup (targets_for today) period)" unfolding d[symmetric] using p by simp
    ultimately show ?thesis using pv k by (simp add: good_job_def j)
  qed
  then show ?thesis by (simp add: list_all_iff)
qed

text \<open>
  C24: The record of the rough projections. Whatever refreshes, reviews, issues and scores happen, nothing that was
  saved is changed or lost; the first projection for a target period stays the only one of its origin; every
  saved projection is within its bounds and was saved before its target period began, in the period of its
  origin and after the run it is copied from; and a score is kept once per reviewed content, whose total is
  its actual, for an issue whose segments were all reviewed.
\<close>

theorem projection_record_kept:
  assumes "evidence_reachable env db" "evidence_step env db db'"
  shows "evidence_extends db db' \<and> distinct (map issue_key (eb_issues db')) \<and>
    (\<forall>i\<in>set (eb_issues db'). valid_issue i \<and> local_date (px_at i) < px_target i \<and>
       boundary (local_date (px_at i)) (px_period i) = Inr (px_origin i) \<and>
       (\<exists>r\<in>set (eb_runs db'). pv_id r = px_run i \<and> pv_created r \<le> px_at i)) \<and>
    distinct (map (\<lambda>x. (xs_issued x, xs_revision x)) (eb_scores db')) \<and>
    list_all (score_sound (eb_issues db') (eb_reviews db')) (eb_scores db')"
proof -
  from evidence_step_ok[OF assms(2) reachable_evidence_ok[OF assms(1)]]
  have "evidence_ok db'" "evidence_extends db db'" by auto
  then show ?thesis unfolding evidence_ok_def list_all_iff issue_sound_def by blast
qed

text \<open>
  C25: Only reviewed sales count as outcomes. A projection that the report shows as scored has its target period
  completed and every segment of its view reviewed against exactly the sales that the ledger holds now; the
  score it shows is its saved value less the revenue of those sales. After a correction of the ledger the
  score is not shown until the period is reviewed again.
\<close>

theorem reported_score_current:
  assumes "evidence_reachable env db" and "i \<in> set (eb_issues db)" and "standing_of s db i = Inr (Scored x)"
  shows "x \<in> set (eb_scores db) \<and> period_end (px_target i) (px_period i) \<le> sn_as_of s \<and> reviewed s (eb_reviews db) i \<and>
    xs_actual x = (\<Sum>y\<leftarrow>view_sales s i. rs_revenue y) \<and> xs_error x = px_value i - xs_actual x \<and> xs_absolute x = \<bar>xs_error x\<bar> \<and>
    xs_within x = (px_lower i \<le> xs_actual x \<and> xs_actual x \<le> px_upper i)"
proof -
  have ok: "evidence_ok db" by (rule reachable_evidence_ok[OF assms(1)])
  from assms(3) obtain actual revision where r: "reviewed_outcome s db i = Inr (Some (actual, revision))"
    and f: "find (\<lambda>x. xs_issued x = px_id i \<and> xs_revision x = revision) (eb_scores db) = Some x"
    by (auto simp: standing_of_def Option.bind_eq_Some_conv split: if_splits option.splits)
  from f have x: "x \<in> set (eb_scores db)" "xs_issued x = px_id i" "xs_revision x = revision" by (auto simp: find_Some_iff)
  with ok obtain j where j: "j \<in> set (eb_issues db)" "xs_issued x = px_id j" "xs_actual x = content_total (xs_revision x)"
      "xs_error x = px_value j - xs_actual x" "xs_absolute x = \<bar>xs_error x\<bar>"
      "xs_within x = (px_lower j \<le> xs_actual x \<and> xs_actual x \<le> px_upper j)"
    unfolding evidence_ok_def list_all_iff score_sound_def by metis
  have "j = i" using ok assms(2) j(1,2) x(2) by (auto simp: evidence_ok_def keys_ok_def distinct_map dest: inj_onD)
  with reviewed_outcome_result[OF r] x j show ?thesis by simp
qed

lemma issue_all:
  assumes "evidence_reachable env db"
    and "projection_context env policy lt clock (local_date now) src = Inr (snapshots, targets, revision)"
    and "find_run revision (eb_runs db) = Some run" and "pv_created run \<le> now" and "final = local_date now"
    and "list_all job_fits (issue_jobs snapshots (pf_periods (pv_findings run)))"
  shows "\<exists>n db'. issue_projections env policy lt now clock saved final src db = Inr (n, db') \<and>
    (\<forall>period\<in>set periods. \<forall>view\<in>set views.
       \<forall>p\<in>set (vw_points (lookup (lookup (pf_periods (pv_findings run)) period) view)).
         local_date now < vp_date p \<and> (\<exists>i\<in>set (eb_issues db'). issued_for (local_date now) run period view (vp_date p) i))"
proof -
  let ?today = "local_date now"
  from assms(3) have run: "run \<in> set (eb_runs db)" "pv_source run = revision" by (auto simp: find_run_def find_Some_iff)
  with reachable_intact[OF assms(1)] have sound: "run_sound env run" "pv_digest run = pv_findings run"
    by (auto simp: intact_runs_def list_all_iff)
  from assms(2) have c: "snapshots = project_snapshots policy lt ?today (so_sales src)" "targets = targets_for ?today"
      "revision = context_of env policy lt ?today src"
    by (auto simp: projection_context_def split: if_splits)
  have t: "id_targets (pv_source run) = targets_for ?today"
    "id_sources (pv_source run) = map (\<lambda>(p, s). (p, sn_revision s)) snapshots"
    using run(2) c by (simp_all add: context_of_def Let_def)
  from sound(1) obtain primary weekly s previous where
    b: "build env primary weekly s (id_targets (pv_source run)) previous = Inr (pv_findings run)"
      "id_sources (pv_source run) = map (\<lambda>(p, s). (p, sn_revision s)) s"
    unfolding run_sound_def by blast
  have f: "pf_targets (pv_findings run) = targets" "pf_sources (pv_findings run) = map (\<lambda>(p, s). (p, sn_revision s)) snapshots"
    using build_frame[OF b(1)] b(2) t c by auto
  note good = sound_run_jobs[OF sound(1) t(1), of snapshots]
  have "list_all (\<lambda>j. good_job ?today j \<and> job_fits j) (issue_jobs snapshots (pf_periods (pv_findings run)))"
    using good assms(6) by (simp add: list_all_iff)
  from issue_loop_succeeds[OF this, of saved run 0 db] obtain m db' where
    loop: "rfold (issue_point saved ?today (targets_for ?today) run) (0, db) (issue_jobs snapshots (pf_periods (pv_findings run))) = Inr (m, db')"
    and all: "\<forall>j\<in>set (issue_jobs snapshots (pf_periods (pv_findings run))).
       \<exists>i\<in>set (eb_issues db'). issued_for ?today run (ij_period j) (ij_view j) (vp_date (ij_point j)) i" by blast
  have "issue_projections env policy lt now clock saved final src db = Inr (m, db')"
    using assms(3-5) loop c(2) f sound(2) by (simp add: issue_projections_def Let_def assms(2) del: rbind_Inr_iff)
  moreover have "?today < vp_date p \<and> (\<exists>i\<in>set (eb_issues db'). issued_for ?today run period view (vp_date p) i)"
    if p: "period \<in> set periods" "view \<in> set views" "p \<in> set (vw_points (lookup (lookup (pf_periods (pv_findings run)) period) view))"
    for period view p
  proof -
    from p(3) obtain n where n: "n < length (vw_points (lookup (lookup (pf_periods (pv_findings run)) period) view))"
        "p = vw_points (lookup (lookup (pf_periods (pv_findings run)) period) view) ! n" by (metis in_set_conv_nth)
    define k where "k = n + 1"
    from n have "(k, p) \<in> set (enumerate 1 (vw_points (lookup (lookup (pf_periods (pv_findings run)) period) view)))"
      by (simp add: in_set_enumerate_eq k_def)
    with p(1,2) have j: "\<lparr>ij_period = period, ij_view = view, ij_baseline = baseline (lookup snapshots (unit_of period)) view period,
        ij_horizon = k, ij_point = p\<rparr> \<in> set (issue_jobs snapshots (pf_periods (pv_findings run)))"
      unfolding issue_jobs_mem by blast
    from good[unfolded list_all_iff, rule_format, OF j] have d: "vp_date p \<in> set (lookup (targets_for ?today) period)"
      by (simp add: good_job_def)
    from all[rule_format, OF j] have "\<exists>i\<in>set (eb_issues db'). issued_for ?today run period view (vp_date p) i" by simp
    with targets_aligned[OF p(1) d] show ?thesis by simp
  qed
  ultimately show ?thesis by blast
qed

text \<open>
  C26: Every shown projection is recorded in time. In every reachable state with a run for the current ledger and
  day, if that run was not saved in the future, the day does not change before the transaction ends, and no
  projected upper bound and no baseline has more than the twenty digits of its column, issuing does not fail:
  no point violates the check constraint or the calendar, and afterwards every point of every view has a saved
  projection with the origin of the day, made before its target begins.
\<close>

theorem issuing_records_all:
  assumes "evidence_reachable env db"
    and "projection_context env policy lt clock (local_date now) src = Inr (snapshots, targets, revision)"
    and "find_run revision (eb_runs db) = Some run" and "pv_created run \<le> now" and "final = local_date now"
    and "list_all job_fits (issue_jobs snapshots (pf_periods (pv_findings run)))"
  shows "\<exists>n db'. issue_projections env policy lt now clock saved final src db = Inr (n, db') \<and>
    (\<forall>period\<in>set periods. \<forall>view\<in>set views.
       \<forall>p\<in>set (vw_points (lookup (lookup (pf_periods (pv_findings run)) period) view)).
         local_date now < vp_date p \<and> (\<exists>i\<in>set (eb_issues db'). issued_for (local_date now) run period view (vp_date p) i))"
  by (rule issue_all[OF assms])


subsection \<open>Scoring and reporting are total\<close>

lemma reviewed_outcome_frame:
  assumes "frame_same db db'"
  shows "reviewed_outcome s db' i = reviewed_outcome s db i"
proof -
  have e: "eb_runs db' = eb_runs db" "eb_reviews db' = eb_reviews db" using assms by (simp_all add: frame_same_def)
  show ?thesis unfolding reviewed_outcome_def e ..
qed

lemma reviewed_outcome_total:
  assumes "evidence_ok db" "i \<in> set (eb_issues db)"
  shows "\<exists>r. reviewed_outcome s db i = Inr r"
proof -
  from assms have "issue_sound (eb_runs db) i" by (auto simp: evidence_ok_def list_all_iff)
  then have "px_period i \<in> set periods" by (auto simp: issue_sound_def dest: boundary_period)
  then obtain b where "boundary (local_date (px_at i)) (px_period i) = Inr b" using boundary_ok by blast
  then show ?thesis by (simp add: reviewed_outcome_def Let_def del: rbind_Inr_iff)
qed

definition has_score :: "proj_score list \<Rightarrow> proj_issue \<Rightarrow> reviewed_content \<Rightarrow> bool" where
  "has_score scores i revision \<longleftrightarrow> (\<exists>x\<in>set scores. xs_issued x = px_id i \<and> xs_revision x = revision)"

lemma record_score_adds:
  "set (eb_scores (snd state)) \<subseteq> set (eb_scores (snd (record_score state i result))) \<and>
   (\<forall>a revision. result = Some (a, revision) \<longrightarrow> has_score (eb_scores (snd (record_score state i result))) i revision)"
proof (cases state; cases result)
  fix n db p assume "state = (n, db)" "result = Some p"
  then show ?thesis by (cases p) (auto simp: record_score_def has_score_def list_ex_iff)
qed (simp_all add: record_score_def)

lemma score_loop_total:
  assumes "evidence_ok db0" "frame_same db0 (snd state)" "set issues \<subseteq> set (eb_issues db0)"
  shows "\<exists>state'. rfold (score_point s) state issues = Inr state' \<and> set (eb_scores (snd state)) \<subseteq> set (eb_scores (snd state')) \<and>
    (\<forall>i\<in>set issues. \<forall>a revision. reviewed_outcome s db0 i = Inr (Some (a, revision)) \<longrightarrow> has_score (eb_scores (snd state')) i revision)"
  using assms(2,3)
proof (induction issues arbitrary: state)
  case (Cons i issues)
  then obtain r where r: "reviewed_outcome s db0 i = Inr r" using reviewed_outcome_total[OF assms(1), of i s] by auto
  let ?next = "record_score state i r"
  have point: "score_point s state i = Inr ?next"
    using r reviewed_outcome_frame[OF Cons.prems(1)] by (simp add: score_point_def del: rbind_Inr_iff)
  have "frame_same db0 (snd ?next)" using Cons.prems(1) record_score_frame[of state i r] by (simp add: frame_same_def)
  from Cons.IH[OF this] Cons.prems(2) obtain state' where rest: "rfold (score_point s) ?next issues = Inr state'"
    "set (eb_scores (snd ?next)) \<subseteq> set (eb_scores (snd state'))"
    "\<forall>i\<in>set issues. \<forall>a revision. reviewed_outcome s db0 i = Inr (Some (a, revision)) \<longrightarrow> has_score (eb_scores (snd state')) i revision"
    by auto
  have "has_score (eb_scores (snd state')) i revision" if "reviewed_outcome s db0 i = Inr (Some (a, revision))" for a revision
    using record_score_adds[of state i r] that r rest(2) by (auto simp: has_score_def)
  moreover have "rfold (score_point s) state (i # issues) = Inr state'" using point rest(1) by simp
  moreover have "set (eb_scores (snd state)) \<subseteq> set (eb_scores (snd state'))"
    using record_score_adds[of state i r] rest(2) by blast
  ultimately show ?case using rest(3) by (intro exI[of _ state']) simp
qed simp

lemma score_closed_total:
  assumes "evidence_ok db"
  shows "\<exists>n db'. score_closed policy lt today st db = Inr (n, db') \<and> frame_same db db' \<and>
    (\<forall>i\<in>set (eb_issues db). \<forall>a revision. px_target i < sn_as_of (load_snapshot policy lt today st) \<longrightarrow>
       reviewed_outcome (load_snapshot policy lt today st) db i = Inr (Some (a, revision)) \<longrightarrow> has_score (eb_scores db') i revision)"
proof -
  let ?s = "load_snapshot policy lt today st"
  have "frame_same db (snd (0, db))" by (simp add: frame_same_def)
  from score_loop_total[OF assms this, of "filter (\<lambda>i. px_target i < sn_as_of ?s) (eb_issues db)" ?s]
  obtain state' where s: "rfold (score_point ?s) (0, db) (filter (\<lambda>i. px_target i < sn_as_of ?s) (eb_issues db)) = Inr state'"
    "\<forall>i\<in>set (filter (\<lambda>i. px_target i < sn_as_of ?s) (eb_issues db)). \<forall>a revision.
        reviewed_outcome ?s db i = Inr (Some (a, revision)) \<longrightarrow> has_score (eb_scores (snd state')) i revision" by auto
  obtain n db' where st: "state' = (n, db')" by fastforce
  have "score_closed policy lt today st db = Inr (n, db')" using s(1) st by (simp add: score_closed_def Let_def)
  with score_closed_frame[OF this] s(2) st show ?thesis by auto
qed

lemma has_score_find: "has_score scores i revision \<Longrightarrow> \<exists>x. find (\<lambda>x. xs_issued x = px_id i \<and> xs_revision x = revision) scores = Some x"
  by (cases "find (\<lambda>x. xs_issued x = px_id i \<and> xs_revision x = revision) scores") (auto simp: find_None_iff has_score_def)

lemma standing_total:
  assumes "evidence_ok db" "i \<in> set (eb_issues db)"
  shows "\<exists>x. standing_of s db i = Inr x"
  using reviewed_outcome_total[OF assms, of s] by (auto simp: standing_of_def simp del: rbind_Inr_iff)

lemma rmap_total: "(\<And>x. x \<in> set xs \<Longrightarrow> \<exists>y. f x = Inr y) \<Longrightarrow> \<exists>ys. rmap f xs = Inr ys"
proof (induction xs)
  case (Cons x xs)
  then obtain y ys where "f x = Inr y" "rmap f xs = Inr ys" by (metis list.set_intros)
  then show ?case by simp
qed simp

lemma standing_counts:
  "length xs = length (filter (\<lambda>x. x = AwaitingOutcome) xs) + length (filter (\<lambda>x. x = AwaitingReview) xs) +
   length (List.map_filter (\<lambda>x. case x of Scored p \<Rightarrow> Some p | _ \<Rightarrow> None) xs)"
proof (induction xs)
  case (Cons x xs)
  then show ?case by (cases x) simp_all
qed simp

lemma row_counts: "er_issued (evidence_row_of judged key) =
    er_awaiting (evidence_row_of judged key) + er_unreviewed (evidence_row_of judged key) + er_scored (evidence_row_of judged key)"
  unfolding evidence_row_of_def Let_def evidence_row.simps by (rule standing_counts)

lemma count_by_key:
  "distinct ks \<Longrightarrow> key ` set xs \<subseteq> set ks \<Longrightarrow> (\<Sum>k\<leftarrow>ks. length (filter (\<lambda>x. key x = k) xs)) = length xs"
proof (induction xs)
  case (Cons a xs)
  have "(\<Sum>k\<leftarrow>ks. if key a = k then Suc 0 else 0) = (if key a \<in> set ks then 1 else 0)"
    using Cons.prems(1) by (induction ks) auto
  moreover have "(\<Sum>k\<leftarrow>ks. length (filter (\<lambda>x. key x = k) (a # xs))) =
      (\<Sum>k\<leftarrow>ks. (if key a = k then Suc 0 else 0) + length (filter (\<lambda>x. key x = k) xs))"
    by (intro arg_cong[of _ _ sum_list] map_cong) auto
  ultimately show ?case using Cons by (simp add: sum_list_addf)
qed simp

text \<open>
  The report accounts for every saved projection. In every reachable state the report does not fail; its rows
  have different keys in increasing order; and each saved projection is counted in one row, as waiting for its
  period to end, waiting for a review or a score, or scored.
\<close>

lemma evidence_report_complete:
  assumes "evidence_reachable env db"
  shows "\<exists>rows. evidence_report policy lt today st db = Inr rows \<and> sorted (map er_key rows) \<and> distinct (map er_key rows) \<and>
    (\<forall>r\<in>set rows. er_issued r = er_awaiting r + er_unreviewed r + er_scored r) \<and>
    (\<Sum>r\<leftarrow>rows. er_issued r) = length (eb_issues db)"
proof -
  let ?s = "load_snapshot policy lt today st" and ?issues = "sort_key px_id (eb_issues db)"
  note ok = reachable_evidence_ok[OF assms]
  have "\<exists>ys. rmap (standing_of ?s db) ?issues = Inr ys" by (rule rmap_total) (use standing_total[OF ok] in auto)
  then obtain judged where st: "rmap (standing_of ?s db) ?issues = Inr judged" by blast
  let ?judged = "zip ?issues judged" and ?keys = "sort (remdups (map key_of ?issues))"
  let ?rows = "map (evidence_row_of ?judged) ?keys"
  have len: "length judged = length ?issues" by (rule rmap_length[OF st])
  have keys: "map er_key ?rows = ?keys" by (simp add: o_def evidence_row_of_def Let_def)
  have "(\<Sum>r\<leftarrow>?rows. er_issued r) = (\<Sum>key\<leftarrow>?keys. length (filter (\<lambda>j. key_of (fst j) = key) ?judged))"
    by (simp add: o_def evidence_row_of_def Let_def split_def)
  also have "\<dots> = length ?judged" by (rule count_by_key) (auto dest: set_zip_leftD)
  finally have "(\<Sum>r\<leftarrow>?rows. er_issued r) = length (eb_issues db)" using len by simp
  moreover have "evidence_report policy lt today st db = Inr ?rows" using st by (simp add: evidence_report_def Let_def del: rbind_Inr_iff)
  moreover have "\<forall>r\<in>set ?rows. er_issued r = er_awaiting r + er_unreviewed r + er_scored r" using row_counts by auto
  ultimately show ?thesis using keys by (intro exI[of _ ?rows]) simp
qed

subsection \<open>A run of the commands\<close>

definition demo_now :: instant where
  "demo_now = at_hour 739620 9"

lemma demo_fits:
  assumes "demo_upper (pv_findings r)"
  shows "list_all job_fits (issue_jobs (project_snapshots [] (\<lambda>_. None) 739620 demo_sales) (pf_periods (pv_findings r)))"
  unfolding list_all_iff
proof
  fix j assume "j \<in> set (issue_jobs (project_snapshots [] (\<lambda>_. None) 739620 demo_sales) (pf_periods (pv_findings r)))"
  then obtain period view k p where j: "period \<in> set periods" "view \<in> set views"
      "(k, p) \<in> set (enumerate 1 (vw_points (lookup (lookup (pf_periods (pv_findings r)) period) view)))"
      "j = \<lparr>ij_period = period, ij_view = view,
         ij_baseline = baseline (lookup (project_snapshots [] (\<lambda>_. None) 739620 demo_sales) (unit_of period)) view period,
         ij_horizon = k, ij_point = p\<rparr>" unfolding issue_jobs_mem by blast
  have "sn_sales (lookup (project_snapshots [] (\<lambda>_. None) 739620 demo_sales) (unit_of period)) = []"
    using j(1) by (auto simp: lookup_def project_snapshots_def unit_of_def periods_def demo_no_sales)
  then have "baseline (lookup (project_snapshots [] (\<lambda>_. None) 739620 demo_sales) (unit_of period)) view period = None"
    using j(2) by (auto simp: baseline_def last_observed_def empty_series views_def segments_of_def segments_def)
  moreover have "p \<in> set (vw_points (lookup (lookup (pf_periods (pv_findings r)) period) view))"
    using j(3) by (auto simp: in_set_enumerate_eq)
  then have "pp_upper (vp_point p) = 13000" using assms j(1,2) by (simp add: demo_upper_def)
  ultimately show "job_fits j" by (simp add: j(4) job_fits_def column_fits_def)
qed

lemma demo_issued:
  "\<exists>db db' n i. evidence_reachable demo_projecting db \<and> evidence_step demo_projecting db db' \<and>
     issue_projections demo_projecting [] (\<lambda>_. None) demo_now 739620 (\<lambda>_. demo_now) 739620 demo_source db = Inr (n, db') \<and>
     i \<in> set (eb_issues db') \<and> px_period i = ''weekly'' \<and> px_view i = ''regular'' \<and> px_target i = 739621 \<and> eb_reviews db' = []"
proof -
  obtain r where r: "refresh_projections demo_projecting [] (\<lambda>_. None) 739620 739620 demo_source demo_source 0 [] [] = Inr (r, True, [r])"
    and found: "find_run (context_of demo_projecting [] (\<lambda>_. None) 739620 demo_source) [r] = Some r" "pv_created r = 0"
    and n: "length (vw_points (lookup (lookup (pf_periods (pv_findings r)) ''weekly'') ''regular'')) = 13"
    and up: "demo_upper (pv_findings r)"
    using demo_refreshed by blast
  let ?db = "no_evidence\<lparr>eb_runs := [r]\<rparr>" and ?points = "vw_points (lookup (lookup (pf_periods (pv_findings r)) ''weekly'') ''regular'')"
  have "evidence_step demo_projecting no_evidence ?db"
    by (rule evidence_step.refreshed[where k = 0]) (use r in \<open>simp add: no_evidence_def\<close>)
  then have db: "evidence_reachable demo_projecting ?db" by (rule evidence_reachable.step[OF evidence_reachable.start])
  have today: "local_date demo_now = 739620" by (simp add: demo_now_def)
  have c: "projection_context demo_projecting [] (\<lambda>_. None) 739620 (local_date demo_now) demo_source =
      Inr (project_snapshots [] (\<lambda>_. None) 739620 demo_sales, targets_for 739620, context_of demo_projecting [] (\<lambda>_. None) 739620 demo_source)"
    by (simp add: projection_context_def demo_source_def today)
  have "find_run (context_of demo_projecting [] (\<lambda>_. None) 739620 demo_source) (eb_runs ?db) = Some r" using found by simp
  from issue_all[OF db c this _ today[symmetric] demo_fits[OF up], of "\<lambda>_. demo_now"] found(2) obtain k db' where
    iss: "issue_projections demo_projecting [] (\<lambda>_. None) demo_now 739620 (\<lambda>_. demo_now) 739620 demo_source ?db = Inr (k, db')"
    and all: "\<forall>period\<in>set periods. \<forall>view\<in>set views. \<forall>p\<in>set (vw_points (lookup (lookup (pf_periods (pv_findings r)) period) view)).
         local_date demo_now < vp_date p \<and> (\<exists>i\<in>set (eb_issues db'). issued_for (local_date demo_now) r period view (vp_date p) i)"
    by (auto simp: demo_now_def at_hour_def day_us_def manila_us_def)
  have "run_sound demo_projecting r" using refresh_projections_new[OF r] by simp
  have dates: "map vp_date ?points = lookup (targets_for 739620) ''weekly''"
  proof -
    have "run_sound demo_projecting r" "id_targets (pv_source r) = targets_for 739620"
      using refresh_projections_new[OF r] by (auto simp: context_of_def Let_def)
    then obtain primary weekly s previous where b: "build demo_projecting primary weekly s (targets_for 739620) previous = Inr (pv_findings r)"
      by (auto simp: run_sound_def)
    have "''weekly'' \<in> set periods" "''regular'' \<in> set views" by (simp_all add: periods_def views_def)
    from build_points_sound[OF b this] n show ?thesis by (auto simp: Let_def)
  qed
  have "?points ! 0 \<in> set ?points" "vp_date (?points ! 0) = 739621"
    using n arg_cong[OF dates, of "\<lambda>xs. xs ! 0"] by (simp_all add: demo_weekly_targets nth_append)
  moreover have "''weekly'' \<in> set periods" "''regular'' \<in> set views" by (simp_all add: periods_def views_def)
  ultimately obtain i where "i \<in> set (eb_issues db')" "issued_for (local_date demo_now) r ''weekly'' ''regular'' 739621 i" using all by metis
  moreover have "evidence_step demo_projecting ?db db'" by (rule evidence_step.issued[OF iss]) (simp add: today)
  moreover have "eb_reviews db' = []" using issue_projections_runs[OF iss] by (simp add: no_evidence_def)
  ultimately show ?thesis using db iss by (auto simp: issued_for_def)
qed

theorem issuing_records_all_witness:
  "\<exists>db run n db'. evidence_reachable demo_projecting db \<and>
     find_run (context_of demo_projecting [] (\<lambda>_. None) 739620 demo_source) (eb_runs db) = Some run \<and>
     issue_projections demo_projecting [] (\<lambda>_. None) demo_now 739620 (\<lambda>_. demo_now) 739620 demo_source db = Inr (n, db') \<and>
     (\<forall>p\<in>set (vw_points (lookup (lookup (pf_periods (pv_findings run)) ''weekly'') ''regular'')).
        \<exists>i\<in>set (eb_issues db'). issued_for 739620 run ''weekly'' ''regular'' (vp_date p) i)"
proof -
  obtain r where r: "refresh_projections demo_projecting [] (\<lambda>_. None) 739620 739620 demo_source demo_source 0 [] [] = Inr (r, True, [r])"
    and found: "find_run (context_of demo_projecting [] (\<lambda>_. None) 739620 demo_source) [r] = Some r" "pv_created r = 0"
    and up: "demo_upper (pv_findings r)" using demo_refreshed by blast
  let ?db = "no_evidence\<lparr>eb_runs := [r]\<rparr>"
  have "evidence_step demo_projecting no_evidence ?db"
    by (rule evidence_step.refreshed[where k = 0]) (use r in \<open>simp add: no_evidence_def\<close>)
  then have db: "evidence_reachable demo_projecting ?db" by (rule evidence_reachable.step[OF evidence_reachable.start])
  have today: "local_date demo_now = 739620" by (simp add: demo_now_def)
  have c: "projection_context demo_projecting [] (\<lambda>_. None) 739620 (local_date demo_now) demo_source =
      Inr (project_snapshots [] (\<lambda>_. None) 739620 demo_sales, targets_for 739620, context_of demo_projecting [] (\<lambda>_. None) 739620 demo_source)"
    by (simp add: projection_context_def demo_source_def today)
  have f: "find_run (context_of demo_projecting [] (\<lambda>_. None) 739620 demo_source) (eb_runs ?db) = Some r" using found by simp
  have "''weekly'' \<in> set periods" "''regular'' \<in> set views" by (simp_all add: periods_def views_def)
  with issuing_records_all[OF db c f _ today[symmetric] demo_fits[OF up], of "\<lambda>_. demo_now"] found(2) db f show ?thesis
    by (simp add: today) (fastforce simp: demo_now_def at_hour_def day_us_def manila_us_def)
qed

theorem projection_record_kept_witness:
  "\<exists>(db :: (dec, unit, unit) evidence_db) db' i. evidence_reachable demo_projecting db \<and> evidence_step demo_projecting db db' \<and> evidence_extends db db' \<and>
     i \<in> set (eb_issues db') \<and> px_target i = 739621 \<and> local_date (px_at i) < 739621 \<and> valid_issue i"
proof -
  obtain db db' :: "(dec, unit, unit) evidence_db" and i where d: "evidence_reachable demo_projecting db" "evidence_step demo_projecting db db'" "i \<in> set (eb_issues db')" "px_target i = 739621"
    using demo_issued by blast
  with projection_record_kept[OF d(1,2)] show ?thesis by metis
qed

lemma evidence_report_complete_witness:
  "\<exists>(db :: (dec, unit, unit) evidence_db) rows. evidence_reachable demo_projecting db \<and> eb_issues db \<noteq> [] \<and>
     evidence_report [] (\<lambda>_. None) 739628 demo_sales db = Inr rows \<and> (\<Sum>r\<leftarrow>rows. er_issued r) = length (eb_issues db)"
proof -
  obtain db db' :: "(dec, unit, unit) evidence_db" and i where d: "evidence_reachable demo_projecting db" "evidence_step demo_projecting db db'" "i \<in> set (eb_issues db')"
    using demo_issued by blast
  from evidence_reachable.step[OF d(1,2)] have r: "evidence_reachable demo_projecting db'" .
  from evidence_report_complete[OF r, of "[]" "\<lambda>_. None" 739628 demo_sales] r d(3) show ?thesis
    by (metis list.set(1) empty_iff)
qed

lemma empty_outcome: "sn_sales s = [] \<Longrightarrow> outcome_of s period target segment = \<lparr>oc_revision = [], oc_actual = 0, oc_empty = True, oc_unresolved = False\<rparr>"
  by (simp add: outcome_of_def period_sales_def)

definition demo_day :: snapshot where
  "demo_day = load_snapshot [] (\<lambda>_. None) 739628 demo_sales"

lemma demo_day_fields: "sn_sales demo_day = []" "sn_as_of demo_day = 739628"
  using demo_no_sales by (simp_all add: demo_day_def load_snapshot_def load_source_def make_snapshot_def demo_sales_def)

theorem reported_score_current_witness:
  "\<exists>(db :: (dec, unit, unit) evidence_db) i x. evidence_reachable demo_projecting db \<and> i \<in> set (eb_issues db) \<and> standing_of demo_day db i = Inr (Scored x) \<and>
     xs_actual x = 0 \<and> xs_error x = px_value i \<and> (\<exists>c\<in>set (eb_reviews db). pc_zero c \<and> pc_target c = 739621)"
proof -
  obtain db0 db1 :: "(dec, unit, unit) evidence_db" and i where r: "evidence_reachable demo_projecting db0" "evidence_step demo_projecting db0 db1"
    and i: "i \<in> set (eb_issues db1)" "px_period i = ''weekly''" "px_view i = ''regular''" "px_target i = 739621" and none: "eb_reviews db1 = []"
    using demo_issued by blast
  have r1: "evidence_reachable demo_projecting db1" by (rule evidence_reachable.step[OF r])
  let ?att = "attest_projection [] (\<lambda>_. None) 739628 demo_sales [demo_reviewer] ''weekly'' ''regular'' 739621 ''ana'' ''closed'' True db1"
  define c where "c = \<lparr>pc_id = new_pk pc_id (eb_reviews db1), pc_period = ''weekly'', pc_segment = ''regular'', pc_target = 739621,
    pc_revision = [], pc_zero = True, pc_by = 1, pc_note = ''closed''\<rparr>"
  have b: "boundary 739621 ''weekly'' = Inr 739621" by (simp add: boundary_def periods_def weekday_def)
  have o: "outcome_of (load_snapshot [] (\<lambda>_. None) 739628 demo_sales) ''weekly'' 739621 ''regular'' =
      \<lparr>oc_revision = [], oc_actual = 0, oc_empty = True, oc_unresolved = False\<rparr>" by (rule empty_outcome[OF demo_no_sales])
  have n: "strip ''closed'' = ''closed''" by code_simp
  let ?db2 = "db1\<lparr>eb_reviews := [c]\<rparr>"
  have att: "?att = Inr ((c, True), ?db2)"
    by (simp add: attest_projection_def validate_target_def b n o none segments_def period_end_def active_reviewer_def demo_reviewer_def
        row_ins_def c_def Let_def)
  have r2: "evidence_reachable demo_projecting ?db2" by (rule evidence_reachable.step[OF r1]) (rule evidence_step.attested[OF att])
  note ok = reachable_evidence_ok[OF r2]
  have i2: "i \<in> set (eb_issues ?db2)" using i(1) by simp
  from ok i2 have sound: "issue_sound (eb_runs ?db2) i" by (auto simp: evidence_ok_def list_all_iff)
  then obtain run where run: "run \<in> set (eb_runs db1)" "pv_id run = px_run i" "pv_created run \<le> px_at i" by (auto simp: issue_sound_def)
  have "row_get pv_id (eb_runs db1) (px_run i) = Some run" using ok run by (simp add: evidence_ok_def row_get_iff)
  then have created: "run_created (eb_runs db1) (px_run i) = pv_created run" by (simp add: run_created_def)
  have rev: "reviewed_outcome demo_day ?db2 i = Inr (Some (0, [(''regular'', [], pc_id c)]))"
    using sound created run i
    by (simp add: reviewed_outcome_def demo_day_fields empty_outcome issue_sound_def period_end_def segments_of_def same_review_def
        c_def Let_def)
  from score_closed_total[OF ok, of "[]" "\<lambda>_. None" 739628 demo_sales] obtain k db3 where
    sc: "score_closed [] (\<lambda>_. None) 739628 demo_sales ?db2 = Inr (k, db3)" and same: "frame_same ?db2 db3"
    and has: "has_score (eb_scores db3) i [(''regular'', [], pc_id c)]"
    using i2 rev i(4) demo_day_fields(2) unfolding demo_day_def by fastforce
  have r3: "evidence_reachable demo_projecting db3" by (rule evidence_reachable.step[OF r2]) (rule evidence_step.scored[OF sc])
  have rev3: "reviewed_outcome demo_day db3 i = Inr (Some (0, [(''regular'', [], pc_id c)]))" using rev reviewed_outcome_frame[OF same] by simp
  from has_score_find[OF has] obtain x where "find (\<lambda>x. xs_issued x = px_id i \<and> xs_revision x = [(''regular'', [], pc_id c)]) (eb_scores db3) = Some x" ..
  then have st: "standing_of demo_day db3 i = Inr (Scored x)"
    using i rev3 by (simp add: standing_of_def period_end_def demo_day_fields del: rbind_Inr_iff)
  have i3: "i \<in> set (eb_issues db3)" using i2 same by (simp add: frame_same_def)
  have "view_sales demo_day i = []" by (simp add: view_sales_def period_sales_def demo_day_fields)
  with reported_score_current[OF r3 i3 st] have "xs_actual x = 0" "xs_error x = px_value i" by simp_all
  moreover have "\<exists>c\<in>set (eb_reviews db3). pc_zero c \<and> pc_target c = 739621"
    by (rule bexI[of _ c]) (use same in \<open>simp_all add: frame_same_def c_def\<close>)
  ultimately show ?thesis using r3 i3 st by blast
qed

end
