(* ===== verification/Weekly_Research.thy ===== *)
theory Weekly_Research
  imports Complex_Main Forecast_Learning
begin

text \<open>
  Weekly research on recorded sales (\<^verbatim>\<open>forecasting/weekly.py\<close>): the weeks of a history, the walk-forward folds of
  three seasonal models and three baselines, the choice of a model, the saved runs and the report that checks a
  run again before it shows it. Fitting is numerical code on a third-party library; what one optimizer returns
  and what a filtered model forecasts are arguments of the model. Revenue is in hundredths, arithmetic on scaled
  values is exact, and dates are values instead of ISO texts.
\<close>

subsection \<open>Weeks\<close>

definition weekly_version :: string where "weekly_version = ''regular-weekly-sarima-v1''"
definition min_train :: nat where "min_train = 104"
definition validation_weeks :: nat where "validation_weeks = 13"
definition test_weeks :: nat where "test_weeks = 13"
definition min_weeks :: nat where "min_weeks = min_train + validation_weeks + test_weeks"

definition weekly_configs :: "string list" where
  "weekly_configs = [''weekly_sarima_010_100_52'', ''weekly_sarima_100_100_52'', ''weekly_sarima_011_100_52'']"

definition weekly_baselines :: "string list" where
  "weekly_baselines = [''previous_week'', ''trailing_4_mean'', ''same_week_last_year'']"

definition week_start :: "date \<Rightarrow> date" where
  "week_start day = day - weekday day"

definition weekly_snapshot :: "policy \<Rightarrow> (nat \<Rightarrow> dec option) \<Rightarrow> date \<Rightarrow> date option \<Rightarrow> sales_store \<Rightarrow> snapshot res" where
  "weekly_snapshot policy line_total today as_of st =
     (let day = fill as_of today
      in if today < day then Inl (ValueError ''as_of must be a business date no later than today.'')
         else Inr (load_snapshot policy line_total (week_start day) st))"

function week_loop :: "(date \<Rightarrow> dec option) \<Rightarrow> date \<Rightarrow> date \<Rightarrow> (date \<times> dec) list \<Rightarrow> (date \<times> dec) list" where
  "week_loop totals stop first rows =
     (if first + 6 \<le> stop
      then week_loop totals stop (first + 7) (case totals first of Some v \<Rightarrow> rows @ [(first, v)] | None \<Rightarrow> [])
      else rows)"
  by pat_completeness auto
termination by (relation "measure (\<lambda>(totals, stop, first, rows). nat (stop + 7 - first))") auto

declare week_loop.simps [simp del]

definition regular_sales :: "snapshot \<Rightarrow> recorded_sale list" where
  "regular_sales s = filter (\<lambda>x. rs_segment x = ''regular'') (sn_sales s)"

definition week_totals :: "snapshot \<Rightarrow> date \<Rightarrow> dec option" where
  "week_totals s = map_of (group_sums (\<lambda>x. week_start (rs_day x)) rs_revenue (regular_sales s))"

text \<open>The last stretch of months without a gap in which regular sales were recorded.\<close>

definition observed_months :: "snapshot \<Rightarrow> date list" where
  "observed_months s =
     map fst (contiguous (map (\<lambda>m. (m, ())) (sort (remdups (map (\<lambda>x. first_of_month (rs_day x)) (regular_sales s))))))"

definition weekly_rows :: "snapshot \<Rightarrow> (date \<times> dec) list" where
  "weekly_rows s =
     (let months = observed_months s
      in if months = [] then []
         else let monday = week_start (hd months);
                  first = (if monday < hd months then monday + 7 else monday);
                  stop = min (month_end (last months)) (sn_as_of s - 1)
              in week_loop (week_totals s) stop first [])"


subsection \<open>Fitting\<close>

record fit_result =
  fr_params :: "rat option list"
  fr_converged :: bool
  fr_llf_finite :: bool
  fr_forecast :: "rat option"

text \<open>
  The library: its version, the names of a model's parameters, one run of an optimizer from given starting
  values, and the forecast of a model filtered with saved parameters. A number that is not finite is \<open>None\<close>, and
  so is a call that raises.
\<close>

record weekly_env =
  we_version :: string
  we_names :: "string \<Rightarrow> string list"
  we_fit :: "string \<Rightarrow> string \<Rightarrow> rat option list option \<Rightarrow> rat list \<Rightarrow> fit_result option"
  we_filter :: "string \<Rightarrow> rat list \<Rightarrow> rat option list \<Rightarrow> rat option"

record weekly_artifact =
  wa_name :: string
  wa_version :: string
  wa_history :: "rat list"
  wa_scale :: rat
  wa_params :: "rat option list"
  wa_names :: "string list"
  wa_weeks :: nat
  wa_through :: date
  wa_target :: date

definition good_fit :: "fit_result \<Rightarrow> bool" where
  "good_fit r \<longleftrightarrow> fr_converged r \<and> list_all (\<lambda>v. v \<noteq> None) (fr_params r) \<and> fr_llf_finite r"

definition optimize :: "weekly_env \<Rightarrow> string \<Rightarrow> rat list \<Rightarrow> fit_result option" where
  "optimize env name values =
     (case we_fit env name ''lbfgs'' None values of
        None \<Rightarrow> None
      | Some r \<Rightarrow> if good_fit r then Some r
          else (case we_fit env name ''powell'' (Some (fr_params r)) values of
                  None \<Rightarrow> None
                | Some r2 \<Rightarrow> if good_fit r2 then Some r2 else None))"

definition pesos :: "dec \<Rightarrow> rat" where
  "pesos v = of_int v / 100"

definition week_round :: "rat \<Rightarrow> dec" where
  "week_round x = (let q = 100 * x; f = \<lfloor>q\<rfloor>; r = q - of_int f
     in if r < 1 / 2 then f else if 1 / 2 < r then f + 1 else if even f then f else f + 1)"

definition currency :: "rat option \<Rightarrow> dec option" where
  "currency value = (case value of None \<Rightarrow> None
     | Some x \<Rightarrow> if 10 ^ 18 \<le> x then None else Some (week_round (max 0 x)))"

definition week_gap_free :: "(date \<times> dec) list \<Rightarrow> bool" where
  "week_gap_free rows \<longleftrightarrow> list_all (\<lambda>(a, b). fst a + 7 = fst b) (zip rows (tl rows))"

definition fit_weekly :: "weekly_env \<Rightarrow> string \<Rightarrow> (date \<times> dec) list \<Rightarrow> (weekly_artifact \<times> dec) option" where
  "fit_weekly env name rows =
     (let values = map (pesos \<circ> snd) rows
      in if name \<notin> set weekly_configs \<or> length values < min_train \<or> list_ex (\<lambda>v. v < 0) values then None
         else if list_ex (\<lambda>r. weekday (fst r) \<noteq> 0) rows then None
         else if \<not> week_gap_free rows then None
         else let scale = max (sum_list values / of_nat (length values)) 1;
                  normalized = map (\<lambda>v. v / scale) values
              in case optimize env name normalized of
                   None \<Rightarrow> None
                 | Some r \<Rightarrow>
                     (case currency (map_option (\<lambda>x. x * scale) (fr_forecast r)) of
                        None \<Rightarrow> None
                      | Some prediction \<Rightarrow>
                          Some (\<lparr>wa_name = name, wa_version = we_version env, wa_history = normalized, wa_scale = scale,
                                 wa_params = fr_params r, wa_names = we_names env name, wa_weeks = length rows,
                                 wa_through = fst (last rows), wa_target = fst (last rows) + 7\<rparr>, prediction)))"

definition bounded_name :: "string \<Rightarrow> bool" where
  "bounded_name key \<longleftrightarrow> take 3 key = ''ar.'' \<or> take 3 key = ''ma.''"

text \<open>The checks of parameters; \<^verbatim>\<open>names.index\<close> finds the first occurrence and raises without one.\<close>

definition valid_params :: "string list \<Rightarrow> rat option list \<Rightarrow> bool" where
  "valid_params names params \<longleftrightarrow>
     length params = length names \<and> list_all (\<lambda>v. v \<noteq> None) params \<and>
     (case find (\<lambda>p. fst p = ''sigma2'') (zip names params) of Some (n, Some v) \<Rightarrow> 0 \<le> v | _ \<Rightarrow> False) \<and>
     list_all (\<lambda>(key, value). bounded_name key \<longrightarrow> (case value of Some v \<Rightarrow> \<bar>v\<bar> < 1 | None \<Rightarrow> False)) (zip names params)"

definition valid_weekly_artifact :: "weekly_env \<Rightarrow> weekly_artifact \<Rightarrow> bool" where
  "valid_weekly_artifact env a \<longleftrightarrow>
     wa_name a \<in> set weekly_configs \<and> wa_version a = we_version env \<and> min_train \<le> wa_weeks a \<and>
     length (wa_history a) = wa_weeks a \<and> 0 < wa_scale a \<and> wa_names a = we_names env (wa_name a) \<and>
     valid_params (we_names env (wa_name a)) (wa_params a) \<and> list_all (\<lambda>v. 0 \<le> v) (wa_history a) \<and>
     weekday (wa_through a) = 0 \<and> wa_target a - wa_through a = 7"

definition predict_weekly :: "weekly_env \<Rightarrow> weekly_artifact \<Rightarrow> dec res" where
  "predict_weekly env a =
     (if \<not> valid_weekly_artifact env a then Inl (ValueError ''Invalid weekly SARIMA artifact.'')
      else case currency (map_option (\<lambda>x. x * wa_scale a) (we_filter env (wa_name a) (wa_history a) (wa_params a))) of
             None \<Rightarrow> Inl (ValueError ''Weekly prediction is outside supported currency precision.'')
           | Some v \<Rightarrow> Inr v)"

definition weekly_baseline :: "string \<Rightarrow> rat list \<Rightarrow> rat option" where
  "weekly_baseline name values =
     (if name = ''previous_week'' then Some (last values)
      else if name = ''trailing_4_mean'' then Some (sum_list (drop (length values - 4) values) / 4)
      else if name = ''same_week_last_year'' then Some (values ! (length values - 52))
      else None)"

definition weekly_fold :: "weekly_env \<Rightarrow> string \<Rightarrow> (date \<times> dec) list \<Rightarrow> nat \<Rightarrow> fold_row option" where
  "weekly_fold env name rows i =
     map_option (\<lambda>p. \<lparr>fo_month = fst (rows ! i), fo_through = fst (rows ! (i - 1)), fo_actual = snd (rows ! i), fo_predicted = p\<rparr>)
       (if name \<in> set weekly_configs then map_option snd (fit_weekly env name (take i rows))
        else currency (weekly_baseline name (map (pesos \<circ> snd) (take i rows))))"

definition walk_weekly :: "weekly_env \<Rightarrow> string \<Rightarrow> (date \<times> dec) list \<Rightarrow> nat \<Rightarrow> nat \<Rightarrow> fold_row list option" where
  "walk_weekly env name rows start stop = those (map (weekly_fold env name rows) [start..<stop])"

subsection \<open>Training\<close>

record weekly_candidate =
  wc_validation :: "score option"
  wc_validation_rows :: "fold_row list option"
  wc_test :: "score option"
  wc_test_rows :: "fold_row list option"

record weekly_findings =
  wf_status :: string
  wf_selected :: "string option"
  wf_baseline :: "string option"
  wf_candidates :: "(string \<times> weekly_candidate) list"
  wf_weeks :: nat
  wf_span :: "(date \<times> date \<times> date \<times> date) option"
  wf_base_test :: "score option"
  wf_artifact :: "weekly_artifact option"
  wf_sha :: "weekly_artifact option"
  wf_next :: "next_point option"
  wf_signature :: "(date \<times> dec) list"
  wf_reused :: "nat option"

definition stopped_findings :: "string \<Rightarrow> string option \<Rightarrow> (string \<times> weekly_candidate) list \<Rightarrow> weekly_findings" where
  "stopped_findings status selected candidates =
     \<lparr>wf_status = status, wf_selected = selected, wf_baseline = None, wf_candidates = candidates, wf_weeks = 0, wf_span = None,
      wf_base_test = None, wf_artifact = None, wf_sha = None, wf_next = None, wf_signature = [], wf_reused = None\<rparr>"

definition validated :: "weekly_env \<Rightarrow> (date \<times> dec) list \<Rightarrow> string \<Rightarrow> weekly_candidate" where
  "validated env rows name =
     (let folds = walk_weekly env name rows (length rows - test_weeks - validation_weeks) (length rows - test_weeks)
      in \<lparr>wc_validation = map_option fold_score folds, wc_validation_rows = folds, wc_test = None, wc_test_rows = None\<rparr>)"

definition validation_wape :: "weekly_env \<Rightarrow> (date \<times> dec) list \<Rightarrow> string \<Rightarrow> int option" where
  "validation_wape env rows name = wape_of (wc_validation (validated env rows name))"

definition tested :: "weekly_env \<Rightarrow> (date \<times> dec) list \<Rightarrow> string \<Rightarrow> weekly_candidate" where
  "tested env rows name =
     (if validation_wape env rows name = None then validated env rows name
      else let folds = walk_weekly env name rows (length rows - test_weeks) (length rows)
           in (validated env rows name)\<lparr>wc_test := map_option fold_score folds, wc_test_rows := folds\<rparr>)"

definition error_width :: "fold_row list \<Rightarrow> dec" where
  "error_width folds =
     (let errors = sort (map (\<lambda>r. \<bar>fo_predicted r - fo_actual r\<bar>) folds)
      in errors ! min (length errors - 1) ((9 * (length errors + 1) + 9) div 10 - 1))"

definition candidate_findings :: "(date \<times> dec) list \<Rightarrow> string \<Rightarrow> string \<Rightarrow> (string \<times> weekly_candidate) list \<Rightarrow> fold_row list \<Rightarrow>
    score option \<Rightarrow> weekly_artifact \<Rightarrow> dec \<Rightarrow> weekly_findings" where
  "candidate_findings rows selected baseline candidates folds base_test artifact value =
     \<lparr>wf_status = ''research_candidate'', wf_selected = Some selected, wf_baseline = Some baseline, wf_candidates = candidates,
      wf_weeks = length rows,
      wf_span = Some (fst (rows ! (length rows - test_weeks - validation_weeks)), fst (rows ! (length rows - test_weeks - 1)),
        fst (rows ! (length rows - test_weeks)), fst (last rows)),
      wf_base_test = base_test, wf_artifact = Some artifact, wf_sha = Some artifact,
      wf_next = Some \<lparr>np_date = wa_target artifact, np_value = value, np_lower = max 0 (value - error_width folds),
        np_upper = value + error_width folds, np_samples = length folds\<rparr>,
      wf_signature = [], wf_reused = None\<rparr>"

definition train_weekly :: "weekly_env \<Rightarrow> (date \<times> dec) list \<Rightarrow> weekly_findings" where
  "train_weekly env rows =
     (if length rows < min_weeks then stopped_findings ''insufficient_history'' None []
      else let names = weekly_configs @ weekly_baselines;
               shown = map (\<lambda>n. (n, tested env rows n)) names
           in case (best_of (validation_wape env rows) weekly_configs, best_of (validation_wape env rows) weekly_baselines) of
                (Some selected, Some baseline) \<Rightarrow>
                  (case (wc_test_rows (tested env rows selected), wc_test (tested env rows baseline)) of
                     (Some folds, Some base_test) \<Rightarrow>
                       (case fit_weekly env selected rows of
                          None \<Rightarrow> stopped_findings ''selected_model_failed'' (Some selected) shown
                        | Some (artifact, value) \<Rightarrow> candidate_findings rows selected baseline shown folds (Some base_test) artifact value)
                   | _ \<Rightarrow> stopped_findings ''selected_model_failed'' (Some selected) shown)
              | _ \<Rightarrow> stopped_findings ''no_valid_candidates'' None (map (\<lambda>n. (n, validated env rows n)) names))"


subsection \<open>Saved runs\<close>

record weekly_run =
  wr_id :: nat
  wr_version :: string
  wr_revision :: sales_revision
  wr_cutoff :: date
  wr_through :: "date option"
  wr_status :: string
  wr_findings :: weekly_findings

text \<open>The table is in its default order: the run saved last comes first.\<close>

definition run_for :: "snapshot \<Rightarrow> weekly_run list \<Rightarrow> weekly_run option" where
  "run_for s runs = find (\<lambda>r. wr_version r = weekly_version \<and> wr_revision r = sn_revision s \<and> wr_cutoff r = sn_as_of s) runs"

text \<open>The part before the lock: an existing run, or findings to be saved. The digest of the rows is the rows.\<close>

definition weekly_prepare :: "weekly_env \<Rightarrow> snapshot \<Rightarrow> weekly_run list \<Rightarrow> weekly_run + weekly_findings" where
  "weekly_prepare env s runs =
     (case run_for s runs of
        Some r \<Rightarrow> Inl r
      | None \<Rightarrow>
          let rows = weekly_rows s;
              fresh = train_weekly env rows;
              findings = (case find (\<lambda>r. wr_version r = weekly_version) runs of
                            Some previous \<Rightarrow> if wf_signature (wr_findings previous) = rows
                              then (wr_findings previous)\<lparr>wf_reused := Some (wr_id previous)\<rparr> else fresh
                          | None \<Rightarrow> fresh)
          in Inr (findings\<lparr>wf_signature := rows\<rparr>))"

definition weekly_commit :: "snapshot \<Rightarrow> snapshot \<Rightarrow> weekly_findings \<Rightarrow> weekly_run list \<Rightarrow> ((weekly_run \<times> bool) \<times> weekly_run list) res" where
  "weekly_commit s current findings runs =
     (if sn_revision current \<noteq> sn_revision s \<or> sn_as_of current \<noteq> sn_as_of s
      then Inl (ValueError ''Actual weekly data changed during fitting; retry.'')
      else case run_for s runs of
             Some r \<Rightarrow> Inr ((r, False), runs)
           | None \<Rightarrow>
               let rows = weekly_rows s;
                   run = \<lparr>wr_id = new_pk wr_id runs, wr_version = weekly_version, wr_revision = sn_revision s, wr_cutoff = sn_as_of s,
                          wr_through = (if rows = [] then None else Some (fst (last rows) + 6)),
                          wr_status = wf_status findings, wr_findings = findings\<rparr>
               in Inr ((run, True), run # runs))"

text \<open>A refresh: the ledger, the clock and the saved runs may differ between its first read and its lock.\<close>

definition refresh_weekly :: "weekly_env \<Rightarrow> policy \<Rightarrow> (nat \<Rightarrow> dec option) \<Rightarrow> date option \<Rightarrow>
    date \<times> sales_store \<times> weekly_run list \<Rightarrow> date \<times> sales_store \<times> weekly_run list \<Rightarrow> ((weekly_run \<times> bool) \<times> weekly_run list) res" where
  "refresh_weekly env policy line_total as_of before locked =
     (let (today, st, runs) = before; (today', st', runs') = locked
      in rbind (weekly_snapshot policy line_total today as_of st)
           (\<lambda>s. case weekly_prepare env s runs of
                  Inl r \<Rightarrow> Inr ((r, False), runs')
                | Inr findings \<Rightarrow> rbind (weekly_snapshot policy line_total today' as_of st')
                    (\<lambda>current. weekly_commit s current findings runs')))"


subsection \<open>The report\<close>

record weekly_view =
  wp_status :: string
  wp_available :: nat
  wp_run :: "nat option"
  wp_through :: "date option"
  wp_selected :: "string option"
  wp_baseline :: "string option"
  wp_candidates :: "(string \<times> score option \<times> score option) list"
  wp_rows :: "fold_row list"
  wp_metrics :: "score option"
  wp_base_metrics :: "score option"
  wp_next :: "next_point option"
  wp_beats :: "bool option"

text \<open>The comparison rows are checked one after the other; \<open>seen\<close> holds the weeks checked before.\<close>

fun rows_agree :: "(date \<rightharpoonup> dec) \<Rightarrow> date list \<Rightarrow> fold_row list \<Rightarrow> bool" where
  "rows_agree actual seen [] = True"
| "rows_agree actual seen (r # rs) =
     (if weekday (fo_month r) \<noteq> 0 \<or> fo_month r \<in> set seen \<or> fo_through r + 7 \<noteq> fo_month r \<or>
         actual (fo_month r) \<noteq> Some (fo_actual r) \<or> fo_predicted r < 0
      then False else rows_agree actual (fo_month r # seen) rs)"

definition comparison_ok :: "(date \<rightharpoonup> dec) \<Rightarrow> fold_row list \<Rightarrow> bool" where
  "comparison_ok actual rows \<longleftrightarrow>
     rows_agree actual [] rows \<and> length rows = test_weeks \<and> list_all (\<lambda>(a, b). fo_month b - fo_month a = 7) (zip rows (tl rows))"

definition shown_test_rows :: "weekly_findings \<Rightarrow> fold_row list" where
  "shown_test_rows f =
     (case wf_selected f of None \<Rightarrow> []
      | Some n \<Rightarrow> (case map_of (wf_candidates f) n of None \<Rightarrow> [] | Some c \<Rightarrow> fill (wc_test_rows c) []))"

definition weekly_report :: "weekly_env \<Rightarrow> snapshot \<Rightarrow> weekly_run list \<Rightarrow> weekly_view" where
  "weekly_report env s runs =
     (let training_rows = weekly_rows s;
          base = \<lparr>wp_status = ''refresh_required'', wp_available = length training_rows, wp_run = None, wp_through = None, wp_selected = None,
                  wp_baseline = None, wp_candidates = [], wp_rows = [], wp_metrics = None, wp_base_metrics = None, wp_next = None, wp_beats = None\<rparr>
      in case run_for s runs of
           None \<Rightarrow> base
         | Some run \<Rightarrow>
             let f = wr_findings run;
                 base = base\<lparr>wp_run := Some (wr_id run), wp_status := wr_status run, wp_through := wr_through run,
                   wp_selected := wf_selected f, wp_baseline := wf_baseline f,
                   wp_candidates := map (\<lambda>(n, c). (n, wc_validation c, wc_test c)) (wf_candidates f)\<rparr>
             in if wr_status run \<noteq> ''research_candidate'' then base
                else if (case wf_artifact f of None \<Rightarrow> True
                           | Some a \<Rightarrow> \<not> valid_weekly_artifact env a \<or> wf_sha f \<noteq> Some a \<or> wf_selected f \<noteq> Some (wa_name a))
                then base\<lparr>wp_status := ''invalid_model''\<rparr>
                else if \<not> comparison_ok (map_of training_rows) (shown_test_rows f) then base\<lparr>wp_status := ''invalid_comparison''\<rparr>
                else let metrics = fold_score (shown_test_rows f)
                     in base\<lparr>wp_status := (if wr_through run \<noteq> Some (sn_as_of s - 1) then ''stale_data'' else ''research_only''),
                          wp_metrics := Some metrics, wp_base_metrics := wf_base_test f, wp_rows := shown_test_rows f, wp_next := wf_next f,
                          wp_beats := (case (sc_wape metrics, wape_of (wf_base_test f)) of (Some m, Some b) \<Rightarrow> Some (m < b) | _ \<Rightarrow> None)\<rparr>)"

subsection \<open>The weeks of a history\<close>

text \<open>Consecutive Mondays up to the one before \<open>nxt\<close>, each with its total.\<close>

definition week_run :: "(date \<Rightarrow> dec option) \<Rightarrow> date \<Rightarrow> (date \<times> dec) list \<Rightarrow> bool" where
  "week_run totals nxt rows \<longleftrightarrow> weekday nxt = 0 \<and>
     (\<forall>i < length rows. fst (rows ! i) = nxt - 7 * int (length rows - i) \<and> totals (fst (rows ! i)) = Some (snd (rows ! i)))"

lemma weekday_add_week [simp]: "weekday (d + 7) = weekday d"
  unfolding weekday_def by presburger

lemma weekday_week_start [simp]: "weekday (week_start d) = 0"
  unfolding week_start_def weekday_def by presburger

lemma week_run_snoc:
  assumes "week_run totals nxt rows" "totals nxt = Some v"
  shows "week_run totals (nxt + 7) (rows @ [(nxt, v)])"
  using assms by (auto simp: week_run_def nth_append)

lemma week_loop_run:
  "week_run totals first rows \<Longrightarrow> \<exists>nxt. week_run totals nxt (week_loop totals stop first rows)"
proof (induction totals stop first rows rule: week_loop.induct)
  case (1 totals stop first rows)
  show ?case
  proof (cases "first + 6 \<le> stop")
    case True
    have "week_run totals (first + 7) (case totals first of Some v \<Rightarrow> rows @ [(first, v)] | None \<Rightarrow> [])"
      using "1.prems" by (auto simp: week_run_snoc split: option.split) (simp add: week_run_def)
    from "1.IH"[OF True this] show ?thesis using True by (subst week_loop.simps) simp
  next
    case False
    then show ?thesis using "1.prems" by (subst week_loop.simps) auto
  qed
qed

lemma weekly_rows_run: "\<exists>nxt. week_run (week_totals s) nxt (weekly_rows s)"
proof (cases "observed_months s = []")
  case True
  then show ?thesis by (auto simp: weekly_rows_def week_run_def weekday_def intro!: exI[of _ 1])
next
  case False
  then show ?thesis
    unfolding weekly_rows_def Let_def by (simp only: if_False) (rule week_loop_run, simp add: week_run_def)
qed

lemma week_run_step:
  assumes "week_run totals nxt rows" "i < length rows"
  shows "weekday (fst (rows ! i)) = 0" "j < length rows \<Longrightarrow> fst (rows ! j) = fst (rows ! i) + 7 * (int j - int i)"
proof -
  have "fst (rows ! i) = nxt - 7 * int (length rows - i)" "weekday nxt = 0" using assms by (auto simp: week_run_def)
  then show "weekday (fst (rows ! i)) = 0" by (auto simp: weekday_def) presburger
  show "j < length rows \<Longrightarrow> fst (rows ! j) = fst (rows ! i) + 7 * (int j - int i)"
    using assms by (simp add: week_run_def)
qed

lemma week_run_facts:
  assumes w: "week_run totals nxt rows"
  shows "distinct (map fst rows)" "week_gap_free rows" "list_all (\<lambda>r. weekday (fst r) = 0) rows"
    "i < length rows \<Longrightarrow> map_of rows (fst (rows ! i)) = Some (snd (rows ! i))"
proof -
  show d: "distinct (map fst rows)"
    unfolding distinct_conv_nth
  proof (intro allI impI)
    fix i j assume ij: "i < length (map fst rows)" "j < length (map fst rows)" "i \<noteq> j"
    then show "map fst rows ! i \<noteq> map fst rows ! j" using week_run_step(2)[OF w, of i j] by simp
  qed
  show "week_gap_free rows"
    unfolding week_gap_free_def list_all_length
  proof (intro allI impI)
    fix i assume "i < length (zip rows (tl rows))"
    then have i: "Suc i < length rows" by simp
    then show "case zip rows (tl rows) ! i of (a, b) \<Rightarrow> fst a + 7 = fst b"
      using week_run_step(2)[OF w, of i "Suc i"] by (simp add: nth_tl)
  qed
  show "list_all (\<lambda>r. weekday (fst r) = 0) rows" using week_run_step(1)[OF w] by (simp add: list_all_length)
  show "i < length rows \<Longrightarrow> map_of rows (fst (rows ! i)) = Some (snd (rows ! i))" by (rule map_of_is_SomeI[OF d]) simp
qed

lemma map_of_graph: "map_of (map (\<lambda>k. (k, f k)) ks) k = (if k \<in> set ks then Some (f k) else None)"
  by (induction ks) auto

lemma week_total_sum:
  assumes "weekday d = 0" "week_totals s d = Some v"
  shows "v = (\<Sum>x\<leftarrow>filter (\<lambda>x. d \<le> rs_day x \<and> rs_day x < d + 7) (regular_sales s). rs_revenue x)"
proof -
  have "week_start x = d \<longleftrightarrow> d \<le> x \<and> x < d + 7" for x
    using assms(1) unfolding week_start_def weekday_def by presburger
  then show ?thesis using assms(2) by (simp add: week_totals_def group_sums_def map_of_graph split: if_splits)
qed

subsection \<open>What a training run reports\<close>

text \<open>
  What is relied on from the library: a fit that reports convergence with finite parameters has one per name, with
  a variance that is not negative and coefficients inside the unit interval, because the models are estimated with
  enforced stationarity and invertibility.
\<close>

definition library_ok :: "weekly_env \<Rightarrow> bool" where
  "library_ok env \<longleftrightarrow> (\<forall>name \<in> set weekly_configs. \<forall>optimizer start values r.
     we_fit env name optimizer start values = Some r \<longrightarrow> fr_converged r \<longrightarrow> list_all (\<lambda>v. v \<noteq> None) (fr_params r) \<longrightarrow>
     valid_params (we_names env name) (fr_params r))"

lemma week_round_nonneg: "0 \<le> x \<Longrightarrow> 0 \<le> week_round x"
  by (auto simp: week_round_def Let_def)

lemma currency_nonneg: "currency v = Some p \<Longrightarrow> 0 \<le> p"
  using week_round_nonneg[of "max 0 (the v)"] by (auto simp: currency_def split: option.splits if_splits)

lemma optimize_good:
  assumes "optimize env name values = Some r"
  shows "good_fit r \<and> (\<exists>optimizer start. we_fit env name optimizer start values = Some r)"
  using assms by (auto simp: optimize_def split: option.splits if_splits)

lemma fit_weekly_cases:
  assumes "fit_weekly env name rows = Some (a, p)"
  obtains scale r where "name \<in> set weekly_configs" "min_train \<le> length rows" "\<not> list_ex (\<lambda>v. v < 0) (map (pesos \<circ> snd) rows)"
    "\<not> list_ex (\<lambda>r. weekday (fst r) \<noteq> 0) rows" "1 \<le> scale" "optimize env name (map (\<lambda>v. v / scale) (map (pesos \<circ> snd) rows)) = Some r"
    "currency (map_option (\<lambda>x. x * scale) (fr_forecast r)) = Some p"
    "a = \<lparr>wa_name = name, wa_version = we_version env, wa_history = map (\<lambda>v. v / scale) (map (pesos \<circ> snd) rows), wa_scale = scale,
          wa_params = fr_params r, wa_names = we_names env name, wa_weeks = length rows, wa_through = fst (last rows), wa_target = fst (last rows) + 7\<rparr>"
proof -
  let ?scale = "max (sum_list (map (pesos \<circ> snd) rows) / of_nat (length (map (pesos \<circ> snd) rows))) 1"
  have "1 \<le> ?scale" by simp
  then show ?thesis
    using assms unfolding fit_weekly_def Let_def
    by (auto split: option.splits if_splits simp del: map_map intro!: that[of ?scale])
qed

lemma fit_weekly_sound:
  assumes "fit_weekly env name rows = Some (a, p)"
  shows "0 \<le> p" "wa_name a = name" "library_ok env \<Longrightarrow> valid_weekly_artifact env a"
proof -
  from assms show "0 \<le> p" "wa_name a = name" by (cases rule: fit_weekly_cases; auto dest: currency_nonneg)+
  assume l: "library_ok env"
  from assms show "valid_weekly_artifact env a"
  proof (cases rule: fit_weekly_cases)
    case (1 scale r)
    from optimize_good[OF 1(6)] obtain optimizer start where g: "good_fit r"
      "we_fit env name optimizer start (map (\<lambda>v. v / scale) (map (pesos \<circ> snd) rows)) = Some r" by blast
    then have "valid_params (we_names env name) (fr_params r)" using l 1(1) by (auto simp: library_ok_def good_fit_def)
    moreover have "rows \<noteq> []" using 1(2) by (auto simp: min_train_def)
    then have "weekday (fst (last rows)) = 0" using 1(4) by (auto simp: list_ex_iff)
    moreover have "list_all (\<lambda>v. 0 \<le> v) (map (\<lambda>v. v / scale) (map (pesos \<circ> snd) rows))"
      using 1(3,5) by (auto simp: list_all_iff list_ex_iff not_less)
    ultimately show ?thesis using 1(1,2,5) by (simp add: valid_weekly_artifact_def 1(8))
  qed
qed

lemma walk_weekly_folds:
  assumes "walk_weekly env name rows start stop = Some folds"
  shows "length folds = stop - start" "k < stop - start \<Longrightarrow> weekly_fold env name rows (start + k) = Some (folds ! k)"
proof -
  have m: "map (weekly_fold env name rows) [start..<stop] = map Some folds" using assms by (simp add: walk_weekly_def those_Some)
  then show len: "length folds = stop - start" by (metis length_map length_upt)
  show "k < stop - start \<Longrightarrow> weekly_fold env name rows (start + k) = Some (folds ! k)"
    using arg_cong[OF m, of "\<lambda>xs. xs ! k"] len by simp
qed

lemma train_candidate:
  assumes "wf_status (train_weekly env rows) = ''research_candidate''"
  obtains x b folds bt a v where "min_weeks \<le> length rows" "best_of (validation_wape env rows) weekly_configs = Some x"
    "best_of (validation_wape env rows) weekly_baselines = Some b" "wc_test_rows (tested env rows x) = Some folds"
    "fit_weekly env x rows = Some (a, v)"
    "train_weekly env rows = candidate_findings rows x b (map (\<lambda>n. (n, tested env rows n)) (weekly_configs @ weekly_baselines)) folds (Some bt) a v"
proof -
  have len: "min_weeks \<le> length rows" using assms by (auto simp: train_weekly_def stopped_findings_def split: if_splits)
  let ?w = "validation_wape env rows"
  note t = assms[unfolded train_weekly_def Let_def]
  obtain x b where xb: "best_of ?w weekly_configs = Some x" "best_of ?w weekly_baselines = Some b"
    using t len by (auto simp: stopped_findings_def split: option.splits if_splits)
  obtain folds bt where f: "wc_test_rows (tested env rows x) = Some folds" "wc_test (tested env rows b) = Some bt"
    using t len xb by (auto simp: stopped_findings_def split: option.splits if_splits)
  obtain a v where a: "fit_weekly env x rows = Some (a, v)"
    using t len xb f by (auto simp: stopped_findings_def split: option.splits if_splits)
  show ?thesis using len xb f a by (intro that[of x b folds a v bt]) (simp_all add: train_weekly_def Let_def not_less)
qed

lemma tested_rows:
  "wc_test_rows (tested env rows name) = Some folds \<Longrightarrow> walk_weekly env name rows (length rows - test_weeks) (length rows) = Some folds"
  by (auto simp: tested_def validated_def Let_def split: if_splits)

subsection \<open>Runs are what training gives on their history\<close>

text \<open>A selection that looks at the past only: the folds of the test weeks do not enter it.\<close>

definition own_findings :: "weekly_env \<Rightarrow> (date \<times> dec) list \<Rightarrow> weekly_findings \<Rightarrow> bool" where
  "own_findings env rows f \<longleftrightarrow> wf_signature f = rows \<and>
     f\<lparr>wf_signature := rows, wf_reused := None\<rparr> = (train_weekly env rows)\<lparr>wf_signature := rows, wf_reused := None\<rparr>"

definition own_run :: "weekly_env \<Rightarrow> weekly_run \<Rightarrow> bool" where
  "own_run env r \<longleftrightarrow> wr_status r = wf_status (wr_findings r) \<and>
     (\<forall>s. sn_revision s = wr_revision r \<and> sn_as_of s = wr_cutoff r \<longrightarrow> own_findings env (weekly_rows s) (wr_findings r))"

text \<open>Refreshes that run side by side: findings are prepared from any ledger and saved later, or rejected.\<close>

inductive weekly_step :: "weekly_env \<Rightarrow> weekly_run list \<times> (snapshot \<times> weekly_findings) list \<Rightarrow>
    weekly_run list \<times> (snapshot \<times> weekly_findings) list \<Rightarrow> bool" for env where
  prepare: "weekly_prepare env s runs = Inr f \<Longrightarrow> weekly_step env (runs, jobs) (runs, (s, f) # jobs)"
| commit: "(s, f) \<in> set jobs \<Longrightarrow> weekly_commit s current f runs = Inr (result, runs') \<Longrightarrow>
    weekly_step env (runs, jobs) (runs', remove1 (s, f) jobs)"
| give_up: "weekly_step env (runs, jobs) (runs, remove1 job jobs)"

inductive weekly_reached :: "weekly_env \<Rightarrow> weekly_run list \<times> (snapshot \<times> weekly_findings) list \<Rightarrow> bool" for env where
  "weekly_reached env ([], [])"
| "weekly_reached env x \<Longrightarrow> weekly_step env x y \<Longrightarrow> weekly_reached env y"

lemma same_rows:
  assumes "sn_revision s = sn_revision s'" "sn_as_of s = sn_as_of s'"
  shows "weekly_rows s = weekly_rows s'"
proof -
  have r: "regular_sales s = regular_sales s'" using assms(1) by (simp add: sn_revision_def regular_sales_def)
  have "week_totals s = week_totals s'" "observed_months s = observed_months s'"
    by (simp_all only: week_totals_def observed_months_def r)
  then show ?thesis by (simp only: weekly_rows_def assms(2))
qed

lemma run_for_Some:
  "run_for s runs = Some r \<Longrightarrow> r \<in> set runs \<and> wr_revision r = sn_revision s \<and> wr_cutoff r = sn_as_of s"
  by (auto simp: run_for_def find_Some_iff)

lemma own_findings_reuse:
  "own_findings env rows f \<Longrightarrow> own_findings env rows (f\<lparr>wf_reused := n, wf_signature := rows\<rparr>)"
  by (auto simp: own_findings_def)

lemma own_signature: "own_findings env rows f \<Longrightarrow> wf_signature f = rows"
  by (auto simp: own_findings_def)

text \<open>Every run has some history: the one of the ledger it was prepared from.\<close>

definition run_history :: "weekly_env \<Rightarrow> weekly_run \<Rightarrow> bool" where
  "run_history env r \<longleftrightarrow> own_run env r \<and> own_findings env (wf_signature (wr_findings r)) (wr_findings r)"

lemma weekly_prepare_own:
  assumes runs: "\<forall>r \<in> set runs. run_history env r" and p: "weekly_prepare env s runs = Inr f"
  shows "own_findings env (weekly_rows s) f"
proof -
  let ?rows = "weekly_rows s"
  have fresh: "own_findings env ?rows ((train_weekly env ?rows)\<lparr>wf_signature := ?rows\<rparr>)"
    by (simp add: own_findings_def)
  show ?thesis
  proof (cases "find (\<lambda>r. wr_version r = weekly_version) runs")
    case None
    then show ?thesis using p fresh by (simp add: weekly_prepare_def Let_def split: option.splits)
  next
    case (Some r)
    then have "run_history env r" using runs by (auto simp: find_Some_iff)
    then have "wf_signature (wr_findings r) = ?rows \<Longrightarrow> own_findings env ?rows ((wr_findings r)\<lparr>wf_reused := Some (wr_id r), wf_signature := ?rows\<rparr>)"
      using own_findings_reuse by (auto simp: run_history_def)
    then show ?thesis using p Some fresh by (auto simp: weekly_prepare_def Let_def split: option.splits if_splits)
  qed
qed

lemma weekly_commit_own:
  assumes f: "own_findings env (weekly_rows s) f" and runs: "\<forall>r \<in> set runs. run_history env r"
    and c: "weekly_commit s current f runs = Inr (result, runs')"
  shows "\<forall>r \<in> set runs'. run_history env r"
proof (cases "run_for s runs")
  case (Some r)
  then show ?thesis using c runs by (auto simp: weekly_commit_def split: if_splits)
next
  case None
  then obtain r where r: "runs' = r # runs" "wr_findings r = f" "wr_status r = wf_status f" "wr_revision r = sn_revision s" "wr_cutoff r = sn_as_of s"
    using c by (auto simp: weekly_commit_def Let_def split: if_splits)
  have "own_findings env (weekly_rows s') f" if "sn_revision s' = sn_revision s" "sn_as_of s' = sn_as_of s" for s'
    using f same_rows[OF that] by simp
  then have "own_run env r" by (simp add: own_run_def r)
  then show ?thesis using f r runs own_signature[OF f] by (auto simp: run_history_def)
qed

lemma weekly_reached_own:
  assumes "weekly_reached env x"
  shows "(\<forall>r \<in> set (fst x). run_history env r) \<and> (\<forall>(s, f) \<in> set (snd x). own_findings env (weekly_rows s) f)"
  using assms
proof (induction rule: weekly_reached.induct)
  case (2 x y)
  from 2(2,3) show ?case
  proof (cases rule: weekly_step.cases)
    case (prepare s runs f jobs)
    then show ?thesis using 2(3) weekly_prepare_own[of runs env s f] by auto
  next
    case (commit s f jobs current runs result runs')
    have "own_findings env (weekly_rows s) f" using 2(3) commit by auto
    then show ?thesis using 2(3) weekly_commit_own[of env s f runs current result runs'] commit by (auto dest: notin_set_remove1)
  next
    case (give_up runs jobs job)
    then show ?thesis using 2(3) by (auto dest: notin_set_remove1)
  qed
qed simp

subsection \<open>The report accepts what refreshing saved\<close>

lemma own_fields:
  assumes "own_findings env rows f"
  shows "wf_status f = wf_status (train_weekly env rows)" "wf_selected f = wf_selected (train_weekly env rows)"
    "wf_candidates f = wf_candidates (train_weekly env rows)" "wf_artifact f = wf_artifact (train_weekly env rows)"
    "wf_sha f = wf_sha (train_weekly env rows)"
  using assms by (cases f; cases "train_weekly env rows"; simp add: own_findings_def)+

lemma train_status:
  "wf_status (train_weekly env rows) \<in> {''insufficient_history'', ''no_valid_candidates'', ''selected_model_failed'', ''research_candidate''}"
  by (auto simp: train_weekly_def stopped_findings_def candidate_findings_def Let_def split: option.splits)

lemma earlier_weeks:
  assumes w: "week_run totals nxt rows" and i: "i < length rows"
  shows "filter (\<lambda>r. fst r < fst (rows ! i)) rows = take i rows"
proof -
  have less: "fst (rows ! j) < fst (rows ! i) \<longleftrightarrow> j < i" if "j < length rows" for j
    using week_run_step(2)[OF w i that] by simp
  have "fst r < fst (rows ! i)" if r: "r \<in> set (take i rows)" for r
  proof -
    obtain j where "j < i" "r = rows ! j" using r i by (auto simp: in_set_conv_nth)
    then show ?thesis using less[of j] i by simp
  qed
  then have "filter (\<lambda>r. fst r < fst (rows ! i)) (take i rows) = take i rows" by simp
  moreover have "\<not> fst r < fst (rows ! i)" if r: "r \<in> set (drop i rows)" for r
  proof -
    obtain j where j: "j < length rows - i" "r = drop i rows ! j" using r by (metis in_set_conv_nth length_drop)
    then have "i + j < length rows" "r = rows ! (i + j)" using i by simp_all
    then show ?thesis using less[of "i + j"] by simp
  qed
  then have "filter (\<lambda>r. fst r < fst (rows ! i)) (drop i rows) = []" by simp
  ultimately show ?thesis by (metis append_Nil2 append_take_drop_id filter_append)
qed

lemma weekly_fold_facts:
  assumes w: "week_run totals nxt rows" and i: "0 < i" "i < length rows" and x: "x \<in> set weekly_configs"
    and f: "weekly_fold env x rows i = Some r"
  shows "weekday (fo_month r) = 0" "fo_through r + 7 = fo_month r" "map_of rows (fo_month r) = Some (fo_actual r)"
    "totals (fo_month r) = Some (fo_actual r)" "0 \<le> fo_predicted r" "fo_month r = fst (rows ! i)"
    "\<exists>a. fit_weekly env x (filter (\<lambda>w. fst w < fo_month r) rows) = Some (a, fo_predicted r)"
proof -
  from f x obtain a where r: "fo_month r = fst (rows ! i)" "fo_through r = fst (rows ! (i - 1))" "fo_actual r = snd (rows ! i)"
    and a: "fit_weekly env x (take i rows) = Some (a, fo_predicted r)" by (auto simp: weekly_fold_def)
  show "weekday (fo_month r) = 0" "map_of rows (fo_month r) = Some (fo_actual r)" "fo_month r = fst (rows ! i)"
    using week_run_step(1)[OF w i(2)] week_run_facts(4)[OF w i(2)] by (simp_all add: r)
  show "totals (fo_month r) = Some (fo_actual r)" using w i(2) unfolding week_run_def r by blast
  show "fo_through r + 7 = fo_month r" using week_run_step(2)[OF w i(2), of "i - 1"] i by (simp add: r)
  show "0 \<le> fo_predicted r" by (rule fit_weekly_sound(1)[OF a])
  show "\<exists>a. fit_weekly env x (filter (\<lambda>w. fst w < fo_month r) rows) = Some (a, fo_predicted r)"
    using a by (simp add: r earlier_weeks[OF w i(2)])
qed

lemma rows_agree_all:
  "(\<And>r. r \<in> set rs \<Longrightarrow> weekday (fo_month r) = 0 \<and> fo_through r + 7 = fo_month r \<and> actual (fo_month r) = Some (fo_actual r) \<and> 0 \<le> fo_predicted r) \<Longrightarrow>
   distinct (map fo_month rs) \<Longrightarrow> fo_month ` set rs \<inter> set seen = {} \<Longrightarrow> rows_agree actual seen rs"
  by (induction rs arbitrary: seen) (auto simp: not_less)

text \<open>The folds of the test weeks, over the rows of a ledger.\<close>

lemma test_folds_facts:
  assumes w: "week_run totals nxt rows" and n: "min_weeks \<le> length rows" and x: "x \<in> set weekly_configs"
    and f: "walk_weekly env x rows (length rows - test_weeks) (length rows) = Some folds"
  shows "comparison_ok (map_of rows) folds" "length folds = test_weeks"
    "r \<in> set folds \<Longrightarrow> \<exists>i. 0 < i \<and> i < length rows \<and> weekly_fold env x rows i = Some r"
proof -
  let ?s = "length rows - test_weeks"
  have n': "0 < ?s" "length rows - ?s = test_weeks" using n by (simp_all add: min_weeks_def min_train_def test_weeks_def validation_weeks_def)
  show len: "length folds = test_weeks" using walk_weekly_folds(1)[OF f] n' by simp
  have at: "weekly_fold env x rows (?s + k) = Some (folds ! k)" "0 < ?s + k" "?s + k < length rows" if "k < test_weeks" for k
    using walk_weekly_folds(2)[OF f, of k] n' that by auto
  show member: "\<exists>i. 0 < i \<and> i < length rows \<and> weekly_fold env x rows i = Some r" if r: "r \<in> set folds" for r
  proof -
    obtain k where "k < test_weeks" "r = folds ! k" using r unfolding in_set_conv_nth len by blast
    then show ?thesis using at[of k] by (intro exI[of _ "?s + k"]) simp
  qed
  have month: "fo_month (folds ! k) = fst (rows ! (?s + k))" if "k < test_weeks" for k
    using weekly_fold_facts(6)[OF w at(2,3)[OF that] x at(1)[OF that]] .
  have step: "fo_month (folds ! j) = fo_month (folds ! k) + 7 * (int j - int k)" if "k < test_weeks" "j < test_weeks" for k j
    using week_run_step(2)[OF w at(3)[OF that(1)] at(3)[OF that(2)]] by (simp add: month that)
  have "distinct (map fo_month folds)"
    unfolding distinct_conv_nth
  proof (intro allI impI)
    fix i j assume ij: "i < length (map fo_month folds)" "j < length (map fo_month folds)" "i \<noteq> j"
    then show "map fo_month folds ! i \<noteq> map fo_month folds ! j" using step[of i j] by (simp add: len)
  qed
  moreover have "weekday (fo_month r) = 0 \<and> fo_through r + 7 = fo_month r \<and> map_of rows (fo_month r) = Some (fo_actual r) \<and> 0 \<le> fo_predicted r"
    if r: "r \<in> set folds" for r
  proof -
    obtain i where i: "0 < i" "i < length rows" "weekly_fold env x rows i = Some r" using member[OF r] by blast
    show ?thesis by (intro conjI weekly_fold_facts(1-3,5)[OF w i(1,2) x i(3)])
  qed
  moreover have "list_all (\<lambda>(a, b). fo_month b - fo_month a = 7) (zip folds (tl folds))"
    unfolding list_all_length
  proof (intro allI impI)
    fix k assume "k < length (zip folds (tl folds))"
    then have "Suc k < test_weeks" using len by simp
    then show "case zip folds (tl folds) ! k of (a, b) \<Rightarrow> fo_month b - fo_month a = 7"
      using step[of k "Suc k"] len by (simp add: nth_tl)
  qed
  ultimately show "comparison_ok (map_of rows) folds" using rows_agree_all[of folds "map_of rows" "[]"] len by (simp add: comparison_ok_def)
qed

lemma report_of_candidate:
  assumes l: "library_ok env" and r: "run_for s runs = Some run" and own: "run_history env run"
    and c: "wf_status (train_weekly env (weekly_rows s)) = ''research_candidate''"
  obtains x folds where "x \<in> set weekly_configs" "wp_selected (weekly_report env s runs) = Some x"
    "wp_rows (weekly_report env s runs) = folds" "wp_metrics (weekly_report env s runs) = Some (fold_score folds)"
    "wp_status (weekly_report env s runs) \<in> {''stale_data'', ''research_only''}" "min_weeks \<le> length (weekly_rows s)"
    "walk_weekly env x (weekly_rows s) (length (weekly_rows s) - test_weeks) (length (weekly_rows s)) = Some folds"
proof -
  let ?rows = "weekly_rows s"
  note match = run_for_Some[OF r]
  have f: "own_findings env ?rows (wr_findings run)" "wr_status run = wf_status (wr_findings run)"
    using own match by (simp_all add: run_history_def own_run_def)
  from c obtain x b folds bt a v where n: "min_weeks \<le> length ?rows" "best_of (validation_wape env ?rows) weekly_configs = Some x"
    and folds: "wc_test_rows (tested env ?rows x) = Some folds" and a: "fit_weekly env x ?rows = Some (a, v)"
    and t: "train_weekly env ?rows = candidate_findings ?rows x b (map (\<lambda>n. (n, tested env ?rows n)) (weekly_configs @ weekly_baselines)) folds (Some bt) a v"
    by (rule train_candidate)
  have x: "x \<in> set weekly_configs" using best_of_mem[OF n(2)] by blast
  have fields: "wf_selected (wr_findings run) = Some x" "wf_artifact (wr_findings run) = Some a" "wf_sha (wr_findings run) = Some a"
    "wr_status run = ''research_candidate''"
    "wf_candidates (wr_findings run) = map (\<lambda>n. (n, tested env ?rows n)) (weekly_configs @ weekly_baselines)"
    using own_fields[OF f(1)] f(2) c t by (simp_all add: candidate_findings_def)
  have shown: "shown_test_rows (wr_findings run) = folds"
    using x folds by (simp add: shown_test_rows_def fields map_of_graph fill_def del: map_append)
  have "valid_weekly_artifact env a" "wa_name a = x" using fit_weekly_sound(2,3)[OF a] l by auto
  moreover note walk = tested_rows[OF folds]
  obtain nxt where w: "week_run (week_totals s) nxt ?rows" using weekly_rows_run by blast
  moreover have "comparison_ok (map_of ?rows) folds" by (rule test_folds_facts(1)[OF w n(1) x walk])
  ultimately show ?thesis
    using x n(1) walk by (intro that[of x folds]) (simp_all add: weekly_report_def Let_def r fields shown)
qed

text \<open>
  C27: The weekly report never rejects a run that refreshing saved, however refreshes and changes of the ledger were
  interleaved: its status is never an invalid model or an invalid comparison, also when the findings were reused from
  an earlier run. It shows a comparison whenever training on the current history succeeds, and then over thirteen
  Mondays: the actual value is the regular revenue recorded in the seven days, and the prediction is a fit of the
  selected model on the earlier weeks alone.
\<close>
theorem weekly_report_sound:
  assumes l: "library_ok env" and reach: "weekly_reached env (runs, jobs)" and rep: "rep = weekly_report env s runs"
  shows "wp_status rep \<notin> {''invalid_model'', ''invalid_comparison''} \<and>
    (run_for s runs \<noteq> None \<and> wf_status (train_weekly env (weekly_rows s)) = ''research_candidate'' \<longrightarrow> wp_metrics rep \<noteq> None) \<and>
    (wp_metrics rep \<noteq> None \<longrightarrow> (\<exists>name \<in> set weekly_configs. wp_selected rep = Some name \<and>
       wp_metrics rep = Some (fold_score (wp_rows rep)) \<and> length (wp_rows rep) = test_weeks \<and>
       (\<forall>r \<in> set (wp_rows rep). weekday (fo_month r) = 0 \<and>
          fo_actual r = (\<Sum>x\<leftarrow>filter (\<lambda>x. fo_month r \<le> rs_day x \<and> rs_day x < fo_month r + 7) (regular_sales s). rs_revenue x) \<and>
          (\<exists>a. fit_weekly env name (filter (\<lambda>w. fst w < fo_month r) (weekly_rows s)) = Some (a, fo_predicted r)))))"
proof (cases "run_for s runs")
  case None
  then show ?thesis by (simp add: rep weekly_report_def Let_def)
next
  case (Some run)
  have own: "run_history env run" using weekly_reached_own[OF reach] run_for_Some[OF Some] by auto
  let ?rows = "weekly_rows s"
  show ?thesis
  proof (cases "wf_status (train_weekly env ?rows) = ''research_candidate''")
    case True
    from report_of_candidate[OF l Some own True] obtain x folds where x: "x \<in> set weekly_configs" "wp_selected rep = Some x"
      and rows: "wp_rows rep = folds" "wp_metrics rep = Some (fold_score folds)" and st: "wp_status rep \<in> {''stale_data'', ''research_only''}"
      and n: "min_weeks \<le> length ?rows" and walk: "walk_weekly env x ?rows (length ?rows - test_weeks) (length ?rows) = Some folds"
      unfolding rep by blast
    obtain nxt where w: "week_run (week_totals s) nxt ?rows" using weekly_rows_run by blast
    have "weekday (fo_month r) = 0 \<and>
        fo_actual r = (\<Sum>x\<leftarrow>filter (\<lambda>x. fo_month r \<le> rs_day x \<and> rs_day x < fo_month r + 7) (regular_sales s). rs_revenue x) \<and>
        (\<exists>a. fit_weekly env x (filter (\<lambda>w. fst w < fo_month r) ?rows) = Some (a, fo_predicted r))" if r: "r \<in> set folds" for r
    proof -
      obtain i where i: "0 < i" "i < length ?rows" "weekly_fold env x ?rows i = Some r" using test_folds_facts(3)[OF w n x(1) walk r] by blast
      note ff = weekly_fold_facts[OF w i(1,2) x(1) i(3)]
      show ?thesis by (intro conjI ff(1,7) week_total_sum[OF ff(1,4)])
    qed
    then show ?thesis using x rows st test_folds_facts(2)[OF w n x(1) walk] by auto
  next
    case False
    have "own_findings env ?rows (wr_findings run)" "wr_status run = wf_status (wr_findings run)"
      using own run_for_Some[OF Some] by (simp_all add: run_history_def own_run_def)
    then have "wr_status run = wf_status (train_weekly env ?rows)" using own_fields(1) by simp
    then show ?thesis using train_status[of env ?rows] False by (auto simp: rep weekly_report_def Let_def Some)
  qed
qed

subsection \<open>A daily ledger\<close>

text \<open>Sales on every day from the first day of a month, and a library that repeats the last week.\<close>

definition daily_ledger :: "date \<Rightarrow> int \<Rightarrow> snapshot" where
  "daily_ledger d n = \<lparr>sn_as_of = d + n, sn_policy = [], sn_dropped = [],
     sn_sales = map (\<lambda>x. \<lparr>rs_id = 0, rs_day = x, rs_key = [], rs_name = [], rs_segment = ''regular'', rs_revenue = 100\<rparr>) [d..d + n - 1], sn_demo = 0\<rparr>"

definition repeat_env :: weekly_env where
  "repeat_env = \<lparr>we_version = ''0'', we_names = (\<lambda>name. [''sigma2'']),
     we_fit = (\<lambda>name optimizer start values. Some \<lparr>fr_params = [Some 1], fr_converged = True, fr_llf_finite = True, fr_forecast = Some (last values)\<rparr>),
     we_filter = (\<lambda>name values params. Some (last values))\<rparr>"

lemma repeat_library: "library_ok repeat_env"
  by (auto simp: library_ok_def repeat_env_def valid_params_def bounded_name_def)

lemma month_end_next:
  assumes "day_of m = 1" shows "month_end m + 1 = shift_month m 1"
proof -
  let ?y = "year_of m" and ?m = "month_of m"
  have r: "1 \<le> ?m" "?m \<le> 12" using month_of_range[of m] by auto
  have "month_index (month_end m + 1) = month_index m + 1"
  proof (cases "?m = 12")
    case True
    have e: "month_end m + 1 = mk_date (?y + 1) 1 1"
      using True by (simp add: month_end_def mk_date_def days_before_year_step days_before_month_def days_in_month_def)
    have "valid_ymd (?y + 1) 1 1" by (simp add: valid_ymd_def days_in_month_def)
    then show ?thesis unfolding e month_index_def[of "mk_date _ _ _"] by (simp add: year_of_mk_date month_of_mk_date) (simp add: True month_index_def)
  next
    case False
    have "days_before_month ?y (?m + 1) = days_before_month ?y ?m + days_in_month ?y ?m"
      using r False by (cases rule: month_cases) (auto simp: days_before_month_def days_in_month_def)
    then have e: "month_end m + 1 = mk_date ?y (?m + 1) 1" by (simp add: month_end_def mk_date_def)
    have "valid_ymd ?y (?m + 1) 1" using r False by (auto simp: valid_ymd_def days_in_month_def)
    then show ?thesis unfolding e month_index_def[of "mk_date _ _ _"] by (simp add: year_of_mk_date month_of_mk_date) (simp add: month_index_def)
  qed
  then show ?thesis using shift_month_iff[OF month_after[OF assms]] by simp
qed

lemma contiguous_from_all:
  "gap_free (acc @ rows) \<Longrightarrow> contiguous_from acc rows = acc @ rows"
proof (induction acc rows rule: contiguous_from.induct)
  case (2 acc m x rest)
  have "acc = [] \<or> m = shift_month (fst (last acc)) 1"
  proof (cases acc rule: rev_exhaust)
    case (snoc ys y)
    then have "gap_free (ys @ y # (m, x) # rest)" using 2(2) by simp
    then have "shift_month (fst y) 1 = m"
    proof (induction ys)
      case (Cons a ys)
      then show ?case by (cases ys) (auto simp: gap_free_def)
    qed (simp add: gap_free_def)
    then show ?thesis using snoc by simp
  qed simp
  then show ?case using 2 by auto
qed simp

lemma month_loop_shape:
  assumes "day_of m = 1" "m \<le> stop"
  shows "hd (month_loop stop m) = m \<and> month_loop stop m \<noteq> [] \<and> gap_free (map (\<lambda>k. (k, ())) (month_loop stop m)) \<and> stop \<le> month_end (last (month_loop stop m))"
  using assms
proof (induction stop m rule: month_loop.induct)
  case (1 stop m)
  show ?case
  proof (cases "stop \<le> month_end m")
    case True
    then show ?thesis using 1(3) by (subst (1 2 3 4) month_loop.simps) (simp add: gap_free_def)
  next
    case False
    let ?n = "month_end m + 1"
    have ih: "hd (month_loop stop ?n) = ?n \<and> month_loop stop ?n \<noteq> [] \<and> gap_free (map (\<lambda>k. (k, ())) (month_loop stop ?n)) \<and> stop \<le> month_end (last (month_loop stop ?n))"
      using False 1(3) month_after[OF 1(2)] by (intro "1.IH") auto
    moreover have "month_loop stop m = m # month_loop stop ?n" using False 1(3) by (subst month_loop.simps) simp
    ultimately show ?thesis using month_end_next[OF 1(2)] by (cases "month_loop stop ?n") (auto simp: gap_free_def)
  qed
qed

lemma daily_regular: "map rs_day (regular_sales (daily_ledger d n)) = [d..d + n - 1]" "x \<in> set (regular_sales (daily_ledger d n)) \<Longrightarrow> rs_revenue x = 100"
  by (auto simp: regular_sales_def daily_ledger_def o_def filter_map)

lemma daily_days: "x \<in> set (regular_sales (daily_ledger d n)) \<Longrightarrow> d \<le> rs_day x \<and> rs_day x < d + n"
  by (auto simp: regular_sales_def daily_ledger_def)

lemma daily_months:
  assumes "day_of d = 1" "0 < n"
  shows "observed_months (daily_ledger d n) = month_loop (d + n - 1) d"
proof -
  let ?ms = "map (\<lambda>x. first_of_month (rs_day x)) (regular_sales (daily_ledger d n))"
  have "set ?ms = first_of_month ` set (map rs_day (regular_sales (daily_ledger d n)))" by (simp only: set_map image_image)
  also have "\<dots> = set (month_loop (d + n - 1) d)" unfolding daily_regular month_loop_set[OF assms(1)] by simp
  finally have s: "set (sort (remdups ?ms)) = set (month_loop (d + n - 1) d)" by simp
  have "sort (remdups ?ms) = month_loop (d + n - 1) d"
    by (rule sorted_distinct_set_unique) (use s month_loop_distinct month_loop_sorted[of "d + n - 1" d] in \<open>auto simp: strict_sorted_iff\<close>)
  moreover have "gap_free (map (\<lambda>m. (m, ())) (month_loop (d + n - 1) d))" using month_loop_shape[of d "d + n - 1"] assms by simp
  ultimately show ?thesis
    unfolding observed_months_def contiguous_def by (simp add: contiguous_from_all[of "[]"] o_def)
qed

lemma week_loop_length:
  "weekday first = 0 \<Longrightarrow> (\<And>w. weekday w = 0 \<Longrightarrow> first \<le> w \<Longrightarrow> w + 6 \<le> stop \<Longrightarrow> totals w \<noteq> None) \<Longrightarrow>
    int (length rows) + (stop - first + 1) div 7 \<le> int (length (week_loop totals stop first rows))"
proof (induction totals stop first rows rule: week_loop.induct)
  case (1 totals stop first rows)
  show ?case
  proof (cases "first + 6 \<le> stop")
    case True
    then obtain v where v: "totals first = Some v" using 1(2) 1(3)[of first] by auto
    have "(stop - first + 1) div 7 = 1 + (stop - (first + 7) + 1) div 7" by presburger
    moreover have "int (length (rows @ [(first, v)])) + (stop - (first + 7) + 1) div 7 \<le> int (length (week_loop totals stop (first + 7) (rows @ [(first, v)])))"
      using "1.IH"[OF True] 1(2,3) v by simp
    ultimately show ?thesis using True v by (subst week_loop.simps) simp
  next
    case False
    then have "(stop - first + 1) div 7 \<le> 0" by presburger
    then show ?thesis using False by (subst week_loop.simps) simp
  qed
qed

lemma daily_total:
  assumes "weekday w = 0" "d \<le> w" "w < d + n"
  shows "week_totals (daily_ledger d n) w \<noteq> None"
proof -
  have "w \<in> set (map rs_day (regular_sales (daily_ledger d n)))" using assms by (simp add: daily_regular)
  moreover have "week_start w = w" using assms(1) by (simp add: week_start_def)
  ultimately have "w \<in> (\<lambda>x. week_start (rs_day x)) ` set (regular_sales (daily_ledger d n))" by (metis (mono_tags, lifting) image_iff set_map)
  then show ?thesis by (auto simp: week_totals_def group_sums_def map_of_graph)
qed

lemma daily_value:
  assumes "week_totals (daily_ledger d n) w = Some v" "0 < n"
  shows "0 < v \<and> v \<le> 100 * n"
proof -
  let ?xs = "regular_sales (daily_ledger d n)"
  have m: "w \<in> set (map (\<lambda>x. week_start (rs_day x)) ?xs)"
    and v: "v = (\<Sum>x\<leftarrow>filter (\<lambda>x. week_start (rs_day x) = w) ?xs. rs_revenue x)"
    using assms(1) by (auto simp: week_totals_def group_sums_def map_of_graph split: if_splits)
  have "map rs_revenue (filter (\<lambda>x. week_start (rs_day x) = w) ?xs) = map (\<lambda>_. 100) (filter (\<lambda>x. week_start (rs_day x) = w) ?xs)"
    by (rule map_cong) (use daily_regular(2) in auto)
  then have "v = 100 * int (length (filter (\<lambda>x. week_start (rs_day x) = w) ?xs))" by (simp only: v) (simp add: sum_list_triv)
  moreover have "length (filter (\<lambda>x. week_start (rs_day x) = w) ?xs) \<le> nat n"
    using arg_cong[OF daily_regular(1), of length d n] length_filter_le[of "\<lambda>x. week_start (rs_day x) = w" ?xs] by (metis length_map length_upto diff_add_cancel add_diff_cancel_left' diff_diff_add add.commute)
  moreover have "filter (\<lambda>x. week_start (rs_day x) = w) ?xs \<noteq> []" using m by (auto simp: filter_empty_conv)
  ultimately show ?thesis using assms(2) by (simp add: le_nat_iff)
qed

lemma daily_rows:
  assumes "day_of d = 1" "0 < n"
  shows "(n - 6) div 7 \<le> int (length (weekly_rows (daily_ledger d n)))" "r \<in> set (weekly_rows (daily_ledger d n)) \<Longrightarrow> 0 < snd r \<and> snd r \<le> 100 * n"
proof -
  let ?s = "daily_ledger d n" and ?stop = "d + n - 1"
  let ?first = "if week_start d < d then week_start d + 7 else week_start d"
  note m = daily_months[OF assms] and shape = month_loop_shape[of d ?stop]
  have "min (month_end (last (observed_months ?s))) (sn_as_of ?s - 1) = ?stop"
    using shape assms by (simp add: m) (simp add: daily_ledger_def)
  then have rows: "weekly_rows ?s = week_loop (week_totals ?s) ?stop ?first []"
    using shape assms by (simp add: weekly_rows_def m Let_def)
  have f: "weekday ?first = 0" "d \<le> ?first" "?first \<le> d + 6" by simp_all (auto simp: week_start_def weekday_def)
  obtain nxt where w: "week_run (week_totals ?s) nxt (weekly_rows ?s)" using weekly_rows_run by blast
  show "r \<in> set (weekly_rows ?s) \<Longrightarrow> 0 < snd r \<and> snd r \<le> 100 * n"
    using w daily_value[OF _ assms(2)] by (auto simp: week_run_def in_set_conv_nth)
  show "(n - 6) div 7 \<le> int (length (weekly_rows ?s))"
  proof -
    have "int (length ([] :: (date \<times> dec) list)) + (?stop - ?first + 1) div 7 \<le> int (length (weekly_rows ?s))"
      unfolding rows using f daily_total[of _ d n] by (intro week_loop_length) auto
    moreover have "(n - 6) div 7 \<le> (?stop - ?first + 1) div 7" using f(3) by (intro zdiv_mono1) auto
    ultimately show ?thesis by simp
  qed
qed

subsection \<open>Training on a long history\<close>

lemma week_round_pesos [simp]: "week_round (pesos v) = v"
  by (simp add: week_round_def pesos_def)

lemma those_defined: "(\<And>i. i \<in> set is \<Longrightarrow> f i \<noteq> None) \<Longrightarrow> \<exists>ys. those (map f is) = Some ys"
proof (induction "is")
  case (Cons a "is")
  then obtain ys where "those (map f is) = Some ys" by auto
  moreover obtain y where "f a = Some y" using Cons.prems[of a] by auto
  ultimately show ?case by simp
qed simp

lemma week_gap_free_take: "week_gap_free rows \<Longrightarrow> week_gap_free (take i rows)"
  unfolding week_gap_free_def list_all_length by (auto simp: nth_tl)

lemma repeat_fit:
  assumes "name \<in> set weekly_configs" "min_train \<le> length rows" "list_all (\<lambda>r. weekday (fst r) = 0) rows" "week_gap_free rows"
    and v: "\<And>r. r \<in> set rows \<Longrightarrow> 0 < snd r \<and> snd r \<le> 100000"
  shows "fit_weekly repeat_env name rows \<noteq> None"
proof -
  let ?vs = "map (pesos \<circ> snd) rows"
  let ?scale = "max (sum_list ?vs / of_nat (length ?vs)) 1"
  have ne: "rows \<noteq> []" using assms(2) by (auto simp: min_train_def)
  have l: "last (map (\<lambda>v. v / ?scale) ?vs) * ?scale = pesos (snd (last rows))"
    using ne by (simp add: last_map del: map_map)
  have p: "0 \<le> pesos (snd (last rows))" "\<not> 10 ^ 18 \<le> pesos (snd (last rows))" using v[OF last_in_set[OF ne]] by (simp_all add: pesos_def)
  have nn: "\<not> list_ex (\<lambda>v. v < 0) ?vs" "\<not> list_ex (\<lambda>r. weekday (fst r) \<noteq> 0) rows" using v assms(3) by (force simp: list_ex_iff list_all_iff pesos_def)+
  have "currency (Some (last (map (\<lambda>v. v / ?scale) ?vs) * ?scale)) \<noteq> None" unfolding l using p by (simp add: currency_def)
  then show ?thesis
    using assms(1,2,4) nn unfolding fit_weekly_def Let_def
    by (auto simp: optimize_def good_fit_def repeat_env_def not_le simp del: map_map split: option.splits)
qed

lemma sum_list_bound: "(\<And>x. x \<in> set xs \<Longrightarrow> x \<le> (b :: rat)) \<Longrightarrow> sum_list xs \<le> b * of_nat (length xs)"
proof (induction xs)
  case (Cons x xs)
  then have "x \<le> b" "sum_list xs \<le> b * of_nat (length xs)" by auto
  then show ?case by (simp add: distrib_left)
qed simp

lemma baseline_bound:
  assumes "name \<in> set weekly_baselines" "last vs \<le> b" "vs ! (length vs - 52) \<le> b" "sum_list (drop (length vs - 4) vs) / 4 \<le> b"
  shows "\<exists>x \<le> b. weekly_baseline name vs = Some x"
proof -
  consider "name = ''previous_week''" | "name = ''trailing_4_mean''" | "name = ''same_week_last_year''"
    using assms(1) unfolding weekly_baselines_def set_simps insert_iff empty_iff by blast
  then show ?thesis
  proof cases
    case 1 then show ?thesis using assms(2) by (intro exI[of _ "last vs"]) (simp add: weekly_baseline_def)
  next
    case 2 then show ?thesis using assms(4) by (intro exI[of _ "sum_list (drop (length vs - 4) vs) / 4"]) (simp add: weekly_baseline_def)
  next
    case 3 then show ?thesis using assms(3) by (intro exI[of _ "vs ! (length vs - 52)"]) (simp add: weekly_baseline_def)
  qed
qed

lemma walk_weekly_defined:
  assumes w: "week_run totals nxt rows" and v: "\<And>r. r \<in> set rows \<Longrightarrow> 0 < snd r \<and> snd r \<le> 100000"
    and b: "min_train \<le> start" "stop \<le> length rows" and n: "name \<in> set weekly_configs \<or> name \<in> set weekly_baselines"
  shows "walk_weekly repeat_env name rows start stop \<noteq> None"
proof -
  have "weekly_fold repeat_env name rows i \<noteq> None" if i: "start \<le> i" "i < stop" for i
  proof (cases "name \<in> set weekly_configs")
    case True
    have "fit_weekly repeat_env name (take i rows) \<noteq> None"
      using b i v week_run_facts(2,3)[OF w] by (intro repeat_fit[OF True]) (auto simp: week_gap_free_take list_all_iff dest: in_set_takeD)
    then show ?thesis using True by (simp add: weekly_fold_def)
  next
    case False
    let ?vs = "map (pesos \<circ> snd) (take i rows)"
    have len: "min_train \<le> length ?vs" using b i by simp
    have le: "x \<le> 1000" if "x \<in> set ?vs" for x using that v by (auto simp: pesos_def dest!: in_set_takeD)
    have ne: "?vs \<noteq> []" using len unfolding min_train_def by (cases ?vs) auto
    have "last ?vs \<le> 1000" by (rule le[OF last_in_set[OF ne]])
    moreover have "length ?vs - 52 < length ?vs" using len unfolding min_train_def by linarith
    then have "?vs ! (length ?vs - 52) \<le> 1000" by (intro le nth_mem)
    moreover have "sum_list (drop (length ?vs - 4) ?vs) \<le> 1000 * of_nat (length (drop (length ?vs - 4) ?vs))"
      by (rule sum_list_bound) (use le in \<open>blast dest: in_set_dropD\<close>)
    moreover have "length (drop (length ?vs - 4) ?vs) = 4" using len by (simp add: min_train_def)
    ultimately have "\<exists>x \<le> 1000. weekly_baseline name ?vs = Some x"
      using False n by (intro baseline_bound) simp_all
    then have "currency (weekly_baseline name ?vs) \<noteq> None" by (auto simp: currency_def)
    then show ?thesis using False by (simp add: weekly_fold_def)
  qed
  then have "\<exists>ys. those (map (weekly_fold repeat_env name rows) [start..<stop]) = Some ys" by (intro those_defined) simp
  then show ?thesis by (auto simp: walk_weekly_def)
qed

lemma walk_weekly_wape:
  assumes f: "walk_weekly env name rows start stop = Some folds" and b: "start < stop" "stop \<le> length rows"
    and v: "\<And>r. r \<in> set rows \<Longrightarrow> 0 < snd r"
  shows "sc_wape (fold_score folds) \<noteq> None"
proof -
  have a: "0 < fo_actual (folds ! k)" if "k < stop - start" for k
  proof -
    have "fo_actual (folds ! k) = snd (rows ! (start + k))" using walk_weekly_folds(2)[OF f that] by (auto simp: weekly_fold_def dest: sym)
    then show ?thesis using v[of "rows ! (start + k)"] that b by simp
  qed
  have len: "length folds = stop - start" by (rule walk_weekly_folds(1)[OF f])
  then obtain x xs where x: "folds = x # xs" using b(1) by (cases folds) auto
  have "0 < fo_actual x" using a[of 0] b(1) by (simp add: x)
  moreover have "0 \<le> (\<Sum>y\<leftarrow>xs. \<bar>fo_actual y\<bar>)" by (intro sum_list_nonneg) auto
  ultimately have "(\<Sum>y\<leftarrow>folds. \<bar>fo_actual y\<bar>) \<noteq> 0" by (simp add: x)
  then show ?thesis by (simp add: fold_score_def score_of_def Let_def o_def split_def)
qed

lemma best_of_some: "n \<in> set names \<Longrightarrow> w n \<noteq> None \<Longrightarrow> \<exists>x. best_of w names = Some x"
  by (auto simp: best_of_def Let_def filter_empty_conv dest!: arg_cong[of _ _ set] split: if_splits)

lemma repeat_trains:
  assumes w: "week_run totals nxt rows" and n: "min_weeks \<le> length rows"
    and v: "\<And>r. r \<in> set rows \<Longrightarrow> 0 < snd r \<and> snd r \<le> 100000"
  shows "wf_status (train_weekly repeat_env rows) = ''research_candidate''"
proof -
  let ?t = "length rows - test_weeks" and ?w = "validation_wape repeat_env rows"
  have b: "min_train \<le> ?t - validation_weeks" "?t - validation_weeks < ?t" "?t < length rows" "min_train \<le> ?t" "?t \<le> length rows"
    using n by (simp_all add: min_weeks_def min_train_def test_weeks_def validation_weeks_def)
  have val: "?w name \<noteq> None" if nm: "name \<in> set weekly_configs \<or> name \<in> set weekly_baselines" for name
  proof -
    obtain folds where f: "walk_weekly repeat_env name rows (?t - validation_weeks) ?t = Some folds"
      using walk_weekly_defined[OF w v b(1) b(5) nm] by auto
    have "sc_wape (fold_score folds) \<noteq> None" using walk_weekly_wape[OF f b(2,5)] v by blast
    then show ?thesis unfolding validation_wape_def validated_def f Let_def by (simp add: wape_of_def)
  qed
  have test: "wc_test_rows (tested repeat_env rows name) \<noteq> None \<and> wc_test (tested repeat_env rows name) \<noteq> None"
    if nm: "name \<in> set weekly_configs \<or> name \<in> set weekly_baselines" for name
    using walk_weekly_defined[OF w v b(4) _ nm, of "length rows"] val[OF nm] by (auto simp: tested_def Let_def)
  have h: "hd weekly_configs \<in> set weekly_configs" "hd weekly_baselines \<in> set weekly_baselines"
    by (simp_all add: weekly_configs_def weekly_baselines_def)
  obtain x where x: "best_of ?w weekly_configs = Some x" using best_of_some[of _ _ ?w, OF h(1) val[OF disjI1[OF h(1)]]] by blast
  obtain y where y: "best_of ?w weekly_baselines = Some y" using best_of_some[of _ _ ?w, OF h(2) val[OF disjI2[OF h(2)]]] by blast
  note mem = best_of_mem[OF x, THEN conjunct1] best_of_mem[OF y, THEN conjunct1]
  have "min_train \<le> length rows" using n by (simp add: min_weeks_def)
  then have "fit_weekly repeat_env x rows \<noteq> None" using mem(1) v week_run_facts(2,3)[OF w] by (intro repeat_fit) auto
  then obtain a p where "fit_weekly repeat_env x rows = Some (a, p)" by auto
  moreover obtain folds where "wc_test_rows (tested repeat_env rows x) = Some folds" using test[OF disjI1[OF mem(1)]] by auto
  moreover obtain bt where "wc_test (tested repeat_env rows y) = Some bt" using test[OF disjI2[OF mem(2)]] by auto
  ultimately show ?thesis using n x y by (simp add: train_weekly_def candidate_findings_def Let_def)
qed

theorem weekly_report_sound_witness:
  "\<exists>s runs rep. weekly_reached repeat_env (runs, []) \<and> rep = weekly_report repeat_env s runs \<and>
     (\<exists>r \<in> set (wp_rows rep). fo_actual r =
        (\<Sum>x\<leftarrow>filter (\<lambda>x. fo_month r \<le> rs_day x \<and> rs_day x < fo_month r + 7) (regular_sales s). rs_revenue x))"
proof -
  let ?s = "daily_ledger (shift_month 1 0) 1000"
  let ?rows = "weekly_rows ?s"
  have d: "day_of (shift_month 1 0) = 1" by (rule shift_month_fields(1))
  have n: "min_weeks \<le> length ?rows" using daily_rows(1)[OF d, of 1000] by (simp add: min_weeks_def min_train_def test_weeks_def validation_weeks_def)
  obtain nxt where w: "week_run (week_totals ?s) nxt ?rows" using weekly_rows_run by blast
  have st: "wf_status (train_weekly repeat_env ?rows) = ''research_candidate''"
    using daily_rows(2)[OF d, of 1000] by (intro repeat_trains[OF w n]) simp
  let ?f = "(train_weekly repeat_env ?rows)\<lparr>wf_signature := ?rows\<rparr>"
  have p: "weekly_prepare repeat_env ?s [] = Inr ?f" by (simp add: weekly_prepare_def run_for_def Let_def)
  obtain result runs where c: "weekly_commit ?s ?s ?f [] = Inr (result, runs)" "run_for ?s runs \<noteq> None"
    by (auto simp: weekly_commit_def run_for_def Let_def)
  have "weekly_reached repeat_env ([], [(?s, ?f)])"
    using weekly_step.prepare[OF p, of "[]"] weekly_reached.intros by blast
  moreover have "weekly_step repeat_env ([], [(?s, ?f)]) (runs, remove1 (?s, ?f) [(?s, ?f)])" by (rule weekly_step.commit[OF _ c(1)]) simp
  ultimately have reach: "weekly_reached repeat_env (runs, [])" using weekly_reached.intros(2) by fastforce
  obtain rep where rep: "rep = weekly_report repeat_env ?s runs" by simp
  note sound = weekly_report_sound[OF repeat_library reach rep]
  have "wp_metrics rep \<noteq> None" using sound c(2) st by blast
  then have len: "length (wp_rows rep) = test_weeks" and rows: "\<forall>r \<in> set (wp_rows rep). fo_actual r =
      (\<Sum>x\<leftarrow>filter (\<lambda>x. fo_month r \<le> rs_day x \<and> rs_day x < fo_month r + 7) (regular_sales ?s). rs_revenue x)"
    using sound by blast+
  have "hd (wp_rows rep) \<in> set (wp_rows rep)" using len by (intro hd_in_set) (auto simp: test_weeks_def)
  then show ?thesis using reach rep rows by blast
qed

end
