(* ===== verification/Spec2Isabelle.thy ===== *)
theory Spec2Isabelle
  imports Account_Views Customer_Report Stock_Spec Customer_Consolidation Refresh_Jobs Api_Cache Notifications Projection_Evidence Weekly_Research
begin

text \<open>
  A model of the Rosario Dairy backend, a Django application for the stock and the sales of a dairy shop
  on PostgreSQL. Every section names the source below \<^verbatim>\<open>src/\<close> that it translates; a definition has the
  name of the function, method or class it models, with a suffix where that name is taken.

  Parts and how they interact. Stock arrives in batches with an expiry date. A sale (checkout, order or an
  encoded past receipt) prices its cart, allocates an invoice number and draws each line from the batches
  of its product, first expired first. Adjustments write stock off, voids give it back. Every entry point
  of a sale is keyed by a request id, so that a repeated request is answered with the first result.
  Reports and history endpoints read these tables, through a response cache that every write invalidates
  when its marker is committed. Accounts decide who may do what. A background job refreshes the forecasts.

  Foundations.
  \<^item> \<open>Prelude\<close>: exceptions as values (\<open>exn\<close>, \<open>res\<close>, \<open>rbind\<close>), tables as lists of rows (\<open>row_get\<close>,
    \<open>row_put\<close>, \<open>row_ins\<close>, \<open>row_del\<close>) with the locale \<open>row_table\<close> of the laws of a keyed table, interpreted
    on each table of the program, decimals and rounding, printing and parsing of integers, \<open>strip\<close>.
  \<^item> \<open>Calendar\<close>: dates as ordinals, the Gregorian calendar, instants and the Manila time zone.
  \<^item> \<open>Api_Inputs\<close>: \<^verbatim>\<open>config/api_inputs.py\<close>, the checks of parsed JSON before any service runs.

  Inventory.
  \<^item> \<open>Inventory_Models\<close>: the tables of \<^verbatim>\<open>inventory/models\<close>, the extensible record \<open>inv_store\<close>.
  \<^item> \<open>Fefo\<close>: \<^verbatim>\<open>fefo_service.py\<close>; conservation of quantities, the order of consumption, success exactly
    when the sellable stock suffices.
  \<^item> \<open>Adjustment\<close>: \<^verbatim>\<open>adjustment_service.py\<close>, \<^verbatim>\<open>adjustment_submission_service.py\<close>; exact effect, expiry
    rules, one effect per request id.
  \<^item> \<open>Batch_Intake\<close>: batch numbers, validation, creation and deletion of batches.
  \<^item> \<open>Stock_Check\<close>: the product list with its prefetched batches, stock levels, thresholds, expiry alerts and
    the stock-adjustment view.
  \<^item> \<open>Product_Consolidation\<close>: merging duplicate products, with the refusal to delete one that is still referred to.

  Sales.
  \<^item> \<open>Sales_Models\<close>: the tables of \<^verbatim>\<open>sales/models\<close>, extending the store to \<open>sales_store\<close>.
  \<^item> \<open>Pricing\<close>, \<open>Invoice\<close>, \<open>Checkout\<close>, \<open>Orders\<close>, \<open>Encoding\<close>: \<^verbatim>\<open>item_pricing.py\<close> and
    \<^verbatim>\<open>payment_service.py\<close>, \<^verbatim>\<open>invoice_service.py\<close>, \<^verbatim>\<open>checkout_service.py\<close>, \<^verbatim>\<open>order_service.py\<close>, and
    \<^verbatim>\<open>submission_service.py\<close> with \<^verbatim>\<open>encoding_service.py\<close>.
  \<^item> \<open>Ledger\<close>: all committing service calls as the step relation \<open>system_step\<close> over one store, and the
    bookkeeping equation as its invariant.
  \<^item> \<open>Stock_Spec\<close>: the abstract specification, one counter per product, and the proof that checkout
    refines it through \<open>stock_view\<close>.
  \<^item> \<open>History\<close>, \<open>Sale_Views\<close>: what the history endpoints list for whom, and the endpoints that sell.
  \<^item> \<open>Customer_Names\<close>, \<open>Customer_Consolidation\<close>: \<^verbatim>\<open>customer_names.py\<close>, the names of
    \<^verbatim>\<open>importers/annual_sales.py\<close> and \<^verbatim>\<open>customer_consolidation.py\<close>: which labels are one customer, and the
    merge of their accounts.

  Reports.
  \<^item> \<open>Reports\<close>, \<open>Stock_Ledger\<close>, \<open>Customer_Report\<close>: \<^verbatim>\<open>reporting/services.py\<close>, the sales, inventory and
    customer reports, and who may read them.

  Accounts.
  \<^item> \<open>Accounts\<close>, \<open>Authentication\<close>, \<open>Account_Views\<close>: users and their administration; login, lockout,
    tokens, idle sessions, password reset and e-mail change; the endpoints with their permissions.

  System.
  \<^item> \<open>Refresh_Jobs\<close>: \<^verbatim>\<open>forecasting/refresh_jobs.py\<close>; requests and one worker interleaved statement by
    statement under an advisory lock (\<open>refresh_step\<close>).
  \<^item> \<open>Data_Cache\<close>, \<open>Api_Cache\<close>: \<^verbatim>\<open>config/cache_invalidation.py\<close> as interleaved writers, callbacks and
    readers (\<open>cache_step\<close>), a plain save committing its row before its marker; the two-level payload store,
    which may forget or decline entries, and the wrapper of the list endpoints.
  \<^item> \<open>Notifications\<close>: \<^verbatim>\<open>systemsetting/notifications.py\<close> and its inbox endpoint, live alerts and the
    acknowledgements of each user.
  \<^item> \<open>Forecast_Data\<close>, \<open>Forecast_Learning\<close>, \<open>Forecast_Lifecycle\<close>: \<^verbatim>\<open>forecasting/data.py\<close>, \<^verbatim>\<open>learning.py\<close> with
    \<^verbatim>\<open>benchmarks.py\<close>, and \<^verbatim>\<open>lifecycle.py\<close>: the sales a forecast may use, the choice of a model that looks at the
    past only, and the tables of attested months, runs, issued forecasts, scores and promotions as a
    transition system (\<open>lifecycle_step\<close>) with the quality gate.
  \<^item> \<open>Projections\<close>: \<^verbatim>\<open>forecasting/provisional.py\<close>, the rough projections of the charts: series with unknown periods,
    the choice of a model by periods it did not see, points with their bounds, and saved runs that a chart
    shows only for the ledger and the target periods they were built from; a component taken over from an
    earlier run is what a fresh build of the same sales would make (\<open>comps_fresh\<close>).
  \<^item> \<open>Projection_Evidence\<close>: \<^verbatim>\<open>forecasting/prospective.py\<close>, the first saved projection of every target period,
    reviews of completed periods and scores against reviewed sales (\<open>evidence_step\<close>), and the report over them. The
    columns of a saved projection hold twenty digits; those of a score are unbounded here.
  \<^item> \<open>Weekly_Research\<close>: \<^verbatim>\<open>forecasting/weekly.py\<close>, the weeks of the recorded history, weekly models and
    baselines, saved runs under interleaved refreshes (\<open>weekly_step\<close>) and the report that checks them.

  Conventions. Money and quantities are whole hundredths (\<open>dec\<close>), line revenue is ten-thousandths where a
  quantity meets a price. Strings are lists of characters; the middle dot of a label is CHR 0xB7. A date is
  an ordinal and an instant a number of microseconds. A new row gets a primary key larger than every
  existing one. A service inside \<^verbatim>\<open>transaction.atomic\<close> that raises returns no store, because the database
  rolls back; one that commits before it raises returns its outcome together with the store. Row locks and
  advisory locks make a service call one step, so that concurrency is the order of the steps; the refresh
  jobs and the cache, whose code runs between transactions, are interleaved at that finer grain.

  Parameters. Code that is not in the repository appears as arguments: the validation of decimals, e-mail
  addresses and UUIDs by the framework (\<open>drf_decimal\<close> states what is relied on), password hashing and model
  validation, the token library and its blacklist, SHA-256 fingerprints, the collation of the database as a
  sort key, the clock readings of each call, user names, and the creation time of a batch row. In the cache
  a digest is the tuple that is digested and a UUID is the next number of a supply, ordered by creation.

  Bounds. The invoice counter searches upwards from its last value with a measure: the numbers taken in a
  year are finite, and it stops with an error at the largest 64-bit integer. Batch creation retries up to
  three times as the code does. The month loop of the customer report and the loop over the periods of a
  chart are functions with a measure.

  Not modelled. Estimating and filtering state-space models is numerical code on third-party libraries, an
  argument of the models of the forecasts; the beta graphs and the pattern statistics around it are left
  out. The PDF,
  the serializers that only rename fields, paging, live events over Redis, rate limits, settings and
  routing, importers of past years, SQL backups, deployment scripts and management commands are input and
  output around what is modelled.
\<close>

end
